(* ===== verification/Go_Prelude.thy ===== *)
theory Go_Prelude
  imports Main "HOL-Library.Sublist"
begin

text \<open>
  The part of the Go language and of its standard library that the modelled components use,
  and the generic lemmas their proofs share.

  A Go \<open>string\<close> is a sequence of bytes and is modelled by \<^typ>\<open>string\<close> (a \<^typ>\<open>char\<close> is a byte).
  A Go \<open>int\<close> (the program is built for amd64 and arm64 only) and an \<open>int64\<close> is an
  \<^typ>\<open>int\<close>; where a sum or product may leave the 64-bit range the definition goes through
  \<open>wrap64\<close>, and values that come from outside are bounded by \<open>in_int64\<close> where a lemma needs it.
  A Go \<open>map[K]V\<close> is a function into \<open>option\<close> when only lookups matter, and an association
  list where the program iterates over it.
\<close>

section \<open>Collections of facts\<close>

named_theorems go_string "evaluation rules for the string functions"
named_theorems inv_intro "preservation of component invariants"

section \<open>Machine integers\<close>

definition max_int64 :: int where
  "max_int64 = 9223372036854775807"

definition min_int64 :: int where
  "min_int64 = - 9223372036854775808"

definition in_int64 :: "int \<Rightarrow> bool" where
  "in_int64 x \<longleftrightarrow> min_int64 \<le> x \<and> x \<le> max_int64"

definition wrap64 :: "int \<Rightarrow> int" where
  \<comment> \<open>two's complement wrap-around of a 64-bit operation\<close>
  "wrap64 x = (x + 9223372036854775808) mod 18446744073709551616 - 9223372036854775808"

section \<open>Package strings\<close>

definition ascii_lower :: "char \<Rightarrow> char" where
  "ascii_lower c = (let n = of_char c :: nat in if 65 \<le> n \<and> n \<le> 90 then char_of (n + 32) else c)"

definition ascii_upper :: "char \<Rightarrow> char" where
  "ascii_upper c = (let n = of_char c :: nat in if 97 \<le> n \<and> n \<le> 122 then char_of (n - 32) else c)"

text \<open>
  \<open>strings.ToLower\<close> and \<open>strings.ToUpper\<close> on the ASCII letters; bytes above 127 are left alone
  (Go folds non-ASCII letters too; the modelled code compares the result with ASCII keywords, which
  only U+0130 and U+212A could reach, and these are not modelled).
\<close>

definition to_lower :: "string \<Rightarrow> string" where
  "to_lower = map ascii_lower"

definition equal_fold :: "string \<Rightarrow> string \<Rightarrow> bool" where
  \<comment> \<open>\<open>strings.EqualFold\<close>\<close>
  "equal_fold s t \<longleftrightarrow> to_lower s = to_lower t"

definition to_upper :: "string \<Rightarrow> string" where
  "to_upper = map ascii_upper"

text \<open>The UTF-8 encodings of the code points that \<open>unicode.IsSpace\<close> accepts.\<close>

definition space_seqs :: "string list" where
  "space_seqs =
     [[CHR 0x20], [CHR 0x09], [CHR 0x0A], [CHR 0x0B], [CHR 0x0C], [CHR 0x0D],
      [CHR 0xC2, CHR 0x85], [CHR 0xC2, CHR 0xA0], [CHR 0xE1, CHR 0x9A, CHR 0x80],
      [CHR 0xE2, CHR 0x80, CHR 0x80], [CHR 0xE2, CHR 0x80, CHR 0x81], [CHR 0xE2, CHR 0x80, CHR 0x82],
      [CHR 0xE2, CHR 0x80, CHR 0x83], [CHR 0xE2, CHR 0x80, CHR 0x84], [CHR 0xE2, CHR 0x80, CHR 0x85],
      [CHR 0xE2, CHR 0x80, CHR 0x86], [CHR 0xE2, CHR 0x80, CHR 0x87], [CHR 0xE2, CHR 0x80, CHR 0x88],
      [CHR 0xE2, CHR 0x80, CHR 0x89], [CHR 0xE2, CHR 0x80, CHR 0x8A], [CHR 0xE2, CHR 0x80, CHR 0xA8],
      [CHR 0xE2, CHR 0x80, CHR 0xA9], [CHR 0xE2, CHR 0x80, CHR 0xAF], [CHR 0xE2, CHR 0x81, CHR 0x9F],
      [CHR 0xE3, CHR 0x80, CHR 0x80]]"

fun strip_one :: "string list \<Rightarrow> string \<Rightarrow> string option" where
  "strip_one [] s = None"
| "strip_one (p # ps) s =
     (if p \<noteq> [] \<and> take (length p) s = p then Some (drop (length p) s) else strip_one ps s)"

lemma strip_one_shorter: "strip_one ps s = Some t \<Longrightarrow> length t < length s"
proof (induction ps)
  case (Cons p ps)
  show ?case
  proof (cases "p \<noteq> [] \<and> take (length p) s = p")
    case True
    then have "s \<noteq> []" by auto
    with True Cons.prems show ?thesis by auto
  next
    case False
    with Cons.prems Cons.IH show ?thesis by (simp split: if_splits)
  qed
qed simp

function strip_left :: "string list \<Rightarrow> string \<Rightarrow> string" where
  "strip_left ps s = (case strip_one ps s of None \<Rightarrow> s | Some t \<Rightarrow> strip_left ps t)"
  by pat_completeness auto
termination
  by (relation "measure (\<lambda>(ps, s). length s)") (auto dest: strip_one_shorter)

declare strip_left.simps [simp del]

definition strip_right :: "string list \<Rightarrow> string \<Rightarrow> string" where
  "strip_right ps s = rev (strip_left (map rev ps) (rev s))"

text \<open>\<open>strings.TrimSpace\<close>.\<close>

definition trim_space :: "string \<Rightarrow> string" where
  "trim_space s = strip_right space_seqs (strip_left space_seqs s)"

text \<open>\<open>strings.Contains\<close>, \<open>strings.HasPrefix\<close>.\<close>

definition has_prefix :: "string \<Rightarrow> string \<Rightarrow> bool" where
  "has_prefix s p \<longleftrightarrow> take (length p) s = p"

fun str_contains :: "string \<Rightarrow> string \<Rightarrow> bool" where
  "str_contains [] p = (p = [])"
| "str_contains (c # s) p = (has_prefix (c # s) p \<or> str_contains s p)"

text \<open>\<open>strings.ReplaceAll\<close> with a non-empty old string.\<close>

function replace_all :: "string \<Rightarrow> string \<Rightarrow> string \<Rightarrow> string" where
  "replace_all s old new =
     (if s = [] \<or> old = [] then s
      else if has_prefix s old then new @ replace_all (drop (length old) s) old new
      else hd s # replace_all (tl s) old new)"
  by pat_completeness auto
termination
  by (relation "measure (\<lambda>(s, old, new). length s)") auto

declare replace_all.simps [simp del]

text \<open>\<open>strings.Fields\<close>.\<close>

function str_fields_loop :: "string \<Rightarrow> string \<Rightarrow> string list" where
  "str_fields_loop cur s =
     (if s = [] then (if cur = [] then [] else [cur])
      else case strip_one space_seqs s of
             Some t \<Rightarrow> (if cur = [] then [] else [cur]) @ str_fields_loop [] t
           | None \<Rightarrow> str_fields_loop (cur @ [hd s]) (tl s))"
  by pat_completeness auto
termination
  by (relation "measure (\<lambda>(cur, s). length s)") (auto dest: strip_one_shorter)

declare str_fields_loop.simps [simp del]

definition str_fields :: "string \<Rightarrow> string list" where
  "str_fields s = str_fields_loop [] s"

text \<open>\<open>strings.Split\<close> and \<open>strings.SplitN(s, sep, 2)\<close> with a one-byte separator.\<close>

fun split_on :: "char \<Rightarrow> string \<Rightarrow> string list" where
  "split_on d [] = [[]]"
| "split_on d (c # s) =
     (if c = d then [] # split_on d s
      else (case split_on d s of [] \<Rightarrow> [[c]] | w # ws \<Rightarrow> (c # w) # ws))"

definition split_n2 :: "char \<Rightarrow> string \<Rightarrow> string list" where
  "split_n2 d s =
     (if d \<in> set s then [takeWhile (\<lambda>c. c \<noteq> d) s, tl (dropWhile (\<lambda>c. c \<noteq> d) s)] else [s])"

text \<open>\<open>strings.Join\<close>.\<close>

fun str_join :: "string \<Rightarrow> string list \<Rightarrow> string" where
  "str_join sep [] = []"
| "str_join sep [w] = w"
| "str_join sep (w # v # ws) = w @ sep @ str_join sep (v # ws)"

section \<open>Package strconv\<close>

definition is_digit :: "char \<Rightarrow> bool" where
  "is_digit c \<longleftrightarrow> (let n = of_char c :: nat in 48 \<le> n \<and> n \<le> 57)"

definition digit_val :: "char \<Rightarrow> nat" where
  "digit_val c = of_char c - 48"

definition digits_val :: "string \<Rightarrow> nat" where
  "digits_val s = foldl (\<lambda>a c. a * 10 + digit_val c) 0 s"

text \<open>
  \<open>strconv.Atoi\<close>: an optional sign and at least one digit; a syntax error and a value outside
  the \<open>int\<close> range both give \<open>None\<close> (the callers only ask whether there was an error).
\<close>

definition parse_unsigned :: "string \<Rightarrow> nat option" where
  "parse_unsigned s = (if s \<noteq> [] \<and> list_all is_digit s then Some (digits_val s) else None)"

definition atoi :: "string \<Rightarrow> int option" where
  "atoi s =
     (let neg = (s \<noteq> [] \<and> hd s = CHR ''-'');
          body = (if s \<noteq> [] \<and> (hd s = CHR ''-'' \<or> hd s = CHR ''+'') then tl s else s)
      in case parse_unsigned body of
           None \<Rightarrow> None
         | Some n \<Rightarrow> (let v = (if neg then - int n else int n)
                     in if in_int64 v then Some v else None))"

definition digit_char :: "nat \<Rightarrow> char" where
  "digit_char d = char_of (48 + d)"

fun nat_digits :: "nat \<Rightarrow> string" where
  "nat_digits n = (if n < 10 then [digit_char n] else nat_digits (n div 10) @ [digit_char (n mod 10)])"

declare nat_digits.simps [simp del]

text \<open>\<open>strconv.Itoa\<close>.\<close>

definition itoa :: "int \<Rightarrow> string" where
  "itoa x = (if x < 0 then CHR ''-'' # nat_digits (nat (- x)) else nat_digits (nat x))"

section \<open>Lemmas: integers\<close>

lemma wrap64_id [simp]: "in_int64 x \<Longrightarrow> wrap64 x = x"
  by (simp add: wrap64_def in_int64_def max_int64_def min_int64_def)

lemma wrap64_in [simp]: "in_int64 (wrap64 x)"
proof -
  have "0 \<le> (x + 9223372036854775808) mod 18446744073709551616"
    and "(x + 9223372036854775808) mod 18446744073709551616 < 18446744073709551616"
    by simp_all
  then show ?thesis
    unfolding wrap64_def in_int64_def max_int64_def min_int64_def by linarith
qed

lemmas int64_defs = in_int64_def max_int64_def min_int64_def

section \<open>Lemmas: strings\<close>

definition plain_char :: "char \<Rightarrow> bool" where
  \<comment> \<open>a byte that neither begins nor ends an encoded white-space character\<close>
  "plain_char c \<longleftrightarrow> 33 \<le> (of_char c :: nat) \<and> (of_char c :: nat) < 127"

lemma strip_one_first: "s \<noteq> [] \<Longrightarrow> \<forall>p \<in> set ps. p \<noteq> [] \<longrightarrow> hd p \<noteq> hd s \<Longrightarrow> strip_one ps s = None"
proof (induction ps)
  case Nil
  then show ?case by simp
next
  case (Cons p ps)
  have "\<not> (p \<noteq> [] \<and> take (length p) s = p)"
  proof
    assume p: "p \<noteq> [] \<and> take (length p) s = p"
    then have "hd p = hd s"
      using Cons.prems(1) by (metis hd_take length_greater_0_conv)
    with p Cons.prems(2) show False by simp
  qed
  with Cons show ?case by simp
qed

lemma strip_one_Nil [simp]: "strip_one ps [] = None"
  by (induction ps) auto

lemma strip_left_Nil [simp]: "strip_left ps [] = []"
  by (subst strip_left.simps) simp

lemma strip_left_first:
  "s \<noteq> [] \<Longrightarrow> \<forall>p \<in> set ps. p \<noteq> [] \<longrightarrow> hd p \<noteq> hd s \<Longrightarrow> strip_left ps s = s"
  by (subst strip_left.simps) (simp add: strip_one_first)

lemma space_seqs_hd: "plain_char c \<Longrightarrow> p \<in> set space_seqs \<Longrightarrow> hd p \<noteq> c"
  by (auto simp: space_seqs_def plain_char_def)

lemma space_seqs_last: "plain_char c \<Longrightarrow> p \<in> set space_seqs \<Longrightarrow> last p \<noteq> c"
  by (auto simp: space_seqs_def plain_char_def)

lemma trim_space_Nil [simp]: "trim_space [] = []"
  by (simp add: trim_space_def strip_right_def)

lemma trim_space_plain [simp, go_string]:
  assumes "plain_char (hd s)" and "plain_char (last s)"
  shows "trim_space s = s"
proof (cases "s = []")
  case False
  have "strip_left space_seqs s = s"
    using False assms(1) by (intro strip_left_first) (auto dest: space_seqs_hd)
  moreover have "strip_left (map rev space_seqs) (rev s) = rev s"
    using False assms(2)
    by (intro strip_left_first) (auto simp: hd_rev dest: space_seqs_last)
  ultimately show ?thesis
    by (simp add: trim_space_def strip_right_def)
qed simp

lemma strip_left_no_prefix: "strip_one ps (strip_left ps s) = None"
proof (induction ps s rule: strip_left.induct)
  case (1 ps s)
  then show ?case
    by (subst strip_left.simps) (auto split: option.splits)
qed

lemma strip_one_None_iff: "strip_one ps s = None \<longleftrightarrow> (\<forall>p \<in> set ps. p \<noteq> [] \<longrightarrow> take (length p) s \<noteq> p)"
  by (induction ps) auto

lemma strip_one_suffix: "strip_one ps s = Some t \<Longrightarrow> \<exists>a. s = a @ t"
proof (induction ps)
  case (Cons p ps)
  show ?case
  proof (cases "p \<noteq> [] \<and> take (length p) s = p")
    case True
    then have "s = p @ t" using Cons.prems by (metis append_take_drop_id option.inject strip_one.simps(2))
    then show ?thesis ..
  next
    case False
    with Cons show ?thesis by (simp split: if_splits)
  qed
qed simp

lemma strip_left_suffix: "\<exists>a. s = a @ strip_left ps s"
proof (induction ps s rule: strip_left.induct)
  case (1 ps s)
  show ?case
  proof (cases "strip_one ps s")
    case (Some t)
    with 1 obtain b where "t = b @ strip_left ps t" by blast
    moreover obtain a where "s = a @ t" using strip_one_suffix [OF Some] by blast
    moreover have "strip_left ps s = strip_left ps t" using Some by (subst strip_left.simps) simp
    ultimately have "s = (a @ b) @ strip_left ps s" by simp
    then show ?thesis ..
  qed (simp add: strip_left.simps [of ps s])
qed

lemma strip_left_fixed: "strip_one ps s = None \<Longrightarrow> strip_left ps s = s"
  by (simp add: strip_left.simps [of ps s])

lemma strip_one_prefix_None:
  assumes "strip_one ps (a @ b) = None"
  shows "strip_one ps a = None"
  using assms by (fastforce simp: strip_one_None_iff)

lemma trim_space_idem [simp]: "trim_space (trim_space s) = trim_space s"
proof -
  let ?l = "strip_left space_seqs s" and ?rs = "map rev space_seqs"
  let ?u = "trim_space s"
  have rev_u: "rev ?u = strip_left ?rs (rev ?l)" by (simp add: trim_space_def strip_right_def)
  obtain b where "rev ?l = b @ rev ?u" using strip_left_suffix [of "rev ?l" ?rs] rev_u by auto
  then have "?l = ?u @ rev b" by (metis rev_append rev_rev_ident)
  then have "strip_one space_seqs (?u @ rev b) = None" by (metis strip_left_no_prefix)
  then have "strip_left space_seqs ?u = ?u" by (intro strip_left_fixed) (rule strip_one_prefix_None)
  moreover have "strip_left ?rs (rev ?u) = rev ?u"
    by (intro strip_left_fixed) (simp add: rev_u strip_left_no_prefix)
  ultimately show ?thesis by (simp add: trim_space_def [of ?u] strip_right_def)
qed

lemma space_seqs_no_plain: "p \<in> set space_seqs \<Longrightarrow> c \<in> set p \<Longrightarrow> \<not> plain_char c"
  by (auto simp: space_seqs_def plain_char_def)

lemma trim_space_no_prefix: "strip_one space_seqs (trim_space s) = None"
proof -
  let ?l = "strip_left space_seqs s"
  obtain b where "rev ?l = b @ rev (trim_space s)"
    using strip_left_suffix [of "rev ?l" "map rev space_seqs"] by (auto simp: trim_space_def strip_right_def)
  then have "?l = trim_space s @ rev b" by (metis rev_append rev_rev_ident)
  then show ?thesis by (metis strip_left_no_prefix strip_one_prefix_None)
qed

text \<open>A trimmed word followed by plain characters is trimmed.\<close>

lemma trim_space_extend:
  assumes "b \<noteq> []" "plain_char (hd b)" "plain_char (last b)"
  shows "trim_space (trim_space k @ b) = trim_space k @ b"
proof -
  let ?k = "trim_space k"
  have "strip_one space_seqs (?k @ b) = None"
    unfolding strip_one_None_iff
  proof (intro ballI impI notI)
    fix p assume p: "p \<in> set space_seqs" "p \<noteq> []" and eq: "take (length p) (?k @ b) = p"
    show False
    proof (cases "length p \<le> length ?k")
      case True
      then have "take (length p) ?k = p" using eq by simp
      then show False using p trim_space_no_prefix [of k] by (auto simp: strip_one_None_iff)
    next
      case False
      then have "hd b \<in> set (take (length p) (?k @ b))"
        using assms(1) by (cases b) (auto simp: take_Cons')
      then have "hd b \<in> set p" by (simp only: eq)
      then show False using p(1) assms(2) space_seqs_no_plain by blast
    qed
  qed
  then have "strip_left space_seqs (?k @ b) = ?k @ b" by (rule strip_left_fixed)
  moreover have "strip_left (map rev space_seqs) (rev (?k @ b)) = rev (?k @ b)"
    using assms by (intro strip_left_first) (auto simp: hd_append hd_rev dest: space_seqs_last)
  ultimately show ?thesis by (simp only: trim_space_def [of "?k @ b"] strip_right_def rev_rev_ident)
qed

lemma split_on_nonempty [simp]: "split_on d s \<noteq> []"
  by (cases s) (auto split: list.splits)

lemma split_on_no_sep: "d \<notin> set s \<Longrightarrow> split_on d s = [s]"
  by (induction s) auto

lemma split_on_append:
  "d \<notin> set a \<Longrightarrow> split_on d (a @ d # b) = a # split_on d b"
proof (induction a)
  case (Cons c a)
  then show ?case by (auto split: list.splits)
qed simp

lemma split_on_join:
  assumes "ws \<noteq> []" and "\<forall>w \<in> set ws. d \<notin> set w"
  shows "split_on d (str_join [d] ws) = ws"
  using assms
  by (induction "[d]" ws rule: str_join.induct) (auto simp: split_on_no_sep split_on_append)

lemma str_join_ends:
  "ws \<noteq> [] \<Longrightarrow> \<forall>w \<in> set ws. w \<noteq> [] \<Longrightarrow>
   str_join sep ws \<noteq> [] \<and> hd (str_join sep ws) = hd (hd ws) \<and> last (str_join sep ws) = last (last ws)"
  by (induction sep ws rule: str_join.induct) auto

lemma split_on_words: "w \<in> set (split_on d s) \<Longrightarrow> d \<notin> set w"
proof (induction s arbitrary: w)
  case (Cons c s)
  then show ?case
    by (cases "split_on d s") (auto split: if_splits)
qed simp

lemma has_prefix_Cons: "has_prefix (c # s) [d] \<longleftrightarrow> c = d"
  by (simp add: has_prefix_def)

lemma str_contains_char [simp]: "str_contains s [d] \<longleftrightarrow> d \<in> set s"
  by (induction s) (auto simp: has_prefix_Cons)

lemma replace_all_Nil [simp]: "replace_all [] old new = []"
  by (simp add: replace_all.simps)

lemma replace_all_absent:
  "hd old \<notin> set s \<Longrightarrow> replace_all s old new = s"
proof (induction s)
  case (Cons c s)
  have "\<not> has_prefix (c # s) old" if "old \<noteq> []"
    using Cons.prems that by (cases old) (auto simp: has_prefix_def)
  with Cons show ?case
    by (auto simp: replace_all.simps [of "c # s"])
qed simp

lemma replace_all_char: "replace_all s [a] [b] = map (\<lambda>c. if c = a then b else c) s"
  by (induction s) (auto simp: replace_all.simps [of "_ # _"] has_prefix_def)

lemma replace_all_delete_char: "replace_all s [a] [] = filter (\<lambda>c. c \<noteq> a) s"
  by (induction s) (auto simp: replace_all.simps [of "_ # _"] has_prefix_def)

section \<open>Lemmas: decimal numbers\<close>

lemma digit_char_props:
  assumes "d < 10"
  shows "is_digit (digit_char d)" and "digit_val (digit_char d) = d" and "plain_char (digit_char d)"
  using assms by (simp_all add: digit_char_def is_digit_def digit_val_def plain_char_def)

lemma digits_val_snoc: "digits_val (s @ [c]) = digits_val s * 10 + digit_val c"
  by (simp add: digits_val_def)

lemma nat_digits_props:
  "nat_digits n \<noteq> [] \<and> list_all is_digit (nat_digits n) \<and> digits_val (nat_digits n) = n"
proof (induction n rule: nat_digits.induct)
  case (1 n)
  show ?case
  proof (cases "n < 10")
    case True
    then show ?thesis
      by (simp add: nat_digits.simps [of n] digit_char_props digits_val_def)
  next
    case False
    with 1 have IH: "list_all is_digit (nat_digits (n div 10))" "digits_val (nat_digits (n div 10)) = n div 10"
      by auto
    with False show ?thesis
      by (simp add: nat_digits.simps [of n] digit_char_props digits_val_snoc)
  qed
qed

lemmas nat_digits_nonempty [simp] = nat_digits_props [THEN conjunct1]
lemmas nat_digits_all = nat_digits_props [THEN conjunct2, THEN conjunct1]
lemmas nat_digits_val = nat_digits_props [THEN conjunct2, THEN conjunct2]

lemma digit_not_other:
  assumes "is_digit c"
  shows "c \<noteq> CHR ''-''" and "c \<noteq> CHR ''+''" and "c \<noteq> CHR '':''" and "c \<noteq> CHR '',''"
    and "c \<noteq> CHR '' ''" and "c \<noteq> CHR 0xEF" and "plain_char c"
  using assms by (auto simp: is_digit_def plain_char_def Let_def)

lemma nat_digits_in: "c \<in> set (nat_digits n) \<Longrightarrow> is_digit c"
  using nat_digits_all [of n] by (auto simp: list_all_iff)

lemma atoi_nat_digits: "int n \<le> max_int64 \<Longrightarrow> atoi (nat_digits n) = Some (int n)"
proof -
  assume n: "int n \<le> max_int64"
  have "is_digit (hd (nat_digits n))"
    using nat_digits_in [of "hd (nat_digits n)" n] by simp
  then show ?thesis
    using n digit_not_other(1,2) nat_digits_all [of n]
    by (simp add: atoi_def parse_unsigned_def nat_digits_val int64_defs)
qed

lemma atoi_itoa: "in_int64 x \<Longrightarrow> atoi (itoa x) = Some x"
proof (cases "x < 0")
  case True
  assume "in_int64 x"
  with True show ?thesis
    by (simp add: itoa_def atoi_def parse_unsigned_def nat_digits_all nat_digits_val)
next
  case False
  assume "in_int64 x"
  with False show ?thesis
    using atoi_nat_digits [of "nat x"] by (simp add: itoa_def int64_defs)
qed

lemma itoa_nonneg_digits: "0 \<le> x \<Longrightarrow> c \<in> set (itoa x) \<Longrightarrow> is_digit c"
  by (simp add: itoa_def nat_digits_in)

lemma itoa_nonempty [simp]: "itoa x \<noteq> []"
  by (simp add: itoa_def)

lemma atoi_range: "atoi s = Some v \<Longrightarrow> in_int64 v"
  by (auto simp: atoi_def Let_def split: option.splits if_splits)

lemma itoa_inj: "itoa x = itoa y \<Longrightarrow> x = y"
proof -
  assume eq: "itoa x = itoa y"
  have hd: "hd (itoa z) = CHR ''-'' \<longleftrightarrow> z < 0" for z
    using itoa_nonneg_digits [of z "hd (itoa z)"] digit_not_other(1) by (cases "z < 0") (auto simp: itoa_def)
  have "(x < 0) = (y < 0)" using hd [of x] hd [of y] eq by simp
  moreover have "nat_digits m = nat_digits n \<Longrightarrow> m = n" for m n by (metis nat_digits_val)
  ultimately show ?thesis using eq by (fastforce simp: itoa_def split: if_splits)
qed

end
