(* ===== verification/Nft_Text.thy ===== *)
theory Nft_Text
  imports Go_Prelude
begin

text \<open>
  The textual interface to nft: the comments the panel attaches to its rules
  (\<open>service/nftables_rule_comment.go\<close>) and the parsers of \<open>nft --handle --numeric list chain\<close>
  (\<open>service/nftables.go\<close>, \<open>service/nftables_comment_cleanup.go\<close>,
  \<open>service/mihomo_nft_snapshot.go\<close>). The three regular expressions of the source are written as
  leftmost searches; nft itself is a parameter (the text a listing returns).

  The lemmas state what the parsers recover from a listing in the format nft prints: the
  comment of every rule exactly (quotes and backslashes included), its handle when the comment
  does not itself contain the word \<open>handle\<close>, and its byte counter.
\<close>

section \<open>Regular expressions\<close>

definition re_space :: "char \<Rightarrow> bool" where  \<comment> \<open>\<open>\s\<close>\<close>
  "re_space c \<longleftrightarrow> c \<in> {CHR 0x09, CHR 0x0A, CHR 0x0C, CHR 0x0D, CHR 0x20}"

definition re_word :: "char \<Rightarrow> bool" where  \<comment> \<open>the class of \<open>\b\<close>\<close>
  "re_word c \<longleftrightarrow>
     (let n = of_char c :: nat
      in (48 \<le> n \<and> n \<le> 57) \<or> (65 \<le> n \<and> n \<le> 90) \<or> (97 \<le> n \<and> n \<le> 122) \<or> n = 95)"

definition re_lit :: "string \<Rightarrow> string \<Rightarrow> string option" where
  "re_lit p s = (if has_prefix s p then Some (drop (length p) s) else None)"

definition re_spaces :: "string \<Rightarrow> string option" where  \<comment> \<open>\<open>\s+\<close>\<close>
  "re_spaces s = (if s \<noteq> [] \<and> re_space (hd s) then Some (dropWhile re_space s) else None)"

definition re_digits :: "string \<Rightarrow> (string \<times> string) option" where  \<comment> \<open>\<open>\d+\<close>\<close>
  "re_digits s =
     (if s \<noteq> [] \<and> is_digit (hd s) then Some (takeWhile is_digit s, dropWhile is_digit s) else None)"

fun re_find :: "(string \<Rightarrow> 'a option) \<Rightarrow> string \<Rightarrow> 'a option" where
  \<comment> \<open>leftmost match\<close>
  "re_find m [] = m []"
| "re_find m (c # s) = (case m (c # s) of Some r \<Rightarrow> Some r | None \<Rightarrow> re_find m s)"

definition handle_match :: "string \<Rightarrow> string option" where
  "handle_match s =
     Option.bind (re_lit ''handle'' s) (\<lambda>s.
     Option.bind (re_spaces s) (\<lambda>s.
     map_option fst (re_digits s)))"

definition nftHandleRe :: "string \<Rightarrow> string option" where
  "nftHandleRe = re_find handle_match"

fun comment_body :: "string \<Rightarrow> string option" where
  \<comment> \<open>\<open>((?:[^"\\]|\\.)*)"\<close> behind the opening quote\<close>
  "comment_body [] = None"
| "comment_body (c # s) =
     (if c = CHR 0x22 then Some []
      else if c = CHR 0x5C then
        (case s of [] \<Rightarrow> None
         | d # t \<Rightarrow> if d = CHR 0x0A then None else map_option (\<lambda>b. c # d # b) (comment_body t))
      else map_option ((#) c) (comment_body s))"

definition comment_match :: "string \<Rightarrow> string option" where
  "comment_match s =
     Option.bind (re_lit ''comment'' s) (\<lambda>s.
     Option.bind (re_spaces s) (\<lambda>s.
     Option.bind (re_lit [CHR 0x22] s) comment_body))"

definition nftCommentRe :: "string \<Rightarrow> string option" where
  "nftCommentRe = re_find comment_match"

definition counter_match :: "string \<Rightarrow> string option" where
  "counter_match s =
     Option.bind (re_lit ''counter'' s) (\<lambda>s.
     Option.bind (re_spaces s) (\<lambda>s.
     Option.bind (re_lit ''packets'' s) (\<lambda>s.
     Option.bind (re_spaces s) (\<lambda>s.
     Option.bind (re_digits s) (\<lambda>(_, s).
     Option.bind (re_spaces s) (\<lambda>s.
     Option.bind (re_lit ''bytes'' s) (\<lambda>s.
     Option.bind (re_spaces s) (\<lambda>s.
     Option.bind (re_digits s) (\<lambda>(d, s).
       if s \<noteq> [] \<and> re_word (hd s) then None else Some d)))))))))"

fun counter_find :: "bool \<Rightarrow> string \<Rightarrow> string option" where
  \<comment> \<open>the flag says whether the byte before is a word character, so that \<open>\b\<close> fails\<close>
  "counter_find w [] = None"
| "counter_find w (c # s) =
     (case (if w then None else counter_match (c # s)) of
        Some r \<Rightarrow> Some r
      | None \<Rightarrow> counter_find (re_word c) s)"

definition nftCounterBytesRe :: "string \<Rightarrow> string option" where
  "nftCounterBytesRe = counter_find False"

section \<open>Rule comments\<close>

definition unescapeNftComment :: "string \<Rightarrow> string" where
  "unescapeNftComment raw =
     replace_all (replace_all raw [CHR 0x5C, CHR 0x5C] [CHR 0x5C]) [CHR 0x5C, CHR 0x22] [CHR 0x22]"

definition extractRuleComment :: "string \<Rightarrow> string option" where
  "extractRuleComment line = map_option unescapeNftComment (nftCommentRe line)"

definition ruleLineHasExactComment :: "string \<Rightarrow> string \<Rightarrow> bool" where
  "ruleLineHasExactComment line comment \<longleftrightarrow> extractRuleComment line = Some comment"

record nftRuleCommentProfile = comment_prefix :: string

definition comment_base :: "nftRuleCommentProfile \<Rightarrow> string \<Rightarrow> string" where
  "comment_base p tag = comment_prefix p @ trim_space tag"

definition comment_in :: "nftRuleCommentProfile \<Rightarrow> string \<Rightarrow> string" where
  "comment_in p tag = comment_base p tag @ ''_in''"

definition comment_out :: "nftRuleCommentProfile \<Rightarrow> string \<Rightarrow> string" where
  "comment_out p tag = comment_base p tag @ ''_out''"

definition comment_redirect :: "nftRuleCommentProfile \<Rightarrow> string \<Rightarrow> string" where
  "comment_redirect p tag = comment_base p tag @ ''_redirect''"

definition comment_forward :: "nftRuleCommentProfile \<Rightarrow> string \<Rightarrow> string" where
  "comment_forward p tag = comment_base p tag @ ''_forward''"

definition singboxNftRuleComments :: nftRuleCommentProfile where
  "singboxNftRuleComments = \<lparr>comment_prefix = ''kwor_inbound_''\<rparr>"

definition mihomoNftRuleComments :: nftRuleCommentProfile where
  "mihomoNftRuleComments = \<lparr>comment_prefix = ''kwor_mihomo_inbound_''\<rparr>"

section \<open>Listings\<close>

definition scan_handle :: "string \<Rightarrow> int" where
  \<comment> \<open>\<open>fmt.Sscanf(m[1], "%d", &handle)\<close> with \<open>handle\<close> zero before\<close>
  "scan_handle ds = (case atoi ds of Some h \<Rightarrow> h | None \<Rightarrow> 0)"

definition line_handle :: "string \<Rightarrow> string \<Rightarrow> int option" where
  "line_handle comment line =
     (if ruleLineHasExactComment line comment \<and> str_contains line ''handle'' then
        (case nftHandleRe line of
           None \<Rightarrow> None
         | Some ds \<Rightarrow> (let h = scan_handle ds in if h > 0 then Some h else None))
      else None)"

fun first_handle :: "string \<Rightarrow> string list \<Rightarrow> int" where
  "first_handle comment [] = 0"
| "first_handle comment (l # ls) =
     (case line_handle comment l of Some h \<Rightarrow> h | None \<Rightarrow> first_handle comment ls)"

definition text_lines :: "string \<Rightarrow> string list" where
  "text_lines out = split_on (CHR 0x0A) out"

definition findHandleByComment :: "string option \<Rightarrow> string \<Rightarrow> int" where
  \<comment> \<open>the first argument is what the listing of the chain returns, \<open>None\<close> when nft fails\<close>
  "findHandleByComment out comment =
     (if comment = [] then 0
      else case out of None \<Rightarrow> 0 | Some text \<Rightarrow> first_handle comment (text_lines text))"

definition exact_handle :: "string \<Rightarrow> string \<Rightarrow> int option" where
  "exact_handle comment line =
     (if ruleLineHasExactComment line comment then
        (case nftHandleRe line of
           None \<Rightarrow> None
         | Some ds \<Rightarrow> (case atoi ds of Some h \<Rightarrow> (if h > 0 then Some h else None) | None \<Rightarrow> None))
      else None)"

definition findNftRuleHandlesByExactComment :: "string \<Rightarrow> string \<Rightarrow> int list" where
  "findNftRuleHandlesByExactComment out comment =
     (if comment = [] then [] else List.map_filter (exact_handle comment) (text_lines out))"

record chainRuleComment =
  rc_handle :: int
  rc_comment :: string

definition prefix_rule :: "string \<Rightarrow> string \<Rightarrow> chainRuleComment option" where
  "prefix_rule pre line =
     (case extractRuleComment line of
        None \<Rightarrow> None
      | Some comment \<Rightarrow>
          (if has_prefix comment pre then
             (case nftHandleRe line of
                None \<Rightarrow> None
              | Some ds \<Rightarrow>
                  (case atoi ds of
                     None \<Rightarrow> None
                   | Some h \<Rightarrow> (if h \<le> 0 then None else Some \<lparr>rc_handle = h, rc_comment = comment\<rparr>)))
           else None))"

definition listRuleCommentsByPrefix :: "string \<Rightarrow> string \<Rightarrow> chainRuleComment list" where
  "listRuleCommentsByPrefix out pre = List.map_filter (prefix_rule pre) (text_lines out)"

definition snapshotManagedRuleHandles :: "string \<Rightarrow> string \<Rightarrow> (string \<Rightarrow> int option)" where
  "snapshotManagedRuleHandles out pre =
     foldl (\<lambda>result rule.
              if rc_comment rule = [] \<or> rc_handle rule \<le> 0 then result
              else if result (rc_comment rule) \<noteq> None then result
              else result(rc_comment rule \<mapsto> rc_handle rule))
           Map.empty (listRuleCommentsByPrefix out pre)"

text \<open>
  \<open>getChainRuleBytesByHandlesFromText\<close>. The map \<open>values\<close> only ever has wanted handles as keys, so
  \<open>len(values) == len(wanted)\<close> says that every wanted handle has a value; \<open>wanted\<close> is a duplicate-free list.
\<close>

definition bytes_line :: "int list \<Rightarrow> string \<Rightarrow> (int \<Rightarrow> int option) \<Rightarrow> (int \<Rightarrow> int option) option" where
  "bytes_line wanted line values =
     (case nftHandleRe line of
        None \<Rightarrow> Some values
      | Some ds \<Rightarrow>
          (case atoi ds of
             None \<Rightarrow> Some values
           | Some h \<Rightarrow>
               (if h \<notin> set wanted then Some values
                else case nftCounterBytesRe line of
                       None \<Rightarrow> Some (values(h \<mapsto> 0))
                     | Some bs \<Rightarrow> (case atoi bs of None \<Rightarrow> None | Some b \<Rightarrow> Some (values(h \<mapsto> b))))))"

fun bytes_lines :: "int list \<Rightarrow> string list \<Rightarrow> (int \<Rightarrow> int option) \<Rightarrow> (int \<Rightarrow> int option) option" where
  "bytes_lines wanted [] values = Some values"
| "bytes_lines wanted (l # ls) values = Option.bind (bytes_line wanted l values) (bytes_lines wanted ls)"

definition missingNftHandles :: "int list \<Rightarrow> (int \<Rightarrow> int option) \<Rightarrow> string" where
  "missingNftHandles wanted values =
     str_join '','' (map itoa (sort (filter (\<lambda>h. values h = None) wanted)))"

datatype bytes_error = BadCounter | MissingHandles string

definition getChainRuleBytesByHandlesFromText ::
    "string \<Rightarrow> int list \<Rightarrow> bytes_error + (int \<Rightarrow> int option)" where
  "getChainRuleBytesByHandlesFromText out wanted =
     (case bytes_lines wanted (text_lines out) Map.empty of
        None \<Rightarrow> Inl BadCounter
      | Some values \<Rightarrow>
          (if \<forall>h \<in> set wanted. values h \<noteq> None then Inr values
           else Inl (MissingHandles (missingNftHandles wanted values))))"

section \<open>The format nft prints\<close>

text \<open>
  A counter rule as \<open>nft --handle --numeric list chain\<close> prints it. The match part (protocol set and
  port expression) is text without the three keywords the parsers search for.
\<close>

record nft_rule =
  r_match :: string
  r_packets :: int
  r_bytes :: int
  r_comment :: string
  r_handle :: int

definition esc_char :: "char \<Rightarrow> string" where
  "esc_char c = (if c = CHR 0x22 \<or> c = CHR 0x5C then [CHR 0x5C, c] else [c])"

definition escape_comment :: "string \<Rightarrow> string" where
  "escape_comment s = concat (map esc_char s)"

definition quoted :: "string \<Rightarrow> string" where
  "quoted c = CHR 0x22 # escape_comment c @ [CHR 0x22]"

definition rule_line :: "nft_rule \<Rightarrow> string" where
  "rule_line r = str_join '' ''
     [r_match r, ''counter'', ''packets'', itoa (r_packets r), ''bytes'', itoa (r_bytes r),
      ''comment'', quoted (r_comment r), ''#'', ''handle'', itoa (r_handle r)]"

definition rule_ok :: "nft_rule \<Rightarrow> bool" where
  "rule_ok r \<longleftrightarrow>
     CHR 0x0A \<notin> set (r_match r) \<and> \<not> sublist ''handle'' (r_match r) \<and> \<not> sublist ''comment'' (r_match r)
     \<and> \<not> sublist ''counter'' (r_match r)
     \<and> CHR 0x0A \<notin> set (r_comment r) \<and> nftHandleRe (quoted (r_comment r)) = None
     \<and> 0 \<le> r_packets r \<and> in_int64 (r_packets r) \<and> 0 \<le> r_bytes r \<and> in_int64 (r_bytes r)
     \<and> 0 < r_handle r \<and> in_int64 (r_handle r)"

section \<open>Leftmost search over concatenations\<close>

lemma has_prefix_iff: "has_prefix s p \<longleftrightarrow> prefix p s"
  by (metis append_eq_conv_conj has_prefix_def prefix_def take_is_prefix)

lemma re_find_skip:
  assumes "\<And>a b. xs = a @ b \<Longrightarrow> b \<noteq> [] \<Longrightarrow> m (b @ ys) = None"
  shows "re_find m (xs @ ys) = re_find m ys"
  using assms
proof (induction xs)
  case (Cons x xs)
  have "m ((x # xs) @ ys) = None" using Cons.prems [of "[]" "x # xs"] by simp
  moreover have "re_find m (xs @ ys) = re_find m ys"
    using Cons.prems by (intro Cons.IH) (metis append_Cons)
  ultimately show ?case by simp
qed simp

lemma prefix_append_sep: "prefix p (b @ x # ys) \<Longrightarrow> x \<notin> set p \<Longrightarrow> prefix p b"
  by (auto simp: prefix_def append_eq_append_conv2 Cons_eq_append_conv)

lemma re_find_skip_lit:
  \<comment> \<open>a matcher that starts with a literal finds nothing that starts before a separator\<close>
  assumes m: "\<And>s. re_lit p s = None \<Longrightarrow> m s = None" and "x \<notin> set p" "p \<noteq> []" "\<not> sublist p q"
  shows "re_find m (q @ x # ys) = re_find m ys"
proof -
  have "re_find m ((q @ [x]) @ ys) = re_find m ys"
  proof (rule re_find_skip)
    fix a b assume ab: "q @ [x] = a @ b" "b \<noteq> []"
    then obtain b' where b': "b = b' @ [x]" "q = a @ b'"
      by (metis append_butlast_last_id append_is_Nil_conv butlast_append last_appendR last_snoc butlast_snoc)
    have "\<not> prefix p (b @ ys)"
    proof
      assume "prefix p (b @ ys)"
      then have "prefix p b'" using b'(1) prefix_append_sep [of p b' x ys] assms(2) by simp
      then show False using assms(4) b'(2) by (auto simp: prefix_def sublist_def)
    qed
    then show "m (b @ ys) = None" by (intro m) (simp add: re_lit_def has_prefix_iff)
  qed
  then show ?thesis by simp
qed

lemma sublist_sep: "x \<notin> set p \<Longrightarrow> sublist p (a @ x # b) \<longleftrightarrow> sublist p a \<or> sublist p b"
proof
  assume x: "x \<notin> set p" and "sublist p (a @ x # b)"
  then obtain u v where uv: "a @ x # b = u @ p @ v" by (auto simp: sublist_def)
  from uv obtain w where "a = u @ w \<and> w @ x # b = p @ v \<or> a @ w = u \<and> x # b = w @ p @ v"
    using append_eq_append_conv2 [of a "x # b" u "p @ v"] by blast
  then consider (1) w' where "b = w' @ p @ v" | (2) w where "a = u @ w" "w @ x # b = p @ v"
    by (cases w) auto
  then show "sublist p a \<or> sublist p b"
  proof cases
    case 1 then show ?thesis by (auto simp: sublist_def)
  next
    case 2
    then have "prefix p (w @ x # b)" by (simp add: prefix_def)
    then have "prefix p w" using x by (rule prefix_append_sep)
    then show ?thesis using 2(1) by (auto simp: prefix_def sublist_def)
  qed
next
  assume "sublist p a \<or> sublist p b"
  then show "sublist p (a @ x # b)"
    by (auto simp: sublist_def) (metis append.assoc append_Cons)+
qed

lemma sublist_chars: "sublist p s \<Longrightarrow> c \<in> set p \<Longrightarrow> c \<in> set s"
  by (auto simp: sublist_def)

lemma str_join_Cons: "vs \<noteq> [] \<Longrightarrow> str_join sep (w # vs) = w @ sep @ str_join sep vs"
  by (cases vs) auto

lemma re_find_join:
  assumes "\<And>s. re_lit p s = None \<Longrightarrow> m s = None" "CHR '' '' \<notin> set p" "p \<noteq> []"
  shows "\<forall>w \<in> set ws. \<not> sublist p w \<Longrightarrow> vs \<noteq> []
           \<Longrightarrow> re_find m (str_join '' '' (ws @ vs)) = re_find m (str_join '' '' vs)"
proof (induction ws)
  case (Cons w ws)
  then have "re_find m (w @ CHR '' '' # str_join '' '' (ws @ vs)) = re_find m (str_join '' '' (ws @ vs))"
    by (intro re_find_skip_lit [OF assms]) auto
  with Cons show ?case by (simp add: str_join_Cons)
qed simp

lemma match_needs_lit:
  "re_lit ''handle'' s = None \<Longrightarrow> handle_match s = None"
  "re_lit ''comment'' s = None \<Longrightarrow> comment_match s = None"
  "re_lit ''counter'' s = None \<Longrightarrow> counter_match s = None"
  by (simp_all add: handle_match_def comment_match_def counter_match_def)

lemma re_lit_None: "re_lit p s = None \<longleftrightarrow> \<not> prefix p s"
  by (simp add: re_lit_def has_prefix_iff)

lemma counter_find_skip:
  assumes "\<not> sublist ''counter'' q"
  shows "counter_find f (q @ CHR '' '' # ys) = counter_find False ys"
  using assms
proof (induction q arbitrary: f)
  case Nil
  have "counter_match (CHR '' '' # ys) = None" by (simp add: counter_match_def re_lit_def has_prefix_def)
  then show ?case by (simp add: re_word_def)
next
  case (Cons c q)
  have "\<not> prefix ''counter'' ((c # q) @ CHR '' '' # ys)"
    using prefix_append_sep [of "''counter''" "c # q" "CHR '' ''" ys] Cons.prems prefix_imp_sublist by auto
  then have "counter_match ((c # q) @ CHR '' '' # ys) = None"
    using re_lit_None match_needs_lit(3) by blast
  moreover have "\<not> sublist ''counter'' q" using Cons.prems by (auto simp: sublist_Cons_right)
  ultimately show ?case using Cons.IH by simp
qed

lemma re_find_here: "m s = Some r \<Longrightarrow> re_find m s = Some r"
  by (cases s) auto

lemma counter_find_here: "counter_match s = Some r \<Longrightarrow> counter_find False s = Some r"
  by (cases s) (auto simp: counter_match_def re_lit_def has_prefix_def)

section \<open>Matching the pieces of a rule line\<close>

lemma re_lit_app [simp]: "re_lit p (p @ s) = Some s"
  by (simp add: re_lit_def has_prefix_def)

lemma re_spaces_one: "s \<noteq> [] \<Longrightarrow> \<not> re_space (hd s) \<Longrightarrow> re_spaces (CHR '' '' # s) = Some s"
  by (cases s) (auto simp: re_spaces_def re_space_def)

lemma digit_not_space: "is_digit c \<Longrightarrow> \<not> re_space c"
  by (auto simp: re_space_def is_digit_def Let_def)

lemma itoa_digits: "0 \<le> n \<Longrightarrow> list_all is_digit (itoa n)"
  using itoa_nonneg_digits by (auto simp: list_all_iff)

lemma itoa_hd: "0 \<le> n \<Longrightarrow> is_digit (hd (itoa n))"
  by (simp add: itoa_nonneg_digits)

lemma re_spaces_itoa: "0 \<le> n \<Longrightarrow> re_spaces (CHR '' '' # itoa n @ s) = Some (itoa n @ s)"
  using itoa_hd [of n] by (intro re_spaces_one) (auto simp: digit_not_space)

lemma re_digits_itoa:
  assumes "0 \<le> n" "s = [] \<or> \<not> is_digit (hd s)"
  shows "re_digits (itoa n @ s) = Some (itoa n, s)"
proof -
  have "takeWhile is_digit (itoa n @ s) = itoa n" "dropWhile is_digit (itoa n @ s) = s"
    using itoa_digits [OF assms(1)] assms(2)
    by (cases s; auto simp: list_all_iff takeWhile_append2 dropWhile_append2)+
  then show ?thesis using itoa_hd [OF assms(1)] by (simp add: re_digits_def)
qed

lemma space_not_digit [simp]: "\<not> is_digit (CHR '' '')" "\<not> re_word (CHR '' '')"
  by (simp_all add: is_digit_def re_word_def)

lemma handle_match_tail: "0 \<le> h \<Longrightarrow> handle_match (''handle'' @ CHR '' '' # itoa h) = Some (itoa h)"
  using re_spaces_itoa [of h "[]"] re_digits_itoa [of h "[]"]
  unfolding handle_match_def re_lit_app by simp

lemma counter_match_tail:
  assumes "0 \<le> p" "0 \<le> b"
  shows "counter_match (''counter'' @ CHR '' '' # ''packets'' @ CHR '' '' # itoa p @ CHR '' '' # ''bytes''
            @ CHR '' '' # itoa b @ CHR '' '' # s) = Some (itoa b)"
proof -
  have "re_spaces (CHR '' '' # ''packets'' @ t) = Some (''packets'' @ t)"
    "re_spaces (CHR '' '' # ''bytes'' @ t) = Some (''bytes'' @ t)" for t
    by (rule re_spaces_one; simp add: re_space_def)+
  then show ?thesis
    using re_spaces_itoa [OF assms(1)] re_spaces_itoa [OF assms(2)]
      re_digits_itoa [OF assms(1)] re_digits_itoa [OF assms(2)]
    unfolding counter_match_def re_lit_app bind.simps by (simp del: append.simps add: re_lit_app)
qed

lemma comment_body_escape: "comment_body (escape_comment c @ CHR 0x22 # s) = Some (escape_comment c)"
  by (induction c) (auto simp: escape_comment_def esc_char_def)

lemma comment_match_tail:
  "comment_match (''comment'' @ CHR '' '' # quoted c @ s) = Some (escape_comment c)"
proof -
  have "re_spaces (CHR '' '' # quoted c @ s) = Some (quoted c @ s)"
    by (rule re_spaces_one) (simp_all add: quoted_def re_space_def)
  moreover have "re_lit [CHR 0x22] (quoted c @ s) = Some (escape_comment c @ CHR 0x22 # s)"
    by (simp add: quoted_def re_lit_def has_prefix_def)
  ultimately show ?thesis
    unfolding comment_match_def re_lit_app by (simp add: comment_body_escape)
qed

definition esc_quote :: "char \<Rightarrow> string" where
  "esc_quote c = (if c = CHR 0x22 then [CHR 0x5C, c] else [c])"

lemma replace_step:
  "has_prefix s old \<Longrightarrow> s \<noteq> [] \<Longrightarrow> old \<noteq> [] \<Longrightarrow> replace_all s old new = new @ replace_all (drop (length old) s) old new"
  "\<not> has_prefix (c # s) old \<Longrightarrow> old \<noteq> [] \<Longrightarrow> replace_all (c # s) old new = c # replace_all s old new"
  by (subst replace_all.simps, simp)+

lemma unescape_backslashes:
  "replace_all (escape_comment c) [CHR 0x5C, CHR 0x5C] [CHR 0x5C] = concat (map esc_quote c)"
  by (induction c)
     (auto simp: escape_comment_def esc_char_def esc_quote_def has_prefix_def replace_step)

lemma unescape_quotes: "replace_all (concat (map esc_quote c)) [CHR 0x5C, CHR 0x22] [CHR 0x22] = c"
proof (induction c)
  case (Cons x c)
  have "\<not> has_prefix (x # concat (map esc_quote c)) [CHR 0x5C, CHR 0x22]"
    by (cases c) (auto simp: has_prefix_def esc_quote_def)
  moreover have "esc_quote x = (if x = CHR 0x22 then [CHR 0x5C, x] else [x])" by (simp add: esc_quote_def)
  ultimately show ?case
    using Cons.IH replace_step(1) [of "CHR 0x5C # CHR 0x22 # concat (map esc_quote c)" "[CHR 0x5C, CHR 0x22]" "[CHR 0x22]"]
    by (auto simp: replace_step(2) has_prefix_def)
qed simp

lemma unescape_escape [simp]: "unescapeNftComment (escape_comment c) = c"
  by (simp add: unescapeNftComment_def unescape_backslashes unescape_quotes)

lemma prefix_escape:
  assumes "CHR 0x22 \<notin> set p" "CHR 0x5C \<notin> set p"
  shows "prefix p (escape_comment c) \<Longrightarrow> prefix p c"
  using assms
proof (induction c arbitrary: p)
  case (Cons x c)
  then show ?case
    by (cases p) (auto simp: escape_comment_def esc_char_def split: if_splits)
qed (simp add: escape_comment_def)

lemma sublist_escape:
  assumes "CHR 0x22 \<notin> set p" "CHR 0x5C \<notin> set p" "p \<noteq> []"
  shows "sublist p (escape_comment c) \<Longrightarrow> sublist p c"
proof (induction c)
  case (Cons x c)
  have e: "escape_comment (x # c) = esc_char x @ escape_comment c" by (simp add: escape_comment_def)
  have p: "prefix p (escape_comment (x # c)) \<Longrightarrow> sublist p (x # c)"
    using prefix_escape [OF assms(1,2)] prefix_imp_sublist by blast
  have np: "\<not> prefix p (CHR 0x22 # s)" "\<not> prefix p (CHR 0x5C # s)" for s
    using assms by (cases p; auto)+
  from Cons.prems have "prefix p (escape_comment (x # c)) \<or> sublist p (escape_comment c)"
    by (auto simp: e esc_char_def sublist_Cons_right np split: if_splits)
  then show ?case using Cons.IH p by (auto simp: sublist_Cons_right)
qed (simp add: escape_comment_def)

section \<open>A rule line read back\<close>

lemma sublist_itoa: "sublist p (itoa n) \<Longrightarrow> 0 \<le> n \<Longrightarrow> c \<in> set p \<Longrightarrow> is_digit c"
  by (erule itoa_nonneg_digits, erule (1) sublist_chars)

lemma keyword_not_in_itoa:
  assumes "0 \<le> n"
  shows "\<not> sublist ''handle'' (itoa n)" "\<not> sublist ''comment'' (itoa n)" "\<not> sublist ''counter'' (itoa n)"
proof -
  have no: "\<not> sublist p (itoa n)" if "CHR ''e'' \<in> set p" for p
  proof
    assume "sublist p (itoa n)"
    from sublist_itoa [OF this assms that] show False by (simp add: is_digit_def)
  qed
  show "\<not> sublist ''handle'' (itoa n)" by (rule no) simp
  show "\<not> sublist ''comment'' (itoa n)" by (rule no) simp
  show "\<not> sublist ''counter'' (itoa n)" by (rule no) simp
qed

text \<open>The expression for a handle cannot reach over the quote that ends a comment.\<close>

lemma takeWhile_stop: "\<not> P x \<Longrightarrow> takeWhile P (b @ x # ys) = takeWhile P b"
  by (induction b) auto

lemma dropWhile_stop: "\<not> P x \<Longrightarrow> dropWhile P (b @ x # ys) = dropWhile P b @ x # ys"
  by (induction b) auto

lemma handle_match_quote: "handle_match (b @ CHR 0x22 # ys) = handle_match (b @ [CHR 0x22])"
proof (cases "prefix ''handle'' b")
  case True
  then obtain b' where b: "b = ''handle'' @ b'" by (auto simp: prefix_def)
  have q: "\<not> re_space (CHR 0x22)" "\<not> is_digit (CHR 0x22)" by (simp_all add: re_space_def is_digit_def)
  define u where "u = dropWhile re_space b'"
  have "re_spaces (b' @ CHR 0x22 # zs) = (if b' \<noteq> [] \<and> re_space (hd b') then Some (u @ CHR 0x22 # zs) else None)" for zs
    using q(1) by (cases b') (simp_all add: re_spaces_def u_def dropWhile_stop)
  moreover have "map_option fst (re_digits (u @ CHR 0x22 # zs)) = (if takeWhile is_digit u = [] then None else Some (takeWhile is_digit u))" for zs
    using takeWhile_stop [of is_digit "CHR 0x22" u zs] q(2) by (cases u) (auto simp: re_digits_def Let_def)
  ultimately have "handle_match (''handle'' @ b' @ CHR 0x22 # zs)
      = (if b' \<noteq> [] \<and> re_space (hd b') \<and> takeWhile is_digit u \<noteq> [] then Some (takeWhile is_digit u) else None)" for zs
    unfolding handle_match_def re_lit_app by simp
  then show ?thesis unfolding b append_assoc by presburger
next
  case False
  then have "\<not> prefix ''handle'' (b @ CHR 0x22 # zs)" for zs using prefix_append_sep [of "''handle''" b "CHR 0x22" zs] by auto
  then have "handle_match (b @ CHR 0x22 # zs) = None" for zs by (intro match_needs_lit(1)) (simp add: re_lit_None)
  then show ?thesis by presburger
qed

lemma re_find_None: "re_find m (a @ b) = None \<Longrightarrow> b \<noteq> [] \<Longrightarrow> m b = None"
proof (induction a)
  case Nil
  then show ?case by (cases b) (auto split: option.splits)
qed (auto split: option.splits)

lemma comment_not_handle:
  assumes "nftHandleRe (quoted c) = None"
  shows "re_find handle_match (quoted c @ ys) = re_find handle_match ys"
proof (rule re_find_skip)
  fix a b assume ab: "quoted c = a @ b" "b \<noteq> []"
  then have "last b = CHR 0x22" by (metis last_appendR last_snoc quoted_def append_Cons)
  then obtain b' where b: "b = b' @ [CHR 0x22]" using ab(2) by (metis append_butlast_last_id)
  have "handle_match b = None" using assms ab re_find_None by (metis nftHandleRe_def)
  then show "handle_match (b @ ys) = None" using handle_match_quote [of b' ys] by (simp add: b)
qed

lemma literal_words:
  "\<not> sublist ''handle'' ''counter''" "\<not> sublist ''handle'' ''packets''" "\<not> sublist ''handle'' ''bytes''"
  "\<not> sublist ''handle'' ''comment''" "\<not> sublist ''handle'' ''#''"
  "\<not> sublist ''comment'' ''counter''" "\<not> sublist ''comment'' ''packets''" "\<not> sublist ''comment'' ''bytes''"
  by (simp_all add: sublist_Cons_right)

lemma rule_line_comment:
  assumes "rule_ok r"
  shows "extractRuleComment (rule_line r) = Some (r_comment r)"
proof -
  let ?ws = "[r_match r, ''counter'', ''packets'', itoa (r_packets r), ''bytes'', itoa (r_bytes r)]"
  let ?vs = "[''comment'', quoted (r_comment r), ''#'', ''handle'', itoa (r_handle r)]"
  have "re_find comment_match (str_join '' '' (?ws @ ?vs)) = re_find comment_match (str_join '' '' ?vs)"
    using assms by (intro re_find_join [OF match_needs_lit(2)]) (auto simp: rule_ok_def literal_words keyword_not_in_itoa)
  also have "\<dots> = Some (escape_comment (r_comment r))"
    using comment_match_tail [of "r_comment r"] by (intro re_find_here) simp
  finally show ?thesis by (simp add: extractRuleComment_def nftCommentRe_def rule_line_def)
qed

lemma rule_line_handle:
  assumes "rule_ok r"
  shows "nftHandleRe (rule_line r) = Some (itoa (r_handle r))"
proof -
  let ?ws = "[r_match r, ''counter'', ''packets'', itoa (r_packets r), ''bytes'', itoa (r_bytes r), ''comment'']"
  let ?vs = "[quoted (r_comment r), ''#'', ''handle'', itoa (r_handle r)]"
  have "re_find handle_match (str_join '' '' (?ws @ ?vs)) = re_find handle_match (str_join '' '' ?vs)"
    using assms by (intro re_find_join [OF match_needs_lit(1)]) (auto simp: rule_ok_def literal_words keyword_not_in_itoa)
  also have "\<dots> = re_find handle_match (str_join '' '' ([[], ''#''] @ [''handle'', itoa (r_handle r)]))"
    using assms comment_not_handle [of "r_comment r" "'' # handle '' @ itoa (r_handle r)"] by (simp add: rule_ok_def)
  also have "\<dots> = re_find handle_match (str_join '' '' [''handle'', itoa (r_handle r)])"
    by (intro re_find_join [OF match_needs_lit(1)]) (auto simp: literal_words)
  also have "\<dots> = Some (itoa (r_handle r))"
    using handle_match_tail [of "r_handle r"] assms by (intro re_find_here) (simp add: rule_ok_def)
  finally show ?thesis by (simp add: nftHandleRe_def rule_line_def)
qed

lemma rule_line_bytes:
  assumes "rule_ok r"
  shows "nftCounterBytesRe (rule_line r) = Some (itoa (r_bytes r))"
proof -
  have "counter_find False (r_match r @ CHR '' '' # s) = counter_find False s" for s
    using assms by (intro counter_find_skip) (simp add: rule_ok_def)
  with counter_match_tail [of "r_packets r" "r_bytes r"] assms show ?thesis
    unfolding nftCounterBytesRe_def rule_line_def
    by (auto simp: rule_ok_def intro!: counter_find_here)
qed

lemma rule_line_no_newline: "rule_ok r \<Longrightarrow> CHR 0x0A \<notin> set (rule_line r)"
proof -
  assume ok: "rule_ok r"
  have "CHR 0x0A \<notin> set (itoa n)" if "0 \<le> n" for n
    using itoa_nonneg_digits [OF that, of "CHR 0x0A"] by (auto simp: is_digit_def)
  moreover have "CHR 0x0A \<notin> set (escape_comment c)" if "CHR 0x0A \<notin> set c" for c
    using that by (auto simp: escape_comment_def esc_char_def)
  ultimately show ?thesis
    using ok by (simp add: rule_ok_def rule_line_def quoted_def)
qed

lemma rule_line_contains_handle: "str_contains (rule_line r) ''handle''"
proof -
  have "sublist p s \<Longrightarrow> str_contains s p" for p s
    by (induction s) (auto simp: sublist_Cons_right has_prefix_iff)
  moreover have "rule_line r = (r_match r @ '' counter packets '' @ itoa (r_packets r) @ '' bytes '' @ itoa (r_bytes r)
      @ '' comment '' @ quoted (r_comment r) @ '' # '') @ ''handle'' @ ('' '' @ itoa (r_handle r))"
    by (simp add: rule_line_def)
  then have "sublist ''handle'' (rule_line r)" by (simp only: sublist_appendI)
  ultimately show ?thesis by blast
qed

section \<open>Listings\<close>

definition frame_line :: "string \<Rightarrow> bool" where
  \<comment> \<open>a line around the rules: it has no comment and no counter\<close>
  "frame_line l \<longleftrightarrow> CHR 0x0A \<notin> set l \<and> nftCommentRe l = None \<and> nftCounterBytesRe l = None"

definition nft_listing :: "string list \<Rightarrow> nft_rule list \<Rightarrow> string list \<Rightarrow> string" where
  "nft_listing pre rs post = str_join [CHR 0x0A] (pre @ map rule_line rs @ post)"

definition listing_ok :: "string list \<Rightarrow> nft_rule list \<Rightarrow> string list \<Rightarrow> bool" where
  "listing_ok pre rs post \<longleftrightarrow>
     list_all rule_ok rs \<and> distinct (map r_comment rs) \<and> distinct (map r_handle rs) \<and> rs \<noteq> []
     \<and> list_all frame_line pre \<and> list_all (\<lambda>l. frame_line l \<and> nftHandleRe l = None) post"

lemma listing_lines:
  "listing_ok pre rs post \<Longrightarrow> text_lines (nft_listing pre rs post) = pre @ map rule_line rs @ post"
  unfolding text_lines_def nft_listing_def
  by (intro split_on_join) (auto simp: listing_ok_def list_all_iff frame_line_def rule_line_no_newline)

lemma frame_line_skip [simp]:
  assumes "frame_line l"
  shows "line_handle c l = None" "exact_handle c l = None" "prefix_rule p l = None"
  using assms
  by (simp_all add: frame_line_def line_handle_def exact_handle_def prefix_rule_def
      ruleLineHasExactComment_def extractRuleComment_def)

lemma rule_line_read:
  assumes "rule_ok r"
  shows "line_handle c (rule_line r) = (if r_comment r = c then Some (r_handle r) else None)"
    and "exact_handle c (rule_line r) = (if r_comment r = c then Some (r_handle r) else None)"
    and "prefix_rule p (rule_line r)
           = (if has_prefix (r_comment r) p then Some \<lparr>rc_handle = r_handle r, rc_comment = r_comment r\<rparr> else None)"
    and "bytes_line w (rule_line r) v = Some (if r_handle r \<in> set w then v(r_handle r \<mapsto> r_bytes r) else v)"
  using assms
  by (auto simp: line_handle_def exact_handle_def prefix_rule_def bytes_line_def rule_line_handle
      rule_line_comment rule_line_bytes rule_line_contains_handle ruleLineHasExactComment_def
      scan_handle_def rule_ok_def atoi_itoa)

lemma first_handle_frame: "list_all frame_line pre \<Longrightarrow> first_handle c (pre @ ls) = first_handle c ls"
  by (induction pre) auto

lemma first_handle_rules:
  assumes "list_all rule_ok rs" "list_all frame_line post"
  shows "first_handle c (map rule_line rs @ post)
           = (case map_of (map (\<lambda>r. (r_comment r, r_handle r)) rs) c of Some h \<Rightarrow> h | None \<Rightarrow> 0)"
  using assms(1)
proof (induction rs)
  case Nil
  show ?case using first_handle_frame [OF assms(2), of c "[]"] by simp
qed (auto simp: rule_line_read)

lemma map_filter_app: "List.map_filter f (a @ b) = List.map_filter f a @ List.map_filter f b"
  by (simp add: List.map_filter_def)

lemma map_filter_frame: "list_all frame_line ls \<Longrightarrow> List.map_filter (exact_handle c) ls = []"
  "list_all frame_line ls \<Longrightarrow> List.map_filter (prefix_rule p) ls = []"
  by (induction ls) (auto simp: List.map_filter_def)

lemma map_filter_rules:
  assumes "list_all rule_ok rs"
  shows "List.map_filter (exact_handle c) (map rule_line rs) = map r_handle (filter (\<lambda>r. r_comment r = c) rs)"
    and "List.map_filter (prefix_rule p) (map rule_line rs)
           = map (\<lambda>r. \<lparr>rc_handle = r_handle r, rc_comment = r_comment r\<rparr>) (filter (\<lambda>r. has_prefix (r_comment r) p) rs)"
  using assms by (induction rs) (auto simp: List.map_filter_def rule_line_read)

lemma bytes_lines_append:
  "bytes_lines w (a @ b) v = Option.bind (bytes_lines w a v) (bytes_lines w b)"
proof (induction a arbitrary: v)
  case (Cons l a)
  then show ?case by (cases "bytes_line w l v") auto
qed simp

lemma bytes_lines_pre:
  assumes "list_all frame_line pre" "dom v \<subseteq> set w"
  shows "\<exists>v'. bytes_lines w pre v = Some v' \<and> dom v' \<subseteq> set w"
  using assms
  by (induction pre arbitrary: v)
     (auto simp: bytes_line_def frame_line_def split: option.splits)

lemma bytes_lines_post:
  "list_all (\<lambda>l. frame_line l \<and> nftHandleRe l = None) post \<Longrightarrow> bytes_lines w post v = Some v"
  by (induction post arbitrary: v) (auto simp: bytes_line_def)

lemma bytes_lines_rules:
  assumes "list_all rule_ok rs" "distinct (map r_handle rs)"
  shows "bytes_lines w (map rule_line rs) v
           = Some (\<lambda>h. if h \<in> set w \<and> h \<in> r_handle ` set rs then map_of (map (\<lambda>r. (r_handle r, r_bytes r)) rs) h else v h)"
  using assms
proof (induction rs arbitrary: v)
  case (Cons r rs)
  then show ?case by (auto simp: rule_line_read fun_eq_iff)
qed simp

lemma first_wins:
  "(foldl (\<lambda>result rule.
              if rc_comment rule = [] \<or> rc_handle rule \<le> 0 then result
              else if result (rc_comment rule) \<noteq> None then result
              else result(rc_comment rule \<mapsto> rc_handle rule)) m L) c
     = (case m c of
          Some h \<Rightarrow> Some h
        | None \<Rightarrow> if c = [] then None
                  else map_of (map (\<lambda>r. (rc_comment r, rc_handle r)) (filter (\<lambda>r. rc_handle r > 0) L)) c)"
  by (induction L arbitrary: m) (auto split: option.splits)

lemma map_of_filter_prefix:
  "map_of (map (\<lambda>r. (k r, v r)) (filter (\<lambda>r. P (k r)) rs)) c = (if P c then map_of (map (\<lambda>r. (k r, v r)) rs) c else None)"
  by (induction rs) auto

lemma snapshot_listing:
  assumes "listing_ok pre rs post"
  shows "snapshotManagedRuleHandles (nft_listing pre rs post) p c
           = (if c \<noteq> [] \<and> has_prefix c p then map_of (map (\<lambda>r. (r_comment r, r_handle r)) rs) c else None)"
proof -
  have ok: "list_all rule_ok rs" "list_all frame_line pre" "list_all frame_line post"
    using assms by (auto simp: listing_ok_def list_all_iff)
  have "listRuleCommentsByPrefix (nft_listing pre rs post) p
          = map (\<lambda>r. \<lparr>rc_handle = r_handle r, rc_comment = r_comment r\<rparr>) (filter (\<lambda>r. has_prefix (r_comment r) p) rs)"
    using ok by (simp add: listRuleCommentsByPrefix_def listing_lines [OF assms] map_filter_frame map_filter_rules
        map_filter_app)
  moreover have "filter (\<lambda>r. 0 < rc_handle r)
        (map (\<lambda>r. \<lparr>rc_handle = r_handle r, rc_comment = r_comment r\<rparr>) (filter (\<lambda>r. has_prefix (r_comment r) p) rs))
      = map (\<lambda>r. \<lparr>rc_handle = r_handle r, rc_comment = r_comment r\<rparr>) (filter (\<lambda>r. has_prefix (r_comment r) p) rs)"
    using ok(1) by (auto simp: filter_map o_def filter_filter list_all_iff rule_ok_def intro!: arg_cong [of _ _ "map _"] filter_cong)
  ultimately show ?thesis
    using map_of_filter_prefix [of r_comment r_handle "\<lambda>c. has_prefix c p" rs c]
    by (simp add: snapshotManagedRuleHandles_def first_wins o_def)
qed

lemma bytes_listing:
  assumes ok: "listing_ok pre rs post" and w: "set wanted \<subseteq> r_handle ` set rs"
  shows "getChainRuleBytesByHandlesFromText (nft_listing pre rs post) wanted
           = Inr (map_of (map (\<lambda>r. (r_handle r, r_bytes r)) rs) |` set wanted)"
proof -
  let ?t = "map_of (map (\<lambda>r. (r_handle r, r_bytes r)) rs)"
  have dom: "dom ?t = r_handle ` set rs" by (simp add: dom_map_of_conv_image_fst image_image)
  obtain v where v: "bytes_lines wanted pre Map.empty = Some v" "dom v \<subseteq> set wanted"
    using bytes_lines_pre [of pre Map.empty wanted] ok by (auto simp: listing_ok_def)
  have "bytes_lines wanted (text_lines (nft_listing pre rs post)) Map.empty
          = Some (\<lambda>h. if h \<in> set wanted \<and> h \<in> r_handle ` set rs then ?t h else v h)"
    using ok bytes_lines_rules [of rs wanted v] bytes_lines_post [of post wanted]
    by (simp add: listing_lines [OF ok] bytes_lines_append v listing_ok_def)
  also have "(\<lambda>h. if h \<in> set wanted \<and> h \<in> r_handle ` set rs then ?t h else v h) = ?t |` set wanted"
    using w v(2) by (auto simp: restrict_map_def fun_eq_iff)
  finally show ?thesis
    using w dom by (auto simp: getChainRuleBytesByHandlesFromText_def restrict_map_def domD)
qed

text \<open>
  C6: reading an nft listing back. For rules with distinct comments and handles, printed in the
  format of \<open>nft --handle --numeric list chain\<close> between header and footer lines, the panel finds the
  handle of exactly the rule that carries a comment (zero when none does), its snapshot of managed rules maps
  each comment with the prefix to its handle, and the batch read returns the byte counter of every
  wanted handle. Comments may hold quotes, backslashes and every other character but a line feed, with one exception: no comment contains the
  word handle followed by white space and a number, which the panel would take for the handle (\<open>handle_in_comment_misread\<close>).
\<close>

theorem nft_listing_read_back:
  assumes "listing_ok pre rs post" "set wanted \<subseteq> r_handle ` set rs"
  shows "findHandleByComment (Some (nft_listing pre rs post)) c
           = (case map_of (map (\<lambda>r. (r_comment r, r_handle r)) rs) c of
                Some h \<Rightarrow> if c = [] then 0 else h | None \<Rightarrow> 0)
         \<and> snapshotManagedRuleHandles (nft_listing pre rs post) p c
           = (if c \<noteq> [] \<and> has_prefix c p then map_of (map (\<lambda>r. (r_comment r, r_handle r)) rs) c else None)
         \<and> getChainRuleBytesByHandlesFromText (nft_listing pre rs post) wanted
             = Inr (map_of (map (\<lambda>r. (r_handle r, r_bytes r)) rs) |` set wanted)"
proof -
  have "list_all rule_ok rs" "list_all frame_line pre" "list_all frame_line post"
    using assms(1) by (auto simp: listing_ok_def list_all_iff)
  then have "findHandleByComment (Some (nft_listing pre rs post)) c
           = (case map_of (map (\<lambda>r. (r_comment r, r_handle r)) rs) c of
                Some h \<Rightarrow> if c = [] then 0 else h | None \<Rightarrow> 0)"
    by (simp add: findHandleByComment_def listing_lines [OF assms(1)] first_handle_frame first_handle_rules split: option.split)
  then show ?thesis by (simp add: snapshot_listing [OF assms(1)] bytes_listing [OF assms])
qed

theorem nft_listing_read_back_witness:
  "findHandleByComment (Some (nft_listing [''table inet kwor {'', ''chain in { # handle 1'']
       [\<lparr>r_match = ''th dport 443'', r_packets = 3, r_bytes = 180, r_comment = ''kwor_inbound_handle a_in'', r_handle = 7\<rparr>,
        \<lparr>r_match = ''th dport 444'', r_packets = 1, r_bytes = 60, r_comment = ''kwor_inbound_b_in'', r_handle = 9\<rparr>]
       [''}'', ''}''])) ''kwor_inbound_b_in'' = 9
   \<and> (case getChainRuleBytesByHandlesFromText (nft_listing [''table inet kwor {'', ''chain in { # handle 1'']
       [\<lparr>r_match = ''th dport 443'', r_packets = 3, r_bytes = 180, r_comment = ''kwor_inbound_handle a_in'', r_handle = 7\<rparr>,
        \<lparr>r_match = ''th dport 444'', r_packets = 1, r_bytes = 60, r_comment = ''kwor_inbound_b_in'', r_handle = 9\<rparr>]
       [''}'', ''}'']) [7] of Inr v \<Rightarrow> v 7 = Some 180 | Inl e \<Rightarrow> False)"
proof -
  have c: "nftHandleRe (quoted ''kwor_inbound_handle a_in'') = None" "nftHandleRe (quoted ''kwor_inbound_b_in'') = None" by code_simp+
  let ?rs = "[\<lparr>r_match = ''th dport 443'', r_packets = 3, r_bytes = 180, r_comment = ''kwor_inbound_handle a_in'', r_handle = 7\<rparr>,
        \<lparr>r_match = ''th dport 444'', r_packets = 1, r_bytes = 60, r_comment = ''kwor_inbound_b_in'', r_handle = 9\<rparr>]"
  have rules: "list_all rule_ok ?rs"
    by (simp add: rule_ok_def int64_defs sublist_Cons_right c)
  have frame: "list_all frame_line [''table inet kwor {'', ''chain in { # handle 1'']"
    "list_all (\<lambda>l. frame_line l \<and> nftHandleRe l = None) [''}'', ''}'']"
    by code_simp+
  have "listing_ok [''table inet kwor {'', ''chain in { # handle 1''] ?rs [''}'', ''}'']"
    unfolding listing_ok_def using rules frame by simp
  from nft_listing_read_back [OF this, of "[7]" "''kwor_inbound_b_in''" "[]"]
  show ?thesis by simp
qed

lemma escape_append: "escape_comment (a @ b) = escape_comment a @ escape_comment b"
  by (simp add: escape_comment_def)

lemma escape_plain: "CHR 0x22 \<notin> set a \<Longrightarrow> CHR 0x5C \<notin> set a \<Longrightarrow> escape_comment a = a"
  by (induction a) (auto simp: escape_comment_def esc_char_def)

lemma escape_itoa: "0 \<le> k \<Longrightarrow> escape_comment (itoa k) = itoa k"
proof (rule escape_plain)
  assume "0 \<le> k"
  then show "CHR 0x22 \<notin> set (itoa k)" "CHR 0x5C \<notin> set (itoa k)"
    using itoa_nonneg_digits [of k "CHR 0x22"] itoa_nonneg_digits [of k "CHR 0x5C"] by (auto simp: is_digit_def)
qed

text \<open>
  the handle search is misled by a comment that itself contains the word \<open>handle\<close> and a number.
  The regular expression takes the leftmost match of the line and nft prints the comment before the
  handle, so for a comment \<open>a handle k_in\<close> the panel reads the number \<open>k\<close> of the comment instead of the
  handle of the rule (rule deletion and counter reads then address another rule of the chain).
\<close>

lemma handle_in_comment_misread:
  assumes ok: "rule_ok (r\<lparr>r_comment := a\<rparr>)" "\<not> sublist ''handle'' a" and k: "0 < k" "in_int64 k"
  shows "line_handle (a @ '' handle '' @ itoa k @ ''_in'')
           (rule_line (r\<lparr>r_comment := a @ '' handle '' @ itoa k @ ''_in''\<rparr>)) = Some k"
proof -
  let ?c = "a @ '' handle '' @ itoa k @ ''_in''" and ?q = "CHR 0x22 # escape_comment a"
  let ?r = "r\<lparr>r_comment := ?c\<rparr>"
  let ?ws = "[r_match r, ''counter'', ''packets'', itoa (r_packets r), ''bytes'', itoa (r_bytes r)]"
  let ?ws' = "?ws @ [''comment'', ?q]"
  let ?rest = "itoa k @ ''_in'' @ [CHR 0x22] @ '' # handle '' @ itoa (r_handle r)"
  have c: "escape_comment ?c = escape_comment a @ '' handle '' @ itoa k @ ''_in''"
  proof -
    have "escape_comment '' handle '' = '' handle ''" "escape_comment ''_in'' = ''_in''"
      by (rule escape_plain; simp)+
    moreover have "escape_comment (itoa k) = itoa k" using k by (intro escape_itoa) simp
    ultimately show ?thesis by (simp only: escape_append)
  qed
  have line: "rule_line ?r = str_join '' '' (?ws' @ [''handle'', ?rest])"
    by (simp add: rule_line_def quoted_def c [simplified])
  have "\<not> sublist ''handle'' ?q"
    using sublist_escape [of "''handle''" a] sublist_sep [of "CHR 0x22" "''handle''" "[]" "escape_comment a"] ok
    by (auto simp: rule_ok_def)
  then have "nftHandleRe (rule_line ?r) = re_find handle_match (str_join '' '' [''handle'', ?rest])"
    unfolding line nftHandleRe_def using ok
    by (intro re_find_join [OF match_needs_lit(1)]) (auto simp: rule_ok_def literal_words keyword_not_in_itoa)
  also have "\<dots> = Some (itoa k)"
  proof (rule re_find_here)
    have "re_digits ?rest = Some (itoa k, ''_in'' @ [CHR 0x22] @ '' # handle '' @ itoa (r_handle r))"
      using k by (intro re_digits_itoa) (auto simp: is_digit_def)
    moreover have "re_spaces (CHR '' '' # ?rest) = Some ?rest" using k by (intro re_spaces_itoa) simp
    moreover have "str_join '' '' [''handle'', ?rest] = ''handle'' @ CHR '' '' # ?rest" by simp
    ultimately show "handle_match (str_join '' '' [''handle'', ?rest]) = Some (itoa k)"
      unfolding handle_match_def by (simp only: re_lit_app bind.simps) simp
  qed
  finally have handle: "nftHandleRe (rule_line ?r) = Some (itoa k)" .
  have "re_find comment_match (str_join '' '' (?ws @ [''comment'', quoted ?c, ''#'', ''handle'', itoa (r_handle r)]))
        = re_find comment_match (str_join '' '' [''comment'', quoted ?c, ''#'', ''handle'', itoa (r_handle r)])"
    using ok by (intro re_find_join [OF match_needs_lit(2)]) (auto simp: rule_ok_def literal_words keyword_not_in_itoa)
  also have "\<dots> = Some (escape_comment ?c)"
    using comment_match_tail [of ?c] by (intro re_find_here) simp
  finally have "extractRuleComment (rule_line ?r) = Some ?c"
    by (simp add: extractRuleComment_def nftCommentRe_def rule_line_def)
  with handle show ?thesis
    using k by (simp add: line_handle_def ruleLineHasExactComment_def rule_line_contains_handle scan_handle_def atoi_itoa)
qed

theorem handle_in_comment_misread_example:
  "line_handle ''kwor_inbound_x handle 7_in''
     (rule_line \<lparr>r_match = ''th dport 443'', r_packets = 3, r_bytes = 180,
                 r_comment = ''kwor_inbound_x handle 7_in'', r_handle = 12\<rparr>) = Some 7"
proof -
  let ?r = "\<lparr>r_match = ''th dport 443'', r_packets = 3, r_bytes = 180, r_comment = [], r_handle = 12\<rparr>"
  have "nftHandleRe (quoted ''kwor_inbound_x'') = None" by code_simp
  then have "rule_ok (?r\<lparr>r_comment := ''kwor_inbound_x''\<rparr>)" "\<not> sublist ''handle'' ''kwor_inbound_x''"
    by (simp_all add: rule_ok_def int64_defs sublist_Cons_right)
  moreover have "itoa 7 = ''7''" by code_simp
  ultimately show ?thesis
    using handle_in_comment_misread [where r = ?r and a = "''kwor_inbound_x''" and k = 7] by (simp add: int64_defs)
qed

end
