(* ===== verification/Nft_Counters.thy ===== *)
theory Nft_Counters
  imports Nft_Text
begin

text \<open>
  Reading the counters of managed rules (\<open>service/nftables.go\<close>). nft is the environment: the
  \<open>t\<close>-th command of a run returns whatever the kernel holds at that moment, so a read takes and
  returns the number of commands issued before. JSON listings are taken as decoded.
  Every operation is guarded by \<open>nftSupported\<close> in the source; the collectors check it first, and
  here it holds.
\<close>

section \<open>The environment\<close>

datatype nft_expr = CounterExpr int | OtherExpr  \<comment> \<open>a \<open>counter\<close> that does not decode is skipped like any other expression\<close>

record nftRule =
  Handle :: int
  Expr :: "nft_expr list"

record nft_env =
  use_json :: bool  \<comment> \<open>the capability, and no read snapshot is active\<close>
  compat_layout :: bool
  run_json :: "nat \<Rightarrow> string \<Rightarrow> nftRule list option"
  run_text :: "nat \<Rightarrow> string \<Rightarrow> string option"

definition nftChainIn :: string where "nftChainIn = ''input''"
definition nftChainOut :: string where "nftChainOut = ''output''"
definition nftChainPrerouting :: string where "nftChainPrerouting = ''prerouting''"

section \<open>Counters by handle\<close>

fun first_counter :: "nft_expr list \<Rightarrow> int" where
  \<comment> \<open>a rule without a counter still represents zero bytes\<close>
  "first_counter [] = 0"
| "first_counter (CounterExpr b # es) = b"
| "first_counter (OtherExpr # es) = first_counter es"

definition has_counter :: "nft_expr list \<Rightarrow> bool" where
  "has_counter es \<longleftrightarrow> (\<exists>e \<in> set es. e \<noteq> OtherExpr)"

definition json_step :: "int list \<Rightarrow> (int \<Rightarrow> int option) \<Rightarrow> nftRule \<Rightarrow> (int \<Rightarrow> int option)" where
  "json_step wanted values r =
     (if Handle r \<notin> set wanted then values
      else if has_counter (Expr r) \<or> values (Handle r) = None then values(Handle r \<mapsto> first_counter (Expr r))
      else values)"

definition getChainRuleBytesByHandlesFromJSON ::
    "nftRule list \<Rightarrow> int list \<Rightarrow> bytes_error + (int \<Rightarrow> int option)" where
  "getChainRuleBytesByHandlesFromJSON rules wanted =
     (let values = foldl (json_step wanted) Map.empty rules
      in if \<forall>h \<in> set wanted. values h \<noteq> None then Inr values
         else Inl (MissingHandles (missingNftHandles wanted values)))"

definition getChainRuleBytesByHandlesFromTextNft ::
    "nft_env \<Rightarrow> string \<Rightarrow> int list \<Rightarrow> nat \<Rightarrow> (int \<Rightarrow> int option) option" where
  "getChainRuleBytesByHandlesFromTextNft env chain wanted t =
     (case run_text env t chain of
        None \<Rightarrow> None
      | Some out \<Rightarrow> (case getChainRuleBytesByHandlesFromText out wanted of Inr v \<Rightarrow> Some v | Inl _ \<Rightarrow> None))"

definition getChainRuleBytesByHandles ::
    "nft_env \<Rightarrow> string \<Rightarrow> int list \<Rightarrow> nat \<Rightarrow> (int \<Rightarrow> int option) option \<times> nat" where
  \<comment> \<open>\<open>None\<close> is the error result\<close>
  "getChainRuleBytesByHandles env chain handles t =
     (let wanted = remdups (filter (\<lambda>h. h > 0) handles)
      in if wanted = [] then (Some Map.empty, t)
         else if use_json env then
           (case Option.bind (run_json env t chain)
                   (\<lambda>rules. case getChainRuleBytesByHandlesFromJSON rules wanted of Inr v \<Rightarrow> Some v | Inl _ \<Rightarrow> None) of
              Some v \<Rightarrow> (Some v, t + 1)
            | None \<Rightarrow> (getChainRuleBytesByHandlesFromTextNft env chain wanted (t + 1), t + 2))
         else (getChainRuleBytesByHandlesFromTextNft env chain wanted t, t + 1))"

definition getChainRuleBytesByHandle :: "nft_env \<Rightarrow> string \<Rightarrow> int \<Rightarrow> nat \<Rightarrow> int option \<times> nat" where
  "getChainRuleBytesByHandle env chain handle t =
     (case getChainRuleBytesByHandles env chain [handle] t of
        (None, t') \<Rightarrow> (None, t')
      | (Some values, t') \<Rightarrow> (values handle, t'))"

definition findNftRedirectHandleByComment :: "nft_env \<Rightarrow> string \<Rightarrow> nat \<Rightarrow> int \<times> nat" where
  "findNftRedirectHandleByComment env comment t =
     (if compat_layout env then (0, t)
      else (findHandleByComment (run_text env t nftChainPrerouting) comment, t + 1))"

section \<open>What a successful read guarantees\<close>

lemma text_read_domain:
  "getChainRuleBytesByHandlesFromText out wanted = Inr v \<Longrightarrow> h \<in> set wanted \<Longrightarrow> v h \<noteq> None"
  by (auto simp: getChainRuleBytesByHandlesFromText_def split: option.splits if_splits)

lemma json_read_domain:
  "getChainRuleBytesByHandlesFromJSON rules wanted = Inr v \<Longrightarrow> h \<in> set wanted \<Longrightarrow> v h \<noteq> None"
  by (auto simp: getChainRuleBytesByHandlesFromJSON_def Let_def split: if_splits)

lemma batch_read_domain:
  "getChainRuleBytesByHandles env chain handles t = (Some v, t') \<Longrightarrow> h \<in> set handles \<Longrightarrow> 0 < h \<Longrightarrow> v h \<noteq> None"
  by (auto simp: getChainRuleBytesByHandles_def getChainRuleBytesByHandlesFromTextNft_def Let_def
      filter_empty_conv dest: text_read_domain json_read_domain
      split: if_splits option.splits sum.splits bind_splits)

lemma json_fold_keys:
  "foldl (json_step wanted) v rules h = Some b \<Longrightarrow> h \<in> set wanted \<or> v h = Some b"
proof (induction rules arbitrary: v)
  case (Cons r rules)
  then have "h \<in> set wanted \<or> json_step wanted v r h = Some b" by simp
  then show ?case by (auto simp: json_step_def split: if_splits)
qed simp

lemma bytes_lines_keys:
  "bytes_lines wanted ls v = Some v' \<Longrightarrow> v' h = Some b \<Longrightarrow> h \<in> set wanted \<or> v h = Some b"
proof (induction ls arbitrary: v)
  case (Cons l ls)
  then obtain u where u: "bytes_line wanted l v = Some u" "bytes_lines wanted ls u = Some v'"
    by (auto simp: bind_eq_Some_conv)
  then have "h \<in> set wanted \<or> u h = Some b" using Cons by blast
  with u(1) show ?case by (auto simp: bytes_line_def split: option.splits if_splits)
qed simp

lemma batch_read_keys:
  "getChainRuleBytesByHandles env chain handles t = (Some v, t') \<Longrightarrow> v h = Some b \<Longrightarrow> 0 < h"
  by (auto simp: getChainRuleBytesByHandles_def getChainRuleBytesByHandlesFromTextNft_def Let_def
      getChainRuleBytesByHandlesFromText_def getChainRuleBytesByHandlesFromJSON_def
      dest: json_fold_keys bytes_lines_keys
      split: if_splits option.splits sum.splits bind_splits)

end
