(* ===== verification/Panel_Calendar.thy ===== *)
theory Panel_Calendar
  imports Go_Prelude
begin

text \<open>
  Calendar arithmetic: what the quota and schedule code uses of the Go package \<open>time\<close>
  (\<open>time.Date\<close>, \<open>Time.AddDate\<close>, \<open>Year\<close>, \<open>Month\<close>, \<open>Day\<close> in a \<open>Location\<close>).

  An instant is its Unix time in seconds; the boundaries compared with it are whole seconds, so
  the nanoseconds of \<open>now\<close> never decide a comparison. A \<open>Location\<close> is given by its zone lookup.
  A month is an index \<open>12 * year + (month - 1)\<close>, which is how \<open>time.Date\<close> normalizes a month
  outside 1..12; days are counted from 1970-01-01.
\<close>

section \<open>The proleptic Gregorian calendar\<close>

definition is_leap :: "int \<Rightarrow> bool" where
  "is_leap y \<longleftrightarrow> y mod 4 = 0 \<and> (y mod 100 \<noteq> 0 \<or> y mod 400 = 0)"

definition days_before_year :: "int \<Rightarrow> int" where
  \<comment> \<open>days from 0001-01-01 to the first day of year \<open>y\<close>\<close>
  "days_before_year y = (let n = y - 1 in 365 * n + n div 4 - n div 100 + n div 400)"

definition cumulative_days :: "int list" where
  "cumulative_days = [0, 31, 59, 90, 120, 151, 181, 212, 243, 273, 304, 334]"

definition month_start :: "int \<Rightarrow> int" where
  \<comment> \<open>the day number of the first day of a month; 719162 days lie between 0001-01-01 and 1970-01-01\<close>
  "month_start k =
     days_before_year (k div 12) + cumulative_days ! nat (k mod 12)
     + (if k mod 12 \<ge> 2 \<and> is_leap (k div 12) then 1 else 0) - 719162"

definition month_len :: "int \<Rightarrow> int" where
  "month_len k = month_start (k + 1) - month_start k"

definition year_of_day :: "int \<Rightarrow> int" where
  "year_of_day n =
     (let d = n + 719162; y = 400 * d div 146097 + 1
      in if d < days_before_year y then y - 1 else if d < days_before_year (y + 1) then y else y + 1)"

definition month_of_day :: "int \<Rightarrow> int" where
  "month_of_day n =
     (let y = year_of_day n
      in 12 * y + int (length (filter (\<lambda>j. month_start (12 * y + j) \<le> n) [1..11])))"

section \<open>Instants in a location\<close>

record location =
  loc_name :: string
  loc_lookup :: "int \<Rightarrow> int \<times> int \<times> int"  \<comment> \<open>offset in seconds, start and end of the zone period\<close>

definition loc_offset :: "location \<Rightarrow> int \<Rightarrow> int" where
  "loc_offset loc t = fst (loc_lookup loc t)"

definition local_seconds :: "location \<Rightarrow> int \<Rightarrow> int" where
  "local_seconds loc t = t + loc_offset loc t"

definition local_day :: "location \<Rightarrow> int \<Rightarrow> int" where
  "local_day loc t = local_seconds loc t div 86400"

text \<open>\<open>Year()\<close> and \<open>Month()\<close> as one index, and \<open>Day()\<close>.\<close>

definition time_month :: "location \<Rightarrow> int \<Rightarrow> int" where
  "time_month loc t = month_of_day (local_day loc t)"

definition time_day :: "location \<Rightarrow> int \<Rightarrow> int" where
  "time_day loc t = local_day loc t - month_start (time_month loc t) + 1"

text \<open>The zone adjustment at the end of \<open>time.Date\<close>.\<close>

definition civil_unix :: "location \<Rightarrow> int \<Rightarrow> int" where
  "civil_unix loc unix =
     (case loc_lookup loc unix of
        (off, zstart, zend) \<Rightarrow>
          if off \<noteq> 0
          then (let utc = unix - off
                in if utc < zstart \<or> utc \<ge> zend then unix - loc_offset loc utc else utc)
          else unix)"

definition time_date :: "location \<Rightarrow> int \<Rightarrow> int \<Rightarrow> int \<Rightarrow> int" where
  \<comment> \<open>\<open>time.Date(year, month, day, ...)\<close> with the clock given in seconds since midnight\<close>
  "time_date loc k day secs = civil_unix loc (86400 * (month_start k + day - 1) + secs)"

definition add_months :: "location \<Rightarrow> int \<Rightarrow> int \<Rightarrow> int" where
  \<comment> \<open>\<open>t.AddDate(0, months, 0)\<close>: same clock, same day of the month, normalized\<close>
  "add_months loc t months =
     time_date loc (time_month loc t + months) (time_day loc t) (local_seconds loc t mod 86400)"

definition zero_time :: int where
  \<comment> \<open>the instant of the zero \<open>time.Time\<close>\<close>
  "zero_time = -62135596800"

definition fixed_zone :: "string \<Rightarrow> int \<Rightarrow> location" where
  \<comment> \<open>\<open>time.UTC\<close> and \<open>time.FixedZone\<close>\<close>
  "fixed_zone name off = \<lparr>loc_name = name, loc_lookup = (\<lambda>t. (off, min_int64, max_int64))\<rparr>"

definition midnight :: "location \<Rightarrow> int \<Rightarrow> int" where
  "midnight loc n = civil_unix loc (86400 * n)"

section \<open>Months\<close>

lemma div_pred:
  fixes x c :: int
  assumes "c > 0"
  shows "x div c = (x - 1) div c + (if c dvd x then 1 else 0)"
proof (cases "c dvd x")
  case True
  then have "x = c * (x div c)" by simp
  then have "x - 1 = c * (x div c - 1) + (c - 1)" by (simp add: right_diff_distrib)
  then have "(x - 1) div c = x div c - 1"
    by (rule int_div_pos_eq) (use assms in auto)
  with True show ?thesis by simp
next
  case False
  have "x - 1 = c * (x div c) + (x mod c - 1)" by (simp add: algebra_simps)
  moreover have "0 \<le> x mod c - 1" "x mod c - 1 < c"
    using False assms pos_mod_sign [of c x] pos_mod_bound [of c x]
    by (auto simp: dvd_eq_mod_eq_0 order_le_less intro: order_less_trans [of _ "x mod c"])
  ultimately have "(x - 1) div c = x div c" by (intro int_div_pos_eq)
  with False show ?thesis by simp
qed

lemma days_before_year_Suc: "days_before_year (y + 1) = days_before_year y + (if is_leap y then 366 else 365)"
proof -
  define l4 l100 l400 where "l4 \<longleftrightarrow> 4 dvd y" and "l100 \<longleftrightarrow> 100 dvd y" and "l400 \<longleftrightarrow> 400 dvd y"
  define a4 a100 a400 where "a4 = (y - 1) div 4" and "a100 = (y - 1) div 100" and "a400 = (y - 1) div 400"
  define b4 b100 b400 where "b4 = y div 4" and "b100 = y div 100" and "b400 = y div 400"
  have "l100 \<Longrightarrow> l4" "l400 \<Longrightarrow> l100"
    using dvd_trans [of 4 100 y] dvd_trans [of 100 400 y] by (simp_all add: l4_def l100_def l400_def)
  moreover have "b4 = a4 + (if l4 then 1 else 0)" "b100 = a100 + (if l100 then 1 else 0)"
    "b400 = a400 + (if l400 then 1 else 0)"
    unfolding a4_def a100_def a400_def b4_def b100_def b400_def l4_def l100_def l400_def by (rule div_pred, simp)+
  moreover have "days_before_year (y + 1) = 365 * y + b4 - b100 + b400"
    by (simp add: days_before_year_def b4_def b100_def b400_def)
  moreover have "days_before_year y = 365 * (y - 1) + a4 - a100 + a400"
    by (simp only: days_before_year_def Let_def a4_def a100_def a400_def)
  moreover have "is_leap y \<longleftrightarrow> l4 \<and> (\<not> l100 \<or> l400)"
    by (simp add: is_leap_def mod_eq_0_iff_dvd l4_def l100_def l400_def)
  ultimately show ?thesis by (cases l4; cases l100; cases l400) simp_all
qed

lemma month_split:
  fixes k :: int
  obtains y j where "k = 12 * y + j" "0 \<le> j" "j \<le> 11"
proof
  show "k = 12 * (k div 12) + k mod 12" by simp
  show "0 \<le> k mod 12" by simp
  show "k mod 12 \<le> 11" by presburger
qed

lemma month_start_at:
  assumes "0 \<le> j" "j \<le> 11"
  shows "month_start (12 * y + j)
    = days_before_year y + cumulative_days ! nat j + (if j \<ge> 2 \<and> is_leap y then 1 else 0) - 719162"
proof -
  have "(12 * y + j) div 12 = y" "(12 * y + j) mod 12 = j" using assms by simp_all
  then show ?thesis by (simp add: month_start_def)
qed

lemma small_cases: "0 \<le> j \<Longrightarrow> j \<le> 11 \<Longrightarrow> j \<in> {0, 1, 2, 3, 4, 5, 6, 7, 8, 9, 10, 11 :: int}"
  by simp presburger

lemma month_len_bounds: "28 \<le> month_len k \<and> month_len k \<le> 31"
proof -
  obtain y j where k: "k = 12 * y + j" "0 \<le> j" "j \<le> 11" by (rule month_split)
  show ?thesis
  proof (cases "j = 11")
    case True
    then have "k + 1 = 12 * (y + 1) + 0" using k by simp
    then have "month_start (k + 1) = days_before_year (y + 1) - 719162"
      using month_start_at [of 0 "y + 1"] by (simp only:) (simp add: cumulative_days_def)
    with True k show ?thesis
      using month_start_at [of j y]
      by (simp add: month_len_def days_before_year_Suc cumulative_days_def)
  next
    case False
    then have "month_start (k + 1) = month_start (12 * y + (j + 1))" using k by (simp add: algebra_simps)
    then have "month_len k = month_start (12 * y + (j + 1)) - month_start (12 * y + j)"
      using k by (simp add: month_len_def)
    moreover have "0 \<le> j + 1" "j + 1 \<le> 11" using False k by auto
    ultimately show ?thesis
      using month_start_at [of j y] month_start_at [of "j + 1" y] small_cases [OF k(2,3)] k False
      by (auto simp: cumulative_days_def)
  qed
qed

lemma month_start_Suc: "month_start (k + 1) = month_start k + month_len k"
  by (simp add: month_len_def)

lemma month_start_less: "month_start k < month_start (k + 1)"
  using month_len_bounds [of k] by (simp add: month_start_Suc)

lemma month_start_strict: "i < k \<Longrightarrow> month_start i < month_start k"
proof (induction k rule: int_gr_induct)
  case base
  show ?case by (rule month_start_less)
next
  case (step k)
  then show ?case using month_start_less [of k] by simp
qed

lemma month_start_mono: "i \<le> k \<Longrightarrow> month_start i \<le> month_start k"
  using month_start_strict [of i k] by (cases "i = k") auto

lemma div_bounds:
  fixes x c :: int
  assumes "c > 0"
  shows "c * (x div c) \<le> x" and "x < c * (x div c) + c"
  using pos_mod_sign [OF assms, of x] pos_mod_bound [OF assms, of x] mult_div_mod_eq [of c x] by linarith+

lemma days_before_year_estimate:
  "146097 * N - 700 < 400 * days_before_year (N + 1)" "400 * days_before_year (N + 1) < 146097 * N + 400"
proof -
  have "4 * (N div 4) \<le> N" "N < 4 * (N div 4) + 4" "100 * (N div 100) \<le> N" "N < 100 * (N div 100) + 100"
    "400 * (N div 400) \<le> N" "N < 400 * (N div 400) + 400"
    by (rule div_bounds, simp)+
  then show "146097 * N - 700 < 400 * days_before_year (N + 1)" "400 * days_before_year (N + 1) < 146097 * N + 400"
    by (simp_all add: days_before_year_def)
qed

lemma year_of_day_bounds:
  "days_before_year (year_of_day n) \<le> n + 719162 \<and> n + 719162 < days_before_year (year_of_day n + 1)"
proof -
  define d where "d = n + 719162"
  define m where "m = 400 * d div 146097"
  have q: "146097 * m \<le> 400 * d" "400 * d < 146097 * m + 146097"
    unfolding m_def by (rule div_bounds, simp)+
  have lo: "days_before_year m \<le> d"
    using days_before_year_estimate(2) [of "m - 1"] q(1) by simp
  have hi: "d < days_before_year (m + 1 + 1 + 1)"
    using days_before_year_estimate(1) [of "m + 1 + 1"] q(2) by (simp add: add.assoc)
  have y: "year_of_day n = (if d < days_before_year (m + 1) then m
                            else if d < days_before_year (m + 1 + 1) then m + 1 else m + 1 + 1)"
    unfolding year_of_day_def Let_def d_def m_def by simp
  show ?thesis
    unfolding y d_def [symmetric] using lo hi by (simp only: not_less split: if_split) blast
qed

lemma filter_upto_prefix:
  fixes a b m :: int
  assumes "\<And>j. a \<le> j \<Longrightarrow> j \<le> b \<Longrightarrow> P j \<longleftrightarrow> j \<le> m" "a - 1 \<le> m" "m \<le> b"
  shows "filter P [a..b] = [a..m]"
proof -
  have "[a..b] = [a..m] @ [m + 1..b]"
    using assms(2,3) upto_split2 [of a m b] by (cases "m = a - 1") auto
  moreover have "filter P [a..m] = [a..m]" using assms by (intro filter_True) auto
  moreover have "filter P [m + 1..b] = []" using assms by (intro filter_False) auto
  ultimately show ?thesis by simp
qed

lemma month_of_day_bounds: "month_start (month_of_day n) \<le> n \<and> n < month_start (month_of_day n + 1)"
proof -
  define y where "y = year_of_day n"
  define A where "A = {j \<in> {0..11}. month_start (12 * y + j) \<le> n}"
  define m where "m = Max A"
  have s0: "month_start (12 * y) \<le> n"
    using year_of_day_bounds [of n] month_start_at [of 0 y] by (simp add: y_def cumulative_days_def)
  have s12: "n < month_start (12 * y + 12)"
    using year_of_day_bounds [of n] month_start_at [of 0 "y + 1"]
    by (simp add: y_def cumulative_days_def algebra_simps)
  have "A \<subseteq> {0..11}" "0 \<in> A" using s0 by (auto simp: A_def)
  then have A: "finite A" "A \<noteq> {}" using finite_subset [of A "{0..11}"] by auto
  then have m: "m \<in> A" "\<And>j. j \<in> A \<Longrightarrow> j \<le> m" by (simp_all add: m_def)
  have "filter (\<lambda>j. month_start (12 * y + j) \<le> n) [1..11] = [1..m]"
  proof (rule filter_upto_prefix)
    fix j :: int assume j: "1 \<le> j" "j \<le> 11"
    show "month_start (12 * y + j) \<le> n \<longleftrightarrow> j \<le> m"
      using j m month_start_mono [of "12 * y + j" "12 * y + m"] by (fastforce simp: A_def)
  qed (use m(1) in \<open>auto simp: A_def\<close>)
  then have k: "month_of_day n = 12 * y + m"
    using m(1) by (simp add: month_of_day_def y_def [symmetric] A_def)
  have "n < month_start (12 * y + (m + 1))"
  proof (cases "m = 11")
    case False
    with m have "m + 1 \<notin> A" by fastforce
    with False m(1) show ?thesis by (auto simp: A_def)
  qed (use s12 in simp)
  with k m(1) show ?thesis by (auto simp: A_def algebra_simps)
qed

lemma month_of_day_unique: "month_start k \<le> n \<Longrightarrow> n < month_start (k + 1) \<Longrightarrow> month_of_day n = k"
proof (rule ccontr)
  assume k: "month_start k \<le> n" "n < month_start (k + 1)" "month_of_day n \<noteq> k"
  then consider "month_of_day n + 1 \<le> k" | "k + 1 \<le> month_of_day n" by linarith
  then show False
    using k month_of_day_bounds [of n] month_start_mono by cases (meson not_le order_trans)+
qed

section \<open>Locations whose days start at their midnight\<close>

text \<open>
  The interface the boundary computations rely on: every local day has a midnight, \<open>time.Date\<close>
  finds it, and an instant lies on or after a local day exactly when it is not before that
  midnight. Fixed-offset zones satisfy it (below); so does a zone whose daylight-saving
  changes leave every midnight in place. A zone that skips or repeats a midnight does not.
\<close>

locale regular_location =
  fixes loc :: location
  assumes midnight_exists: "local_seconds loc (midnight loc n) = 86400 * n"
    and day_iff: "n \<le> local_day loc t \<longleftrightarrow> midnight loc n \<le> t"
begin

lemma local_day_midnight [simp]: "local_day loc (midnight loc n) = n"
  by (simp add: local_day_def midnight_exists)

lemma midnight_strict: "m < n \<Longrightarrow> midnight loc m < midnight loc n"
  using day_iff [of n "midnight loc m"] by simp

lemma midnight_mono: "m \<le> n \<Longrightarrow> midnight loc m \<le> midnight loc n"
  using day_iff [of m "midnight loc n"] by simp

lemma time_date_midnight: "time_date loc k d 0 = midnight loc (month_start k + d - 1)"
  by (simp add: time_date_def midnight_def)

lemma time_month_midnight: "month_start k \<le> n \<Longrightarrow> n < month_start (k + 1) \<Longrightarrow> time_month loc (midnight loc n) = k"
  by (simp add: time_month_def month_of_day_unique)

lemma time_day_midnight:
  "month_start k \<le> n \<Longrightarrow> n < month_start (k + 1) \<Longrightarrow> time_day loc (midnight loc n) = n - month_start k + 1"
  by (simp add: time_day_def time_month_midnight)

lemma last_day_of_month: "time_day loc (time_date loc (k + 1) 0 0) = month_len k"
proof -
  have "month_start k \<le> month_start (k + 1) - 1" using month_start_less [of k] by simp
  then show ?thesis
    by (simp add: time_date_midnight time_day_midnight [of k] month_start_Suc)
qed

lemma add_months_first:
  "add_months loc (time_date loc k 1 0) j = midnight loc (month_start (k + j))"
proof -
  have "time_month loc (midnight loc (month_start k)) = k" "time_day loc (midnight loc (month_start k)) = 1"
    using month_start_less [of k] time_month_midnight [of k] time_day_midnight [of k] by simp_all
  moreover have "local_seconds loc (midnight loc (month_start k)) mod 86400 = 0"
    by (simp add: midnight_exists)
  ultimately show ?thesis
    by (simp add: add_months_def time_date_midnight)
qed

lemma first_of_month: "time_month loc (midnight loc (month_start k)) = k"
  using month_start_less [of k] time_month_midnight by simp

end

lemma fixed_zone_simps [simp]:
  "loc_offset (fixed_zone name off) t = off"
  "loc_lookup (fixed_zone name off) t = (off, min_int64, max_int64)"
  by (simp_all add: loc_offset_def fixed_zone_def)

lemma fixed_zone_midnight: "midnight (fixed_zone name off) n = 86400 * n - off"
  by (simp add: midnight_def civil_unix_def Let_def)

interpretation fixed: regular_location "fixed_zone name off" for name off
proof unfold_locales
  show "local_seconds (fixed_zone name off) (midnight (fixed_zone name off) n) = 86400 * n" for n
    by (simp add: fixed_zone_midnight local_seconds_def)
  show "n \<le> local_day (fixed_zone name off) t \<longleftrightarrow> midnight (fixed_zone name off) n \<le> t" for n t
  proof -
    define q where "q = (t + off) div 86400"
    have "86400 * q \<le> t + off" "t + off < 86400 * q + 86400"
      unfolding q_def by (rule div_bounds, simp)+
    then have "n \<le> q \<longleftrightarrow> 86400 * n \<le> t + off" by auto
    then show ?thesis
      by (simp add: fixed_zone_midnight local_day_def local_seconds_def q_def algebra_simps)
  qed
qed

end
