(* ===== verification/Client_Policy.thy ===== *)
theory Client_Policy
  imports Panel_Calendar
begin

text \<open>
  Access policy of the panel's clients: quota and expiry (\<open>service/client_access_policy.go\<close>), the
  monthly reset boundaries shared with the traffic overview and the forwarding rules, and
  the two scheduled jobs on the client table, \<open>ResetTrafficBySchedule\<close> and \<open>DepleteClients\<close>
  (\<open>service/client.go\<close>).
\<close>

section \<open>Quota and expiry\<close>

record clientAccessEvaluation =
  Blocked :: bool
  Expired :: bool
  VolumeExceeded :: bool

definition normalizeClientVolume :: "int \<Rightarrow> int" where
  "normalizeClientVolume volume = (if volume < 0 then 0 else volume)"

definition normalizeClientExpiry :: "int \<Rightarrow> int" where
  "normalizeClientExpiry expiry = (if expiry < 0 then 0 else expiry)"

definition normalizeClientResetDay :: "int \<Rightarrow> int" where
  "normalizeClientResetDay resetDay = (if resetDay < 0 then 0 else if resetDay > 31 then 31 else resetDay)"

definition normalizeClientSpeedLimitMbps :: "int \<Rightarrow> int" where
  "normalizeClientSpeedLimitMbps limit = (if limit \<le> 0 then 0 else limit)"

definition evaluateClientAccess :: "bool \<Rightarrow> int \<Rightarrow> int \<Rightarrow> int \<Rightarrow> int \<Rightarrow> clientAccessEvaluation" where
  "evaluateClientAccess enable used0 volume0 expiry0 now =
     (let used = (if used0 < 0 then 0 else used0);
          volume = normalizeClientVolume volume0;
          expiry = normalizeClientExpiry expiry0;
          volumeExceeded = (volume > 0 \<and> used \<ge> volume);
          expired = (expiry > 0 \<and> now \<ge> expiry)
      in \<lparr>Blocked = (enable \<and> (expired \<or> volumeExceeded)), Expired = expired, VolumeExceeded = volumeExceeded\<rparr>)"

section \<open>Monthly boundaries\<close>

text \<open>A month is its index; \<open>None\<close> is the result \<open>(time.Time{}, false)\<close>.\<close>

definition clampResetDayToMonthEnd :: "int \<Rightarrow> int \<Rightarrow> location \<Rightarrow> int" where
  "clampResetDayToMonthEnd resetDay k loc =
     (if resetDay \<le> 0 then 0
      else let lastDay = time_day loc (time_date loc (k + 1) 0 0)
           in if resetDay > lastDay then lastDay else resetDay)"

definition computeClientMonthlyResetBoundary :: "int \<Rightarrow> int \<Rightarrow> location \<Rightarrow> int" where
  "computeClientMonthlyResetBoundary resetDay k loc =
     (if resetDay \<le> 0 then zero_time
      else time_date loc k (clampResetDayToMonthEnd resetDay k loc) 0)"

definition latestClientMonthlyResetBoundary :: "int \<Rightarrow> location \<Rightarrow> int \<Rightarrow> int option" where
  "latestClientMonthlyResetBoundary resetDay0 loc now =
     (let resetDay = normalizeClientResetDay resetDay0
      in if resetDay \<le> 0 then None
         else let k = time_month loc now;
                  currentBoundary = computeClientMonthlyResetBoundary resetDay k loc
              in if \<not> now < currentBoundary then Some currentBoundary
                 else let previousMonth = add_months loc (time_date loc k 1 0) (-1)
                      in Some (computeClientMonthlyResetBoundary resetDay (time_month loc previousMonth) loc))"

definition nextClientMonthlyResetBoundary :: "int \<Rightarrow> location \<Rightarrow> int \<Rightarrow> int option" where
  "nextClientMonthlyResetBoundary resetDay0 loc now =
     (let resetDay = normalizeClientResetDay resetDay0
      in if resetDay \<le> 0 then None
         else let k = time_month loc now;
                  currentBoundary = computeClientMonthlyResetBoundary resetDay k loc
              in if now < currentBoundary then Some currentBoundary
                 else let nextMonth = add_months loc (time_date loc k 1 0) 1
                      in Some (computeClientMonthlyResetBoundary resetDay (time_month loc nextMonth) loc))"

definition shouldResetClientTrafficMonthly :: "int \<Rightarrow> int \<Rightarrow> location \<Rightarrow> int \<Rightarrow> bool" where
  "shouldResetClientTrafficMonthly lastReset resetDay loc now =
     (case latestClientMonthlyResetBoundary resetDay loc now of
        None \<Rightarrow> False
      | Some boundary \<Rightarrow> boundary \<noteq> zero_time \<and> lastReset < boundary \<and> \<not> now < boundary)"

definition computePeriodTag :: "int \<Rightarrow> location \<Rightarrow> int \<Rightarrow> string" where
  "computePeriodTag resetDay loc now =
     (if resetDay \<le> 0 then []
      else case latestClientMonthlyResetBoundary resetDay loc now of
             None \<Rightarrow> []
           | Some boundary \<Rightarrow> if boundary = zero_time then [] else ''boundary:'' @ itoa boundary)"

section \<open>The client table and its scheduled jobs\<close>

record client =
  Id :: nat
  Enable :: bool
  Depleted :: bool
  Name :: string
  Inbounds :: "nat list"  \<comment> \<open>the ids the JSON array of the row decodes to\<close>
  Volume :: int
  Expiry :: int
  Down :: int
  Up :: int
  Extra :: int
  LastReset :: int

record binding =  \<comment> \<open>\<open>ClientInboundTrafficState\<close>\<close>
  ClientId :: nat
  InboundId :: nat
  Active :: bool
  LastInBytes :: int
  LastOutBytes :: int
  UsedInBytes :: int
  UsedOutBytes :: int

record client_db =
  clients :: "client list"
  bindings :: "binding list"

text \<open>
  \<open>ResetClientTraffic\<close>; \<open>current\<close> is \<open>getCurrentInboundBytes\<close>, the nft counters of an inbound, and
  \<open>clock\<close> the Unix time it stamps. The scheduled job calls it without a transaction, so what was written before a
  failing statement stays: the statement on the client row, the query for the bindings, or the save after some bindings.
\<close>

datatype reset_fault = Client_Row_Fails | Binding_Query_Fails | Binding_Save_Fails nat

definition rebase_binding :: "(nat \<Rightarrow> int \<times> int) \<Rightarrow> binding \<Rightarrow> binding" where
  "rebase_binding current b =
     b\<lparr>LastInBytes := fst (current (InboundId b)), LastOutBytes := snd (current (InboundId b)), UsedInBytes := 0, UsedOutBytes := 0\<rparr>"

fun rebase_bindings :: "(nat \<Rightarrow> int \<times> int) \<Rightarrow> nat \<Rightarrow> nat option \<Rightarrow> binding list \<Rightarrow> binding list" where
  \<comment> \<open>with a number, the save after that many bindings fails\<close>
  "rebase_bindings current cid limit [] = []"
| "rebase_bindings current cid limit (b # bs) =
     (if ClientId b = cid \<and> Active b
      then (if limit = Some 0 then b # bs
            else rebase_binding current b # rebase_bindings current cid (map_option (\<lambda>n. n - 1) limit) bs)
      else b # rebase_bindings current cid limit bs)"

definition ResetClientTraffic :: "reset_fault option \<Rightarrow> (nat \<Rightarrow> int \<times> int) \<Rightarrow> int \<Rightarrow> client_db \<Rightarrow> nat \<Rightarrow> bool \<times> client_db" where
  \<comment> \<open>whether it succeeded, and the tables\<close>
  "ResetClientTraffic fault current clock db cid =
     (let db1 = db\<lparr>clients := map (\<lambda>c. if Id c = cid then c\<lparr>Up := 0, Down := 0, LastReset := clock\<rparr> else c) (clients db)\<rparr>
      in case fault of
           Some Client_Row_Fails \<Rightarrow> (False, db)
         | Some Binding_Query_Fails \<Rightarrow> (False, db1)
         | Some (Binding_Save_Fails n) \<Rightarrow> (False, db1\<lparr>bindings := rebase_bindings current cid (Some n) (bindings db1)\<rparr>)
         | None \<Rightarrow> (True, db1\<lparr>bindings := rebase_bindings current cid None (bindings db1)\<rparr>))"

record reset_faults =
  reset_fault_of :: "nat \<Rightarrow> reset_fault option"
  enable_fails :: "nat \<Rightarrow> bool"

text \<open>One client of the loop in \<open>ResetTrafficBySchedule\<close>; failures are logged, and the loop goes on.\<close>

definition reset_one ::
  "reset_faults \<Rightarrow> (nat \<Rightarrow> int \<times> int) \<Rightarrow> int \<Rightarrow> int \<Rightarrow> client \<Rightarrow> bool \<times> client_db \<Rightarrow> bool \<times> client_db" where
  "reset_one e current clock now c st =
     (case st of (changed, db) \<Rightarrow>
        (case ResetClientTraffic (reset_fault_of e (Id c)) current clock db (Id c) of
           (False, db1) \<Rightarrow> (changed, db1)
         | (True, db1) \<Rightarrow>
             (True, if Depleted c \<and> (Expiry c \<le> 0 \<or> Expiry c > now) \<and> \<not> enable_fails e (Id c)
                    then db1\<lparr>clients := map (\<lambda>d. if Id d = Id c \<and> Depleted d
                                                 then d\<lparr>Enable := True, Depleted := False\<rparr> else d) (clients db1)\<rparr>
                    else db1)))"

datatype reset_result = ResetFlushError | ResetDone bool client_db

definition ResetTrafficBySchedule ::
  "reset_faults \<Rightarrow> (nat \<Rightarrow> int \<times> int) \<Rightarrow> bool \<Rightarrow> int \<Rightarrow> location \<Rightarrow> int \<Rightarrow> client_db \<Rightarrow> reset_result" where
  "ResetTrafficBySchedule e current flushOk clock loc now db =
     (let cs = filter (\<lambda>c. Extra c > 0) (clients db)
      in if cs = [] then ResetDone False db
         else let resetClients = filter (\<lambda>c. shouldResetClientTrafficMonthly (LastReset c) (Extra c) loc now) cs
              in if resetClients = [] then ResetDone False db
                 else if \<not> flushOk then ResetFlushError
                 else case fold (reset_one e current clock now) resetClients (False, db) of
                        (changed, db') \<Rightarrow> ResetDone changed db')"

text \<open>
  The SQL condition of \<open>DepleteClients\<close>. SQLite turns an integer sum that overflows into a
  floating-point number of the same magnitude, so the comparison is the mathematical one.
\<close>

definition deplete_condition :: "int \<Rightarrow> client \<Rightarrow> bool" where
  "deplete_condition now c \<longleftrightarrow>
     Enable c \<and> ((Volume c > 0 \<and> Up c + Down c \<ge> Volume c) \<or> (Expiry c > 0 \<and> Expiry c \<le> now))"

record change =
  DateTime :: int
  Actor :: string
  Key :: string
  Action :: string
  Obj :: string

datatype deplete_fault = Deplete_Select | Deplete_Begin | Deplete_Update | Deplete_Record | Deplete_Commit

definition deplete_change :: "int \<Rightarrow> client \<Rightarrow> change" where
  "deplete_change dt c =
     \<lparr>DateTime = dt, Actor = ''DepleteJob'', Key = ''clients'', Action = ''disable'', Obj = [CHR 0x22] @ Name c @ [CHR 0x22]\<rparr>"

definition DepleteClients ::
  "deplete_fault option \<Rightarrow> int \<Rightarrow> int \<Rightarrow> client_db \<Rightarrow> client_db \<Rightarrow> (deplete_fault + nat set) \<times> change list \<times> client_db" where
  \<comment> \<open>\<open>db0\<close> is read before the transaction, \<open>db1\<close> is the database the transaction sees. The result is the error or
     the changed inbounds (Go collects them in map order), the audit rows written, and the tables; a failing statement of the transaction rolls it back.\<close>
  "DepleteClients fault now dt db0 db1 =
     (if fault = Some Deplete_Select then (Inl Deplete_Select, [], db1)
      else let cs = filter (deplete_condition now) (clients db0)
           in if cs = [] then (Inr {}, [], db1)
              else case fault of
                     Some err \<Rightarrow> (Inl err, [], db1)
                   | None \<Rightarrow>
                       (Inr (\<Union>c \<in> set cs. set (Inbounds c)), map (deplete_change dt) cs,
                        db1\<lparr>clients := map (\<lambda>c. if deplete_condition now c then c\<lparr>Enable := False, Depleted := True\<rparr> else c)
                                           (clients db1)\<rparr>))"

section \<open>Boundaries in a regular location\<close>

definition boundary_at :: "location \<Rightarrow> int \<Rightarrow> int \<Rightarrow> int" where
  \<comment> \<open>midnight of day \<open>d\<close> of month \<open>k\<close>, or of its last day when the month is shorter\<close>
  "boundary_at loc d k = midnight loc (month_start k + min d (month_len k) - 1)"

context regular_location
begin

lemma clamp_eq: "1 \<le> d \<Longrightarrow> clampResetDayToMonthEnd d k loc = min d (month_len k)"
  by (simp add: clampResetDayToMonthEnd_def last_day_of_month min_def)

lemma boundary_eq: "1 \<le> d \<Longrightarrow> computeClientMonthlyResetBoundary d k loc = boundary_at loc d k"
  by (simp add: computeClientMonthlyResetBoundary_def clamp_eq time_date_midnight boundary_at_def)

lemma boundary_in_month:
  assumes "1 \<le> d"
  shows "midnight loc (month_start k) \<le> boundary_at loc d k"
    and "boundary_at loc d k < midnight loc (month_start (k + 1))"
proof -
  have "1 \<le> min d (month_len k)" "min d (month_len k) \<le> month_len k"
    using assms month_len_bounds [of k] by auto
  then show "midnight loc (month_start k) \<le> boundary_at loc d k"
    "boundary_at loc d k < midnight loc (month_start (k + 1))"
    by (auto simp: boundary_at_def month_start_Suc intro!: midnight_mono midnight_strict)
qed

lemma boundary_strict: "1 \<le> d \<Longrightarrow> j < k \<Longrightarrow> boundary_at loc d j < boundary_at loc d k"
proof -
  assume d: "1 \<le> d" and jk: "j < k"
  have "midnight loc (month_start (j + 1)) \<le> midnight loc (month_start k)"
    using jk by (intro midnight_mono month_start_mono) simp
  with boundary_in_month(2) [OF d, of j] boundary_in_month(1) [OF d, of k] show ?thesis by linarith
qed

lemma boundary_mono: "1 \<le> d \<Longrightarrow> j \<le> k \<Longrightarrow> boundary_at loc d j \<le> boundary_at loc d k"
  using boundary_strict [of d j k] by (cases "j = k") auto

lemma boundary_civil:
  assumes "1 \<le> d"
  shows "time_month loc (boundary_at loc d k) = k"
    and "time_day loc (boundary_at loc d k) = min d (month_len k)"
    and "local_seconds loc (boundary_at loc d k) mod 86400 = 0"
proof -
  have "month_start k \<le> month_start k + min d (month_len k) - 1"
    "month_start k + min d (month_len k) - 1 < month_start (k + 1)"
    using assms month_len_bounds [of k] by (auto simp: month_start_Suc)
  from time_month_midnight [OF this] time_day_midnight [OF this]
  show "time_month loc (boundary_at loc d k) = k"
    "time_day loc (boundary_at loc d k) = min d (month_len k)"
    by (simp_all add: boundary_at_def)
  show "local_seconds loc (boundary_at loc d k) mod 86400 = 0"
    by (simp add: boundary_at_def midnight_exists)
qed

lemma now_in_month:
  "midnight loc (month_start (time_month loc now)) \<le> now"
  "now < midnight loc (month_start (time_month loc now + 1))"
  using month_of_day_bounds [of "local_day loc now"] day_iff
  by (auto simp: time_month_def not_le [symmetric])

lemma adjacent_month: "time_month loc (add_months loc (time_date loc k 1 0) j) = k + j"
  by (simp add: add_months_first first_of_month)

lemma latest_next_cases:
  assumes d: "1 \<le> d" "normalizeClientResetDay resetDay = d"
  obtains k where "latestClientMonthlyResetBoundary resetDay loc now = Some (boundary_at loc d k)"
    "nextClientMonthlyResetBoundary resetDay loc now = Some (boundary_at loc d (k + 1))"
    "boundary_at loc d k \<le> now" "now < boundary_at loc d (k + 1)"
proof (cases "now < boundary_at loc d (time_month loc now)")
  case True
  let ?k = "time_month loc now"
  have "boundary_at loc d (?k - 1) < now"
    using boundary_in_month(2) [OF d(1), of "?k - 1"] now_in_month(1) [of now] by simp
  with True d show thesis
    using adjacent_month [of ?k "-1"]
    by (intro that [of "?k - 1"])
       (simp_all add: latestClientMonthlyResetBoundary_def nextClientMonthlyResetBoundary_def boundary_eq)
next
  case False
  let ?k = "time_month loc now"
  have "now < boundary_at loc d (?k + 1)"
    using boundary_in_month(1) [OF d(1), of "?k + 1"] now_in_month(2) [of now] by simp
  with False d show thesis
    using adjacent_month [of ?k 1]
    by (intro that [of ?k])
       (simp_all add: latestClientMonthlyResetBoundary_def nextClientMonthlyResetBoundary_def boundary_eq)
qed

lemma boundary_index_unique:
  assumes "1 \<le> d" "boundary_at loc d i \<le> t" "t < boundary_at loc d (i + 1)"
    "boundary_at loc d j \<le> t" "t < boundary_at loc d (j + 1)"
  shows "i = j"
proof (rule ccontr)
  assume "i \<noteq> j"
  then consider "i + 1 \<le> j" | "j + 1 \<le> i" by linarith
  then show False
    using assms boundary_mono [OF assms(1), of "i + 1" j] boundary_mono [OF assms(1), of "j + 1" i]
    by cases auto
qed

lemma bracket:
  assumes d: "1 \<le> d" "normalizeClientResetDay resetDay = d"
    and k: "boundary_at loc d k \<le> now" "now < boundary_at loc d (k + 1)"
  shows "latestClientMonthlyResetBoundary resetDay loc now = Some (boundary_at loc d k)"
    and "nextClientMonthlyResetBoundary resetDay loc now = Some (boundary_at loc d (k + 1))"
proof -
  obtain j where j: "latestClientMonthlyResetBoundary resetDay loc now = Some (boundary_at loc d j)"
    "nextClientMonthlyResetBoundary resetDay loc now = Some (boundary_at loc d (j + 1))"
    "boundary_at loc d j \<le> now" "now < boundary_at loc d (j + 1)"
    by (rule latest_next_cases [OF d, of now])
  have "j = k" using boundary_index_unique [OF d(1) j(3,4) k] .
  with j(1,2) show "latestClientMonthlyResetBoundary resetDay loc now = Some (boundary_at loc d k)"
    "nextClientMonthlyResetBoundary resetDay loc now = Some (boundary_at loc d (k + 1))" by simp_all
qed

lemma due_iff:
  assumes d: "1 \<le> d" "normalizeClientResetDay resetDay = d" and "0 \<le> lastReset"
  shows "shouldResetClientTrafficMonthly lastReset resetDay loc now
           \<longleftrightarrow> (\<exists>k. lastReset < boundary_at loc d k \<and> boundary_at loc d k \<le> now)"
proof -
  obtain k where k: "latestClientMonthlyResetBoundary resetDay loc now = Some (boundary_at loc d k)"
    "boundary_at loc d k \<le> now" "now < boundary_at loc d (k + 1)"
    by (rule latest_next_cases [OF d, of now])
  have latest: "boundary_at loc d j \<le> boundary_at loc d k" if "boundary_at loc d j \<le> now" for j
  proof (rule ccontr)
    assume less: "\<not> boundary_at loc d j \<le> boundary_at loc d k"
    then have "k + 1 \<le> j" using boundary_mono [OF d(1), of j k] by linarith
    then have "boundary_at loc d (k + 1) \<le> boundary_at loc d j" by (rule boundary_mono [OF d(1)])
    with k(3) that show False by simp
  qed
  have "boundary_at loc d k \<noteq> zero_time" if "lastReset < boundary_at loc d k"
    using that assms(3) by (simp add: zero_time_def)
  then have "shouldResetClientTrafficMonthly lastReset resetDay loc now \<longleftrightarrow> lastReset < boundary_at loc d k"
    using k by (auto simp: shouldResetClientTrafficMonthly_def)
  also have "\<dots> \<longleftrightarrow> (\<exists>j. lastReset < boundary_at loc d j \<and> boundary_at loc d j \<le> now)"
    using k(2) latest by force
  finally show ?thesis .
qed

end

section \<open>The scheduled jobs\<close>

lemma normalizeClientResetDay_pos: "1 \<le> r \<Longrightarrow> 1 \<le> normalizeClientResetDay r \<and> normalizeClientResetDay r = min r 31"
  by (simp add: normalizeClientResetDay_def)

definition reset_due :: "location \<Rightarrow> int \<Rightarrow> client \<Rightarrow> bool" where
  "reset_due loc now c \<longleftrightarrow> Extra c > 0 \<and> shouldResetClientTrafficMonthly (LastReset c) (Extra c) loc now"

definition reset_client :: "reset_faults \<Rightarrow> int \<Rightarrow> int \<Rightarrow> client \<Rightarrow> client" where
  \<comment> \<open>what a scheduled reset does to one row\<close>
  "reset_client e clock now c =
     (let c1 = c\<lparr>Up := 0, Down := 0, LastReset := clock\<rparr>
      in case reset_fault_of e (Id c) of
           Some Client_Row_Fails \<Rightarrow> c
         | Some _ \<Rightarrow> c1
         | None \<Rightarrow> (if Depleted c \<and> (Expiry c \<le> 0 \<or> Expiry c > now) \<and> \<not> enable_fails e (Id c)
                    then c1\<lparr>Enable := True, Depleted := False\<rparr> else c1))"

lemma reset_client_Id [simp]: "Id (reset_client e clock now c) = Id c"
  by (simp add: reset_client_def Let_def split: option.split reset_fault.split)

lemma ResetClientTraffic_clients:
  assumes "ResetClientTraffic fault current clock db cid = (b, db1)"
  shows "(b \<longleftrightarrow> fault = None)
     \<and> clients db1 = map (\<lambda>c. if Id c = cid \<and> fault \<noteq> Some Client_Row_Fails then c\<lparr>Up := 0, Down := 0, LastReset := clock\<rparr> else c) (clients db)"
  using assms by (auto simp: ResetClientTraffic_def Let_def intro: map_cong split: option.splits reset_fault.splits)

lemma reset_one_clients:
  assumes "distinct (map Id (clients db))" "c \<in> set (clients db)" "reset_one e current clock now c (ch, db) = (ch', db')"
  shows "clients db' = map (\<lambda>d. if Id d = Id c then reset_client e clock now d else d) (clients db)
     \<and> (ch' \<longleftrightarrow> ch \<or> reset_fault_of e (Id c) = None)"
proof -
  have eq: "d = c" if "d \<in> set (clients db)" "Id d = Id c" for d
    using assms(1,2) that by (metis distinct_map inj_onD)
  obtain b db1 where r: "ResetClientTraffic (reset_fault_of e (Id c)) current clock db (Id c) = (b, db1)" by fastforce
  note R = ResetClientTraffic_clients [OF r]
  show ?thesis
  proof (cases b)
    case False
    then have "ch' = ch" "db' = db1" "reset_fault_of e (Id c) \<noteq> None" using assms(3) r R by (auto simp: reset_one_def)
    then show ?thesis using R eq by (auto simp: reset_client_def Let_def split: option.split reset_fault.split)
  next
    case True
    then have none: "reset_fault_of e (Id c) = None" using R by simp
    have "ch'" "clients db' = (if Depleted c \<and> (Expiry c \<le> 0 \<or> Expiry c > now) \<and> \<not> enable_fails e (Id c)
        then map (\<lambda>d. if Id d = Id c \<and> Depleted d then d\<lparr>Enable := True, Depleted := False\<rparr> else d) (clients db1) else clients db1)"
      using assms(3) r True by (auto simp: reset_one_def)
    then show ?thesis using R none eq by (auto simp: reset_client_def Let_def)
  qed
qed

lemma fold_reset_clients:
  assumes "distinct (map Id rs)" "set rs \<subseteq> set (clients db)" "distinct (map Id (clients db))"
    "fold (reset_one e current clock now) rs (ch, db) = (ch', db')"
  shows "clients db' = map (\<lambda>d. if Id d \<in> Id ` set rs then reset_client e clock now d else d) (clients db)
     \<and> (ch' \<longleftrightarrow> ch \<or> (\<exists>c \<in> set rs. reset_fault_of e (Id c) = None))"
  using assms
proof (induction rs arbitrary: ch db)
  case Nil
  then show ?case by (simp add: map_idI)
next
  case (Cons c rs)
  obtain ch1 db1 where one: "reset_one e current clock now c (ch, db) = (ch1, db1)" by fastforce
  have cl: "clients db1 = map (\<lambda>d. if Id d = Id c then reset_client e clock now d else d) (clients db)"
    "ch1 \<longleftrightarrow> ch \<or> reset_fault_of e (Id c) = None"
    using reset_one_clients [OF Cons.prems(3) _ one] Cons.prems(2) by auto
  have "d \<in> set (clients db1)" if "d \<in> set rs" for d
    using that Cons.prems(1,2) by (auto simp: cl(1) image_iff)
  then have sub: "set rs \<subseteq> set (clients db1)" by blast
  have "map Id (clients db1) = map Id (clients db)" by (simp add: cl(1))
  then have dist: "distinct (map Id (clients db1))" using Cons.prems(3) by simp
  have rest: "fold (reset_one e current clock now) rs (ch1, db1) = (ch', db')" using Cons.prems(4) one by simp
  from Cons.IH [OF _ sub dist rest] Cons.prems(1)
  have "clients db' = map (\<lambda>d. if Id d \<in> Id ` set rs then reset_client e clock now d else d) (clients db1)"
    "ch' \<longleftrightarrow> ch1 \<or> (\<exists>c \<in> set rs. reset_fault_of e (Id c) = None)" by simp_all
  then show ?case
    using Cons.prems(1) by (auto simp: cl comp_def)
qed

lemma reset_targets:
  "filter (\<lambda>c. shouldResetClientTrafficMonthly (LastReset c) (Extra c) loc now)
          (filter (\<lambda>c. Extra c > 0) (clients db)) = filter (reset_due loc now) (clients db)"
  by (auto simp: reset_due_def intro!: filter_cong)

lemma map_by_id:
  assumes "distinct (map Id cs)"
  shows "map (\<lambda>d. if Id d \<in> Id ` set (filter P cs) then f d else d) cs = map (\<lambda>d. if P d then f d else d) cs"
proof (intro map_cong refl)
  fix d assume "d \<in> set cs"
  then have "Id d \<in> Id ` set (filter P cs) \<longleftrightarrow> P d"
    using assms by (auto simp: distinct_map dest: inj_onD)
  then show "(if Id d \<in> Id ` set (filter P cs) then f d else d) = (if P d then f d else d)" by simp
qed

section \<open>Properties\<close>

text \<open>
  C9: monthly reset boundaries. In a regular location, for every reset day \<open>r \<ge> 1\<close> and every
  instant, \<open>latestClientMonthlyResetBoundary\<close> and \<open>nextClientMonthlyResetBoundary\<close> return the two consecutive boundaries
  around the instant: local midnights whose day of the month is \<open>min r 31\<close>, or the last day of a
  shorter month, in consecutive months; and the pair stays the same until the next one.
\<close>

theorem monthly_boundaries_bracket_now:
  assumes loc: "regular_location loc" and r: "1 \<le> resetDay"
  shows "\<exists>b b'. latestClientMonthlyResetBoundary resetDay loc now = Some b
    \<and> nextClientMonthlyResetBoundary resetDay loc now = Some b' \<and> b \<le> now \<and> now < b'
    \<and> time_month loc b' = time_month loc b + 1
    \<and> time_day loc b = min (min resetDay 31) (month_len (time_month loc b))
    \<and> time_day loc b' = min (min resetDay 31) (month_len (time_month loc b'))
    \<and> local_seconds loc b mod 86400 = 0 \<and> local_seconds loc b' mod 86400 = 0
    \<and> (\<forall>t. b \<le> t \<and> t < b' \<longrightarrow> latestClientMonthlyResetBoundary resetDay loc t = Some b
                            \<and> nextClientMonthlyResetBoundary resetDay loc t = Some b')"
proof -
  note rl = loc
  define d where "d = normalizeClientResetDay resetDay"
  have d: "1 \<le> d" "normalizeClientResetDay resetDay = d" "d = min resetDay 31"
    using normalizeClientResetDay_pos [OF r] unfolding d_def by blast+
  obtain k where k: "latestClientMonthlyResetBoundary resetDay loc now = Some (boundary_at loc d k)"
    "nextClientMonthlyResetBoundary resetDay loc now = Some (boundary_at loc d (k + 1))"
    "boundary_at loc d k \<le> now" "now < boundary_at loc d (k + 1)"
    by (rule regular_location.latest_next_cases [OF rl d(1,2), of now])
  have stay: "\<forall>t. boundary_at loc d k \<le> t \<and> t < boundary_at loc d (k + 1) \<longrightarrow>
      latestClientMonthlyResetBoundary resetDay loc t = Some (boundary_at loc d k) \<and>
      nextClientMonthlyResetBoundary resetDay loc t = Some (boundary_at loc d (k + 1))"
    using regular_location.bracket [OF rl d(1,2)] by blast
  show ?thesis
    using k stay regular_location.boundary_civil [OF rl d(1)] d(3)
    by (intro exI [of _ "boundary_at loc d k"] exI [of _ "boundary_at loc d (k + 1)"]) auto
qed

theorem monthly_boundaries_bracket_now_witness:
  "latestClientMonthlyResetBoundary 31 (fixed_zone ''UTC'' 0) 1709300000 = Some 1709164800
   \<and> nextClientMonthlyResetBoundary 31 (fixed_zone ''UTC'' 0) 1709300000 = Some 1711843200
   \<and> latestClientMonthlyResetBoundary 31 (fixed_zone ''UTC'' 0) 1711843199 = Some 1709164800"
proof -
  have "latestClientMonthlyResetBoundary 31 (fixed_zone ''UTC'' 0) 1709300000 = Some 1709164800"
    "nextClientMonthlyResetBoundary 31 (fixed_zone ''UTC'' 0) 1709300000 = Some 1711843200"
    by code_simp+
  with monthly_boundaries_bracket_now [OF fixed.regular_location_axioms, of 31 "''UTC''" 0 1709300000]
  show ?thesis by auto
qed

text \<open>
  a monthly reset is due exactly when a boundary has passed since the last reset:
  \<open>shouldResetClientTrafficMonthly\<close> holds iff the boundary of some month lies after \<open>lastReset\<close> and not
  after \<open>now\<close>. So a client that is reset at some instant is not reset again before the next
  boundary, and is due at every instant from that boundary on.
\<close>

lemma monthly_reset_due_iff_boundary_passed:
  assumes loc: "regular_location loc" and r: "1 \<le> resetDay" and l: "0 \<le> lastReset"
  shows "shouldResetClientTrafficMonthly lastReset resetDay loc now
    \<longleftrightarrow> (\<exists>k. lastReset < computeClientMonthlyResetBoundary (min resetDay 31) k loc
            \<and> computeClientMonthlyResetBoundary (min resetDay 31) k loc \<le> now)"
proof -
  have d: "1 \<le> min resetDay 31" "normalizeClientResetDay resetDay = min resetDay 31"
    using normalizeClientResetDay_pos [OF r] r by auto
  show ?thesis
    using regular_location.due_iff [OF loc d l, of now] regular_location.boundary_eq [OF loc d(1)] by simp
qed

theorem monthly_reset_due_iff_boundary_passed_example:
  "shouldResetClientTrafficMonthly 1709164799 31 (fixed_zone ''UTC'' 0) 1709164800
   \<and> (\<exists>k. 1709164799 < computeClientMonthlyResetBoundary 31 k (fixed_zone ''UTC'' 0)
          \<and> computeClientMonthlyResetBoundary 31 k (fixed_zone ''UTC'' 0) \<le> 1709164800)"
proof -
  have "shouldResetClientTrafficMonthly 1709164799 31 (fixed_zone ''UTC'' 0) 1709164800" by code_simp
  with monthly_reset_due_iff_boundary_passed [OF fixed.regular_location_axioms, of 31 1709164799 "''UTC''" 0 1709164800]
  show ?thesis by simp
qed

text \<open>
  C16: the scheduled reset job. With client ids distinct and the journal flushed,
  \<open>ResetTrafficBySchedule\<close> rewrites exactly the rows whose monthly reset is due: their
  counters become zero and their \<open>LastReset\<close> the clock, and a depleted client that has not expired
  is enabled again; every other row is untouched. A failing statement concerns only its own client: the row stays as it was when
  its own update failed, and is set to zero but not enabled again when a later statement failed. The job reports a change
  when the reset of some client succeeded. When the flush fails nothing is written.
\<close>

theorem scheduled_reset_exact:
  assumes ids: "distinct (map Id (clients db))"
    and some: "\<exists>c \<in> set (clients db). reset_due loc now c"
  shows "(\<exists>db'. ResetTrafficBySchedule e current True clock loc now db
                 = ResetDone (\<exists>c \<in> set (clients db). reset_due loc now c \<and> reset_fault_of e (Id c) = None) db'
            \<and> clients db' = map (\<lambda>c. if reset_due loc now c then reset_client e clock now c else c) (clients db))
    \<and> ResetTrafficBySchedule e current False clock loc now db = ResetFlushError"
proof -
  let ?rs = "filter (reset_due loc now) (clients db)"
  have ne: "?rs \<noteq> []" "filter (\<lambda>c. Extra c > 0) (clients db) \<noteq> []"
    using some by (auto simp: reset_due_def filter_empty_conv)
  obtain ch db' where f: "fold (reset_one e current clock now) ?rs (False, db) = (ch, db')"
    by (cases "fold (reset_one e current clock now) ?rs (False, db)")
  have "distinct (map Id ?rs)" using ids by (simp add: distinct_map_filter)
  from fold_reset_clients [OF this _ ids f]
  have "clients db' = map (\<lambda>c. if reset_due loc now c then reset_client e clock now c else c) (clients db)"
    "ch \<longleftrightarrow> (\<exists>c \<in> set (clients db). reset_due loc now c \<and> reset_fault_of e (Id c) = None)"
    by (auto simp: map_by_id [OF ids] simp del: set_filter) auto
  then show ?thesis
    using f ne by (simp add: ResetTrafficBySchedule_def Let_def reset_targets del: filter_filter)
qed

theorem scheduled_reset_exact_witness:
  "\<exists>db'. ResetTrafficBySchedule \<lparr>reset_fault_of = (\<lambda>i. if i = 2 then Some Binding_Query_Fails else None), enable_fails = (\<lambda>i. False)\<rparr>
        (\<lambda>i. (0, 0)) True 1709164900 (fixed_zone ''UTC'' 0) 1709164900
        \<lparr>clients = [\<lparr>Id = 1, Enable = False, Depleted = True, Name = ''a'', Inbounds = [], Volume = 9,
                      Expiry = 0, Down = 5, Up = 5, Extra = 31, LastReset = 1000\<rparr>,
                     \<lparr>Id = 2, Enable = False, Depleted = True, Name = ''b'', Inbounds = [], Volume = 9,
                      Expiry = 0, Down = 5, Up = 5, Extra = 31, LastReset = 1000\<rparr>], bindings = []\<rparr>
      = ResetDone True db' \<and> map Enable (clients db') = [True, False] \<and> map Up (clients db') = [0, 0]"
proof -
  let ?a = "\<lparr>Id = 1, Enable = False, Depleted = True, Name = ''a'', Inbounds = [], Volume = 9,
             Expiry = 0, Down = 5, Up = 5, Extra = 31, LastReset = 1000\<rparr>"
  let ?b = "\<lparr>Id = 2, Enable = False, Depleted = True, Name = ''b'', Inbounds = [], Volume = 9,
             Expiry = 0, Down = 5, Up = 5, Extra = 31, LastReset = 1000\<rparr>"
  have due: "reset_due (fixed_zone ''UTC'' 0) 1709164900 ?a" "reset_due (fixed_zone ''UTC'' 0) 1709164900 ?b" by code_simp+
  from scheduled_reset_exact [of "\<lparr>clients = [?a, ?b], bindings = []\<rparr>" "fixed_zone ''UTC'' 0" 1709164900
      "\<lparr>reset_fault_of = (\<lambda>i. if i = 2 then Some Binding_Query_Fails else None), enable_fails = (\<lambda>i. False)\<rparr>" "\<lambda>i. (0, 0)" 1709164900] due
  show ?thesis by (auto simp: reset_client_def)
qed

text \<open>
  C18: depletion agrees with the access policy, while no client's sum of upload and download leaves the 64-bit range (there Go wraps around and SQLite does not).
  \<open>DepleteClients\<close> disables exactly the clients that \<open>evaluateClientAccess\<close> reports as blocked, writes one audit row for
  each that it found, reports their inbounds, and leaves no client blocked; running it again at the same instant changes nothing. When nothing was blocked,
  and when a statement fails, the tables stay as they were, and the failure is reported.
\<close>

theorem DepleteClients_matches_policy:
  assumes range: "\<And>c. c \<in> set (clients db0) \<union> set (clients db1) \<Longrightarrow> in_int64 (Up c + Down c)"
    and b: "blocked = (\<lambda>c. Blocked (evaluateClientAccess (Enable c) (wrap64 (Up c + Down c)) (Volume c) (Expiry c) now))"
    and r: "DepleteClients fault now dt db0 db1 = (res, chs, db')"
  shows "(if fault = None \<and> (\<exists>c \<in> set (clients db0). blocked c)
          then clients db' = map (\<lambda>c. if blocked c then c\<lparr>Enable := False, Depleted := True\<rparr> else c) (clients db1)
             \<and> bindings db' = bindings db1
             \<and> res = Inr (\<Union>c \<in> {c \<in> set (clients db0). blocked c}. set (Inbounds c))
             \<and> map Obj chs = map (\<lambda>c. [CHR 0x22] @ Name c @ [CHR 0x22]) (filter blocked (clients db0))
             \<and> filter blocked (clients db') = []
             \<and> (\<forall>dt'. DepleteClients None now dt' db' db' = (Inr {}, [], db'))
          else db' = db1 \<and> chs = [])
     \<and> ((\<exists>err. res = Inl err) \<longleftrightarrow> fault = Some Deplete_Select \<or> fault \<noteq> None \<and> (\<exists>c \<in> set (clients db0). blocked c))"
proof -
  have eq: "blocked c = deplete_condition now c" if "in_int64 (Up c + Down c)" for c
    using that by (auto simp: b wrap64_id evaluateClientAccess_def deplete_condition_def Let_def normalizeClientVolume_def
        normalizeClientExpiry_def)
  have on: "blocked c = deplete_condition now c" if "c \<in> set (clients db0) \<union> set (clients db1)" for c
    using eq [OF range [OF that]] .
  have f: "filter (deplete_condition now) (clients db0) = filter blocked (clients db0)"
    by (rule filter_cong [OF refl]) (simp add: on)
  have ex: "filter blocked (clients db0) = [] \<longleftrightarrow> \<not> (\<exists>c \<in> set (clients db0). blocked c)" by (auto simp: filter_empty_conv)
  let ?off = "\<lambda>c :: client. c\<lparr>Enable := False, Depleted := True\<rparr>"
  define cs where "cs = map (\<lambda>c. if deplete_condition now c then ?off c else c) (clients db1)"
  have m: "cs = map (\<lambda>c. if blocked c then ?off c else c) (clients db1)"
    unfolding cs_def by (rule map_cong [OF refl]) (simp add: on)
  have gone: "filter (deplete_condition now) cs = []" by (auto simp: cs_def filter_empty_conv deplete_condition_def)
  have "in_int64 (Up c + Down c)" if "c \<in> set cs" for c using that range by (auto simp: cs_def)
  then have "filter blocked cs = filter (deplete_condition now) cs" by (intro filter_cong [OF refl] eq)
  then have gone': "filter blocked cs = []" by (simp only: gone)
  show ?thesis
  proof (cases "fault = None \<and> (\<exists>c \<in> set (clients db0). blocked c)")
    case True
    then have out: "res = Inr (\<Union>c \<in> set (filter blocked (clients db0)). set (Inbounds c))"
      "chs = map (deplete_change dt) (filter blocked (clients db0))" "db' = db1\<lparr>clients := cs\<rparr>"
      using r ex by (simp_all add: DepleteClients_def f cs_def)
    have again: "\<forall>dt'. DepleteClients None now dt' db' db' = (Inr {}, [], db')" by (simp add: DepleteClients_def out(3) gone)
    have obj: "map Obj chs = map (\<lambda>c. [CHR 0x22] @ Name c @ [CHR 0x22]) (filter blocked (clients db0))"
      by (simp add: out(2) deplete_change_def)
    have tabs: "clients db' = cs" "bindings db' = bindings db1" by (simp_all add: out(3))
    show ?thesis unfolding if_P [OF True] using True again obj gone' out(1) by (simp add: tabs m [symmetric])
  next
    case False
    have "db' = db1 \<and> chs = [] \<and> ((\<exists>err. res = Inl err) \<longleftrightarrow> fault = Some Deplete_Select \<or> fault \<noteq> None \<and> filter blocked (clients db0) \<noteq> [])"
      using r False [folded ex] by (cases fault) (auto simp: DepleteClients_def f Let_def split: if_splits)
    then show ?thesis unfolding if_not_P [OF False] ex by simp
  qed
qed

definition spent_client :: client where
  "spent_client = \<lparr>Id = 1, Enable = True, Depleted = False, Name = ''a'', Inbounds = [4], Volume = 9,
     Expiry = 0, Down = 5, Up = 5, Extra = 0, LastReset = 0\<rparr>"

definition spent_db :: client_db where
  "spent_db = \<lparr>clients = [spent_client], bindings = []\<rparr>"

theorem DepleteClients_matches_policy_witness:
  "\<exists>chs db'. DepleteClients None 100 100 spent_db spent_db = (Inr (set (Inbounds spent_client)), chs, db')
     \<and> clients db' = [spent_client\<lparr>Enable := False, Depleted := True\<rparr>] \<and> map Obj chs = [[CHR 0x22] @ Name spent_client @ [CHR 0x22]]
     \<and> DepleteClients None 100 101 db' db' = (Inr {}, [], db')"
proof -
  obtain res chs db' where r: "DepleteClients None 100 100 spent_db spent_db = (res, chs, db')" by (rule prod_cases3)
  have range: "in_int64 (Up c + Down c)" if "c \<in> set (clients spent_db) \<union> set (clients spent_db)" for c
    using that by (simp add: spent_db_def spent_client_def int64_defs)
  define bl where "bl = (\<lambda>c :: client. Blocked (evaluateClientAccess (Enable c) (wrap64 (Up c + Down c)) (Volume c) (Expiry c) 100))"
  have "bl spent_client" unfolding bl_def by code_simp
  then have "{c. c = spent_client \<and> bl c} = {spent_client}" by auto
  then show ?thesis using \<open>bl spent_client\<close> DepleteClients_matches_policy [OF range bl_def r] r by (simp add: spent_db_def)
qed

end
