(* ===== verification/Traffic_Accounting.thy ===== *)
theory Traffic_Accounting
  imports Nft_Counters Client_Policy
begin

text \<open>
  Traffic accounting of the two cores: the ten-second collection rounds of
  \<open>service/nftables_traffic.go\<close> (sing-box) and \<open>service/mihomo_nftables.go\<close> (mihomo). A round reads
  the counters of all inbounds without a transaction, then writes the cursor rows
  (\<open>InboundTrafficState\<close>) under an optimistic condition and charges the deltas to the clients whose
  bindings are active.

  The database is the record \<open>traffic_db\<close>; a round reads it in one state and writes it in a later one,
  so both are arguments. Database errors roll the transaction back; they and the failed commit are
  the outcome that leaves the database alone. Times of rows (\<open>UpdatedAt\<close>) are not modelled.

  The lemmas show that a delta never exceeds the traffic since the last poll, that a round charges
  every client exactly the deltas of its active bindings, that repeating a round's writes charges
  nothing, what binding repair does, and that baselines do not take part in charging.
\<close>

section \<open>Data\<close>

record InboundTrafficState =
  st_id :: nat
  st_inbound :: nat
  st_tag :: string
  st_port :: int
  InHandle :: int
  OutHandle :: int
  PortHopRange :: string
  RedirectHandle :: int
  InBytes :: int
  OutBytes :: int

record inboundDelta =
  d_inbound :: nat
  d_tag :: string
  deltaIn :: int
  deltaOut :: int
  currentIn :: int
  currentOut :: int

record inboundTrafficSample =
  s_state :: InboundTrafficState
  originalInBytes :: int
  originalOutBytes :: int
  originalInHandle :: int
  originalOutHandle :: int
  originalRedirectHandle :: int
  stateChanged :: bool
  s_delta :: inboundDelta

record Stats =
  st_DateTime :: int
  Resource :: string
  st_Tag :: string
  Direction :: bool
  Traffic :: int

record traffic_db =
  states :: "InboundTrafficState list"
  tables :: client_db
  repairNeeded :: bool  \<comment> \<open>\<open>defaultClientBindingRepairNeeded\<close>, \<open>mihomoClientBindingRepairNeeded\<close>\<close>

type_synonym snapshots = "nat \<Rightarrow> (int \<times> int) option"

section \<open>Reading the counters\<close>

definition recoverHandles ::
    "nftRuleCommentProfile \<Rightarrow> bool \<Rightarrow> nft_env \<Rightarrow> InboundTrafficState \<Rightarrow> nat \<Rightarrow> InboundTrafficState \<times> nat" where
  \<comment> \<open>\<open>hop\<close> is the source's test that the row has a port-hop range\<close>
  "recoverHandles p hop env st t =
     (let h1 = findHandleByComment (run_text env t nftChainIn) (comment_in p (st_tag st));
          st1 = (if h1 > 0 \<and> h1 \<noteq> InHandle st then st\<lparr>InHandle := h1\<rparr> else st);
          h2 = findHandleByComment (run_text env (t + 1) nftChainOut) (comment_out p (st_tag st));
          st2 = (if h2 > 0 \<and> h2 \<noteq> OutHandle st1 then st1\<lparr>OutHandle := h2\<rparr> else st1)
      in if hop then
           (case findNftRedirectHandleByComment env (comment_redirect p (st_tag st)) (t + 2) of
              (h3, t') \<Rightarrow> ((if h3 \<noteq> RedirectHandle st2 then st2\<lparr>RedirectHandle := h3\<rparr> else st2), t'))
         else (st2, t + 2))"

definition singbox_recoverHandles :: "nft_env \<Rightarrow> InboundTrafficState \<Rightarrow> nat \<Rightarrow> InboundTrafficState \<times> nat" where
  "singbox_recoverHandles env st t = recoverHandles singboxNftRuleComments (PortHopRange st \<noteq> []) env st t"

definition mihomo_recoverHandles :: "nft_env \<Rightarrow> InboundTrafficState \<Rightarrow> nat \<Rightarrow> InboundTrafficState \<times> nat" where
  "mihomo_recoverHandles env st t =
     recoverHandles mihomoNftRuleComments (trim_space (PortHopRange st) \<noteq> []) env st t"

definition counter_delta :: "int \<Rightarrow> int \<Rightarrow> int" where
  "counter_delta prev cur = (let d = wrap64 (cur - prev) in if d < 0 then cur else d)"

definition newInboundTrafficSample ::
    "InboundTrafficState \<Rightarrow> InboundTrafficState \<Rightarrow> int \<Rightarrow> int \<Rightarrow> inboundTrafficSample" where
  "newInboundTrafficSample state original curIn curOut =
     \<lparr>s_state = state,
      originalInBytes = InBytes original, originalOutBytes = OutBytes original,
      originalInHandle = InHandle original, originalOutHandle = OutHandle original,
      originalRedirectHandle = RedirectHandle original,
      stateChanged = (InHandle state \<noteq> InHandle original \<or> OutHandle state \<noteq> OutHandle original
                      \<or> RedirectHandle state \<noteq> RedirectHandle original
                      \<or> curIn \<noteq> InBytes original \<or> curOut \<noteq> OutBytes original),
      s_delta = \<lparr>d_inbound = st_inbound state, d_tag = st_tag state,
                 deltaIn = counter_delta (InBytes original) curIn, deltaOut = counter_delta (OutBytes original) curOut,
                 currentIn = curIn, currentOut = curOut\<rparr>\<rparr>"

type_synonym recover = "nft_env \<Rightarrow> InboundTrafficState \<Rightarrow> nat \<Rightarrow> InboundTrafficState \<times> nat"

definition read_with_recovery ::
    "recover \<Rightarrow> nft_env \<Rightarrow> string \<Rightarrow> (InboundTrafficState \<Rightarrow> int) \<Rightarrow> InboundTrafficState \<Rightarrow> nat
      \<Rightarrow> int option \<times> InboundTrafficState \<times> nat" where
  "read_with_recovery recover env chain handle st t =
     (case getChainRuleBytesByHandle env chain (handle st) t of
        (Some b, t1) \<Rightarrow> (Some b, st, t1)
      | (None, t1) \<Rightarrow>
          (case recover env st t1 of
             (st', t2) \<Rightarrow> (case getChainRuleBytesByHandle env chain (handle st') t2 of (r, t3) \<Rightarrow> (r, st', t3))))"

definition prepare_handles :: "recover \<Rightarrow> nft_env \<Rightarrow> InboundTrafficState \<Rightarrow> nat \<Rightarrow> InboundTrafficState \<times> nat" where
  "prepare_handles recover env st t =
     (if InHandle st \<le> 0 \<or> OutHandle st \<le> 0 then recover env st t else (st, t))"

definition readInboundTrafficSample ::
    "recover \<Rightarrow> nft_env \<Rightarrow> InboundTrafficState \<Rightarrow> nat \<Rightarrow> inboundTrafficSample option \<times> nat" where
  "readInboundTrafficSample recover env state t =
     (case prepare_handles recover env state t of
        (st0, t0) \<Rightarrow>
          (case read_with_recovery recover env nftChainIn InHandle st0 t0 of
             (None, _, t1) \<Rightarrow> (None, t1)
           | (Some curIn, st1, t1) \<Rightarrow>
               (case read_with_recovery recover env nftChainOut OutHandle st1 t1 of
                  (None, _, t2) \<Rightarrow> (None, t2)
                | (Some curOut, st2, t2) \<Rightarrow> (Some (newInboundTrafficSample st2 state curIn curOut), t2))))"

fun readInboundTrafficSamplesIndividually ::
    "recover \<Rightarrow> nft_env \<Rightarrow> InboundTrafficState list \<Rightarrow> nat \<Rightarrow> inboundTrafficSample list \<times> nat" where
  "readInboundTrafficSamplesIndividually recover env [] t = ([], t)"
| "readInboundTrafficSamplesIndividually recover env (st # sts) t =
     (case readInboundTrafficSample recover env st t of
        (r, t1) \<Rightarrow>
          (case readInboundTrafficSamplesIndividually recover env sts t1 of
             (samples, t2) \<Rightarrow> ((case r of None \<Rightarrow> samples | Some s \<Rightarrow> s # samples), t2)))"

fun prepare_all :: "recover \<Rightarrow> nft_env \<Rightarrow> InboundTrafficState list \<Rightarrow> nat \<Rightarrow> InboundTrafficState list \<times> nat" where
  "prepare_all recover env [] t = ([], t)"
| "prepare_all recover env (st # sts) t =
     (case prepare_handles recover env st t of
        (p, t1) \<Rightarrow> (case prepare_all recover env sts t1 of (ps, t2) \<Rightarrow> (p # ps, t2)))"

definition originalByInboundID :: "InboundTrafficState list \<Rightarrow> nat \<Rightarrow> InboundTrafficState option" where
  \<comment> \<open>a later row of the same inbound overwrites the entry\<close>
  "originalByInboundID sts = map_of (rev (map (\<lambda>s. (st_inbound s, s)) sts))"

fun batch_samples ::
    "(nat \<Rightarrow> InboundTrafficState option) \<Rightarrow> (int \<Rightarrow> int option) \<Rightarrow> (int \<Rightarrow> int option)
      \<Rightarrow> InboundTrafficState list \<Rightarrow> inboundTrafficSample list option" where
  "batch_samples orig inputBytes outputBytes [] = Some []"
| "batch_samples orig inputBytes outputBytes (st # sts) =
     (case (inputBytes (InHandle st), outputBytes (OutHandle st), orig (st_inbound st)) of
        (Some curIn, Some curOut, Some o0) \<Rightarrow>
          map_option ((#) (newInboundTrafficSample st o0 curIn curOut)) (batch_samples orig inputBytes outputBytes sts)
      | _ \<Rightarrow> None)"

definition readInboundTrafficSamples ::
    "recover \<Rightarrow> nft_env \<Rightarrow> InboundTrafficState list \<Rightarrow> nat \<Rightarrow> inboundTrafficSample list \<times> nat" where
  "readInboundTrafficSamples recover env sts t =
     (if sts = [] then ([], t)
      else case prepare_all recover env sts t of
        (prepared, t0) \<Rightarrow>
          (case getChainRuleBytesByHandles env nftChainIn (map InHandle prepared) t0 of
             (inputBytes, t1) \<Rightarrow>
               (case getChainRuleBytesByHandles env nftChainOut (map OutHandle prepared) t1 of
                  (outputBytes, t2) \<Rightarrow>
                    (case (inputBytes, outputBytes) of
                       (Some vin, Some vout) \<Rightarrow>
                         (case batch_samples (originalByInboundID sts) vin vout prepared of
                            Some samples \<Rightarrow> (samples, t2)
                          | None \<Rightarrow> readInboundTrafficSamplesIndividually recover env sts t2)
                     | _ \<Rightarrow> readInboundTrafficSamplesIndividually recover env sts t2))))"

section \<open>Client bindings\<close>

definition deduplicateInboundIDs :: "nat list \<Rightarrow> nat list" where
  "deduplicateInboundIDs ids =
     foldl (\<lambda>result i. if i = 0 \<or> i \<in> set result then result else result @ [i]) [] ids"

definition getPersistedInboundBytes :: "InboundTrafficState list \<Rightarrow> nat \<Rightarrow> int \<times> int" where
  "getPersistedInboundBytes sts i =
     (if i = 0 then (0, 0)
      else case find (\<lambda>s. st_inbound s = i) sts of None \<Rightarrow> (0, 0) | Some s \<Rightarrow> (InBytes s, OutBytes s))"

definition currentInboundBytesForBinding ::
    "(nat \<Rightarrow> int \<times> int) \<Rightarrow> InboundTrafficState list \<Rightarrow> snapshots option \<Rightarrow> nat \<Rightarrow> int \<times> int" where
  \<comment> \<open>\<open>current\<close> is \<open>getCurrentInboundBytes\<close>; no snapshot map is \<open>None\<close>\<close>
  "currentInboundBytesForBinding current sts snaps i =
     (case snaps of
        None \<Rightarrow> current i
      | Some m \<Rightarrow> (case m i of Some b \<Rightarrow> b | None \<Rightarrow> getPersistedInboundBytes sts i))"

definition deactivate_binding :: "nat \<Rightarrow> nat list \<Rightarrow> binding \<Rightarrow> binding" where
  "deactivate_binding cid newIds b =
     (if ClientId b = cid \<and> InboundId b \<notin> set newIds \<and> Active b then b\<lparr>Active := False\<rparr> else b)"

definition fresh_binding :: "nat \<Rightarrow> nat \<Rightarrow> int \<times> int \<Rightarrow> binding" where
  "fresh_binding cid i bytes =
     \<lparr>ClientId = cid, InboundId = i, Active = True, LastInBytes = fst bytes, LastOutBytes = snd bytes,
      UsedInBytes = 0, UsedOutBytes = 0\<rparr>"

definition activate_binding ::
    "nat \<Rightarrow> (nat \<Rightarrow> int \<times> int) \<Rightarrow> (nat \<Rightarrow> bool) \<Rightarrow> binding list \<Rightarrow> nat \<Rightarrow> binding list option" where
  \<comment> \<open>\<open>existing\<close> holds the inbounds bound before the call; \<open>Create\<close> fails on the unique index\<close>
  "activate_binding cid bytes existing bs i =
     (if existing i then
        Some (map (\<lambda>b. if ClientId b = cid \<and> InboundId b = i \<and> \<not> Active b then fresh_binding cid i (bytes i) else b) bs)
      else if \<exists>b \<in> set bs. ClientId b = cid \<and> InboundId b = i then None
      else Some (bs @ [fresh_binding cid i (bytes i)]))"

fun activate_all ::
    "nat \<Rightarrow> (nat \<Rightarrow> int \<times> int) \<Rightarrow> (nat \<Rightarrow> bool) \<Rightarrow> nat list \<Rightarrow> binding list \<Rightarrow> binding list option" where
  "activate_all cid bytes existing [] bs = Some bs"
| "activate_all cid bytes existing (i # is) bs =
     Option.bind (activate_binding cid bytes existing bs i) (activate_all cid bytes existing is)"

definition syncClientBindings ::
    "(nat \<Rightarrow> int \<times> int) \<Rightarrow> InboundTrafficState list \<Rightarrow> snapshots option \<Rightarrow> nat \<Rightarrow> nat list
      \<Rightarrow> binding list \<Rightarrow> binding list option" where
  "syncClientBindings current sts snaps cid newIds bs =
     activate_all cid (currentInboundBytesForBinding current sts snaps)
       (\<lambda>i. \<exists>b \<in> set bs. ClientId b = cid \<and> InboundId b = i)
       newIds (map (deactivate_binding cid newIds) bs)"

definition mihomo_syncClientBindings ::
    "(nat \<Rightarrow> int \<times> int) \<Rightarrow> InboundTrafficState list \<Rightarrow> snapshots option \<Rightarrow> nat \<Rightarrow> nat list
      \<Rightarrow> binding list \<Rightarrow> binding list option" where
  "mihomo_syncClientBindings current sts snaps cid newIds bs =
     (if cid = 0 then Some bs else syncClientBindings current sts snaps cid newIds bs)"

definition DeleteClientBindings :: "nat \<Rightarrow> binding list \<Rightarrow> binding list" where
  "DeleteClientBindings cid bs = filter (\<lambda>b. ClientId b \<noteq> cid) bs"

fun sync_clients ::
    "InboundTrafficState list \<Rightarrow> snapshots \<Rightarrow> client list \<Rightarrow> binding list \<Rightarrow> binding list option" where
  "sync_clients sts snaps [] bs = Some bs"
| "sync_clients sts snaps (c # cs) bs =
     (if Id c = 0 then sync_clients sts snaps cs bs
      else Option.bind
             (syncClientBindings (\<lambda>i. (0, 0)) sts (Some snaps) (Id c) (deduplicateInboundIDs (Inbounds c)) bs)
             (sync_clients sts snaps cs))"

definition ensureClientBindings :: "snapshots \<Rightarrow> traffic_db \<Rightarrow> traffic_db option" where
  "ensureClientBindings snaps db =
     (if \<not> repairNeeded db then Some db
      else case sync_clients (states db) snaps (clients (tables db)) (bindings (tables db)) of
             None \<Rightarrow> None
           | Some bs \<Rightarrow> Some (db\<lparr>tables := (tables db)\<lparr>bindings := bs\<rparr>, repairNeeded := False\<rparr>))"

section \<open>Charging\<close>

definition delta_map :: "inboundDelta list \<Rightarrow> nat \<Rightarrow> inboundDelta option" where
  "delta_map deltas = map_of (rev (map (\<lambda>d. (d_inbound d, d)) deltas))"

definition charged :: "inboundDelta list \<Rightarrow> binding \<Rightarrow> inboundDelta option" where
  \<comment> \<open>the delta a binding is charged: it is active and its inbound moved\<close>
  "charged deltas b =
     (if Active b then
        (case delta_map deltas (InboundId b) of
           None \<Rightarrow> None
         | Some d \<Rightarrow> (if deltaIn d = 0 \<and> deltaOut d = 0 then None else Some d))
      else None)"

definition charge_binding :: "inboundDelta list \<Rightarrow> binding \<Rightarrow> binding" where
  "charge_binding deltas b =
     (case charged deltas b of
        None \<Rightarrow> b
      | Some d \<Rightarrow> b\<lparr>UsedInBytes := wrap64 (UsedInBytes b + deltaIn d), UsedOutBytes := wrap64 (UsedOutBytes b + deltaOut d),
                    LastInBytes := currentIn d, LastOutBytes := currentOut d\<rparr>)"

definition agg_step ::
    "inboundDelta list \<Rightarrow> (nat \<Rightarrow> (int \<times> int) option) \<Rightarrow> binding \<Rightarrow> (nat \<Rightarrow> (int \<times> int) option)" where
  "agg_step deltas aggs b =
     (case charged deltas b of
        None \<Rightarrow> aggs
      | Some d \<Rightarrow>
          (case aggs (ClientId b) of
             None \<Rightarrow> aggs(ClientId b \<mapsto> (wrap64 (0 + deltaIn d), wrap64 (0 + deltaOut d)))
           | Some (u, v) \<Rightarrow> aggs(ClientId b \<mapsto> (wrap64 (u + deltaIn d), wrap64 (v + deltaOut d)))))"

definition clientAggs :: "inboundDelta list \<Rightarrow> binding list \<Rightarrow> nat \<Rightarrow> (int \<times> int) option" where
  "clientAggs deltas bs = foldl (agg_step deltas) Map.empty bs"

definition client_name :: "client list \<Rightarrow> nat \<Rightarrow> string" where
  \<comment> \<open>the trimmed name of a client, empty when there is no such client\<close>
  "client_name cs cid =
     (case map_of (rev (map (\<lambda>c. (Id c, Name c)) cs)) cid of None \<Rightarrow> [] | Some n \<Rightarrow> trim_space n)"

definition client_deltas :: "inboundDelta list \<Rightarrow> client_db \<Rightarrow> nat \<Rightarrow> int \<times> int" where
  \<comment> \<open>\<open>upDeltas\<close> and \<open>downDeltas\<close>, zero where the maps have no entry\<close>
  "client_deltas deltas db cid =
     (case clientAggs deltas (bindings db) cid of
        None \<Rightarrow> (0, 0)
      | Some (u, v) \<Rightarrow>
          (if client_name (clients db) cid = [] then (0, 0)
           else (if u > 0 then u else 0, if v > 0 then v else 0)))"

definition applyClientTrafficDeltasBatch :: "(nat \<Rightarrow> int \<times> int) \<Rightarrow> client list \<Rightarrow> client list" where
  \<comment> \<open>for sums in the 64-bit range; SQLite turns a larger sum into a floating-point number\<close>
  "applyClientTrafficDeltasBatch ds cs =
     map (\<lambda>c. c\<lparr>Up := Up c + (if Id c > 0 \<and> fst (ds (Id c)) > 0 then fst (ds (Id c)) else 0),
               Down := Down c + (if Id c > 0 \<and> snd (ds (Id c)) > 0 then snd (ds (Id c)) else 0)\<rparr>) cs"

definition stat :: "string \<Rightarrow> int \<Rightarrow> string \<Rightarrow> bool \<Rightarrow> int \<Rightarrow> Stats list" where
  "stat res now tag dir n =
     (if n > 0 then [\<lparr>st_DateTime = now, Resource = res, st_Tag = tag, Direction = dir, Traffic = n\<rparr>] else [])"

definition charged_clients :: "inboundDelta list \<Rightarrow> client_db \<Rightarrow> nat list" where
  \<comment> \<open>the keys of \<open>clientAggs\<close> with a name; Go visits them in map order, here in the order of the bindings\<close>
  "charged_clients deltas db =
     filter (\<lambda>cid. client_name (clients db) cid \<noteq> [])
       (remdups (map ClientId (filter (\<lambda>b. charged deltas b \<noteq> None) (bindings db))))"

definition tagsFromSet :: "string list \<Rightarrow> string set" where
  "tagsFromSet tags = {t \<in> set tags. trim_space t \<noteq> []}"

definition client_history :: "string \<Rightarrow> inboundDelta list \<Rightarrow> int \<Rightarrow> bool \<Rightarrow> client_db \<Rightarrow> Stats list" where
  "client_history res deltas now saveTraffic db =
     (if saveTraffic then
        concat (map (\<lambda>cid. stat res now (client_name (clients db) cid) True (fst (client_deltas deltas db cid))
                           @ stat res now (client_name (clients db) cid) False (snd (client_deltas deltas db cid)))
                    (charged_clients deltas db))
      else [])"

definition charge_tables :: "inboundDelta list \<Rightarrow> client_db \<Rightarrow> client_db" where
  "charge_tables deltas db =
     db\<lparr>clients := applyClientTrafficDeltasBatch (client_deltas deltas db) (clients db),
        bindings := map (charge_binding deltas) (bindings db)\<rparr>"

definition writeClientStats ::
    "inboundDelta list \<Rightarrow> int \<Rightarrow> bool \<Rightarrow> client_db \<Rightarrow> string set \<times> Stats list \<times> client_db" where
  "writeClientStats deltas now saveTraffic db =
     (tagsFromSet (map (client_name (clients db)) (charged_clients deltas db)),
      client_history ''client'' deltas now saveTraffic db,
      charge_tables deltas db)"

definition mihomo_writeClientStats ::
    "inboundDelta list \<Rightarrow> int \<Rightarrow> bool \<Rightarrow> client_db \<Rightarrow> string set \<times> Stats list \<times> client_db" where
  "mihomo_writeClientStats deltas now saveTraffic db =
     (tagsFromSet (map (client_name (clients db))
        (filter (\<lambda>cid. fst (client_deltas deltas db cid) > 0 \<or> snd (client_deltas deltas db cid) > 0)
                (charged_clients deltas db))),
      client_history ''mihomo_client'' deltas now saveTraffic db,
      charge_tables deltas db)"

section \<open>A collection round\<close>

definition optimistic_match :: "bool \<Rightarrow> inboundTrafficSample \<Rightarrow> InboundTrafficState \<Rightarrow> bool" where
  \<comment> \<open>the WHERE clause; mihomo also compares the port-hop range\<close>
  "optimistic_match hop s r \<longleftrightarrow>
     st_id r = st_id (s_state s) \<and> st_tag r = st_tag (s_state s) \<and> st_port r = st_port (s_state s)
     \<and> (hop \<longrightarrow> PortHopRange r = PortHopRange (s_state s))
     \<and> InHandle r = originalInHandle s \<and> OutHandle r = originalOutHandle s
     \<and> RedirectHandle r = originalRedirectHandle s
     \<and> InBytes r = originalInBytes s \<and> OutBytes r = originalOutBytes s"

definition advance_row :: "inboundTrafficSample \<Rightarrow> InboundTrafficState \<Rightarrow> InboundTrafficState" where
  "advance_row s r =
     r\<lparr>InHandle := InHandle (s_state s), OutHandle := OutHandle (s_state s), RedirectHandle := RedirectHandle (s_state s),
       InBytes := currentIn (s_delta s), OutBytes := currentOut (s_delta s)\<rparr>"

type_synonym round_state = "InboundTrafficState list \<times> inboundDelta list \<times> Stats list"

definition apply_sample ::
    "bool \<Rightarrow> string \<Rightarrow> int \<Rightarrow> bool \<Rightarrow> round_state \<Rightarrow> inboundTrafficSample \<Rightarrow> round_state" where
  "apply_sample hop res now saveTraffic rs s =
     (case rs of (rows, deltas, hist) \<Rightarrow>
        if \<not> stateChanged s then (rows, deltas, hist)
        else let rows' = map (\<lambda>r. if optimistic_match hop s r then advance_row s r else r) rows;
                 d = s_delta s
             in if \<not> (\<exists>r \<in> set rows. optimistic_match hop s r) then (rows', deltas, hist)
                else if deltaIn d \<le> 0 \<and> deltaOut d \<le> 0 then (rows', deltas, hist)
                else (rows', deltas @ [d],
                      hist @ (if saveTraffic then stat res now (d_tag d) True (deltaIn d)
                                                 @ stat res now (d_tag d) False (deltaOut d) else [])))"

definition round_snapshots :: "InboundTrafficState list \<Rightarrow> inboundTrafficSample list \<Rightarrow> snapshots" where
  "round_snapshots sts samples =
     foldl (\<lambda>m s. m(st_inbound (s_state s) \<mapsto> (currentIn (s_delta s), currentOut (s_delta s))))
       (foldl (\<lambda>m st. m(st_inbound st \<mapsto> (InBytes st, OutBytes st))) Map.empty sts) samples"

record collect_guard =
  supported :: bool
  sampling_allowed :: bool
  running :: bool
  selfHealed :: bool
  epoch_before :: bool  \<comment> \<open>sampling epoch unchanged before the transaction\<close>
  epoch_after :: bool
  commit_ok :: bool  \<comment> \<open>journal staged, every statement executed and the transaction committed\<close>

datatype collect_result =
    Skipped bool  \<comment> \<open>nothing is written; the repair flag, which lives in memory, afterwards\<close>
  | Committed traffic_db "Stats list" "string set" "string set" bool

definition load_states ::
    "collect_guard \<Rightarrow> (traffic_db \<Rightarrow> traffic_db) \<Rightarrow> traffic_db \<Rightarrow> InboundTrafficState list" where
  \<comment> \<open>the rows of the round; an empty table is initialised once (\<open>InitOnStartup\<close>)\<close>
  "load_states g heal db =
     (if states db = [] \<and> \<not> selfHealed g then states (heal db) else states db)"

definition round_guard :: "collect_guard \<Rightarrow> InboundTrafficState list \<Rightarrow> inboundTrafficSample list \<Rightarrow> bool" where
  "round_guard g sts samples \<longleftrightarrow>
     supported g \<and> sampling_allowed g \<and> running g \<and> sts \<noteq> []
     \<and> (\<exists>s \<in> set samples. stateChanged s) \<and> epoch_before g"

definition collectAndSaveTraffic ::
    "collect_guard \<Rightarrow> (traffic_db \<Rightarrow> traffic_db) \<Rightarrow> nft_env \<Rightarrow> int \<Rightarrow> bool \<Rightarrow> traffic_db \<Rightarrow> traffic_db \<Rightarrow> collect_result" where
  \<comment> \<open>\<open>db0\<close> is read before the transaction, \<open>db1\<close> is the database the transaction sees\<close>
  "collectAndSaveTraffic g heal env now saveTraffic db0 db1 =
     (let sts = load_states g heal db0;
          samples = fst (readInboundTrafficSamples singbox_recoverHandles env sts 0);
          snaps = round_snapshots sts samples
      in if \<not> round_guard g sts samples then Skipped (repairNeeded db1)
         else case foldl (apply_sample False ''inbound'' now saveTraffic) (states db1, [], []) samples of
           (rows, deltas, hist) \<Rightarrow>
             (let db2 = db1\<lparr>states := rows\<rparr>;
                  written = (if deltas = [] then Some ({}, [], db2)
                             else case ensureClientBindings snaps db2 of
                                    None \<Rightarrow> None
                                  | Some db3 \<Rightarrow>
                                      (case writeClientStats deltas now saveTraffic (tables db3) of
                                         (users, chist, tb) \<Rightarrow> Some (users, chist, db3\<lparr>tables := tb\<rparr>)))
              in case written of
                   None \<Rightarrow> Skipped (repairNeeded db1)
                 | Some (users, chist, db4) \<Rightarrow>
                     if \<not> epoch_after g \<or> \<not> commit_ok g then Skipped (repairNeeded db4)
                     else Committed db4 (hist @ chist) (tagsFromSet (map d_tag deltas)) users (deltas \<noteq> [])))"

definition mihomo_collectAndSaveTraffic ::
    "collect_guard \<Rightarrow> (traffic_db \<Rightarrow> traffic_db) \<Rightarrow> nft_env \<Rightarrow> int \<Rightarrow> bool \<Rightarrow> traffic_db \<Rightarrow> traffic_db \<Rightarrow> collect_result" where
  "mihomo_collectAndSaveTraffic g heal env now saveTraffic db0 db1 =
     (let sts = load_states g heal db0;
          samples = fst (readInboundTrafficSamples mihomo_recoverHandles env sts 0)
      in if \<not> round_guard g sts samples then Skipped (repairNeeded db1)
         else case foldl (apply_sample True ''mihomo_inbound'' now saveTraffic) (states db1, [], []) samples of
           (rows, deltas, hist) \<Rightarrow>
             (let db2 = db1\<lparr>states := rows\<rparr>;
                  (users, chist, db3) =
                    (if deltas = [] then ({}, [], db2)
                     else case mihomo_writeClientStats deltas now saveTraffic (tables db2) of
                            (users, chist, tb) \<Rightarrow> (users, chist, db2\<lparr>tables := tb\<rparr>))
              in if \<not> epoch_after g \<or> \<not> commit_ok g then Skipped (repairNeeded db1)
                 else Committed db3 (hist @ chist) (tagsFromSet (map d_tag deltas)) users (deltas \<noteq> [])))"

section \<open>Counter cursors\<close>

text \<open>
  What happens to a kernel counter between two polls: packets are counted, and the rule may be
  recreated with a counter at zero.
\<close>

datatype counter_event = Count nat | Restart

fun run_counter :: "int \<Rightarrow> counter_event list \<Rightarrow> int" where
  "run_counter v [] = v"
| "run_counter v (Count n # es) = run_counter (v + int n) es"
| "run_counter v (Restart # es) = run_counter 0 es"

fun traffic :: "counter_event list \<Rightarrow> int" where
  "traffic [] = 0"
| "traffic (Count n # es) = int n + traffic es"
| "traffic (Restart # es) = traffic es"

lemma traffic_nonneg: "0 \<le> traffic es"
  by (induction es rule: traffic.induct) auto

lemma run_counter_nonneg: "0 \<le> v \<Longrightarrow> 0 \<le> run_counter v es"
  by (induction v es rule: run_counter.induct) auto

lemma run_counter_plain: "Restart \<notin> set es \<Longrightarrow> run_counter v es = v + traffic es"
  by (induction v es rule: run_counter.induct) auto

lemma run_counter_le: "0 \<le> v \<Longrightarrow> run_counter v es \<le> v + traffic es"
proof (induction v es rule: run_counter.induct)
  case (3 v es)
  then show ?case using traffic_nonneg [of es] by simp
qed auto

lemma run_counter_restart: "0 \<le> v \<Longrightarrow> Restart \<in> set es \<Longrightarrow> run_counter v es \<le> traffic es"
proof (induction v es rule: run_counter.induct)
  case (3 v es)
  then show ?case using run_counter_le [of 0 es] by simp
qed auto

fun poll_total :: "(int \<Rightarrow> int \<Rightarrow> int) \<Rightarrow> int \<Rightarrow> counter_event list list \<Rightarrow> int" where
  \<comment> \<open>what successive polls charge; one list of events per poll interval\<close>
  "poll_total delta v [] = 0"
| "poll_total delta v (es # ess) = delta v (run_counter v es) + poll_total delta (run_counter v es) ess"

text \<open>The contract of a function that turns two readings into the bytes to charge.\<close>

locale counter_cursor =
  fixes delta :: "int \<Rightarrow> int \<Rightarrow> int"
  assumes advance: "0 \<le> prev \<Longrightarrow> prev \<le> cur \<Longrightarrow> in_int64 cur \<Longrightarrow> delta prev cur = cur - prev"
    and restart: "0 \<le> cur \<Longrightarrow> cur < prev \<Longrightarrow> in_int64 prev \<Longrightarrow> delta prev cur = cur"
begin

lemma delta_bounds:
  assumes "0 \<le> v" "in_int64 (v + traffic es)"
  shows "0 \<le> delta v (run_counter v es)" "delta v (run_counter v es) \<le> traffic es"
proof -
  let ?c = "run_counter v es"
  have c: "0 \<le> ?c" "in_int64 ?c" "in_int64 v"
    using assms run_counter_nonneg [of v es] run_counter_le [of v es] traffic_nonneg [of es]
    by (auto simp: int64_defs)
  show "0 \<le> delta v ?c"
    using c assms advance [of v ?c] restart [of ?c v] by (cases "v \<le> ?c") auto
  show "delta v ?c \<le> traffic es"
  proof (cases "v \<le> ?c")
    case True
    with c assms run_counter_le [of v es] advance [of v ?c] show ?thesis by simp
  next
    case False
    then have "Restart \<in> set es" using run_counter_plain [of es v] traffic_nonneg [of es] by force
    then have "?c \<le> traffic es" using assms by (intro run_counter_restart)
    with False c restart [of ?c v] show ?thesis by simp
  qed
qed

lemma delta_plain:
  "0 \<le> v \<Longrightarrow> in_int64 (v + traffic es) \<Longrightarrow> Restart \<notin> set es \<Longrightarrow> delta v (run_counter v es) = traffic es"
  using advance [of v "v + traffic es"] traffic_nonneg [of es] by (simp add: run_counter_plain)

lemma poll_total_bounds:
  assumes "0 \<le> v" "in_int64 (v + traffic (concat ess))"
  shows "poll_total delta v ess \<le> traffic (concat ess)
           \<and> (Restart \<notin> set (concat ess) \<longrightarrow> poll_total delta v ess = traffic (concat ess))"
  using assms
proof (induction ess arbitrary: v)
  case (Cons es ess)
  have app: "traffic (es @ fs) = traffic es + traffic fs" for fs
    by (induction es rule: traffic.induct) auto
  have b: "in_int64 (v + traffic es)" "in_int64 (run_counter v es + traffic (concat ess))"
    using Cons.prems run_counter_le [of v es] run_counter_nonneg [of v es] traffic_nonneg [of es]
      traffic_nonneg [of "concat ess"] by (auto simp: int64_defs app)
  have "poll_total delta (run_counter v es) ess \<le> traffic (concat ess)
      \<and> (Restart \<notin> set (concat ess) \<longrightarrow> poll_total delta (run_counter v es) ess = traffic (concat ess))"
    using Cons.prems b(2) by (intro Cons.IH run_counter_nonneg)
  with delta_bounds(2) [OF Cons.prems(1) b(1)] delta_plain [OF Cons.prems(1) b(1)] show ?case
    by (auto simp: app)
qed simp

end

lemma counter_delta_eq:
  "0 \<le> prev \<Longrightarrow> in_int64 prev \<Longrightarrow> 0 \<le> cur \<Longrightarrow> in_int64 cur
     \<Longrightarrow> counter_delta prev cur = (if cur < prev then cur else cur - prev)"
  by (simp add: counter_delta_def Let_def int64_defs)

interpretation poll: counter_cursor counter_delta
proof
  fix prev cur :: int
  show "0 \<le> prev \<Longrightarrow> prev \<le> cur \<Longrightarrow> in_int64 cur \<Longrightarrow> counter_delta prev cur = cur - prev"
    by (subst counter_delta_eq) (auto simp: int64_defs)
  show "0 \<le> cur \<Longrightarrow> cur < prev \<Longrightarrow> in_int64 prev \<Longrightarrow> counter_delta prev cur = cur"
    by (subst counter_delta_eq) (auto simp: int64_defs)
qed

section \<open>Samples\<close>

definition same_row :: "InboundTrafficState \<Rightarrow> InboundTrafficState \<Rightarrow> bool" where
  \<comment> \<open>recovery only touches the handles\<close>
  "same_row a b \<longleftrightarrow>
     st_id a = st_id b \<and> st_inbound a = st_inbound b \<and> st_tag a = st_tag b \<and> st_port a = st_port b
     \<and> PortHopRange a = PortHopRange b \<and> InBytes a = InBytes b \<and> OutBytes a = OutBytes b"

definition sample_of :: "InboundTrafficState \<Rightarrow> inboundTrafficSample \<Rightarrow> bool" where
  "sample_of st s \<longleftrightarrow>
     (\<exists>st' curIn curOut. same_row st' st \<and> s = newInboundTrafficSample st' st curIn curOut)"

definition recovers :: "recover \<Rightarrow> bool" where
  "recovers recover \<longleftrightarrow> (\<forall>env st t. same_row (fst (recover env st t)) st)"

lemma same_row_refl [simp]: "same_row a a"
  and same_row_trans: "same_row a b \<Longrightarrow> same_row b c \<Longrightarrow> same_row a c"
  by (auto simp: same_row_def)

lemma recoverHandles_same_row: "same_row (fst (recoverHandles p hop env st t)) st"
  by (auto simp: recoverHandles_def Let_def same_row_def split: prod.splits)

lemma collectors_recover [simp]: "recovers singbox_recoverHandles" "recovers mihomo_recoverHandles"
  by (simp_all add: recovers_def singbox_recoverHandles_def mihomo_recoverHandles_def recoverHandles_same_row)

lemma recoversD: "recovers recover \<Longrightarrow> recover env st t = (st', t') \<Longrightarrow> same_row st' st"
  by (metis recovers_def fst_conv)

lemma prepare_same_row: "recovers recover \<Longrightarrow> prepare_handles recover env st t = (st', t') \<Longrightarrow> same_row st' st"
  by (auto simp: prepare_handles_def dest: recoversD split: if_splits)

lemma read_same_row:
  "recovers recover \<Longrightarrow> read_with_recovery recover env chain h st t = (r, st', t') \<Longrightarrow> same_row st' st"
  by (auto simp: read_with_recovery_def dest: recoversD split: prod.splits option.splits)

lemma readInboundTrafficSample_of:
  assumes "recovers recover" "readInboundTrafficSample recover env st t = (Some s, t')"
  shows "sample_of st s"
  using assms prepare_same_row [OF assms(1)] read_same_row [OF assms(1)] same_row_trans
  unfolding readInboundTrafficSample_def sample_of_def
  by (auto split: prod.splits option.splits) (metis same_row_trans)+

lemma sample_of_id: "sample_of st s \<Longrightarrow> st_id (s_state s) = st_id st"
  by (auto simp: sample_of_def newInboundTrafficSample_def same_row_def)

text \<open>The samples of a round come one for one from the rows read, in order; rows may be left out.\<close>

inductive samples_from :: "InboundTrafficState list \<Rightarrow> inboundTrafficSample list \<Rightarrow> bool" where
  samples_Nil: "samples_from [] []"
| samples_skip: "samples_from sts ss \<Longrightarrow> samples_from (st # sts) ss"
| samples_take: "samples_from sts ss \<Longrightarrow> sample_of st s \<Longrightarrow> samples_from (st # sts) (s # ss)"

lemma individual_samples_from:
  "recovers recover \<Longrightarrow> samples_from sts (fst (readInboundTrafficSamplesIndividually recover env sts t))"
proof (induction sts arbitrary: t)
  case (Cons st sts)
  obtain r t1 where r: "readInboundTrafficSample recover env st t = (r, t1)" by fastforce
  obtain ss t2 where ss: "readInboundTrafficSamplesIndividually recover env sts t1 = (ss, t2)" by fastforce
  have "samples_from sts ss" using Cons.IH [OF Cons.prems, of t1] ss by simp
  then show ?case
    using r ss readInboundTrafficSample_of [OF Cons.prems]
    by (cases r) (auto intro: samples_from.intros)
qed (auto intro: samples_from.intros)

lemma prepare_all_rows:
  "recovers recover \<Longrightarrow> prepare_all recover env sts t = (ps, t') \<Longrightarrow> list_all2 same_row ps sts"
proof (induction sts arbitrary: t ps)
  case (Cons st sts)
  then show ?case by (auto dest: prepare_same_row split: prod.splits)
qed simp

lemma originalByInboundID_distinct:
  assumes "distinct (map st_inbound sts)" "st \<in> set sts"
  shows "originalByInboundID sts (st_inbound st) = Some st"
proof -
  have "distinct (map fst (rev (map (\<lambda>s. (st_inbound s, s)) sts)))"
    using assms(1) by (simp add: rev_map [symmetric] o_def)
  with assms(2) show ?thesis unfolding originalByInboundID_def by (intro map_of_is_SomeI) auto
qed

lemma batch_samples_from:
  assumes "list_all2 same_row ps sts" "\<forall>st \<in> set sts. orig (st_inbound st) = Some st"
    "batch_samples orig vin vout ps = Some ss"
  shows "samples_from sts ss"
  using assms
proof (induction ps sts arbitrary: ss rule: list_all2_induct)
  case (Cons p ps st sts)
  have "st_inbound p = st_inbound st" using Cons.hyps by (simp add: same_row_def)
  with Cons.prems obtain curIn curOut ss' where
    "ss = newInboundTrafficSample p st curIn curOut # ss'" "batch_samples orig vin vout ps = Some ss'"
    by (auto split: option.splits)
  moreover have "sample_of st (newInboundTrafficSample p st curIn curOut)"
    using Cons.hyps(1) unfolding sample_of_def by blast
  ultimately show ?case using Cons by (auto intro!: samples_take)
qed (auto intro: samples_from.intros)

lemma round_samples_from:
  assumes "recovers recover" "distinct (map st_inbound sts)"
  shows "samples_from sts (fst (readInboundTrafficSamples recover env sts t))"
proof -
  have ind: "samples_from sts (fst (readInboundTrafficSamplesIndividually recover env sts t'))" for t'
    by (rule individual_samples_from [OF assms(1)])
  have batch: "samples_from sts ss"
    if "prepare_all recover env sts t = (ps, t0)" "batch_samples (originalByInboundID sts) vin vout ps = Some ss"
    for ps t0 vin vout ss
    using that originalByInboundID_distinct [OF assms(2)]
    by (intro batch_samples_from [OF prepare_all_rows [OF assms(1)]]) auto
  show ?thesis
    by (auto simp: readInboundTrafficSamples_def ind samples_Nil intro: batch split: prod.splits option.splits)
qed

lemma samples_from_mem: "samples_from sts ss \<Longrightarrow> s \<in> set ss \<Longrightarrow> \<exists>st \<in> set sts. sample_of st s"
  by (induction rule: samples_from.induct) auto

lemma samples_from_ids:
  "samples_from sts ss \<Longrightarrow> distinct (map st_id sts) \<Longrightarrow> distinct (map (st_id \<circ> s_state) ss)"
proof (induction rule: samples_from.induct)
  case (samples_take sts ss st s)
  have "st_id (s_state s) = st_id st" using samples_take.hyps(2) by (rule sample_of_id)
  moreover have "st_id st \<notin> (st_id \<circ> s_state) ` set ss"
    using samples_from_mem [OF samples_take.hyps(1)] samples_take.prems sample_of_id by fastforce
  ultimately show ?case using samples_take by auto
qed auto

section \<open>The optimistic update\<close>

definition row_hit :: "bool \<Rightarrow> InboundTrafficState \<Rightarrow> inboundTrafficSample \<Rightarrow> bool" where
  "row_hit hop r s \<longleftrightarrow> stateChanged s \<and> optimistic_match hop s r"

definition advanced :: "bool \<Rightarrow> inboundTrafficSample list \<Rightarrow> InboundTrafficState \<Rightarrow> InboundTrafficState" where
  \<comment> \<open>the row after the round: moved to the reading of the sample taken from exactly this row\<close>
  "advanced hop ss r = (case find (row_hit hop r) ss of Some s \<Rightarrow> advance_row s r | None \<Rightarrow> r)"

definition accepted :: "bool \<Rightarrow> inboundTrafficSample list \<Rightarrow> InboundTrafficState list \<Rightarrow> inboundTrafficSample list" where
  "accepted hop ss rows =
     filter (\<lambda>s. (\<exists>r \<in> set rows. row_hit hop r s) \<and> (deltaIn (s_delta s) > 0 \<or> deltaOut (s_delta s) > 0)) ss"

definition inbound_history :: "string \<Rightarrow> int \<Rightarrow> bool \<Rightarrow> inboundDelta list \<Rightarrow> Stats list" where
  "inbound_history res now saveTraffic ds =
     (if saveTraffic then concat (map (\<lambda>d. stat res now (d_tag d) True (deltaIn d) @ stat res now (d_tag d) False (deltaOut d)) ds)
      else [])"

lemma advance_row_id [simp]: "st_id (advance_row s r) = st_id r"
  by (simp add: advance_row_def)

lemma row_hit_id: "row_hit hop r s \<Longrightarrow> st_id r = st_id (s_state s)"
  by (simp add: row_hit_def optimistic_match_def)

lemma other_sample_unaffected:
  "st_id (s_state s) \<noteq> st_id (s_state s') \<Longrightarrow>
     row_hit hop (if row_hit hop r s then advance_row s r else r) s' = row_hit hop r s'"
  using row_hit_id [of hop r s] row_hit_id [of hop r s'] row_hit_id [of hop "advance_row s r" s'] by auto

lemma apply_sample_eq:
  "apply_sample hop res now save (rows, ds, hist) s =
     (map (\<lambda>r. if row_hit hop r s then advance_row s r else r) rows,
      ds @ map s_delta (accepted hop [s] rows),
      hist @ inbound_history res now save (map s_delta (accepted hop [s] rows)))"
proof (cases "stateChanged s")
  case True
  then have "row_hit hop r s = optimistic_match hop s r" for r by (simp add: row_hit_def)
  with True show ?thesis
    by (auto simp: apply_sample_def accepted_def inbound_history_def Let_def)
next
  case False
  then have "row_hit hop r s = False" for r by (simp add: row_hit_def)
  with False show ?thesis by (simp add: apply_sample_def accepted_def inbound_history_def)
qed

lemma accepted_Cons: "accepted hop (s # ss) rows = accepted hop [s] rows @ accepted hop ss rows"
  by (simp add: accepted_def)

lemma inbound_history_append:
  "inbound_history res now save (ds @ es) = inbound_history res now save ds @ inbound_history res now save es"
  by (simp add: inbound_history_def)

lemma apply_samples_eq:
  assumes "distinct (map (st_id \<circ> s_state) ss)"
  shows "foldl (apply_sample hop res now save) (rows, ds, hist) ss =
     (map (advanced hop ss) rows, ds @ map s_delta (accepted hop ss rows),
      hist @ inbound_history res now save (map s_delta (accepted hop ss rows)))"
  using assms
proof (induction ss arbitrary: rows ds hist)
  case Nil
  then show ?case by (simp add: advanced_def [abs_def] accepted_def inbound_history_def)
next
  case (Cons s ss)
  define f where "f = (\<lambda>r. if row_hit hop r s then advance_row s r else r)"
  have other: "row_hit hop (f r) s' = row_hit hop r s'" if "s' \<in> set ss" for r s'
    unfolding f_def using that Cons.prems by (intro other_sample_unaffected) auto
  have "accepted hop ss (map f rows) = accepted hop ss rows"
    unfolding accepted_def by (intro filter_cong) (simp_all add: other)
  moreover have "advanced hop ss (f r) = advanced hop (s # ss) r" for r
  proof (cases "row_hit hop r s")
    case True
    then have "\<not> row_hit hop r s'" if "s' \<in> set ss" for s'
      using that Cons.prems row_hit_id [OF True] row_hit_id [of hop r s'] by auto
    then have "find (row_hit hop (f r)) ss = None"
      using other [of _ r] by (simp add: find_None_iff)
    with True show ?thesis by (simp add: advanced_def f_def)
  qed (simp add: advanced_def f_def)
  ultimately show ?case
    using Cons by (simp add: apply_sample_eq accepted_Cons [of hop s ss] inbound_history_append o_def f_def [symmetric])
qed

lemma sample_changed:
  assumes "sample_of st s" "stateChanged s"
  shows "\<not> optimistic_match hop s (advance_row s r)"
  using assms
  by (auto simp: sample_of_def newInboundTrafficSample_def optimistic_match_def advance_row_def)

lemma advanced_not_hit:
  assumes "distinct (map (st_id \<circ> s_state) ss)" "\<And>s. s \<in> set ss \<Longrightarrow> \<exists>st. sample_of st s" "s \<in> set ss"
  shows "\<not> row_hit hop (advanced hop ss r) s"
proof (cases "find (row_hit hop r) ss")
  case None
  then have "\<not> row_hit hop r s" using assms(3) by (auto simp: find_None_iff)
  with None show ?thesis by (simp add: advanced_def)
next
  case (Some s0)
  then have s0: "s0 \<in> set ss" "row_hit hop r s0"
    by (auto simp: find_Some_iff)
  show ?thesis
  proof (cases "s0 = s")
    case True
    with s0 assms(2) [OF s0(1)] sample_changed Some show ?thesis by (auto simp: advanced_def row_hit_def)
  next
    case False
    then have "st_id (s_state s0) \<noteq> st_id (s_state s)"
      using assms(1,3) s0(1) by (auto simp: distinct_map inj_on_def)
    with s0 Some show ?thesis using row_hit_id [of hop r s0] row_hit_id [of hop "advanced hop ss r" s]
      by (auto simp: advanced_def)
  qed
qed

lemma round_not_repeatable_core:
  assumes "distinct (map (st_id \<circ> s_state) ss)" "\<And>s. s \<in> set ss \<Longrightarrow> \<exists>st. sample_of st s"
  shows "accepted hop ss (map (advanced hop ss) rows) = []"
    and "map (advanced hop ss) (map (advanced hop ss) rows) = map (advanced hop ss) rows"
proof -
  show "accepted hop ss (map (advanced hop ss) rows) = []"
    using advanced_not_hit [OF assms] by (auto simp: accepted_def filter_empty_conv)
  have "advanced hop ss (advanced hop ss r) = advanced hop ss r" for r
  proof -
    have "find (row_hit hop (advanced hop ss r)) ss = None"
      using advanced_not_hit [OF assms] by (simp add: find_None_iff)
    then show ?thesis by (simp add: advanced_def [of hop ss "advanced hop ss r"])
  qed
  then show "map (advanced hop ss) (map (advanced hop ss) rows) = map (advanced hop ss) rows" by simp
qed

section \<open>Charging\<close>

definition share :: "(inboundDelta \<Rightarrow> int) \<Rightarrow> inboundDelta list \<Rightarrow> binding list \<Rightarrow> nat \<Rightarrow> int" where
  \<comment> \<open>what a client owes: the deltas of its active bindings\<close>
  "share f deltas bs cid =
     sum_list (map (\<lambda>b. case charged deltas b of Some d \<Rightarrow> f d | None \<Rightarrow> 0) (filter (\<lambda>b. ClientId b = cid) bs))"

definition deltas_ok :: "inboundDelta list \<Rightarrow> bool" where
  "deltas_ok deltas \<longleftrightarrow> list_all (\<lambda>d. 0 \<le> deltaIn d \<and> 0 \<le> deltaOut d) deltas"

definition no_overflow :: "inboundDelta list \<Rightarrow> binding list \<Rightarrow> bool" where
  "no_overflow deltas bs \<longleftrightarrow>
     list_all (\<lambda>b. share deltaIn deltas bs (ClientId b) \<le> max_int64 \<and> share deltaOut deltas bs (ClientId b) \<le> max_int64) bs"

lemma charged_mem: "charged deltas b = Some d \<Longrightarrow> d \<in> set deltas"
  by (auto simp: charged_def delta_map_def dest: map_of_SomeD split: if_splits option.splits)

lemma share_snoc:
  "share f deltas (bs @ [b]) cid
     = share f deltas bs cid + (if ClientId b = cid then (case charged deltas b of Some d \<Rightarrow> f d | None \<Rightarrow> 0) else 0)"
  by (simp add: share_def)

lemma share_nonneg:
  assumes "deltas_ok deltas"
  shows "0 \<le> share deltaIn deltas bs cid" "0 \<le> share deltaOut deltas bs cid"
  using assms by (auto simp: share_def deltas_ok_def list_all_iff split: option.splits dest!: charged_mem
      intro!: sum_list_nonneg)

lemma share_none: "(\<And>b. b \<in> set bs \<Longrightarrow> ClientId b = cid \<Longrightarrow> charged deltas b = None) \<Longrightarrow> share f deltas bs cid = 0"
  by (induction bs) (auto simp: share_def)

lemma clientAggs_eq:
  assumes ok: "deltas_ok deltas"
  shows "share deltaIn deltas bs cid \<le> max_int64 \<Longrightarrow> share deltaOut deltas bs cid \<le> max_int64 \<Longrightarrow>
    clientAggs deltas bs cid =
      (if \<exists>b \<in> set bs. ClientId b = cid \<and> charged deltas b \<noteq> None
       then Some (share deltaIn deltas bs cid, share deltaOut deltas bs cid) else None)"
proof (induction bs rule: rev_induct)
  case Nil
  then show ?case by (simp add: clientAggs_def)
next
  case (snoc b bs)
  have wrap: "0 \<le> x \<Longrightarrow> x \<le> max_int64 \<Longrightarrow> wrap64 x = x" for x
    by (intro wrap64_id) (simp add: int64_defs)
  note nn = share_nonneg [OF ok, of bs cid]
  show ?case
  proof (cases "ClientId b = cid \<and> charged deltas b \<noteq> None")
    case False
    then have "clientAggs deltas (bs @ [b]) cid = clientAggs deltas bs cid"
      by (auto simp: clientAggs_def agg_step_def split: option.splits)
    moreover have "share f deltas (bs @ [b]) cid = share f deltas bs cid" for f
      using False by (auto simp: share_snoc)
    ultimately show ?thesis using snoc False by auto
  next
    case True
    then obtain d where d: "ClientId b = cid" "charged deltas b = Some d" by blast
    have dn: "0 \<le> deltaIn d" "0 \<le> deltaOut d"
      using charged_mem [OF d(2)] ok by (auto simp: deltas_ok_def list_all_iff)
    have sh: "share f deltas (bs @ [b]) cid = share f deltas bs cid + f d" for f
      using d by (simp add: share_snoc)
    have IH: "clientAggs deltas bs cid =
        (if \<exists>b \<in> set bs. ClientId b = cid \<and> charged deltas b \<noteq> None
         then Some (share deltaIn deltas bs cid, share deltaOut deltas bs cid) else None)"
      using snoc dn nn by (intro snoc.IH) (simp_all add: sh)
    have zero: "share f deltas bs cid = 0" if "\<not> (\<exists>b \<in> set bs. ClientId b = cid \<and> charged deltas b \<noteq> None)" for f
      using that by (intro share_none) auto
    have "clientAggs deltas (bs @ [b]) cid =
        Some (wrap64 (share deltaIn deltas bs cid + deltaIn d), wrap64 (share deltaOut deltas bs cid + deltaOut d))"
      using IH zero d unfolding clientAggs_def
      by (cases "\<exists>b \<in> set bs. ClientId b = cid \<and> charged deltas b \<noteq> None") (simp_all add: agg_step_def)
    with snoc.prems dn nn True show ?thesis by (simp add: sh wrap)
  qed
qed

lemma client_deltas_eq:
  assumes ok: "deltas_ok deltas" and no: "no_overflow deltas (bindings db)"
  shows "client_deltas deltas db cid =
     (if client_name (clients db) cid = [] then (0, 0)
      else (share deltaIn deltas (bindings db) cid, share deltaOut deltas (bindings db) cid))"
proof (cases "\<exists>b \<in> set (bindings db). ClientId b = cid \<and> charged deltas b \<noteq> None")
  case True
  then have "share deltaIn deltas (bindings db) cid \<le> max_int64" "share deltaOut deltas (bindings db) cid \<le> max_int64"
    using no by (auto simp: no_overflow_def list_all_iff)
  with True show ?thesis
    using clientAggs_eq [OF ok, of "bindings db" cid] share_nonneg [OF ok, of "bindings db" cid]
    by (simp add: client_deltas_def)
next
  case False
  then have zero: "share f deltas (bindings db) cid = 0" for f by (intro share_none) auto
  with False show ?thesis
    using clientAggs_eq [OF ok, of "bindings db" cid] by (simp add: client_deltas_def int64_defs)
qed

lemma client_name_distinct:
  assumes "distinct (map Id cs)" "c \<in> set cs"
  shows "client_name cs (Id c) = trim_space (Name c)"
proof -
  have "distinct (map fst (rev (map (\<lambda>c. (Id c, Name c)) cs)))"
    using assms(1) by (simp add: rev_map [symmetric] o_def)
  then have "map_of (rev (map (\<lambda>c. (Id c, Name c)) cs)) (Id c) = Some (Name c)"
    using assms(2) by (intro map_of_is_SomeI) auto
  then show ?thesis by (simp add: client_name_def)
qed

definition charge_client :: "inboundDelta list \<Rightarrow> binding list \<Rightarrow> client \<Rightarrow> client" where
  "charge_client deltas bs c =
     (if Id c = 0 \<or> trim_space (Name c) = [] then c
      else c\<lparr>Up := Up c + share deltaIn deltas bs (Id c), Down := Down c + share deltaOut deltas bs (Id c)\<rparr>)"

lemma charge_tables_clients:
  assumes "deltas_ok deltas" "no_overflow deltas (bindings db)" "distinct (map Id (clients db))"
  shows "clients (charge_tables deltas db) = map (charge_client deltas (bindings db)) (clients db)"
  using share_nonneg [OF assms(1), of "bindings db"] client_name_distinct [OF assms(3)]
  by (auto simp: charge_tables_def applyClientTrafficDeltasBatch_def charge_client_def
      client_deltas_eq [OF assms(1,2)] not_less order_antisym)

section \<open>Rounds\<close>

lemma no_deltas: "charged [] b = None" "charge_binding [] b = b" "share f [] bs cid = 0"
  by (simp_all add: charged_def delta_map_def charge_binding_def share_none)

lemma charge_tables_none: "charge_tables [] db = db"
proof -
  have "clientAggs [] bs cid = None" for bs cid
    by (induction bs rule: rev_induct) (simp_all add: clientAggs_def agg_step_def no_deltas)
  then have "client_deltas [] db cid = (0, 0)" for cid by (simp add: client_deltas_def)
  then show ?thesis by (simp add: charge_tables_def applyClientTrafficDeltasBatch_def no_deltas map_idI)
qed

definition rows_ok :: "InboundTrafficState list \<Rightarrow> bool" where
  \<comment> \<open>primary key and unique index of the table\<close>
  "rows_ok sts \<longleftrightarrow> distinct (map st_id sts) \<and> distinct (map st_inbound sts)"

definition round_samples ::
    "recover \<Rightarrow> collect_guard \<Rightarrow> (traffic_db \<Rightarrow> traffic_db) \<Rightarrow> nft_env \<Rightarrow> traffic_db \<Rightarrow> inboundTrafficSample list" where
  "round_samples recover g heal env db0 = fst (readInboundTrafficSamples recover env (load_states g heal db0) 0)"

definition round_deltas :: "bool \<Rightarrow> inboundTrafficSample list \<Rightarrow> traffic_db \<Rightarrow> inboundDelta list" where
  "round_deltas hop ss db1 = map s_delta (accepted hop ss (states db1))"

text \<open>
  The contract of a collection round: it moves exactly the rows its samples were taken from and
  charges their deltas. \<open>ready\<close> says that no binding repair is pending.
\<close>

locale traffic_collector =
  fixes collect :: "collect_guard \<Rightarrow> (traffic_db \<Rightarrow> traffic_db) \<Rightarrow> nft_env \<Rightarrow> int \<Rightarrow> bool
                      \<Rightarrow> traffic_db \<Rightarrow> traffic_db \<Rightarrow> collect_result"
    and recover :: recover and hop :: bool and ready :: "traffic_db \<Rightarrow> bool"
  assumes recover_rows: "recovers recover"
    and round_effect: "rows_ok (load_states g heal db0) \<Longrightarrow> ready db1
      \<Longrightarrow> collect g heal env now save db0 db1 = Committed db' hist tags users changed
      \<Longrightarrow> ss = round_samples recover g heal env db0
      \<Longrightarrow> states db' = map (advanced hop ss) (states db1)
         \<and> tables db' = charge_tables (round_deltas hop ss db1) (tables db1)
         \<and> (changed \<longleftrightarrow> round_deltas hop ss db1 \<noteq> [])
         \<and> ready db'"
begin

lemma samples_ok:
  assumes "rows_ok (load_states g heal db0)"
  shows "distinct (map (st_id \<circ> s_state) (round_samples recover g heal env db0))"
    and "s \<in> set (round_samples recover g heal env db0) \<Longrightarrow> \<exists>st. sample_of st s"
proof -
  have "samples_from (load_states g heal db0) (round_samples recover g heal env db0)"
    using assms unfolding round_samples_def rows_ok_def by (intro round_samples_from [OF recover_rows]) simp
  with assms show "distinct (map (st_id \<circ> s_state) (round_samples recover g heal env db0))"
    and "s \<in> set (round_samples recover g heal env db0) \<Longrightarrow> \<exists>st. sample_of st s"
    by (auto simp: rows_ok_def dest: samples_from_ids samples_from_mem)
qed

lemma stale_round:
  \<comment> \<open>a second collector that read the same rows and counters finds every row moved on\<close>
  assumes rows: "rows_ok (load_states g heal db0)" and "ready db1"
    and first: "collect g heal env now save db0 db1 = Committed db2 hist tags users changed"
    and second: "collect g heal env now' save' db0 db2 = Committed db3 hist' tags' users' changed'"
  shows "states db3 = states db2 \<and> tables db3 = tables db2 \<and> \<not> changed'"
proof -
  define ss where "ss = round_samples recover g heal env db0"
  have s: "distinct (map (st_id \<circ> s_state) ss)" "\<And>s. s \<in> set ss \<Longrightarrow> \<exists>st. sample_of st s"
    unfolding ss_def using samples_ok [OF rows] by auto
  have one: "states db2 = map (advanced hop ss) (states db1)" "ready db2"
    using round_effect [OF rows assms(2) first ss_def] by auto
  have two: "states db3 = map (advanced hop ss) (states db2)" "tables db3 = charge_tables (round_deltas hop ss db2) (tables db2)"
    "changed' \<longleftrightarrow> round_deltas hop ss db2 \<noteq> []"
    using round_effect [OF rows one(2) second ss_def] by auto
  have "round_deltas hop ss db2 = []"
    unfolding round_deltas_def one(1) by (simp add: round_not_repeatable_core(1) [OF s])
  with two one round_not_repeatable_core(2) [OF s] show ?thesis by (simp add: charge_tables_none)
qed

lemma round_exact:
  assumes rows: "rows_ok (load_states g heal db0)" and "ready db1"
    and commit: "collect g heal env now save db0 db1 = Committed db' hist tags users changed"
    and ds: "ds = round_deltas hop (round_samples recover g heal env db0) db1"
    and "deltas_ok ds" "no_overflow ds (bindings (tables db1))" "distinct (map Id (clients (tables db1)))"
  shows "states db' = map (advanced hop (round_samples recover g heal env db0)) (states db1)
     \<and> clients (tables db') = map (charge_client ds (bindings (tables db1))) (clients (tables db1))
     \<and> bindings (tables db') = map (charge_binding ds) (bindings (tables db1))
     \<and> (changed \<longleftrightarrow> ds \<noteq> [])"
proof -
  have "states db' = map (advanced hop (round_samples recover g heal env db0)) (states db1)"
    "tables db' = charge_tables ds (tables db1)" "changed \<longleftrightarrow> ds \<noteq> []"
    using round_effect [OF rows assms(2) commit refl] by (simp_all add: ds)
  with charge_tables_clients [OF assms(5-7)] show ?thesis by (simp add: charge_tables_def)
qed

end

lemma round_rows:
  assumes "recovers recover" "rows_ok (load_states g heal db0)"
  shows "foldl (apply_sample hop res now save) (rows, [], [])
           (fst (readInboundTrafficSamples recover env (load_states g heal db0) 0))
         = (let ss = round_samples recover g heal env db0 in
             (map (advanced hop ss) rows, map s_delta (accepted hop ss rows),
              inbound_history res now save (map s_delta (accepted hop ss rows))))"
proof -
  have "samples_from (load_states g heal db0) (round_samples recover g heal env db0)"
    using assms unfolding round_samples_def rows_ok_def by (intro round_samples_from) simp_all
  then have "distinct (map (st_id \<circ> s_state) (round_samples recover g heal env db0))"
    using assms(2) by (auto simp: rows_ok_def dest: samples_from_ids)
  from apply_samples_eq [OF this, of hop res now save rows "[]" "[]"] show ?thesis
    by (simp add: round_samples_def Let_def)
qed

interpretation singbox: traffic_collector collectAndSaveTraffic singbox_recoverHandles False "\<lambda>db. \<not> repairNeeded db"
proof
  show "recovers singbox_recoverHandles" by simp
next
  fix g heal db0 db1 env now save db' hist tags users changed ss
  assume rows: "rows_ok (load_states g heal db0)" and ready: "\<not> repairNeeded db1"
    and c: "collectAndSaveTraffic g heal env now save db0 db1 = Committed db' hist tags users changed"
    and ss: "ss = round_samples singbox_recoverHandles g heal env db0"
  from c show "states db' = map (advanced False ss) (states db1)
      \<and> tables db' = charge_tables (round_deltas False ss db1) (tables db1)
      \<and> (changed \<longleftrightarrow> round_deltas False ss db1 \<noteq> []) \<and> \<not> repairNeeded db'"
    unfolding collectAndSaveTraffic_def Let_def round_rows [OF collectors_recover(1) rows] ss [symmetric]
    using ready
    by (auto simp: ensureClientBindings_def writeClientStats_def round_deltas_def charge_tables_none
        split: if_splits)
qed

interpretation mihomo: traffic_collector mihomo_collectAndSaveTraffic mihomo_recoverHandles True "\<lambda>db. True"
proof
  show "recovers mihomo_recoverHandles" by simp
next
  fix g heal db0 db1 env now save db' hist tags users changed ss
  assume rows: "rows_ok (load_states g heal db0)"
    and c: "mihomo_collectAndSaveTraffic g heal env now save db0 db1 = Committed db' hist tags users changed"
    and ss: "ss = round_samples mihomo_recoverHandles g heal env db0"
  from c show "states db' = map (advanced True ss) (states db1)
      \<and> tables db' = charge_tables (round_deltas True ss db1) (tables db1)
      \<and> (changed \<longleftrightarrow> round_deltas True ss db1 \<noteq> []) \<and> True"
    unfolding mihomo_collectAndSaveTraffic_def Let_def round_rows [OF collectors_recover(2) rows] ss [symmetric]
    by (auto simp: mihomo_writeClientStats_def round_deltas_def charge_tables_none split: if_splits)
qed

section \<open>Binding synchronisation\<close>

definition sync_row :: "(nat \<Rightarrow> int \<times> int) \<Rightarrow> nat \<Rightarrow> nat list \<Rightarrow> binding \<Rightarrow> binding" where
  "sync_row bytes cid newIds b =
     (if ClientId b \<noteq> cid then b
      else if InboundId b \<notin> set newIds then b\<lparr>Active := False\<rparr>
      else if Active b then b else fresh_binding cid (InboundId b) (bytes (InboundId b)))"

definition bound :: "nat \<Rightarrow> binding list \<Rightarrow> nat \<Rightarrow> bool" where
  "bound cid bs i \<longleftrightarrow> (\<exists>b \<in> set bs. ClientId b = cid \<and> InboundId b = i)"

definition revive :: "(nat \<Rightarrow> int \<times> int) \<Rightarrow> nat \<Rightarrow> (nat \<Rightarrow> bool) \<Rightarrow> nat list \<Rightarrow> binding \<Rightarrow> binding" where
  "revive bytes cid existing is b =
     (if ClientId b = cid \<and> existing (InboundId b) \<and> InboundId b \<in> set is \<and> \<not> Active b
      then fresh_binding cid (InboundId b) (bytes (InboundId b)) else b)"

lemma fresh_binding_simps [simp]:
  "ClientId (fresh_binding cid i p) = cid" "InboundId (fresh_binding cid i p) = i" "Active (fresh_binding cid i p)"
  by (simp_all add: fresh_binding_def)

lemma activate_all_eq:
  "distinct is \<Longrightarrow> (\<And>i. i \<in> set is \<Longrightarrow> \<not> existing i \<Longrightarrow> \<not> bound cid bs i) \<Longrightarrow>
   activate_all cid bytes existing is bs
     = Some (map (revive bytes cid existing is) bs
             @ map (\<lambda>i. fresh_binding cid i (bytes i)) (filter (\<lambda>i. \<not> existing i) is))"
proof (induction "is" arbitrary: bs)
  case Nil
  then show ?case by (simp add: revive_def [abs_def])
next
  case (Cons i "is")
  show ?case
  proof (cases "existing i")
    case True
    define f where "f = (\<lambda>b. if ClientId b = cid \<and> InboundId b = i \<and> \<not> Active b then fresh_binding cid i (bytes i) else b)"
    have "ClientId (f b) = ClientId b" "InboundId (f b) = InboundId b" for b by (auto simp: f_def)
    then have "bound cid (map f bs) j = bound cid bs j" for j by (simp add: bound_def)
    then have "activate_all cid bytes existing is (map f bs)
        = Some (map (revive bytes cid existing is) (map f bs)
                @ map (\<lambda>i. fresh_binding cid i (bytes i)) (filter (\<lambda>i. \<not> existing i) is))"
      using Cons.prems by (intro Cons.IH) auto
    moreover have "revive bytes cid existing is (f b) = revive bytes cid existing (i # is) b" for b
      using True by (auto simp: revive_def f_def)
    ultimately show ?thesis using True by (simp add: activate_binding_def f_def [symmetric])
  next
    case False
    then have nb: "\<not> bound cid bs i" using Cons.prems by simp
    have "activate_all cid bytes existing is (bs @ [fresh_binding cid i (bytes i)])
        = Some (map (revive bytes cid existing is) (bs @ [fresh_binding cid i (bytes i)])
                @ map (\<lambda>i. fresh_binding cid i (bytes i)) (filter (\<lambda>i. \<not> existing i) is))"
      using Cons.prems by (intro Cons.IH) (auto simp: bound_def)
    moreover have "map (revive bytes cid existing is) bs = map (revive bytes cid existing (i # is)) bs"
      using nb by (auto simp: revive_def bound_def)
    ultimately show ?thesis using False nb by (auto simp: activate_binding_def bound_def revive_def)
  qed
qed

lemma sync_eq:
  assumes "distinct newIds"
  shows "syncClientBindings current sts snaps cid newIds bs
     = Some (map (sync_row (currentInboundBytesForBinding current sts snaps) cid newIds) bs
             @ map (\<lambda>i. fresh_binding cid i (currentInboundBytesForBinding current sts snaps i))
                   (filter (\<lambda>i. \<not> bound cid bs i) newIds))"
proof -
  let ?bytes = "currentInboundBytesForBinding current sts snaps"
  have "ClientId (deactivate_binding cid newIds b) = ClientId b"
    "InboundId (deactivate_binding cid newIds b) = InboundId b" for b
    by (simp_all add: deactivate_binding_def)
  then have "bound cid (map (deactivate_binding cid newIds) bs) i = bound cid bs i" for i
    by (simp add: bound_def)
  then have "activate_all cid ?bytes (bound cid bs) newIds (map (deactivate_binding cid newIds) bs)
     = Some (map (revive ?bytes cid (bound cid bs) newIds) (map (deactivate_binding cid newIds) bs)
             @ map (\<lambda>i. fresh_binding cid i (?bytes i)) (filter (\<lambda>i. \<not> bound cid bs i) newIds))"
    using assms by (intro activate_all_eq) simp_all
  moreover have "revive ?bytes cid (bound cid bs) newIds (deactivate_binding cid newIds b)
      = sync_row ?bytes cid newIds b" if "b \<in> set bs" for b
  proof -
    have "ClientId b = cid \<Longrightarrow> bound cid bs (InboundId b)" using that by (auto simp: bound_def)
    then show ?thesis by (simp add: revive_def deactivate_binding_def sync_row_def)
  qed
  then have "map (revive ?bytes cid (bound cid bs) newIds) (map (deactivate_binding cid newIds) bs)
      = map (sync_row ?bytes cid newIds) bs" by simp
  ultimately show ?thesis by (simp only: syncClientBindings_def bound_def [symmetric, abs_def])
qed

lemma deduplicate_distinct: "distinct (deduplicateInboundIDs ids) \<and> set (deduplicateInboundIDs ids) = set ids - {0}"
proof -
  have "distinct r \<Longrightarrow> distinct (foldl (\<lambda>result i. if i = 0 \<or> i \<in> set result then result else result @ [i]) r ids)
      \<and> set (foldl (\<lambda>result i. if i = 0 \<or> i \<in> set result then result else result @ [i]) r ids) = set r \<union> (set ids - {0})"
    for r :: "nat list"
    by (induction ids arbitrary: r) auto
  from this [of "[]"] show ?thesis by (simp add: deduplicateInboundIDs_def)
qed

section \<open>An example\<close>

text \<open>One inbound on port 443 whose cursor stands at 100 bytes in and 50 out, and one client bound to it.\<close>

definition example_client :: client where
  "example_client = \<lparr>Id = 1, Enable = True, Depleted = False, Name = ''ann'', Inbounds = [4], Volume = 0,
     Expiry = 0, Down = 7, Up = 9, Extra = 0, LastReset = 0\<rparr>"

definition example_binding :: binding where
  "example_binding = \<lparr>ClientId = 1, InboundId = 4, Active = True, LastInBytes = 100, LastOutBytes = 50,
     UsedInBytes = 0, UsedOutBytes = 0\<rparr>"

definition example_state :: InboundTrafficState where
  "example_state = \<lparr>st_id = 2, st_inbound = 4, st_tag = ''a'', st_port = 443, InHandle = 7, OutHandle = 8,
     PortHopRange = [], RedirectHandle = 0, InBytes = 100, OutBytes = 50\<rparr>"

definition example_db :: traffic_db where
  "example_db = \<lparr>states = [example_state],
     tables = \<lparr>clients = [example_client], bindings = [example_binding]\<rparr>, repairNeeded = False\<rparr>"

definition example_env :: nft_env where
  \<comment> \<open>the kernel counters stand at 950 and 75\<close>
  "example_env = \<lparr>use_json = True, compat_layout = False,
     run_json = (\<lambda>t chain. if chain = nftChainIn then Some [\<lparr>Handle = 7, Expr = [OtherExpr, CounterExpr 950]\<rparr>]
                           else Some [\<lparr>Handle = 8, Expr = [CounterExpr 75]\<rparr>]),
     run_text = (\<lambda>t chain. None)\<rparr>"

definition example_guard :: collect_guard where
  "example_guard = \<lparr>supported = True, sampling_allowed = True, running = True, selfHealed = True,
     epoch_before = True, epoch_after = True, commit_ok = True\<rparr>"

definition example_round :: "traffic_db \<Rightarrow> collect_result" where
  "example_round db1 = collectAndSaveTraffic example_guard (\<lambda>db. db) example_env 1700000000 True example_db db1"

lemmas example_defs = example_client_def example_binding_def example_state_def example_db_def example_env_def
  example_guard_def example_round_def

section \<open>Properties\<close>

text \<open>
  C4: polling never charges more than was transferred. Whatever happens to a counter between the
  polls (traffic, and rules recreated with a zero counter), the deltas of all polls together are at most the
  bytes transferred, and exactly those bytes when the rule was never recreated. The counter starts
  at the cursor and the total stays in the 64-bit range.
\<close>

theorem poll_never_overcharges:
  assumes "0 \<le> v" "in_int64 (v + traffic (concat ess))"
  shows "poll_total counter_delta v ess \<le> traffic (concat ess)
     \<and> (Restart \<notin> set (concat ess) \<longrightarrow> poll_total counter_delta v ess = traffic (concat ess))"
  using poll.poll_total_bounds [OF assms] .

theorem poll_never_overcharges_witness:
  "poll_total counter_delta 100 [[Count 20], [Count 5, Restart, Count 30], [Count 1]] \<le> 56
   \<and> poll_total counter_delta 100 [[Count 20], [Count 5], [Count 1]] = 26"
  using poll_never_overcharges [of 100 "[[Count 20], [Count 5, Restart, Count 30], [Count 1]]"]
    poll_never_overcharges [of 100 "[[Count 20], [Count 5], [Count 1]]"]
  by (simp add: int64_defs)

definition example_committed :: traffic_db where
  "example_committed = example_db\<lparr>states := [example_state\<lparr>InBytes := 950, OutBytes := 75\<rparr>],
     tables := \<lparr>clients = [example_client\<lparr>Up := 859, Down := 32\<rparr>],
                bindings = [example_binding\<lparr>LastInBytes := 950, LastOutBytes := 75, UsedInBytes := 850, UsedOutBytes := 25\<rparr>]\<rparr>\<rparr>"

lemma example_round_runs:
  "example_round example_db = Committed example_committed
     [\<lparr>st_DateTime = 1700000000, Resource = ''inbound'', st_Tag = ''a'', Direction = True, Traffic = 850\<rparr>,
      \<lparr>st_DateTime = 1700000000, Resource = ''inbound'', st_Tag = ''a'', Direction = False, Traffic = 25\<rparr>,
      \<lparr>st_DateTime = 1700000000, Resource = ''client'', st_Tag = ''ann'', Direction = True, Traffic = 850\<rparr>,
      \<lparr>st_DateTime = 1700000000, Resource = ''client'', st_Tag = ''ann'', Direction = False, Traffic = 25\<rparr>]
     {''a''} {''ann''} True"
  by code_simp

lemma mihomo_example_runs:
  "mihomo_collectAndSaveTraffic example_guard (\<lambda>db. db) example_env 1700000000 False example_db example_db
     = Committed example_committed [] {''a''} {''ann''} True"
  by code_simp

text \<open>
  C2: no traffic is charged twice. Two collectors that read the same rows and counters may both
  reach their transaction; the second one to commit finds every row already moved, writes nothing and
  charges nothing.
\<close>

theorem stale_round_charges_nothing:
  assumes "rows_ok (load_states g heal db0)" "\<not> repairNeeded db1"
    and "collectAndSaveTraffic g heal env now save db0 db1 = Committed db2 hist tags users changed"
    and "collectAndSaveTraffic g heal env now' save' db0 db2 = Committed db3 hist' tags' users' changed'"
  shows "states db3 = states db2 \<and> tables db3 = tables db2 \<and> \<not> changed'"
  using singbox.stale_round [OF assms] .

theorem stale_round_charges_nothing_witness:
  "\<exists>db3 hist tags users changed. example_round example_committed = Committed db3 hist tags users changed
     \<and> tables db3 = tables example_committed \<and> \<not> changed"
proof -
  have "example_round example_committed = Committed example_committed [] {} {} False" by code_simp
  then obtain db3 hist tags users changed
    where second: "example_round example_committed = Committed db3 hist tags users changed" by blast
  have "rows_ok (load_states example_guard (\<lambda>db. db) example_db)" "\<not> repairNeeded example_db" by code_simp+
  from stale_round_charges_nothing [OF this example_round_runs [unfolded example_round_def]
      second [unfolded example_round_def]] second
  show ?thesis by blast
qed

text \<open>
  what is charged is the movement of the cursor. Every delta of a round belongs to a row that
  the transaction found unchanged since it was read, and is the difference between the counters that row
  held before and holds after the round, a fall of the counter counting from zero.
\<close>

lemma charged_delta_is_cursor_movement:
  assumes "rows_ok (load_states g heal db0)" "ss = round_samples singbox_recoverHandles g heal env db0"
    and "d \<in> set (round_deltas False ss db1)"
  shows "\<exists>r \<in> set (states db1). st_tag r = d_tag d
     \<and> deltaIn d = counter_delta (InBytes r) (InBytes (advanced False ss r))
     \<and> deltaOut d = counter_delta (OutBytes r) (OutBytes (advanced False ss r))"
proof -
  obtain s r where s: "s \<in> set ss" "d = s_delta s" "r \<in> set (states db1)" "row_hit False r s"
    using assms(3) by (auto simp: round_deltas_def accepted_def)
  have dist: "distinct (map (st_id \<circ> s_state) ss)" using singbox.samples_ok(1) [OF assms(1)] assms(2) by simp
  have "find (row_hit False r) ss = Some s"
  proof -
    obtain s' where s': "find (row_hit False r) ss = Some s'"
      using s(1,4) by (cases "find (row_hit False r) ss") (auto simp: find_None_iff)
    then have "s' \<in> set ss" "row_hit False r s'" by (auto simp: find_Some_iff)
    then have "s' = s"
      using dist s(1) row_hit_id [OF s(4)] row_hit_id [of False r s'] by (auto simp: distinct_map inj_on_def)
    with s' show ?thesis by simp
  qed
  then have adv: "advanced False ss r = advance_row s r" by (simp add: advanced_def)
  obtain st where "sample_of st s" using singbox.samples_ok(2) [OF assms(1)] s(1) assms(2) by blast
  with s(2,4) adv have "st_tag r = d_tag d
     \<and> deltaIn d = counter_delta (InBytes r) (InBytes (advanced False ss r))
     \<and> deltaOut d = counter_delta (OutBytes r) (OutBytes (advanced False ss r))"
    by (auto simp: sample_of_def newInboundTrafficSample_def row_hit_def optimistic_match_def advance_row_def same_row_def)
  with s(3) show ?thesis by blast
qed

theorem charged_delta_is_cursor_movement_example:
  "\<exists>r \<in> set (states example_db). st_tag r = ''a'' \<and> (850::int) = counter_delta (InBytes r)
     (InBytes (advanced False (round_samples singbox_recoverHandles example_guard (\<lambda>db. db) example_env example_db) r))"
proof -
  let ?d = "\<lparr>d_inbound = 4, d_tag = ''a'', deltaIn = 850, deltaOut = 25, currentIn = 950, currentOut = 75\<rparr>"
  have "?d \<in> set (round_deltas False (round_samples singbox_recoverHandles example_guard (\<lambda>db. db) example_env example_db) example_db)"
    "rows_ok (load_states example_guard (\<lambda>db. db) example_db)"
    by code_simp+
  from charged_delta_is_cursor_movement [OF this(2) refl this(1)] show ?thesis by auto
qed

text \<open>
  \<open>syncClientBindings\<close> with a duplicate-free selection always succeeds. Rows of other clients are
  untouched; a selected inbound that is already active keeps its row; a selected inbound that was inactive or
  unbound becomes active with the current counters as baseline and zero usage; an inbound that is
  no longer selected becomes inactive and keeps its usage. So the active inbounds of the client are exactly the selection.
\<close>

lemma syncClientBindings_exact:
  assumes "distinct newIds"
  shows "\<exists>bs'. syncClientBindings current sts snaps cid newIds bs = Some bs'
     \<and> bs' = map (sync_row (currentInboundBytesForBinding current sts snaps) cid newIds) bs
             @ map (\<lambda>i. fresh_binding cid i (currentInboundBytesForBinding current sts snaps i))
                   (filter (\<lambda>i. \<not> bound cid bs i) newIds)
     \<and> {InboundId b |b. b \<in> set bs' \<and> ClientId b = cid \<and> Active b} = set newIds"
proof -
  let ?bytes = "currentInboundBytesForBinding current sts snaps"
  let ?bs' = "map (sync_row ?bytes cid newIds) bs
    @ map (\<lambda>i. fresh_binding cid i (?bytes i)) (filter (\<lambda>i. \<not> bound cid bs i) newIds)"
  have row: "ClientId (sync_row ?bytes cid newIds b) = ClientId b" "InboundId (sync_row ?bytes cid newIds b) = InboundId b"
    "ClientId b = cid \<Longrightarrow> Active (sync_row ?bytes cid newIds b) \<longleftrightarrow> InboundId b \<in> set newIds" for b
    by (auto simp: sync_row_def)
  have "\<exists>b. i = InboundId b \<and> b \<in> set ?bs' \<and> ClientId b = cid \<and> Active b" if i: "i \<in> set newIds" for i
  proof (cases "bound cid bs i")
    case True
    then obtain b where b: "b \<in> set bs" "ClientId b = cid" "InboundId b = i" by (auto simp: bound_def)
    with i row [of b] show ?thesis by (intro exI [of _ "sync_row ?bytes cid newIds b"]) simp
  next
    case False
    with i show ?thesis by (intro exI [of _ "fresh_binding cid i (?bytes i)"]) simp
  qed
  moreover have "InboundId b \<in> set newIds" if b: "b \<in> set ?bs'" "ClientId b = cid" "Active b" for b
  proof -
    from b(1) consider (old) b0 where "b = sync_row ?bytes cid newIds b0"
      | (new) i where "i \<in> set newIds" "b = fresh_binding cid i (?bytes i)" by auto
    then show ?thesis
    proof cases
      case (old b0) then show ?thesis using b(2,3) row [of b0] by simp
    next
      case new then show ?thesis by simp
    qed
  qed
  ultimately have "{InboundId b |b. b \<in> set ?bs' \<and> ClientId b = cid \<and> Active b} = set newIds" by blast
  then show ?thesis by (intro exI [of _ ?bs'] conjI sync_eq [OF assms] refl)
qed

theorem syncClientBindings_exact_example:
  "\<exists>bs'. syncClientBindings (\<lambda>i. (0, 0)) [example_state] None 1 [6] [example_binding] = Some bs'
     \<and> {InboundId b |b. b \<in> set bs' \<and> ClientId b = 1 \<and> Active b} = {6}"
proof -
  have "distinct [6 :: nat]" by simp
  from syncClientBindings_exact [OF this, of "\<lambda>i. (0, 0)" "[example_state]" None 1 "[example_binding]"]
  show ?thesis by auto
qed

text \<open>
  the baselines of the bindings do not take part in charging. Replacing \<open>LastInBytes\<close> and
  \<open>LastOutBytes\<close> of every binding by any other values changes neither what the clients are charged nor
  the usage of the bindings. So a client bound (or reset) between two polls is charged the whole
  interval of the inbound, also the part before its baseline was taken.
\<close>

lemma baselines_do_not_limit_charges:
  "clients (charge_tables deltas (db\<lparr>bindings := map (\<lambda>b. b\<lparr>LastInBytes := f b, LastOutBytes := g b\<rparr>) (bindings db)\<rparr>))
     = clients (charge_tables deltas db)
   \<and> map UsedInBytes (bindings (charge_tables deltas
        (db\<lparr>bindings := map (\<lambda>b. b\<lparr>LastInBytes := f b, LastOutBytes := g b\<rparr>) (bindings db)\<rparr>)))
     = map UsedInBytes (bindings (charge_tables deltas db))"
proof -
  let ?h = "\<lambda>b. b\<lparr>LastInBytes := f b, LastOutBytes := g b\<rparr>"
  have charged: "charged deltas (?h b) = charged deltas b" for b by (simp add: charged_def)
  have "agg_step deltas m (?h b) = agg_step deltas m b" for m b
    by (simp add: agg_step_def charged split: option.split prod.split)
  then have "foldl (agg_step deltas) m (map ?h bs) = foldl (agg_step deltas) m bs" for m bs
    by (induction bs arbitrary: m) simp_all
  then have "client_deltas deltas (db\<lparr>bindings := map ?h (bindings db)\<rparr>) = client_deltas deltas db"
    by (simp add: client_deltas_def fun_eq_iff clientAggs_def split: option.split prod.split)
  moreover have "UsedInBytes (charge_binding deltas (?h b)) = UsedInBytes (charge_binding deltas b)" for b
    by (simp add: charge_binding_def charged split: option.split)
  ultimately show ?thesis by (simp add: charge_tables_def)
qed

text \<open>
  the repair of client bindings never happens in the mihomo collector. Whatever the repair flag
  says, a committed round leaves the flag as it was and keeps every binding with its client, inbound and active
  state: no missing binding is created (the function that would do it has no caller).
\<close>

lemma mihomo_round_never_repairs:
  assumes "rows_ok (load_states g heal db0)"
    and "mihomo_collectAndSaveTraffic g heal env now save db0 db1 = Committed db' hist tags users changed"
  shows "repairNeeded db' = repairNeeded db1
     \<and> map (\<lambda>b. (ClientId b, InboundId b, Active b)) (bindings (tables db'))
       = map (\<lambda>b. (ClientId b, InboundId b, Active b)) (bindings (tables db1))"
proof -
  have "tables db' = charge_tables (round_deltas True (round_samples mihomo_recoverHandles g heal env db0) db1) (tables db1)"
    using mihomo.round_effect [OF assms(1) TrueI assms(2) refl] by blast
  moreover have "(ClientId (charge_binding ds b), InboundId (charge_binding ds b), Active (charge_binding ds b))
      = (ClientId b, InboundId b, Active b)" for ds b
    by (simp add: charge_binding_def split: option.split)
  moreover have "repairNeeded db' = repairNeeded db1"
    using assms(2) unfolding mihomo_collectAndSaveTraffic_def Let_def
    by (auto split: if_splits prod.splits)
  ultimately show ?thesis by (simp add: charge_tables_def)
qed

theorem mihomo_round_never_repairs_example:
  "repairNeeded example_committed = repairNeeded example_db"
proof -
  have "rows_ok (load_states example_guard (\<lambda>db. db) example_db)" by code_simp
  from mihomo_round_never_repairs [OF this mihomo_example_runs] show ?thesis by blast
qed

text \<open>
  a sing-box round that is rolled back after the repair of the bindings still clears the repair
  flag, so the repair is lost: the rows are as before and nothing asks for it any more.
\<close>

lemma repair_lost_on_rollback:
  assumes "rows_ok (load_states g heal db0)" "repairNeeded db1"
    and "ss = round_samples singbox_recoverHandles g heal env db0" "round_guard g (load_states g heal db0) ss"
    and "round_deltas False ss db1 \<noteq> []" "\<not> epoch_after g \<or> \<not> commit_ok g"
    and "ensureClientBindings (round_snapshots (load_states g heal db0) ss)
           (db1\<lparr>states := map (advanced False ss) (states db1)\<rparr>) \<noteq> None"
  shows "collectAndSaveTraffic g heal env now save db0 db1 = Skipped False"
proof -
  obtain db3 where db3: "ensureClientBindings (round_snapshots (load_states g heal db0) ss)
           (db1\<lparr>states := map (advanced False ss) (states db1)\<rparr>) = Some db3" "\<not> repairNeeded db3"
    using assms(2,7) by (auto simp: ensureClientBindings_def split: if_splits option.splits)
  show ?thesis
    using assms(4-6) db3
    unfolding collectAndSaveTraffic_def Let_def round_rows [OF collectors_recover(1) assms(1)] assms(3) [symmetric]
    by (auto simp: round_samples_def [symmetric] assms(3) [symmetric] round_deltas_def writeClientStats_def)
qed

theorem repair_lost_on_rollback_example:
  "collectAndSaveTraffic (example_guard\<lparr>commit_ok := False\<rparr>) (\<lambda>db. db) example_env 1700000000 True example_db
     (example_db\<lparr>repairNeeded := True, tables := (tables example_db)\<lparr>bindings := []\<rparr>\<rparr>) = Skipped False"
proof -
  let ?g = "example_guard\<lparr>commit_ok := False\<rparr>"
  let ?db = "example_db\<lparr>repairNeeded := True, tables := (tables example_db)\<lparr>bindings := []\<rparr>\<rparr>"
  let ?ss = "round_samples singbox_recoverHandles ?g (\<lambda>db. db) example_env example_db"
  have "rows_ok (load_states ?g (\<lambda>db. db) example_db)" by code_simp
  moreover have "round_guard ?g (load_states ?g (\<lambda>db. db) example_db) ?ss" by code_simp
  moreover have "map deltaIn (round_deltas False ?ss ?db) = [850]" by code_simp
  moreover have "\<not> Option.is_none (ensureClientBindings (round_snapshots (load_states ?g (\<lambda>db. db) example_db) ?ss)
      (?db\<lparr>states := map (advanced False ?ss) (states ?db)\<rparr>))" by code_simp
  ultimately show ?thesis
    by (intro repair_lost_on_rollback [OF _ _ refl]) (auto simp: Option.is_none_def)
qed

end
