(* ===== verification/Port_Ranges.thy ===== *)
theory Port_Ranges
  imports Go_Prelude
begin

text \<open>
  Port ranges: the lenient range list that feeds nftables sets (\<open>service/nftables.go\<close>), the strict
  range list that the panel validates and stores (\<open>service/port_check.go\<close>), the bounded port-hop
  ranges of the two cores (\<open>service/singbox_port_hop.go\<close>, \<open>service/mihomo_port_hop.go\<close>) and the overlap
  summary of the forwarding rules (\<open>service/port_forward_validation.go\<close>).

  The meaning of a range list is the set \<open>ports_of\<close> of ports it covers; the lists the code
  produces are \<open>canonical\<close> (within 1..65535, ascending, with a gap between neighbours).
\<close>

section \<open>Data\<close>

text \<open>The structs \<open>portRange\<close> and \<open>portSpan\<close> have the same two fields.\<close>

datatype portRange = PortRange (rstart: int) (rend: int)

type_synonym portSpan = portRange

text \<open>
  The order of the comparison functions handed to \<open>sort.Slice\<close>: by start, then by end. It is
  total and antisymmetric, so the (unstable) sort has one possible result.
\<close>

definition range_less :: "portRange \<Rightarrow> portRange \<Rightarrow> bool" where
  "range_less a b \<longleftrightarrow> (if rstart a = rstart b then rend a < rend b else rstart a < rstart b)"

instantiation portRange :: linorder
begin

definition less_eq_portRange :: "portRange \<Rightarrow> portRange \<Rightarrow> bool" where
  "less_eq_portRange a b \<longleftrightarrow> rstart a < rstart b \<or> (rstart a = rstart b \<and> rend a \<le> rend b)"

definition less_portRange :: "portRange \<Rightarrow> portRange \<Rightarrow> bool" where
  "less_portRange = range_less"

instance
  by standard (auto simp: less_eq_portRange_def less_portRange_def range_less_def portRange.expand split: if_splits)

end

section \<open>Operations of nftables.go\<close>

fun merge_loop :: "portRange \<Rightarrow> portRange list \<Rightarrow> portRange list" where
  \<comment> \<open>\<open>last\<close> is the last element of \<open>merged\<close>, the elements before it are already emitted\<close>
  "merge_loop lst [] = [lst]"
| "merge_loop lst (cur # rs) =
     (if rstart cur \<le> rend lst + 1
      then merge_loop (if rend cur > rend lst then PortRange (rstart lst) (rend cur) else lst) rs
      else lst # merge_loop cur rs)"

definition mergePortRanges :: "portRange list \<Rightarrow> portRange list" where
  "mergePortRanges ranges = (case sort ranges of [] \<Rightarrow> [] | r # rs \<Rightarrow> merge_loop r rs)"

definition clamp_range :: "int \<Rightarrow> int \<Rightarrow> portRange option" where
  \<comment> \<open>the swap, skip and clamp steps shared by the two lenient loops\<close>
  "clamp_range s e =
     (let lo = (if s > e then e else s); hi = (if s > e then s else e)
      in if hi < 1 \<or> lo > 65535 then None
         else Some (PortRange (if lo < 1 then 1 else lo) (if hi > 65535 then 65535 else hi)))"

definition normalizeNftPortRanges :: "portRange list \<Rightarrow> portRange list" where
  "normalizeNftPortRanges ranges =
     mergePortRanges (List.map_filter (\<lambda>r. clamp_range (rstart r) (rend r)) ranges)"

definition fullwidth_comma :: string where
  "fullwidth_comma = [CHR 0xEF, CHR 0xBC, CHR 0x8C]"

definition parse_range_part :: "string \<Rightarrow> portRange option" where
  "parse_range_part part0 =
     (let part1 = trim_space part0
      in if part1 = [] then None
         else let part = replace_all part1 ''-'' '':''
              in if str_contains part '':''
                 then (case split_n2 (CHR '':'') part of
                         [a, b] \<Rightarrow>
                           (case (atoi a, atoi b) of
                              (Some s, Some e) \<Rightarrow> clamp_range s e
                            | _ \<Rightarrow> None)
                       | _ \<Rightarrow> None)
                 else (case atoi part of
                         None \<Rightarrow> None
                       | Some port \<Rightarrow>
                           if port < 1 \<or> port > 65535 then None else Some (PortRange port port)))"

definition parsePortRangeInput :: "string \<Rightarrow> portRange list" where
  "parsePortRangeInput input =
     (if input = [] then []
      else mergePortRanges
             (List.map_filter parse_range_part (split_on (CHR '','') (replace_all input fullwidth_comma '',''))))"

definition range_text :: "string \<Rightarrow> portRange \<Rightarrow> string" where
  "range_text sep r = (if rstart r = rend r then itoa (rstart r) else itoa (rstart r) @ sep @ itoa (rend r))"

definition portRangesToNft :: "portRange list \<Rightarrow> string" where
  "portRangesToNft ranges = str_join '', '' (map (range_text ''-'') ranges)"

definition normalizePortList :: "int list \<Rightarrow> int list" where
  "normalizePortList ports = sort (rev (remdups (rev (filter (\<lambda>p. 1 \<le> p \<and> p \<le> 65535) ports))))"

definition expandPortRangesToPorts :: "portRange list \<Rightarrow> int list" where
  "expandPortRangesToPorts ranges =
     normalizePortList (concat (map (\<lambda>r. [rstart r..rend r]) (normalizeNftPortRanges ranges)))"

text \<open>
  The body of the inner loop of \<open>excludePortsFromRanges\<close>; the state is \<open>curStart\<close> (-1 when no run
  is open), \<open>allowed\<close>, \<open>skipped\<close> and \<open>sample\<close>.
\<close>

type_synonym exclude_state = "int \<times> portRange list \<times> int \<times> int list"

fun exclude_step :: "(int \<Rightarrow> bool) \<Rightarrow> exclude_state \<Rightarrow> int \<Rightarrow> exclude_state" where
  "exclude_step excluded (curStart, allowed, skipped, sample) p =
     (if excluded p
      then (-1,
            if curStart \<noteq> -1 then allowed @ [PortRange curStart (p - 1)] else allowed,
            skipped + 1,
            if length sample < 5 then sample @ [p] else sample)
      else (if curStart = -1 then p else curStart, allowed, skipped, sample))"

definition exclude_range ::
  "(int \<Rightarrow> bool) \<Rightarrow> portRange list \<times> int \<times> int list \<Rightarrow> portRange \<Rightarrow> portRange list \<times> int \<times> int list" where
  "exclude_range excluded st r =
     (case foldl (exclude_step excluded) (-1, st) [rstart r..rend r] of
        (curStart, allowed, skipped, sample) \<Rightarrow>
          (if curStart \<noteq> -1 then allowed @ [PortRange curStart (rend r)] else allowed, skipped, sample))"

definition excludePortsFromRanges :: "portRange list \<Rightarrow> int list \<Rightarrow> portRange list \<times> int \<times> int list" where
  \<comment> \<open>the Go set \<open>excluded\<close> is given by the list of its elements\<close>
  "excludePortsFromRanges ranges excluded =
     (if ranges = [] then ([], 0, [])
      else if excluded = [] then (ranges, 0, [])
      else case foldl (exclude_range (\<lambda>p. p \<in> set excluded)) ([], 0, []) ranges of
             (allowed, skipped, sample) \<Rightarrow> (mergePortRanges allowed, skipped, sample))"

definition portHopRangeToNftWithExclusions :: "string \<Rightarrow> int \<Rightarrow> string \<times> int \<times> int list" where
  "portHopRangeToNftWithExclusions input listenPort =
     (let ranges = parsePortRangeInput input
      in if ranges = [] then ([], 0, [])
         else let excluded = (if listenPort > 0 \<and> listenPort \<le> 65535 then [listenPort] else [])
              in case excludePortsFromRanges ranges excluded of
                   (allowed, skipped, sample) \<Rightarrow>
                     if allowed = [] then ([], skipped, sample)
                     else (portRangesToNft allowed, skipped, sample))"

section \<open>Operations of port_check.go\<close>

datatype range_error = EmptyRange | InvalidEmptySegment | InvalidSegment string

definition validPort :: "int \<Rightarrow> bool" where
  "validPort port \<longleftrightarrow> port \<ge> 1 \<and> port \<le> 65535"

definition parse_segment :: "string \<Rightarrow> range_error + portSpan" where
  "parse_segment part =
     (let token0 = trim_space part
      in if token0 = [] then Inl InvalidEmptySegment
         else let token = replace_all token0 '' '' [];
                  hasDash = str_contains token ''-'';
                  hasColon = str_contains token '':''
              in if hasDash \<and> hasColon then Inl (InvalidSegment token)
                 else if hasDash \<or> hasColon then
                   (case split_on (if hasDash then CHR ''-'' else CHR '':'') token of
                      [a, b] \<Rightarrow>
                        (case (atoi a, atoi b) of
                           (Some s, Some e) \<Rightarrow>
                             if \<not> validPort s \<or> \<not> validPort e \<or> s > e then Inl (InvalidSegment token)
                             else Inr (PortRange s e)
                         | _ \<Rightarrow> Inl (InvalidSegment token))
                    | _ \<Rightarrow> Inl (InvalidSegment token))
                 else (case atoi token of
                         None \<Rightarrow> Inl (InvalidSegment token)
                       | Some port \<Rightarrow>
                           if \<not> validPort port then Inl (InvalidSegment token) else Inr (PortRange port port)))"

fun parse_segments :: "string list \<Rightarrow> range_error + portSpan list" where
  "parse_segments [] = Inr []"
| "parse_segments (p # ps) =
     (case parse_segment p of
        Inl e \<Rightarrow> Inl e
      | Inr r \<Rightarrow> (case parse_segments ps of Inl e \<Rightarrow> Inl e | Inr rs \<Rightarrow> Inr (r # rs)))"

definition mergePortSpans :: "portSpan list \<Rightarrow> portSpan list" where
  "mergePortSpans ranges = (case sort ranges of [] \<Rightarrow> [] | r # rs \<Rightarrow> merge_loop r rs)"

definition formatPortSpans :: "portSpan list \<Rightarrow> string" where
  "formatPortSpans ranges = str_join '','' (map (range_text '':'') ranges)"

definition parseStrictPortRanges :: "string \<Rightarrow> range_error + portSpan list \<times> string" where
  "parseStrictPortRanges input =
     (let raw = trim_space input
      in if raw = [] then Inl EmptyRange
         else case parse_segments (split_on (CHR '','') (replace_all raw fullwidth_comma '','')) of
                Inl e \<Rightarrow> Inl e
              | Inr ranges \<Rightarrow> (let merged = mergePortSpans ranges in Inr (merged, formatPortSpans merged)))"

definition collectOccupiedPorts :: "(int \<Rightarrow> bool) \<Rightarrow> portSpan list \<Rightarrow> int list" where
  "collectOccupiedPorts used ranges = concat (map (\<lambda>r. filter used [rstart r..rend r]) ranges)"

definition countPorts :: "portSpan list \<Rightarrow> int" where
  "countPorts ranges = foldl (\<lambda>total r. total + (rend r - rstart r + 1)) 0 ranges"

section \<open>Bounded port-hop ranges\<close>

datatype hop_error = RangeTooLong | BadRange range_error | TooManySegments | TooManyPorts

definition normalizeSingboxPortHopRange :: "string \<Rightarrow> hop_error + string" where
  "normalizeSingboxPortHopRange raw =
     (let input = trim_space raw
      in if input = [] then Inr []
         else if length input > 512 then Inl RangeTooLong
         else case parseStrictPortRanges input of
                Inl e \<Rightarrow> Inl (BadRange e)
              | Inr (ranges, normalized) \<Rightarrow>
                  if length ranges > 32 then Inl TooManySegments
                  else if countPorts ranges > 4096 then Inl TooManyPorts
                  else Inr (replace_all normalized '':'' ''-''))"

definition validateMihomoManagedPortRange :: "string \<Rightarrow> hop_error option" where
  "validateMihomoManagedPortRange input0 =
     (let input = trim_space input0
      in if length input > 512 then Some RangeTooLong
         else case parseStrictPortRanges input of
                Inl e \<Rightarrow> Some (BadRange e)
              | Inr (ranges, normalized) \<Rightarrow>
                  if length ranges > 32 then Some TooManySegments
                  else if countPorts ranges > 4096 then Some TooManyPorts
                  else None)"

definition normalizeMihomoPortHopRange :: "string \<Rightarrow> hop_error + string" where
  "normalizeMihomoPortHopRange raw =
     (let input = trim_space raw
      in if input = [] then Inr []
         else case validateMihomoManagedPortRange input of
                Some e \<Rightarrow> Inl e
              | None \<Rightarrow>
                  (case parseStrictPortRanges input of
                     Inl e \<Rightarrow> Inl (BadRange e)
                   | Inr (_, normalized) \<Rightarrow> Inr (replace_all normalized '':'' ''-'')))"

section \<open>Overlap of two span lists (port_forward_validation.go)\<close>

function sample_loop :: "int \<Rightarrow> int \<Rightarrow> int list \<Rightarrow> int list" where
  "sample_loop port e sample =
     (if port \<le> e \<and> length sample < 12 then sample_loop (port + 1) e (sample @ [port]) else sample)"
  by pat_completeness auto
termination
  by (relation "measure (\<lambda>(p, e, s). nat (e + 1 - p))") auto

declare sample_loop.simps [simp del]

record portForwardSpanOverlap =
  ov_count :: int
  ov_sample :: "int list"

definition overlap_step ::
  "portSpan \<Rightarrow> portForwardSpanOverlap \<Rightarrow> portSpan \<Rightarrow> portForwardSpanOverlap" where
  "overlap_step left res right =
     (let s = (if rstart right > rstart left then rstart right else rstart left);
          e = (if rend right < rend left then rend right else rend left)
      in if s > e then res
         else \<lparr>ov_count = ov_count res + (e - s + 1), ov_sample = sample_loop s e (ov_sample res)\<rparr>)"

definition summarizePortForwardSpanOverlap ::
  "portSpan list \<Rightarrow> portSpan list \<Rightarrow> portForwardSpanOverlap" where
  "summarizePortForwardSpanOverlap a b =
     foldl (\<lambda>res left. foldl (overlap_step left) res b) \<lparr>ov_count = 0, ov_sample = []\<rparr> a"

section \<open>The meaning of a range list\<close>

definition ports_of :: "portRange list \<Rightarrow> int set" where
  "ports_of rs = (\<Union>r \<in> set rs. {rstart r..rend r})"

definition range_ok :: "portRange \<Rightarrow> bool" where
  "range_ok r \<longleftrightarrow> 1 \<le> rstart r \<and> rstart r \<le> rend r \<and> rend r \<le> 65535"

fun separated :: "portRange list \<Rightarrow> bool" where
  "separated [] = True"
| "separated [r] = True"
| "separated (r # s # rs) \<longleftrightarrow> rend r + 1 < rstart s \<and> separated (s # rs)"

definition canonical :: "portRange list \<Rightarrow> bool" where
  "canonical rs \<longleftrightarrow> list_all range_ok rs \<and> separated rs"

section \<open>Merging\<close>

lemma ports_of_simps [simp]:
  "ports_of [] = {}"
  "ports_of (r # rs) = {rstart r..rend r} \<union> ports_of rs"
  by (auto simp: ports_of_def)

lemma ports_of_cong: "set a = set b \<Longrightarrow> ports_of a = ports_of b"
  by (simp add: ports_of_def)

lemma merge_loop_ports:
  "\<forall>r \<in> set rs. rstart lst \<le> rstart r \<Longrightarrow> rstart lst \<le> rend lst \<Longrightarrow> \<forall>r \<in> set rs. rstart r \<le> rend r \<Longrightarrow>
   sorted rs \<Longrightarrow> ports_of (merge_loop lst rs) = {rstart lst..rend lst} \<union> ports_of rs"
proof (induction lst rs rule: merge_loop.induct)
  case (2 lst cur rs)
  have le: "\<forall>r \<in> set rs. rstart cur \<le> rstart r"
    using "2.prems"(4) by (auto simp: less_eq_portRange_def)
  show ?case
  proof (cases "rstart cur \<le> rend lst + 1")
    case True
    let ?l = "if rend cur > rend lst then PortRange (rstart lst) (rend cur) else lst"
    have "ports_of (merge_loop ?l rs) = {rstart ?l..rend ?l} \<union> ports_of rs"
      using "2.IH"(1) [OF True] "2.prems" le by auto
    moreover have "{rstart ?l..rend ?l} = {rstart lst..rend lst} \<union> {rstart cur..rend cur}"
      using "2.prems"(1,2,3) True by auto
    ultimately show ?thesis using True by auto
  next
    case False
    with "2.IH"(2) "2.prems" le show ?thesis by auto
  qed
qed simp

lemma merge_loop_hd: "\<exists>e ms. merge_loop lst rs = PortRange (rstart lst) e # ms \<and> rend lst \<le> e"
proof (induction lst rs rule: merge_loop.induct)
  case (1 lst)
  show ?case by (cases lst) simp
next
  case (2 lst cur rs)
  show ?case
  proof (cases "rstart cur \<le> rend lst + 1")
    case True
    with "2.IH"(1) show ?thesis by (cases "rend lst < rend cur") fastforce+
  next
    case False
    then show ?thesis by (cases lst) simp
  qed
qed

lemma merge_loop_separated: "separated (merge_loop lst rs)"
proof (induction lst rs rule: merge_loop.induct)
  case (2 lst cur rs)
  obtain e ms where hd: "merge_loop cur rs = PortRange (rstart cur) e # ms"
    using merge_loop_hd [of cur rs] by auto
  show ?case
    using 2 hd by (cases "rstart cur \<le> rend lst + 1") auto
qed simp

lemma merge_loop_ok:
  "range_ok lst \<Longrightarrow> list_all range_ok rs \<Longrightarrow> list_all range_ok (merge_loop lst rs)"
  by (induction lst rs rule: merge_loop.induct) (auto simp: range_ok_def)

lemma mergePortSpans_eq: "mergePortSpans = mergePortRanges"
  by (simp add: fun_eq_iff mergePortSpans_def mergePortRanges_def)

lemma merge_ports:
  assumes "\<forall>r \<in> set rs. rstart r \<le> rend r"
  shows "ports_of (mergePortRanges rs) = ports_of rs"
proof (cases "sort rs")
  case Nil
  then have "rs = []" by (metis length_0_conv length_sort)
  then show ?thesis by (simp add: mergePortRanges_def)
next
  case (Cons r qs)
  have set: "set (r # qs) = set rs" by (metis Cons set_sort)
  have "sorted (r # qs)" by (metis Cons sorted_sort)
  then have "ports_of (merge_loop r qs) = ports_of (r # qs)"
    using assms set by (subst merge_loop_ports) (auto simp: less_eq_portRange_def)
  with Cons set ports_of_cong [OF set] show ?thesis
    by (simp add: mergePortRanges_def)
qed

lemma merge_canonical:
  assumes "list_all range_ok rs"
  shows "canonical (mergePortRanges rs)"
proof (cases "sort rs")
  case Nil
  then show ?thesis by (simp add: mergePortRanges_def canonical_def)
next
  case (Cons r qs)
  have "set (r # qs) = set rs" by (metis Cons set_sort)
  with assms have "list_all range_ok (r # qs)" by (simp add: list_all_iff)
  with Cons show ?thesis
    by (simp add: mergePortRanges_def canonical_def merge_loop_separated merge_loop_ok)
qed

lemma separated_lower:
  "separated (r # rs) \<Longrightarrow> list_all range_ok (r # rs) \<Longrightarrow> q \<in> set rs \<Longrightarrow> rend r + 1 < rstart q"
proof (induction rs arbitrary: r)
  case (Cons s rs)
  show ?case
  proof (cases "q = s")
    case False
    with Cons have "rend s + 1 < rstart q" by simp
    with Cons.prems show ?thesis by (auto simp: range_ok_def)
  qed (use Cons.prems in simp)
qed simp

lemma canonical_Cons:
  "canonical (r # rs) \<longleftrightarrow> range_ok r \<and> (\<forall>q \<in> set rs. rend r + 1 < rstart q) \<and> canonical rs"
proof
  assume "canonical (r # rs)"
  then show "range_ok r \<and> (\<forall>q \<in> set rs. rend r + 1 < rstart q) \<and> canonical rs"
    using separated_lower [of r rs] by (cases rs) (auto simp: canonical_def)
next
  assume "range_ok r \<and> (\<forall>q \<in> set rs. rend r + 1 < rstart q) \<and> canonical rs"
  then show "canonical (r # rs)" by (cases rs) (auto simp: canonical_def)
qed

lemma canonical_Nil [simp]: "canonical []"
  by (simp add: canonical_def)

lemma canonical_sorted: "canonical rs \<Longrightarrow> sorted rs"
proof (induction rs)
  case (Cons r rs)
  then have "\<forall>q \<in> set rs. r \<le> q"
    by (auto simp: canonical_Cons less_eq_portRange_def range_ok_def)
  with Cons show ?case by (simp add: canonical_Cons)
qed simp

lemma merge_loop_id: "canonical (r # rs) \<Longrightarrow> merge_loop r rs = r # rs"
  by (induction rs arbitrary: r) (auto simp: canonical_Cons)

lemma merge_id: "canonical rs \<Longrightarrow> mergePortRanges rs = rs"
proof -
  assume c: "canonical rs"
  then have "sort rs = rs" by (simp add: canonical_sorted sorted_sort_id)
  with c show ?thesis
    by (cases rs) (simp_all add: mergePortRanges_def merge_loop_id del: sort_key_simps)
qed

text \<open>Two canonical lists that cover the same ports are equal.\<close>

lemma canonical_bounds: "canonical rs \<Longrightarrow> x \<in> ports_of rs \<Longrightarrow> 1 \<le> x \<and> x \<le> 65535"
  by (auto simp: canonical_def ports_of_def list_all_iff range_ok_def)

lemma canonical_first_end:
  assumes "canonical (r # rs)"
  shows "rend r + 1 \<notin> ports_of (r # rs)" and "{rstart r..rend r} \<subseteq> ports_of (r # rs)"
    and "x \<in> ports_of (r # rs) \<Longrightarrow> rstart r \<le> x"
  using assms by (fastforce simp: canonical_Cons ports_of_def range_ok_def)+

lemma canonical_hd_eq:
  assumes a: "canonical (r # rs)" and b: "canonical (q # qs)" and eq: "ports_of (r # rs) = ports_of (q # qs)"
  shows "r = q"
proof -
  have r: "rstart r \<le> rend r" and q: "rstart q \<le> rend q"
    using a b by (auto simp: canonical_Cons range_ok_def)
  have "rstart r \<in> ports_of (q # qs)" "rstart q \<in> ports_of (r # rs)"
    using r q eq canonical_first_end(2) [OF a] canonical_first_end(2) [OF b] by auto
  then have s: "rstart r = rstart q"
    using canonical_first_end(3) [OF a] canonical_first_end(3) [OF b] eq by (metis order_antisym)
  have "\<not> rend r < rend q"
  proof
    assume "rend r < rend q"
    then have "rend r + 1 \<in> {rstart q..rend q}" using r s by auto
    then show False using canonical_first_end(1) [OF a] canonical_first_end(2) [OF b] eq by blast
  qed
  moreover have "\<not> rend q < rend r"
  proof
    assume "rend q < rend r"
    then have "rend q + 1 \<in> {rstart r..rend r}" using q s by auto
    then show False using canonical_first_end(1) [OF b] canonical_first_end(2) [OF a] eq by blast
  qed
  ultimately show ?thesis using s by (simp add: portRange.expand)
qed

lemma canonical_tl_ports:
  "canonical (r # rs) \<Longrightarrow> ports_of rs = ports_of (r # rs) - {rstart r..rend r}"
  by (fastforce simp: canonical_Cons ports_of_def)

lemma ports_of_nonempty: "canonical (r # rs) \<Longrightarrow> ports_of (r # rs) \<noteq> {}"
  by (auto simp: canonical_Cons range_ok_def)

lemma canonical_unique:
  "canonical a \<Longrightarrow> canonical b \<Longrightarrow> ports_of a = ports_of b \<Longrightarrow> a = b"
proof (induction a arbitrary: b)
  case Nil
  then show ?case using ports_of_nonempty by (cases b) auto
next
  case (Cons r rs)
  show ?case
  proof (cases b)
    case Nil
    with Cons.prems ports_of_nonempty show ?thesis by auto
  next
    case (Cons q qs)
    with Cons.prems have "r = q" using canonical_hd_eq by simp
    with Cons.prems Cons have "ports_of rs = ports_of qs"
      using canonical_tl_ports by metis
    with Cons.IH Cons.prems Cons \<open>r = q\<close> show ?thesis by (simp add: canonical_Cons)
  qed
qed

section \<open>Clamping and the lenient parser\<close>

lemma set_map_filter: "set (List.map_filter f xs) = {y. \<exists>x \<in> set xs. f x = Some y}"
  by (induction xs) (auto simp: List.map_filter_simps split: option.splits)

lemma clamp_range_Some:
  assumes "clamp_range s e = Some r"
  shows "range_ok r" and "{rstart r..rend r} = {min s e..max s e} \<inter> {1..65535}"
  using assms by (auto simp: clamp_range_def Let_def range_ok_def split: if_splits)

lemma clamp_range_None: "clamp_range s e = None \<Longrightarrow> {min s e..max s e} \<inter> {1..65535} = {}"
  by (auto simp: clamp_range_def Let_def split: if_splits)

lemma clamp_range_ports:
  "(case clamp_range s e of None \<Rightarrow> {} | Some r \<Rightarrow> {rstart r..rend r}) = {min s e..max s e} \<inter> {1..65535}"
  using clamp_range_Some(2) clamp_range_None by (cases "clamp_range s e") auto

lemma ports_of_map_filter:
  "ports_of (List.map_filter f xs) = (\<Union>x \<in> set xs. case f x of None \<Rightarrow> {} | Some r \<Rightarrow> {rstart r..rend r})"
  by (auto simp: ports_of_def set_map_filter split: option.splits) fastforce

lemma normalize_ports:
  "ports_of (normalizeNftPortRanges rs)
     = (\<Union>r \<in> set rs. {min (rstart r) (rend r)..max (rstart r) (rend r)}) \<inter> {1..65535}"
proof -
  let ?f = "\<lambda>r. clamp_range (rstart r) (rend r)"
  have "\<forall>r \<in> set (List.map_filter ?f rs). rstart r \<le> rend r"
    using clamp_range_Some(1) by (fastforce simp: set_map_filter range_ok_def)
  then have "ports_of (normalizeNftPortRanges rs) = ports_of (List.map_filter ?f rs)"
    by (simp add: normalizeNftPortRanges_def merge_ports)
  also have "\<dots> = (\<Union>r \<in> set rs. {min (rstart r) (rend r)..max (rstart r) (rend r)} \<inter> {1..65535})"
    by (simp add: ports_of_map_filter clamp_range_ports)
  finally show ?thesis by auto
qed

lemma normalize_canonical: "canonical (normalizeNftPortRanges rs)"
  using clamp_range_Some(1)
  by (auto simp: normalizeNftPortRanges_def set_map_filter list_all_iff intro!: merge_canonical)

lemma parse_range_part_ok: "parse_range_part s = Some r \<Longrightarrow> range_ok r"
  by (auto simp: parse_range_part_def Let_def range_ok_def
      dest!: clamp_range_Some(1) split: if_splits option.splits list.splits)

lemma lenient_canonical: "canonical (parsePortRangeInput input)"
  using parse_range_part_ok
  by (auto simp: parsePortRangeInput_def set_map_filter list_all_iff intro!: merge_canonical)

lemma parse_segment_ok: "parse_segment s = Inr r \<Longrightarrow> range_ok r"
  by (auto simp: parse_segment_def Let_def range_ok_def validPort_def
      split: if_splits option.splits list.splits)

lemma parse_segments_ok: "parse_segments ps = Inr rs \<Longrightarrow> list_all range_ok rs"
  by (induction ps arbitrary: rs) (auto split: sum.splits dest: parse_segment_ok)

lemma parse_segments_nonempty: "parse_segments ps = Inr rs \<Longrightarrow> ps \<noteq> [] \<Longrightarrow> rs \<noteq> []"
  by (cases ps) (auto split: sum.splits)

lemma strict_canonical: "parseStrictPortRanges s = Inr (rs, t) \<Longrightarrow> canonical rs \<and> t = formatPortSpans rs"
  by (auto simp: parseStrictPortRanges_def Let_def mergePortSpans_eq
      split: if_splits sum.splits intro!: merge_canonical parse_segments_ok)

lemma mergePortRanges_nonempty: "rs \<noteq> [] \<Longrightarrow> mergePortRanges rs \<noteq> []"
proof -
  assume "rs \<noteq> []"
  then obtain r qs where "sort rs = r # qs"
    by (metis length_0_conv length_sort list.exhaust)
  then show ?thesis
    using merge_loop_hd [of r qs] by (auto simp: mergePortRanges_def)
qed

lemma strict_nonempty: "parseStrictPortRanges s = Inr (rs, t) \<Longrightarrow> rs \<noteq> []"
proof -
  assume "parseStrictPortRanges s = Inr (rs, t)"
  then obtain qs where "parse_segments (split_on (CHR '','') (replace_all (trim_space s) fullwidth_comma '','')) = Inr qs"
    and "rs = mergePortRanges qs"
    by (auto simp: parseStrictPortRanges_def Let_def mergePortSpans_eq split: if_splits sum.splits)
  then show ?thesis
    using parse_segments_nonempty mergePortRanges_nonempty split_on_nonempty by metis
qed

section \<open>Counting and occupancy\<close>

lemma canonical_disjoint_tl: "canonical (r # rs) \<Longrightarrow> {rstart r..rend r} \<inter> ports_of rs = {}"
  by (fastforce simp: canonical_Cons ports_of_def)

lemma finite_ports_of [simp]: "finite (ports_of rs)"
  by (simp add: ports_of_def)

lemma foldl_plus_sum: "foldl (\<lambda>total r. total + f r) (k :: int) rs = k + sum_list (map f rs)"
  by (induction rs arbitrary: k) auto

lemma countPorts_Cons: "countPorts (r # rs) = rend r - rstart r + 1 + countPorts rs"
  by (simp add: countPorts_def foldl_plus_sum)

lemma countPorts_Nil [simp]: "countPorts [] = 0"
  by (simp add: countPorts_def)

lemma countPorts_card: "canonical rs \<Longrightarrow> countPorts rs = int (card (ports_of rs))"
proof (induction rs)
  case (Cons r rs)
  have "card ({rstart r..rend r} \<union> ports_of rs) = card {rstart r..rend r} + card (ports_of rs)"
    using canonical_disjoint_tl [OF Cons.prems] by (intro card_Un_disjoint) auto
  with Cons show ?case by (auto simp: countPorts_Cons canonical_Cons range_ok_def)
qed simp

lemma occupied_set: "set (collectOccupiedPorts used rs) = {p \<in> ports_of rs. used p}"
  by (auto simp: collectOccupiedPorts_def ports_of_def)

lemma sorted_wrt_upto: "sorted_wrt (<) [i..j :: int]"
proof (induction i j rule: upto.induct)
  case (1 i j)
  then show ?case by (subst upto.simps) auto
qed

lemma occupied_sorted: "canonical rs \<Longrightarrow> sorted_wrt (<) (collectOccupiedPorts used rs)"
proof (induction rs)
  case (Cons r rs)
  then have IH: "sorted_wrt (<) (collectOccupiedPorts used rs)"
    and lo: "\<forall>q \<in> set rs. rend r + 1 < rstart q" by (simp_all add: canonical_Cons)
  have eq: "collectOccupiedPorts used (r # rs) = filter used [rstart r..rend r] @ collectOccupiedPorts used rs"
    by (simp add: collectOccupiedPorts_def)
  have "x < y" if "x \<in> set (filter used [rstart r..rend r])" "y \<in> set (collectOccupiedPorts used rs)" for x y
    using that lo by (fastforce simp: occupied_set ports_of_def)
  with IH show ?case
    by (auto simp: eq sorted_wrt_append intro: sorted_wrt_filter sorted_wrt_upto)
qed (simp add: collectOccupiedPorts_def)

text \<open>
  What a client of a canonical range list may rely on, whichever of the three producers made it.
\<close>

locale range_source =
  fixes produce :: "'a \<Rightarrow> portRange list"
  assumes produce_canonical: "canonical (produce x)"
begin

lemma produce_count: "countPorts (produce x) = int (card (ports_of (produce x)))"
  by (rule countPorts_card [OF produce_canonical])

lemma produce_occupied: "sorted_wrt (<) (collectOccupiedPorts used (produce x))"
  by (rule occupied_sorted [OF produce_canonical])

lemma produce_stable: "mergePortRanges (produce x) = produce x"
  by (rule merge_id [OF produce_canonical])

lemma produce_unique: "ports_of (produce x) = ports_of (produce y) \<Longrightarrow> produce x = produce y"
  by (rule canonical_unique [OF produce_canonical produce_canonical])

end

definition strict_ranges :: "string \<Rightarrow> portRange list" where
  "strict_ranges s = (case parseStrictPortRanges s of Inl _ \<Rightarrow> [] | Inr (rs, _) \<Rightarrow> rs)"

interpretation nft: range_source normalizeNftPortRanges
  by unfold_locales (rule normalize_canonical)

interpretation lenient: range_source parsePortRangeInput
  by unfold_locales (rule lenient_canonical)

interpretation strict: range_source strict_ranges
  by unfold_locales (auto simp: strict_ranges_def split: sum.splits dest: strict_canonical)

section \<open>Excluding ports\<close>

definition pending :: "int \<Rightarrow> int \<Rightarrow> int set" where
  \<comment> \<open>the ports of the open run that starts at \<open>curStart\<close>\<close>
  "pending c e = (if c = -1 then {} else {c..e})"

definition exclude_inv ::
  "(int \<Rightarrow> bool) \<Rightarrow> portRange list \<times> int \<times> int list \<Rightarrow> int \<Rightarrow> int \<Rightarrow> exclude_state \<Rightarrow> bool" where
  "exclude_inv excl st0 p e st \<longleftrightarrow>
     (case (st0, st) of ((al, sk, sm), (c', al', sk', sm')) \<Rightarrow>
        sk' = sk + int (length (filter excl [p..e])) \<and>
        sm' = take 5 (sm @ filter excl [p..e]) \<and>
        ports_of al' \<union> pending c' e = ports_of al \<union> {x \<in> {p..e}. \<not> excl x} \<and>
        (c' = -1 \<or> (p \<le> c' \<and> c' \<le> e)) \<and> list_all range_ok al')"

lemma ports_of_append [simp]: "ports_of (a @ b) = ports_of a \<union> ports_of b"
  by (auto simp: ports_of_def)

lemma upto_snoc: "p - 1 \<le> e \<Longrightarrow> [p..e + 1] = [p..e] @ [e + 1 :: int]"
  by (simp add: upto_rec2)

lemma set_upto_snoc: "p - 1 \<le> e \<Longrightarrow> {x \<in> {p..e + 1}. P x} = {x \<in> {p..e}. P x} \<union> (if P (e + 1) then {e + 1 :: int} else {})"
  by (auto simp: le_less)

lemma take_take_append: "take n (take n a @ b) = take n (a @ b)"
  by (cases "length a \<le> n") auto

lemma take_snoc_sample:
  "(if length (take n xs) < n then take n xs @ [q] else take n xs) = take n (xs @ [q])"
  by (cases "length xs < n") auto

lemma exclude_inv_step:
  assumes inv: "exclude_inv excl (al, sk, sm) p e st" and p: "1 \<le> p" "p - 1 \<le> e" "e < 65535"
  shows "exclude_inv excl (al, sk, sm) p (e + 1) (exclude_step excl st (e + 1))"
proof -
  obtain c' al' sk' sm' where st: "st = (c', al', sk', sm')" by (cases st)
  from inv st have P: "ports_of al' \<union> pending c' e = ports_of al \<union> {x \<in> {p..e}. \<not> excl x}"
    and C: "c' = -1 \<or> (p \<le> c' \<and> c' \<le> e)" and ok: "list_all range_ok al'"
    and sk: "sk' = sk + int (length (filter excl [p..e]))" and sm: "sm' = take 5 (sm @ filter excl [p..e])"
    by (simp_all add: exclude_inv_def)
  show ?thesis
  proof (cases "excl (e + 1)")
    case True
    have "ports_of (if c' \<noteq> -1 then al' @ [PortRange c' e] else al') = ports_of al' \<union> pending c' e"
      by (auto simp: pending_def)
    moreover have "list_all range_ok (if c' \<noteq> -1 then al' @ [PortRange c' e] else al')"
      using C ok p by (auto simp: range_ok_def)
    moreover have "{x \<in> {p..e + 1}. \<not> excl x} = {x \<in> {p..e}. \<not> excl x}"
      using set_upto_snoc [OF p(2), of "\<lambda>x. \<not> excl x"] True by simp
    moreover have "(if length sm' < 5 then sm' @ [e + 1] else sm') = take 5 (sm @ filter excl [p..e + 1])"
      using take_snoc_sample [of 5 "sm @ filter excl [p..e]" "e + 1"] True sm p(2) by (simp add: upto_snoc)
    moreover have "filter excl [p..e + 1] = filter excl [p..e] @ [e + 1]"
      using True p(2) by (simp add: upto_snoc)
    ultimately show ?thesis
      using True P sk by (simp add: st exclude_inv_def pending_def split: if_splits)
  next
    case False
    have "pending (if c' = -1 then e + 1 else c') (e + 1) = pending c' e \<union> {e + 1}"
      using C p by (auto simp: pending_def)
    moreover have "{x \<in> {p..e + 1}. \<not> excl x} = {x \<in> {p..e}. \<not> excl x} \<union> {e + 1}"
      using set_upto_snoc [OF p(2), of "\<lambda>x. \<not> excl x"] False by simp
    ultimately have "ports_of al' \<union> pending (if c' = -1 then e + 1 else c') (e + 1)
                 = ports_of al \<union> {x \<in> {p..e + 1}. \<not> excl x}"
      using P by (simp only: Un_assoc [symmetric])
    then show ?thesis
      using False C ok sk sm p by (auto simp: st exclude_inv_def upto_snoc)
  qed
qed

lemma exclude_inv_loop:
  assumes "1 \<le> p" "list_all range_ok al" "length sm \<le> 5" and e: "p - 1 \<le> e" "e \<le> 65535"
  shows "exclude_inv excl (al, sk, sm) p e (foldl (exclude_step excl) (-1, al, sk, sm) [p..e])"
  using e
proof (induction e rule: int_ge_induct)
  case base
  then show ?case using assms(2,3) by (simp add: exclude_inv_def pending_def)
next
  case (step e)
  then have "exclude_inv excl (al, sk, sm) p e (foldl (exclude_step excl) (-1, al, sk, sm) [p..e])" by simp
  from exclude_inv_step [OF this] step assms(1) show ?case by (simp add: upto_snoc)
qed

definition excluded_ports :: "(int \<Rightarrow> bool) \<Rightarrow> portRange list \<Rightarrow> int list" where
  "excluded_ports excl rs = concat (map (\<lambda>r. filter excl [rstart r..rend r]) rs)"

lemma exclude_range_spec:
  assumes "range_ok r" "list_all range_ok al" "length sm \<le> 5" "exclude_range excl (al, sk, sm) r = (al', sk', sm')"
  shows "sk' = sk + int (length (excluded_ports excl [r]))"
    and "sm' = take 5 (sm @ excluded_ports excl [r])"
    and "ports_of al' = ports_of al \<union> {x \<in> {rstart r..rend r}. \<not> excl x}" and "list_all range_ok al'"
proof -
  have ok: "1 \<le> rstart r" "rstart r - 1 \<le> rend r" "rend r \<le> 65535"
    using assms(1) by (auto simp: range_ok_def)
  obtain c2 al2 sk2 sm2 where st: "foldl (exclude_step excl) (-1, al, sk, sm) [rstart r..rend r] = (c2, al2, sk2, sm2)"
    by (cases "foldl (exclude_step excl) (-1, al, sk, sm) [rstart r..rend r]")
  have inv: "exclude_inv excl (al, sk, sm) (rstart r) (rend r) (c2, al2, sk2, sm2)"
    using exclude_inv_loop [OF ok(1) assms(2,3) ok(2,3), of excl sk] st by simp
  have al': "al' = (if c2 \<noteq> -1 then al2 @ [PortRange c2 (rend r)] else al2)" "sk' = sk2" "sm' = sm2"
    using assms(4) st by (auto simp: exclude_range_def)
  show "sk' = sk + int (length (excluded_ports excl [r]))" "sm' = take 5 (sm @ excluded_ports excl [r])"
    using inv al' by (simp_all add: exclude_inv_def excluded_ports_def)
  have "ports_of al' = ports_of al2 \<union> pending c2 (rend r)"
    by (auto simp: al' pending_def)
  then show "ports_of al' = ports_of al \<union> {x \<in> {rstart r..rend r}. \<not> excl x}"
    using inv by (simp add: exclude_inv_def)
  show "list_all range_ok al'"
    using inv ok by (auto simp: al' exclude_inv_def range_ok_def)
qed

lemma exclude_ranges_spec:
  assumes "list_all range_ok rs" "list_all range_ok al" "length sm \<le> 5"
    "foldl (exclude_range excl) (al, sk, sm) rs = (al', sk', sm')"
  shows "sk' = sk + int (length (excluded_ports excl rs)) \<and> sm' = take 5 (sm @ excluded_ports excl rs) \<and>
         ports_of al' = ports_of al \<union> {x \<in> ports_of rs. \<not> excl x} \<and> list_all range_ok al'"
  using assms
proof (induction rs arbitrary: al sk sm)
  case Nil
  then show ?case by (simp add: excluded_ports_def)
next
  case (Cons r rs)
  obtain al2 sk2 sm2 where r: "exclude_range excl (al, sk, sm) r = (al2, sk2, sm2)"
    by (cases "exclude_range excl (al, sk, sm) r")
  note one = exclude_range_spec [OF _ Cons.prems(2,3) r]
  have okr: "range_ok r" using Cons.prems(1) by simp
  have "length sm2 \<le> 5" using one(2) [OF okr] by simp
  with Cons.IH [of al2 sm2 sk2] Cons.prems r one(4) [OF okr]
  have "sk' = sk2 + int (length (excluded_ports excl rs)) \<and> sm' = take 5 (sm2 @ excluded_ports excl rs) \<and>
         ports_of al' = ports_of al2 \<union> {x \<in> ports_of rs. \<not> excl x} \<and> list_all range_ok al'" by simp
  moreover have "excluded_ports excl (r # rs) = excluded_ports excl [r] @ excluded_ports excl rs"
    by (simp add: excluded_ports_def)
  ultimately show ?case
    using one(1-3) [OF okr] take_take_append [of 5 "sm @ excluded_ports excl [r]" "excluded_ports excl rs"]
    by auto
qed

section \<open>Overlap of canonical span lists\<close>

lemma sample_loop_eq: "length s \<le> 12 \<Longrightarrow> sample_loop p e s = take 12 (s @ [p..e])"
proof (induction p e s rule: sample_loop.induct)
  case (1 p e s)
  show ?case
  proof (cases "p \<le> e \<and> length s < 12")
    case True
    with 1 have "sample_loop (p + 1) e (s @ [p]) = take 12 ((s @ [p]) @ [p + 1..e])" by simp
    with True show ?thesis
      by (simp only: sample_loop.simps [of p e s] upto_rec1 [of p e]) simp
  next
    case False
    then show ?thesis using 1(2) by (subst sample_loop.simps) auto
  qed
qed

lemma overlap_step_eq:
  assumes "length (ov_sample res) \<le> 12"
  shows "ov_count (overlap_step l res r) = ov_count res + int (card ({rstart l..rend l} \<inter> {rstart r..rend r}))"
    and "ov_sample (overlap_step l res r)
           = take 12 (ov_sample res @ [max (rstart l) (rstart r)..min (rend l) (rend r)])"
  using assms by (auto simp: overlap_step_def Let_def sample_loop_eq max_def min_def)

definition overlap_list :: "portSpan \<Rightarrow> portSpan list \<Rightarrow> int list" where
  "overlap_list l b = concat (map (\<lambda>r. [max (rstart l) (rstart r)..min (rend l) (rend r)]) b)"

lemma overlap_inner:
  assumes "canonical b" "length (ov_sample res) \<le> 12"
  shows "ov_count (foldl (overlap_step l) res b) = ov_count res + int (card ({rstart l..rend l} \<inter> ports_of b))"
    and "ov_sample (foldl (overlap_step l) res b) = take 12 (ov_sample res @ overlap_list l b)"
  using assms
proof (induction b arbitrary: res)
  case Nil
  { case 1 then show ?case by simp }
  { case 2 then show ?case by (simp add: overlap_list_def) }
next
  case (Cons r b)
  have len: "length (ov_sample (overlap_step l res r)) \<le> 12" if "length (ov_sample res) \<le> 12" for res
    using overlap_step_eq(2) [OF that, of l r] by (simp del: take_append)
  { case 1
    have "card ({rstart l..rend l} \<inter> ports_of (r # b))
            = card ({rstart l..rend l} \<inter> {rstart r..rend r}) + card ({rstart l..rend l} \<inter> ports_of b)"
      using canonical_disjoint_tl [OF "1"(1)]
      by (subst card_Un_disjoint [symmetric]) (auto simp: Int_Un_distrib simp del: Int_atLeastAtMost)
    moreover have "ov_count (foldl (overlap_step l) (overlap_step l res r) b)
        = ov_count (overlap_step l res r) + int (card ({rstart l..rend l} \<inter> ports_of b))"
      using 1 by (intro Cons(1) len) (simp_all add: canonical_Cons)
    ultimately show ?case
      using 1(2) by (simp add: overlap_step_eq(1) del: Int_atLeastAtMost card_atLeastAtMost_int) }
  { case 2
    have "overlap_list l (r # b) = [max (rstart l) (rstart r)..min (rend l) (rend r)] @ overlap_list l b"
      by (simp add: overlap_list_def)
    with 2 Cons(2) [of "overlap_step l res r"] len show ?case
      by (simp add: canonical_Cons overlap_step_eq(2) take_take_append del: take_append) }
qed

lemma overlap_outer:
  assumes "canonical a" "canonical b" "length (ov_sample res) \<le> 12"
  shows "ov_count (foldl (\<lambda>res l. foldl (overlap_step l) res b) res a)
           = ov_count res + int (card (ports_of a \<inter> ports_of b))
         \<and> length (ov_sample (foldl (\<lambda>res l. foldl (overlap_step l) res b) res a)) \<le> 12"
  using assms
proof (induction a arbitrary: res)
  case (Cons l a)
  let ?res = "foldl (overlap_step l) res b"
  have len: "length (ov_sample ?res) \<le> 12"
    using overlap_inner(2) [OF Cons.prems(2,3)] by simp
  have "card (ports_of (l # a) \<inter> ports_of b) = card ({rstart l..rend l} \<inter> ports_of b) + card (ports_of a \<inter> ports_of b)"
    using canonical_disjoint_tl [OF Cons.prems(1)]
    by (subst card_Un_disjoint [symmetric]) (auto simp: Int_Un_distrib2)
  with Cons.IH [of ?res] Cons.prems len overlap_inner(1) [OF Cons.prems(2,3), of l] show ?case
    by (simp add: canonical_Cons)
qed simp

section \<open>Printing and parsing back\<close>

lemma itoa_ends: "0 \<le> x \<Longrightarrow> is_digit (hd (itoa x)) \<and> is_digit (last (itoa x))"
  using itoa_nonneg_digits [of x] by simp

lemma range_text_chars:
  assumes "range_ok r" "x \<in> set (range_text [c] r)"
  shows "is_digit x \<or> x = c"
  using assms itoa_nonneg_digits [of "rstart r"] itoa_nonneg_digits [of "rend r"]
  by (auto simp: range_text_def range_ok_def split: if_splits)

lemma range_text_ends:
  "range_ok r \<Longrightarrow> range_text [c] r \<noteq> [] \<and> is_digit (hd (range_text [c] r)) \<and> is_digit (last (range_text [c] r))"
  using itoa_ends [of "rstart r"] itoa_ends [of "rend r"] by (auto simp: range_text_def range_ok_def)

lemma parse_segment_range_text:
  assumes ok: "range_ok r" and c: "c = CHR ''-'' \<or> c = CHR '':''"
  shows "parse_segment (range_text [c] r) = Inr r"
proof -
  let ?t = "range_text [c] r"
  have ends: "?t \<noteq> []" "plain_char (hd ?t)" "plain_char (last ?t)"
    using range_text_ends [OF ok] digit_not_other(7) by auto
  have nospace: "replace_all ?t '' '' [] = ?t"
    using range_text_chars [OF ok] c digit_not_other(5) by (intro replace_all_absent) fastforce
  have bounds: "0 \<le> rstart r" "0 \<le> rend r" "in_int64 (rstart r)" "in_int64 (rend r)"
    "validPort (rstart r)" "validPort (rend r)" "rstart r \<le> rend r"
    using ok by (auto simp: range_ok_def int64_defs validPort_def)
  have d: "x \<notin> set (itoa (rstart r)) \<and> x \<notin> set (itoa (rend r))" if "x = CHR ''-'' \<or> x = CHR '':''" for x
    using that itoa_nonneg_digits bounds(1,2) digit_not_other(1,3) by metis
  show ?thesis
  proof (cases "rstart r = rend r")
    case True
    then have "?t = itoa (rstart r)" by (simp add: range_text_def)
    then show ?thesis
      using ends nospace bounds d True
      by (simp add: parse_segment_def atoi_itoa portRange.expand)
  next
    case False
    then have t: "?t = itoa (rstart r) @ c # itoa (rend r)" by (simp add: range_text_def)
    then have "split_on c ?t = [itoa (rstart r), itoa (rend r)]"
      using d [of c] c by (simp add: split_on_append split_on_no_sep)
    moreover have "CHR ''-'' \<in> set ?t \<longleftrightarrow> c = CHR ''-''" "CHR '':'' \<in> set ?t \<longleftrightarrow> c = CHR '':''"
      using t d [of "CHR ''-''"] d [of "CHR '':''"] by auto
    ultimately show ?thesis
      using c ends nospace bounds by (auto simp: parse_segment_def atoi_itoa portRange.expand)
  qed
qed

lemma parse_segments_range_text:
  "list_all range_ok rs \<Longrightarrow> c = CHR ''-'' \<or> c = CHR '':'' \<Longrightarrow> parse_segments (map (range_text [c]) rs) = Inr rs"
  by (induction rs) (auto simp: parse_segment_range_text)

lemma str_join_set: "set (str_join sep ws) \<subseteq> set sep \<union> (\<Union>w \<in> set ws. set w)"
  by (induction sep ws rule: str_join.induct) auto

lemma range_texts_chars:
  assumes "list_all range_ok rs" "x \<in> set (str_join '','' (map (range_text [c]) rs))"
  shows "is_digit x \<or> x = c \<or> x = CHR '',''"
proof -
  have "x = CHR '','' \<or> (\<exists>r \<in> set rs. x \<in> set (range_text [c] r))"
    using assms(2) str_join_set [of "'',''" "map (range_text [c]) rs"] by auto
  then show ?thesis
    using assms(1) range_text_chars by (auto simp: list_all_iff)
qed

lemma range_texts_trim:
  assumes "list_all range_ok rs" "rs \<noteq> []"
  shows "str_join '','' (map (range_text [c]) rs) \<noteq> []"
    and "trim_space (str_join '','' (map (range_text [c]) rs)) = str_join '','' (map (range_text [c]) rs)"
proof -
  let ?t = "str_join '','' (map (range_text [c]) rs)"
  have ne: "\<forall>w \<in> set (map (range_text [c]) rs). w \<noteq> []"
    using assms(1) range_text_ends by (auto simp: list_all_iff)
  have hd: "range_ok (hd rs)" "range_ok (last rs)"
    using assms by (auto simp: list_all_iff)
  have t: "?t \<noteq> [] \<and> hd ?t = hd (hd (map (range_text [c]) rs)) \<and> last ?t = last (last (map (range_text [c]) rs))"
    using ne assms(2) by (intro str_join_ends) auto
  then have "hd ?t = hd (range_text [c] (hd rs))" "last ?t = last (range_text [c] (last rs))"
    using assms(2) by (simp_all add: hd_map last_map)
  then have "plain_char (hd ?t)" "plain_char (last ?t)"
    using range_text_ends [OF hd(1)] range_text_ends [OF hd(2)] digit_not_other(7) by simp_all
  then show "trim_space ?t = ?t" by simp
  show "?t \<noteq> []" using t by simp
qed

lemma parse_printed:
  assumes ok: "list_all range_ok rs" and ne: "rs \<noteq> []" and c: "c = CHR ''-'' \<or> c = CHR '':''"
  shows "parseStrictPortRanges (str_join '','' (map (range_text [c]) rs)) = Inr (mergePortRanges rs, formatPortSpans (mergePortRanges rs))"
proof -
  let ?t = "str_join '','' (map (range_text [c]) rs)"
  have "CHR 0xEF \<notin> set ?t"
    using range_texts_chars [OF ok, of "CHR 0xEF" c] c digit_not_other(6) by auto
  then have rep: "replace_all ?t fullwidth_comma '','' = ?t"
    by (intro replace_all_absent) (simp add: fullwidth_comma_def)
  have "CHR '','' \<notin> set (range_text [c] r)" if "r \<in> set rs" for r
    using range_text_chars [of r "CHR '',''" c] that ok c digit_not_other(4) by (auto simp: list_all_iff)
  then have "split_on (CHR '','') ?t = map (range_text [c]) rs"
    using ne by (intro split_on_join) auto
  then show ?thesis
    using range_texts_trim [OF ok ne] rep parse_segments_range_text [OF ok c]
    by (simp add: parseStrictPortRanges_def mergePortSpans_eq Let_def)
qed

lemma parse_strict_text:
  assumes can: "canonical rs" and ne: "rs \<noteq> []" and c: "c = CHR ''-'' \<or> c = CHR '':''"
  shows "parseStrictPortRanges (str_join '','' (map (range_text [c]) rs)) = Inr (rs, formatPortSpans rs)"
  using parse_printed [OF _ ne c] can by (simp add: canonical_def merge_id)

lemma replace_colon_range_text:
  assumes "range_ok r"
  shows "replace_all (range_text '':'' r) '':'' ''-'' = range_text ''-'' r"
proof -
  have "map (\<lambda>c. if c = CHR '':'' then CHR ''-'' else c) (itoa x) = itoa x" if "0 \<le> x" for x
    using itoa_nonneg_digits [OF that] digit_not_other(3) by (intro map_idI) auto
  with assms show ?thesis by (simp add: range_text_def range_ok_def replace_all_char)
qed

lemma replace_colon_join:
  "replace_all (str_join '','' ws) '':'' ''-'' = str_join '','' (map (\<lambda>w. replace_all w '':'' ''-'') ws)"
  by (induction "'',''" ws rule: str_join.induct) (auto simp: replace_all_char)

lemma replace_colon_format:
  "list_all range_ok rs \<Longrightarrow> replace_all (formatPortSpans rs) '':'' ''-'' = str_join '','' (map (range_text ''-'') rs)"
  by (simp add: formatPortSpans_def replace_colon_join list_all_iff replace_colon_range_text cong: map_cong)

lemma nat_digits_length: "n < 10 ^ k \<Longrightarrow> 0 < k \<Longrightarrow> length (nat_digits n) \<le> k"
proof (induction n arbitrary: k rule: nat_digits.induct)
  case (1 n)
  show ?case
  proof (cases "n < 10")
    case True
    with 1 show ?thesis by (simp add: nat_digits.simps [of n])
  next
    case False
    obtain j where k: "k = Suc j" using "1.prems"(2) by (cases k) auto
    have "0 < j" using "1.prems"(1) False k by (cases j) auto
    have "n div 10 < 10 ^ j" using "1.prems"(1) k by (simp add: less_mult_imp_div_less mult.commute)
    with "1.IH" False \<open>0 < j\<close> have "length (nat_digits (n div 10)) \<le> j" by simp
    with False k show ?thesis by (simp add: nat_digits.simps [of n])
  qed
qed

lemma range_text_length: "range_ok r \<Longrightarrow> length (range_text [c] r) \<le> 11"
proof -
  assume ok: "range_ok r"
  have "length (itoa x) \<le> 5" if "1 \<le> x" "x \<le> 65535" for x
    using that nat_digits_length [of "nat x" 5] by (simp add: itoa_def)
  from this [of "rstart r"] this [of "rend r"] ok show ?thesis
    by (auto simp: range_text_def range_ok_def)
qed

lemma str_join_length:
  "\<forall>w \<in> set ws. length w \<le> k \<Longrightarrow> length (str_join [c] ws) \<le> length ws * (k + 1)"
  by (induction "[c]" ws rule: str_join.induct) auto

lemma range_texts_length:
  "list_all range_ok rs \<Longrightarrow> length (str_join '','' (map (range_text [c]) rs)) \<le> length rs * 12"
  using str_join_length [of "map (range_text [c]) rs" 11 "CHR '',''"] range_text_length
  by (fastforce simp: list_all_iff)

lemma hop_range_Inr:
  assumes "normalizeSingboxPortHopRange raw = Inr t" "t \<noteq> []"
  obtains rs where "canonical rs" "rs \<noteq> []" "length rs \<le> 32" "countPorts rs \<le> 4096"
    "t = str_join '','' (map (range_text ''-'') rs)" "parseStrictPortRanges (trim_space raw) = Inr (rs, formatPortSpans rs)"
proof -
  from assms obtain rs n where p: "parseStrictPortRanges (trim_space raw) = Inr (rs, n)"
    and b: "length rs \<le> 32" "countPorts rs \<le> 4096" and t: "t = replace_all n '':'' ''-''"
    by (auto simp: normalizeSingboxPortHopRange_def Let_def split: if_splits sum.splits)
  from strict_canonical [OF p] have c: "canonical rs" "n = formatPortSpans rs" by auto
  show thesis
    using that [OF c(1) strict_nonempty [OF p] b] c t p
    by (simp add: canonical_def replace_colon_format)
qed

lemma hop_range_of_text:
  assumes "canonical rs" "rs \<noteq> []" "length rs \<le> 32" "countPorts rs \<le> 4096"
  shows "normalizeSingboxPortHopRange (str_join '','' (map (range_text ''-'') rs))
           = Inr (str_join '','' (map (range_text ''-'') rs))"
proof -
  have ok: "list_all range_ok rs" using assms(1) by (simp add: canonical_def)
  note trim = range_texts_trim [OF ok assms(2), of "CHR ''-''"]
  show ?thesis
    using trim parse_strict_text [OF assms(1,2), of "CHR ''-''"] range_texts_length [OF ok, of "CHR ''-''"]
      assms(3,4) replace_colon_format [OF ok]
    by (simp add: normalizeSingboxPortHopRange_def)
qed

section \<open>Properties\<close>

text \<open>
  C26: \<open>normalizeNftPortRanges\<close>, whose result is what every nftables port set is rendered from, covers
  exactly the ports of the given ranges that lie in 1..65535 (a range written backwards counts as
  the range between its ends), and its result is canonical: within 1..65535, ascending, with a gap
  of at least one port between neighbours, so nft never sees overlapping set elements.
\<close>

theorem normalizeNftPortRanges_exact:
  "ports_of (normalizeNftPortRanges rs)
     = (\<Union>r \<in> set rs. {min (rstart r) (rend r)..max (rstart r) (rend r)}) \<inter> {1..65535}
   \<and> canonical (normalizeNftPortRanges rs)
   \<and> mergePortRanges (normalizeNftPortRanges rs) = normalizeNftPortRanges rs"
  using normalize_ports normalize_canonical nft.produce_stable by blast

text \<open>
  C27: a strict port specification survives being stored. Every non-empty list of spans with ports from 1 to 65535, in any order and
  also overlapping, is accepted when it is printed, both with ':' and in the display form with '-' in its place
  (the form \<open>normalizePortForwardLocalPortSpec\<close> writes to the database): the result is the canonical list of the same ports,
  the list itself when it was canonical. And whatever text is accepted, the result is a non-empty canonical list with its printed text, so it parses back to itself.
\<close>

theorem parseStrictPortRanges_roundtrip:
  assumes "list_all range_ok spans" "spans \<noteq> []"
  shows "(\<exists>merged. parseStrictPortRanges (formatPortSpans spans) = Inr (merged, formatPortSpans merged)
        \<and> parseStrictPortRanges (replace_all (formatPortSpans spans) '':'' ''-'') = Inr (merged, formatPortSpans merged)
        \<and> canonical merged \<and> ports_of merged = ports_of spans \<and> (canonical spans \<longrightarrow> merged = spans))
    \<and> (\<forall>input found normalized. parseStrictPortRanges input = Inr (found, normalized)
         \<longrightarrow> found \<noteq> [] \<and> canonical found \<and> normalized = formatPortSpans found)"
proof
  have "\<forall>r \<in> set spans. rstart r \<le> rend r" using assms(1) by (auto simp: list_all_iff range_ok_def)
  then show "\<exists>merged. parseStrictPortRanges (formatPortSpans spans) = Inr (merged, formatPortSpans merged)
        \<and> parseStrictPortRanges (replace_all (formatPortSpans spans) '':'' ''-'') = Inr (merged, formatPortSpans merged)
        \<and> canonical merged \<and> ports_of merged = ports_of spans \<and> (canonical spans \<longrightarrow> merged = spans)"
    using parse_printed [OF assms, of "CHR '':''"] parse_printed [OF assms, of "CHR ''-''"] replace_colon_format [OF assms(1)]
      merge_canonical [OF assms(1)] merge_ports [of spans] merge_id [of spans]
    by (intro exI [of _ "mergePortRanges spans"]) (simp add: formatPortSpans_def [of spans])
  show "\<forall>input found normalized. parseStrictPortRanges input = Inr (found, normalized)
         \<longrightarrow> found \<noteq> [] \<and> canonical found \<and> normalized = formatPortSpans found"
    using strict_canonical strict_nonempty by blast
qed

theorem parseStrictPortRanges_roundtrip_witness:
  "\<exists>merged. parseStrictPortRanges (replace_all ''2005:2010,443,2000:2006'' '':'' ''-'') = Inr (merged, formatPortSpans merged)
     \<and> canonical merged \<and> ports_of merged = ports_of [PortRange 2005 2010, PortRange 443 443, PortRange 2000 2006]"
proof -
  let ?s = "[PortRange 2005 2010, PortRange 443 443, PortRange 2000 2006]"
  have t: "formatPortSpans ?s = ''2005:2010,443,2000:2006''" by code_simp
  have "list_all range_ok ?s" "?s \<noteq> []" by (simp_all add: range_ok_def)
  from parseStrictPortRanges_roundtrip [OF this] show ?thesis unfolding t by blast
qed

text \<open>
  \<open>excludePortsFromRanges\<close> on a canonical list removes exactly the excluded ports: the allowed
  ranges are canonical and cover the other ports, \<open>skipped\<close> is the number of ports removed, and
  \<open>sample\<close> lists the removed ports in ascending order, five at most.
\<close>

lemma excludePortsFromRanges_exact:
  assumes can: "canonical rs" and ex: "excludePortsFromRanges rs excluded = (allowed, skipped, sample)"
  shows "canonical allowed \<and> ports_of allowed = ports_of rs - set excluded
    \<and> skipped = int (card (ports_of rs \<inter> set excluded))
    \<and> sample = take 5 (collectOccupiedPorts (\<lambda>p. p \<in> set excluded) rs)"
proof (cases "rs = [] \<or> excluded = []")
  case True
  with assms show ?thesis
    by (auto simp: excludePortsFromRanges_def collectOccupiedPorts_def split: if_splits)
next
  case False
  let ?x = "\<lambda>p. p \<in> set excluded" and ?o = "collectOccupiedPorts (\<lambda>p. p \<in> set excluded) rs"
  obtain al sk sm where f: "foldl (exclude_range ?x) ([], 0, []) rs = (al, sk, sm)"
    by (cases "foldl (exclude_range ?x) ([], 0, []) rs")
  have ok: "list_all range_ok rs" using can by (simp add: canonical_def)
  have o: "excluded_ports ?x rs = ?o" by (simp add: excluded_ports_def collectOccupiedPorts_def)
  from exclude_ranges_spec [OF ok _ _ f] o have spec: "sk = int (length ?o)" "sm = take 5 ?o"
    "ports_of al = {x \<in> ports_of rs. \<not> ?x x}" "list_all range_ok al" by simp_all
  from False ex f have res: "allowed = mergePortRanges al" "skipped = sk" "sample = sm"
    by (auto simp: excludePortsFromRanges_def)
  have "\<forall>r \<in> set al. rstart r \<le> rend r"
    using spec(4) by (auto simp: list_all_iff range_ok_def)
  then have "ports_of allowed = ports_of rs - set excluded"
    using spec(3) by (auto simp: res merge_ports)
  moreover have "length ?o = card (ports_of rs \<inter> set excluded)"
  proof -
    have "distinct ?o" using occupied_sorted [OF can, of ?x] by (simp add: strict_sorted_iff)
    moreover have "set ?o = ports_of rs \<inter> set excluded" by (auto simp: occupied_set)
    ultimately show ?thesis by (metis distinct_card)
  qed
  ultimately show ?thesis
    using spec merge_canonical [OF spec(4)] by (simp add: res)
qed

theorem excludePortsFromRanges_exact_example:
  "excludePortsFromRanges [PortRange 1 4, PortRange 8 9] [2, 9, 70] = ([PortRange 1 1, PortRange 3 4, PortRange 8 8], 2, [2, 9])
   \<and> ports_of [PortRange 1 1, PortRange 3 4, PortRange 8 8] = ports_of [PortRange 1 4, PortRange 8 9] - set [2, 9, 70]"
proof -
  have e: "excludePortsFromRanges [PortRange 1 4, PortRange 8 9] [2, 9, 70] = ([PortRange 1 1, PortRange 3 4, PortRange 8 8], 2, [2, 9])"
    by code_simp
  have c: "canonical [PortRange 1 4, PortRange 8 9]" by (simp add: canonical_def range_ok_def)
  from excludePortsFromRanges_exact [OF c e] e show ?thesis by blast
qed

text \<open>
  the two cores normalize port-hop ranges alike although the code is written twice: for every
  input \<open>normalizeSingboxPortHopRange\<close> and \<open>normalizeMihomoPortHopRange\<close> give the same text or the same kind
  of rejection; an accepted non-empty range names at most 4096 ports in at most 32 segments, and
  normalizing the accepted text again gives the same text.
\<close>

lemma portHopRange_equivalent_and_bounded:
  "normalizeMihomoPortHopRange raw = normalizeSingboxPortHopRange raw
   \<and> (case normalizeSingboxPortHopRange raw of
        Inl _ \<Rightarrow> True
      | Inr t \<Rightarrow> normalizeSingboxPortHopRange t = Inr t
          \<and> (t = [] \<or> (\<exists>rs. parseStrictPortRanges t = Inr (rs, formatPortSpans rs) \<and> canonical rs
                \<and> length rs \<le> 32 \<and> card (ports_of rs) \<le> 4096)))"
proof -
  have eq: "normalizeMihomoPortHopRange raw = normalizeSingboxPortHopRange raw"
    by (auto simp: normalizeMihomoPortHopRange_def normalizeSingboxPortHopRange_def
        validateMihomoManagedPortRange_def Let_def split: sum.splits)
  have "normalizeSingboxPortHopRange t = Inr t
          \<and> (t = [] \<or> (\<exists>rs. parseStrictPortRanges t = Inr (rs, formatPortSpans rs) \<and> canonical rs
                \<and> length rs \<le> 32 \<and> card (ports_of rs) \<le> 4096))"
    if ok: "normalizeSingboxPortHopRange raw = Inr t" for t
  proof (cases "t = []")
    case True
    then show ?thesis by (simp add: normalizeSingboxPortHopRange_def)
  next
    case False
    from ok False obtain rs where rs: "canonical rs" "rs \<noteq> []" "length rs \<le> 32" "countPorts rs \<le> 4096"
      and t: "t = str_join '','' (map (range_text ''-'') rs)" by (rule hop_range_Inr)
    have "parseStrictPortRanges t = Inr (rs, formatPortSpans rs)"
      using parse_strict_text [OF rs(1,2)] t by blast
    with rs hop_range_of_text [OF rs] t countPorts_card [OF rs(1)] show ?thesis by auto
  qed
  with eq show ?thesis by (auto split: sum.splits)
qed

text \<open>
  \<open>summarizePortForwardSpanOverlap\<close> never enumerates the overlap of two canonical span lists, yet its count
  is the exact number of ports they share, so a zero count (the test every conflict check
  makes) means that they share none; the sample is bounded by twelve ports.
\<close>

lemma summarizePortForwardSpanOverlap_exact:
  assumes "canonical a" and "canonical b"
  shows "ov_count (summarizePortForwardSpanOverlap a b) = int (card (ports_of a \<inter> ports_of b))
    \<and> (ov_count (summarizePortForwardSpanOverlap a b) = 0 \<longleftrightarrow> ports_of a \<inter> ports_of b = {})
    \<and> length (ov_sample (summarizePortForwardSpanOverlap a b)) \<le> 12"
  using overlap_outer [OF assms, of "\<lparr>ov_count = 0, ov_sample = []\<rparr>"]
  by (simp add: summarizePortForwardSpanOverlap_def)

theorem summarizePortForwardSpanOverlap_exact_example:
  "ov_count (summarizePortForwardSpanOverlap [PortRange 1 4, PortRange 8 9] [PortRange 3 8]) = 3
   \<and> int (card (ports_of [PortRange 1 4, PortRange 8 9] \<inter> ports_of [PortRange 3 8])) = 3"
proof -
  have c: "canonical [PortRange 1 4, PortRange 8 9]" "canonical [PortRange 3 8]"
    by (simp_all add: canonical_def range_ok_def)
  have "ov_count (summarizePortForwardSpanOverlap [PortRange 1 4, PortRange 8 9] [PortRange 3 8]) = 3"
    by code_simp
  with summarizePortForwardSpanOverlap_exact [OF c] show ?thesis by simp
qed

end
