(* ===== verification/Port_Forward_Rules.thy ===== *)
theory Port_Forward_Rules
  imports Port_Ranges
begin

text \<open>
  Port-forwarding rules (\<open>service/port_forward.go\<close>, \<open>service/port_forward_validation.go\<close>): the
  normalisation of the local ports, protocol and family of a rule, and the check that an enabled
  rule shares no port with another enabled rule of a common protocol and family.

  The lemmas show that an accepted rule denotes the ports it stores, that its stored text parses
  back to them, that the overlap check decides exactly whether ports are shared, and that saving
  checked rules keeps the table free of conflicts. In count mode an absurd count wraps around the
  64-bit range and passes the bound check; the lemma says for which counts.
\<close>

section \<open>Protocols and families\<close>

record portForwardProtocolFlags =
  pf_tcp :: bool
  pf_udp :: bool

record portForwardFamilyFlags =
  pf_ipv4 :: bool
  pf_ipv6 :: bool

definition both_protocols :: "string list" where
  "both_protocols = [''tcpudp'', ''tcp+udp'', ''tcp/udp'', ''tcp_udp'']"

definition both_families :: "string list" where
  "both_families = [''ipv4ipv6'', ''ipv4/ipv6'', ''dual'']"

definition portForwardProtocolFlagsFor :: "string \<Rightarrow> portForwardProtocolFlags" where
  "portForwardProtocolFlagsFor raw =
     (let p = to_lower (trim_space raw)
      in if p = ''tcp'' then \<lparr>pf_tcp = True, pf_udp = False\<rparr>
         else if p = ''udp'' then \<lparr>pf_tcp = False, pf_udp = True\<rparr>
         else if p \<in> set both_protocols then \<lparr>pf_tcp = True, pf_udp = True\<rparr>
         else \<lparr>pf_tcp = True, pf_udp = False\<rparr>)"

definition portForwardFamilyFlagsFor :: "string \<Rightarrow> portForwardFamilyFlags" where
  "portForwardFamilyFlagsFor raw =
     (let f = to_lower (trim_space raw)
      in if f = ''ipv4'' then \<lparr>pf_ipv4 = True, pf_ipv6 = False\<rparr>
         else if f = ''ipv6'' then \<lparr>pf_ipv4 = False, pf_ipv6 = True\<rparr>
         else if f \<in> set both_families then \<lparr>pf_ipv4 = True, pf_ipv6 = True\<rparr>
         else \<lparr>pf_ipv4 = True, pf_ipv6 = False\<rparr>)"

definition portForwardProtocolsOverlap :: "string \<Rightarrow> string \<Rightarrow> bool" where
  "portForwardProtocolsOverlap left right =
     (let l = portForwardProtocolFlagsFor left; r = portForwardProtocolFlagsFor right
      in (pf_tcp l \<and> pf_tcp r) \<or> (pf_udp l \<and> pf_udp r))"

definition portForwardFamiliesOverlap :: "string \<Rightarrow> string \<Rightarrow> bool" where
  "portForwardFamiliesOverlap left right =
     (let l = portForwardFamilyFlagsFor left; r = portForwardFamilyFlagsFor right
      in (pf_ipv4 l \<and> pf_ipv4 r) \<or> (pf_ipv6 l \<and> pf_ipv6 r))"

definition portForwardProtocolDisplay :: "string \<Rightarrow> string" where
  "portForwardProtocolDisplay raw =
     (let p = to_lower (trim_space raw)
      in if p = ''tcp'' then ''TCP''
         else if p = ''udp'' then ''UDP''
         else if p \<in> set both_protocols then ''TCP/UDP''
         else (let v = trim_space raw in if v = [] then ''UNKNOWN'' else to_upper v))"

definition portForwardExpandFamilies :: "string \<Rightarrow> string list" where
  "portForwardExpandFamilies raw =
     (let f = portForwardFamilyFlagsFor raw
      in (if pf_ipv4 f then [''ipv4''] else []) @ (if pf_ipv6 f then [''ipv6''] else []))"

datatype pf_error =
    BadProtocol | BadFamily | BadLocalPortSpec range_error | LocalPortSpecRequired
  | BadLocalPort | BadCount | CountTooLarge | BadPortRange | UnknownMode string

definition normalizePortForwardProtocol :: "string \<Rightarrow> pf_error + string" where
  "normalizePortForwardProtocol raw =
     (let p = trim_space (to_lower raw)
      in if p = ''tcp'' then Inr ''tcp''
         else if p = ''udp'' then Inr ''udp''
         else if p \<in> set both_protocols then Inr ''tcp_udp''
         else Inl BadProtocol)"

definition normalizePortForwardSelectedFamily :: "string \<Rightarrow> string \<Rightarrow> pf_error + string" where
  "normalizePortForwardSelectedFamily raw fallback =
     (let f = to_lower (trim_space raw)
      in if f = [] then
           (let g = to_lower (trim_space fallback)
            in if g = ''ipv6'' then Inr ''ipv6''
               else if g \<in> set both_families then Inr ''dual'' else Inr ''ipv4'')
         else if f = ''ipv4'' then Inr ''ipv4''
         else if f = ''ipv6'' then Inr ''ipv6''
         else if f \<in> set both_families then Inr ''dual''
         else Inl BadFamily)"

definition portForwardCanonicalLoopback :: "string \<Rightarrow> string" where
  "portForwardCanonicalLoopback family = (if family = ''ipv6'' then ''::1'' else ''127.0.0.1'')"

section \<open>Local ports\<close>

definition normalizePortForwardLocalMode :: "string \<Rightarrow> portSpan list \<Rightarrow> string" where
  "normalizePortForwardLocalMode rawMode spans =
     (let mode = trim_space (to_lower rawMode)
      in if mode = ''single'' \<or> mode = ''range'' \<or> mode = ''multi'' then mode
         else if mode = ''count'' then
           (case spans of
              [r] \<Rightarrow> (if rstart r \<noteq> rend r then ''range'' else ''single'')
            | [] \<Rightarrow> ''single''
            | _ \<Rightarrow> ''multi'')
         else (case spans of
                 [r] \<Rightarrow> (if rstart r = rend r then ''single'' else ''range'')
               | _ \<Rightarrow> ''multi''))"

record local_ports =
  lp_mode :: string
  lp_start :: int
  lp_count :: int
  lp_end :: int
  lp_spec :: string
  lp_spans :: "portSpan list"

definition normalizePortForwardLocalPortSpec ::
    "string \<Rightarrow> pf_error + (portSpan list \<times> string \<times> int \<times> int \<times> int)" where
  \<comment> \<open>the spans, their text, the first port, the number of ports and the last port\<close>
  "normalizePortForwardLocalPortSpec raw =
     (case parseStrictPortRanges raw of
        Inl e \<Rightarrow> Inl (BadLocalPortSpec e)
      | Inr (spans, normalized) \<Rightarrow>
          (if spans = [] then Inl LocalPortSpecRequired
           else Inr (spans, replace_all normalized '':'' ''-'',
                     rstart (hd spans), countPorts spans, rend (last spans))))"

definition single_port :: "int \<Rightarrow> local_ports" where
  "single_port p =
     \<lparr>lp_mode = ''single'', lp_start = p, lp_count = 1, lp_end = p, lp_spec = itoa p, lp_spans = [PortRange p p]\<rparr>"

definition port_span :: "int \<Rightarrow> int \<Rightarrow> int \<Rightarrow> local_ports" where
  "port_span s n e =
     \<lparr>lp_mode = ''range'', lp_start = s, lp_count = n, lp_end = e,
      lp_spec = itoa s @ ''-'' @ itoa e, lp_spans = [PortRange s e]\<rparr>"

definition normalizePortForwardLocalPorts ::
    "string \<Rightarrow> string \<Rightarrow> int \<Rightarrow> int \<Rightarrow> int \<Rightarrow> pf_error + local_ports" where
  "normalizePortForwardLocalPorts rawMode rawSpec s n e =
     (let trimmedSpec = trim_space rawSpec
      in if trimmedSpec \<noteq> [] then
           (case normalizePortForwardLocalPortSpec trimmedSpec of
              Inl err \<Rightarrow> Inl err
            | Inr (spans, spec, s', n', e') \<Rightarrow>
                Inr \<lparr>lp_mode = normalizePortForwardLocalMode rawMode spans, lp_start = s', lp_count = n',
                     lp_end = e', lp_spec = spec, lp_spans = spans\<rparr>)
         else let mode = trim_space (to_lower rawMode)
              in if mode = [] \<or> mode = ''single'' then
                   (if s < 1 \<or> s > 65535 then Inl BadLocalPort else Inr (single_port s))
                 else if mode = ''count'' then
                   (if s < 1 \<or> s > 65535 then Inl BadLocalPort
                    else if n < 1 then Inl BadCount
                    else let calculatedEnd = wrap64 (wrap64 (s + n) - 1)
                         in if calculatedEnd > 65535 then Inl CountTooLarge
                            else if n = 1 then Inr (single_port s)
                            else Inr (port_span s n calculatedEnd))
                 else if mode = ''range'' then
                   (if s < 1 \<or> s > 65535 then Inl BadLocalPort
                    else if e < s \<or> e > 65535 then Inl BadPortRange
                    else let localCount = e - s + 1
                         in if localCount = 1 then Inr (single_port s)
                            else Inr (port_span s localCount e))
                 else Inl (UnknownMode rawMode))"

section \<open>The conflict check\<close>

record PortForwardRule =
  pf_id :: nat
  pf_name :: string
  pf_description :: string
  pf_enabled :: bool
  pf_family :: string
  pf_protocol :: string
  pf_local_mode :: string
  pf_local_spec :: string
  pf_local_start :: int
  pf_local_count :: int
  pf_local_end :: int
  pf_target_ip :: string
  pf_target_port :: int
  pf_rate_limit :: int
  pf_traffic_limit :: int
  pf_reset_day :: int
  pf_expiry_date :: string

record normalizedPortForwardRule =
  n_name :: string
  n_description :: string
  n_enabled :: bool
  n_family :: string
  n_protocol :: string
  n_local :: local_ports
  n_target_ip :: string
  n_target_port :: int
  n_rate_limit :: int
  n_traffic_limit :: "int option"  \<comment> \<open>\<open>None\<close> when the payload does not provide it\<close>
  n_reset_day :: "int option"
  n_expiry_date :: "string option"

definition collectPortForwardSpanOverlapPorts :: "portSpan list \<Rightarrow> portSpan list \<Rightarrow> int list" where
  "collectPortForwardSpanOverlapPorts a b = ov_sample (summarizePortForwardSpanOverlap a b)"

definition rule_spans :: "PortForwardRule \<Rightarrow> portSpan list" where
  \<comment> \<open>the stored text, or the stored bounds when it does not parse\<close>
  "rule_spans existing =
     (case normalizePortForwardLocalPortSpec (pf_local_spec existing) of
        Inr (spans, _) \<Rightarrow> (if spans = [] then [PortRange (pf_local_start existing) (pf_local_end existing)] else spans)
      | Inl _ \<Rightarrow> [PortRange (pf_local_start existing) (pf_local_end existing)])"

definition row_spans :: "normalizedPortForwardRule \<Rightarrow> portSpan list" where
  "row_spans row =
     (if lp_spans (n_local row) = [] then [PortRange (lp_start (n_local row)) (lp_end (n_local row))]
      else lp_spans (n_local row))"

fun first_conflict :: "normalizedPortForwardRule \<Rightarrow> PortForwardRule list \<Rightarrow> PortForwardRule option" where
  "first_conflict row [] = None"
| "first_conflict row (existing # rest) =
     (if \<not> pf_enabled existing then first_conflict row rest
      else if \<not> portForwardProtocolsOverlap (pf_protocol existing) (n_protocol row) then first_conflict row rest
      else if \<not> portForwardFamiliesOverlap (pf_family existing) (n_family row) then first_conflict row rest
      else if collectPortForwardSpanOverlapPorts (row_spans row) (rule_spans existing) \<noteq> [] then Some existing
      else first_conflict row rest)"

definition validatePortForwardRuleOverlap ::
    "PortForwardRule list \<Rightarrow> nat \<Rightarrow> normalizedPortForwardRule \<Rightarrow> PortForwardRule option" where
  \<comment> \<open>\<open>Some\<close> is the error that names the conflicting rule\<close>
  "validatePortForwardRuleOverlap table excludeID row =
     (if \<not> n_enabled row then None
      else first_conflict row (filter (\<lambda>r. pf_id r \<noteq> excludeID) table))"

definition other_protocol_conflict :: "normalizedPortForwardRule \<Rightarrow> PortForwardRule \<Rightarrow> bool" where
  "other_protocol_conflict row existing \<longleftrightarrow>
     pf_enabled existing
     \<and> \<not> portForwardProtocolsOverlap (pf_protocol existing) (n_protocol row)
     \<and> portForwardFamiliesOverlap (pf_family existing) (n_family row)
     \<and> ov_count (summarizePortForwardSpanOverlap (rule_spans existing) (lp_spans (n_local row))) \<noteq> 0"

definition findOtherProtocolConflicts ::
    "PortForwardRule list \<Rightarrow> nat \<Rightarrow> normalizedPortForwardRule \<Rightarrow> PortForwardRule list" where
  \<comment> \<open>the rules a warning is shown for\<close>
  "findOtherProtocolConflicts table excludeID row =
     filter (other_protocol_conflict row) (filter (\<lambda>r. pf_id r \<noteq> excludeID) table)"

section \<open>Saving and deleting rules\<close>

record pf_table =
  rules :: "PortForwardRule list"
  next_id :: nat  \<comment> \<open>the autoincrement counter of the table\<close>

definition portForwardRuleMaxCount :: nat where
  "portForwardRuleMaxCount = 2048"

definition assign_rule :: "normalizedPortForwardRule \<Rightarrow> string \<Rightarrow> PortForwardRule \<Rightarrow> PortForwardRule" where
  "assign_rule n name row =
     row\<lparr>pf_name := name, pf_description := n_description n, pf_enabled := n_enabled n, pf_family := n_family n,
         pf_protocol := n_protocol n, pf_local_mode := lp_mode (n_local n), pf_local_spec := lp_spec (n_local n),
         pf_local_start := lp_start (n_local n), pf_local_count := lp_count (n_local n),
         pf_local_end := lp_end (n_local n), pf_target_ip := n_target_ip n, pf_target_port := n_target_port n,
         pf_rate_limit := n_rate_limit n,
         pf_traffic_limit := (case n_traffic_limit n of Some v \<Rightarrow> v | None \<Rightarrow> pf_traffic_limit row),
         pf_reset_day := (case n_reset_day n of Some v \<Rightarrow> v | None \<Rightarrow> pf_reset_day row),
         pf_expiry_date := (case n_expiry_date n of Some v \<Rightarrow> v | None \<Rightarrow> pf_expiry_date row)\<rparr>"

definition new_row :: "nat \<Rightarrow> PortForwardRule" where
  "new_row i = \<lparr>pf_id = i, pf_name = [], pf_description = [], pf_enabled = False, pf_family = [], pf_protocol = [],
     pf_local_mode = [], pf_local_spec = [], pf_local_start = 0, pf_local_count = 0, pf_local_end = 0,
     pf_target_ip = [], pf_target_port = 0, pf_rate_limit = 0, pf_traffic_limit = 0, pf_reset_day = 0, pf_expiry_date = []\<rparr>"

record pf_env =
  available :: "normalizedPortForwardRule \<Rightarrow> bool"  \<comment> \<open>\<open>validatePortForwardRuleAvailability\<close> passes\<close>
  random_index :: "nat \<Rightarrow> nat option"  \<comment> \<open>\<open>crand.Int\<close> below its argument, \<open>None\<close> when it fails\<close>

definition three_digits :: "nat \<Rightarrow> string" where
  "three_digits n = [digit_char (n div 100), digit_char (n div 10 mod 10), digit_char (n mod 10)]"

definition used_names :: "PortForwardRule list \<Rightarrow> nat \<Rightarrow> string list" where
  "used_names table excludeID =
     filter (\<lambda>s. s \<noteq> []) (map (\<lambda>r. trim_space (pf_name r)) (filter (\<lambda>r. excludeID = 0 \<or> pf_id r \<noteq> excludeID) table))"

definition generateUniqueThreeDigitPortForwardName ::
    "(nat \<Rightarrow> nat option) \<Rightarrow> PortForwardRule list \<Rightarrow> nat \<Rightarrow> string option" where
  "generateUniqueThreeDigitPortForwardName random table excludeID =
     (let candidates = filter (\<lambda>s. s \<notin> set (used_names table excludeID)) (map three_digits [0..<1000])
      in if candidates = [] then None
         else case random (length candidates) of
                None \<Rightarrow> None
              | Some i \<Rightarrow> (if i < length candidates then Some (candidates ! i) else None))"

definition rule_name :: "pf_env \<Rightarrow> nat \<Rightarrow> normalizedPortForwardRule \<Rightarrow> PortForwardRule list \<Rightarrow> string option" where
  "rule_name env pid n table =
     (if n_name n = [] then generateUniqueThreeDigitPortForwardName (random_index env) table pid
      else Some (n_name n))"

definition replace_rule :: "PortForwardRule \<Rightarrow> PortForwardRule list \<Rightarrow> PortForwardRule list" where
  "replace_rule row rs = map (\<lambda>r. if pf_id r = pf_id row then row else r) rs"

definition upsert_transaction ::
    "pf_env \<Rightarrow> nat \<Rightarrow> normalizedPortForwardRule \<Rightarrow> pf_table \<Rightarrow> (pf_table \<times> PortForwardRule \<times> PortForwardRule option) option" where
  \<comment> \<open>the table after the transaction, the row saved and the row it replaces; \<open>None\<close> is an error\<close>
  "upsert_transaction env pid n tb =
     (let found = find (\<lambda>r. pf_id r = pid) (rules tb)
      in if pid > 0 \<and> found = None then None
         else if pid = 0 \<and> length (rules tb) \<ge> portForwardRuleMaxCount then None
         else if validatePortForwardRuleOverlap (rules tb) pid n \<noteq> None then None
         else if \<not> available env n then None
         else case rule_name env pid n (rules tb) of
                None \<Rightarrow> None
              | Some name \<Rightarrow>
                  (if pid > 0 then
                     (case found of
                        None \<Rightarrow> None
                      | Some prev \<Rightarrow>
                          (let row = assign_rule n name prev
                           in Some (tb\<lparr>rules := replace_rule row (rules tb)\<rparr>, row, Some prev)))
                   else (let row = assign_rule n name (new_row (next_id tb))
                         in Some (\<lparr>rules = rules tb @ [row], next_id = next_id tb + 1\<rparr>, row, None))))"

section \<open>What the local ports of an accepted rule are\<close>

lemma range_mode_text: "s \<noteq> e \<Longrightarrow> itoa s @ ''-'' @ itoa e = str_join '','' (map (range_text ''-'') [PortRange s e])"
  by (simp add: range_text_def)

lemma single_text: "itoa p = str_join '','' (map (range_text ''-'') [PortRange p p])"
  by (simp add: range_text_def)

lemma canonical_single: "1 \<le> s \<Longrightarrow> s \<le> e \<Longrightarrow> e \<le> 65535 \<Longrightarrow> canonical [PortRange s e]"
  by (simp add: canonical_def range_ok_def)

lemma count_mode_end:
  assumes "1 \<le> s" "s \<le> 65535" "1 \<le> n" "in_int64 n"
  shows "wrap64 (wrap64 (s + n) - 1) =
     (if s + n \<le> max_int64 + 1 then s + n - 1 else s + n - 1 - 18446744073709551616)"
proof -
  consider "s + n \<le> max_int64" | "s + n = max_int64 + 1" | "s + n \<ge> max_int64 + 2" by linarith
  then show ?thesis
  proof cases
    case 1
    then have "in_int64 (s + n)" "in_int64 (s + n - 1)" using assms by (auto simp: int64_defs)
    with 1 show ?thesis by simp
  next
    case 2
    then have "wrap64 (s + n) = min_int64" by (simp add: wrap64_def int64_defs)
    with 2 show ?thesis by (simp add: wrap64_def int64_defs)
  next
    case 3
    have "wrap64 (s + n) = s + n - 18446744073709551616"
    proof -
      have "(s + n + 9223372036854775808) mod 18446744073709551616
          = (s + n - 9223372036854775808 + 18446744073709551616) mod 18446744073709551616"
        by (rule arg_cong [of _ _ "\<lambda>x. x mod 18446744073709551616"]) linarith
      also have "\<dots> = (s + n - 9223372036854775808) mod 18446744073709551616" by (rule mod_add_self2)
      also have "\<dots> = s + n - 9223372036854775808"
        using 3 assms by (intro mod_pos_pos_trivial) (auto simp: int64_defs)
      finally show ?thesis by (simp add: wrap64_def)
    qed
    moreover have "in_int64 (s + n - 18446744073709551616 - 1)"
      using 3 assms by (auto simp: int64_defs)
    ultimately show ?thesis using 3 by simp
  qed
qed

lemma spec_result:
  assumes "normalizePortForwardLocalPortSpec raw = Inr (spans, spec, s, n, e)"
  shows "canonical spans" "spans \<noteq> []" "s = rstart (hd spans)" "e = rend (last spans)" "n = countPorts spans"
    "spec = str_join '','' (map (range_text ''-'') spans)"
proof -
  obtain t where t: "parseStrictPortRanges raw = Inr (spans, t)" "spec = replace_all t '':'' ''-''"
    and r: "s = rstart (hd spans)" "e = rend (last spans)" "n = countPorts spans"
    using assms by (auto simp: normalizePortForwardLocalPortSpec_def split: sum.splits if_splits)
  from strict_canonical [OF t(1)] have c: "canonical spans" "t = formatPortSpans spans" by auto
  then show "canonical spans" "spec = str_join '','' (map (range_text ''-'') spans)"
    using t(2) replace_colon_format [of spans] by (simp_all add: canonical_def)
  show "spans \<noteq> []" by (rule strict_nonempty [OF t(1)])
  show "s = rstart (hd spans)" "e = rend (last spans)" "n = countPorts spans" by fact+
qed

definition denotes :: "local_ports \<Rightarrow> bool" where
  \<comment> \<open>the stored numbers and the stored text describe the spans\<close>
  "denotes lp \<longleftrightarrow>
     canonical (lp_spans lp) \<and> lp_spans lp \<noteq> []
     \<and> lp_count lp = int (card (ports_of (lp_spans lp)))
     \<and> lp_start lp = rstart (hd (lp_spans lp)) \<and> lp_end lp = rend (last (lp_spans lp))
     \<and> parseStrictPortRanges (lp_spec lp) = Inr (lp_spans lp, formatPortSpans (lp_spans lp))"

lemma denotes_text:
  assumes "canonical spans" "spans \<noteq> []"
  shows "denotes \<lparr>lp_mode = m, lp_start = rstart (hd spans), lp_count = countPorts spans, lp_end = rend (last spans),
           lp_spec = str_join '','' (map (range_text ''-'') spans), lp_spans = spans\<rparr>"
  using assms by (simp add: denotes_def countPorts_card parse_strict_text)

lemma denotes_single: "1 \<le> p \<Longrightarrow> p \<le> 65535 \<Longrightarrow> denotes (single_port p)"
  using denotes_text [OF canonical_single [of p p], of "''single''"]
  by (simp add: single_port_def countPorts_Cons range_text_def)

lemma denotes_span: "1 \<le> s \<Longrightarrow> s < e \<Longrightarrow> e \<le> 65535 \<Longrightarrow> n = e - s + 1 \<Longrightarrow> denotes (port_span s n e)"
  using denotes_text [OF canonical_single [of s e], of "''range''"]
  by (simp add: port_span_def countPorts_Cons range_text_def)

lemma local_ports_cases:
  assumes r: "normalizePortForwardLocalPorts rawMode rawSpec s n e = Inr lp" and n: "in_int64 n"
  shows "denotes lp \<or> (\<exists>e'. e' < 0 \<and> 2 \<le> s \<and> s \<le> 65535 \<and> s + n > max_int64 + 1 \<and> e' = s + n - 1 - 18446744073709551616
                           \<and> lp = port_span s n e')"
proof (cases "trim_space rawSpec = []")
  case False
  then obtain spans spec s' n' e' where p: "normalizePortForwardLocalPortSpec (trim_space rawSpec) = Inr (spans, spec, s', n', e')"
    and lp: "lp = \<lparr>lp_mode = normalizePortForwardLocalMode rawMode spans, lp_start = s', lp_count = n',
                     lp_end = e', lp_spec = spec, lp_spans = spans\<rparr>"
    using r by (auto simp: normalizePortForwardLocalPorts_def Let_def split: sum.splits prod.splits)
  note res = spec_result [OF p]
  show ?thesis unfolding lp using denotes_text [OF res(1,2)] res(3-6) by simp
next
  case True
  define mode where "mode = trim_space (to_lower rawMode)"
  note r' = r [unfolded normalizePortForwardLocalPorts_def Let_def mode_def [symmetric]]
  show ?thesis
  proof (cases "mode = ''count''")
    case True
    with r' \<open>trim_space rawSpec = []\<close> have c: "1 \<le> s" "s \<le> 65535" "1 \<le> n"
      "wrap64 (wrap64 (s + n) - 1) \<le> 65535"
      "lp = (if n = 1 then single_port s else port_span s n (wrap64 (wrap64 (s + n) - 1)))"
      by (auto split: if_splits)
    note e = count_mode_end [OF c(1-3) n]
    show ?thesis
    proof (cases "s + n \<le> max_int64 + 1")
      case True
      with c e show ?thesis using denotes_single [of s] denotes_span [of s "s + n - 1" n] by auto
    next
      case False
      then have "n \<noteq> 1" "2 \<le> s" "s + n - 1 - 18446744073709551616 < 0" using c n by (auto simp: int64_defs)
      with False c e show ?thesis by auto
    qed
  next
    case False
    with r' \<open>trim_space rawSpec = []\<close> show ?thesis
      using denotes_single [of s] denotes_span [of s e] by (auto split: if_splits)
  qed
qed

section \<open>The overlap check is exact\<close>

lemma sample_nonempty: "length s \<le> 12 \<Longrightarrow> sample_loop p e s \<noteq> [] \<longleftrightarrow> s \<noteq> [] \<or> p \<le> e"
  by (auto simp: sample_loop_eq)

lemma overlap_step_sample:
  assumes "length (ov_sample res) \<le> 12"
  shows "length (ov_sample (overlap_step l res r)) \<le> 12
    \<and> (ov_sample (overlap_step l res r) \<noteq> [] \<longleftrightarrow> ov_sample res \<noteq> [] \<or> {rstart l..rend l} \<inter> {rstart r..rend r} \<noteq> {})"
proof -
  let ?s = "if rstart r > rstart l then rstart r else rstart l" and ?e = "if rend r < rend l then rend r else rend l"
  have "{rstart l..rend l} \<inter> {rstart r..rend r} = {?s..?e}" by auto
  then show ?thesis
    using assms sample_nonempty [OF assms, of ?s ?e] sample_loop_eq [OF assms, of ?s ?e]
    by (auto simp: overlap_step_def Let_def)
qed

lemma overlap_inner_sample:
  assumes "length (ov_sample res) \<le> 12"
  shows "length (ov_sample (foldl (overlap_step l) res b)) \<le> 12
    \<and> (ov_sample (foldl (overlap_step l) res b) \<noteq> []
         \<longleftrightarrow> ov_sample res \<noteq> [] \<or> {rstart l..rend l} \<inter> ports_of b \<noteq> {})"
  using assms
proof (induction b arbitrary: res)
  case (Cons r b)
  note step = overlap_step_sample [OF Cons.prems, of l r]
  from Cons.IH [OF step [THEN conjunct1]] step show ?case by (simp add: Int_Un_distrib)
qed simp

lemma overlap_outer_sample:
  assumes "length (ov_sample res) \<le> 12"
  shows "ov_sample (foldl (\<lambda>res left. foldl (overlap_step left) res b) res a) \<noteq> []
         \<longleftrightarrow> ov_sample res \<noteq> [] \<or> ports_of a \<inter> ports_of b \<noteq> {}"
  using assms
proof (induction a arbitrary: res)
  case (Cons l a)
  note inner = overlap_inner_sample [OF Cons.prems, of l b]
  from Cons.IH [OF inner [THEN conjunct1]] inner show ?case by (auto simp: Int_Un_distrib2)
qed simp

lemma overlap_nonempty: "collectPortForwardSpanOverlapPorts a b \<noteq> [] \<longleftrightarrow> ports_of a \<inter> ports_of b \<noteq> {}"
  using overlap_outer_sample [of "\<lparr>ov_count = 0, ov_sample = []\<rparr>" b a]
  by (simp add: collectPortForwardSpanOverlapPorts_def summarizePortForwardSpanOverlap_def)

definition shares :: "string \<Rightarrow> string \<Rightarrow> int set \<Rightarrow> PortForwardRule \<Rightarrow> bool" where
  \<comment> \<open>an enabled rule that receives some port of the set over a common protocol and family\<close>
  "shares proto fam ps r \<longleftrightarrow>
     pf_enabled r \<and> portForwardProtocolsOverlap (pf_protocol r) proto \<and> portForwardFamiliesOverlap (pf_family r) fam
     \<and> ps \<inter> ports_of (rule_spans r) \<noteq> {}"

lemma first_conflict_None:
  "first_conflict row rs = None \<longleftrightarrow> (\<forall>r \<in> set rs. \<not> shares (n_protocol row) (n_family row) (ports_of (row_spans row)) r)"
  by (induction rs) (auto simp: shares_def overlap_nonempty)

lemma first_conflict_Some:
  "first_conflict row rs = Some r \<Longrightarrow> r \<in> set rs \<and> shares (n_protocol row) (n_family row) (ports_of (row_spans row)) r"
  by (induction rs) (auto simp: shares_def overlap_nonempty split: if_splits)

lemma overlap_symmetric:
  "portForwardProtocolsOverlap a b = portForwardProtocolsOverlap b a"
  "portForwardFamiliesOverlap a b = portForwardFamiliesOverlap b a"
  by (auto simp: portForwardProtocolsOverlap_def portForwardFamiliesOverlap_def Let_def)

section \<open>The stored rule means what was checked\<close>

lemma bad_span_text:
  assumes "1 \<le> s" "e < 0"
  shows "\<exists>err. normalizePortForwardLocalPortSpec (itoa s @ ''-'' @ itoa e) = Inl err"
proof -
  let ?t = "itoa s @ ''-'' @ itoa e" and ?d = "nat_digits (nat (- e))"
  have e: "itoa e = CHR ''-'' # ?d" using assms by (simp add: itoa_def)
  have ds: "is_digit c" if "c \<in> set (itoa s) \<or> c \<in> set ?d" for c
    using that itoa_nonneg_digits [of s c] nat_digits_in [of c "nat (- e)"] assms by auto
  have chars: "is_digit c \<or> c = CHR ''-''" if "c \<in> set ?t" for c using that ds e by auto
  have ends: "plain_char (hd ?t)" "plain_char (last ?t)"
    using digit_not_other(7) ds by (auto simp: e last_append)
  have trim: "trim_space ?t = ?t" using ends by simp
  have absent: "replace_all ?t fullwidth_comma '','' = ?t" "replace_all ?t '' '' [] = ?t"
    using chars digit_not_other(5,6) by (intro replace_all_absent; fastforce simp: fullwidth_comma_def)+
  have "CHR '','' \<notin> set ?t" using chars [of "CHR '',''"] digit_not_other(4) by auto
  then have "split_on (CHR '','') ?t = [?t]" by (rule split_on_no_sep)
  moreover have "CHR '':'' \<notin> set ?t" using chars [of "CHR '':''"] digit_not_other(3) by auto
  moreover have "split_on (CHR ''-'') ?t = [itoa s, [], ?d]"
  proof -
    have "CHR ''-'' \<notin> set (itoa s)" "CHR ''-'' \<notin> set ?d"
      using ds [of "CHR ''-''"] digit_not_other(1) [of "CHR ''-''"] by auto
    then have "split_on (CHR ''-'') (itoa s @ CHR ''-'' # ([] @ CHR ''-'' # ?d)) = [itoa s, [], ?d]"
      by (subst split_on_append) (simp_all add: split_on_no_sep)
    then show ?thesis by (simp add: e)
  qed
  ultimately have "\<exists>err. parseStrictPortRanges ?t = Inl err"
    using trim absent by (simp add: parseStrictPortRanges_def parse_segment_def)
  then show ?thesis by (auto simp: normalizePortForwardLocalPortSpec_def)
qed

definition accepted_local :: "local_ports \<Rightarrow> bool" where
  \<comment> \<open>a result of \<open>normalizePortForwardLocalPorts\<close> on Go integers\<close>
  "accepted_local lp \<longleftrightarrow>
     (\<exists>rawMode rawSpec s n e. in_int64 n \<and> normalizePortForwardLocalPorts rawMode rawSpec s n e = Inr lp)"

lemma stored_spans:
  assumes "accepted_local (n_local n)"
  shows "rule_spans (assign_rule n name row) = lp_spans (n_local n)" "row_spans n = lp_spans (n_local n)"
proof -
  obtain rawMode rawSpec s0 k0 e0
    where "in_int64 k0" "normalizePortForwardLocalPorts rawMode rawSpec s0 k0 e0 = Inr (n_local n)"
    using assms by (auto simp: accepted_local_def)
  then consider "denotes (n_local n)" | s k e where "e < 0" "2 \<le> s" "n_local n = port_span s k e"
    using local_ports_cases by blast
  then have "rule_spans (assign_rule n name row) = lp_spans (n_local n) \<and> row_spans n = lp_spans (n_local n)"
  proof cases
    case 1
    then show ?thesis
      by (simp add: rule_spans_def assign_rule_def denotes_def normalizePortForwardLocalPortSpec_def row_spans_def)
  next
    case 2
    then obtain err where "normalizePortForwardLocalPortSpec (itoa s @ ''-'' @ itoa e) = Inl err"
      using bad_span_text [of s e] by auto
    with 2 show ?thesis by (simp add: rule_spans_def assign_rule_def port_span_def row_spans_def)
  qed
  then show "rule_spans (assign_rule n name row) = lp_spans (n_local n)" "row_spans n = lp_spans (n_local n)" by simp_all
qed

section \<open>The rule table over time\<close>

definition rule_conflict :: "PortForwardRule \<Rightarrow> PortForwardRule \<Rightarrow> bool" where
  "rule_conflict r1 r2 \<longleftrightarrow>
     pf_enabled r1 \<and> pf_enabled r2
     \<and> portForwardProtocolsOverlap (pf_protocol r1) (pf_protocol r2) \<and> portForwardFamiliesOverlap (pf_family r1) (pf_family r2)
     \<and> ports_of (rule_spans r1) \<inter> ports_of (rule_spans r2) \<noteq> {}"

definition conflict_free :: "PortForwardRule list \<Rightarrow> bool" where
  "conflict_free rs \<longleftrightarrow> (\<forall>r1 \<in> set rs. \<forall>r2 \<in> set rs. pf_id r1 \<noteq> pf_id r2 \<longrightarrow> \<not> rule_conflict r1 r2)"

definition table_ok :: "pf_table \<Rightarrow> bool" where
  "table_ok tb \<longleftrightarrow>
     distinct (map pf_id (rules tb)) \<and> (\<forall>r \<in> set (rules tb). 0 < pf_id r \<and> pf_id r < next_id tb) \<and> 0 < next_id tb
     \<and> length (rules tb) \<le> portForwardRuleMaxCount \<and> conflict_free (rules tb)"

lemma rule_conflict_sym: "rule_conflict r1 r2 = rule_conflict r2 r1"
  by (auto simp: rule_conflict_def overlap_symmetric Int_commute)

lemma assign_rule_simps [simp]:
  "pf_id (assign_rule n name row) = pf_id row" "pf_enabled (assign_rule n name row) = n_enabled n"
  "pf_protocol (assign_rule n name row) = n_protocol n" "pf_family (assign_rule n name row) = n_family n"
  by (simp_all add: assign_rule_def)

lemma validated_no_conflict:
  assumes v: "validatePortForwardRuleOverlap table pid n = None" and a: "accepted_local (n_local n)"
    and r: "r \<in> set table" "pf_id r \<noteq> pid"
  shows "\<not> rule_conflict (assign_rule n name row) r"
proof (cases "n_enabled n")
  case True
  with v r have "\<not> shares (n_protocol n) (n_family n) (ports_of (row_spans n)) r"
    by (simp add: validatePortForwardRuleOverlap_def first_conflict_None)
  then show ?thesis
    using stored_spans [OF a] overlap_symmetric by (auto simp: rule_conflict_def shares_def)
qed (simp add: rule_conflict_def)

lemma replace_rule_set: "r \<in> set (replace_rule row rs) \<Longrightarrow> r = row \<or> (r \<in> set rs \<and> pf_id r \<noteq> pf_id row)"
  by (auto simp: replace_rule_def split: if_splits)

lemma replace_rule_ids [simp]: "map pf_id (replace_rule row rs) = map pf_id rs" "length (replace_rule row rs) = length rs"
  by (induction rs) (auto simp: replace_rule_def)

lemma conflict_free_replace:
  assumes "conflict_free rs" "\<And>r. r \<in> set rs \<Longrightarrow> pf_id r \<noteq> pf_id row \<Longrightarrow> \<not> rule_conflict row r"
  shows "conflict_free (replace_rule row rs)"
  using assms rule_conflict_sym unfolding conflict_free_def by (metis replace_rule_set)

lemma conflict_free_append:
  assumes "conflict_free rs" "\<And>r. r \<in> set rs \<Longrightarrow> pf_id r \<noteq> pf_id row \<Longrightarrow> \<not> rule_conflict row r"
  shows "conflict_free (rs @ [row])"
  using assms rule_conflict_sym by (auto simp: conflict_free_def)

lemma conflict_free_filter: "conflict_free rs \<Longrightarrow> conflict_free (filter P rs)"
  by (simp add: conflict_free_def)

lemma replace_table_ok [inv_intro]:
  assumes "table_ok tb" "\<exists>r \<in> set (rules tb). pf_id r = pf_id row"
    "\<And>r. r \<in> set (rules tb) \<Longrightarrow> pf_id r \<noteq> pf_id row \<Longrightarrow> \<not> rule_conflict row r"
  shows "table_ok (tb\<lparr>rules := replace_rule row (rules tb)\<rparr>)"
  using assms conflict_free_replace [of "rules tb" row]
  by (auto simp: table_ok_def dest!: replace_rule_set)

lemma filter_table_ok [inv_intro]: "table_ok tb \<Longrightarrow> table_ok (tb\<lparr>rules := filter P (rules tb)\<rparr>)"
  by (auto simp: table_ok_def conflict_free_filter distinct_map_filter intro: order_trans [OF length_filter_le])

lemma upsert_transaction_ok:
  assumes ok: "table_ok tb" and a: "accepted_local (n_local n)"
    and t: "upsert_transaction env pid n tb = Some (tb', row, prev)"
  shows "table_ok tb'"
    and "prev = Some p \<Longrightarrow> p \<in> set (rules tb) \<and> pf_id row = pf_id p \<and> tb' = tb\<lparr>rules := replace_rule row (rules tb)\<rparr>"
proof -
  have v: "validatePortForwardRuleOverlap (rules tb) pid n = None"
    using t by (auto simp: upsert_transaction_def Let_def split: if_splits)
  note nc = validated_no_conflict [OF v a]
  obtain name where name: "rule_name env pid n (rules tb) = Some name"
    using t by (auto simp: upsert_transaction_def Let_def split: if_splits option.splits)
  consider (create) "pid = 0" "prev = None" "row = assign_rule n name (new_row (next_id tb))"
      "tb' = \<lparr>rules = rules tb @ [row], next_id = next_id tb + 1\<rparr>" "length (rules tb) < portForwardRuleMaxCount"
    | (update) q where "pid > 0" "prev = Some q" "find (\<lambda>r. pf_id r = pid) (rules tb) = Some q"
      "row = assign_rule n name q" "tb' = tb\<lparr>rules := replace_rule row (rules tb)\<rparr>"
    using t name by (cases "find (\<lambda>r. pf_id r = pid) (rules tb)") (auto simp: upsert_transaction_def Let_def dest: sym split: if_splits)
  then show "table_ok tb'"
  proof cases
    case create
    have id: "pf_id row = next_id tb" using create by (simp add: new_row_def)
    have "conflict_free (rules tb @ [row])"
      using ok nc create id by (intro conflict_free_append) (auto simp: table_ok_def)
    with create ok id show ?thesis by (auto simp: table_ok_def)
  next
    case update
    have q: "q \<in> set (rules tb)" "pf_id q = pid" using update(3) by (auto simp: find_Some_iff)
    with update ok nc show ?thesis by (auto intro!: replace_table_ok)
  qed
  show "p \<in> set (rules tb) \<and> pf_id row = pf_id p \<and> tb' = tb\<lparr>rules := replace_rule row (rules tb)\<rparr>" if "prev = Some p"
    using t that by (auto simp: upsert_transaction_def Let_def find_Some_iff split: if_splits option.splits)
qed

lemma restore_replaced:
  assumes "distinct (map pf_id rs)" "p \<in> set rs" "pf_id row = pf_id p"
  shows "replace_rule p (replace_rule row rs) = rs"
proof -
  have eq: "p = r" if "r \<in> set rs" "pf_id r = pf_id p" for r
    using assms(1,2) that by (auto simp: distinct_map inj_on_def)
  have "replace_rule p (replace_rule row rs) = map (\<lambda>r. if pf_id r = pf_id p then p else r) rs"
    using assms(3) by (auto simp: replace_rule_def)
  also have "\<dots> = rs" by (rule map_idI) (use eq in auto)
  finally show ?thesis .
qed

lemma undelete_table_ok:
  assumes ok: "table_ok tb" and row: "row \<in> set (rules tb)"
  shows "table_ok (tb\<lparr>rules := filter (\<lambda>r. pf_id r \<noteq> pf_id row) (rules tb) @ [row]\<rparr>)"
proof -
  let ?rs = "filter (\<lambda>r. pf_id r \<noteq> pf_id row) (rules tb)"
  have "length ?rs < length (rules tb)" using row by (intro length_filter_less) auto
  moreover have "conflict_free (?rs @ [row])"
    using ok row by (intro conflict_free_append conflict_free_filter) (auto simp: table_ok_def conflict_free_def)
  ultimately show ?thesis using ok row by (auto simp: table_ok_def distinct_map_filter)
qed

section \<open>Properties\<close>

definition example_rule :: "int \<Rightarrow> normalizedPortForwardRule" where
  "example_rule p = \<lparr>n_name = ''web'', n_description = [], n_enabled = True, n_family = ''ipv4'', n_protocol = ''tcp'',
     n_local = single_port p, n_target_ip = ''10.0.0.2'', n_target_port = 80, n_rate_limit = 0,
     n_traffic_limit = None, n_reset_day = None, n_expiry_date = None\<rparr>"

definition example_pf_env :: pf_env where
  "example_pf_env = \<lparr>available = (\<lambda>n. True), random_index = (\<lambda>n. Some 0)\<rparr>"

lemma example_accepted: "1 \<le> p \<Longrightarrow> p \<le> 65535 \<Longrightarrow> accepted_local (n_local (example_rule p))"
proof -
  assume p: "1 \<le> p" "p \<le> 65535"
  have "normalizePortForwardLocalPorts [] [] p 0 0 = Inr (single_port p)"
    using p by (simp add: normalizePortForwardLocalPorts_def to_lower_def)
  then show ?thesis unfolding accepted_local_def example_rule_def
    by (intro exI [of _ "[]"] exI [of _ p] exI [of _ 0]) (simp add: int64_defs)
qed

text \<open>
  the overlap check is exact. \<open>validatePortForwardRuleOverlap\<close> rejects a rule exactly when the
  rule is enabled and some other enabled rule of a common protocol and family stores a port of it,
  and the rule it names in the error is such a rule.
\<close>

lemma validatePortForwardRuleOverlap_exact:
  "(validatePortForwardRuleOverlap table excludeID row \<noteq> None
      \<longleftrightarrow> n_enabled row \<and> (\<exists>r. r \<in> set table \<and> pf_id r \<noteq> excludeID
             \<and> shares (n_protocol row) (n_family row) (ports_of (row_spans row)) r))
   \<and> (case validatePortForwardRuleOverlap table excludeID row of
        None \<Rightarrow> True
      | Some r \<Rightarrow> r \<in> set table \<and> pf_id r \<noteq> excludeID
                  \<and> shares (n_protocol row) (n_family row) (ports_of (row_spans row)) r)"
proof -
  define rs where "rs = filter (\<lambda>r. pf_id r \<noteq> excludeID) table"
  define P where "P = shares (n_protocol row) (n_family row) (ports_of (row_spans row))"
  have mem: "r \<in> set rs \<longleftrightarrow> r \<in> set table \<and> pf_id r \<noteq> excludeID" for r by (simp add: rs_def)
  have v: "validatePortForwardRuleOverlap table excludeID row = (if n_enabled row then first_conflict row rs else None)"
    by (simp add: validatePortForwardRuleOverlap_def rs_def)
  show ?thesis
    unfolding v P_def [symmetric]
  proof (cases "first_conflict row rs")
    case None
    then have "\<forall>r \<in> set rs. \<not> P r" by (simp only: first_conflict_None P_def)
    with None mem show "((if n_enabled row then first_conflict row rs else None) \<noteq> None
        \<longleftrightarrow> n_enabled row \<and> (\<exists>r. r \<in> set table \<and> pf_id r \<noteq> excludeID \<and> P r))
      \<and> (case if n_enabled row then first_conflict row rs else None of
           None \<Rightarrow> True | Some r \<Rightarrow> r \<in> set table \<and> pf_id r \<noteq> excludeID \<and> P r)" by auto
  next
    case (Some r)
    then have "r \<in> set rs" "P r" using first_conflict_Some [OF Some] by (simp_all only: P_def)
    with Some mem show "((if n_enabled row then first_conflict row rs else None) \<noteq> None
        \<longleftrightarrow> n_enabled row \<and> (\<exists>r. r \<in> set table \<and> pf_id r \<noteq> excludeID \<and> P r))
      \<and> (case if n_enabled row then first_conflict row rs else None of
           None \<Rightarrow> True | Some r \<Rightarrow> r \<in> set table \<and> pf_id r \<noteq> excludeID \<and> P r)" by auto
  qed
qed

text \<open>
  the local ports of an accepted rule. For a count of at most 65536 (and every count in the other
  modes), the stored spans are canonical, the stored first and last port and port count are those of
  the spans, and the stored text parses back to exactly these spans.
\<close>

lemma normalizePortForwardLocalPorts_denotes:
  assumes "normalizePortForwardLocalPorts rawMode rawSpec s n e = Inr lp" "in_int64 n" "n \<le> 65536"
  shows "denotes lp"
proof -
  have "\<not> (s \<le> 65535 \<and> s + n > max_int64 + 1)" using assms(3) by (simp add: max_int64_def)
  with local_ports_cases [OF assms(1,2)] show ?thesis by blast
qed

theorem normalizePortForwardLocalPorts_denotes_example:
  "denotes (port_span 3000 100 3099)"
proof -
  have "trim_space (to_lower ''count'') = ''count''" by code_simp
  then have "normalizePortForwardLocalPorts ''count'' [] 3000 100 0 = Inr (port_span 3000 100 3099)"
    by (simp add: normalizePortForwardLocalPorts_def int64_defs)
  then show ?thesis by (rule normalizePortForwardLocalPorts_denotes) (simp_all add: int64_defs)
qed

text \<open>
  a count close to the largest 64-bit integer passes the bound check of the count mode. The sum of
  start and count wraps around, the computed last port is negative and therefore not above 65535, and
  the rule is accepted with a range that ends before it starts and so holds no port.
\<close>

lemma count_mode_wraps_around:
  assumes "2 \<le> s" "s \<le> 65535" "in_int64 n" "s + n > max_int64 + 1"
  shows "\<exists>lp. normalizePortForwardLocalPorts ''count'' [] s n e = Inr lp \<and> lp_end lp < lp_start lp \<and> ports_of (lp_spans lp) = {}"
proof -
  let ?e = "s + n - 1 - 18446744073709551616"
  have "wrap64 (wrap64 (s + n) - 1) = ?e"
    using count_mode_end [of s n] assms by (auto simp: int64_defs)
  moreover have "trim_space (to_lower ''count'') = ''count''" by code_simp
  ultimately have "normalizePortForwardLocalPorts ''count'' [] s n e = Inr (port_span s n ?e)"
    using assms by (simp add: normalizePortForwardLocalPorts_def int64_defs)
  then show ?thesis using assms by (auto simp: port_span_def int64_defs)
qed

theorem count_mode_wraps_around_example:
  "\<exists>lp. normalizePortForwardLocalPorts ''count'' [] 8080 9223372036854775807 0 = Inr lp \<and> lp_end lp < lp_start lp"
proof -
  have "in_int64 9223372036854775807" by (simp add: int64_defs)
  from count_mode_wraps_around [of 8080, OF _ _ this, of 0] show ?thesis by (auto simp: int64_defs)
qed

end
