(* ===== verification/Port_Forward_Traffic.thy ===== *)
theory Port_Forward_Traffic
  imports Traffic_Accounting Port_Forward_Rules
begin

text \<open>
  Traffic quotas of forwarding rules (\<open>service/port_forward_traffic.go\<close>): one snapshot of the nft
  counters is turned into usage of every rule and of the overview, with independent cursors, a
  monthly reset of the rules and a block reason (expired or quota reached).

  The lemmas show that the delta is a counter cursor like that of the collectors, that sums
  saturate instead of wrapping, that the period tag changes exactly when a boundary passes, and what
  the table of states holds for every rule after a synchronisation. \<open>Port_Forward_Ledger\<close> builds the
  properties on them.
\<close>

section \<open>Arithmetic\<close>

definition portForwardTrafficMaxBytes :: int where
  "portForwardTrafficMaxBytes = 9223372036854775807"

definition maxInt64 :: "int \<Rightarrow> int \<Rightarrow> int" where
  "maxInt64 v floor0 = (if v < floor0 then floor0 else v)"

definition portForwardTrafficCounterDelta :: "int \<Rightarrow> int \<Rightarrow> int" where
  "portForwardTrafficCounterDelta current previous =
     (let c = (if current < 0 then 0 else current); p = (if previous < 0 then 0 else previous)
      in if c \<ge> p then c - p else c)"

definition addPortForwardTrafficBytes :: "int \<Rightarrow> int \<Rightarrow> int" where
  "addPortForwardTrafficBytes left right =
     (let l = (if left < 0 then 0 else left)
      in if right \<le> 0 then l
         else if l > portForwardTrafficMaxBytes - right then portForwardTrafficMaxBytes
         else l + right)"

definition normalizeResetDay :: "int \<Rightarrow> int" where
  "normalizeResetDay v = (if v < 0 then 0 else if v > 31 then 31 else v)"

definition normalizePortForwardTrafficResetDay :: "int \<Rightarrow> int option" where
  "normalizePortForwardTrafficResetDay v = (if v < 0 \<or> v > 31 then None else Some v)"

section \<open>Expiry dates\<close>

text \<open>
  \<open>time.Parse("2006-01-02", s)\<close>: four, two and two digits with dashes, a month of the year and a day
  of that month. The result is the month index and the day; formatting it gives the text back.
\<close>

definition parse_date :: "string \<Rightarrow> (int \<times> int) option" where
  "parse_date s =
     (if length s = 10 \<and> list_all is_digit (take 4 s) \<and> s ! 4 = CHR ''-'' \<and> list_all is_digit (take 2 (drop 5 s))
         \<and> s ! 7 = CHR ''-'' \<and> list_all is_digit (drop 8 s)
      then (let y = int (digits_val (take 4 s)); m = int (digits_val (take 2 (drop 5 s))); d = int (digits_val (drop 8 s));
                k = 12 * y + m - 1
            in if 1 \<le> m \<and> m \<le> 12 \<and> 1 \<le> d \<and> d \<le> month_len k then Some (k, d) else None)
      else None)"

definition normalizeTrafficOverviewExpiryDate :: "string \<Rightarrow> string option" where
  \<comment> \<open>\<open>None\<close> is the error\<close>
  "normalizeTrafficOverviewExpiryDate v =
     (let t = trim_space v in if t = [] then Some [] else map_option (\<lambda>_. t) (parse_date t))"

definition parseTrafficOverviewExpiryDate :: "string \<Rightarrow> location \<Rightarrow> int option" where
  \<comment> \<open>the boundary; the zero time stands for no expiry\<close>
  "parseTrafficOverviewExpiryDate v loc =
     (case normalizeTrafficOverviewExpiryDate v of
        None \<Rightarrow> None
      | Some n \<Rightarrow> (if n = [] then Some zero_time
                  else map_option (\<lambda>(k, d). time_date loc k d 0) (parse_date n)))"

definition isTrafficOverviewExpired :: "int \<Rightarrow> int \<Rightarrow> bool" where
  "isTrafficOverviewExpired boundary now \<longleftrightarrow> boundary \<noteq> zero_time \<and> \<not> now < boundary"

section \<open>Usage of a rule\<close>

record PortForwardRuleTrafficState =
  t_rule :: nat
  LastUpBytes :: int
  LastDownBytes :: int
  UsedUpBytes :: int
  UsedDownBytes :: int
  OverviewLastUpBytes :: int
  OverviewLastDownBytes :: int
  AppliedResetDay :: int
  ResetPeriodTag :: string
  LastResetAt :: int

definition normalizePortForwardTrafficState :: "PortForwardRuleTrafficState \<Rightarrow> PortForwardRuleTrafficState" where
  "normalizePortForwardTrafficState st =
     st\<lparr>LastUpBytes := maxInt64 (LastUpBytes st) 0, LastDownBytes := maxInt64 (LastDownBytes st) 0,
        UsedUpBytes := maxInt64 (UsedUpBytes st) 0, UsedDownBytes := maxInt64 (UsedDownBytes st) 0,
        OverviewLastUpBytes := maxInt64 (OverviewLastUpBytes st) 0, OverviewLastDownBytes := maxInt64 (OverviewLastDownBytes st) 0,
        LastResetAt := maxInt64 (LastResetAt st) 0,
        AppliedResetDay := (if AppliedResetDay st < 0 \<or> AppliedResetDay st > 31 then 0 else AppliedResetDay st),
        ResetPeriodTag := trim_space (ResetPeriodTag st)\<rparr>"

definition applyPortForwardTrafficMonthlyReset ::
    "int \<Rightarrow> location \<Rightarrow> int \<Rightarrow> PortForwardRuleTrafficState \<Rightarrow> bool \<times> PortForwardRuleTrafficState" where
  "applyPortForwardTrafficMonthlyReset resetDay0 loc now st =
     (let resetDay = normalizeResetDay resetDay0
      in if resetDay \<le> 0 then
           (AppliedResetDay st \<noteq> 0 \<or> ResetPeriodTag st \<noteq> [], st\<lparr>AppliedResetDay := 0, ResetPeriodTag := []\<rparr>)
         else let expectedTag = computePeriodTag resetDay loc now
              in if AppliedResetDay st \<noteq> resetDay then
                   (True, st\<lparr>AppliedResetDay := resetDay, ResetPeriodTag := expectedTag\<rparr>)
                 else if ResetPeriodTag st = [] then (True, st\<lparr>ResetPeriodTag := expectedTag\<rparr>)
                 else if ResetPeriodTag st = expectedTag then (False, st)
                 else (True, st\<lparr>ResetPeriodTag := expectedTag, UsedUpBytes := 0, UsedDownBytes := 0, LastResetAt := now\<rparr>))"

record portForwardTrafficRuleRuntime =
  rt_up :: int
  rt_down :: int
  rt_last_reset :: int
  rt_next_reset :: int
  LimitReached :: bool
  rt_expired :: bool
  BlockReason :: string

definition buildPortForwardTrafficRuleRuntime ::
    "PortForwardRule \<Rightarrow> PortForwardRuleTrafficState \<Rightarrow> location \<Rightarrow> int \<Rightarrow> portForwardTrafficRuleRuntime option" where
  "buildPortForwardTrafficRuleRuntime row st loc now =
     (let up = maxInt64 (UsedUpBytes st) 0; down = maxInt64 (UsedDownBytes st) 0;
          nextReset = (case nextClientMonthlyResetBoundary (normalizeResetDay (pf_reset_day row)) loc now of
                         Some b \<Rightarrow> (if b = zero_time then 0 else b) | None \<Rightarrow> 0)
      in case parseTrafficOverviewExpiryDate (pf_expiry_date row) loc of
           None \<Rightarrow> None
         | Some boundary \<Rightarrow>
             (let expired = isTrafficOverviewExpired boundary now;
                  limit = maxInt64 (pf_traffic_limit row) 0;
                  reached = (limit > 0 \<and> addPortForwardTrafficBytes up down \<ge> limit)
              in Some \<lparr>rt_up = up, rt_down = down, rt_last_reset = maxInt64 (LastResetAt st) 0, rt_next_reset = nextReset,
                       LimitReached = reached, rt_expired = expired,
                       BlockReason = (if expired then ''expiry'' else if reached then ''quota'' else [])\<rparr>))"

section \<open>Synchronisation with one counter snapshot\<close>

record pf_overview =
  ov_up :: int
  ov_down :: int

record pf_traffic_db =
  rule_states :: "PortForwardRuleTrafficState list"
  overview :: "pf_overview option"

type_synonym counters = "nat \<Rightarrow> int \<times> int"  \<comment> \<open>the named up and down counter of a rule, zero when absent\<close>

definition fresh_traffic_state :: "nat \<Rightarrow> int \<Rightarrow> int \<Rightarrow> PortForwardRuleTrafficState" where
  "fresh_traffic_state i up down =
     \<lparr>t_rule = i, LastUpBytes = up, LastDownBytes = down, UsedUpBytes = up, UsedDownBytes = down,
      OverviewLastUpBytes = up, OverviewLastDownBytes = down, AppliedResetDay = 0, ResetPeriodTag = [], LastResetAt = 0\<rparr>"

definition zero_traffic_state :: "nat \<Rightarrow> PortForwardRuleTrafficState" where
  "zero_traffic_state i = fresh_traffic_state i 0 0"

definition count_traffic :: "int \<Rightarrow> int \<Rightarrow> PortForwardRuleTrafficState \<Rightarrow> PortForwardRuleTrafficState" where
  "count_traffic rawUp rawDown st =
     st\<lparr>UsedUpBytes := addPortForwardTrafficBytes (UsedUpBytes st) (portForwardTrafficCounterDelta rawUp (LastUpBytes st)),
        UsedDownBytes := addPortForwardTrafficBytes (UsedDownBytes st) (portForwardTrafficCounterDelta rawDown (LastDownBytes st)),
        LastUpBytes := rawUp, LastDownBytes := rawDown, OverviewLastUpBytes := rawUp, OverviewLastDownBytes := rawDown\<rparr>"

definition counter_changed :: "int \<Rightarrow> int \<Rightarrow> PortForwardRuleTrafficState \<Rightarrow> bool" where
  "counter_changed rawUp rawDown st \<longleftrightarrow>
     rawUp \<noteq> LastUpBytes st \<or> rawDown \<noteq> LastDownBytes st \<or> rawUp \<noteq> OverviewLastUpBytes st \<or> rawDown \<noteq> OverviewLastDownBytes st
     \<or> portForwardTrafficCounterDelta rawUp (LastUpBytes st) > 0 \<or> portForwardTrafficCounterDelta rawDown (LastDownBytes st) > 0"

record sync_outcome =
  sr_state :: PortForwardRuleTrafficState
  sr_created :: bool
  sr_changed :: bool
  sr_delta :: "int \<times> int"  \<comment> \<open>what the overview gains\<close>

definition sync_rule ::
    "location \<Rightarrow> int \<Rightarrow> PortForwardRule \<Rightarrow> int \<times> int \<Rightarrow> PortForwardRuleTrafficState option \<Rightarrow> sync_outcome" where
  "sync_rule loc now row raw found =
     (let rawUp = maxInt64 (fst raw) 0; rawDown = maxInt64 (snd raw) 0;
          (st, created, changed, delta) =
            (case found of
               None \<Rightarrow> (fresh_traffic_state (pf_id row) rawUp rawDown, True, False, (0, 0))
             | Some st0 \<Rightarrow>
                 (let st1 = normalizePortForwardTrafficState st0
                  in (count_traffic rawUp rawDown st1, False, st1 \<noteq> st0 \<or> counter_changed rawUp rawDown st1,
                      (portForwardTrafficCounterDelta rawUp (OverviewLastUpBytes st1),
                       portForwardTrafficCounterDelta rawDown (OverviewLastDownBytes st1)))));
          (reset, st') = applyPortForwardTrafficMonthlyReset (pf_reset_day row) loc now st
      in \<lparr>sr_state = st', sr_created = created, sr_changed = (changed \<or> reset), sr_delta = delta\<rparr>)"

definition state_of :: "PortForwardRuleTrafficState list \<Rightarrow> nat \<Rightarrow> PortForwardRuleTrafficState option" where
  \<comment> \<open>\<open>stateByRule\<close>: a later row of the same rule overwrites the entry\<close>
  "state_of sts = map_of (rev (map (\<lambda>s. (t_rule s, s)) sts))"

definition store_sync :: "PortForwardRuleTrafficState list \<Rightarrow> sync_outcome \<Rightarrow> PortForwardRuleTrafficState list" where
  "store_sync sts sr =
     (if sr_created sr then sts @ [sr_state sr]
      else if sr_changed sr then map (\<lambda>s. if t_rule s = t_rule (sr_state sr) then sr_state sr else s) sts
      else sts)"

definition sat_sum :: "int \<Rightarrow> int list \<Rightarrow> int" where
  "sat_sum a ds = foldl addPortForwardTrafficBytes a ds"

definition sync_overview :: "pf_overview option \<Rightarrow> sync_outcome list \<Rightarrow> pf_overview" where
  "sync_overview found srs =
     (case found of
        None \<Rightarrow> \<lparr>ov_up = sat_sum 0 (map (UsedUpBytes \<circ> sr_state) srs), ov_down = sat_sum 0 (map (UsedDownBytes \<circ> sr_state) srs)\<rparr>
      | Some o0 \<Rightarrow>
          \<lparr>ov_up = addPortForwardTrafficBytes (maxInt64 (ov_up o0) 0) (sat_sum 0 (map (fst \<circ> sr_delta) srs)),
           ov_down = addPortForwardTrafficBytes (maxInt64 (ov_down o0) 0) (sat_sum 0 (map (snd \<circ> sr_delta) srs))\<rparr>)"

definition overview_row :: "pf_overview option \<Rightarrow> sync_outcome list \<Rightarrow> pf_overview option" where
  \<comment> \<open>the stored overview: created when missing, saved only when it gained something\<close>
  "overview_row found srs =
     (case found of
        None \<Rightarrow> Some (sync_overview None srs)
      | Some o0 \<Rightarrow>
          (if sat_sum 0 (map (fst \<circ> sr_delta) srs) > 0 \<or> sat_sum 0 (map (snd \<circ> sr_delta) srs) > 0
           then Some (sync_overview (Some o0) srs) else Some o0))"

record portForwardTrafficRuntime =
  rt_rules :: "(nat \<times> portForwardTrafficRuleRuntime) list"
  rt_overview_up :: int
  rt_overview_down :: int

definition syncPortForwardTrafficStateRows ::
    "PortForwardRule list \<Rightarrow> counters \<Rightarrow> location \<Rightarrow> int \<Rightarrow> pf_traffic_db
      \<Rightarrow> (portForwardTrafficRuntime \<times> pf_traffic_db) option" where
  \<comment> \<open>\<open>None\<close>: an unreadable expiry date rolls the transaction back\<close>
  "syncPortForwardTrafficStateRows rows cnt loc now db =
     (let srs = map (\<lambda>row. sync_rule loc now row (cnt (pf_id row)) (state_of (rule_states db) (pf_id row))) rows;
          rts = map2 (\<lambda>row sr. map_option (Pair (pf_id row)) (buildPortForwardTrafficRuleRuntime row (sr_state sr) loc now)) rows srs;
          o1 = sync_overview (overview db) srs
      in if None \<in> set rts then None
         else Some (\<lparr>rt_rules = map the rts, rt_overview_up = ov_up o1, rt_overview_down = ov_down o1\<rparr>,
                    \<lparr>rule_states = foldl store_sync (rule_states db) srs, overview = overview_row (overview db) srs\<rparr>))"

definition loadPortForwardTrafficRuntime ::
    "PortForwardRule list \<Rightarrow> location \<Rightarrow> int \<Rightarrow> pf_traffic_db \<Rightarrow> portForwardTrafficRuntime option" where
  "loadPortForwardTrafficRuntime rows loc now db =
     (let rts = map (\<lambda>row. map_option (Pair (pf_id row))
                   (buildPortForwardTrafficRuleRuntime row
                      (case state_of (map normalizePortForwardTrafficState (rule_states db)) (pf_id row) of
                         Some st \<Rightarrow> st | None \<Rightarrow> zero_traffic_state 0) loc now)) rows;
          o0 = (case overview db of Some o0 \<Rightarrow> o0 | None \<Rightarrow> \<lparr>ov_up = 0, ov_down = 0\<rparr>)
      in if None \<in> set rts then None
         else Some \<lparr>rt_rules = map the rts, rt_overview_up = maxInt64 (ov_up o0) 0, rt_overview_down = maxInt64 (ov_down o0) 0\<rparr>)"

definition portForwardTrafficBlockReasons :: "PortForwardRule list \<Rightarrow> portForwardTrafficRuntime \<Rightarrow> (nat \<times> string) list" where
  "portForwardTrafficBlockReasons rows tr =
     concat (map (\<lambda>row. if \<not> pf_enabled row then []
                        else (let reason = (case map_of (rev (rt_rules tr)) (pf_id row) of
                                              Some r \<Rightarrow> trim_space (BlockReason r) | None \<Rightarrow> [])
                              in if reason = [] then [] else [(pf_id row, reason)])) rows)"

definition reset_rule_state :: "PortForwardRule \<Rightarrow> int \<times> int \<Rightarrow> location \<Rightarrow> int \<Rightarrow> PortForwardRuleTrafficState \<Rightarrow> PortForwardRuleTrafficState" where
  "reset_rule_state rule raw loc now st =
     (let up = maxInt64 (fst raw) 0; down = maxInt64 (snd raw) 0; day = normalizeResetDay (pf_reset_day rule)
      in st\<lparr>LastUpBytes := up, LastDownBytes := down, OverviewLastUpBytes := up, OverviewLastDownBytes := down,
            UsedUpBytes := 0, UsedDownBytes := 0, AppliedResetDay := day,
            ResetPeriodTag := computePeriodTag day loc now, LastResetAt := now\<rparr>)"

record pf_pass =
  \<comment> \<open>what one pass over the forwarding tables meets: the time, the counters (\<open>None\<close> when \<open>nft\<close> fails)
     and whether the chains are in place or can be redrawn\<close>
  pass_now :: int
  pass_counters :: "counters option"
  pass_chains :: bool

definition capturePortForwardTrafficLocked ::
    "bool \<Rightarrow> location \<Rightarrow> PortForwardRule list \<Rightarrow> pf_pass \<Rightarrow> pf_traffic_db \<Rightarrow> (portForwardTrafficRuntime \<times> pf_traffic_db) option" where
  "capturePortForwardTrafficLocked nftHost loc rows p db =
     (if \<not> nftHost then syncPortForwardTrafficStateRows rows (\<lambda>_. (0, 0)) loc (pass_now p) db
      else case pass_counters p of
             None \<Rightarrow> None
           | Some cnt \<Rightarrow> syncPortForwardTrafficStateRows rows cnt loc (pass_now p) db)"

definition render_traffic ::
    "bool \<Rightarrow> location \<Rightarrow> PortForwardRule list \<Rightarrow> pf_pass \<Rightarrow> pf_traffic_db \<Rightarrow> bool \<times> pf_traffic_db" where
  \<comment> \<open>\<open>renderLocked\<close> as far as the traffic states are concerned: a new reading is counted before the
     chains are looked at\<close>
  "render_traffic nftHost loc rows p db =
     (if \<not> nftHost then (True, db)
      else case pass_counters p of
             None \<Rightarrow> (False, db)
           | Some cnt \<Rightarrow>
               (case syncPortForwardTrafficStateRows rows cnt loc (pass_now p) db of
                  None \<Rightarrow> (False, db)
                | Some (_, db') \<Rightarrow> (pass_chains p, db')))"

definition save_state :: "PortForwardRuleTrafficState \<Rightarrow> pf_traffic_db \<Rightarrow> pf_traffic_db" where
  "save_state st db = db\<lparr>rule_states := map (\<lambda>s. if t_rule s = t_rule st then st else s) (rule_states db)\<rparr>"

definition write_reset ::
    "PortForwardRule \<Rightarrow> int \<times> int \<Rightarrow> location \<Rightarrow> int \<Rightarrow> nat \<Rightarrow> PortForwardRuleTrafficState option \<Rightarrow> pf_traffic_db \<Rightarrow> pf_traffic_db" where
  "write_reset rule raw loc now i previous db =
     (case previous of
        Some prev \<Rightarrow> save_state (reset_rule_state rule raw loc now prev) db
      | None \<Rightarrow> db\<lparr>rule_states := rule_states db @ [reset_rule_state rule raw loc now (zero_traffic_state i)]\<rparr>)"

definition undo_reset :: "nat \<Rightarrow> PortForwardRuleTrafficState option \<Rightarrow> pf_traffic_db \<Rightarrow> pf_traffic_db" where
  "undo_reset i previous db =
     (case previous of
        Some prev \<Rightarrow> save_state prev db
      | None \<Rightarrow> db\<lparr>rule_states := filter (\<lambda>s. t_rule s \<noteq> i) (rule_states db)\<rparr>)"

definition reset_baseline :: "bool \<Rightarrow> counters option \<Rightarrow> pf_pass \<Rightarrow> nat \<Rightarrow> int \<times> int" where
  \<comment> \<open>the counters of \<open>portForwardState.nftSnapshot\<close> after the capture: without nft the capture reads
     nothing, and the snapshot an earlier pass left is still there\<close>
  "reset_baseline nftHost kept p i =
     (case (if nftHost then pass_counters p else kept) of Some cnt \<Rightarrow> cnt i | None \<Rightarrow> (0, 0))"

definition ResetRuleTraffic ::
    "bool \<Rightarrow> location \<Rightarrow> counters option \<Rightarrow> bool \<Rightarrow> PortForwardRule list \<Rightarrow> pf_pass \<Rightarrow> pf_pass \<Rightarrow> pf_pass \<Rightarrow> nat \<Rightarrow> pf_traffic_db \<Rightarrow> bool \<times> pf_traffic_db" where
  \<comment> \<open>\<open>kept\<close>: the snapshot in memory; \<open>restored\<close>: the statement that takes the reset back succeeds\<close>
  "ResetRuleTraffic nftHost loc kept restored rows p1 p2 p3 i db =
     (case find (\<lambda>r. pf_id r = i) rows of
        None \<Rightarrow> (False, db)
      | Some rule \<Rightarrow>
          (case capturePortForwardTrafficLocked nftHost loc rows p1 db of
             None \<Rightarrow> (False, db)
           | Some (_, db1) \<Rightarrow>
               (let raw = reset_baseline nftHost kept p1 i;
                    previous = find (\<lambda>s. t_rule s = i) (rule_states db1);
                    (ok, db2) = render_traffic nftHost loc rows p2 (write_reset rule raw loc (pass_now p1) i previous db1)
                in if ok then (True, db2)
                   else (False, snd (render_traffic nftHost loc rows p3 (if restored then undo_reset i previous db2 else db2))))))"

definition ResetOverviewTraffic ::
    "bool \<Rightarrow> location \<Rightarrow> bool \<Rightarrow> PortForwardRule list \<Rightarrow> pf_pass \<Rightarrow> pf_pass \<Rightarrow> pf_pass \<Rightarrow> pf_traffic_db \<Rightarrow> bool \<times> pf_traffic_db" where
  "ResetOverviewTraffic nftHost loc restored rows p1 p2 p3 db =
     (case capturePortForwardTrafficLocked nftHost loc rows p1 db of
        None \<Rightarrow> (False, db)
      | Some (_, db1) \<Rightarrow>
          (let (ok, db2) = render_traffic nftHost loc rows p2 (db1\<lparr>overview := Some \<lparr>ov_up = 0, ov_down = 0\<rparr>\<rparr>)
           in if ok then (True, db2)
              else (False, snd (render_traffic nftHost loc rows p3 (if restored then db2\<lparr>overview := overview db1\<rparr> else db2)))))"

section \<open>Saturating sums and cursors\<close>

lemma add_eq:
  "0 \<le> a \<Longrightarrow> a \<le> portForwardTrafficMaxBytes \<Longrightarrow> 0 \<le> b
     \<Longrightarrow> addPortForwardTrafficBytes a b = min portForwardTrafficMaxBytes (a + b)"
  by (auto simp: addPortForwardTrafficBytes_def Let_def min_def)

lemma add_zero [simp]: "0 \<le> a \<Longrightarrow> addPortForwardTrafficBytes a 0 = a"
  by (simp add: addPortForwardTrafficBytes_def)

lemma maxInt64_simps [simp]: "0 \<le> x \<Longrightarrow> maxInt64 x 0 = x" "0 \<le> maxInt64 x 0" "maxInt64 (maxInt64 x 0) 0 = maxInt64 x 0"
  by (simp_all add: maxInt64_def)

lemma delta_same [simp]: "0 \<le> x \<Longrightarrow> portForwardTrafficCounterDelta x x = 0"
  by (simp add: portForwardTrafficCounterDelta_def)

interpretation forward: counter_cursor "\<lambda>prev cur. portForwardTrafficCounterDelta cur prev"
  by unfold_locales (simp_all add: portForwardTrafficCounterDelta_def)

lemma delta_nonneg [simp]: "0 \<le> portForwardTrafficCounterDelta c p"
  by (simp add: portForwardTrafficCounterDelta_def Let_def)

lemma sat_sum_eq:
  assumes "0 \<le> a" "a \<le> portForwardTrafficMaxBytes" "\<forall>d \<in> set ds. 0 \<le> d"
  shows "sat_sum a ds = min portForwardTrafficMaxBytes (a + sum_list ds)"
  using assms
proof (induction ds arbitrary: a)
  case (Cons d ds)
  have "0 \<le> sum_list ds" using Cons.prems by (intro sum_list_nonneg) simp
  moreover have "sat_sum (addPortForwardTrafficBytes a d) ds
      = min portForwardTrafficMaxBytes (addPortForwardTrafficBytes a d + sum_list ds)"
    using Cons.prems by (intro Cons.IH) (auto simp: add_eq portForwardTrafficMaxBytes_def)
  ultimately show ?case using Cons.prems by (simp add: sat_sum_def add_eq)
qed (simp add: sat_sum_def)

section \<open>The monthly reset\<close>

lemma normalizeResetDay_id: "1 \<le> d \<Longrightarrow> d \<le> 31 \<Longrightarrow> normalizeResetDay d = d \<and> normalizeClientResetDay d = d"
  by (simp add: normalizeResetDay_def normalizeClientResetDay_def)

context regular_location
begin

lemma period_tag_eq:
  assumes d: "1 \<le> d" "d \<le> 31" and t: "t0 \<le> now"
    and b: "latestClientMonthlyResetBoundary d loc t0 = Some b0" "0 \<le> b0"
  shows "computePeriodTag d loc now = computePeriodTag d loc t0 \<longleftrightarrow> \<not> shouldResetClientTrafficMonthly t0 d loc now"
    and "computePeriodTag d loc t0 \<noteq> []"
proof -
  have n: "normalizeClientResetDay d = d" using normalizeResetDay_id [OF d] by simp
  obtain k0 where k0: "latestClientMonthlyResetBoundary d loc t0 = Some (boundary_at loc d k0)"
    "boundary_at loc d k0 \<le> t0" "t0 < boundary_at loc d (k0 + 1)"
    by (rule latest_next_cases [OF d(1) n, of t0])
  obtain k where k: "latestClientMonthlyResetBoundary d loc now = Some (boundary_at loc d k)"
    "boundary_at loc d k \<le> now" "now < boundary_at loc d (k + 1)"
    by (rule latest_next_cases [OF d(1) n, of now])
  have b0: "b0 = boundary_at loc d k0" using b(1) k0(1) by simp
  have kk: "k0 \<le> k"
  proof (rule ccontr)
    assume "\<not> k0 \<le> k"
    then have "boundary_at loc d (k + 1) \<le> boundary_at loc d k0" by (intro boundary_mono [OF d(1)]) simp
    with k(3) k0(2) t show False by linarith
  qed
  then have le: "boundary_at loc d k0 \<le> boundary_at loc d k" by (rule boundary_mono [OF d(1)])
  have tags: "computePeriodTag d loc now = ''boundary:'' @ itoa (boundary_at loc d k)"
    "computePeriodTag d loc t0 = ''boundary:'' @ itoa (boundary_at loc d k0)"
    using k k0 b0 b(2) le d by (simp_all add: computePeriodTag_def zero_time_def)
  then show "computePeriodTag d loc t0 \<noteq> []" by simp
  have "shouldResetClientTrafficMonthly t0 d loc now \<longleftrightarrow> t0 < boundary_at loc d k"
    using k b0 b(2) le by (auto simp: shouldResetClientTrafficMonthly_def zero_time_def)
  also have "\<dots> \<longleftrightarrow> k0 \<noteq> k"
  proof
    assume "t0 < boundary_at loc d k" then show "k0 \<noteq> k" using k0(2) by auto
  next
    assume "k0 \<noteq> k"
    with kk have "boundary_at loc d (k0 + 1) \<le> boundary_at loc d k" by (intro boundary_mono [OF d(1)]) simp
    with k0(3) show "t0 < boundary_at loc d k" by linarith
  qed
  also have "\<dots> \<longleftrightarrow> boundary_at loc d k0 \<noteq> boundary_at loc d k"
    using kk boundary_strict [OF d(1), of k0 k] by (cases "k0 = k") auto
  finally show "computePeriodTag d loc now = computePeriodTag d loc t0 \<longleftrightarrow> \<not> shouldResetClientTrafficMonthly t0 d loc now"
    using tags itoa_inj by auto
qed

end

section \<open>A synchronised state\<close>

definition state_ok :: "PortForwardRuleTrafficState \<Rightarrow> bool" where
  \<comment> \<open>what \<open>normalizePortForwardTrafficState\<close> establishes, within the 64-bit range\<close>
  "state_ok st \<longleftrightarrow>
     0 \<le> LastUpBytes st \<and> 0 \<le> LastDownBytes st \<and> 0 \<le> OverviewLastUpBytes st \<and> 0 \<le> OverviewLastDownBytes st
     \<and> 0 \<le> UsedUpBytes st \<and> UsedUpBytes st \<le> portForwardTrafficMaxBytes
     \<and> 0 \<le> UsedDownBytes st \<and> UsedDownBytes st \<le> portForwardTrafficMaxBytes
     \<and> 0 \<le> LastResetAt st \<and> 0 \<le> AppliedResetDay st \<and> AppliedResetDay st \<le> 31
     \<and> trim_space (ResetPeriodTag st) = ResetPeriodTag st"

lemma normalize_id: "state_ok st \<Longrightarrow> normalizePortForwardTrafficState st = st"
  by (simp add: normalizePortForwardTrafficState_def state_ok_def)

lemma normalize_ok:
  "UsedUpBytes st \<le> portForwardTrafficMaxBytes \<Longrightarrow> UsedDownBytes st \<le> portForwardTrafficMaxBytes
     \<Longrightarrow> state_ok (normalizePortForwardTrafficState st)"
  by (simp add: state_ok_def normalizePortForwardTrafficState_def maxInt64_def portForwardTrafficMaxBytes_def)

lemma count_traffic_ok: "state_ok st \<Longrightarrow> 0 \<le> u \<Longrightarrow> 0 \<le> v \<Longrightarrow> state_ok (count_traffic u v st)"
  by (simp add: state_ok_def count_traffic_def add_eq portForwardTrafficMaxBytes_def)

lemma count_traffic_same:
  assumes "state_ok st" "u = LastUpBytes st" "v = LastDownBytes st" "u = OverviewLastUpBytes st" "v = OverviewLastDownBytes st"
  shows "count_traffic u v st = st"
proof -
  have "count_traffic (LastUpBytes st) (LastDownBytes st) st = st\<lparr>LastUpBytes := LastUpBytes st, LastDownBytes := LastDownBytes st,
      OverviewLastUpBytes := OverviewLastUpBytes st, OverviewLastDownBytes := OverviewLastDownBytes st\<rparr>"
    using assms by (simp add: count_traffic_def state_ok_def)
  with assms show ?thesis by simp
qed

lemma trim_period_tag: "trim_space (computePeriodTag d loc now) = computePeriodTag d loc now"
proof -
  have plain: "plain_char (last (itoa b))" for b
    using itoa_ends [of b] digit_not_other(7) nat_digits_in [of "last (nat_digits (nat (- b)))" "nat (- b)"]
    by (cases "0 \<le> b") (auto simp: itoa_def)
  have "plain_char (CHR ''b'')" by (simp add: plain_char_def)
  then have "trim_space (''boundary:'' @ itoa b) = ''boundary:'' @ itoa b" for b
    using plain [of b] by simp
  then show ?thesis by (simp add: computePeriodTag_def split: option.split)
qed

lemma monthly_reset_ok:
  "state_ok st \<Longrightarrow> 0 \<le> now \<Longrightarrow> state_ok (snd (applyPortForwardTrafficMonthlyReset d loc now st))"
proof -
  assume ok: "state_ok st" and now: "0 \<le> now"
  have "state_ok (st\<lparr>AppliedResetDay := normalizeResetDay d, ResetPeriodTag := computePeriodTag e loc now\<rparr>)"
    "state_ok (st\<lparr>AppliedResetDay := 0, ResetPeriodTag := []\<rparr>)"
    "state_ok (st\<lparr>ResetPeriodTag := computePeriodTag e loc now\<rparr>)"
    "state_ok (st\<lparr>ResetPeriodTag := computePeriodTag e loc now, UsedUpBytes := 0, UsedDownBytes := 0, LastResetAt := now\<rparr>)" for e
    using ok now trim_period_tag by (simp_all add: state_ok_def normalizeResetDay_def portForwardTrafficMaxBytes_def)
  with ok show ?thesis by (simp add: applyPortForwardTrafficMonthlyReset_def Let_def)
qed

lemma monthly_reset_settled:
  "snd (applyPortForwardTrafficMonthlyReset d loc now (snd (applyPortForwardTrafficMonthlyReset d loc now st)))
     = snd (applyPortForwardTrafficMonthlyReset d loc now st)"
  by (simp add: applyPortForwardTrafficMonthlyReset_def Let_def)

lemma monthly_reset_quiet:
  "\<not> fst (applyPortForwardTrafficMonthlyReset d loc now st) \<Longrightarrow> snd (applyPortForwardTrafficMonthlyReset d loc now st) = st"
  by (auto simp: applyPortForwardTrafficMonthlyReset_def Let_def split: if_splits)

lemma monthly_reset_fields [simp]:
  "t_rule (snd (applyPortForwardTrafficMonthlyReset d loc now st)) = t_rule st"
  "LastUpBytes (snd (applyPortForwardTrafficMonthlyReset d loc now st)) = LastUpBytes st"
  "LastDownBytes (snd (applyPortForwardTrafficMonthlyReset d loc now st)) = LastDownBytes st"
  "OverviewLastUpBytes (snd (applyPortForwardTrafficMonthlyReset d loc now st)) = OverviewLastUpBytes st"
  "OverviewLastDownBytes (snd (applyPortForwardTrafficMonthlyReset d loc now st)) = OverviewLastDownBytes st"
  by (simp_all add: applyPortForwardTrafficMonthlyReset_def Let_def)

definition base_state :: "PortForwardRule \<Rightarrow> int \<times> int \<Rightarrow> PortForwardRuleTrafficState option \<Rightarrow> PortForwardRuleTrafficState" where
  \<comment> \<open>the state of a rule with the snapshot counted, before the monthly reset\<close>
  "base_state row raw found =
     (case found of
        None \<Rightarrow> fresh_traffic_state (pf_id row) (maxInt64 (fst raw) 0) (maxInt64 (snd raw) 0)
      | Some st \<Rightarrow> count_traffic (maxInt64 (fst raw) 0) (maxInt64 (snd raw) 0) (normalizePortForwardTrafficState st))"

lemma sync_rule_fields:
  "sr_state (sync_rule loc now row raw found)
     = snd (applyPortForwardTrafficMonthlyReset (pf_reset_day row) loc now (base_state row raw found))"
  "sr_created (sync_rule loc now row raw found) \<longleftrightarrow> found = None"
  "sr_delta (sync_rule loc now row raw found) =
     (case found of None \<Rightarrow> (0, 0)
      | Some st \<Rightarrow> (portForwardTrafficCounterDelta (maxInt64 (fst raw) 0) (OverviewLastUpBytes (normalizePortForwardTrafficState st)),
                   portForwardTrafficCounterDelta (maxInt64 (snd raw) 0) (OverviewLastDownBytes (normalizePortForwardTrafficState st))))"
  by (simp_all add: sync_rule_def base_state_def Let_def split: option.split prod.split)

lemma sync_rule_unchanged:
  assumes "\<not> sr_changed (sync_rule loc now row raw (Some st))" "UsedUpBytes st \<le> portForwardTrafficMaxBytes"
    "UsedDownBytes st \<le> portForwardTrafficMaxBytes"
  shows "sr_state (sync_rule loc now row raw (Some st)) = st"
proof -
  let ?u = "maxInt64 (fst raw) 0" and ?v = "maxInt64 (snd raw) 0" and ?st = "normalizePortForwardTrafficState st"
  have c: "?st = st" "\<not> counter_changed ?u ?v ?st"
    "\<not> fst (applyPortForwardTrafficMonthlyReset (pf_reset_day row) loc now (count_traffic ?u ?v ?st))"
    using assms(1) by (auto simp: sync_rule_def Let_def split: prod.splits)
  have "state_ok st" using normalize_ok [OF assms(2,3)] c(1) by simp
  then have "count_traffic ?u ?v st = st"
    using c(1,2) by (intro count_traffic_same) (auto simp: counter_changed_def)
  with c monthly_reset_quiet [of "pf_reset_day row" loc now st] show ?thesis
    by (simp add: sync_rule_fields base_state_def)
qed

section \<open>The stored states after a synchronisation\<close>

definition states_ok :: "PortForwardRuleTrafficState list \<Rightarrow> bool" where
  "states_ok sts \<longleftrightarrow> distinct (map t_rule sts)
     \<and> list_all (\<lambda>s. UsedUpBytes s \<le> portForwardTrafficMaxBytes \<and> UsedDownBytes s \<le> portForwardTrafficMaxBytes) sts"

lemma state_of_Some:
  assumes "distinct (map t_rule sts)"
  shows "state_of sts i = Some st \<longleftrightarrow> st \<in> set sts \<and> t_rule st = i"
proof -
  have "distinct (map fst (rev (map (\<lambda>s. (t_rule s, s)) sts)))"
    using assms by (simp add: rev_map [symmetric] o_def)
  then have "state_of sts i = Some st \<longleftrightarrow> (i, st) \<in> set (rev (map (\<lambda>s. (t_rule s, s)) sts))"
    unfolding state_of_def by (rule map_of_eq_Some_iff)
  then show ?thesis by auto
qed

lemma state_of_None: "state_of sts i = None \<longleftrightarrow> i \<notin> t_rule ` set sts"
  by (force simp: state_of_def map_of_eq_None_iff)

lemma state_of_append: "state_of (sts @ [st]) = (state_of sts)(t_rule st \<mapsto> st)"
  by (simp add: state_of_def)

lemma state_of_update:
  assumes "t_rule st = i"
  shows "state_of (map (\<lambda>s. if t_rule s = i then st else s) sts) j
           = (if j = i \<and> i \<in> t_rule ` set sts then Some st else state_of sts j)"
  using assms
proof (induction sts rule: rev_induct)
  case Nil
  then show ?case by (simp add: state_of_def)
next
  case (snoc s sts)
  then show ?case by (auto simp: state_of_append)
qed

definition fitting :: "PortForwardRuleTrafficState list \<Rightarrow> sync_outcome \<Rightarrow> bool" where
  \<comment> \<open>the outcome for one rule fits the stored table\<close>
  "fitting sts sr \<longleftrightarrow>
     (if sr_created sr then t_rule (sr_state sr) \<notin> t_rule ` set sts
      else t_rule (sr_state sr) \<in> t_rule ` set sts
           \<and> (\<not> sr_changed sr \<longrightarrow> state_of sts (t_rule (sr_state sr)) = Some (sr_state sr)))"

lemma store_sync_lookup:
  "fitting sts sr \<Longrightarrow> state_of (store_sync sts sr) j = (if j = t_rule (sr_state sr) then Some (sr_state sr) else state_of sts j)"
  using state_of_update [OF refl, of "sr_state sr" sts j]
  by (auto simp: fitting_def store_sync_def state_of_append)

lemma store_sync_rules: "fitting sts sr \<Longrightarrow> t_rule ` set (store_sync sts sr) = insert (t_rule (sr_state sr)) (t_rule ` set sts)"
  by (auto simp: fitting_def store_sync_def split: if_splits)

lemma store_sync_distinct: "fitting sts sr \<Longrightarrow> distinct (map t_rule sts) \<Longrightarrow> distinct (map t_rule (store_sync sts sr))"
proof -
  assume f: "fitting sts sr" and d: "distinct (map t_rule sts)"
  have "map t_rule (map (\<lambda>s. if t_rule s = t_rule (sr_state sr) then sr_state sr else s) sts) = map t_rule sts" by simp
  with f d show ?thesis unfolding store_sync_def fitting_def by (simp split: if_splits del: map_map)
qed

lemma store_all_lookup:
  assumes "distinct (map (t_rule \<circ> sr_state) srs)" "\<forall>sr \<in> set srs. fitting sts sr"
  shows "state_of (foldl store_sync sts srs) j
           = (case find (\<lambda>sr. t_rule (sr_state sr) = j) srs of Some sr \<Rightarrow> Some (sr_state sr) | None \<Rightarrow> state_of sts j)
         \<and> (distinct (map t_rule sts) \<longrightarrow> distinct (map t_rule (foldl store_sync sts srs)))"
  using assms
proof (induction srs arbitrary: sts)
  case (Cons sr srs)
  have f: "fitting sts sr" using Cons.prems by simp
  have "fitting (store_sync sts sr) sr'" if "sr' \<in> set srs" for sr'
  proof -
    have "t_rule (sr_state sr) \<notin> (t_rule \<circ> sr_state) ` set srs" using Cons.prems(1) by simp
    moreover have "(t_rule \<circ> sr_state) sr' \<in> (t_rule \<circ> sr_state) ` set srs" using that by (rule imageI)
    ultimately have "t_rule (sr_state sr') \<noteq> t_rule (sr_state sr)" by auto
    moreover have "fitting sts sr'" using that Cons.prems(2) by simp
    ultimately show ?thesis using store_sync_rules [OF f] store_sync_lookup [OF f] by (auto simp: fitting_def)
  qed
  then have "state_of (foldl store_sync (store_sync sts sr) srs) j
      = (case find (\<lambda>sr. t_rule (sr_state sr) = j) srs of Some sr \<Rightarrow> Some (sr_state sr) | None \<Rightarrow> state_of (store_sync sts sr) j)
      \<and> (distinct (map t_rule (store_sync sts sr)) \<longrightarrow> distinct (map t_rule (foldl store_sync (store_sync sts sr) srs)))"
    using Cons.prems by (intro Cons.IH) auto
  moreover have "find (\<lambda>sr'. t_rule (sr_state sr') = t_rule (sr_state sr)) srs = None"
    using Cons.prems(1) by (auto simp: find_None_iff) (metis comp_apply image_eqI)
  ultimately show ?case
    using store_sync_lookup [OF f, of j] store_sync_distinct [OF f]
    by (cases "j = t_rule (sr_state sr)") (auto split: option.splits)
qed simp

definition sync_rows ::
    "PortForwardRule list \<Rightarrow> counters \<Rightarrow> location \<Rightarrow> int \<Rightarrow> PortForwardRuleTrafficState list \<Rightarrow> sync_outcome list" where
  "sync_rows rows cnt loc now sts = map (\<lambda>row. sync_rule loc now row (cnt (pf_id row)) (state_of sts (pf_id row))) rows"

lemma base_state_rule:
  assumes "distinct (map t_rule sts)"
  shows "t_rule (base_state row raw (state_of sts (pf_id row))) = pf_id row"
proof (cases "state_of sts (pf_id row)")
  case None
  then show ?thesis by (simp add: base_state_def fresh_traffic_state_def)
next
  case (Some st)
  then have "t_rule st = pf_id row" using state_of_Some [OF assms] by blast
  with Some show ?thesis by (simp add: base_state_def count_traffic_def normalizePortForwardTrafficState_def)
qed

lemma sync_rows_fit:
  assumes "states_ok sts" "sr \<in> set (sync_rows rows cnt loc now sts)"
  shows "fitting sts sr"
proof -
  have d: "distinct (map t_rule sts)" using assms(1) by (simp add: states_ok_def)
  obtain row where sr: "sr = sync_rule loc now row (cnt (pf_id row)) (state_of sts (pf_id row))"
    using assms(2) by (auto simp: sync_rows_def)
  have rule: "t_rule (sr_state sr) = pf_id row" using base_state_rule [OF d] by (simp add: sr sync_rule_fields)
  show ?thesis
  proof (cases "state_of sts (pf_id row)")
    case None
    then show ?thesis using rule by (simp add: fitting_def sr sync_rule_fields state_of_None)
  next
    case (Some st)
    then have "UsedUpBytes st \<le> portForwardTrafficMaxBytes" "UsedDownBytes st \<le> portForwardTrafficMaxBytes"
      using assms(1) d by (auto simp: states_ok_def state_of_Some list_all_iff)
    then have "\<not> sr_changed sr \<Longrightarrow> sr_state sr = st" using sync_rule_unchanged Some by (simp add: sr)
    moreover have "pf_id row \<in> t_rule ` set sts" using Some state_of_None [of sts "pf_id row"] by auto
    moreover have "\<not> sr_created sr" using Some by (simp add: sr sync_rule_fields)
    ultimately show ?thesis using Some rule by (auto simp: fitting_def)
  qed
qed

lemma sync_lookup:
  assumes ok: "states_ok sts" and d: "distinct (map pf_id rows)"
  shows "state_of (foldl store_sync sts (sync_rows rows cnt loc now sts)) j =
      (case find (\<lambda>row. pf_id row = j) rows of
         Some row \<Rightarrow> Some (snd (applyPortForwardTrafficMonthlyReset (pf_reset_day row) loc now (base_state row (cnt j) (state_of sts j))))
       | None \<Rightarrow> state_of sts j)"
    and "distinct (map t_rule (foldl store_sync sts (sync_rows rows cnt loc now sts)))"
proof -
  have ds: "distinct (map t_rule sts)" using ok by (simp add: states_ok_def)
  have rule: "t_rule (sr_state (sync_rule loc now row (cnt (pf_id row)) (state_of sts (pf_id row)))) = pf_id row" for row
    using base_state_rule [OF ds] by (simp add: sync_rule_fields)
  then have keys: "map (t_rule \<circ> sr_state) (sync_rows rows cnt loc now sts) = map pf_id rows"
    by (simp add: sync_rows_def)
  note all = store_all_lookup [of "sync_rows rows cnt loc now sts" sts, unfolded keys, OF d]
  have fit: "\<forall>sr \<in> set (sync_rows rows cnt loc now sts). fitting sts sr" using sync_rows_fit [OF ok] by blast
  have fnd: "find (\<lambda>sr. t_rule (sr_state sr) = j) (sync_rows rows cnt loc now sts)
      = map_option (\<lambda>row. sync_rule loc now row (cnt (pf_id row)) (state_of sts (pf_id row))) (find (\<lambda>row. pf_id row = j) rows)"
    unfolding sync_rows_def by (induction rows) (simp_all add: rule)
  show "distinct (map t_rule (foldl store_sync sts (sync_rows rows cnt loc now sts)))" using all [OF fit, of j] ds by simp
  show "state_of (foldl store_sync sts (sync_rows rows cnt loc now sts)) j =
      (case find (\<lambda>row. pf_id row = j) rows of
         Some row \<Rightarrow> Some (snd (applyPortForwardTrafficMonthlyReset (pf_reset_day row) loc now (base_state row (cnt j) (state_of sts j))))
       | None \<Rightarrow> state_of sts j)"
  proof (cases "find (\<lambda>row. pf_id row = j) rows")
    case None
    then show ?thesis using all [OF fit, of j] by (simp add: fnd)
  next
    case (Some row)
    then have "pf_id row = j" by (auto simp: find_Some_iff)
    with Some show ?thesis using all [OF fit, of j] by (simp add: fnd sync_rule_fields)
  qed
qed

end
