(* ===== verification/Port_Forward_Ledger.thy ===== *)
theory Port_Forward_Ledger
  imports Port_Forward_Traffic
begin

text \<open>
  What the traffic database of forwarding rules promises (\<open>service/port_forward_traffic.go\<close>): an
  invariant of every database reachable by synchronisations, new and deleted rules and resets, the
  exact effect of one synchronisation and of a reset, and what a failed reset leaves behind.
\<close>

section \<open>The overview after a synchronisation\<close>

lemma sync_Some:
  assumes "syncPortForwardTrafficStateRows rows cnt loc now db = Some (rt, db')"
  shows "rule_states db' = foldl store_sync (rule_states db) (sync_rows rows cnt loc now (rule_states db))"
    and "overview db' = overview_row (overview db) (sync_rows rows cnt loc now (rule_states db))"
  using assms by (auto simp: syncPortForwardTrafficStateRows_def sync_rows_def Let_def split: if_splits)

definition overview_in_range :: "pf_overview \<Rightarrow> bool" where
  "overview_in_range w \<longleftrightarrow> 0 \<le> ov_up w \<and> ov_up w \<le> portForwardTrafficMaxBytes
     \<and> 0 \<le> ov_down w \<and> ov_down w \<le> portForwardTrafficMaxBytes"

lemma sync_delta_nonneg:
  assumes "sr \<in> set (sync_rows rows cnt loc now sts)"
  shows "0 \<le> fst (sr_delta sr)" "0 \<le> snd (sr_delta sr)"
  using assms by (auto simp: sync_rows_def sync_rule_fields split: option.split)

lemma overview_row_gain:
  assumes o: "overview_in_range w" and nn: "\<forall>sr \<in> set srs. 0 \<le> fst (sr_delta sr) \<and> 0 \<le> snd (sr_delta sr)"
  shows "overview_row (Some w) srs =
     Some \<lparr>ov_up = min portForwardTrafficMaxBytes (ov_up w + sum_list (map (fst \<circ> sr_delta) srs)),
           ov_down = min portForwardTrafficMaxBytes (ov_down w + sum_list (map (snd \<circ> sr_delta) srs))\<rparr>"
proof -
  let ?u = "sum_list (map (fst \<circ> sr_delta) srs)" and ?d = "sum_list (map (snd \<circ> sr_delta) srs)"
  have nonneg: "0 \<le> ?u" "0 \<le> ?d" using nn by (auto intro!: sum_list_nonneg)
  have s: "sat_sum 0 (map (fst \<circ> sr_delta) srs) = min portForwardTrafficMaxBytes ?u"
    "sat_sum 0 (map (snd \<circ> sr_delta) srs) = min portForwardTrafficMaxBytes ?d"
    using nn by (subst sat_sum_eq; auto simp: portForwardTrafficMaxBytes_def)+
  have m: "0 < portForwardTrafficMaxBytes" by (simp add: portForwardTrafficMaxBytes_def)
  have absorb: "0 \<le> a \<Longrightarrow> min portForwardTrafficMaxBytes (a + min portForwardTrafficMaxBytes b) = min portForwardTrafficMaxBytes (a + b)" for a b
    using m by auto
  show ?thesis
  proof (cases "?u = 0 \<and> ?d = 0")
    case True
    then show ?thesis using o s m by (cases w) (simp add: overview_row_def overview_in_range_def)
  next
    case False
    then have "min portForwardTrafficMaxBytes ?u > 0 \<or> min portForwardTrafficMaxBytes ?d > 0" using nonneg m by auto
    then show ?thesis
      using o s m nonneg
      by (simp add: overview_row_def sync_overview_def overview_in_range_def add_eq absorb del: min_less_iff_conj)
  qed
qed

lemma sat_sum_range:
  assumes "\<forall>d \<in> set ds. 0 \<le> d"
  shows "0 \<le> sat_sum 0 ds \<and> sat_sum 0 ds \<le> portForwardTrafficMaxBytes"
  using sat_sum_eq [of 0 ds] assms sum_list_nonneg [of ds] by (auto simp: portForwardTrafficMaxBytes_def)

lemma overview_row_range:
  assumes row: "overview_row found srs = Some w" and ok: "\<And>v. found = Some v \<Longrightarrow> overview_in_range v"
    and nn: "\<And>sr. sr \<in> set srs \<Longrightarrow> 0 \<le> UsedUpBytes (sr_state sr) \<and> 0 \<le> UsedDownBytes (sr_state sr)
        \<and> 0 \<le> fst (sr_delta sr) \<and> 0 \<le> snd (sr_delta sr)"
  shows "overview_in_range w"
proof (cases found)
  case None
  have "overview_in_range (sync_overview None srs)"
    using nn sat_sum_range by (simp add: overview_in_range_def sync_overview_def)
  with None row show ?thesis by (simp add: overview_row_def)
next
  case (Some v)
  have "0 \<le> sum_list (map (fst \<circ> sr_delta) srs)" "0 \<le> sum_list (map (snd \<circ> sr_delta) srs)"
    using nn by (auto intro!: sum_list_nonneg)
  with overview_row_gain [OF ok [OF Some], of srs] nn ok [OF Some] row Some show ?thesis
    by (auto simp: overview_in_range_def portForwardTrafficMaxBytes_def)
qed

section \<open>The invariant of the stored states\<close>

definition cursors_agree :: "PortForwardRuleTrafficState \<Rightarrow> bool" where
  "cursors_agree st \<longleftrightarrow> OverviewLastUpBytes st = LastUpBytes st \<and> OverviewLastDownBytes st = LastDownBytes st"

definition traffic_inv :: "pf_traffic_db \<Rightarrow> bool" where
  "traffic_inv db \<longleftrightarrow> distinct (map t_rule (rule_states db))
     \<and> (\<forall>st \<in> set (rule_states db). state_ok st \<and> cursors_agree st)
     \<and> (\<forall>w. overview db = Some w \<longrightarrow> overview_in_range w)"

definition counters_ok :: "counters \<Rightarrow> bool" where
  \<comment> \<open>readings are 64-bit integers\<close>
  "counters_ok cnt \<longleftrightarrow> (\<forall>i. fst (cnt i) \<le> portForwardTrafficMaxBytes \<and> snd (cnt i) \<le> portForwardTrafficMaxBytes)"

definition pass_ok :: "pf_pass \<Rightarrow> bool" where
  "pass_ok p \<longleftrightarrow> 0 \<le> pass_now p \<and> (\<forall>cnt. pass_counters p = Some cnt \<longrightarrow> counters_ok cnt)"

lemma inv_states_ok: "traffic_inv db \<Longrightarrow> states_ok (rule_states db)"
  by (auto simp: traffic_inv_def states_ok_def list_all_iff state_ok_def)

lemma inv_state_of:
  "traffic_inv db \<Longrightarrow> state_of (rule_states db) i = Some st \<Longrightarrow> state_ok st \<and> cursors_agree st \<and> t_rule st = i"
  by (auto simp: traffic_inv_def state_of_Some)

lemma base_state_ok:
  assumes "counters_ok cnt" "\<And>st. found = Some st \<Longrightarrow> state_ok st"
  shows "state_ok (base_state row (cnt i) found) \<and> cursors_agree (base_state row (cnt i) found)"
proof (cases found)
  case None
  have "trim_space [] = []" by simp
  with None assms(1) show ?thesis
    by (simp add: base_state_def fresh_traffic_state_def state_ok_def cursors_agree_def counters_ok_def maxInt64_def
        portForwardTrafficMaxBytes_def)
next
  case (Some st)
  then have "state_ok (count_traffic (maxInt64 (fst (cnt i)) 0) (maxInt64 (snd (cnt i)) 0) st)"
    using assms(2) by (intro count_traffic_ok) auto
  with Some assms(2) show ?thesis
    by (simp add: base_state_def normalize_id) (simp add: cursors_agree_def count_traffic_def)
qed

lemma monthly_reset_agree [simp]:
  "cursors_agree (snd (applyPortForwardTrafficMonthlyReset d loc now st)) = cursors_agree st"
  by (simp add: cursors_agree_def)

lemma sync_inv:
  assumes inv: "traffic_inv db" and d: "distinct (map pf_id rows)" and c: "counters_ok cnt" and n: "0 \<le> now"
    and s: "syncPortForwardTrafficStateRows rows cnt loc now db = Some (rt, db')"
  shows "traffic_inv db'"
proof -
  note lookup = sync_lookup [OF inv_states_ok [OF inv] d, of cnt loc now, folded sync_Some(1) [OF s]]
  have ok: "state_ok st \<and> cursors_agree st" if "state_of (rule_states db') j = Some st" for st j
  proof (cases "find (\<lambda>row. pf_id row = j) rows")
    case None
    then show ?thesis using lookup(1) [of j] that inv_state_of [OF inv] by simp
  next
    case (Some row)
    have "state_ok (base_state row (cnt j) (state_of (rule_states db) j))
        \<and> cursors_agree (base_state row (cnt j) (state_of (rule_states db) j))"
      using c inv_state_of [OF inv] by (intro base_state_ok) blast+
    with Some lookup(1) [of j] that monthly_reset_ok [OF _ n] show ?thesis by auto
  qed
  have "state_ok st \<and> cursors_agree st" if "st \<in> set (rule_states db')" for st
    using ok [of "t_rule st" st] that state_of_Some [OF lookup(2)] by simp
  moreover have "overview_in_range w" if "overview db' = Some w" for w
  proof (rule overview_row_range [of "overview db" "sync_rows rows cnt loc now (rule_states db)"])
    show "overview_row (overview db) (sync_rows rows cnt loc now (rule_states db)) = Some w"
      using that sync_Some(2) [OF s] by simp
    show "overview_in_range v" if "overview db = Some v" for v using that inv by (simp add: traffic_inv_def)
    fix sr assume sr: "sr \<in> set (sync_rows rows cnt loc now (rule_states db))"
    then obtain row where eq: "sr = sync_rule loc now row (cnt (pf_id row)) (state_of (rule_states db) (pf_id row))"
      by (auto simp: sync_rows_def)
    have "state_ok (base_state row (cnt (pf_id row)) (state_of (rule_states db) (pf_id row)))"
      using c inv_state_of [OF inv] base_state_ok by blast
    then have "state_ok (sr_state sr)" using monthly_reset_ok [OF _ n] by (simp add: eq sync_rule_fields)
    then show "0 \<le> UsedUpBytes (sr_state sr) \<and> 0 \<le> UsedDownBytes (sr_state sr)
        \<and> 0 \<le> fst (sr_delta sr) \<and> 0 \<le> snd (sr_delta sr)"
      using sync_delta_nonneg [OF sr] by (simp add: state_ok_def)
  qed
  ultimately show ?thesis using lookup(2) by (simp add: traffic_inv_def)
qed


inductive pf_traffic_reachable :: "location \<Rightarrow> pf_traffic_db \<Rightarrow> bool" for loc where
  empty: "pf_traffic_reachable loc \<lparr>rule_states = [], overview = None\<rparr>"
| sync: "pf_traffic_reachable loc db \<Longrightarrow> distinct (map pf_id rows) \<Longrightarrow> counters_ok cnt \<Longrightarrow> 0 \<le> now
    \<Longrightarrow> syncPortForwardTrafficStateRows rows cnt loc now db = Some (rt, db') \<Longrightarrow> pf_traffic_reachable loc db'"
| new_rule: "pf_traffic_reachable loc db \<Longrightarrow> i \<notin> t_rule ` set (rule_states db)
    \<Longrightarrow> pf_traffic_reachable loc (db\<lparr>rule_states := rule_states db @ [zero_traffic_state i]\<rparr>)"
| drop_rule: "pf_traffic_reachable loc db
    \<Longrightarrow> pf_traffic_reachable loc (db\<lparr>rule_states := filter (\<lambda>s. t_rule s \<noteq> i) (rule_states db)\<rparr>)"
| reset_rule: "pf_traffic_reachable loc db \<Longrightarrow> distinct (map pf_id rows) \<Longrightarrow> list_all pass_ok [p1, p2, p3]
    \<Longrightarrow> pf_traffic_reachable loc (snd (ResetRuleTraffic nftHost loc kept restored rows p1 p2 p3 i db))"
| reset_overview: "pf_traffic_reachable loc db \<Longrightarrow> distinct (map pf_id rows) \<Longrightarrow> list_all pass_ok [p1, p2, p3]
    \<Longrightarrow> pf_traffic_reachable loc (snd (ResetOverviewTraffic nftHost loc restored rows p1 p2 p3 db))"

lemma counters_ok_zero [simp]: "counters_ok (\<lambda>_. (0, 0))"
  by (simp add: counters_ok_def portForwardTrafficMaxBytes_def)

lemma capture_inv:
  assumes inv: "traffic_inv db" "distinct (map pf_id rows)" and p: "pass_ok p"
    and c: "capturePortForwardTrafficLocked nftHost loc rows p db = Some (rt, db')"
  shows "traffic_inv db'"
proof (cases nftHost)
  case True
  then obtain cnt where "pass_counters p = Some cnt" "syncPortForwardTrafficStateRows rows cnt loc (pass_now p) db = Some (rt, db')"
    using c by (auto simp: capturePortForwardTrafficLocked_def split: option.splits)
  then show ?thesis using sync_inv [OF inv] p by (auto simp: pass_ok_def)
next
  case False
  then show ?thesis using sync_inv [OF inv counters_ok_zero] c p by (auto simp: capturePortForwardTrafficLocked_def pass_ok_def)
qed

lemma render_inv:
  assumes inv: "traffic_inv db" "distinct (map pf_id rows)" and p: "pass_ok p"
  shows "traffic_inv (snd (render_traffic nftHost loc rows p db))"
proof -
  have "traffic_inv db'" if "pass_counters p = Some cnt"
    "syncPortForwardTrafficStateRows rows cnt loc (pass_now p) db = Some (rt, db')" for cnt rt db'
    using sync_inv [OF inv _ _ that(2)] p that(1) by (simp add: pass_ok_def)
  with inv(1) show ?thesis by (auto simp: render_traffic_def split: option.split prod.split)
qed

lemma save_state_inv:
  assumes "traffic_inv db" "state_ok st" "cursors_agree st"
  shows "traffic_inv (save_state st db)"
proof -
  have "map t_rule (map (\<lambda>s. if t_rule s = t_rule st then st else s) (rule_states db)) = map t_rule (rule_states db)" by simp
  with assms show ?thesis unfolding traffic_inv_def save_state_def by (auto simp del: map_map)
qed

lemma filter_inv: "traffic_inv db \<Longrightarrow> traffic_inv (db\<lparr>rule_states := filter P (rule_states db)\<rparr>)"
  by (auto simp: traffic_inv_def distinct_map_filter)

lemma append_inv:
  "traffic_inv db \<Longrightarrow> state_ok st \<Longrightarrow> cursors_agree st \<Longrightarrow> t_rule st \<notin> t_rule ` set (rule_states db)
     \<Longrightarrow> traffic_inv (db\<lparr>rule_states := rule_states db @ [st]\<rparr>)"
  by (auto simp: traffic_inv_def)

lemma zero_state_ok: "state_ok (zero_traffic_state i)" "cursors_agree (zero_traffic_state i)" "t_rule (zero_traffic_state i) = i"
  by (simp_all add: state_ok_def zero_traffic_state_def fresh_traffic_state_def cursors_agree_def portForwardTrafficMaxBytes_def)

lemma reset_state_ok:
  "state_ok st \<Longrightarrow> 0 \<le> now \<Longrightarrow> state_ok (reset_rule_state rule raw loc now st)
     \<and> cursors_agree (reset_rule_state rule raw loc now st) \<and> t_rule (reset_rule_state rule raw loc now st) = t_rule st"
  by (simp add: state_ok_def reset_rule_state_def cursors_agree_def Let_def trim_period_tag normalizeResetDay_def
      portForwardTrafficMaxBytes_def)


lemma find_state:
  "find (\<lambda>s. t_rule s = i) sts = Some st \<Longrightarrow> st \<in> set sts \<and> t_rule st = i"
  "find (\<lambda>s. t_rule s = i) sts = None \<longleftrightarrow> i \<notin> t_rule ` set sts"
  by (auto simp: find_Some_iff find_None_iff)

lemma write_reset_inv:
  assumes inv: "traffic_inv db" and now: "0 \<le> now"
  shows "traffic_inv (write_reset rule raw loc now i (find (\<lambda>s. t_rule s = i) (rule_states db)) db)"
proof (cases "find (\<lambda>s. t_rule s = i) (rule_states db)")
  case None
  then show ?thesis
    using append_inv [OF inv] reset_state_ok [OF zero_state_ok(1) now] zero_state_ok(3) find_state(2) [of i "rule_states db"]
    by (simp add: write_reset_def)
next
  case (Some prev)
  then have "prev \<in> set (rule_states db)" by (rule find_state(1) [THEN conjunct1])
  then have "state_ok prev" using inv by (simp add: traffic_inv_def)
  then show ?thesis using Some save_state_inv [OF inv] reset_state_ok [OF _ now] by (simp add: write_reset_def)
qed

lemma undo_reset_inv:
  assumes inv: "traffic_inv db" and inv1: "traffic_inv db1"
  shows "traffic_inv (undo_reset i (find (\<lambda>s. t_rule s = i) (rule_states db1)) db)"
proof (cases "find (\<lambda>s. t_rule s = i) (rule_states db1)")
  case None
  then show ?thesis using filter_inv [OF inv] by (simp add: undo_reset_def)
next
  case (Some prev)
  then have "prev \<in> set (rule_states db1)" by (rule find_state(1) [THEN conjunct1])
  then have "state_ok prev \<and> cursors_agree prev" using inv1 by (simp add: traffic_inv_def)
  then show ?thesis using Some save_state_inv [OF inv] by (simp add: undo_reset_def)
qed

lemma reset_rule_inv:
  assumes inv: "traffic_inv db" and d: "distinct (map pf_id rows)" and p: "pass_ok p1" "pass_ok p2" "pass_ok p3"
  shows "traffic_inv (snd (ResetRuleTraffic nftHost loc kept restored rows p1 p2 p3 i db))"
proof (cases "find (\<lambda>r. pf_id r = i) rows = None \<or> capturePortForwardTrafficLocked nftHost loc rows p1 db = None")
  case True
  then show ?thesis using inv by (auto simp: ResetRuleTraffic_def split: option.split)
next
  case False
  then obtain rule rt db1 where r: "find (\<lambda>r. pf_id r = i) rows = Some rule"
      "capturePortForwardTrafficLocked nftHost loc rows p1 db = Some (rt, db1)" by auto
  have inv1: "traffic_inv db1" by (rule capture_inv [OF inv d p(1) r(2)])
  have now: "0 \<le> pass_now p1" using p(1) by (simp add: pass_ok_def)
  note inv2 = render_inv [OF write_reset_inv [OF inv1 now] d p(2)]
  note inv3 = render_inv [OF undo_reset_inv [OF inv2 inv1] d p(3)] render_inv [OF inv2 d p(3)]
  show ?thesis using inv2 inv3 by (simp add: ResetRuleTraffic_def r Let_def case_prod_beta)
qed

lemma reset_overview_inv:
  assumes inv: "traffic_inv db" and d: "distinct (map pf_id rows)" and p: "pass_ok p1" "pass_ok p2" "pass_ok p3"
  shows "traffic_inv (snd (ResetOverviewTraffic nftHost loc restored rows p1 p2 p3 db))"
proof (cases "capturePortForwardTrafficLocked nftHost loc rows p1 db")
  case None
  then show ?thesis using inv by (simp add: ResetOverviewTraffic_def)
next
  case (Some r)
  then obtain rt db1 where r: "capturePortForwardTrafficLocked nftHost loc rows p1 db = Some (rt, db1)" by (cases r) auto
  have inv1: "traffic_inv db1" by (rule capture_inv [OF inv d p(1) r])
  then have "traffic_inv (db1\<lparr>overview := Some \<lparr>ov_up = 0, ov_down = 0\<rparr>\<rparr>)"
    by (auto simp: traffic_inv_def overview_in_range_def portForwardTrafficMaxBytes_def)
  then have inv2: "traffic_inv (snd (render_traffic nftHost loc rows p2 (db1\<lparr>overview := Some \<lparr>ov_up = 0, ov_down = 0\<rparr>\<rparr>)))" (is "traffic_inv ?db2")
    by (rule render_inv [OF _ d p(2)])
  then have "traffic_inv (?db2\<lparr>overview := overview db1\<rparr>)" using inv1 by (simp add: traffic_inv_def)
  then have "traffic_inv (snd (render_traffic nftHost loc rows p3 (?db2\<lparr>overview := overview db1\<rparr>)))"
    by (rule render_inv [OF _ d p(3)])
  with inv2 render_inv [OF inv2 d p(3)] show ?thesis by (simp add: ResetOverviewTraffic_def r case_prod_beta)
qed

lemma reachable_inv: "pf_traffic_reachable loc db \<Longrightarrow> traffic_inv db"
proof (induction rule: pf_traffic_reachable.induct)
  case empty
  show ?case by (simp add: traffic_inv_def)
next
  case (sync db rows cnt now rt db')
  then show ?case by (blast intro: sync_inv)
next
  case (new_rule db i)
  then show ?case by (intro append_inv) (simp_all add: zero_state_ok)
next
  case (drop_rule db i)
  then show ?case by (blast intro: filter_inv)
next
  case (reset_rule db rows p1 p2 p3 nftHost kept restored i)
  then show ?case by (intro reset_rule_inv) simp_all
next
  case (reset_overview db rows p1 p2 p3 nftHost restored)
  then show ?case by (intro reset_overview_inv) simp_all
qed

section \<open>One synchronisation\<close>

definition rule_used :: "pf_traffic_db \<Rightarrow> nat \<Rightarrow> int \<times> int" where
  "rule_used db i = (case state_of (rule_states db) i of Some st \<Rightarrow> (UsedUpBytes st, UsedDownBytes st) | None \<Rightarrow> (0, 0))"

definition new_bytes :: "pf_traffic_db \<Rightarrow> counters \<Rightarrow> nat \<Rightarrow> int \<times> int" where
  \<comment> \<open>what a reading adds to the cursor of a rule\<close>
  "new_bytes db cnt i =
     (case state_of (rule_states db) i of
        Some st \<Rightarrow> (portForwardTrafficCounterDelta (fst (cnt i)) (LastUpBytes st), portForwardTrafficCounterDelta (snd (cnt i)) (LastDownBytes st))
      | None \<Rightarrow> (0, 0))"

definition same_period :: "location \<Rightarrow> int \<Rightarrow> PortForwardRule \<Rightarrow> PortForwardRuleTrafficState \<Rightarrow> bool" where
  \<comment> \<open>no monthly reset falls due\<close>
  "same_period loc now row st \<longleftrightarrow>
     (let d = normalizeResetDay (pf_reset_day row)
      in d \<le> 0 \<or> AppliedResetDay st \<noteq> d \<or> ResetPeriodTag st = [] \<or> ResetPeriodTag st = computePeriodTag d loc now)"

lemma same_period_keeps:
  assumes "same_period loc now row st" "AppliedResetDay st' = AppliedResetDay st" "ResetPeriodTag st' = ResetPeriodTag st"
  shows "UsedUpBytes (snd (applyPortForwardTrafficMonthlyReset (pf_reset_day row) loc now st')) = UsedUpBytes st'"
    "UsedDownBytes (snd (applyPortForwardTrafficMonthlyReset (pf_reset_day row) loc now st')) = UsedDownBytes st'"
  using assms by (auto simp: same_period_def applyPortForwardTrafficMonthlyReset_def Let_def)

lemma delta_max [simp]: "portForwardTrafficCounterDelta (maxInt64 c 0) p = portForwardTrafficCounterDelta c p"
  by (simp add: portForwardTrafficCounterDelta_def maxInt64_def)

lemma find_row: "distinct (map pf_id rows) \<Longrightarrow> row \<in> set rows \<Longrightarrow> find (\<lambda>r. pf_id r = pf_id row) rows = Some row"
  by (induction rows) force+

lemma sync_state:
  assumes inv: "traffic_inv db" and d: "distinct (map pf_id rows)" and row: "row \<in> set rows"
    and s: "syncPortForwardTrafficStateRows rows cnt loc now db = Some (rt, db')"
    and st: "state_of (rule_states db) (pf_id row) = Some st"
  shows "state_of (rule_states db') (pf_id row) = Some (snd (applyPortForwardTrafficMonthlyReset (pf_reset_day row) loc now
           (count_traffic (maxInt64 (fst (cnt (pf_id row))) 0) (maxInt64 (snd (cnt (pf_id row))) 0) st)))"
  using sync_lookup(1) [OF inv_states_ok [OF inv] d, of cnt loc now "pf_id row", folded sync_Some(1) [OF s]]
    find_row [OF d row] inv_state_of [OF inv st] st
  by (simp add: base_state_def normalize_id)

lemma sync_used:
  assumes inv: "traffic_inv db" and d: "distinct (map pf_id rows)" and row: "row \<in> set rows"
    and s: "syncPortForwardTrafficStateRows rows cnt loc now db = Some (rt, db')"
    and st: "state_of (rule_states db) (pf_id row) = Some st" and p: "same_period loc now row st"
  shows "rule_used db' (pf_id row) =
     (min portForwardTrafficMaxBytes (fst (rule_used db (pf_id row)) + fst (new_bytes db cnt (pf_id row))),
      min portForwardTrafficMaxBytes (snd (rule_used db (pf_id row)) + snd (new_bytes db cnt (pf_id row))))"
proof -
  have "state_ok st" using inv_state_of [OF inv st] by simp
  then show ?thesis
    using sync_state [OF inv d row s st] same_period_keeps [OF p]
    by (simp add: rule_used_def new_bytes_def st count_traffic_def state_ok_def add_eq)
qed

lemma sync_gain:
  assumes inv: "traffic_inv db" and w: "overview db = Some w"
    and s: "syncPortForwardTrafficStateRows rows cnt loc now db = Some (rt, db')"
  shows "overview db' = Some \<lparr>ov_up = min portForwardTrafficMaxBytes (ov_up w + (\<Sum>row\<leftarrow>rows. fst (new_bytes db cnt (pf_id row)))),
      ov_down = min portForwardTrafficMaxBytes (ov_down w + (\<Sum>row\<leftarrow>rows. snd (new_bytes db cnt (pf_id row))))\<rparr>"
proof -
  have "sr_delta (sync_rule loc now row (cnt (pf_id row)) (state_of (rule_states db) (pf_id row))) = new_bytes db cnt (pf_id row)" for row
    using inv_state_of [OF inv, of "pf_id row"]
    by (auto simp: sync_rule_fields new_bytes_def normalize_id cursors_agree_def split: option.split)
  then have d: "map (f \<circ> sr_delta) (sync_rows rows cnt loc now (rule_states db)) = map (\<lambda>row. f (new_bytes db cnt (pf_id row))) rows"
    for f :: "int \<times> int \<Rightarrow> int" by (simp add: sync_rows_def)
  have "overview_in_range w" using inv w by (simp add: traffic_inv_def)
  from overview_row_gain [OF this, of "sync_rows rows cnt loc now (rule_states db)"] sync_delta_nonneg
  show ?thesis using sync_Some(2) [OF s] w by (simp add: d)
qed

text \<open>
  C17: One synchronisation counts every byte exactly once for the rule and exactly once for the
  overview: with a stored state for every rule and no reset falling due, each rule gains what its
  counters moved since its cursor, and the overview gains the sum over the rules (saturating at the
  64-bit maximum).
\<close>

theorem sync_counts_every_byte_once:
  assumes "pf_traffic_reachable loc db" "distinct (map pf_id rows)" "overview db = Some w"
    "syncPortForwardTrafficStateRows rows cnt loc now db = Some (rt, db')"
    "\<forall>row \<in> set rows. \<exists>st. state_of (rule_states db) (pf_id row) = Some st \<and> same_period loc now row st"
  shows "(\<forall>row \<in> set rows. rule_used db' (pf_id row) =
       (min portForwardTrafficMaxBytes (fst (rule_used db (pf_id row)) + fst (new_bytes db cnt (pf_id row))),
        min portForwardTrafficMaxBytes (snd (rule_used db (pf_id row)) + snd (new_bytes db cnt (pf_id row)))))
     \<and> overview db' = Some
         \<lparr>ov_up = min portForwardTrafficMaxBytes (ov_up w + (\<Sum>row\<leftarrow>rows. fst (new_bytes db cnt (pf_id row)))),
          ov_down = min portForwardTrafficMaxBytes (ov_down w + (\<Sum>row\<leftarrow>rows. snd (new_bytes db cnt (pf_id row))))\<rparr>"
proof -
  have inv: "traffic_inv db" by (rule reachable_inv [OF assms(1)])
  show ?thesis using sync_used [OF inv assms(2) _ assms(4)] assms(5) sync_gain [OF inv assms(3,4)] by blast
qed

text \<open>
  The tag-based monthly reset of forwarding rules agrees with the boundary comparison that
  resets clients: a state last settled at time \<open>t0\<close> is reset at a later time exactly when a boundary
  of its reset day lies between.
\<close>

lemma forwarding_reset_agrees_with_client_reset:
  assumes "regular_location loc" "1 \<le> d" "d \<le> 31" "t0 \<le> now"
    "latestClientMonthlyResetBoundary d loc t0 = Some b0" "0 \<le> b0"
    "AppliedResetDay st = d" "ResetPeriodTag st = computePeriodTag d loc t0"
  shows "applyPortForwardTrafficMonthlyReset d loc now st =
     (if shouldResetClientTrafficMonthly t0 d loc now
      then (True, st\<lparr>ResetPeriodTag := computePeriodTag d loc now, UsedUpBytes := 0, UsedDownBytes := 0, LastResetAt := now\<rparr>)
      else (False, st))"
  using regular_location.period_tag_eq [OF assms(1-6)] normalizeResetDay_id [OF assms(2,3)] assms
  by (auto simp: applyPortForwardTrafficMonthlyReset_def Let_def)

text \<open>
  A rule is blocked for its quota exactly when upload and download together reach a positive
  limit, and blocked at all exactly when it is expired or the quota is reached: saturating the sum
  never hides a reached quota.
\<close>

lemma forwarding_quota_exact:
  assumes "buildPortForwardTrafficRuleRuntime row st loc now = Some rt" "state_ok st"
    "pf_traffic_limit row \<le> portForwardTrafficMaxBytes"
  shows "(LimitReached rt \<longleftrightarrow> 0 < pf_traffic_limit row \<and> pf_traffic_limit row \<le> UsedUpBytes st + UsedDownBytes st)
     \<and> (BlockReason rt = [] \<longleftrightarrow> \<not> rt_expired rt \<and> \<not> LimitReached rt)"
proof -
  have "LimitReached rt \<longleftrightarrow> 0 < maxInt64 (pf_traffic_limit row) 0
        \<and> maxInt64 (pf_traffic_limit row) 0 \<le> addPortForwardTrafficBytes (maxInt64 (UsedUpBytes st) 0) (maxInt64 (UsedDownBytes st) 0)"
    and block: "BlockReason rt = (if rt_expired rt then ''expiry'' else if LimitReached rt then ''quota'' else [])"
    using assms(1) by (auto simp: buildPortForwardTrafficRuleRuntime_def Let_def split: option.splits)
  then have "LimitReached rt \<longleftrightarrow> 0 < pf_traffic_limit row \<and> pf_traffic_limit row \<le> UsedUpBytes st + UsedDownBytes st"
    using assms(2,3) by (auto simp: state_ok_def add_eq maxInt64_def)
  with block show ?thesis by simp
qed

text \<open>
  The cursors of a rule and of the overview agree in every reachable database, totals stay
  within the 64-bit range and a rule never has two states.
\<close>

lemma forwarding_cursors_agree:
  assumes "pf_traffic_reachable loc db" "st \<in> set (rule_states db)"
  shows "OverviewLastUpBytes st = LastUpBytes st \<and> OverviewLastDownBytes st = LastDownBytes st
     \<and> 0 \<le> UsedUpBytes st \<and> UsedUpBytes st \<le> portForwardTrafficMaxBytes
     \<and> 0 \<le> UsedDownBytes st \<and> UsedDownBytes st \<le> portForwardTrafficMaxBytes
     \<and> distinct (map t_rule (rule_states db))"
  using reachable_inv [OF assms(1)] assms(2) by (auto simp: traffic_inv_def cursors_agree_def state_ok_def)

section \<open>Repeated synchronisation\<close>

lemma sync_None_iff:
  "syncPortForwardTrafficStateRows rows cnt loc now db = None
     \<longleftrightarrow> (\<exists>row \<in> set rows. parseTrafficOverviewExpiryDate (pf_expiry_date row) loc = None)"
proof -
  have "buildPortForwardTrafficRuleRuntime row st loc now = None \<longleftrightarrow> parseTrafficOverviewExpiryDate (pf_expiry_date row) loc = None" for row st
    by (simp add: buildPortForwardTrafficRuleRuntime_def Let_def split: option.split)
  then show ?thesis
    unfolding syncPortForwardTrafficStateRows_def Let_def
    by (auto simp: map2_map_map [where f = id, simplified] image_iff)
qed

lemma store_sync_same:
  assumes "distinct (map t_rule sts)" "state_of sts (t_rule (sr_state sr)) = Some (sr_state sr)" "\<not> sr_created sr"
  shows "store_sync sts sr = sts"
proof -
  have "sr_state sr \<in> set sts" using assms(1,2) by (simp add: state_of_Some)
  then have "sr_state sr = s" if "s \<in> set sts" "t_rule s = t_rule (sr_state sr)" for s
    using assms(1) that by (auto simp: distinct_map inj_on_def)
  then show ?thesis using assms(3) by (auto simp: store_sync_def intro!: map_idI)
qed

lemma sync_rule_settled:
  assumes ok: "state_ok st" "cursors_agree st" and raw: "LastUpBytes st = maxInt64 (fst raw) 0" "LastDownBytes st = maxInt64 (snd raw) 0"
    and set: "snd (applyPortForwardTrafficMonthlyReset (pf_reset_day row) loc now st) = st"
  shows "sr_state (sync_rule loc now row raw (Some st)) = st" "sr_delta (sync_rule loc now row raw (Some st)) = (0, 0)"
    "\<not> sr_created (sync_rule loc now row raw (Some st))"
proof -
  have "count_traffic (maxInt64 (fst raw) 0) (maxInt64 (snd raw) 0) st = st"
    using ok raw by (intro count_traffic_same) (simp_all add: cursors_agree_def)
  then show "sr_state (sync_rule loc now row raw (Some st)) = st" "\<not> sr_created (sync_rule loc now row raw (Some st))"
    using set by (simp_all add: sync_rule_fields base_state_def normalize_id [OF ok(1)])
  have "OverviewLastUpBytes st = maxInt64 (fst raw) 0" "OverviewLastDownBytes st = maxInt64 (snd raw) 0"
    using ok(2) raw by (simp_all add: cursors_agree_def)
  then show "sr_delta (sync_rule loc now row raw (Some st)) = (0, 0)"
    by (simp add: sync_rule_fields normalize_id [OF ok(1)] del: delta_max)
qed

lemma sync_twice_rule:
  assumes inv: "traffic_inv db" and d: "distinct (map pf_id rows)" and c: "counters_ok cnt" and n: "0 \<le> now"
    and s: "syncPortForwardTrafficStateRows rows cnt loc now db = Some (rt, db1)" and row: "row \<in> set rows"
  shows "\<exists>st. state_of (rule_states db1) (pf_id row) = Some st \<and> state_ok st \<and> cursors_agree st \<and> t_rule st = pf_id row
     \<and> st = snd (applyPortForwardTrafficMonthlyReset (pf_reset_day row) loc now (base_state row (cnt (pf_id row)) (state_of (rule_states db) (pf_id row))))
     \<and> LastUpBytes st = maxInt64 (fst (cnt (pf_id row))) 0 \<and> LastDownBytes st = maxInt64 (snd (cnt (pf_id row))) 0"
proof -
  let ?b = "base_state row (cnt (pf_id row)) (state_of (rule_states db) (pf_id row))"
  have "LastUpBytes ?b = maxInt64 (fst (cnt (pf_id row))) 0 \<and> LastDownBytes ?b = maxInt64 (snd (cnt (pf_id row))) 0"
    by (simp add: base_state_def fresh_traffic_state_def count_traffic_def split: option.split)
  moreover have st: "state_of (rule_states db1) (pf_id row) = Some (snd (applyPortForwardTrafficMonthlyReset (pf_reset_day row) loc now ?b))"
    using sync_lookup(1) [OF inv_states_ok [OF inv] d, of cnt loc now "pf_id row", folded sync_Some(1) [OF s]] find_row [OF d row] by simp
  moreover note inv_state_of [OF sync_inv [OF inv d c n s] st]
  ultimately show ?thesis by simp
qed

lemma overview_row_shown:
  assumes "\<And>v. found = Some v \<Longrightarrow> overview_in_range v" "\<forall>sr \<in> set srs. 0 \<le> fst (sr_delta sr) \<and> 0 \<le> snd (sr_delta sr)"
  shows "overview_row found srs = Some (sync_overview found srs)"
proof (cases found)
  case None
  then show ?thesis by (simp add: overview_row_def)
next
  case (Some v)
  have "0 \<le> sat_sum 0 (map (fst \<circ> sr_delta) srs)" "0 \<le> sat_sum 0 (map (snd \<circ> sr_delta) srs)"
    using assms(2) sat_sum_range by (simp_all add: comp_def)
  with Some assms(1) [OF Some] show ?thesis
    by (cases v) (auto simp: overview_row_def sync_overview_def overview_in_range_def)
qed

lemma foldl_fixed: "(\<And>x. x \<in> set xs \<Longrightarrow> f a x = a) \<Longrightarrow> foldl f a xs = a"
  by (induction xs) simp_all

lemma overview_still:
  assumes w: "overview_in_range w" and z: "\<forall>sr \<in> set srs. sr_delta sr = (0, 0)"
  shows "overview_row (Some w) srs = Some w \<and> sync_overview (Some w) srs = w"
proof -
  have m: "map (fst \<circ> sr_delta) srs = map (\<lambda>_. 0) srs" "map (snd \<circ> sr_delta) srs = map (\<lambda>_. 0) srs" using z by auto
  have "sat_sum 0 (map (\<lambda>_. 0) srs) = 0"
    by (subst sat_sum_eq) (simp_all add: portForwardTrafficMaxBytes_def)
  then have "sat_sum 0 (map (fst \<circ> sr_delta) srs) = 0" "sat_sum 0 (map (snd \<circ> sr_delta) srs) = 0" by (simp_all only: m)
  then show ?thesis using w by (cases w) (simp add: overview_row_def sync_overview_def overview_in_range_def)
qed

lemma sync_again_rule:
  assumes inv: "traffic_inv db" and d: "distinct (map pf_id rows)" and c: "counters_ok cnt" and n: "0 \<le> now"
    and s: "syncPortForwardTrafficStateRows rows cnt loc now db = Some (rt, db1)" and row: "row \<in> set rows"
  shows "sr_state (sync_rule loc now row (cnt (pf_id row)) (state_of (rule_states db1) (pf_id row)))
           = sr_state (sync_rule loc now row (cnt (pf_id row)) (state_of (rule_states db) (pf_id row)))"
    and "sr_delta (sync_rule loc now row (cnt (pf_id row)) (state_of (rule_states db1) (pf_id row))) = (0, 0)"
    and "store_sync (rule_states db1) (sync_rule loc now row (cnt (pf_id row)) (state_of (rule_states db1) (pf_id row))) = rule_states db1"
proof -
  obtain st where st: "state_of (rule_states db1) (pf_id row) = Some st" "state_ok st" "cursors_agree st" "t_rule st = pf_id row"
    "st = snd (applyPortForwardTrafficMonthlyReset (pf_reset_day row) loc now (base_state row (cnt (pf_id row)) (state_of (rule_states db) (pf_id row))))"
    "LastUpBytes st = maxInt64 (fst (cnt (pf_id row))) 0" "LastDownBytes st = maxInt64 (snd (cnt (pf_id row))) 0"
    using sync_twice_rule [OF inv d c n s row] by blast
  have "snd (applyPortForwardTrafficMonthlyReset (pf_reset_day row) loc now st) = st"
    by (simp only: st(5) monthly_reset_settled)
  note settled = sync_rule_settled [OF st(2,3,6,7) this, folded st(1)]
  show "sr_state (sync_rule loc now row (cnt (pf_id row)) (state_of (rule_states db1) (pf_id row)))
           = sr_state (sync_rule loc now row (cnt (pf_id row)) (state_of (rule_states db) (pf_id row)))"
    using settled(1) st(5) by (simp add: sync_rule_fields)
  show "sr_delta (sync_rule loc now row (cnt (pf_id row)) (state_of (rule_states db1) (pf_id row))) = (0, 0)" by (rule settled(2))
  show "store_sync (rule_states db1) (sync_rule loc now row (cnt (pf_id row)) (state_of (rule_states db1) (pf_id row))) = rule_states db1"
    using sync_inv [OF inv d c n s] settled(1,3) st(1,4) by (intro store_sync_same) (simp_all add: traffic_inv_def)
qed

lemma sync_shown:
  assumes inv: "traffic_inv db" and s: "syncPortForwardTrafficStateRows rows cnt loc now db = Some (rt, db1)"
  shows "overview db1 = Some (sync_overview (overview db) (sync_rows rows cnt loc now (rule_states db)))"
  unfolding sync_Some(2) [OF s]
proof (rule overview_row_shown)
  show "overview_in_range v" if "overview db = Some v" for v using inv that by (simp add: traffic_inv_def)
  show "\<forall>sr \<in> set (sync_rows rows cnt loc now (rule_states db)). 0 \<le> fst (sr_delta sr) \<and> 0 \<le> snd (sr_delta sr)"
    using sync_delta_nonneg by blast
qed

text \<open>
  Synchronising again with the same counters at the same time reports the same runtime and
  leaves the stored states and the overview alone.
\<close>

lemma sync_is_idempotent:
  assumes "pf_traffic_reachable loc db" and d: "distinct (map pf_id rows)" and c: "counters_ok cnt" and n: "0 \<le> now"
    and s: "syncPortForwardTrafficStateRows rows cnt loc now db = Some (rt, db1)"
  shows "syncPortForwardTrafficStateRows rows cnt loc now db1 = Some (rt, db1)"
proof -
  have inv: "traffic_inv db" by (rule reachable_inv [OF assms(1)])
  note again = sync_again_rule [OF inv d c n s]
  define w where "w = sync_overview (overview db) (sync_rows rows cnt loc now (rule_states db))"
  have o1: "overview db1 = Some w" using sync_shown [OF inv s] by (simp add: w_def)
  then have "overview_in_range w" using sync_inv [OF inv d c n s] by (simp add: traffic_inv_def)
  then have still: "overview_row (Some w) (sync_rows rows cnt loc now (rule_states db1)) = Some w
      \<and> sync_overview (Some w) (sync_rows rows cnt loc now (rule_states db1)) = w"
    by (rule overview_still) (auto simp: sync_rows_def again)
  have states: "foldl store_sync (rule_states db1) (sync_rows rows cnt loc now (rule_states db1)) = rule_states db1"
    using again(3) by (intro foldl_fixed) (auto simp: sync_rows_def)
  define rts where "rts = (\<lambda>db' :: pf_traffic_db. map2 (\<lambda>row sr. map_option (Pair (pf_id row)) (buildPortForwardTrafficRuleRuntime row (sr_state sr) loc now))
      rows (sync_rows rows cnt loc now (rule_states db')))"
  have "rts db1 = rts db"
    unfolding rts_def sync_rows_def by (rule nth_equalityI) (simp_all add: again)
  moreover have eq: "syncPortForwardTrafficStateRows rows cnt loc now db' =
      (if None \<in> set (rts db') then None
       else Some (\<lparr>rt_rules = map the (rts db'),
            rt_overview_up = ov_up (sync_overview (overview db') (sync_rows rows cnt loc now (rule_states db'))),
            rt_overview_down = ov_down (sync_overview (overview db') (sync_rows rows cnt loc now (rule_states db')))\<rparr>,
          \<lparr>rule_states = foldl store_sync (rule_states db') (sync_rows rows cnt loc now (rule_states db')),
           overview = overview_row (overview db') (sync_rows rows cnt loc now (rule_states db'))\<rparr>))" for db'
    by (simp add: syncPortForwardTrafficStateRows_def sync_rows_def rts_def Let_def)
  ultimately show ?thesis
    using s still states o1 by (auto simp: w_def [symmetric] split: if_splits)
qed

section \<open>Resetting one total\<close>

lemma find_state_of: "distinct (map t_rule sts) \<Longrightarrow> find (\<lambda>s. t_rule s = i) sts = state_of sts i"
  by (cases "find (\<lambda>s. t_rule s = i) sts")
     (metis find_state(2) state_of_None, metis find_state(1) state_of_Some)

lemma state_of_save:
  "state_of (rule_states db) (t_rule st) \<noteq> None
     \<Longrightarrow> state_of (rule_states (save_state st db)) j = (if j = t_rule st then Some st else state_of (rule_states db) j)"
  using state_of_update [OF refl, of st "rule_states db" j] state_of_None [of "rule_states db" "t_rule st"] by (auto simp: save_state_def)

lemma delta_range: "c \<le> portForwardTrafficMaxBytes \<Longrightarrow> portForwardTrafficCounterDelta c p \<le> portForwardTrafficMaxBytes"
  by (simp add: portForwardTrafficCounterDelta_def Let_def portForwardTrafficMaxBytes_def)

lemma sync_rest:
  assumes inv: "traffic_inv db" "traffic_inv db'" and d: "distinct (map pf_id rows)"
    and s: "syncPortForwardTrafficStateRows rows cnt loc now db = Some (rt, db1)"
      "syncPortForwardTrafficStateRows rows cnt loc now db' = Some (rt', db1')"
    and same: "state_of (rule_states db') j = state_of (rule_states db) j"
  shows "state_of (rule_states db1') j = state_of (rule_states db1) j"
  using sync_lookup(1) [OF inv_states_ok [OF inv(1)] d, of cnt loc now j, folded sync_Some(1) [OF s(1)]]
    sync_lookup(1) [OF inv_states_ok [OF inv(2)] d, of cnt loc now j, folded sync_Some(1) [OF s(2)]] same
  by (cases "find (\<lambda>row. pf_id row = j) rows") simp_all

text \<open>
  The database after a rule was zeroed: its usage is zero, all cursors are as they were, so the next
  reading adds the same bytes to the overview.
\<close>

lemma write_reset_db:
  assumes inv: "traffic_inv db" and now: "0 \<le> now" and st: "state_of (rule_states db) i = Some st"
    and raw: "LastUpBytes st = maxInt64 (fst raw) 0" "LastDownBytes st = maxInt64 (snd raw) 0"
    and db': "db' = write_reset rule raw loc now i (find (\<lambda>s. t_rule s = i) (rule_states db)) db"
  shows "traffic_inv db'" "overview db' = overview db"
    "state_of (rule_states db') j = (if j = i then Some (reset_rule_state rule raw loc now st) else state_of (rule_states db) j)"
    "new_bytes db' cnt j = new_bytes db cnt j" "rule_used db' i = (0, 0)"
proof -
  have d: "distinct (map t_rule (rule_states db))" using inv by (simp add: traffic_inv_def)
  have i: "t_rule st = i" "state_ok st" using inv_state_of [OF inv st] by auto
  have t: "t_rule (reset_rule_state rule raw loc now st) = i" using reset_state_ok [OF i(2) now] i(1) by simp
  have eq: "db' = save_state (reset_rule_state rule raw loc now st) db"
    using find_state_of [OF d, of i] st db' by (simp add: write_reset_def)
  show "traffic_inv db'" using write_reset_inv [OF inv now] db' by simp
  show "overview db' = overview db" by (simp add: eq save_state_def)
  show lookup: "state_of (rule_states db') j = (if j = i then Some (reset_rule_state rule raw loc now st) else state_of (rule_states db) j)" for j
    using state_of_save [of db "reset_rule_state rule raw loc now st" j] st t by (simp add: eq)
  show "new_bytes db' cnt j = new_bytes db cnt j"
    using st raw by (simp add: new_bytes_def lookup reset_rule_state_def Let_def)
  show "rule_used db' i = (0, 0)" by (simp add: rule_used_def lookup reset_rule_state_def Let_def)
qed

lemma sync_used_zeroed:
  assumes inv: "traffic_inv db" and d: "distinct (map pf_id rows)" and rule: "rule \<in> set rows" and c: "counters_ok cnt"
    and s: "syncPortForwardTrafficStateRows rows cnt loc now db = Some (rt, db')"
    and st: "state_of (rule_states db) (pf_id rule) = Some st" and p: "same_period loc now rule st"
    and z: "rule_used db (pf_id rule) = (0, 0)"
  shows "rule_used db' (pf_id rule) = new_bytes db cnt (pf_id rule)"
proof -
  have "fst (new_bytes db cnt (pf_id rule)) \<le> portForwardTrafficMaxBytes \<and> snd (new_bytes db cnt (pf_id rule)) \<le> portForwardTrafficMaxBytes"
    using c delta_range by (simp add: new_bytes_def st counters_ok_def)
  then show ?thesis using sync_used [OF inv d rule s st p] z by (simp add: min_absorb2)
qed

text \<open>
  C24: A successful reset of one rule zeroes exactly that rule: the overview and every other rule end
  as if the two readings it takes had only been synchronised, and the rule keeps what its counters
  moved between them.
\<close>

theorem reset_rule_leaves_the_rest:
  assumes "pf_traffic_reachable loc db" and d: "distinct (map pf_id rows)" and p: "pass_ok p1" "pass_ok p2"
    and c: "pass_counters p1 = Some c1" "pass_counters p2 = Some c2" "pass_chains p2"
    and rule: "find (\<lambda>r. pf_id r = i) rows = Some rule"
    and s1: "syncPortForwardTrafficStateRows rows c1 loc (pass_now p1) db = Some (rt1, db1)"
    and s2: "syncPortForwardTrafficStateRows rows c2 loc (pass_now p2) db1 = Some (rt2, db2)"
    and period: "computePeriodTag (normalizeResetDay (pf_reset_day rule)) loc (pass_now p2)
                   = computePeriodTag (normalizeResetDay (pf_reset_day rule)) loc (pass_now p1)"
  shows "\<exists>db3. ResetRuleTraffic True loc kept restored rows p1 p2 p3 i db = (True, db3) \<and> overview db3 = overview db2
     \<and> (\<forall>j. j \<noteq> i \<longrightarrow> state_of (rule_states db3) j = state_of (rule_states db2) j)
     \<and> rule_used db3 i = new_bytes db1 c2 i"
proof -
  have inv: "traffic_inv db" by (rule reachable_inv [OF assms(1)])
  have ok: "counters_ok c1" "counters_ok c2" "0 \<le> pass_now p1" using p c by (simp_all add: pass_ok_def)
  have i: "rule \<in> set rows" "pf_id rule = i" using rule by (auto simp: find_Some_iff)
  note inv1 = sync_inv [OF inv d ok(1,3) s1]
  obtain st where st: "state_of (rule_states db1) i = Some st" "LastUpBytes st = maxInt64 (fst (c1 i)) 0"
      "LastDownBytes st = maxInt64 (snd (c1 i)) 0"
    using sync_twice_rule [OF inv d ok(1,3) s1 i(1)] i(2) by auto
  define dbr where "dbr = write_reset rule (c1 i) loc (pass_now p1) i (find (\<lambda>s. t_rule s = i) (rule_states db1)) db1"
  note r = write_reset_db [OF inv1 ok(3) st dbr_def]
  obtain rt3 db3 where s3: "syncPortForwardTrafficStateRows rows c2 loc (pass_now p2) dbr = Some (rt3, db3)"
    using sync_None_iff [of rows c2 loc "pass_now p2" db1] sync_None_iff [of rows c2 loc "pass_now p2" dbr] s2
    by (cases "syncPortForwardTrafficStateRows rows c2 loc (pass_now p2) dbr") auto
  have w: "overview db1 = Some (sync_overview (overview db) (sync_rows rows c1 loc (pass_now p1) (rule_states db)))"
    by (rule sync_shown [OF inv s1])
  have "overview db3 = overview db2"
    using sync_gain [OF inv1 w s2] sync_gain [OF r(1) _ s3] w by (simp add: r(2,4))
  moreover have "state_of (rule_states db3) j = state_of (rule_states db2) j" if "j \<noteq> i" for j
    by (rule sync_rest [OF inv1 r(1) d s2 s3]) (simp add: r(3) that)
  moreover have "same_period loc (pass_now p2) rule (reset_rule_state rule (c1 i) loc (pass_now p1) st)"
    by (simp add: same_period_def reset_rule_state_def Let_def period)
  then have "rule_used db3 i = new_bytes db1 c2 i"
    using sync_used_zeroed [OF r(1) d i(1) ok(2) s3] r(3,4,5) by (simp add: i(2))
  moreover have "ResetRuleTraffic True loc kept restored rows p1 p2 p3 i db = (True, db3)"
    using s1 s3 by (simp add: ResetRuleTraffic_def reset_baseline_def rule capturePortForwardTrafficLocked_def render_traffic_def c Let_def flip: dbr_def)
  ultimately show ?thesis by blast
qed

lemma undo_reset_db:
  assumes inv1: "traffic_inv db1" and inv: "traffic_inv db" and st: "state_of (rule_states db1) i = Some st"
    and found: "state_of (rule_states db) i \<noteq> None"
    and db': "db' = undo_reset i (find (\<lambda>s. t_rule s = i) (rule_states db1)) db"
  shows "traffic_inv db'" "overview db' = overview db" "state_of (rule_states db') i = Some st"
proof -
  have d: "distinct (map t_rule (rule_states db1))" using inv1 by (simp add: traffic_inv_def)
  have i: "t_rule st = i" using inv_state_of [OF inv1 st] by simp
  have eq: "db' = save_state st db" using find_state_of [OF d, of i] st db' by (simp add: undo_reset_def)
  show "traffic_inv db'" using undo_reset_inv [OF inv inv1] db' by simp
  show "overview db' = overview db" by (simp add: eq save_state_def)
  show "state_of (rule_states db') i = Some st" using state_of_save [of db st i] found i by (simp add: eq)
qed

lemma sync_single:
  assumes inv: "traffic_inv db" and c: "counters_ok cnt" "0 \<le> now" and w: "map_option ov_up (overview db) = Some w"
    and st: "state_of (rule_states db) (pf_id rule) = Some st" "LastUpBytes st \<le> fst (cnt (pf_id rule))"
    and e: "parseTrafficOverviewExpiryDate (pf_expiry_date rule) loc \<noteq> None"
  obtains rt db' where "syncPortForwardTrafficStateRows [rule] cnt loc now db = Some (rt, db')" "traffic_inv db'"
    "map_option ov_up (overview db') = Some (min portForwardTrafficMaxBytes (w + (fst (cnt (pf_id rule)) - LastUpBytes st)))"
    "state_of (rule_states db') (pf_id rule) \<noteq> None"
proof -
  obtain rt db' where s: "syncPortForwardTrafficStateRows [rule] cnt loc now db = Some (rt, db')"
    using sync_None_iff [of "[rule]" cnt loc now db] e by (cases "syncPortForwardTrafficStateRows [rule] cnt loc now db") auto
  obtain v where v: "overview db = Some v" "ov_up v = w" using w by (cases "overview db") auto
  have nonneg: "0 \<le> LastUpBytes st" using inv_state_of [OF inv st(1)] by (simp add: state_ok_def)
  show thesis
  proof (rule that [OF s])
    show "traffic_inv db'" by (rule sync_inv [OF inv _ c s]) simp
    show "map_option ov_up (overview db') = Some (min portForwardTrafficMaxBytes (w + (fst (cnt (pf_id rule)) - LastUpBytes st)))"
      using sync_gain [OF inv v(1) s] v(2) st nonneg by (simp add: new_bytes_def portForwardTrafficCounterDelta_def)
    show "state_of (rule_states db') (pf_id rule) \<noteq> None" using sync_state [OF inv _ _ s st(1)] by simp
  qed
qed

text \<open>
  A rule reset whose rendering fails counts bytes twice in the overview. The rendering counts a
  second reading for the overview before it fails, the rollback then restores the state of the rule
  with the older overview cursor, and the next pass counts the difference again: the counter moved
  from the first reading to the third, but the overview also gains the second minus the first.
\<close>

lemma failed_reset_counts_overview_twice:
  assumes "pf_traffic_reachable loc db" and p: "pass_ok p1" "pass_ok p2" "pass_ok p3"
    and c: "pass_counters p1 = Some c1" "pass_counters p2 = Some c2" "pass_counters p3 = Some c3" "\<not> pass_chains p2"
    and s1: "syncPortForwardTrafficStateRows [rule] c1 loc (pass_now p1) db = Some (rt1, db1)"
    and w: "map_option ov_up (overview db1) = Some w"
    and grow: "0 \<le> fst (c1 (pf_id rule))" "fst (c1 (pf_id rule)) \<le> fst (c2 (pf_id rule))" "fst (c2 (pf_id rule)) \<le> fst (c3 (pf_id rule))"
  shows "map_option ov_up (overview (snd (ResetRuleTraffic True loc kept True [rule] p1 p2 p3 (pf_id rule) db)))
     = Some (min portForwardTrafficMaxBytes
              (w + (fst (c3 (pf_id rule)) - fst (c1 (pf_id rule))) + (fst (c2 (pf_id rule)) - fst (c1 (pf_id rule)))))"
proof -
  let ?i = "pf_id rule"
  have inv: "traffic_inv db" by (rule reachable_inv [OF assms(1)])
  have ok: "counters_ok c1" "counters_ok c2" "counters_ok c3" "0 \<le> pass_now p1" "0 \<le> pass_now p2" "0 \<le> pass_now p3"
    using p c by (simp_all add: pass_ok_def)
  have d: "distinct (map pf_id [rule])" by simp
  have e: "parseTrafficOverviewExpiryDate (pf_expiry_date rule) loc \<noteq> None"
    using sync_None_iff [of "[rule]" c1 loc "pass_now p1" db] s1 by simp
  note inv1 = sync_inv [OF inv d ok(1,4) s1]
  obtain st where st: "state_of (rule_states db1) ?i = Some st" "LastUpBytes st = maxInt64 (fst (c1 ?i)) 0"
      "LastDownBytes st = maxInt64 (snd (c1 ?i)) 0"
    using sync_twice_rule [OF inv d ok(1,4) s1, of rule] by auto
  define dbr where "dbr = write_reset rule (c1 ?i) loc (pass_now p1) ?i (find (\<lambda>s. t_rule s = ?i) (rule_states db1)) db1"
  note r = write_reset_db [OF inv1 ok(4) st dbr_def]
  have wr: "map_option ov_up (overview dbr) = Some w" using w r(2) by simp
  have cr: "state_of (rule_states dbr) ?i = Some (reset_rule_state rule (c1 ?i) loc (pass_now p1) st)"
    "LastUpBytes (reset_rule_state rule (c1 ?i) loc (pass_now p1) st) = fst (c1 ?i)"
    using r(3) [of ?i] grow by (simp_all add: reset_rule_state_def Let_def)
  obtain rt3 db3 where s3: "syncPortForwardTrafficStateRows [rule] c2 loc (pass_now p2) dbr = Some (rt3, db3)" "traffic_inv db3"
    "map_option ov_up (overview db3) = Some (min portForwardTrafficMaxBytes (w + (fst (c2 ?i) - fst (c1 ?i))))"
    "state_of (rule_states db3) ?i \<noteq> None"
    using sync_single [OF r(1) ok(2,5) wr cr(1) _ e] cr(2) grow by auto
  define db4 where "db4 = undo_reset ?i (find (\<lambda>s. t_rule s = ?i) (rule_states db1)) db3"
  note u = undo_reset_db [OF inv1 s3(2) st(1) s3(4) db4_def]
  have w4: "map_option ov_up (overview db4) = Some (min portForwardTrafficMaxBytes (w + (fst (c2 ?i) - fst (c1 ?i))))"
    using s3(3) u(2) by simp
  have le: "LastUpBytes st = fst (c1 ?i)" "LastUpBytes st \<le> fst (c3 ?i)" using st(2) grow by simp_all
  obtain rt5 db5 where s5: "syncPortForwardTrafficStateRows [rule] c3 loc (pass_now p3) db4 = Some (rt5, db5)" "traffic_inv db5"
    "map_option ov_up (overview db5)
       = Some (min portForwardTrafficMaxBytes (min portForwardTrafficMaxBytes (w + (fst (c2 ?i) - fst (c1 ?i))) + (fst (c3 ?i) - LastUpBytes st)))"
    "state_of (rule_states db5) ?i \<noteq> None"
    by (rule sync_single [OF u(1) ok(3,6) w4 u(3) le(2) e])
  have "overview (snd (ResetRuleTraffic True loc kept True [rule] p1 p2 p3 ?i db)) = overview db5"
    using s1 s3(1) s5(1)
    by (simp add: ResetRuleTraffic_def reset_baseline_def capturePortForwardTrafficLocked_def render_traffic_def c Let_def flip: dbr_def db4_def)
  with s5(3) le(1) grow show ?thesis by (auto simp: min_def)
qed

section \<open>Examples\<close>

definition example_zone :: location where
  "example_zone = fixed_zone ''UTC'' 0"

definition example_row :: "nat \<Rightarrow> int \<Rightarrow> PortForwardRule" where
  "example_row i day = \<lparr>pf_id = i, pf_name = ''web'', pf_description = [], pf_enabled = True, pf_family = ''ipv4'', pf_protocol = ''tcp'',
     pf_local_mode = ''single'', pf_local_spec = ''80'', pf_local_start = 80, pf_local_count = 1, pf_local_end = 80,
     pf_target_ip = ''10.0.0.1'', pf_target_port = 80, pf_rate_limit = 0, pf_traffic_limit = 100, pf_reset_day = day, pf_expiry_date = []\<rparr>"

definition example_rows :: "PortForwardRule list" where
  "example_rows = [example_row 1 0, example_row 2 0]"

definition example_counters :: "int \<Rightarrow> int \<Rightarrow> counters" where
  "example_counters a b i = (if i = 1 then (a, 2) else if i = 2 then (b, 0) else (0, 0))"

definition example_pass :: "int \<Rightarrow> int \<Rightarrow> bool \<Rightarrow> pf_pass" where
  "example_pass a b ok = \<lparr>pass_now = 1000, pass_counters = Some (example_counters a b), pass_chains = ok\<rparr>"

definition example_traffic0 :: pf_traffic_db where
  "example_traffic0 = \<lparr>rule_states = [zero_traffic_state 1, zero_traffic_state 2], overview = None\<rparr>"

definition example_sync :: "int \<Rightarrow> int \<Rightarrow> pf_traffic_db \<Rightarrow> portForwardTrafficRuntime \<times> pf_traffic_db" where
  "example_sync a b db = the (syncPortForwardTrafficStateRows example_rows (example_counters a b) example_zone 1000 db)"

definition example_traffic1 :: pf_traffic_db where
  "example_traffic1 = snd (example_sync 10 5 example_traffic0)"

lemma example_distinct: "distinct (map pf_id example_rows)"
  by (simp add: example_rows_def example_row_def)

lemma example_counters_ok: "a \<le> 1000 \<Longrightarrow> b \<le> 1000 \<Longrightarrow> counters_ok (example_counters a b)"
  by (simp add: counters_ok_def example_counters_def portForwardTrafficMaxBytes_def)

lemma example_pass_ok: "a \<le> 1000 \<Longrightarrow> b \<le> 1000 \<Longrightarrow> pass_ok (example_pass a b ok)"
  by (simp add: pass_ok_def example_pass_def example_counters_ok)

lemma example_sync_eq:
  "syncPortForwardTrafficStateRows example_rows (example_counters a b) example_zone 1000 db = Some (example_sync a b db)"
proof -
  have "\<forall>row \<in> set example_rows. parseTrafficOverviewExpiryDate (pf_expiry_date row) example_zone \<noteq> None" by code_simp
  then show ?thesis using sync_None_iff unfolding example_sync_def by fastforce
qed

lemma example_reachable: "pf_traffic_reachable example_zone example_traffic0" "pf_traffic_reachable example_zone example_traffic1"
proof -
  have "pf_traffic_reachable example_zone (\<lparr>rule_states = [], overview = None\<rparr>\<lparr>rule_states := [] @ [zero_traffic_state 1]\<rparr>)"
    using pf_traffic_reachable.new_rule [OF pf_traffic_reachable.empty] by simp
  then have "pf_traffic_reachable example_zone \<lparr>rule_states = [zero_traffic_state 1], overview = None\<rparr>" by simp
  from pf_traffic_reachable.new_rule [OF this, of 2]
  show r: "pf_traffic_reachable example_zone example_traffic0" by (simp add: example_traffic0_def zero_state_ok)
  show "pf_traffic_reachable example_zone example_traffic1"
    by (rule pf_traffic_reachable.sync [OF r example_distinct example_counters_ok, of 10 5 1000 "fst (example_sync 10 5 example_traffic0)"])
       (simp_all add: example_sync_eq example_traffic1_def)
qed

theorem sync_counts_every_byte_once_witness:
  "rule_used (snd (example_sync 15 2 example_traffic1)) 1 = (15, 2)
     \<and> rule_used (snd (example_sync 15 2 example_traffic1)) 2 = (7, 0)
     \<and> overview (snd (example_sync 15 2 example_traffic1)) = Some \<lparr>ov_up = 22, ov_down = 2\<rparr>"
proof -
  have h: "overview example_traffic1 = Some \<lparr>ov_up = 15, ov_down = 2\<rparr>"
    "map (rule_used example_traffic1) [1, 2] = [(10, 2), (5, 0)]"
    "map (new_bytes example_traffic1 (example_counters 15 2)) [1, 2] = [(5, 0), (2, 0)]" by code_simp+
  have p: "same_period example_zone 1000 (example_row 1 0) (the (state_of (rule_states example_traffic1) 1))"
    "same_period example_zone 1000 (example_row 2 0) (the (state_of (rule_states example_traffic1) 2))"
    "state_of (rule_states example_traffic1) 1 \<noteq> None" "state_of (rule_states example_traffic1) 2 \<noteq> None" by code_simp+
  have st: "\<forall>row \<in> set example_rows. \<exists>st. state_of (rule_states example_traffic1) (pf_id row) = Some st \<and> same_period example_zone 1000 row st"
    using p by (auto simp: example_rows_def) (auto simp: example_row_def)
  have ids: "pf_id (example_row i d) = i" for i d by (simp add: example_row_def)
  have s: "syncPortForwardTrafficStateRows example_rows (example_counters 15 2) example_zone 1000 example_traffic1
      = Some (fst (example_sync 15 2 example_traffic1), snd (example_sync 15 2 example_traffic1))" by (simp add: example_sync_eq)
  from sync_counts_every_byte_once [OF example_reachable(2) example_distinct h(1) s st] h(2,3)
  show ?thesis by (simp add: example_rows_def ids portForwardTrafficMaxBytes_def)
qed

theorem forwarding_reset_agrees_with_client_reset_example:
  "applyPortForwardTrafficMonthlyReset 31 (fixed_zone ''UTC'' 0) 1709164800
      (zero_traffic_state 1\<lparr>AppliedResetDay := 31, ResetPeriodTag := computePeriodTag 31 (fixed_zone ''UTC'' 0) 1709164799, UsedUpBytes := 7\<rparr>)
    = (True, zero_traffic_state 1\<lparr>AppliedResetDay := 31, ResetPeriodTag := computePeriodTag 31 (fixed_zone ''UTC'' 0) 1709164800,
         LastResetAt := 1709164800\<rparr>)"
proof -
  have h: "latestClientMonthlyResetBoundary 31 (fixed_zone ''UTC'' 0) 1709164799 = Some 1706659200"
    "shouldResetClientTrafficMonthly 1709164799 31 (fixed_zone ''UTC'' 0) 1709164800" by code_simp+
  show ?thesis
    using forwarding_reset_agrees_with_client_reset [OF fixed.regular_location_axioms _ _ _ h(1), of 1709164800
        "zero_traffic_state 1\<lparr>AppliedResetDay := 31, ResetPeriodTag := computePeriodTag 31 (fixed_zone ''UTC'' 0) 1709164799, UsedUpBytes := 7\<rparr>"] h(2)
    by (simp add: zero_traffic_state_def fresh_traffic_state_def)
qed

theorem forwarding_quota_exact_example:
  "\<exists>rt. buildPortForwardTrafficRuleRuntime (example_row 1 0) (zero_traffic_state 1\<lparr>UsedUpBytes := 60, UsedDownBytes := 40\<rparr>) example_zone 1000 = Some rt
     \<and> LimitReached rt \<and> BlockReason rt \<noteq> []"
proof -
  let ?st = "zero_traffic_state 1\<lparr>UsedUpBytes := 60, UsedDownBytes := 40\<rparr>"
  have ok: "state_ok ?st" by (simp add: state_ok_def zero_traffic_state_def fresh_traffic_state_def portForwardTrafficMaxBytes_def)
  have "buildPortForwardTrafficRuleRuntime (example_row 1 0) ?st example_zone 1000 \<noteq> None" by code_simp
  then obtain rt where rt: "buildPortForwardTrafficRuleRuntime (example_row 1 0) ?st example_zone 1000 = Some rt" by blast
  have limit: "pf_traffic_limit (example_row 1 0) = 100" by (simp add: example_row_def)
  have "UsedUpBytes ?st + UsedDownBytes ?st = 100" by simp
  with forwarding_quota_exact [OF rt ok] have "LimitReached rt \<and> BlockReason rt \<noteq> []"
    unfolding limit by (simp add: portForwardTrafficMaxBytes_def)
  with rt show ?thesis by blast
qed

theorem forwarding_cursors_agree_example:
  "OverviewLastUpBytes (rule_states example_traffic1 ! 1) = LastUpBytes (rule_states example_traffic1 ! 1)"
proof -
  have "1 < length (rule_states example_traffic1)" by code_simp
  from forwarding_cursors_agree [OF example_reachable(2) nth_mem [OF this]] show ?thesis by blast
qed

theorem sync_is_idempotent_example:
  "syncPortForwardTrafficStateRows example_rows (example_counters 15 2) example_zone 1000 (snd (example_sync 15 2 example_traffic1))
     = Some (example_sync 15 2 example_traffic1)"
  using sync_is_idempotent [OF example_reachable(2) example_distinct example_counters_ok, of 15 2 1000
      "fst (example_sync 15 2 example_traffic1)" "snd (example_sync 15 2 example_traffic1)"]
  by (simp add: example_sync_eq)

theorem reset_rule_leaves_the_rest_witness:
  "\<exists>db3. ResetRuleTraffic True example_zone None True example_rows (example_pass 15 2 True) (example_pass 21 2 True) (example_pass 0 0 True) 1 example_traffic1
       = (True, db3)
     \<and> overview db3 = Some \<lparr>ov_up = 28, ov_down = 2\<rparr> \<and> rule_used db3 2 = (7, 0) \<and> rule_used db3 1 = (6, 0)"
proof -
  let ?db1 = "snd (example_sync 15 2 example_traffic1)" and ?db2 = "snd (example_sync 21 2 (snd (example_sync 15 2 example_traffic1)))"
  let ?p1 = "example_pass 15 2 True" and ?p2 = "example_pass 21 2 True" and ?p3 = "example_pass 0 0 True"
  have h: "find (\<lambda>r. pf_id r = 1) example_rows = Some (example_row 1 0)" by (simp add: example_rows_def example_row_def)
  have p: "pass_counters ?p1 = Some (example_counters 15 2)" "pass_counters ?p2 = Some (example_counters 21 2)" "pass_chains ?p2"
    "pass_ok ?p1" "pass_ok ?p2" "pass_now ?p1 = 1000" "pass_now ?p2 = 1000"
    by (simp_all add: example_pass_ok) (simp_all add: example_pass_def)
  have s: "syncPortForwardTrafficStateRows example_rows (example_counters 15 2) example_zone (pass_now ?p1) example_traffic1
        = Some (fst (example_sync 15 2 example_traffic1), ?db1)"
    "syncPortForwardTrafficStateRows example_rows (example_counters 21 2) example_zone (pass_now ?p2) ?db1 = Some (fst (example_sync 21 2 ?db1), ?db2)"
    by (simp_all add: p example_sync_eq)
  have v: "overview ?db2 = Some \<lparr>ov_up = 28, ov_down = 2\<rparr>" "rule_used ?db2 2 = (7, 0)" "new_bytes ?db1 (example_counters 21 2) 1 = (6, 0)" by code_simp+
  obtain db3 where db3: "ResetRuleTraffic True example_zone None True example_rows ?p1 ?p2 ?p3 1 example_traffic1 = (True, db3)"
    "overview db3 = overview ?db2" "state_of (rule_states db3) 2 = state_of (rule_states ?db2) 2" "rule_used db3 1 = (6, 0)"
    using reset_rule_leaves_the_rest [OF example_reachable(2) example_distinct p(4,5,1,2,3) h s, of None True ?p3] v(3) p by auto
  then have "rule_used db3 2 = (7, 0)" using v(2) by (simp add: rule_used_def)
  with db3 v(1) show ?thesis by auto
qed

theorem failed_reset_counts_overview_twice_example:
  "map_option ov_up (overview (snd (ResetRuleTraffic True example_zone None True [example_row 1 0] (example_pass 10 0 True) (example_pass 25 0 False)
      (example_pass 37 0 True) 1 example_traffic0))) = Some 52"
proof -
  let ?p1 = "example_pass 10 0 True" and ?p2 = "example_pass 25 0 False" and ?p3 = "example_pass 37 0 True"
  let ?r = "the (syncPortForwardTrafficStateRows [example_row 1 0] (example_counters 10 0) example_zone 1000 example_traffic0)"
  have p: "pass_counters ?p1 = Some (example_counters 10 0)" "pass_counters ?p2 = Some (example_counters 25 0)"
    "pass_counters ?p3 = Some (example_counters 37 0)" "\<not> pass_chains ?p2" "pass_ok ?p1" "pass_ok ?p2" "pass_ok ?p3" "pass_now ?p1 = 1000"
    by (simp_all add: example_pass_ok) (simp_all add: example_pass_def)
  have "syncPortForwardTrafficStateRows [example_row 1 0] (example_counters 10 0) example_zone 1000 example_traffic0 \<noteq> None" by code_simp
  then have s: "syncPortForwardTrafficStateRows [example_row 1 0] (example_counters 10 0) example_zone (pass_now ?p1) example_traffic0
      = Some (fst ?r, snd ?r)" by (auto simp: p)
  have w: "map_option ov_up (overview (snd ?r)) = Some 10" by code_simp
  have i: "pf_id (example_row 1 0) = 1" by (simp add: example_row_def)
  from failed_reset_counts_overview_twice [OF example_reachable(1) p(5,6,7,1,2,3,4) s w, unfolded i] show ?thesis
    by (simp add: example_counters_def portForwardTrafficMaxBytes_def)
qed

end
