(* ===== verification/Port_Forward_Service.thy ===== *)
theory Port_Forward_Service
  imports Port_Forward_Ledger "HOL-Library.Multiset"
begin

text \<open>
  The forwarding service (\<open>service/port_forward.go\<close>): saving and deleting rules, the periodic
  reconciliation, and what they do to the rule table and to the traffic database together. Every
  handler samples the counters first, changes the tables, renders, and takes its change back when
  the rendering fails. The texts of warnings are not modelled.

  The lemmas show an invariant of every state the service reaches and that a failed save or delete
  leaves the rules as they were.
\<close>

section \<open>Handlers\<close>

record pf_service =
  tbl :: pf_table
  traf :: pf_traffic_db
  lastReconcile :: "int option"
  lastActiveRuleCount :: nat
  lastError :: bool  \<comment> \<open>whether an error text is kept for the overview\<close>

record pf_host =
  usable :: bool  \<comment> \<open>\<open>portForwardSupported\<close>: Linux with nft\<close>
  zone :: location

record pf_round =
  \<comment> \<open>what one reconciliation meets\<close>
  renderer_ok :: bool
  clock :: int
  pass :: pf_pass
  redrawn :: bool  \<comment> \<open>whether the chains had to be written\<close>

record pf_faults =
  undo_rule :: bool  \<comment> \<open>the compensating statement on the rule table succeeds\<close>
  undo_state :: bool  \<comment> \<open>the removal of a traffic state succeeds\<close>

definition portForwardIdleVerifyInterval :: int where
  "portForwardIdleVerifyInterval = 300"

definition loadPortForwardRulesLocked :: "pf_table \<Rightarrow> PortForwardRule list" where
  "loadPortForwardRulesLocked tb = sort_key pf_id (rules tb)"

definition reconcile_skipped :: "int \<Rightarrow> int \<Rightarrow> pf_service \<Rightarrow> bool" where
  "reconcile_skipped minGap now sv =
     (minGap > 0 \<and> (case lastReconcile sv of
        None \<Rightarrow> False
      | Some t \<Rightarrow> now - t < minGap \<or> (lastActiveRuleCount sv = 0 \<and> now - t < portForwardIdleVerifyInterval)))"

definition reconcileLocked :: "pf_host \<Rightarrow> int \<Rightarrow> pf_round \<Rightarrow> pf_service \<Rightarrow> bool \<times> pf_service" where
  "reconcileLocked h minGap rd sv =
     (if \<not> usable h then (True, sv)
      else if \<not> renderer_ok rd then (False, sv)
      else if reconcile_skipped minGap (clock rd) sv then (True, sv)
      else let rows = loadPortForwardRulesLocked (tbl sv);
               (ok, tf) = render_traffic True (zone h) rows (pass rd) (traf sv)
           in if ok then (True, sv\<lparr>traf := tf, lastReconcile := Some (clock rd),
                                  lastActiveRuleCount := (if redrawn rd then length (filter pf_enabled rows) else lastActiveRuleCount sv)\<rparr>)
              else (False, sv\<lparr>traf := tf\<rparr>))"

definition SyncIfNeeded :: "pf_host \<Rightarrow> int \<Rightarrow> pf_round \<Rightarrow> pf_service \<Rightarrow> bool \<times> pf_service" where
  "SyncIfNeeded h minGap rd sv = (let (ok, sv') = reconcileLocked h minGap rd sv in (ok, sv'\<lparr>lastError := \<not> ok\<rparr>))"

definition capture :: "pf_host \<Rightarrow> pf_pass \<Rightarrow> pf_service \<Rightarrow> pf_service option" where
  "capture h p sv =
     map_option (\<lambda>(_, tf). sv\<lparr>traf := tf\<rparr>)
       (capturePortForwardTrafficLocked (usable h) (zone h) (loadPortForwardRulesLocked (tbl sv)) p (traf sv))"

definition save_rule ::
    "pf_env \<Rightarrow> nat \<Rightarrow> normalizedPortForwardRule \<Rightarrow> pf_service \<Rightarrow> (pf_service \<times> PortForwardRule \<times> PortForwardRule option) option" where
  \<comment> \<open>the transaction; a new rule gets a zero traffic state, whose rule id is unique\<close>
  "save_rule env pid n sv =
     (case upsert_transaction env pid n (tbl sv) of
        None \<Rightarrow> None
      | Some (tb, row, prev) \<Rightarrow>
          (if pid > 0 then Some (sv\<lparr>tbl := tb\<rparr>, row, prev)
           else if pf_id row \<in> t_rule ` set (rule_states (traf sv)) then None
           else Some (sv\<lparr>tbl := tb, traf := (traf sv)\<lparr>rule_states := rule_states (traf sv) @ [zero_traffic_state (pf_id row)]\<rparr>\<rparr>, row, prev)))"

definition forget_state :: "pf_faults \<Rightarrow> nat \<Rightarrow> pf_service \<Rightarrow> pf_service" where
  "forget_state f i sv =
     (if undo_state f then sv\<lparr>traf := (traf sv)\<lparr>rule_states := filter (\<lambda>s. t_rule s \<noteq> i) (rule_states (traf sv))\<rparr>\<rparr> else sv)"

definition undo_save :: "pf_faults \<Rightarrow> PortForwardRule \<Rightarrow> PortForwardRule option \<Rightarrow> pf_service \<Rightarrow> pf_service" where
  "undo_save f row prev sv =
     (if \<not> undo_rule f then sv
      else case prev of
             None \<Rightarrow> forget_state f (pf_id row) (sv\<lparr>tbl := (tbl sv)\<lparr>rules := filter (\<lambda>r. pf_id r \<noteq> pf_id row) (rules (tbl sv))\<rparr>\<rparr>)
           | Some p \<Rightarrow> sv\<lparr>tbl := (tbl sv)\<lparr>rules := replace_rule p (rules (tbl sv))\<rparr>\<rparr>)"

definition UpsertRule ::
    "pf_host \<Rightarrow> pf_env \<Rightarrow> pf_faults \<Rightarrow> pf_pass \<Rightarrow> pf_round \<Rightarrow> pf_round \<Rightarrow> nat \<Rightarrow> normalizedPortForwardRule option
      \<Rightarrow> pf_service \<Rightarrow> bool \<times> pf_service" where
  \<comment> \<open>the rule is the outcome of \<open>normalizePortForwardRulePayload\<close>, \<open>None\<close> when the payload is rejected\<close>
  "UpsertRule h env f p r1 r2 pid payload sv =
     (case capture h p sv of
        None \<Rightarrow> (False, sv)
      | Some sv1 \<Rightarrow>
          (case payload of
             None \<Rightarrow> (False, sv1)
           | Some n \<Rightarrow>
               (case save_rule env pid n sv1 of
                  None \<Rightarrow> (False, sv1)
                | Some (sv2, row, prev) \<Rightarrow>
                    (let (ok, sv3) = reconcileLocked h 0 r1 sv2
                     in if ok then (True, sv3)
                        else (False, snd (reconcileLocked h 0 r2 (undo_save f row prev sv3)))))))"

definition DeleteRule ::
    "pf_host \<Rightarrow> pf_faults \<Rightarrow> pf_pass \<Rightarrow> pf_round \<Rightarrow> pf_round \<Rightarrow> nat \<Rightarrow> pf_service \<Rightarrow> bool \<times> pf_service" where
  "DeleteRule h f p r1 r2 i sv =
     (case capture h p sv of
        None \<Rightarrow> (False, sv)
      | Some sv1 \<Rightarrow>
          (case find (\<lambda>r. pf_id r = i) (rules (tbl sv1)) of
             None \<Rightarrow> (False, sv1)
           | Some row \<Rightarrow>
               (let (ok, sv2) = reconcileLocked h 0 r1
                      (sv1\<lparr>tbl := (tbl sv1)\<lparr>rules := filter (\<lambda>r. pf_id r \<noteq> i) (rules (tbl sv1))\<rparr>\<rparr>)
                in if ok then (True, forget_state f i sv2)
                   else (False, snd (reconcileLocked h 0 r2
                          (if undo_rule f then sv2\<lparr>tbl := (tbl sv2)\<lparr>rules := rules (tbl sv2) @ [row]\<rparr>\<rparr> else sv2))))))"

record pf_reset =
  \<comment> \<open>what one reset meets: three passes over the tables (the capture, the rendering, the rendering after
     the reset is taken back), the snapshot in memory, whether the compensating statement works, and
     whether the chains had to be written\<close>
  passes :: "pf_pass \<times> pf_pass \<times> pf_pass"
  nftSnapshot :: "counters option"
  undo_works :: bool
  chains_written :: bool

definition after_reset :: "pf_reset \<Rightarrow> bool \<times> pf_traffic_db \<Rightarrow> pf_service \<Rightarrow> bool \<times> pf_service" where
  "after_reset x res sv =
     (fst res, sv\<lparr>traf := snd res,
        lastActiveRuleCount := (if chains_written x then length (filter pf_enabled (rules (tbl sv))) else lastActiveRuleCount sv)\<rparr>)"

definition serve_rule_reset :: "pf_host \<Rightarrow> pf_reset \<Rightarrow> nat \<Rightarrow> pf_service \<Rightarrow> bool \<times> pf_service" where
  \<comment> \<open>\<open>ResetRuleTraffic\<close> on the state of the service\<close>
  "serve_rule_reset h x i sv = (case passes x of (p1, p2, p3) \<Rightarrow>
     after_reset x (ResetRuleTraffic (usable h) (zone h) (nftSnapshot x) (undo_works x)
       (loadPortForwardRulesLocked (tbl sv)) p1 p2 p3 i (traf sv)) sv)"

definition serve_overview_reset :: "pf_host \<Rightarrow> pf_reset \<Rightarrow> pf_service \<Rightarrow> bool \<times> pf_service" where
  \<comment> \<open>\<open>ResetOverviewTraffic\<close> on the state of the service\<close>
  "serve_overview_reset h x sv = (case passes x of (p1, p2, p3) \<Rightarrow>
     after_reset x (ResetOverviewTraffic (usable h) (zone h) (undo_works x)
       (loadPortForwardRulesLocked (tbl sv)) p1 p2 p3 (traf sv)) sv)"

definition CleanupOnShutdown :: "pf_service \<Rightarrow> pf_service" where
  \<comment> \<open>the memory of the service is cleared, and the database stays; a crash leaves the same for the next start\<close>
  "CleanupOnShutdown sv = sv\<lparr>lastReconcile := None, lastActiveRuleCount := 0, lastError := False\<rparr>"

section \<open>The invariant of the service\<close>

definition service_ok :: "pf_service \<Rightarrow> bool" where
  "service_ok sv \<longleftrightarrow> table_ok (tbl sv) \<and> traffic_inv (traf sv)
     \<and> pf_id ` set (rules (tbl sv)) \<subseteq> t_rule ` set (rule_states (traf sv))
     \<and> t_rule ` set (rule_states (traf sv)) \<subseteq> {..<next_id (tbl sv)}"

definition round_ok :: "pf_round \<Rightarrow> bool" where
  "round_ok rd \<longleftrightarrow> pass_ok (pass rd)"

lemma load_rules [simp]:
  "set (loadPortForwardRulesLocked tb) = set (rules tb)"
  "distinct (map pf_id (loadPortForwardRulesLocked tb)) = distinct (map pf_id (rules tb))"
proof -
  show "set (loadPortForwardRulesLocked tb) = set (rules tb)" by (simp add: loadPortForwardRulesLocked_def)
  have "mset (map pf_id (loadPortForwardRulesLocked tb)) = mset (map pf_id (rules tb))"
    by (simp only: loadPortForwardRulesLocked_def mset_map mset_sort)
  then show "distinct (map pf_id (loadPortForwardRulesLocked tb)) = distinct (map pf_id (rules tb))"
    by (metis mset_eq_imp_distinct_iff)
qed

lemma sync_rules:
  assumes inv: "traffic_inv db" and d: "distinct (map pf_id rows)"
    and s: "syncPortForwardTrafficStateRows rows cnt loc now db = Some (rt, db')"
  shows "t_rule ` set (rule_states db') = pf_id ` set rows \<union> t_rule ` set (rule_states db)"
proof -
  have "j \<in> t_rule ` set (rule_states db') \<longleftrightarrow> j \<in> pf_id ` set rows \<or> j \<in> t_rule ` set (rule_states db)" for j
  proof (cases "find (\<lambda>row. pf_id row = j) rows")
    case None
    then have "j \<notin> pf_id ` set rows" by (auto simp: find_None_iff)
    with None show ?thesis
      using sync_lookup(1) [OF inv_states_ok [OF inv] d, of cnt loc now j, folded sync_Some(1) [OF s]]
        state_of_None [of "rule_states db'" j] state_of_None [of "rule_states db" j] by auto
  next
    case (Some row)
    then have "j \<in> pf_id ` set rows" by (auto simp: find_Some_iff)
    with Some show ?thesis
      using sync_lookup(1) [OF inv_states_ok [OF inv] d, of cnt loc now j, folded sync_Some(1) [OF s]]
        state_of_None [of "rule_states db'" j] by auto
  qed
  then show ?thesis by blast
qed

lemma service_sync:
  assumes ok: "service_ok sv" and c: "counters_ok cnt" and n: "0 \<le> now"
    and s: "syncPortForwardTrafficStateRows (loadPortForwardRulesLocked (tbl sv)) cnt loc now (traf sv) = Some (rt, tf)"
  shows "service_ok (sv\<lparr>traf := tf\<rparr>)"
proof -
  have t: "table_ok (tbl sv)" "traffic_inv (traf sv)" and d: "distinct (map pf_id (loadPortForwardRulesLocked (tbl sv)))"
    using ok by (simp_all add: service_ok_def table_ok_def)
  have "t_rule ` set (rule_states tf) = t_rule ` set (rule_states (traf sv))"
    using sync_rules [OF t(2) d s] ok by (auto simp: service_ok_def)
  moreover have "traffic_inv tf" by (rule sync_inv [OF t(2) d c n s])
  ultimately show ?thesis using ok by (simp add: service_ok_def)
qed

lemma capture_ok:
  assumes ok: "service_ok sv" and p: "pass_ok p" and c: "capture h p sv = Some sv1"
  shows "service_ok sv1" "tbl sv1 = tbl sv"
proof -
  obtain rt tf where s: "capturePortForwardTrafficLocked (usable h) (zone h) (loadPortForwardRulesLocked (tbl sv)) p (traf sv) = Some (rt, tf)"
    and sv1: "sv1 = sv\<lparr>traf := tf\<rparr>" using c by (auto simp: capture_def)
  show "tbl sv1 = tbl sv" by (simp add: sv1)
  show "service_ok sv1"
  proof (cases "usable h")
    case True
    then obtain cnt where "pass_counters p = Some cnt"
      "syncPortForwardTrafficStateRows (loadPortForwardRulesLocked (tbl sv)) cnt (zone h) (pass_now p) (traf sv) = Some (rt, tf)"
      using s by (auto simp: capturePortForwardTrafficLocked_def split: option.splits)
    then show ?thesis using service_sync [OF ok] p by (auto simp: pass_ok_def sv1)
  next
    case False
    then show ?thesis using service_sync [OF ok counters_ok_zero] s p by (auto simp: capturePortForwardTrafficLocked_def pass_ok_def sv1)
  qed
qed

lemma service_ok_clock [simp]:
  "service_ok (sv\<lparr>lastReconcile := t\<rparr>) = service_ok sv" "service_ok (sv\<lparr>lastActiveRuleCount := n\<rparr>) = service_ok sv"
  "service_ok (sv\<lparr>lastError := e\<rparr>) = service_ok sv"
  by (simp_all add: service_ok_def)

lemma reconcile_ok:
  assumes ok: "service_ok sv" and r: "round_ok rd"
  shows "service_ok (snd (reconcileLocked h minGap rd sv))" "tbl (snd (reconcileLocked h minGap rd sv)) = tbl sv"
    "t_rule ` set (rule_states (traf sv)) \<subseteq> t_rule ` set (rule_states (traf (snd (reconcileLocked h minGap rd sv))))"
proof -
  define tf where "tf = snd (render_traffic True (zone h) (loadPortForwardRulesLocked (tbl sv)) (pass rd) (traf sv))"
  have "service_ok (sv\<lparr>traf := tf\<rparr>) \<and> t_rule ` set (rule_states (traf sv)) \<subseteq> t_rule ` set (rule_states tf)"
  proof (cases "\<exists>cnt rt. pass_counters (pass rd) = Some cnt
      \<and> syncPortForwardTrafficStateRows (loadPortForwardRulesLocked (tbl sv)) cnt (zone h) (pass_now (pass rd)) (traf sv) = Some (rt, tf)")
    case True
    then obtain cnt rt where c: "pass_counters (pass rd) = Some cnt"
      and s: "syncPortForwardTrafficStateRows (loadPortForwardRulesLocked (tbl sv)) cnt (zone h) (pass_now (pass rd)) (traf sv) = Some (rt, tf)"
      by blast
    have "traffic_inv (traf sv)" "distinct (map pf_id (loadPortForwardRulesLocked (tbl sv)))"
      using ok by (simp_all add: service_ok_def table_ok_def)
    from sync_rules [OF this s] service_sync [OF ok _ _ s] c r show ?thesis by (auto simp: round_ok_def pass_ok_def)
  next
    case False
    then have "tf = traf sv" unfolding tf_def by (auto simp: render_traffic_def split: option.splits)
    with ok show ?thesis by simp
  qed
  with ok show "service_ok (snd (reconcileLocked h minGap rd sv))"
    "t_rule ` set (rule_states (traf sv)) \<subseteq> t_rule ` set (rule_states (traf (snd (reconcileLocked h minGap rd sv))))"
    by (simp_all add: reconcileLocked_def Let_def case_prod_beta tf_def)
  show "tbl (snd (reconcileLocked h minGap rd sv)) = tbl sv"
    by (simp add: reconcileLocked_def Let_def case_prod_beta)
qed

lemma save_rule_ok:
  assumes ok: "service_ok sv" and a: "accepted_local (n_local n)" and s: "save_rule env pid n sv = Some (sv', row, prev)"
  shows "service_ok sv'" "table_ok (tbl sv')"
    and "prev = None \<Longrightarrow> pf_id row = next_id (tbl sv) \<and> rules (tbl sv') = rules (tbl sv) @ [row]"
    and "prev = Some p \<Longrightarrow> p \<in> set (rules (tbl sv)) \<and> pf_id row = pf_id p \<and> tbl sv' = (tbl sv)\<lparr>rules := replace_rule row (rules (tbl sv))\<rparr>"
proof -
  obtain tb where t: "upsert_transaction env pid n (tbl sv) = Some (tb, row, prev)" and tb: "tbl sv' = tb"
    using s by (auto simp: save_rule_def split: option.splits if_splits)
  have ok': "table_ok (tbl sv)" "traffic_inv (traf sv)" using ok by (simp_all add: service_ok_def)
  note u = upsert_transaction_ok [OF ok'(1) a t]
  show "table_ok (tbl sv')" using u(1) tb by simp
  show upd: "p \<in> set (rules (tbl sv)) \<and> pf_id row = pf_id p \<and> tbl sv' = (tbl sv)\<lparr>rules := replace_rule row (rules (tbl sv))\<rparr>"
    if "prev = Some p" for p using u(2) that tb by simp
  have new: "prev = None \<longleftrightarrow> pid = 0"
    using t by (cases "find (\<lambda>r. pf_id r = pid) (rules (tbl sv))")
      (auto simp: upsert_transaction_def Let_def dest!: sym [of "Some _"] split: if_splits option.splits)
  have create: "pf_id row = next_id (tbl sv) \<and> tb = \<lparr>rules = rules (tbl sv) @ [row], next_id = next_id (tbl sv) + 1\<rparr>" if "prev = None"
    using t that new by (auto simp: upsert_transaction_def new_row_def Let_def split: if_splits option.splits)
  show "pf_id row = next_id (tbl sv) \<and> rules (tbl sv') = rules (tbl sv) @ [row]" if "prev = None"
    using create [OF that] tb by simp
  show "service_ok sv'"
  proof (cases prev)
    case (Some q)
    then have sv': "sv' = sv\<lparr>tbl := tb\<rparr>" using s t new by (auto simp: save_rule_def)
    have "set (map pf_id (rules tb)) = set (map pf_id (rules (tbl sv)))" "next_id tb = next_id (tbl sv)"
      using upd [OF Some] tb by simp_all
    then have "pf_id ` set (rules tb) = pf_id ` set (rules (tbl sv))" "next_id tb = next_id (tbl sv)" by (simp_all only: set_map)
    with ok u(1) show ?thesis by (simp add: service_ok_def sv')
  next
    case None
    then have sv': "sv' = sv\<lparr>tbl := tb, traf := (traf sv)\<lparr>rule_states := rule_states (traf sv) @ [zero_traffic_state (pf_id row)]\<rparr>\<rparr>"
      and fresh: "pf_id row \<notin> t_rule ` set (rule_states (traf sv))"
      using s t new by (auto simp: save_rule_def split: if_splits)
    from create [OF None] ok u(1) tb append_inv [OF ok'(2) zero_state_ok(1,2)] fresh show ?thesis
      by (auto simp: service_ok_def sv' zero_state_ok(3))
  qed
qed

lemma forget_state_ok:
  assumes "service_ok sv" "i \<notin> pf_id ` set (rules (tbl sv))"
  shows "service_ok (forget_state f i sv)" "tbl (forget_state f i sv) = tbl sv"
proof -
  let ?sts = "rule_states (traf sv)"
  have eq: "t_rule ` set (filter (\<lambda>s. t_rule s \<noteq> i) ?sts) = t_rule ` set ?sts - {i}" by auto
  have "pf_id ` set (rules (tbl sv)) \<subseteq> t_rule ` set ?sts - {i}" using assms by (auto simp: service_ok_def)
  moreover have "t_rule ` set ?sts - {i} \<subseteq> {..<next_id (tbl sv)}" using assms(1) by (auto simp: service_ok_def)
  ultimately show "service_ok (forget_state f i sv)"
    using assms(1) filter_inv [of "traf sv"] unfolding forget_state_def service_ok_def by (simp add: eq del: set_filter)
  show "tbl (forget_state f i sv) = tbl sv" by (simp add: forget_state_def)
qed

lemma undo_save_ok:
  assumes ok0: "service_ok sv0" and a: "accepted_local (n_local n)" and s: "save_rule env pid n sv0 = Some (sv1, row, prev)"
    and ok: "service_ok sv" and same: "tbl sv = tbl sv1"
  shows "service_ok (undo_save f row prev sv)"
    and "undo_rule f \<Longrightarrow> rules (tbl (undo_save f row prev sv)) = rules (tbl sv0)"
proof -
  note sv = save_rule_ok [OF ok0 a s]
  have t: "table_ok (tbl sv0)" using ok0 by (simp add: service_ok_def)
  have both: "service_ok (undo_save f row prev sv) \<and> rules (tbl (undo_save f row prev sv)) = rules (tbl sv0)" if f: "undo_rule f"
  proof (cases prev)
    case (Some p)
    have "replace_rule p (rules (tbl sv)) = rules (tbl sv0)"
      using sv(4) [OF Some] same t by (auto simp: table_ok_def intro!: restore_replaced)
    moreover have "pf_id ` set (rules (tbl sv0)) = pf_id ` set (rules (tbl sv))" "next_id (tbl sv) = next_id (tbl sv0)"
      using sv(4) [OF Some] same by (simp_all flip: set_map)
    moreover have "table_ok ((tbl sv)\<lparr>rules := rules (tbl sv0)\<rparr>)" using sv(4) [OF Some] same t by simp
    ultimately show ?thesis using f Some ok t by (simp add: undo_save_def service_ok_def)
  next
    case None
    have r: "rules (tbl sv) = rules (tbl sv0) @ [row]" "pf_id row = next_id (tbl sv0)" using sv(3) [OF None] same by simp_all
    have "filter (\<lambda>r. pf_id r \<noteq> pf_id row) (rules (tbl sv)) = rules (tbl sv0)"
      using t r by (auto simp: table_ok_def intro!: filter_True)
    moreover have "service_ok (sv\<lparr>tbl := (tbl sv)\<lparr>rules := filter (\<lambda>r. pf_id r \<noteq> pf_id row) (rules (tbl sv))\<rparr>\<rparr>)"
      using ok by (auto simp: service_ok_def intro: filter_table_ok)
    moreover have "pf_id row \<notin> pf_id ` set (rules (tbl sv0))" using t r by (auto simp: table_ok_def)
    ultimately show ?thesis using f None forget_state_ok [of "sv\<lparr>tbl := (tbl sv)\<lparr>rules := filter (\<lambda>r. pf_id r \<noteq> pf_id row) (rules (tbl sv))\<rparr>\<rparr>" "pf_id row" f]
      by (auto simp: undo_save_def)
  qed
  then show "undo_rule f \<Longrightarrow> rules (tbl (undo_save f row prev sv)) = rules (tbl sv0)" by simp
  show "service_ok (undo_save f row prev sv)" using both ok by (cases "undo_rule f") (auto simp: undo_save_def)
qed


lemma UpsertRule_ok:
  assumes ok: "service_ok sv" and p: "pass_ok p" "round_ok r1" "round_ok r2" and a: "\<And>n. payload = Some n \<Longrightarrow> accepted_local (n_local n)"
  shows "service_ok (snd (UpsertRule h env f p r1 r2 pid payload sv))
      \<and> (\<not> fst (UpsertRule h env f p r1 r2 pid payload sv) \<and> undo_rule f
           \<longrightarrow> rules (tbl (snd (UpsertRule h env f p r1 r2 pid payload sv))) = rules (tbl sv))"
proof (cases "capture h p sv")
  case None
  then show ?thesis using ok by (simp add: UpsertRule_def)
next
  case (Some sv1)
  note c = capture_ok [OF ok p(1) Some]
  show ?thesis
  proof (cases "payload = None \<or> save_rule env pid (the payload) sv1 = None")
    case True
    then show ?thesis using c Some by (cases payload) (auto simp: UpsertRule_def)
  next
    case False
    then obtain n sv2 row prev where n: "payload = Some n" and s: "save_rule env pid n sv1 = Some (sv2, row, prev)" by auto
    note acc = a [OF n]
    define sv3 where "sv3 = snd (reconcileLocked h 0 r1 sv2)"
    have r1: "service_ok sv3" "tbl sv3 = tbl sv2"
      unfolding sv3_def using reconcile_ok [OF save_rule_ok(1) [OF c(1) acc s] p(2)] by simp_all
    note undo = undo_save_ok [OF c(1) acc s r1, of f]
    note r2 = reconcile_ok [OF undo(1) p(3), of h 0]
    show ?thesis
      using r1 r2 undo(2) c(2) by (auto simp: UpsertRule_def Some n s Let_def case_prod_beta simp flip: sv3_def)
  qed
qed

lemma filter_key: "distinct (map f xs) \<Longrightarrow> k \<in> set xs \<Longrightarrow> filter (\<lambda>x. f k = f x) xs = [k]"
proof (induction xs)
  case (Cons x xs)
  show ?case
  proof (cases "k = x")
    case True
    with Cons.prems have "filter (\<lambda>y. f x = f y) xs = []" by (auto simp: filter_empty_conv)
    with True show ?thesis by simp
  next
    case False
    with Cons.prems have "k \<in> set xs" "f k \<noteq> f x" by (auto, metis image_eqI)
    with Cons show ?thesis by simp
  qed
qed simp

lemma sort_key_cong_mset:
  assumes m: "mset xs = mset ys" and d: "distinct (map f ys)"
  shows "sort_key f xs = sort_key f ys"
proof (rule properties_for_sort_key)
  have dx: "distinct (map f xs)" using m d by (metis mset_map mset_eq_imp_distinct_iff)
  have ds: "distinct (map f (sort_key f ys))" using d by (metis mset_map mset_sort mset_eq_imp_distinct_iff)
  show "mset (sort_key f ys) = mset xs" using m by simp
  show "filter (\<lambda>x. f k = f x) (sort_key f ys) = filter (\<lambda>x. f k = f x) xs" if "k \<in> set (sort_key f ys)" for k
    using filter_key [OF ds that] filter_key [OF dx, of k] that m mset_eq_setD [OF m] by simp
qed simp

lemma load_undelete:
  assumes "distinct (map pf_id rs)" "row \<in> set rs"
  shows "sort_key pf_id (filter (\<lambda>r. pf_id r \<noteq> pf_id row) rs @ [row]) = sort_key pf_id rs"
proof (rule sort_key_cong_mset [OF _ assms(1)])
  have "mset rs = mset (filter (\<lambda>r. pf_id row = pf_id r) rs) + mset (filter (\<lambda>r. \<not> pf_id row = pf_id r) rs)"
    by (metis mset_filter multiset_partition)
  then show "mset (filter (\<lambda>r. pf_id r \<noteq> pf_id row) rs @ [row]) = mset rs"
    using filter_key [OF assms] by (simp add: eq_commute)
qed

lemma undelete_ok:
  assumes ok: "service_ok sv" and row: "row \<in> set (rules (tbl sv))" and ok2: "service_ok sv2"
    and t: "tbl sv2 = (tbl sv)\<lparr>rules := filter (\<lambda>r. pf_id r \<noteq> pf_id row) (rules (tbl sv))\<rparr>"
    and st: "pf_id row \<in> t_rule ` set (rule_states (traf sv2))"
  shows "service_ok (sv2\<lparr>tbl := (tbl sv2)\<lparr>rules := rules (tbl sv2) @ [row]\<rparr>\<rparr>)"
    and "loadPortForwardRulesLocked ((tbl sv2)\<lparr>rules := rules (tbl sv2) @ [row]\<rparr>) = loadPortForwardRulesLocked (tbl sv)"
proof -
  have d: "table_ok (tbl sv)" "distinct (map pf_id (rules (tbl sv)))" using ok by (simp_all add: service_ok_def table_ok_def)
  have "table_ok ((tbl sv2)\<lparr>rules := rules (tbl sv2) @ [row]\<rparr>)" using undelete_table_ok [OF d(1) row] t by simp
  then show "service_ok (sv2\<lparr>tbl := (tbl sv2)\<lparr>rules := rules (tbl sv2) @ [row]\<rparr>\<rparr>)"
    using ok2 st by (auto simp: service_ok_def)
  show "loadPortForwardRulesLocked ((tbl sv2)\<lparr>rules := rules (tbl sv2) @ [row]\<rparr>) = loadPortForwardRulesLocked (tbl sv)"
    using load_undelete [OF d(2) row] t by (simp add: loadPortForwardRulesLocked_def)
qed


lemma DeleteRule_ok:
  assumes ok: "service_ok sv" and p: "pass_ok p" "round_ok r1" "round_ok r2"
  shows "service_ok (snd (DeleteRule h f p r1 r2 i sv))
      \<and> (\<not> fst (DeleteRule h f p r1 r2 i sv) \<and> undo_rule f
           \<longrightarrow> loadPortForwardRulesLocked (tbl (snd (DeleteRule h f p r1 r2 i sv))) = loadPortForwardRulesLocked (tbl sv))"
proof (cases "capture h p sv")
  case None
  then show ?thesis using ok by (simp add: DeleteRule_def)
next
  case (Some sv1)
  note c = capture_ok [OF ok p(1) Some]
  show ?thesis
  proof (cases "find (\<lambda>r. pf_id r = i) (rules (tbl sv1))")
    case None
    then show ?thesis using c Some by (simp add: DeleteRule_def)
  next
    case row: (Some row)
    then have i: "row \<in> set (rules (tbl sv1))" "pf_id row = i" by (auto simp: find_Some_iff)
    define svd where "svd = sv1\<lparr>tbl := (tbl sv1)\<lparr>rules := filter (\<lambda>r. pf_id r \<noteq> i) (rules (tbl sv1))\<rparr>\<rparr>"
    have d: "service_ok svd" using c(1) by (auto simp: service_ok_def svd_def intro: filter_table_ok)
    define sv2 where "sv2 = snd (reconcileLocked h 0 r1 svd)"
    note r1 = reconcile_ok [OF d p(2), of h 0, folded sv2_def]
    have t2: "tbl sv2 = (tbl sv1)\<lparr>rules := filter (\<lambda>r. pf_id r \<noteq> pf_id row) (rules (tbl sv1))\<rparr>" using r1(2) i(2) by (simp add: svd_def)
    have "pf_id ` set (rules (tbl sv1)) \<subseteq> t_rule ` set (rule_states (traf sv2))"
      using c(1) r1(3) by (simp add: service_ok_def svd_def) (blast intro: subset_trans)
    then have "pf_id row \<in> t_rule ` set (rule_states (traf sv2))" using i(1) by blast
    note u = undelete_ok [OF c(1) i(1) r1(1) t2 this]
    note r2 = reconcile_ok [OF r1(1) p(3), of h 0] reconcile_ok [OF u(1) p(3), of h 0]
    have "i \<notin> pf_id ` set (rules (tbl sv2))" using t2 i(2) by auto
    note forget = forget_state_ok(1) [OF r1(1) this]
    have "DeleteRule h f p r1 r2 i sv =
        (if fst (reconcileLocked h 0 r1 svd) then (True, forget_state f i sv2)
         else (False, snd (reconcileLocked h 0 r2
                (if undo_rule f then sv2\<lparr>tbl := (tbl sv2)\<lparr>rules := rules (tbl sv2) @ [row]\<rparr>\<rparr> else sv2))))"
      by (simp add: DeleteRule_def Some row Let_def case_prod_beta svd_def sv2_def)
    with forget r2 u(2) c(2) show ?thesis by auto
  qed
qed

section \<open>Resets keep the invariant\<close>

definition keeps_rules :: "PortForwardRule list \<Rightarrow> pf_traffic_db \<Rightarrow> pf_traffic_db \<Rightarrow> bool" where
  \<comment> \<open>a step that adds at most the states of the given rules and loses none\<close>
  "keeps_rules rows db db' \<longleftrightarrow> pf_id ` set rows \<union> t_rule ` set (rule_states db') = pf_id ` set rows \<union> t_rule ` set (rule_states db)
     \<and> (pf_id ` set rows \<subseteq> t_rule ` set (rule_states db) \<longrightarrow> pf_id ` set rows \<subseteq> t_rule ` set (rule_states db'))"

lemma keeps_rules_refl [simp]: "keeps_rules rows db db"
  by (simp add: keeps_rules_def)

lemma keeps_rules_trans: "keeps_rules rows a b \<Longrightarrow> keeps_rules rows b c \<Longrightarrow> keeps_rules rows a c"
  by (auto simp: keeps_rules_def)

lemma keeps_rules_same: "t_rule ` set (rule_states b) = t_rule ` set (rule_states a) \<Longrightarrow> keeps_rules rows a b"
  by (simp add: keeps_rules_def)

lemma sync_keeps:
  "traffic_inv db \<Longrightarrow> distinct (map pf_id rows) \<Longrightarrow> syncPortForwardTrafficStateRows rows cnt loc now db = Some (rt, db')
     \<Longrightarrow> keeps_rules rows db db'"
  by (drule (2) sync_rules) (auto simp: keeps_rules_def)

lemma capture_keeps:
  "traffic_inv db \<Longrightarrow> distinct (map pf_id rows) \<Longrightarrow> capturePortForwardTrafficLocked nftHost loc rows p db = Some (rt, db')
     \<Longrightarrow> keeps_rules rows db db'"
  by (auto simp: capturePortForwardTrafficLocked_def intro: sync_keeps split: if_splits option.splits)

lemma render_keeps:
  "traffic_inv db \<Longrightarrow> distinct (map pf_id rows) \<Longrightarrow> keeps_rules rows db (snd (render_traffic nftHost loc rows p db))"
  by (auto simp: render_traffic_def intro: sync_keeps split: option.split)

lemma save_state_rules [simp]: "t_rule ` set (rule_states (save_state st db)) = t_rule ` set (rule_states db)"
proof -
  have "map t_rule (rule_states (save_state st db)) = map t_rule (rule_states db)" by (simp add: save_state_def)
  then show ?thesis by (metis set_map)
qed

lemma capture_has_states:
  assumes "traffic_inv db" "distinct (map pf_id rows)" "capturePortForwardTrafficLocked nftHost loc rows p db = Some (rt, db')"
  shows "pf_id ` set rows \<subseteq> t_rule ` set (rule_states db')"
  using assms by (auto simp: capturePortForwardTrafficLocked_def dest!: sync_rules split: if_splits option.splits)

lemma reset_rule_keeps:
  assumes inv: "traffic_inv db" and d: "distinct (map pf_id rows)" and p: "pass_ok p1" "pass_ok p2" "pass_ok p3"
  shows "keeps_rules rows db (snd (ResetRuleTraffic nftHost loc kept restored rows p1 p2 p3 i db))"
proof (cases "find (\<lambda>r. pf_id r = i) rows = None \<or> capturePortForwardTrafficLocked nftHost loc rows p1 db = None")
  case True
  then show ?thesis by (auto simp: ResetRuleTraffic_def split: option.split)
next
  case False
  then obtain rule rt db1 where r: "find (\<lambda>r. pf_id r = i) rows = Some rule"
      "capturePortForwardTrafficLocked nftHost loc rows p1 db = Some (rt, db1)" by auto
  have i: "i \<in> pf_id ` set rows" using r(1) by (auto simp: find_Some_iff)
  have inv1: "traffic_inv db1" by (rule capture_inv [OF inv d p(1) r(2)])
  have "i \<in> t_rule ` set (rule_states db1)" using capture_has_states [OF inv d r(2)] i by blast
  then obtain prev where prev: "find (\<lambda>s. t_rule s = i) (rule_states db1) = Some prev"
    using find_state(2) [of i "rule_states db1"] by (cases "find (\<lambda>s. t_rule s = i) (rule_states db1)") auto
  define dbr where "dbr = write_reset rule (reset_baseline nftHost kept p1 i) loc (pass_now p1) i (Some prev) db1"
  have now: "0 \<le> pass_now p1" using p(1) by (simp add: pass_ok_def)
  have invr: "traffic_inv dbr" using write_reset_inv [OF inv1 now, of rule _ loc i] by (simp add: dbr_def prev)
  define db2 where "db2 = snd (render_traffic nftHost loc rows p2 dbr)"
  have inv2: "traffic_inv db2" unfolding db2_def by (rule render_inv [OF invr d p(2)])
  define db3 where "db3 = (if restored then undo_reset i (Some prev) db2 else db2)"
  have inv3: "traffic_inv db3" using undo_reset_inv [OF inv2 inv1, of i] inv2 by (simp add: db3_def prev)
  have k1: "keeps_rules rows db dbr"
    by (rule keeps_rules_trans [OF capture_keeps [OF inv d r(2)] keeps_rules_same]) (simp add: dbr_def write_reset_def)
  have k2: "keeps_rules rows db db2"
    unfolding db2_def by (rule keeps_rules_trans [OF k1 render_keeps [OF invr d]])
  have k3: "keeps_rules rows db (snd (render_traffic nftHost loc rows p3 db3))"
    by (rule keeps_rules_trans [OF keeps_rules_trans [OF k2 keeps_rules_same] render_keeps [OF inv3 d]]) (simp add: db3_def undo_reset_def)
  have "snd (ResetRuleTraffic nftHost loc kept restored rows p1 p2 p3 i db) \<in> {db2, snd (render_traffic nftHost loc rows p3 db3)}"
    by (simp add: ResetRuleTraffic_def r prev Let_def case_prod_beta flip: dbr_def db2_def) (simp add: db3_def)
  then show ?thesis using k2 k3 by auto
qed

lemma reset_overview_keeps:
  assumes inv: "traffic_inv db" and d: "distinct (map pf_id rows)" and p: "pass_ok p1" "pass_ok p2" "pass_ok p3"
  shows "keeps_rules rows db (snd (ResetOverviewTraffic nftHost loc restored rows p1 p2 p3 db))"
proof (cases "capturePortForwardTrafficLocked nftHost loc rows p1 db")
  case None
  then show ?thesis by (simp add: ResetOverviewTraffic_def)
next
  case (Some r)
  then obtain rt db1 where r: "capturePortForwardTrafficLocked nftHost loc rows p1 db = Some (rt, db1)" by (cases r) auto
  have inv1: "traffic_inv db1" by (rule capture_inv [OF inv d p(1) r])
  define dbr where "dbr = db1\<lparr>overview := Some \<lparr>ov_up = 0, ov_down = 0\<rparr>\<rparr>"
  have invr: "traffic_inv dbr"
    using inv1 by (auto simp: dbr_def traffic_inv_def overview_in_range_def portForwardTrafficMaxBytes_def)
  define db2 where "db2 = snd (render_traffic nftHost loc rows p2 dbr)"
  have inv2: "traffic_inv db2" unfolding db2_def by (rule render_inv [OF invr d p(2)])
  define db3 where "db3 = (if restored then db2\<lparr>overview := overview db1\<rparr> else db2)"
  have inv3: "traffic_inv db3" using inv1 inv2 by (simp add: db3_def traffic_inv_def)
  have k1: "keeps_rules rows db dbr"
    by (rule keeps_rules_trans [OF capture_keeps [OF inv d r] keeps_rules_same]) (simp add: dbr_def)
  have k2: "keeps_rules rows db db2"
    unfolding db2_def by (rule keeps_rules_trans [OF k1 render_keeps [OF invr d]])
  have k3: "keeps_rules rows db (snd (render_traffic nftHost loc rows p3 db3))"
    by (rule keeps_rules_trans [OF keeps_rules_trans [OF k2 keeps_rules_same] render_keeps [OF inv3 d]]) (simp add: db3_def)
  have "snd (ResetOverviewTraffic nftHost loc restored rows p1 p2 p3 db) \<in> {db2, snd (render_traffic nftHost loc rows p3 db3)}"
    by (simp add: ResetOverviewTraffic_def r Let_def case_prod_beta flip: dbr_def db2_def) (simp add: db3_def)
  then show ?thesis using k2 k3 by auto
qed

lemma service_keeps:
  assumes ok: "service_ok sv" and inv: "traffic_inv tf" and k: "keeps_rules (loadPortForwardRulesLocked (tbl sv)) (traf sv) tf"
  shows "service_ok (sv\<lparr>traf := tf\<rparr>)"
proof -
  have "pf_id ` set (rules (tbl sv)) \<subseteq> t_rule ` set (rule_states tf)" "t_rule ` set (rule_states tf) \<subseteq> t_rule ` set (rule_states (traf sv))"
    using ok k unfolding service_ok_def keeps_rules_def load_rules by blast+
  moreover from this have "t_rule ` set (rule_states tf) \<subseteq> {..<next_id (tbl sv)}"
    using ok unfolding service_ok_def by (elim conjE) (rule subset_trans)
  ultimately show ?thesis using ok inv by (simp add: service_ok_def)
qed

definition reset_ok :: "pf_reset \<Rightarrow> bool" where
  "reset_ok x \<longleftrightarrow> (case passes x of (p1, p2, p3) \<Rightarrow> pass_ok p1 \<and> pass_ok p2 \<and> pass_ok p3)"

lemma serve_reset_ok:
  assumes ok: "service_ok sv" and x: "reset_ok x"
  shows "service_ok (snd (serve_rule_reset h x i sv))" "service_ok (snd (serve_overview_reset h x sv))"
proof -
  obtain p1 p2 p3 where ps: "passes x = (p1, p2, p3)" by (cases "passes x")
  have p: "pass_ok p1" "pass_ok p2" "pass_ok p3" using x by (simp_all add: reset_ok_def ps)
  have d: "distinct (map pf_id (loadPortForwardRulesLocked (tbl sv)))" and inv: "traffic_inv (traf sv)"
    using ok by (simp_all add: service_ok_def table_ok_def)
  note r = service_keeps [OF ok reset_rule_inv [OF inv d p] reset_rule_keeps [OF inv d p]]
    service_keeps [OF ok reset_overview_inv [OF inv d p] reset_overview_keeps [OF inv d p]]
  show "service_ok (snd (serve_rule_reset h x i sv))" "service_ok (snd (serve_overview_reset h x sv))"
    using r by (simp_all add: serve_rule_reset_def serve_overview_reset_def ps after_reset_def)
qed

section \<open>Reachable states\<close>

inductive pf_service_reachable :: "pf_service \<Rightarrow> bool" where
  start: "pf_service_reachable \<lparr>tbl = \<lparr>rules = [], next_id = 1\<rparr>, traf = \<lparr>rule_states = [], overview = None\<rparr>,
            lastReconcile = None, lastActiveRuleCount = 0, lastError = False\<rparr>"
| save: "pf_service_reachable sv \<Longrightarrow> pass_ok p \<Longrightarrow> round_ok r1 \<Longrightarrow> round_ok r2
    \<Longrightarrow> (\<And>n. payload = Some n \<Longrightarrow> accepted_local (n_local n))
    \<Longrightarrow> pf_service_reachable (snd (UpsertRule h env f p r1 r2 pid payload sv))"
| delete: "pf_service_reachable sv \<Longrightarrow> pass_ok p \<Longrightarrow> round_ok r1 \<Longrightarrow> round_ok r2
    \<Longrightarrow> pf_service_reachable (snd (DeleteRule h f p r1 r2 i sv))"
| tick: "pf_service_reachable sv \<Longrightarrow> round_ok rd \<Longrightarrow> pf_service_reachable (snd (SyncIfNeeded h minGap rd sv))"
| reset_rule: "pf_service_reachable sv \<Longrightarrow> reset_ok x \<Longrightarrow> pf_service_reachable (snd (serve_rule_reset h x i sv))"
| reset_overview: "pf_service_reachable sv \<Longrightarrow> reset_ok x \<Longrightarrow> pf_service_reachable (snd (serve_overview_reset h x sv))"
| restart: "pf_service_reachable sv \<Longrightarrow> pf_service_reachable (CleanupOnShutdown sv)"

lemma service_reachable_ok: "pf_service_reachable sv \<Longrightarrow> service_ok sv"
proof (induction rule: pf_service_reachable.induct)
  case start
  show ?case by (simp add: service_ok_def table_ok_def conflict_free_def traffic_inv_def)
next
  case (save sv p r1 r2 payload h env f pid)
  then show ?case using UpsertRule_ok by blast
next
  case (delete sv p r1 r2 h f i)
  then show ?case using DeleteRule_ok by blast
next
  case (tick sv rd h minGap)
  then show ?case using reconcile_ok(1) [of sv rd h minGap] by (simp add: SyncIfNeeded_def case_prod_beta)
next
  case (reset_rule sv x h i)
  then show ?case by (simp add: serve_reset_ok(1))
next
  case (reset_overview sv x h)
  then show ?case by (simp add: serve_reset_ok(2))
next
  case (restart sv)
  then show ?case by (simp add: CleanupOnShutdown_def)
qed

section \<open>Properties\<close>

text \<open>
  C10: no two active forwarding rules ever compete for a port. In every state reachable from the empty
  service by saving, deleting, reconciling, resetting the traffic of a rule or of the overview and
  restarting, whether or not the counters can be read, nft accepts
  the rendering or the compensating statements succeed, two different enabled rules with a common
  protocol and a common address family have no local port in common; ids are unique and the
  table stays within its limit.
\<close>

theorem forwarding_table_conflict_free:
  assumes "pf_service_reachable sv" "r1 \<in> set (rules (tbl sv))" "r2 \<in> set (rules (tbl sv))" "r1 \<noteq> r2" "pf_enabled r1" "pf_enabled r2"
    and "portForwardProtocolsOverlap (pf_protocol r1) (pf_protocol r2)" "portForwardFamiliesOverlap (pf_family r1) (pf_family r2)"
  shows "ports_of (rule_spans r1) \<inter> ports_of (rule_spans r2) = {} \<and> pf_id r1 \<noteq> pf_id r2
     \<and> length (rules (tbl sv)) \<le> portForwardRuleMaxCount"
proof -
  have ok: "table_ok (tbl sv)" using service_reachable_ok [OF assms(1)] by (simp add: service_ok_def)
  then have "pf_id r1 \<noteq> pf_id r2"
    using assms(2-4) by (auto simp: table_ok_def distinct_map inj_on_def)
  with ok assms show ?thesis by (auto simp: table_ok_def conflict_free_def rule_conflict_def)
qed

text \<open>
  C28: in every state reachable from the empty service by saving, deleting, reconciling, resetting the
  traffic of a rule or of the overview (failed resets and failed compensations included) and
  restarting, each rule has exactly one traffic state; every stored state has its cursors and totals
  in the 64-bit range; and no stored state, not even a left-over one, carries an id a new rule will
  get, so inserting the state of a new rule never violates its unique index.
\<close>

theorem every_rule_has_its_traffic_state:
  assumes "pf_service_reachable sv" "r \<in> set (rules (tbl sv))"
  shows "(\<exists>!st. st \<in> set (rule_states (traf sv)) \<and> t_rule st = pf_id r)
     \<and> (\<forall>st \<in> set (rule_states (traf sv)). t_rule st < next_id (tbl sv) \<and> state_ok st)"
proof -
  have ok: "service_ok sv" by (rule service_reachable_ok [OF assms(1)])
  then have d: "distinct (map t_rule (rule_states (traf sv)))" by (simp add: service_ok_def traffic_inv_def)
  obtain st where st: "st \<in> set (rule_states (traf sv))" "t_rule st = pf_id r"
    using ok assms(2) by (fastforce simp: service_ok_def)
  have "st' = st" if "st' \<in> set (rule_states (traf sv))" "t_rule st' = pf_id r" for st'
    using d st that by (auto simp: distinct_map inj_on_def)
  then have "\<exists>!st. st \<in> set (rule_states (traf sv)) \<and> t_rule st = pf_id r" using st by blast
  moreover have "\<forall>st \<in> set (rule_states (traf sv)). t_rule st < next_id (tbl sv) \<and> state_ok st"
    using ok by (auto simp: service_ok_def traffic_inv_def)
  ultimately show ?thesis by blast
qed

text \<open>
  C19: a save or a delete that fails leaves the rules as they were: whatever step fails, as long as
  the compensating statement succeeds the service loads the same rules in the same order afterwards.
\<close>

theorem failed_change_leaves_rules:
  assumes "pf_service_reachable sv" "pass_ok p" "round_ok r1" "round_ok r2" "accepted_local (n_local n)" "undo_rule f"
  shows "(\<not> fst (UpsertRule h env f p r1 r2 pid (Some n) sv)
         \<longrightarrow> loadPortForwardRulesLocked (tbl (snd (UpsertRule h env f p r1 r2 pid (Some n) sv))) = loadPortForwardRulesLocked (tbl sv))
     \<and> (\<not> fst (DeleteRule h f p r1 r2 i sv)
         \<longrightarrow> loadPortForwardRulesLocked (tbl (snd (DeleteRule h f p r1 r2 i sv))) = loadPortForwardRulesLocked (tbl sv))"
  using UpsertRule_ok [OF service_reachable_ok [OF assms(1)] assms(2-4), of "Some n" h env f pid]
    DeleteRule_ok [OF service_reachable_ok [OF assms(1)] assms(2-4), of h f i] assms
  by (simp add: loadPortForwardRulesLocked_def)

section \<open>Examples\<close>

definition example_host :: "bool \<Rightarrow> pf_host" where
  "example_host u = \<lparr>usable = u, zone = example_zone\<rparr>"

definition example_tick :: "bool \<Rightarrow> pf_round" where
  "example_tick ok = \<lparr>renderer_ok = ok, clock = 1000, pass = example_pass 0 0 True, redrawn = True\<rparr>"

definition example_faults :: pf_faults where
  "example_faults = \<lparr>undo_rule = True, undo_state = True\<rparr>"

definition example_save :: "bool \<Rightarrow> bool \<Rightarrow> int \<Rightarrow> pf_service \<Rightarrow> bool \<times> pf_service" where
  "example_save u ok port sv = UpsertRule (example_host u) example_pf_env example_faults (example_pass 0 0 True)
     (example_tick ok) (example_tick ok) 0 (Some (example_rule port)) sv"

definition example_service :: pf_service where
  "example_service = snd (example_save False True 81 (snd (example_save False True 80
     \<lparr>tbl = \<lparr>rules = [], next_id = 1\<rparr>, traf = \<lparr>rule_states = [], overview = None\<rparr>, lastReconcile = None, lastActiveRuleCount = 0, lastError = False\<rparr>)))"

lemma example_tick_ok: "round_ok (example_tick ok)" "pass_ok (example_pass 0 0 True)"
  by (simp_all add: round_ok_def example_tick_def example_pass_ok)

lemma example_service_reachable: "pf_service_reachable example_service"
  unfolding example_service_def example_save_def
  by (intro save start example_tick_ok) (auto intro: example_accepted)

theorem forwarding_table_conflict_free_witness:
  "\<exists>r1 \<in> set (rules (tbl example_service)). \<exists>r2 \<in> set (rules (tbl example_service)).
     pf_id r1 \<noteq> pf_id r2 \<and> ports_of (rule_spans r1) \<inter> ports_of (rule_spans r2) = {}"
proof -
  let ?r1 = "assign_rule (example_rule 80) ''web'' (new_row 1)" and ?r2 = "assign_rule (example_rule 81) ''web'' (new_row 2)"
  have two: "rules (tbl example_service) = [?r1, ?r2]" by code_simp
  have ov: "portForwardProtocolsOverlap (pf_protocol ?r1) (pf_protocol ?r2)" "portForwardFamiliesOverlap (pf_family ?r1) (pf_family ?r2)"
    "pf_enabled ?r1" "pf_enabled ?r2" by code_simp+
  have "?r1 \<noteq> ?r2" by (auto simp: assign_rule_def new_row_def)
  with forwarding_table_conflict_free [OF example_service_reachable, of ?r1 ?r2] ov two show ?thesis by auto
qed

theorem every_rule_has_its_traffic_state_witness:
  "\<exists>!st. st \<in> set (rule_states (traf example_service)) \<and> t_rule st = 2"
proof -
  let ?r = "rules (tbl example_service) ! 1"
  have "1 < length (rules (tbl example_service))" "pf_id ?r = 2" by code_simp+
  from every_rule_has_its_traffic_state [OF example_service_reachable nth_mem [OF this(1)]] this(2)
  show ?thesis by simp
qed

theorem failed_change_leaves_rules_witness:
  "loadPortForwardRulesLocked (tbl (snd (example_save True False 82 example_service))) = loadPortForwardRulesLocked (tbl example_service)
   \<and> loadPortForwardRulesLocked (tbl (snd (DeleteRule (example_host True) example_faults (example_pass 0 0 True)
        (example_tick False) (example_tick False) 1 example_service))) = loadPortForwardRulesLocked (tbl example_service)"
proof -
  have f: "\<not> fst (example_save True False 82 example_service)"
    "\<not> fst (DeleteRule (example_host True) example_faults (example_pass 0 0 True) (example_tick False) (example_tick False) 1 example_service)"
    by code_simp+
  have a: "accepted_local (n_local (example_rule 82))" by (rule example_accepted) simp_all
  have u: "undo_rule example_faults" by (simp add: example_faults_def)
  from failed_change_leaves_rules [OF example_service_reachable example_tick_ok(2,1,1) a u] f
  show ?thesis unfolding example_save_def by blast
qed

end
