(* ===== verification/Binding_Charges.thy ===== *)
theory Binding_Charges
  imports Traffic_Accounting
begin

text \<open>
  What a collection round charges, told by the baselines of the bindings. The comment of
  \<open>ClientInboundTrafficState\<close> says that a poll counts only the difference between the counter and the baseline of a binding. The code
  charges the difference between the counter and the cursor of the inbound and never reads a baseline. The two agree for every binding whose baseline is the cursor,
  which a charge, the repair of bindings by a round, and the start of the panel establish; they differ for a binding made between two
  polls (\<open>baselines_do_not_limit_charges\<close>).
\<close>

section \<open>Baselines and cursors\<close>

definition cursor_row :: "InboundTrafficState list \<Rightarrow> binding \<Rightarrow> InboundTrafficState option" where
  "cursor_row rows b = find (\<lambda>r. st_inbound r = InboundId b) rows"

definition since :: "int \<Rightarrow> int \<Rightarrow> int" where
  \<comment> \<open>bytes between two readings; a counter that fell has started again at zero\<close>
  "since old cur = (if cur < old then cur else cur - old)"

definition at_cursor :: "InboundTrafficState list \<Rightarrow> binding \<Rightarrow> bool" where
  "at_cursor rows b \<longleftrightarrow> (case cursor_row rows b of None \<Rightarrow> True | Some r \<Rightarrow> LastInBytes b = InBytes r \<and> LastOutBytes b = OutBytes r)"

definition owed_in :: "InboundTrafficState list \<Rightarrow> binding \<Rightarrow> int" where
  \<comment> \<open>the rows hold the new readings\<close>
  "owed_in rows b = (if Active b then (case cursor_row rows b of Some r \<Rightarrow> since (LastInBytes b) (InBytes r) | None \<Rightarrow> 0) else 0)"

definition owed_out :: "InboundTrafficState list \<Rightarrow> binding \<Rightarrow> int" where
  "owed_out rows b = (if Active b then (case cursor_row rows b of Some r \<Rightarrow> since (LastOutBytes b) (OutBytes r) | None \<Rightarrow> 0) else 0)"

definition owed_by :: "(binding \<Rightarrow> int) \<Rightarrow> binding list \<Rightarrow> nat \<Rightarrow> int" where
  "owed_by owed bs cid = (\<Sum>b \<leftarrow> filter (\<lambda>b. ClientId b = cid) bs. owed b)"

definition settle_client :: "InboundTrafficState list \<Rightarrow> binding list \<Rightarrow> client \<Rightarrow> client" where
  "settle_client rows bs c =
     (if Id c = 0 \<or> trim_space (Name c) = [] then c
      else c\<lparr>Up := Up c + owed_by (owed_in rows) bs (Id c), Down := Down c + owed_by (owed_out rows) bs (Id c)\<rparr>)"

definition settle_binding :: "InboundTrafficState list \<Rightarrow> binding \<Rightarrow> binding" where
  "settle_binding rows b =
     (if owed_in rows b = 0 \<and> owed_out rows b = 0 then b
      else case cursor_row rows b of
             Some r \<Rightarrow> b\<lparr>UsedInBytes := wrap64 (UsedInBytes b + owed_in rows b), UsedOutBytes := wrap64 (UsedOutBytes b + owed_out rows b),
                         LastInBytes := InBytes r, LastOutBytes := OutBytes r\<rparr>
           | None \<Rightarrow> b)"

definition counters_fit :: "InboundTrafficState list \<Rightarrow> bool" where
  "counters_fit rows \<longleftrightarrow> list_all (\<lambda>r. 0 \<le> InBytes r \<and> InBytes r \<le> max_int64 \<and> 0 \<le> OutBytes r \<and> OutBytes r \<le> max_int64) rows"

definition charges_fit :: "InboundTrafficState list \<Rightarrow> client_db \<Rightarrow> bool" where
  \<comment> \<open>no sum leaves the 64-bit range\<close>
  "charges_fit rows t \<longleftrightarrow>
     list_all (\<lambda>b. owed_by (owed_in rows) (bindings t) (ClientId b) \<le> max_int64 \<and> owed_by (owed_out rows) (bindings t) (ClientId b) \<le> max_int64) (bindings t)
     \<and> list_all (\<lambda>c. in_int64 (Up (settle_client rows (bindings t) c)) \<and> in_int64 (Down (settle_client rows (bindings t) c))) (clients t)"

definition same_keys :: "InboundTrafficState list \<Rightarrow> InboundTrafficState list \<Rightarrow> bool" where
  \<comment> \<open>a row keeps its inbound: ids are not used twice\<close>
  "same_keys rows0 rows \<longleftrightarrow> (\<forall>st \<in> set rows0. \<forall>r \<in> set rows. st_id r = st_id st \<longrightarrow> st_inbound r = st_inbound st)"

lemma since_self [simp]: "since x x = 0"
  by (simp add: since_def)

lemma counter_delta_since:
  assumes "0 \<le> a" "a \<le> max_int64" "0 \<le> b" "b \<le> max_int64"
  shows "counter_delta a b = since a b"
proof -
  have "wrap64 (b - a) = b - a" using assms by (intro wrap64_id) (simp add: int64_defs)
  then show ?thesis by (simp add: counter_delta_def since_def Let_def)
qed

lemma advanced_inbound [simp]: "st_inbound (advanced hop ss r) = st_inbound r"
  by (simp add: advanced_def advance_row_def split: option.split)

lemma cursor_row_advanced: "cursor_row (map (advanced hop ss) rows) b = map_option (advanced hop ss) (cursor_row rows b)"
  by (induction rows) (simp_all add: cursor_row_def)

section \<open>Deltas of a round\<close>

text \<open>Rows and samples of a round: the samples come from the rows that were read, and the rows the transaction finds have the same keys.\<close>

definition round_read :: "bool \<Rightarrow> inboundTrafficSample list \<Rightarrow> InboundTrafficState list \<Rightarrow> InboundTrafficState list \<Rightarrow> bool" where
  "round_read hop ss rows0 rows \<longleftrightarrow> samples_from rows0 ss \<and> rows_ok rows0 \<and> rows_ok rows \<and> same_keys rows0 rows
     \<and> counters_fit rows \<and> counters_fit (map (advanced hop ss) rows)"

lemma round_readD:
  assumes "round_read hop ss rows0 rows"
  shows "samples_from rows0 ss" "rows_ok rows0" "rows_ok rows" "same_keys rows0 rows" "counters_fit rows" "counters_fit (map (advanced hop ss) rows)"
  using assms by (simp_all add: round_read_def)

definition round_ds :: "bool \<Rightarrow> inboundTrafficSample list \<Rightarrow> InboundTrafficState list \<Rightarrow> inboundDelta list" where
  "round_ds hop ss rows = map s_delta (accepted hop ss rows)"

lemma hit_sample:
  assumes "s \<in> set ss" "r \<in> set rows" "row_hit hop r s" and R: "round_read hop ss rows0 rows"
  shows "d_inbound (s_delta s) = st_inbound r"
    and "find (row_hit hop r) ss = Some s" and "advanced hop ss r = advance_row s r"
    and "deltaIn (s_delta s) = since (InBytes r) (currentIn (s_delta s))" and "deltaOut (s_delta s) = since (OutBytes r) (currentOut (s_delta s))"
proof -
  note samples = round_readD(1) [OF R] and ok0 = round_readD(2) [OF R] and ok = round_readD(3) [OF R] and keys = round_readD(4) [OF R]
    and counters = round_readD(5,6) [OF R]
  obtain st where st: "st \<in> set rows0" "sample_of st s" using samples_from_mem [OF samples assms(1)] by blast
  have "st_id r = st_id st" using row_hit_id [OF assms(3)] sample_of_id [OF st(2)] by simp
  then have "st_inbound r = st_inbound st" using keys st(1) assms(2) by (simp add: same_keys_def)
  then show "d_inbound (s_delta s) = st_inbound r"
    using st(2) by (auto simp: sample_of_def newInboundTrafficSample_def same_row_def)
  have dist: "distinct (map (st_id \<circ> s_state) ss)" using samples_from_ids [OF samples] ok0 by (simp add: rows_ok_def)
  show f: "find (row_hit hop r) ss = Some s"
  proof -
    obtain s' where s': "find (row_hit hop r) ss = Some s'"
      using assms(1,3) by (cases "find (row_hit hop r) ss") (auto simp: find_None_iff)
    then have "s' \<in> set ss" "row_hit hop r s'" by (auto simp: find_Some_iff)
    then have "s' = s" using dist assms(1) row_hit_id [OF assms(3)] row_hit_id [of hop r s'] by (auto simp: distinct_map inj_on_def)
    with s' show ?thesis by simp
  qed
  then show adv: "advanced hop ss r = advance_row s r" by (simp add: advanced_def)
  have "0 \<le> InBytes r" "InBytes r \<le> max_int64" "0 \<le> OutBytes r" "OutBytes r \<le> max_int64"
    using counters(1) assms(2) by (auto simp: counters_fit_def list_all_iff)
  moreover have "0 \<le> InBytes (advanced hop ss r)" "InBytes (advanced hop ss r) \<le> max_int64"
    "0 \<le> OutBytes (advanced hop ss r)" "OutBytes (advanced hop ss r) \<le> max_int64"
    using counters(2) assms(2) by (auto simp: counters_fit_def list_all_iff)
  ultimately show "deltaIn (s_delta s) = since (InBytes r) (currentIn (s_delta s))" "deltaOut (s_delta s) = since (OutBytes r) (currentOut (s_delta s))"
    using st(2) assms(3) unfolding adv
    by (auto simp: sample_of_def newInboundTrafficSample_def row_hit_def optimistic_match_def advance_row_def counter_delta_since)
qed

lemma delta_of_row:
  assumes d: "d \<in> set (round_ds hop ss rows)" and R: "round_read hop ss rows0 rows"
  obtains s r where "s \<in> set ss" "r \<in> set rows" "row_hit hop r s" "d = s_delta s" "deltaIn d > 0 \<or> deltaOut d > 0" "d_inbound d = st_inbound r"
proof -
  obtain s r where sr: "s \<in> set ss" "r \<in> set rows" "row_hit hop r s" "d = s_delta s" "deltaIn d > 0 \<or> deltaOut d > 0"
    using d by (auto simp: round_ds_def accepted_def)
  then show ?thesis using that hit_sample(1) [OF sr(1-3) R] by blast
qed

lemma row_of_inbound: "rows_ok rows \<Longrightarrow> r \<in> set rows \<Longrightarrow> r' \<in> set rows \<Longrightarrow> st_inbound r = st_inbound r' \<Longrightarrow> r = r'"
  by (auto simp: rows_ok_def distinct_map inj_on_def)

lemma delta_unique:
  assumes d: "d \<in> set (round_ds hop ss rows)" and R: "round_read hop ss rows0 rows"
  shows "delta_map (round_ds hop ss rows) (d_inbound d) = Some d"
proof -
  have same: "d' = d" if d': "d' \<in> set (round_ds hop ss rows)" "d_inbound d' = d_inbound d" for d'
  proof -
    obtain s r where sr: "s \<in> set ss" "r \<in> set rows" "row_hit hop r s" "d = s_delta s" "d_inbound d = st_inbound r"
      by (rule delta_of_row [OF d R]) blast
    obtain s' r' where sr': "s' \<in> set ss" "r' \<in> set rows" "row_hit hop r' s'" "d' = s_delta s'" "d_inbound d' = st_inbound r'"
      by (rule delta_of_row [OF d'(1) R]) blast
    have "r' = r" using sr sr' d'(2) row_of_inbound [OF round_readD(3) [OF R]] by simp
    then show ?thesis using hit_sample(2) [OF sr(1-3) R] hit_sample(2) [OF sr'(1-3) R] sr(4) sr'(4) by simp
  qed
  have "(d_inbound d, d) \<in> set (rev (map (\<lambda>d. (d_inbound d, d)) (round_ds hop ss rows)))" using d by simp
  then have "delta_map (round_ds hop ss rows) (d_inbound d) \<noteq> None" unfolding delta_map_def by (metis option.distinct(1) weak_map_of_SomeI)
  then obtain d' where d': "delta_map (round_ds hop ss rows) (d_inbound d) = Some d'" by blast
  then have "(d_inbound d, d') \<in> set (rev (map (\<lambda>d. (d_inbound d, d)) (round_ds hop ss rows)))" unfolding delta_map_def by (rule map_of_SomeD)
  then show ?thesis using same d' by auto
qed

lemma delta_key: "delta_map (round_ds hop ss rows) i = Some d \<Longrightarrow> d \<in> set (round_ds hop ss rows) \<and> d_inbound d = i"
  unfolding delta_map_def by (auto dest!: map_of_SomeD)

text \<open>A binding that stands at its cursor is charged what its own baseline says.\<close>

lemma charged_owed:
  assumes b: "at_cursor rows b" and R: "round_read hop ss rows0 rows"
  shows "charged (round_ds hop ss rows) b =
     (if owed_in (map (advanced hop ss) rows) b = 0 \<and> owed_out (map (advanced hop ss) rows) b = 0 then None
      else map_option (\<lambda>r. \<lparr>d_inbound = InboundId b, d_tag = d_tag (the (delta_map (round_ds hop ss rows) (InboundId b))),
             deltaIn = owed_in (map (advanced hop ss) rows) b, deltaOut = owed_out (map (advanced hop ss) rows) b,
             currentIn = InBytes r, currentOut = OutBytes r\<rparr>) (cursor_row (map (advanced hop ss) rows) b))"
proof (cases "Active b")
  case False
  then show ?thesis by (simp add: charged_def owed_in_def owed_out_def)
next
  case True
  let ?rows = "map (advanced hop ss) rows"
  show ?thesis
  proof (cases "cursor_row rows b")
    case None
    then have "st_inbound r \<noteq> InboundId b" if "r \<in> set rows" for r using that by (auto simp: cursor_row_def find_None_iff)
    then have "delta_map (round_ds hop ss rows) (InboundId b) = None"
      using delta_key delta_of_row [OF _ R] by (metis not_None_eq)
    then show ?thesis using None by (simp add: charged_def owed_in_def owed_out_def cursor_row_advanced)
  next
    case (Some r)
    then have r: "r \<in> set rows" "st_inbound r = InboundId b" by (auto simp: cursor_row_def find_Some_iff)
    have base: "LastInBytes b = InBytes r" "LastOutBytes b = OutBytes r" using b Some by (simp_all add: at_cursor_def)
    have ow: "owed_in ?rows b = since (InBytes r) (InBytes (advanced hop ss r))" "owed_out ?rows b = since (OutBytes r) (OutBytes (advanced hop ss r))"
      using True Some base by (simp_all add: owed_in_def owed_out_def cursor_row_advanced)
    have none: "delta_map (round_ds hop ss rows) (InboundId b) = None" if "\<not> (\<exists>s \<in> set ss. row_hit hop r s \<and> s_delta s \<in> set (round_ds hop ss rows))"
    proof (rule ccontr)
      assume "delta_map (round_ds hop ss rows) (InboundId b) \<noteq> None"
      then obtain d where d: "d \<in> set (round_ds hop ss rows)" "d_inbound d = InboundId b" using delta_key by blast
      obtain s r' where sr: "s \<in> set ss" "r' \<in> set rows" "row_hit hop r' s" "d = s_delta s" "d_inbound d = st_inbound r'"
        by (rule delta_of_row [OF d(1) R]) blast
      then have "r' = r" using row_of_inbound [OF round_readD(3) [OF R]] r d(2) by simp
      then show False using that sr d(1) by blast
    qed
    show ?thesis
    proof (cases "find (row_hit hop r) ss")
      case None
      then have "\<not> (\<exists>s \<in> set ss. row_hit hop r s)" by (simp add: find_None_iff)
      moreover have "advanced hop ss r = r" using None by (simp add: advanced_def)
      ultimately show ?thesis using none ow by (simp add: charged_def)
    next
      case hit: (Some s)
      then have s: "s \<in> set ss" "row_hit hop r s" by (auto simp: find_Some_iff)
      note H = hit_sample [OF s(1) r(1) s(2) R]
      have cur: "InBytes (advanced hop ss r) = currentIn (s_delta s)" "OutBytes (advanced hop ss r) = currentOut (s_delta s)"
        by (simp_all add: H(3) advance_row_def)
      have d: "deltaIn (s_delta s) = owed_in ?rows b" "deltaOut (s_delta s) = owed_out ?rows b" using H(4,5) ow cur by simp_all
      have nn: "0 \<le> owed_in ?rows b" "0 \<le> owed_out ?rows b"
        using round_readD(6) [OF R] r(1) ow by (auto simp: counters_fit_def list_all_iff since_def)
      show ?thesis
      proof (cases "owed_in ?rows b = 0 \<and> owed_out ?rows b = 0")
        case True
        have "s' = s" if "s' \<in> set ss" "row_hit hop r s'" for s' using hit_sample(2) [OF that(1) r(1) that(2) R] hit by simp
        moreover have "s_delta s \<notin> set (round_ds hop ss rows)"
        proof
          assume "s_delta s \<in> set (round_ds hop ss rows)"
          then show False by (rule delta_of_row [OF _ R]) (use d True in auto)
        qed
        ultimately have "delta_map (round_ds hop ss rows) (InboundId b) = None" using none by blast
        then show ?thesis using True by (simp add: charged_def)
      next
        case False
        then have "s_delta s \<in> set (round_ds hop ss rows)" using s r(1) d nn by (auto simp: round_ds_def accepted_def intro!: imageI)
        then have dm: "delta_map (round_ds hop ss rows) (InboundId b) = Some (s_delta s)" using delta_unique [OF _ R] H(1) r(2) by metis
        have "charged (round_ds hop ss rows) b = Some (s_delta s)" using dm True False d by (simp add: charged_def)
        moreover have "s_delta s = \<lparr>d_inbound = InboundId b, d_tag = d_tag (s_delta s), deltaIn = owed_in ?rows b, deltaOut = owed_out ?rows b,
            currentIn = InBytes (advanced hop ss r), currentOut = OutBytes (advanced hop ss r)\<rparr>"
          using d cur H(1) r(2) by simp
        ultimately show ?thesis using dm False Some unfolding if_not_P [OF False] by (simp add: cursor_row_advanced)
      qed
    qed
  qed
qed

lemma deltas_nonneg:
  assumes R: "round_read hop ss rows0 rows"
  shows "deltas_ok (round_ds hop ss rows)"
  unfolding deltas_ok_def list_all_iff
proof
  fix d assume d: "d \<in> set (round_ds hop ss rows)"
  obtain s r where sr: "s \<in> set ss" "r \<in> set rows" "row_hit hop r s" "d = s_delta s" by (rule delta_of_row [OF d R]) blast
  note H = hit_sample [OF sr(1-3) R]
  have "0 \<le> InBytes (advanced hop ss r)" "0 \<le> OutBytes (advanced hop ss r)"
    using round_readD(6) [OF R] sr(2) by (auto simp: counters_fit_def list_all_iff)
  then show "0 \<le> deltaIn d \<and> 0 \<le> deltaOut d" using H(3-5) sr(4) by (simp add: since_def advance_row_def)
qed

lemma share_owed:
  assumes A: "\<forall>b \<in> set bs. at_cursor rows b" and R: "round_read hop ss rows0 rows"
  shows "share deltaIn (round_ds hop ss rows) bs cid = owed_by (owed_in (map (advanced hop ss) rows)) bs cid"
    and "share deltaOut (round_ds hop ss rows) bs cid = owed_by (owed_out (map (advanced hop ss) rows)) bs cid"
proof -
  let ?rows = "map (advanced hop ss) rows"
  have row: "(case charged (round_ds hop ss rows) b of Some d \<Rightarrow> deltaIn d | None \<Rightarrow> 0) = owed_in ?rows b"
    "(case charged (round_ds hop ss rows) b of Some d \<Rightarrow> deltaOut d | None \<Rightarrow> 0) = owed_out ?rows b" if "b \<in> set bs" for b
  proof -
    have "cursor_row ?rows b = None \<Longrightarrow> owed_in ?rows b = 0 \<and> owed_out ?rows b = 0" by (simp add: owed_in_def owed_out_def)
    then show "(case charged (round_ds hop ss rows) b of Some d \<Rightarrow> deltaIn d | None \<Rightarrow> 0) = owed_in ?rows b"
      "(case charged (round_ds hop ss rows) b of Some d \<Rightarrow> deltaOut d | None \<Rightarrow> 0) = owed_out ?rows b"
      using A that by (cases "cursor_row ?rows b"; auto simp: charged_owed [OF _ R])+
  qed
  show "share deltaIn (round_ds hop ss rows) bs cid = owed_by (owed_in ?rows) bs cid" "share deltaOut (round_ds hop ss rows) bs cid = owed_by (owed_out ?rows) bs cid"
    unfolding share_def owed_by_def using row by (auto intro!: arg_cong [of _ _ sum_list] map_cong)
qed

lemma charge_settles:
  assumes "at_cursor rows b" and R: "round_read hop ss rows0 rows"
  shows "charge_binding (round_ds hop ss rows) b = settle_binding (map (advanced hop ss) rows) b"
  using charged_owed [OF assms] by (simp add: charge_binding_def settle_binding_def split: option.split)

section \<open>Rounds\<close>

text \<open>What a committed round leaves, for a collector that keeps the contract of \<open>traffic_collector\<close>.\<close>

definition settled_by_baselines :: "traffic_db \<Rightarrow> traffic_db \<Rightarrow> bool" where
  "settled_by_baselines db1 db' \<longleftrightarrow>
     clients (tables db') = map (settle_client (states db') (bindings (tables db1))) (clients (tables db1))
     \<and> bindings (tables db') = map (settle_binding (states db')) (bindings (tables db1))"

context traffic_collector
begin

lemma round_settles:
  assumes rows: "rows_ok (load_states g heal db0)" "rows_ok (states db1)" "same_keys (load_states g heal db0) (states db1)"
    and "ready db1" "distinct (map Id (clients (tables db1)))"
    and commit: "collect g heal env now save db0 db1 = Committed db' hist tags users changed"
    and cnt: "counters_fit (states db1)" "counters_fit (states db')"
    and base: "\<forall>b \<in> set (bindings (tables db1)). at_cursor (states db1) b"
    and fit: "charges_fit (states db') (tables db1)"
  shows "states db' = map (advanced hop (round_samples recover g heal env db0)) (states db1) \<and> settled_by_baselines db1 db'"
proof -
  define ss where "ss = round_samples recover g heal env db0"
  let ?bs = "bindings (tables db1)" and ?ds = "round_ds hop ss (states db1)"
  have E: "states db' = map (advanced hop ss) (states db1)" "tables db' = charge_tables ?ds (tables db1)"
    using round_effect [OF rows(1) assms(4) commit ss_def] by (simp_all add: round_deltas_def round_ds_def)
  have "samples_from (load_states g heal db0) ss"
    using rows(1) unfolding ss_def round_samples_def rows_ok_def by (intro round_samples_from [OF recover_rows]) simp
  then have R: "round_read hop ss (load_states g heal db0) (states db1)" using rows cnt E(1) by (simp add: round_read_def)
  have sh: "share deltaIn ?ds ?bs cid = owed_by (owed_in (states db')) ?bs cid" "share deltaOut ?ds ?bs cid = owed_by (owed_out (states db')) ?bs cid" for cid
    using share_owed [OF base R] by (simp_all add: E(1))
  have no: "no_overflow ?ds ?bs" using fit by (simp add: no_overflow_def sh charges_fit_def)
  have "charge_client ?ds ?bs = settle_client (states db') ?bs" by (simp add: fun_eq_iff charge_client_def settle_client_def sh)
  then have "clients (tables db') = map (settle_client (states db') ?bs) (clients (tables db1))"
    using charge_tables_clients [OF deltas_nonneg [OF R] no assms(5)] by (simp add: E(2))
  moreover have "bindings (tables db') = map (settle_binding (states db')) ?bs"
    using charge_settles [OF _ R] base by (simp add: E charge_tables_def)
  ultimately show ?thesis using E(1) by (simp add: ss_def settled_by_baselines_def)
qed

end

section \<open>Properties\<close>

text \<open>
  C1: a committed sing-box round. The cursor rows that still are what the round had read move to the readings and all other rows
  stay. Every client with an id and a name is charged, for each of its active bindings, what the inbound's counter
  now shows beyond the baseline of the binding (the whole reading when the counter fell, which is a restart), upload from the input
  chain and download from the output chain; every charged binding adds its share to its usage and takes the reading as its new baseline. Nothing else of a client or binding changes.
  The conditions: no repair is pending, keys are unique, counters and sums stay in the 64-bit range, and
  every binding stands at the cursor of its inbound. The last one is needed: the code does not read the baselines, and charges a binding
  that was made between two polls also what was transferred before (\<open>baselines_do_not_limit_charges\<close>).
\<close>

theorem collect_charges_exactly:
  assumes "rows_ok (load_states g heal db0)" "rows_ok (states db1)" "same_keys (load_states g heal db0) (states db1)"
    and "\<not> repairNeeded db1" "distinct (map Id (clients (tables db1)))"
    and "collectAndSaveTraffic g heal env now save db0 db1 = Committed db' hist tags users changed"
    and "counters_fit (states db1)" "counters_fit (states db')"
    and "\<forall>b \<in> set (bindings (tables db1)). at_cursor (states db1) b"
    and "charges_fit (states db') (tables db1)"
  shows "states db' = map (advanced False (round_samples singbox_recoverHandles g heal env db0)) (states db1)
     \<and> clients (tables db') = map (settle_client (states db') (bindings (tables db1))) (clients (tables db1))
     \<and> bindings (tables db') = map (settle_binding (states db')) (bindings (tables db1))"
  using singbox.round_settles [OF assms] by (simp add: settled_by_baselines_def)

theorem collect_charges_exactly_witness:
  "\<exists>db' hist users. example_round example_db = Committed db' hist {''a''} users True
     \<and> map Up (clients (tables db')) = [9 + (950 - LastInBytes example_binding)] \<and> map Down (clients (tables db')) = [7 + (75 - LastOutBytes example_binding)]"
proof -
  obtain hist users where c: "example_round example_db = Committed example_committed hist {''a''} users True"
    using example_round_runs by blast
  have ok: "rows_ok (load_states example_guard (\<lambda>db. db) example_db)" "rows_ok (states example_db)" "\<not> repairNeeded example_db"
    "distinct (map Id (clients (tables example_db)))" "counters_fit (states example_db)" "counters_fit (states example_committed)"
    "\<forall>b \<in> set (bindings (tables example_db)). at_cursor (states example_db) b" "charges_fit (states example_committed) (tables example_db)"
    by code_simp+
  have keys: "same_keys (load_states example_guard (\<lambda>db. db) example_db) (states example_db)" by code_simp
  have "clients (tables example_committed) = map (settle_client (states example_committed) (bindings (tables example_db))) (clients (tables example_db))"
    using collect_charges_exactly [OF ok(1,2) keys ok(3,4) c [unfolded example_round_def] ok(5-8)] by blast
  also have "\<dots> = [example_client\<lparr>Up := 9 + (950 - LastInBytes example_binding), Down := 7 + (75 - LastOutBytes example_binding)\<rparr>]" by code_simp
  finally show ?thesis using c by auto
qed

text \<open>A committed mihomo round charges in the same way, and its outcome does not depend on a pending repair.\<close>

lemma mihomo_collect_charges_exactly:
  assumes "rows_ok (load_states g heal db0)" "rows_ok (states db1)" "same_keys (load_states g heal db0) (states db1)"
    and "distinct (map Id (clients (tables db1)))"
    and "mihomo_collectAndSaveTraffic g heal env now save db0 db1 = Committed db' hist tags users changed"
    and "counters_fit (states db1)" "counters_fit (states db')"
    and "\<forall>b \<in> set (bindings (tables db1)). at_cursor (states db1) b"
    and "charges_fit (states db') (tables db1)"
  shows "states db' = map (advanced True (round_samples mihomo_recoverHandles g heal env db0)) (states db1) \<and> settled_by_baselines db1 db'"
  using mihomo.round_settles [OF assms(1-3) TrueI assms(4-)] .

end
