(* ===== verification/Traffic_Recovery.thy ===== *)
theory Traffic_Recovery
  imports Traffic_Journal "HOL-Library.Multiset"
begin

text \<open>
  What the journal of \<open>Traffic_Journal\<close> guarantees. The invariant \<open>journal_inv\<close> relates the database
  to the memory of the process between two operations: the entries after the checkpoint, in the order of
  their sequence numbers, are exactly what is pending in memory. The locales \<open>event_system\<close> and
  \<open>durable_books\<close> lift the effect of one event to a history of events; the journal is their instance,
  once for its books and once for the capacity of its table. A history is a list of sampling rounds,
  flushes and crashes, in which every transaction may fail.
\<close>

section \<open>Normalised samples\<close>

definition settled :: "Stats \<Rightarrow> bool" where
  \<comment> \<open>a sample that normalisation leaves alone\<close>
  "settled s \<longleftrightarrow> normalizeStatsResource (Resource s) = Resource s \<and> Resource s \<noteq> [] \<and> CHR 0x00 \<notin> set (Resource s)
     \<and> trim_space (st_Tag s) = st_Tag s \<and> st_Tag s \<noteq> [] \<and> 0 < Traffic s \<and> 0 < st_DateTime s \<and> st_DateTime s mod 60 = 0"

definition sample_ok :: "int \<Rightarrow> Stats \<Rightarrow> bool" where
  \<comment> \<open>the samples rounds produce: a resource name without NUL, and a time after the first minute of 1970\<close>
  "sample_ok now s \<longleftrightarrow> 60 \<le> now \<and> (st_DateTime s \<le> 0 \<or> 60 \<le> st_DateTime s) \<and> CHR 0x00 \<notin> set (Resource s)"

lemma trim_space_set: "set (trim_space s) \<subseteq> set s"
proof -
  have left: "set (strip_left ps t) \<subseteq> set t" for ps t
  proof -
    obtain a where "t = a @ strip_left ps t" using strip_left_suffix by blast
    then show ?thesis by (metis set_append Un_upper2)
  qed
  have "set (strip_right space_seqs t) \<subseteq> set t" for t using left [of "map rev space_seqs" "rev t"] by (simp add: strip_right_def)
  with left show ?thesis unfolding trim_space_def by blast
qed

lemma normalizeStatsResource_idem [simp]: "normalizeStatsResource (normalizeStatsResource r) = normalizeStatsResource r"
proof -
  have "normalizeStatsResource ''client'' = ''client''" "normalizeStatsResource ''mihomo_client'' = ''mihomo_client''" by code_simp+
  moreover have "normalizeStatsResource (trim_space r) = normalizeStatsResource r"
    by (simp add: normalizeStatsResource_def Let_def)
  moreover have "normalizeStatsResource r \<in> {''client'', ''mihomo_client'', trim_space r}" by (simp add: normalizeStatsResource_def Let_def)
  ultimately show ?thesis by auto
qed

lemma normalizeStatsResource_chars: "CHR 0x00 \<notin> set r \<Longrightarrow> CHR 0x00 \<notin> set (normalizeStatsResource r)"
  using trim_space_set [of r] by (auto simp: normalizeStatsResource_def Let_def)

lemma settled_normalize: "settled s \<Longrightarrow> normalize_sample now s = Some s"
proof -
  assume s: "settled s"
  then have "statsBucketStart now (st_DateTime s) = st_DateTime s"
    by (simp add: settled_def statsBucketStart_def statsBucketSeconds_def minus_mod_eq_div_mult [symmetric])
  with s show ?thesis by (simp add: settled_def normalize_sample_def)
qed

lemma normalize_settled: "sample_ok now s \<Longrightarrow> normalize_sample now s = Some s' \<Longrightarrow> settled s' \<and> Traffic s' = Traffic s"
proof -
  assume ok: "sample_ok now s" and n: "normalize_sample now s = Some s'"
  define t where "t = (if st_DateTime s \<le> 0 then now else st_DateTime s)"
  have "60 \<le> t" using ok by (auto simp: t_def sample_ok_def)
  then have "0 < t div 60" by (simp add: pos_imp_zdiv_pos_iff)
  then have b: "0 < statsBucketStart now (st_DateTime s)" "statsBucketStart now (st_DateTime s) mod 60 = 0"
    by (simp_all add: statsBucketStart_def t_def [symmetric] statsBucketSeconds_def)
  with ok n show ?thesis
    using normalizeStatsResource_chars [of "Resource s"]
    by (auto simp: normalize_sample_def settled_def sample_ok_def Let_def split: if_splits)
qed

section \<open>Keys\<close>

lemma split_first:
  "x @ [z] @ y = x' @ [z] @ y' \<Longrightarrow> z \<notin> set x \<Longrightarrow> z \<notin> set x' \<Longrightarrow> x = x' \<and> y = y'"
  by (induction x arbitrary: x') (case_tac x'; auto)+

lemma split_last:
  assumes "x @ [z] @ y = x' @ [z] @ y'" "z \<notin> set y" "z \<notin> set y'"
  shows "x = x' \<and> y = y'"
proof -
  have "rev y @ [z] @ rev x = rev y' @ [z] @ rev x'" using arg_cong [OF assms(1), of rev] by simp
  from split_first [OF this] assms(2,3) show ?thesis by simp
qed

lemma itoa_no_nul: "CHR 0x00 \<notin> set (itoa x)"
proof
  assume "CHR 0x00 \<in> set (itoa x)"
  then have "is_digit (CHR 0x00)" using nat_digits_in by (auto simp: itoa_def split: if_splits)
  then show False by (simp add: is_digit_def)
qed

lemma sample_key_inj:
  assumes k: "trafficRuntimeJournalSampleKey s = trafficRuntimeJournalSampleKey t"
    and z: "CHR 0x00 \<notin> set (Resource s)" "CHR 0x00 \<notin> set (Resource t)"
  shows "sample_order s = sample_order t"
proof -
  let ?d = "\<lambda>s. if Direction s then ''true'' else ''false''"
  have 1: "itoa (st_DateTime s) = itoa (st_DateTime t)"
      "Resource s @ [CHR 0x00] @ st_Tag s @ [CHR 0x00] @ ?d s = Resource t @ [CHR 0x00] @ st_Tag t @ [CHR 0x00] @ ?d t"
    using split_first [OF k [unfolded trafficRuntimeJournalSampleKey_def] itoa_no_nul itoa_no_nul] by simp_all
  from split_first [OF 1(2) z] have 2: "Resource s = Resource t" "st_Tag s @ [CHR 0x00] @ ?d s = st_Tag t @ [CHR 0x00] @ ?d t" by simp_all
  have "CHR 0x00 \<notin> set (?d s)" "CHR 0x00 \<notin> set (?d t)" by simp_all
  from split_last [OF 2(2) this] have "st_Tag s = st_Tag t" "?d s = ?d t" by simp_all
  with 1(1) 2(1) itoa_inj show ?thesis by (auto simp: sample_order_def split: if_splits)
qed

lemma sample_key_order: "sample_order s = sample_order t \<Longrightarrow> trafficRuntimeJournalSampleKey s = trafficRuntimeJournalSampleKey t"
  by (simp add: sample_order_def trafficRuntimeJournalSampleKey_def)


section \<open>Totals\<close>

definition total :: "Stats list \<Rightarrow> int \<times> string \<times> string \<times> bool \<Rightarrow> int" where
  "total ss k = (\<Sum>s\<leftarrow>ss. if sample_order s = k then Traffic s else 0)"

definition bytes :: "Stats list \<Rightarrow> int" where
  "bytes ss = (\<Sum>s\<leftarrow>ss. Traffic s)"

definition pending_ok :: "pending_map \<Rightarrow> bool" where
  "pending_ok p \<longleftrightarrow> distinct (map fst p) \<and> (\<forall>(k, s) \<in> set p. k = trafficRuntimeJournalSampleKey s \<and> settled s)"

lemma total_simps [simp]: "total [] k = 0" "total (s # ss) k = (if sample_order s = k then Traffic s else 0) + total ss k"
    "total (ss @ ts) k = total ss k + total ts k"
  and bytes_simps [simp]: "bytes [] = 0" "bytes (s # ss) = Traffic s + bytes ss" "bytes (ss @ ts) = bytes ss + bytes ts"
  by (simp_all add: total_def bytes_def)

lemma sum_list_sort_key: "(\<Sum>x\<leftarrow>sort_key f xs. g x) = (\<Sum>x\<leftarrow>xs. g x :: int)"
proof -
  have "mset (map g (sort_key f xs)) = mset (map g xs)" by simp
  then show ?thesis by (metis sum_mset_sum_list)
qed

lemma total_sort [simp]: "total (sort_key f ss) k = total ss k" and bytes_sort [simp]: "bytes (sort_key f ss) = bytes ss"
  by (simp_all add: total_def bytes_def sum_list_sort_key)

lemma settled_pos: "settled s \<Longrightarrow> 0 < Traffic s"
  by (simp add: settled_def)

lemma settled_bytes: "\<forall>s \<in> set ss. settled s \<Longrightarrow> 0 \<le> bytes ss"
  by (induction ss) (auto dest: settled_pos)

lemma settled_bytes_mem: "\<forall>s \<in> set ss. settled s \<Longrightarrow> s \<in> set ss \<Longrightarrow> Traffic s \<le> bytes ss"
proof (induction ss)
  case (Cons t ss)
  then have "0 \<le> bytes ss" "0 < Traffic t" by (auto intro: settled_bytes settled_pos)
  with Cons show ?case by auto
qed simp

lemma add_pending:
  assumes p: "pending_ok p" and s: "settled s" and b: "bytes (map snd p) + Traffic s \<le> max_int64"
    and q: "q = snd (addTrafficRuntimePendingStat now p s)"
  shows "pending_ok q \<and> bytes (map snd q) = bytes (map snd p) + Traffic s
     \<and> total (map snd q) k = total (map snd p) k + (if sample_order s = k then Traffic s else 0)"
proof (cases "map_of p (trafficRuntimeJournalSampleKey s)")
  case None
  then have "trafficRuntimeJournalSampleKey s \<notin> fst ` set p" by (simp add: map_of_eq_None_iff)
  with None p s show ?thesis
    by (auto simp: q addTrafficRuntimePendingStat_def settled_normalize pending_ok_def)
next
  case (Some c)
  let ?key = "trafficRuntimeJournalSampleKey s"
  have d: "distinct (map fst p)" using p by (simp add: pending_ok_def)
  from map_of_SomeD [OF Some] obtain xs ys where p': "p = xs @ (?key, c) # ys" by (meson split_list)
  have fresh: "?key \<notin> fst ` set xs" "?key \<notin> fst ` set ys" using d p' by auto
  have c: "?key = trafficRuntimeJournalSampleKey c" "settled c" using p p' by (auto simp: pending_ok_def)
  have order: "sample_order c = sample_order s"
    using sample_key_inj [of c s] c s by (simp add: settled_def)
  have all: "\<forall>x \<in> set (map snd p). settled x" using p by (auto simp: pending_ok_def)
  have "Traffic c \<le> bytes (map snd p)" using settled_bytes_mem [OF all, of c] p' by simp
  then have w: "wrap64 (Traffic c + Traffic s) = Traffic c + Traffic s"
    using b c(2) s by (intro wrap64_id) (auto simp: settled_def int64_defs)
  have same: "map (\<lambda>(k, x). if k = ?key then (k, x\<lparr>Traffic := wrap64 (Traffic x + Traffic s)\<rparr>) else (k, x)) zs = zs"
    if "?key \<notin> fst ` set zs" for zs
    using that by (intro map_idI) (auto simp: image_iff)
  have q': "q = xs @ (?key, c\<lparr>Traffic := Traffic c + Traffic s\<rparr>) # ys"
    using Some same [OF fresh(1)] same [OF fresh(2)]
    by (simp add: q addTrafficRuntimePendingStat_def settled_normalize [OF s] p' w)
  have "settled (c\<lparr>Traffic := Traffic c + Traffic s\<rparr>)" using c(2) s by (simp add: settled_def)
  moreover have "trafficRuntimeJournalSampleKey (c\<lparr>Traffic := Traffic c + Traffic s\<rparr>) = ?key"
    using c(1) by (simp add: trafficRuntimeJournalSampleKey_def)
  moreover have "sample_order (c\<lparr>Traffic := Traffic c + Traffic s\<rparr>) = sample_order s" using order by (simp add: sample_order_def)
  ultimately show ?thesis using p order fresh by (simp add: q' p' pending_ok_def c(1) [symmetric])
qed

lemma add_all_simps [simp]: "add_all now p [] = p" "add_all now p (s # ss) = add_all now (snd (addTrafficRuntimePendingStat now p s)) ss"
  "add_all now p (ss @ ts) = add_all now (add_all now p ss) ts"
  by (simp_all add: add_all_def)

lemma add_all_pending:
  assumes "pending_ok p" "\<forall>s \<in> set ss. settled s" "bytes (map snd p) + bytes ss \<le> max_int64"
  shows "pending_ok (add_all now p ss) \<and> bytes (map snd (add_all now p ss)) = bytes (map snd p) + bytes ss
     \<and> total (map snd (add_all now p ss)) k = total (map snd p) k + total ss k"
  using assms
proof (induction ss arbitrary: p)
  case (Cons s ss)
  have "0 \<le> bytes ss" using Cons.prems(2) by (intro settled_bytes) simp
  then have "bytes (map snd p) + Traffic s \<le> max_int64" using Cons.prems(3) by simp
  note a = add_pending [OF Cons.prems(1) _ this refl, of now]
  have "settled s" using Cons.prems(2) by simp
  note a = a [OF this]
  from Cons.IH [of "snd (addTrafficRuntimePendingStat now p s)"] a Cons.prems show ?case by auto
qed simp


section \<open>Batches\<close>

lemma add_normalized:
  assumes "sample_ok now s"
  shows "snd (addTrafficRuntimePendingStat now p s)
     = (case normalize_sample now s of None \<Rightarrow> p | Some s' \<Rightarrow> snd (addTrafficRuntimePendingStat now p s'))"
proof (cases "normalize_sample now s")
  case None
  then show ?thesis by (simp add: addTrafficRuntimePendingStat_def)
next
  case (Some s')
  then have "normalize_sample now s' = Some s'" using normalize_settled [OF assms] settled_normalize by blast
  with Some show ?thesis by (simp add: addTrafficRuntimePendingStat_def)
qed

lemma add_all_normalized:
  "\<forall>s \<in> set ss. sample_ok now s \<Longrightarrow> add_all now p ss = add_all now p (List.map_filter (normalize_sample now) ss)"
  by (induction ss arbitrary: p) (simp_all add: add_normalized map_filter_simps split: option.split)

lemma batch_settled:
  "\<forall>s \<in> set ss. sample_ok now s \<Longrightarrow> \<forall>s \<in> set (List.map_filter (normalize_sample now) ss). settled s"
  using normalize_settled by (auto simp: map_filter_def)

lemma settled_map_filter: "\<forall>s \<in> set ss. settled s \<Longrightarrow> List.map_filter (normalize_sample now) ss = ss"
  by (induction ss) (simp_all add: map_filter_simps settled_normalize)

lemma add_all_now: "\<forall>s \<in> set ss. settled s \<Longrightarrow> add_all now p ss = add_all 0 p ss"
  by (induction ss arbitrary: p) (simp_all add: addTrafficRuntimePendingStat_def settled_normalize)

definition batch_ok :: "int \<Rightarrow> Stats list \<Rightarrow> bool" where
  "batch_ok now ss \<longleftrightarrow> (\<forall>s \<in> set ss. sample_ok now s) \<and> bytes (List.map_filter (normalize_sample now) ss) \<le> max_int64"

lemma compact_props:
  assumes "batch_ok now ss"
  shows "\<forall>s \<in> set (compactTrafficRuntimeSamples now ss). settled s"
    "total (compactTrafficRuntimeSamples now ss) k = total (List.map_filter (normalize_sample now) ss) k"
    "bytes (compactTrafficRuntimeSamples now ss) = bytes (List.map_filter (normalize_sample now) ss)"
proof -
  have ok: "\<forall>s \<in> set ss. sample_ok now s" using assms by (simp add: batch_ok_def)
  have "pending_ok []" by (simp add: pending_ok_def)
  from add_all_pending [OF this batch_settled [OF ok], of now] assms
  have a: "pending_ok (add_all now [] ss)" "bytes (map snd (add_all now [] ss)) = bytes (List.map_filter (normalize_sample now) ss)"
    "total (map snd (add_all now [] ss)) k = total (List.map_filter (normalize_sample now) ss) k" for k
    by (simp_all add: add_all_normalized [OF ok] batch_ok_def)
  from a(1) show "\<forall>s \<in> set (compactTrafficRuntimeSamples now ss). settled s"
    by (auto simp: compactTrafficRuntimeSamples_def sortedTrafficRuntimePendingStats_def pending_ok_def)
  show "total (compactTrafficRuntimeSamples now ss) k = total (List.map_filter (normalize_sample now) ss) k"
    "bytes (compactTrafficRuntimeSamples now ss) = bytes (List.map_filter (normalize_sample now) ss)"
    using a(2,3) by (simp_all add: compactTrafficRuntimeSamples_def sortedTrafficRuntimePendingStats_def)
qed

lemma upsert_row_total:
  assumes d: "distinct (map sample_order rows)"
  shows "total (upsert_row rows s) k = total rows k + (if sample_order s = k then Traffic s else 0)
     \<and> distinct (map sample_order (upsert_row rows s))"
proof (cases "sample_order s \<in> sample_order ` set rows")
  case True
  then obtain c where c: "c \<in> set rows" "sample_order c = sample_order s" by auto
  then obtain xs ys where r: "rows = xs @ c # ys" by (meson split_list)
  have fresh: "sample_order s \<notin> sample_order ` set xs" "sample_order s \<notin> sample_order ` set ys" using d r c(2) by auto
  let ?f = "\<lambda>r. if sample_order r = sample_order s then r\<lparr>Traffic := Traffic r + Traffic s\<rparr> else r"
  have same: "map ?f zs = zs" if "sample_order s \<notin> sample_order ` set zs" for zs
    using that by (intro map_idI) (auto simp: image_iff)
  have u: "upsert_row rows s = xs @ c\<lparr>Traffic := Traffic c + Traffic s\<rparr> # ys"
    using True same [OF fresh(1)] same [OF fresh(2)] by (simp add: upsert_row_def r c(2))
  have "sample_order (c\<lparr>Traffic := Traffic c + Traffic s\<rparr>) = sample_order c" by (simp add: sample_order_def)
  then show ?thesis using d c(2) unfolding u by (simp add: r)
next
  case False
  then show ?thesis using d by (simp add: upsert_row_def)
qed

lemma upsert_rows_total:
  "distinct (map sample_order rows) \<Longrightarrow> total (foldl upsert_row rows ts) k = total rows k + total ts k
     \<and> distinct (map sample_order (foldl upsert_row rows ts))"
proof (induction ts arbitrary: rows)
  case (Cons t ts)
  from Cons.IH [of "upsert_row rows t"] upsert_row_total [OF Cons.prems, of t] show ?case by simp
qed simp

lemma upsert_batch_total:
  assumes "distinct (map sample_order rows)"
  shows "total (upsertStatsTrafficBatch now rows ss) k = total rows k + total (List.map_filter (normalize_sample now) ss) k"
    "distinct (map sample_order (upsertStatsTrafficBatch now rows ss))"
  using upsert_rows_total [OF assms] by (simp_all add: upsertStatsTrafficBatch_def)

section \<open>The invariant between two operations\<close>

definition tail :: "journal_db \<Rightarrow> Stats list" where
  \<comment> \<open>the samples that are durable but not flushed\<close>
  "tail db = concat (map (the \<circ> e_payload) (entries db))"

definition entry_ok :: "string \<Rightarrow> journal_entry \<Rightarrow> bool" where
  "entry_ok g e \<longleftrightarrow> e_generation e = g \<and> 0 < e_size e \<and> e_size e \<le> trafficRuntimeJournalMaxBytes
     \<and> (\<exists>ss. e_payload e = Some ss \<and> ss \<noteq> [] \<and> (\<forall>s \<in> set ss. settled s))"

definition journal_inv :: "journal_db \<times> journal \<Rightarrow> bool" where
  "journal_inv s \<longleftrightarrow> (case s of (db, j) \<Rightarrow>
     initialized j \<and> generation j = meta_generation db \<and> trim_space (meta_generation db) \<noteq> []
     \<and> checkpoint j = db_checkpoint db \<and> staged db = None \<and> distinct (map sample_order (stats db))
     \<and> list_all (entry_ok (generation j)) (entries db)
     \<and> sorted_wrt (<) (db_checkpoint db # map e_sequence (entries db))
     \<and> seqno j = last (db_checkpoint db # map e_sequence (entries db))
     \<and> pending j = add_all 0 [] (tail db))"

lemma tail_settled: "list_all (entry_ok g) (entries db) \<Longrightarrow> \<forall>s \<in> set (tail db). settled s"
  by (auto simp: tail_def entry_ok_def list_all_iff)

lemma sorted_le_last: "sorted_wrt (<) (x # xs) \<Longrightarrow> y \<in> set (x # xs) \<Longrightarrow> y \<le> last (x # xs :: nat list)"
proof (induction xs rule: rev_induct)
  case (snoc z xs)
  then show ?case by (auto simp: sorted_wrt_append)
qed simp

lemma journal_invD:
  assumes "journal_inv (db, j)"
  shows "initialized j" "generation j = meta_generation db" "trim_space (meta_generation db) \<noteq> []"
    "checkpoint j = db_checkpoint db" "staged db = None" "distinct (map sample_order (stats db))"
    "list_all (entry_ok (generation j)) (entries db)" "sorted_wrt (<) (db_checkpoint db # map e_sequence (entries db))"
    "seqno j = last (db_checkpoint db # map e_sequence (entries db))" "pending j = add_all 0 [] (tail db)"
    "\<forall>s \<in> set (tail db). settled s"
  using assms tail_settled [of "generation j" db] unfolding journal_inv_def prod.case by blast+

lemma sequence_le_seqno:
  assumes inv: "journal_inv (db, j)" and x: "x \<in> set (db_checkpoint db # map e_sequence (entries db))"
  shows "x \<le> seqno j"
  using sorted_le_last [OF journal_invD(8) [OF inv] x] by (simp only: journal_invD(9) [OF inv])

lemma pending_total:
  assumes inv: "journal_inv (db, j)" and small: "bytes (tail db) \<le> max_int64"
  shows "total (map snd (pending j)) k = total (tail db) k" "\<forall>s \<in> set (map snd (pending j)). settled s"
    "bytes (map snd (pending j)) = bytes (tail db)"
proof -
  have "pending_ok []" by (simp add: pending_ok_def)
  from add_all_pending [OF this journal_invD(11) [OF inv], of 0] small
  have "pending_ok (pending j) \<and> total (map snd (pending j)) k = total (tail db) k \<and> bytes (map snd (pending j)) = bytes (tail db)" for k
    by (simp add: journal_invD(10) [OF inv])
  then have "pending_ok (pending j)" "total (map snd (pending j)) k = total (tail db) k" "bytes (map snd (pending j)) = bytes (tail db)" by blast+
  then show "total (map snd (pending j)) k = total (tail db) k" "\<forall>s \<in> set (map snd (pending j)). settled s"
    "bytes (map snd (pending j)) = bytes (tail db)"
    by (auto simp: pending_ok_def)
qed

lemma add_all_nonempty: "settled s \<Longrightarrow> add_all now [] (s # ss) \<noteq> []"
proof -
  have grow: "p \<noteq> [] \<Longrightarrow> add_all now p ss \<noteq> []" for p
    by (induction ss arbitrary: p) (auto simp: addTrafficRuntimePendingStat_def Let_def split: option.split)
  show "settled s \<Longrightarrow> add_all now [] (s # ss) \<noteq> []"
    using grow by (simp add: addTrafficRuntimePendingStat_def settled_normalize)
qed

lemma pending_empty:
  assumes inv: "journal_inv (db, j)"
  shows "pending j = [] \<longleftrightarrow> entries db = []"
proof -
  have "tail db = [] \<longleftrightarrow> entries db = []"
    using journal_invD(7) [OF inv] by (cases "entries db") (auto simp: tail_def entry_ok_def)
  then show ?thesis
    using journal_invD(10,11) [OF inv] add_all_nonempty [of "hd (tail db)" 0 "List.tl (tail db)"] by (cases "tail db") simp_all
qed

lemma flush_eq:
  assumes inv: "journal_inv (db, j)"
  shows "flush ok now db j =
     (if entries db = [] then (True, db, j) else if \<not> ok then (False, db, j)
      else (True, db\<lparr>stats := upsertStatsTrafficBatch now (stats db) (sortedTrafficRuntimePendingStats (pending j)),
                    db_checkpoint := seqno j, entries := []\<rparr>, j\<lparr>pending := [], checkpoint := seqno j\<rparr>))"
proof (cases "entries db = []")
  case False
  have "\<forall>e \<in> set (entries db). e_sequence e \<le> seqno j \<and> e_generation e = generation j"
    using sequence_le_seqno [OF inv] journal_invD(7) [OF inv] by (auto simp: list_all_iff entry_ok_def)
  then have e: "filter (\<lambda>e. \<not> (e_generation e = generation j \<and> e_sequence e \<le> seqno j)) (entries db) = []"
    by (auto simp: filter_empty_conv)
  have "db_checkpoint db < seqno j"
    using False journal_invD(8,9) [OF inv] last_in_set [of "entries db"] by (simp add: last_map)
  with False show ?thesis
    using pending_empty [OF inv] journal_invD(4,5) [OF inv] e by (simp add: flush_def drop_flushed_def)
qed (use pending_empty [OF inv] in \<open>simp add: flush_def\<close>)

lemma flush_inv:
  assumes inv: "journal_inv (db, j)" and f: "flush ok now db j = (r, db', j')"
  shows "journal_inv (db', j')"
proof -
  let ?db = "db\<lparr>stats := upsertStatsTrafficBatch now (stats db) (sortedTrafficRuntimePendingStats (pending j)), db_checkpoint := seqno j, entries := []\<rparr>"
  have "journal_inv (?db, j\<lparr>pending := [], checkpoint := seqno j\<rparr>)"
    using upsert_batch_total(2) [OF journal_invD(6) [OF inv]] journal_invD(1,2,3,5) [OF inv]
    by (simp add: journal_inv_def tail_def)
  with f inv show ?thesis by (auto simp: flush_eq [OF inv] split: if_splits)
qed

lemma sorted_pending_settled:
  assumes inv: "journal_inv (db, j)" and small: "bytes (tail db) \<le> max_int64"
  shows "total (sortedTrafficRuntimePendingStats (pending j)) k = total (tail db) k"
    "List.map_filter (normalize_sample now) (sortedTrafficRuntimePendingStats (pending j)) = sortedTrafficRuntimePendingStats (pending j)"
  using pending_total(1,2) [OF inv small] settled_map_filter [of "sortedTrafficRuntimePendingStats (pending j)"]
  by (simp_all add: sortedTrafficRuntimePendingStats_def)

definition recorded :: "journal_db \<Rightarrow> int \<times> string \<times> string \<times> bool \<Rightarrow> int" where
  \<comment> \<open>what the database knows of a minute bucket: the row of \<open>stats\<close> and the durable tail\<close>
  "recorded db k = total (stats db) k + total (tail db) k"

lemma flush_recorded:
  assumes inv: "journal_inv (db, j)" and small: "bytes (tail db) \<le> max_int64" and f: "flush ok now db j = (r, db', j')"
  shows "recorded db' k = recorded db k \<and> bytes (tail db') \<le> bytes (tail db)"
proof (cases "entries db = [] \<or> \<not> ok")
  case True
  then have "db' = db" using f by (simp add: flush_eq [OF inv] split: if_splits)
  then show ?thesis by simp
next
  case False
  let ?p = "sortedTrafficRuntimePendingStats (pending j)"
  have db': "db' = db\<lparr>stats := upsertStatsTrafficBatch now (stats db) ?p, db_checkpoint := seqno j, entries := []\<rparr>"
    using f False by (simp add: flush_eq [OF inv])
  have "total (upsertStatsTrafficBatch now (stats db) ?p) k = total (stats db) k + total (tail db) k"
    using upsert_batch_total(1) [OF journal_invD(6) [OF inv], of now ?p k]
    by (simp only: sorted_pending_settled [OF inv small])
  with settled_bytes [OF journal_invD(11) [OF inv]] show ?thesis by (simp add: db' recorded_def tail_def)
qed

section \<open>Rounds\<close>

definition batch_of :: "int \<Rightarrow> Stats list \<Rightarrow> Stats list" where
  "batch_of now ss = List.map_filter (normalize_sample now) ss"

lemma stage_fresh:
  assumes inv: "journal_inv (db, j)" and st: "stage json_size now j ss = Staged st"
  shows "insert_entry (entry_of st) (entries db) = entries db @ [entry_of st]"
proof -
  have "stg_sequence st = seqno j + 1" using st by (auto simp: stage_def Let_def split: if_splits)
  moreover have "\<forall>e \<in> set (entries db). e_sequence e \<le> seqno j"
    using sequence_le_seqno [OF inv] by simp
  ultimately have "\<not> list_ex (\<lambda>x. e_generation x = stg_generation st \<and> e_sequence x = stg_sequence st) (entries db)"
    by (auto simp: list_ex_iff)
  then show ?thesis by (simp add: insert_entry_def entry_of_def)
qed

lemma commit_inv:
  assumes inv: "journal_inv (db, j)" and st: "stage json_size now j ss = Staged st"
    and ok: "batch_ok now ss" and size: "\<forall>xs. 0 < json_size xs"
  shows "journal_inv (db\<lparr>entries := entries db @ [entry_of st]\<rparr>, commitStage now' st j)"
proof -
  let ?c = "compactTrafficRuntimeSamples now ss"
  have s: "st = \<lparr>stg_generation = generation j, stg_sequence = seqno j + 1, stg_size = json_size ?c,
      flushNow = (length (pending j) + length ?c \<ge> trafficRuntimeJournalPendingLimit), stg_samples = ?c\<rparr>"
    and c: "?c \<noteq> []" "json_size ?c \<le> trafficRuntimeJournalMaxBytes"
    using st by (auto simp: stage_def Let_def split: if_splits)
  have settled: "\<forall>s \<in> set ?c. settled s" by (rule compact_props(1) [OF ok])
  have e: "entry_ok (generation j) (entry_of st)" using c settled size by (simp add: s entry_ok_def entry_of_def)
  have p: "add_all now' (pending j) ?c = add_all 0 [] (tail db @ ?c)"
    using journal_invD(10) [OF inv] add_all_now [OF settled] by simp
  have "\<forall>x \<in> set (db_checkpoint db # map e_sequence (entries db)). x < seqno j + 1"
    using sequence_le_seqno [OF inv] by (simp add: less_Suc_eq_le)
  then have q: "sorted_wrt (<) (db_checkpoint db # map e_sequence (entries db @ [entry_of st]))"
    using journal_invD(8) [OF inv] by (auto simp: sorted_wrt_append s entry_of_def)
  have t: "tail (db\<lparr>entries := entries db @ [entry_of st]\<rparr>) = tail db @ ?c" by (simp add: tail_def s entry_of_def)
  show ?thesis
    unfolding journal_inv_def prod.case t
    using journal_invD(1-7) [OF inv] e p q by (simp add: commitStage_def s entry_of_def)
qed

lemma round_cases:
  assumes inv: "journal_inv (db, j)"
  obtains (same) "journal_round json_size now commits flushes ss (db, j) = (db, j)" "\<not> commits \<or> compactTrafficRuntimeSamples now ss = []"
  | (direct) "journal_round json_size now commits flushes ss (db, j) = (db\<lparr>stats := upsertStatsTrafficBatch now (stats db) ss\<rparr>, j)" commits
  | (staged) st where "commits" "stage json_size now j ss = Staged st" "entry_capacity_left st (entries db)"
      "journal_round json_size now commits flushes ss (db, j) =
         (let s = (db\<lparr>entries := entries db @ [entry_of st]\<rparr>, commitStage now st j)
          in if flushNow st then snd (flush flushes now (fst s) (snd s)) else s)"
proof -
  note defs = journal_round_def stageTrafficRuntimeStatsForTransaction_def persistTrafficRuntimeJournalStage_def
  consider "\<not> commits" | "commits" "ss = []" | "commits" "ss \<noteq> []" by blast
  then show thesis
  proof cases
    case 1
    then show thesis by (intro same) (simp_all add: defs case_prod_beta)
  next
    case 2
    then show thesis by (intro same) (simp_all add: defs compactTrafficRuntimeSamples_def sortedTrafficRuntimePendingStats_def)
  next
    case 3
    show thesis
    proof (cases "stage json_size now j ss")
      case NothingStaged
      with 3 show thesis by (intro same) (auto simp: defs stage_def Let_def split: if_splits)
    next
      case TooLarge
      with 3 show thesis by (intro direct) (simp_all add: defs)
    next
      case (Staged st)
      with 3 show thesis
        using staged [OF _ Staged] direct by (cases "entry_capacity_left st (entries db)") (simp_all add: defs Let_def stage_fresh [OF inv Staged])
    qed
  qed
qed

lemma direct_inv:
  assumes "journal_inv (db, j)"
  shows "journal_inv (db\<lparr>stats := upsertStatsTrafficBatch now (stats db) ss\<rparr>, j)"
  using journal_invD(1-5,7-10) [OF assms] upsert_batch_total(2) [OF journal_invD(6) [OF assms]]
  unfolding journal_inv_def prod.case tail_def by simp

lemma round_inv:
  assumes inv: "journal_inv (db, j)" and ok: "batch_ok now ss" and size: "\<forall>xs. 0 < json_size xs"
  shows "journal_inv (journal_round json_size now commits flushes ss (db, j))"
  using inv
proof (cases rule: round_cases [where json_size = json_size and now = now and commits = commits and flushes = flushes and ss = ss])
  case (staged st)
  note c = commit_inv [OF inv staged(2) ok size, of now]
  show ?thesis
    using c flush_inv [OF c, of flushes now] unfolding staged(4)
    by (cases "flush flushes now (db\<lparr>entries := entries db @ [entry_of st]\<rparr>) (commitStage now st j)") (simp add: Let_def)
qed (simp_all add: inv direct_inv)

lemma total_empty: "\<forall>s \<in> set ss. settled s \<Longrightarrow> bytes ss = 0 \<Longrightarrow> ss = []"
  using settled_bytes_mem settled_pos by (cases ss) fastforce+

lemma round_recorded:
  assumes inv: "journal_inv (db, j)" and ok: "batch_ok now ss" and size: "\<forall>xs. 0 < json_size xs"
    and small: "bytes (tail db) + bytes (batch_of now ss) \<le> max_int64"
    and r: "journal_round json_size now commits flushes ss (db, j) = (db', j')"
  shows "recorded db' k = recorded db k + (if commits then total (batch_of now ss) k else 0)
     \<and> bytes (tail db') \<le> bytes (tail db) + (if commits then bytes (batch_of now ss) else 0)"
proof -
  note c = compact_props [OF ok]
  have nonneg: "0 \<le> bytes (batch_of now ss)" using settled_bytes [OF c(1)] by (simp add: c(3) batch_of_def)
  from inv show ?thesis
  proof (cases rule: round_cases [where json_size = json_size and now = now and commits = commits and flushes = flushes and ss = ss])
    case same
    then have "commits \<longrightarrow> total (batch_of now ss) k = 0" using c(2) [of k] by (auto simp: batch_of_def)
    with same r small nonneg show ?thesis by auto
  next
    case direct
    then show ?thesis
      using r upsert_batch_total(1) [OF journal_invD(6) [OF inv], of now ss k] small nonneg
      by (auto simp: recorded_def batch_of_def tail_def)
  next
    case (staged st)
    let ?db = "db\<lparr>entries := entries db @ [entry_of st]\<rparr>" and ?j = "commitStage now st j"
    have st: "stg_samples st = compactTrafficRuntimeSamples now ss" using staged(2) by (auto simp: stage_def Let_def split: if_splits)
    then have t: "tail ?db = tail db @ compactTrafficRuntimeSamples now ss" by (simp add: tail_def entry_of_def)
    have b: "recorded ?db k = recorded db k + total (batch_of now ss) k"
      "bytes (tail ?db) = bytes (tail db) + bytes (batch_of now ss)" "bytes (tail ?db) \<le> max_int64"
      using small c by (simp_all add: recorded_def t batch_of_def)
    show ?thesis
    proof (cases "flushNow st")
      case True
      then obtain x where "flush flushes now ?db ?j = (x, db', j')" using r by (cases "flush flushes now ?db ?j") (simp add: staged(4))
      from flush_recorded [OF commit_inv [OF inv staged(2) ok size] b(3) this, of k] b(1,2) staged(1) show ?thesis by simp
    qed (use r b staged in \<open>simp add: Let_def\<close>)
  qed
qed

section \<open>Restarts\<close>

lemma restore_loop_entries:
  assumes "list_all (entry_ok g) es" "sorted_wrt (<) (n # map e_sequence es)"
  shows "restore_loop ok now es (db, p, n)
     = (True, db, add_all now p (concat (map (the \<circ> e_payload) es)), last (n # map e_sequence es))"
  using assms
proof (induction es arbitrary: p n)
  case (Cons e es)
  then obtain ss where e: "e_payload e = Some ss" "ss \<noteq> []" "\<forall>s \<in> set ss. settled s" "entry_ok g e"
    by (auto simp: entry_ok_def)
  then have "list_ex (\<lambda>s. normalize_sample now s \<noteq> None) ss" by (cases ss) (auto simp: settled_normalize)
  then have "entry_samples now n e = Some ss" using e Cons.prems(2) by (simp add: entry_samples_def entry_ok_def)
  with Cons e show ?case by simp
qed simp

definition restore_works :: "restore_env \<Rightarrow> bool" where
  "restore_works env \<longleftrightarrow> delete_ok env \<and> select_ok env \<and> files_ok env"

definition tail_read :: "restore_env \<Rightarrow> bool" where
  \<comment> \<open>the entries can be cleaned up and read\<close>
  "tail_read env \<longleftrightarrow> delete_ok env \<and> select_ok env"

lemma entries_restored:
  assumes inv: "journal_inv (db, j)" and env: "tail_read env"
    and j0: "j0 = j\<lparr>seqno := db_checkpoint db, pending := []\<rparr>"
  shows "restoreIncrementalEntries env now db j0 = (Some (entries db \<noteq> []), db, j)"
proof -
  note D = journal_invD [OF inv]
  have all: "\<forall>e \<in> set (entries db). e_generation e = generation j \<and> db_checkpoint db < e_sequence e"
    using D(7,8) by (auto simp: list_all_iff entry_ok_def)
  have keep: "filter (\<lambda>e. e_generation e = generation j \<longrightarrow> \<not> e_sequence e \<le> db_checkpoint db) (entries db) = entries db"
    "filter (\<lambda>e. e_generation e = generation j \<and> db_checkpoint db < e_sequence e) (entries db) = entries db"
    using all by (auto simp: filter_id_conv)
  have "sorted (map e_sequence (entries db))" using D(8) by (auto intro: strict_sorted_imp_sorted)
  then have es: "sort_key e_sequence (entries db) = entries db" by (rule sort_key_id_if_sorted)
  show ?thesis
  proof (cases "entries db = []")
    case True
    then have "seqno j = db_checkpoint db" "pending j = []" using D(9) pending_empty [OF inv] by simp_all
    then have "j0 = j" unfolding j0 by (cases j) simp
    with True D(4) show ?thesis using env by (simp add: restoreIncrementalEntries_def tail_read_def)
  next
    case False
    have loop: "restore_loop (discard_ok env) now (entries db) (db, [], db_checkpoint db) = (True, db, pending j, seqno j)"
      by (simp only: restore_loop_entries [OF D(7,8)] D(9,10) add_all_now [OF D(11), of now] flip: tail_def)
    have "j\<lparr>seqno := db_checkpoint db, pending := [], pending := pending j, seqno := seqno j\<rparr> = j" by (cases j) simp
    with False env D(4) show ?thesis by (simp add: restoreIncrementalEntries_def tail_read_def j0 Let_def keep es loop)
  qed
qed

lemma restore_after_crash:
  assumes inv: "journal_inv (db, j)" and env: "tail_read env" and j0: "j0 = j\<lparr>seqno := db_checkpoint db, pending := []\<rparr>"
  shows "restore env now db j0 = (files_ok env, db, j)"
  using entries_restored [OF inv env j0, of now] journal_invD(5) [OF inv] by (cases "entries db") (simp_all add: restore_def)

lemma ready_after_crash:
  assumes inv: "journal_inv (db, j)"
  shows "ensureReady (True, True) fresh db new_journal = (True, db, j\<lparr>seqno := db_checkpoint db, pending := []\<rparr>)"
  using journal_invD(1-4) [OF inv] by (cases j) (simp add: ensureReady_def new_journal_def)

lemma startup_after_crash:
  assumes inv: "journal_inv (db, j)" and env: "restore_works env"
  shows "PrepareTrafficRuntimeJournalOnStartup (True, True) fresh env flushes now (db, new_journal) = flush flushes now db j"
  using restore_after_crash [OF inv _ refl, of env now] env
  by (simp add: PrepareTrafficRuntimeJournalOnStartup_def ready_after_crash [OF inv] restore_works_def tail_read_def)

section \<open>Systems driven by events\<close>

locale event_system =
  fixes step :: "'e \<Rightarrow> 's \<Rightarrow> 's" and inv :: "'s \<Rightarrow> bool" and ok :: "'e \<Rightarrow> bool"
  assumes keeps: "inv s \<Longrightarrow> ok e \<Longrightarrow> inv (step e s)"
begin

lemma run_keeps: "inv s \<Longrightarrow> \<forall>e \<in> set evs. ok e \<Longrightarrow> inv (fold step evs s)"
  by (induction evs arbitrary: s) (simp_all add: keeps)

end

locale durable_books = event_system step inv ok
  for step :: "'e \<Rightarrow> 's \<Rightarrow> 's" and inv ok +
  fixes books :: "'s \<Rightarrow> int \<times> string \<times> string \<times> bool \<Rightarrow> int" and unflushed :: "'s \<Rightarrow> int" and entry :: "'e \<Rightarrow> Stats list"
  assumes entry_nonneg: "ok e \<Longrightarrow> 0 \<le> bytes (entry e)"
    and posts: "inv s \<Longrightarrow> ok e \<Longrightarrow> unflushed s + bytes (entry e) \<le> max_int64
      \<Longrightarrow> books (step e s) k = books s k + total (entry e) k \<and> unflushed (step e s) \<le> unflushed s + bytes (entry e)"
begin

lemma run_posts:
  assumes "inv s" "\<forall>e \<in> set evs. ok e" "unflushed s + bytes (concat (map entry evs)) \<le> max_int64"
  shows "books (fold step evs s) k = books s k + total (concat (map entry evs)) k
     \<and> unflushed (fold step evs s) \<le> unflushed s + bytes (concat (map entry evs))"
  using assms
proof (induction evs arbitrary: s)
  case (Cons e evs)
  have "0 \<le> bytes (concat (map entry evs))"
    using Cons.prems(2) entry_nonneg by (induction evs) simp_all
  with Cons.prems have 1: "books (step e s) k = books s k + total (entry e) k" "unflushed (step e s) \<le> unflushed s + bytes (entry e)"
    using posts [of s e k] by simp_all
  have "inv (step e s)" using Cons.prems by (intro keeps) simp_all
  from Cons.IH [OF this] Cons.prems 1 show ?case by simp
qed simp

end

section \<open>Histories\<close>

datatype journal_event =
    Round int bool bool "Stats list"  \<comment> \<open>the clock, whether the transaction and a flush commit, the samples\<close>
  | Flush int bool
  | Crash int "string option" restore_env bool  \<comment> \<open>the process dies; the next start finds the same database\<close>

primrec journal_step :: "(Stats list \<Rightarrow> nat) \<Rightarrow> journal_event \<Rightarrow> journal_db \<times> journal \<Rightarrow> journal_db \<times> journal" where
  "journal_step json_size (Round now commits flushes ss) s = journal_round json_size now commits flushes ss s"
| "journal_step json_size (Flush now ok) s = snd (FlushTrafficRuntimeJournal (True, True) None ok now (fst s) (snd s))"
| "journal_step json_size (Crash now fresh env ok) s = snd (PrepareTrafficRuntimeJournalOnStartup (True, True) fresh env ok now (fst s, new_journal))"

primrec event_ok :: "journal_event \<Rightarrow> bool" where
  "event_ok (Round now commits flushes ss) = batch_ok now ss"
| "event_ok (Flush now ok) = True"
| "event_ok (Crash now fresh env ok) = restore_works env"

primrec event_batch :: "journal_event \<Rightarrow> Stats list" where
  "event_batch (Round now commits flushes ss) = (if commits then batch_of now ss else [])"
| "event_batch (Flush now ok) = []"
| "event_batch (Crash now fresh env ok) = []"

definition run_journal :: "(Stats list \<Rightarrow> nat) \<Rightarrow> journal_event list \<Rightarrow> journal_db \<times> journal \<Rightarrow> journal_db \<times> journal" where
  "run_journal json_size = fold (journal_step json_size)"

definition ledger :: "journal_event list \<Rightarrow> Stats list" where
  "ledger evs = concat (map event_batch evs)"

definition opened :: "string \<Rightarrow> Stats list \<Rightarrow> journal_db \<times> journal" where
  \<comment> \<open>a database with some history, opened for the first time\<close>
  "opened g rows =
     (let db = \<lparr>stats = rows, meta_generation = [], db_checkpoint = 0, staged = None, entries = []\<rparr>
      in snd (ensureReady (True, True) (Some g) db new_journal))"

lemma opened_inv:
  assumes "trim_space g \<noteq> []" "distinct (map sample_order rows)"
  shows "journal_inv (opened g rows)" "stats (fst (opened g rows)) = rows" "tail (fst (opened g rows)) = []" "entries (fst (opened g rows)) = []"
  using assms by (simp_all add: opened_def ensureReady_def new_journal_def journal_inv_def tail_def)

lemma flush_step:
  assumes "journal_inv s"
  shows "journal_step json_size (Flush now ok) s = snd (flush ok now (fst s) (snd s))"
  using journal_invD(1) [of "fst s" "snd s"] assms by (simp add: FlushTrafficRuntimeJournal_def ensureReady_def case_prod_beta)

lemma crash_is_flush:
  assumes "journal_inv s" "restore_works env"
  shows "journal_step json_size (Crash now fresh env ok) s = journal_step json_size (Flush now ok) s"
  using startup_after_crash [of "fst s" "snd s" env fresh ok now] assms by (simp del: journal_step.simps(2) add: flush_step)

lemma step_inv:
  assumes "journal_inv s" "event_ok e" "\<forall>xs. 0 < json_size xs"
  shows "journal_inv (journal_step json_size e s)"
proof -
  have f: "journal_inv (journal_step json_size (Flush now ok) s)" for now ok
    unfolding flush_step [OF assms(1)]
    using flush_inv [of "fst s" "snd s" ok now] assms(1) by (cases "flush ok now (fst s) (snd s)") simp
  show ?thesis
  proof (cases e)
    case (Round now commits flushes ss)
    then show ?thesis using round_inv [of "fst s" "snd s" now ss json_size commits flushes] assms by simp
  qed (use f crash_is_flush assms in \<open>simp_all del: journal_step.simps\<close>)
qed

lemma step_recorded:
  assumes inv: "journal_inv s" and e: "event_ok e" and size: "\<forall>xs. 0 < json_size xs"
    and small: "bytes (tail (fst s)) + bytes (event_batch e) \<le> max_int64"
  shows "recorded (fst (journal_step json_size e s)) k = recorded (fst s) k + total (event_batch e) k
     \<and> bytes (tail (fst (journal_step json_size e s))) \<le> bytes (tail (fst s)) + bytes (event_batch e)"
proof -
  have f: "recorded (fst (journal_step json_size (Flush now ok) s)) k = recorded (fst s) k
      \<and> bytes (tail (fst (journal_step json_size (Flush now ok) s))) \<le> bytes (tail (fst s))" if "bytes (tail (fst s)) \<le> max_int64" for now ok
    unfolding flush_step [OF inv]
    using flush_recorded [of "fst s" "snd s" ok now] inv that by (cases "flush ok now (fst s) (snd s)") simp
  show ?thesis
  proof (cases e)
    case (Round now commits flushes ss)
    show ?thesis
    proof (cases commits)
      case True
      then show ?thesis
        using round_recorded [of "fst s" "snd s" now ss json_size commits flushes] inv e size small Round
        by (cases "journal_round json_size now commits flushes ss s") simp
    next
      case False
      then have "journal_round json_size now commits flushes ss s = s" by (simp add: journal_round_def case_prod_beta)
      with False Round show ?thesis by simp
    qed
  qed (use f crash_is_flush [OF inv] e small in \<open>simp_all del: journal_step.simps\<close>)
qed

lemma event_batch_nonneg: "event_ok e \<Longrightarrow> 0 \<le> bytes (event_batch e)"
  using settled_bytes [OF batch_settled] by (cases e) (auto simp: batch_ok_def batch_of_def)

interpretation journal: durable_books "journal_step json_size" journal_inv "\<lambda>e. event_ok e \<and> (\<forall>xs. 0 < json_size xs)"
    "recorded \<circ> fst" "bytes \<circ> tail \<circ> fst" event_batch for json_size
  by unfold_locales (simp_all add: step_inv step_recorded event_batch_nonneg)

definition within_capacity :: "journal_db \<Rightarrow> bool" where
  "within_capacity db \<longleftrightarrow> length (entries db) \<le> trafficRuntimeJournalEntryMaxRows
     \<and> sum_list (map e_size (entries db)) \<le> trafficRuntimeJournalEntryMaxBytes"

lemma flush_capacity:
  assumes "journal_inv (db, j)" "within_capacity db"
  shows "within_capacity (fst (snd (flush ok now db j)))"
  using assms(2) by (simp add: flush_eq [OF assms(1)] within_capacity_def)

lemma round_capacity:
  assumes inv: "journal_inv (db, j)" and ok: "batch_ok now ss" and size: "\<forall>xs. 0 < json_size xs" and cap: "within_capacity db"
  shows "within_capacity (fst (journal_round json_size now commits flushes ss (db, j)))"
  using inv
proof (cases rule: round_cases [where json_size = json_size and now = now and commits = commits and flushes = flushes and ss = ss])
  case (staged st)
  have "stg_generation st = generation j" using staged(2) by (auto simp: stage_def Let_def split: if_splits)
  then have "filter (\<lambda>e. e_generation e = stg_generation st) (entries db) = entries db"
    using journal_invD(7) [OF inv] by (auto simp: list_all_iff entry_ok_def filter_id_conv)
  then have c: "within_capacity (db\<lparr>entries := entries db @ [entry_of st]\<rparr>)"
    using staged(3) by (simp add: entry_capacity_left_def within_capacity_def entry_of_def Let_def)
  from flush_capacity [OF commit_inv [OF inv staged(2) ok size] c, of flushes now] c show ?thesis
    unfolding staged(4) by (simp add: Let_def)
qed (use cap in \<open>simp_all add: within_capacity_def\<close>)

interpretation capacity: event_system "journal_step json_size" "\<lambda>s. journal_inv s \<and> within_capacity (fst s)"
    "\<lambda>e. event_ok e \<and> (\<forall>xs. 0 < json_size xs)" for json_size
proof (unfold_locales, intro conjI)
  fix s :: "journal_db \<times> journal" and e
  assume s: "journal_inv s \<and> within_capacity (fst s)" and e: "event_ok e \<and> (\<forall>xs. 0 < json_size xs)"
  then show "journal_inv (journal_step json_size e s)" by (simp add: step_inv)
  have f: "within_capacity (fst (journal_step json_size (Flush now ok) s))" for now ok
    using s flush_capacity [of "fst s" "snd s" ok now] by (simp add: flush_step del: journal_step.simps(2))
  show "within_capacity (fst (journal_step json_size e s))"
  proof (cases e)
    case (Round now commits flushes ss)
    then show ?thesis using s e round_capacity [of "fst s" "snd s" now ss json_size commits flushes] by simp
  qed (use f crash_is_flush s e in \<open>simp_all del: journal_step.simps\<close>)
qed

lemma journal_books:
  assumes g: "trim_space g \<noteq> []" "distinct (map sample_order rows)" and size: "\<forall>xs. 0 < json_size xs"
    and evs: "\<forall>e \<in> set evs. event_ok e" "bytes (ledger evs) \<le> max_int64"
    and s: "run_journal json_size evs (opened g rows) = (db, j)"
  shows "total (stats db) k + total (tail db) k = total rows k + total (ledger evs) k"
    "total (stats db) k + total (map snd (pending j)) k = total rows k + total (ledger evs) k"
    "bytes (map snd (pending j)) \<le> max_int64" "\<forall>s \<in> set (map snd (pending j)). settled s"
proof -
  note o = opened_inv [OF g]
  have inv: "journal_inv (db, j)" using journal.run_keeps [OF o(1), of evs json_size] size evs s by (simp add: run_journal_def)
  have r: "recorded db k = total rows k + total (ledger evs) k" "bytes (tail db) \<le> bytes (ledger evs)" for k
    using journal.run_posts [OF o(1), of evs json_size k] size evs o s by (simp_all add: run_journal_def ledger_def recorded_def)
  have small: "bytes (tail db) \<le> max_int64" using r(2) evs(2) by simp
  show "total (stats db) k + total (tail db) k = total rows k + total (ledger evs) k"
    "total (stats db) k + total (map snd (pending j)) k = total rows k + total (ledger evs) k"
    using r(1) [of k] pending_total(1) [OF inv small, of k] by (simp_all add: recorded_def)
  show "bytes (map snd (pending j)) \<le> max_int64" "\<forall>s \<in> set (map snd (pending j)). settled s"
    using small pending_total(2,3) [OF inv small] by simp_all
qed

lemma ledger_settled: "\<forall>e \<in> set evs. event_ok e \<Longrightarrow> \<forall>s \<in> set (ledger evs). settled s"
proof -
  have "\<forall>s \<in> set (event_batch e). settled s" if "event_ok e" for e
    using that batch_settled by (cases e) (auto simp: batch_ok_def batch_of_def)
  then show "\<forall>e \<in> set evs. event_ok e \<Longrightarrow> \<forall>s \<in> set (ledger evs). settled s" by (auto simp: ledger_def)
qed

section \<open>Starts that cannot read the tail\<close>

text \<open>
  A start that cannot delete or select the entries leaves the journal usable but without its tail. A history is well-formed when
  no round commits after such a start before another one has read the tail.
\<close>

fun last_read :: "bool \<Rightarrow> journal_event list \<Rightarrow> bool" where
  "last_read read [] = read"
| "last_read read (Crash now fresh env ok # evs) = last_read (tail_read env) evs"
| "last_read read (e # evs) = last_read read evs"

fun history_ok :: "bool \<Rightarrow> journal_event list \<Rightarrow> bool" where
  "history_ok read [] \<longleftrightarrow> True"
| "history_ok read (Round now commits flushes ss # evs) \<longleftrightarrow> batch_ok now ss \<and> (commits \<longrightarrow> read) \<and> history_ok read evs"
| "history_ok read (Flush now ok # evs) \<longleftrightarrow> history_ok read evs"
| "history_ok read (Crash now fresh env ok # evs) \<longleftrightarrow> history_ok (tail_read env) evs"

lemma events_history_ok: "\<forall>e \<in> set evs. event_ok e \<Longrightarrow> history_ok True evs \<and> last_read True evs"
proof (induction evs)
  case (Cons e evs)
  then show ?case by (cases e) (auto simp: restore_works_def tail_read_def)
qed simp

definition forgotten :: "journal_db \<Rightarrow> journal \<Rightarrow> journal" where
  "forgotten db j = j\<lparr>seqno := db_checkpoint db, pending := []\<rparr>"

definition journal_known :: "bool \<Rightarrow> journal_db \<times> journal \<Rightarrow> bool" where
  "journal_known read s \<longleftrightarrow> (\<exists>j. journal_inv (fst s, j) \<and> snd s = (if read then j else forgotten (fst s) j))"

lemma start_without_tail:
  assumes inv: "journal_inv (db, j)" and env: "\<not> tail_read env"
  shows "PrepareTrafficRuntimeJournalOnStartup (True, True) fresh env flushes now (db, new_journal) = (False, db, forgotten db j)"
proof -
  note D = journal_invD [OF inv]
  have keep: "filter (\<lambda>e. e_generation e = generation j \<longrightarrow> \<not> e_sequence e \<le> db_checkpoint db) (entries db) = entries db"
    using D(7,8) by (auto simp: filter_id_conv list_all_iff entry_ok_def)
  have "restoreIncrementalEntries env now db (forgotten db j) = (None, db, forgotten db j)"
    using env D(4) keep by (cases "delete_ok env") (simp_all add: restoreIncrementalEntries_def tail_read_def forgotten_def Let_def)
  then show ?thesis by (simp add: PrepareTrafficRuntimeJournalOnStartup_def ready_after_crash [OF inv] restore_def flip: forgotten_def)
qed

lemma start_step:
  assumes "journal_known read s"
  obtains j where "journal_inv (fst s, j)" "journal_known (tail_read env) (journal_step json_size (Crash now fresh env ok) s)"
    "journal_step json_size (Crash now fresh env ok) s
       = (if restore_works env then snd (flush ok now (fst s) j) else (fst s, if tail_read env then j else forgotten (fst s) j))"
proof -
  obtain j where j: "journal_inv (fst s, j)" using assms by (auto simp: journal_known_def)
  let ?s = "journal_step json_size (Crash now fresh env ok) s"
  have eq: "?s = (if restore_works env then snd (flush ok now (fst s) j) else (fst s, if tail_read env then j else forgotten (fst s) j))"
  proof (cases "restore_works env")
    case True
    then show ?thesis using startup_after_crash [OF j True] by simp
  next
    case False
    show ?thesis
    proof (cases "tail_read env")
      case True
      then have "\<not> files_ok env" using False by (simp add: restore_works_def tail_read_def)
      then show ?thesis using restore_after_crash [OF j True refl, of now] False True
        by (simp add: PrepareTrafficRuntimeJournalOnStartup_def ready_after_crash [OF j])
    next
      case unread: False
      from start_without_tail [OF j unread, of fresh ok now] False unread show ?thesis by simp
    qed
  qed
  have "journal_inv (snd (flush ok now (fst s) j))" using flush_inv [OF j, of ok now] by (cases "flush ok now (fst s) j") auto
  moreover have "restore_works env \<Longrightarrow> tail_read env" by (simp add: restore_works_def tail_read_def)
  ultimately have "journal_known (tail_read env) ?s" unfolding eq using j by (auto simp: journal_known_def)
  then show ?thesis using that j eq by blast
qed

lemma quiet_step:
  \<comment> \<open>before the tail is read, flushes and rounds that do not commit change nothing\<close>
  assumes "journal_known False s" "e = Flush now ok \<or> e = Round now False flushes ss"
  shows "journal_step json_size e s = s"
proof -
  obtain j where j: "journal_inv (fst s, j)" "snd s = forgotten (fst s) j" using assms(1) by (auto simp: journal_known_def)
  have "initialized (snd s)" "pending (snd s) = []" using journal_invD(1) [OF j(1)] by (simp_all add: j(2) forgotten_def)
  then have "journal_step json_size (Flush now ok) s = s"
    by (simp add: FlushTrafficRuntimeJournal_def ensureReady_def flush_def case_prod_beta)
  moreover have "journal_step json_size (Round now False flushes ss) s = s" by (simp add: journal_round_def case_prod_beta)
  ultimately show ?thesis using assms(2) by blast
qed

lemma known_step:
  assumes k: "journal_known read s" and e: "history_ok read [e]" and size: "\<forall>xs. 0 < json_size xs"
    and small: "bytes (tail (fst s)) + bytes (event_batch e) \<le> max_int64"
  shows "journal_known (last_read read [e]) (journal_step json_size e s)
     \<and> recorded (fst (journal_step json_size e s)) k' = recorded (fst s) k' + total (event_batch e) k'
     \<and> bytes (tail (fst (journal_step json_size e s))) \<le> bytes (tail (fst s)) + bytes (event_batch e)"
proof (cases "\<exists>now fresh env ok. e = Crash now fresh env ok")
  case True
  then obtain now fresh env ok where c: "e = Crash now fresh env ok" by blast
  obtain j where j: "journal_inv (fst s, j)" "journal_known (tail_read env) (journal_step json_size e s)"
    "journal_step json_size e s = (if restore_works env then snd (flush ok now (fst s) j) else (fst s, if tail_read env then j else forgotten (fst s) j))"
    unfolding c by (rule start_step [OF k])
  have "bytes (tail (fst s)) \<le> max_int64" using small c by simp
  then have "recorded (fst (snd (flush ok now (fst s) j))) k' = recorded (fst s) k' \<and> bytes (tail (fst (snd (flush ok now (fst s) j)))) \<le> bytes (tail (fst s))"
    using flush_recorded [OF j(1)] by (cases "flush ok now (fst s) j") auto
  then show ?thesis using j(2,3) c by auto
next
  case False
  show ?thesis
  proof (cases read)
    case True
    then have inv: "journal_inv s" using k by (auto simp: journal_known_def)
    have ev: "event_ok e" using e False by (cases e) auto
    have "journal_known True (journal_step json_size e s)" using step_inv [OF inv ev size] by (auto simp: journal_known_def)
    moreover have "last_read read [e]" using True False by (cases e) auto
    ultimately show ?thesis using step_recorded [OF inv ev size small] by simp
  next
    case unread: False
    then have "(\<exists>now ok. e = Flush now ok) \<or> (\<exists>now fl ss. e = Round now False fl ss)" using e False by (cases e) auto
    then have q: "journal_step json_size e s = s" using quiet_step [of s e] k unread by auto
    moreover have "total (event_batch e) k' = 0 \<and> bytes (event_batch e) = 0 \<and> last_read read [e] = read" using e False unread by (cases e) auto
    ultimately show ?thesis using k by simp
  qed
qed

lemma history_batches: "history_ok read evs \<Longrightarrow> (\<forall>s \<in> set (ledger evs). settled s) \<and> 0 \<le> bytes (ledger evs)"
proof (induction evs arbitrary: read)
  case (Cons e evs)
  have "history_ok (last_read read [e]) evs" "(\<forall>s \<in> set (event_batch e). settled s) \<and> 0 \<le> bytes (event_batch e)"
    using Cons.prems settled_bytes [OF batch_settled] batch_settled by (cases e; auto simp: batch_ok_def batch_of_def)+
  then show ?case using Cons.IH by (auto simp: ledger_def)
qed (simp add: ledger_def)

lemma known_run:
  assumes "journal_known read s" "history_ok read evs" "\<forall>xs. 0 < json_size xs" "bytes (tail (fst s)) + bytes (ledger evs) \<le> max_int64"
  shows "journal_known (last_read read evs) (run_journal json_size evs s)
     \<and> recorded (fst (run_journal json_size evs s)) k = recorded (fst s) k + total (ledger evs) k
     \<and> bytes (tail (fst (run_journal json_size evs s))) \<le> bytes (tail (fst s)) + bytes (ledger evs)"
  using assms
proof (induction evs arbitrary: read s)
  case (Cons e evs)
  have hd: "history_ok read [e]" "history_ok (last_read read [e]) evs" "last_read read (e # evs) = last_read (last_read read [e]) evs"
    using Cons.prems(2) by (cases e; simp)+
  have nn: "0 \<le> bytes (ledger evs)" using history_batches [OF hd(2)] by blast
  have lg: "ledger (e # evs) = event_batch e @ ledger evs" by (simp add: ledger_def)
  then have "bytes (tail (fst s)) + bytes (event_batch e) \<le> max_int64" using Cons.prems(4) nn by simp
  note S = known_step [OF Cons.prems(1) hd(1) Cons.prems(3) this, of k]
  have "bytes (tail (fst (journal_step json_size e s))) + bytes (ledger evs) \<le> max_int64" using S Cons.prems(4) lg by simp
  from Cons.IH [OF conjunct1 [OF S] hd(2) Cons.prems(3) this] S show ?case by (simp add: lg hd(3) run_journal_def)
qed (simp add: run_journal_def ledger_def)

lemma history_books:
  assumes g: "trim_space g \<noteq> []" "distinct (map sample_order rows)" and size: "\<forall>xs. 0 < json_size xs"
    and evs: "history_ok True evs" "bytes (ledger evs) \<le> max_int64"
    and s: "run_journal json_size evs (opened g rows) = (db, j)"
  shows "total (stats db) k + total (tail db) k = total rows k + total (ledger evs) k"
    and "last_read True evs \<Longrightarrow> total (stats db) k + total (map snd (pending j)) k = total rows k + total (ledger evs) k"
    and "last_read True evs \<Longrightarrow> bytes (map snd (pending j)) \<le> max_int64"
    and "last_read True evs \<Longrightarrow> \<forall>s \<in> set (map snd (pending j)). settled s"
proof -
  note o = opened_inv [OF g]
  have known: "journal_known True (opened g rows)" using o(1) by (auto simp: journal_known_def)
  have K: "journal_known (last_read True evs) (db, j)" "recorded db k = total rows k + total (ledger evs) k" "bytes (tail db) \<le> bytes (ledger evs)" for k
    using known_run [OF known evs(1) size, of k] evs(2) o s by (simp_all add: recorded_def)
  have small: "bytes (tail db) \<le> max_int64" using K(3) evs(2) by simp
  show "total (stats db) k + total (tail db) k = total rows k + total (ledger evs) k"
    using K(2) by (simp add: recorded_def)
  assume "last_read True evs"
  then have inv: "journal_inv (db, j)" using K(1) by (auto simp: journal_known_def)
  show "total (stats db) k + total (map snd (pending j)) k = total rows k + total (ledger evs) k"
    using K(2) [of k] pending_total(1) [OF inv small, of k] by (simp add: recorded_def)
  show "bytes (map snd (pending j)) \<le> max_int64" "\<forall>s \<in> set (map snd (pending j)). settled s"
    using small pending_total(2,3) [OF inv small] by simp_all
qed

section \<open>Properties\<close>

text \<open>
  C3: the journal refines a ledger. After a history of sampling rounds, flushes and crashes, with any
  transaction of a round or of a flush failing, the minute bucket of the \<open>stats\<close> table plus the durable tail is the initial
  bucket plus everything the committed rounds brought: each committed sample is counted exactly once
  and no rolled-back sample is counted. The same holds of the table plus the samples in memory, which
  is what a history query adds up, when the last start could read the tail. A start may also fail to read the tail, or to move the mirror files; the one condition is that no round
  commits between a start that could not read the tail and the next one that could. Without it the statement is
  false: \<open>failed_restore_overwrites_tail\<close>.
\<close>

theorem journal_refines_ledger:
  assumes "trim_space g \<noteq> []" "distinct (map sample_order rows)" "\<forall>xs. 0 < json_size xs"
    "history_ok True evs" "bytes (ledger evs) \<le> max_int64"
  shows "(let (db, j) = run_journal json_size evs (opened g rows)
     in total (stats db) k + total (tail db) k = total rows k + total (ledger evs) k
      \<and> (last_read True evs \<longrightarrow> total (stats db) k + total (map snd (pending j)) k = total rows k + total (ledger evs) k))"
proof -
  obtain db j where s: "run_journal json_size evs (opened g rows) = (db, j)" by fastforce
  with history_books(1,2) [OF assms s, of k] show ?thesis by simp
qed

text \<open>
  C13: a crash is invisible. Whatever happened before, killing the process and starting it again, on a
  database that can be read, leaves exactly the state a flush would have left at the same moment,
  whether or not that flush succeeds, and so does everything that happens afterwards.
\<close>

theorem crash_is_invisible:
  assumes "trim_space g \<noteq> []" "distinct (map sample_order rows)" "\<forall>xs. 0 < json_size xs"
    "\<forall>e \<in> set evs. event_ok e" "restore_works env"
  shows "run_journal json_size (evs @ Crash now fresh env ok # rest) (opened g rows)
     = run_journal json_size (evs @ Flush now ok # rest) (opened g rows)"
proof -
  have "journal_inv (fold (journal_step json_size) evs (opened g rows))"
    using journal.run_keeps [OF opened_inv(1) [OF assms(1,2)]] assms(3,4) by simp
  from crash_is_flush [OF this assms(5)] show ?thesis by (simp add: run_journal_def)
qed

text \<open>
  the journal never grows beyond its limits. After any history, with any flushes failing, the entry
  table has at most 4096 rows and 16 MiB of payload.
\<close>

lemma journal_table_bounded:
  assumes "trim_space g \<noteq> []" "distinct (map sample_order rows)" "\<forall>xs. 0 < json_size xs" "\<forall>e \<in> set evs. event_ok e"
  shows "(let db = fst (run_journal json_size evs (opened g rows))
     in length (entries db) \<le> 4096 \<and> sum_list (map e_size (entries db)) \<le> 16 * 1024 * 1024)"
proof -
  have "within_capacity (fst (opened g rows))" using opened_inv(4) [OF assms(1,2)] by (simp add: within_capacity_def)
  then have "within_capacity (fst (run_journal json_size evs (opened g rows)))"
    using capacity.run_keeps [of "opened g rows" evs json_size] opened_inv(1) [OF assms(1,2)] assms(3,4)
    by (simp add: run_journal_def)
  then show ?thesis
    by (simp add: within_capacity_def trafficRuntimeJournalEntryMaxRows_def trafficRuntimeJournalEntryMaxBytes_def)
qed

text \<open>
  nothing stays pending for ever: whatever happened before, however many flushes failed and however often
  the process crashed, the first flush whose transaction commits empties the journal, and from then on
  the \<open>stats\<close> table alone is the ledger.
\<close>

lemma flush_settles_the_ledger:
  assumes g: "trim_space g \<noteq> []" "distinct (map sample_order rows)" and size: "\<forall>xs. 0 < json_size xs"
    and evs: "\<forall>e \<in> set evs. event_ok e" "bytes (ledger evs) \<le> max_int64"
  shows "(let (db, j) = run_journal json_size (evs @ [Flush now True]) (opened g rows)
     in entries db = [] \<and> pending j = [] \<and> total (stats db) k = total rows k + total (ledger evs) k)"
proof -
  let ?s = "run_journal json_size evs (opened g rows)" and ?evs = "evs @ [Flush now True]"
  obtain db j where s: "run_journal json_size ?evs (opened g rows) = (db, j)" by fastforce
  have before: "journal_inv ?s"
    using journal.run_keeps [OF opened_inv(1) [OF g], of evs json_size] size evs by (simp add: run_journal_def)
  have step: "(db, j) = snd (flush True now (fst ?s) (snd ?s))"
    using s flush_step [OF before, of json_size now True] by (simp add: run_journal_def del: journal_step.simps)
  have inv: "journal_inv (db, j)" using step_inv [OF before, of "Flush now True" json_size] size s
    by (simp add: run_journal_def del: journal_step.simps)
  have "db = fst (snd (flush True now (fst ?s) (snd ?s)))" using step by (metis fst_conv)
  then have "entries db = []" using flush_eq [of "fst ?s" "snd ?s" True now] before by simp
  moreover have "total (stats db) k + total (tail db) k = total rows k + total (ledger ?evs) k"
    using evs by (intro journal_books(1) [OF g size _ _ s]) (auto simp: ledger_def)
  ultimately show ?thesis using pending_empty [OF inv] by (simp add: s tail_def ledger_def)
qed

text \<open>
  when the entries cannot be read at the start, the tail is not retried but overwritten. The journal
  stays usable with an empty memory and the sequence number of the checkpoint, so the next committed
  round replaces the first entry that was not read: the bytes of that entry are gone from the books.
\<close>

lemma failed_restore_overwrites_tail:
  assumes inv: "journal_inv (db, j)" and e: "entries db = e # es" "e_sequence e = Suc (db_checkpoint db)"
    and env: "\<not> (delete_ok env \<and> select_ok env)"
    and start: "PrepareTrafficRuntimeJournalOnStartup (True, True) fresh env flushes now (db, new_journal) = (started, db1, j1)"
    and st: "stage json_size now' j1 ss = Staged st" "entry_capacity_left st (entries db)" "\<not> flushNow st"
    and s2: "journal_round json_size now' True flushes' ss (db1, j1) = (db2, j2)"
  shows "\<not> started \<and> pending j1 = [] \<and> entries db2 = entry_of st # es
     \<and> recorded db2 k = recorded db k - total (the (e_payload e)) k + total (stg_samples st) k"
proof -
  note D = journal_invD [OF inv]
  have keep: "filter (\<lambda>e. e_generation e = generation j \<longrightarrow> \<not> e_sequence e \<le> db_checkpoint db) (entries db) = entries db"
    using D(7,8) by (auto simp: filter_id_conv list_all_iff entry_ok_def)
  let ?j = "j\<lparr>seqno := db_checkpoint db, pending := []\<rparr>"
  have "restoreIncrementalEntries env now db ?j = (None, db, ?j)"
    using env D(4) keep by (cases "delete_ok env") (simp_all add: restoreIncrementalEntries_def Let_def)
  then have s1: "\<not> started" "db1 = db" "j1 = ?j"
    using start by (auto simp: PrepareTrafficRuntimeJournalOnStartup_def ready_after_crash [OF inv] restore_def)
  have new: "stg_generation st = generation j" "stg_sequence st = Suc (db_checkpoint db)" "ss \<noteq> []"
    using st(1) s1 by (auto simp: stage_def Let_def compactTrafficRuntimeSamples_def sortedTrafficRuntimePendingStats_def split: if_splits)
  have "map (\<lambda>x. if e_generation x = generation j \<and> e_sequence x = Suc (db_checkpoint db) then z else x) es = es" for z
    using D(8) e by (intro map_idI) auto
  then have ins: "insert_entry (entry_of st) (entries db) = entry_of st # es"
    using e new D(7) by (simp add: insert_entry_def entry_of_def entry_ok_def)
  have "db2 = db\<lparr>entries := entry_of st # es\<rparr>"
    using s2 st s1(2) new(3) ins
    by (simp add: journal_round_def stageTrafficRuntimeStatsForTransaction_def persistTrafficRuntimeJournalStage_def Let_def)
  then show ?thesis using s1 e by (simp add: recorded_def tail_def entry_of_def)
qed

lemma database_restore_starts_clean:
  assumes "trim_space g \<noteq> []" "distinct (map sample_order (stats db))" "fresh \<noteq> None"
  shows "(let (done, db', j') = InvalidateTrafficRuntimeJournalForDatabaseRestore (True, True) True quarantined fresh (Some g) db j
     in done = quarantined \<and> journal_inv (db', j') \<and> stats db' = stats db \<and> tail db' = [] \<and> pending j' = [])"
  using assms
  by (auto simp: InvalidateTrafficRuntimeJournalForDatabaseRestore_def rotateGenerationForDatabaseRestore_def
      resetForDatabaseReloadLocked_def ensureReady_def journal_inv_def tail_def)

section \<open>Examples\<close>

definition ex_sample :: "int \<Rightarrow> int \<Rightarrow> Stats" where
  "ex_sample t n = \<lparr>st_DateTime = t, Resource = ''inbound'', st_Tag = ''a'', Direction = True, Traffic = n\<rparr>"

definition ex_size :: "Stats list \<Rightarrow> nat" where
  "ex_size ss = 2 + 80 * length ss"

definition ex_env :: restore_env where
  "ex_env = \<lparr>delete_ok = True, select_ok = True, discard_ok = True, files_ok = True, mirror_ok = True\<rparr>"

definition ex_history :: "journal_event list" where
  "ex_history = [Round 120 True False [ex_sample 125 100, ex_sample 0 7], Round 130 False False [ex_sample 130 9], Crash 150 None ex_env False]"

lemma ex_simps: "\<forall>xs. 0 < ex_size xs" "trim_space ''g'' \<noteq> []" "restore_works ex_env" "\<forall>e \<in> set ex_history. event_ok e"
  "bytes (ledger ex_history) = 107" "distinct (map sample_order [ex_sample 60 1])"
  by (simp add: ex_size_def, code_simp+)

definition ex_troubled :: "journal_event list" where
  \<comment> \<open>a start that cannot read the entries, a round that is rolled back, and a start that can\<close>
  "ex_troubled = ex_history @ [Crash 160 None (ex_env\<lparr>select_ok := False\<rparr>) True, Round 165 False False [ex_sample 165 3], Flush 170 True, Crash 180 None ex_env False]"

theorem journal_refines_ledger_witness:
  "(let (db, j) = run_journal ex_size ex_troubled (opened ''g'' [ex_sample 60 1])
     in total (stats db) (120, ''inbound'', ''a'', True) + total (tail db) (120, ''inbound'', ''a'', True) = 107
      \<and> total (stats db) (120, ''inbound'', ''a'', True) + total (map snd (pending j)) (120, ''inbound'', ''a'', True) = 107)"
proof -
  have ok: "history_ok True ex_troubled" "last_read True ex_troubled" by code_simp+
  have led: "ledger ex_troubled = ledger ex_history" by (simp add: ex_troubled_def ledger_def)
  have "bytes (ledger ex_troubled) \<le> max_int64" unfolding led by (simp add: ex_simps int64_defs)
  moreover have "total [ex_sample 60 1] (120, ''inbound'', ''a'', True) = 0" "total (ledger ex_troubled) (120, ''inbound'', ''a'', True) = 107"
    unfolding led by code_simp+
  ultimately show ?thesis
    using journal_refines_ledger [OF ex_simps(2,6,1) ok(1), of "(120, ''inbound'', ''a'', True)"] ok(2) by (simp add: case_prod_beta)
qed

theorem flush_settles_the_ledger_example:
  "(let (db, j) = run_journal ex_size (ex_history @ [Flush 200 True]) (opened ''g'' [ex_sample 60 1])
     in entries db = [] \<and> pending j = [] \<and> total (stats db) (120, ''inbound'', ''a'', True) = 107)"
proof -
  have "bytes (ledger ex_history) \<le> max_int64" by (simp add: ex_simps int64_defs)
  moreover have "total [ex_sample 60 1] (120, ''inbound'', ''a'', True) = 0" "total (ledger ex_history) (120, ''inbound'', ''a'', True) = 107"
    by code_simp+
  ultimately show ?thesis
    using flush_settles_the_ledger [OF ex_simps(2,6,1,4), of 200 "(120, ''inbound'', ''a'', True)"] by (simp add: case_prod_beta)
qed

theorem crash_is_invisible_witness:
  "run_journal ex_size (ex_history @ Crash 200 None ex_env True # []) (opened ''g'' [ex_sample 60 1])
     = run_journal ex_size (ex_history @ Flush 200 True # []) (opened ''g'' [ex_sample 60 1])"
  by (rule crash_is_invisible [OF ex_simps(2,6,1,4,3)])

theorem journal_table_bounded_example:
  "(let db = fst (run_journal ex_size ex_history (opened ''g'' [ex_sample 60 1]))
     in length (entries db) \<le> 4096 \<and> sum_list (map e_size (entries db)) \<le> 16 * 1024 * 1024)"
  by (rule journal_table_bounded [OF ex_simps(2,6,1,4)])

definition ex_tail :: "journal_db \<times> journal" where
  "ex_tail = run_journal ex_size [Round 120 True False [ex_sample 125 100], Round 130 True False [ex_sample 130 50]] (opened ''g'' [])"

definition ex_failed :: restore_env where
  "ex_failed = ex_env\<lparr>select_ok := False\<rparr>"

definition ex_restarted :: "bool \<times> journal_db \<times> journal" where
  "ex_restarted = PrepareTrafficRuntimeJournalOnStartup (True, True) None ex_failed True 140 (fst ex_tail, new_journal)"

definition ex_after :: "journal_db \<times> journal" where
  "ex_after = journal_round ex_size 150 True True [ex_sample 150 9] (snd ex_restarted)"

lemma ex_tail_inv: "journal_inv ex_tail"
proof -
  have "\<forall>e \<in> set [Round 120 True False [ex_sample 125 100], Round 130 True False [ex_sample 130 50]]. event_ok e" by code_simp
  moreover have "journal_inv (opened ''g'' [])" by (intro opened_inv(1) ex_simps(2)) simp
  ultimately show ?thesis
    unfolding ex_tail_def run_journal_def using ex_simps(1) by (intro journal.run_keeps) blast+
qed

lemmas journal_limits = trafficRuntimeJournalMaxBytes_def trafficRuntimeJournalEntryMaxRows_def
  trafficRuntimeJournalEntryMaxBytes_def trafficRuntimeJournalPendingLimit_def

lemma ex_compact: "compactTrafficRuntimeSamples 120 [ex_sample 125 100] = [ex_sample 120 100]"
    "compactTrafficRuntimeSamples 130 [ex_sample 130 50] = [ex_sample 120 50]"
    "compactTrafficRuntimeSamples 150 [ex_sample 150 9] = [ex_sample 120 9]"
    "add_all 120 [] [ex_sample 120 100] = [(trafficRuntimeJournalSampleKey (ex_sample 120 100), ex_sample 120 100)]"
    "add_all 130 [(trafficRuntimeJournalSampleKey (ex_sample 120 100), ex_sample 120 100)] [ex_sample 120 50]
      = [(trafficRuntimeJournalSampleKey (ex_sample 120 150), ex_sample 120 150)]"
    "opened ''g'' [] = (\<lparr>stats = [], meta_generation = ''g'', db_checkpoint = 0, staged = None, entries = []\<rparr>,
      \<lparr>initialized = True, generation = ''g'', checkpoint = 0, seqno = 0, pending = []\<rparr>)"
  by code_simp+

lemma ex_tail_eq:
  "ex_tail = (\<lparr>stats = [], meta_generation = ''g'', db_checkpoint = 0, staged = None,
       entries = [\<lparr>e_generation = ''g'', e_sequence = 1, e_payload = Some [ex_sample 120 100], e_size = 82\<rparr>,
                  \<lparr>e_generation = ''g'', e_sequence = 2, e_payload = Some [ex_sample 120 50], e_size = 82\<rparr>]\<rparr>,
     \<lparr>initialized = True, generation = ''g'', checkpoint = 0, seqno = 2,
      pending = [(trafficRuntimeJournalSampleKey (ex_sample 120 150), ex_sample 120 150)]\<rparr>)"
  by (simp add: ex_tail_def run_journal_def ex_compact journal_round_def stageTrafficRuntimeStatsForTransaction_def stage_def Let_def
      ex_size_def journal_limits persistTrafficRuntimeJournalStage_def entry_capacity_left_def insert_entry_def entry_of_def commitStage_def
      del: add_all_simps)

lemma ex_restarted_eq:
  "ex_restarted = (False, fst ex_tail, \<lparr>initialized = True, generation = ''g'', checkpoint = 0, seqno = 0, pending = []\<rparr>)"
proof -
  have "trim_space ''g'' = ''g''" by code_simp
  then show ?thesis
    by (simp add: ex_restarted_def ex_tail_eq PrepareTrafficRuntimeJournalOnStartup_def ensureReady_def new_journal_def
        restore_def restoreIncrementalEntries_def ex_failed_def ex_env_def Let_def)
qed

theorem failed_restore_overwrites_tail_example:
  "\<not> fst ex_restarted \<and> recorded (fst ex_tail) (120, ''inbound'', ''a'', True) = 150
     \<and> recorded (fst ex_after) (120, ''inbound'', ''a'', True) = 59"
proof -
  let ?k = "(120, ''inbound'', ''a'', True)" and ?j = "\<lparr>initialized = True, generation = ''g'', checkpoint = 0, seqno = 0, pending = []\<rparr>"
  let ?st = "\<lparr>stg_generation = ''g'', stg_sequence = 1, stg_size = 82, flushNow = False, stg_samples = [ex_sample 120 9]\<rparr>"
  have st: "stage ex_size 150 ?j [ex_sample 150 9] = Staged ?st"
    by (simp add: stage_def ex_compact ex_size_def journal_limits)
  have c: "entry_capacity_left ?st (entries (fst ex_tail))" by (simp add: ex_tail_eq entry_capacity_left_def journal_limits)
  have f: "\<not> (delete_ok ex_failed \<and> select_ok ex_failed)" by code_simp
  have r: "recorded (fst ex_tail) ?k = 150" by (simp add: ex_tail_eq recorded_def tail_def ex_sample_def sample_order_def)
  have inv: "journal_inv (fst ex_tail, snd ex_tail)" using ex_tail_inv by simp
  have start: "PrepareTrafficRuntimeJournalOnStartup (True, True) None ex_failed True 140 (fst ex_tail, new_journal) = (False, fst ex_tail, ?j)"
    using ex_restarted_eq by (simp only: ex_restarted_def)
  have after: "journal_round ex_size 150 True True [ex_sample 150 9] (fst ex_tail, ?j) = (fst ex_after, snd ex_after)"
    by (simp add: ex_after_def ex_restarted_eq)
  have "recorded (fst ex_after) ?k = recorded (fst ex_tail) ?k - 100 + 9"
    using failed_restore_overwrites_tail [OF inv _ _ f start st c _ after, where k = ?k]
    by (simp add: ex_tail_eq ex_sample_def sample_order_def)
  then show ?thesis by (simp add: r ex_restarted_eq)
qed

end
