(* ===== verification/Traffic_History.thy ===== *)
theory Traffic_History
  imports Traffic_Recovery
begin

text \<open>
  The traffic history a client asks for (\<open>queryStatsHistory\<close> in \<open>service/stats_storage.go\<close> and the
  snapshot of the pending samples in \<open>service/traffic_runtime_journal.go\<close>). The \<open>SELECT\<close> is
  modelled on the list of rows: its filter, its grouping by bucket and direction with exact sums, and its
  order. Go maps are association lists in the order of insertion; every result is sorted by a key
  that is unique, so the order of a Go map does not show. Times are positive, where the truncating
  division of Go and SQLite is \<open>div\<close>, and a duration in hours is within the range of nanoseconds.

  The lemmas add up the buckets of an answer and compose with \<open>Traffic_Recovery\<close>: an answer shows
  the ledger, except for the resource \<open>endpoint\<close>.
\<close>

section \<open>The query\<close>

definition statsQueryResources :: "string \<Rightarrow> string list" where
  "statsQueryResources resource =
     (let r = to_lower (trim_space resource)
      in if r = ''endpoint'' then [''inbound'', ''outbound'']
         else if r = ''client'' then [''client'', ''user'']
         else if r = ''mihomo_client'' then [''mihomo_client'', ''mihomo_user'']
         else [trim_space resource])"

definition statsQueryBucketSeconds :: "int \<Rightarrow> int" where
  "statsQueryBucketSeconds limitHours =
     (if limitHours \<le> 6 then 60 else if limitHours \<le> 24 then 300 else if limitHours \<le> 72 then 900
      else if limitHours \<le> 240 then 1800 else if limitHours \<le> 720 then 10800 else 21600)"

definition bucket_key :: "Stats \<Rightarrow> string" where
  "bucket_key s = itoa (st_DateTime s) @ [CHR 0x00] @ (if Direction s then ''true'' else ''false'')"

definition add_bucket :: "(int \<Rightarrow> int \<Rightarrow> int) \<Rightarrow> pending_map \<Rightarrow> Stats \<Rightarrow> pending_map" where
  \<comment> \<open>one step of the loops that fill \<open>combined\<close> and \<open>merged\<close>, and of \<open>GROUP BY\<close>\<close>
  "add_bucket pl p s =
     (case map_of p (bucket_key s) of
        Some _ \<Rightarrow> map (\<lambda>(k, c). if k = bucket_key s then (k, c\<lparr>Traffic := pl (Traffic c) (Traffic s)\<rparr>) else (k, c)) p
      | None \<Rightarrow> p @ [(bucket_key s, s)])"

definition add64 :: "int \<Rightarrow> int \<Rightarrow> int" where
  "add64 a b = wrap64 (a + b)"

definition sortedPendingTrafficStats :: "pending_map \<Rightarrow> Stats list" where
  "sortedPendingTrafficStats p = sort_key (\<lambda>s. (st_DateTime s, Direction s)) (map snd p)"

definition pick :: "int \<Rightarrow> string \<Rightarrow> Stats \<Rightarrow> Stats" where
  "pick bucketSeconds resource s = s\<lparr>st_DateTime := st_DateTime s div bucketSeconds * bucketSeconds, Resource := resource\<rparr>"

definition pendingTrafficRuntimeStatsFromSamples :: "Stats list \<Rightarrow> string \<Rightarrow> string \<Rightarrow> int \<Rightarrow> int \<Rightarrow> Stats list" where
  "pendingTrafficRuntimeStatsFromSamples samples resource tag startUnix bucketSeconds =
     (let resource' = normalizeStatsResource resource; tag' = trim_space tag;
          allowed = map normalizeStatsResource (statsQueryResources resource')
      in if resource' = [] \<or> tag' = [] then []
         else sortedPendingTrafficStats (foldl (add_bucket add64) []
                (map (pick bucketSeconds resource')
                  (filter (\<lambda>s. normalizeStatsResource (Resource s) \<in> set allowed \<and> st_Tag s = tag' \<and> startUnix \<le> st_DateTime s) samples))))"

definition snapshotPendingForQuery :: "pending_map \<Rightarrow> string \<Rightarrow> string \<Rightarrow> int \<Rightarrow> int \<Rightarrow> Stats list" where
  "snapshotPendingForQuery p resource tag startUnix bucketSeconds =
     (if bucketSeconds \<le> 0 then [] else pendingTrafficRuntimeStatsFromSamples (map snd p) resource tag startUnix bucketSeconds)"

definition mergePendingTrafficRuntimeStatsWithSamples :: "Stats list \<Rightarrow> Stats list \<Rightarrow> string \<Rightarrow> string \<Rightarrow> int \<Rightarrow> int \<Rightarrow> Stats list" where
  "mergePendingTrafficRuntimeStatsWithSamples rows pendingSamples resource tag startUnix bucketSeconds =
     (let p = pendingTrafficRuntimeStatsFromSamples pendingSamples resource tag startUnix bucketSeconds
      in if p = [] then rows
         else sortedPendingTrafficStats (foldl (add_bucket add64) (map (\<lambda>r. (bucket_key r, r)) rows) p))"

definition query_rows :: "string \<Rightarrow> string \<Rightarrow> int \<Rightarrow> int \<Rightarrow> Stats list \<Rightarrow> Stats list" where
  \<comment> \<open>the \<open>SELECT\<close> with its \<open>GROUP BY\<close> and \<open>ORDER BY\<close>\<close>
  "query_rows resource tag startUnix bucketSeconds rows =
     sortedPendingTrafficStats (foldl (add_bucket (+)) []
       (map (pick bucketSeconds resource)
         (filter (\<lambda>s. Resource s \<in> set (statsQueryResources resource) \<and> st_Tag s = tag \<and> startUnix \<le> st_DateTime s) rows)))"

definition queryStatsHistory :: "int \<Rightarrow> string \<Rightarrow> string \<Rightarrow> int \<Rightarrow> Stats list \<Rightarrow> pending_map \<Rightarrow> Stats list" where
  "queryStatsHistory now resource tag limitHours rows p =
     (let r = trim_space resource; g = trim_space tag; h = (if limitHours \<le> 0 then 1 else limitHours);
          startUnix = now - h * 3600; b = statsQueryBucketSeconds h
      in if r = [] \<or> g = [] then []
         else mergePendingTrafficRuntimeStatsWithSamples (query_rows r g startUnix b rows)
                (snapshotPendingForQuery p r g startUnix b) r g startUnix b)"

section \<open>Sums over buckets\<close>

definition in_bucket :: "Stats list \<Rightarrow> int \<Rightarrow> bool \<Rightarrow> int" where
  "in_bucket ss t d = (\<Sum>s\<leftarrow>ss. if st_DateTime s = t \<and> Direction s = d then Traffic s else 0)"

definition buckets_ok :: "pending_map \<Rightarrow> bool" where
  "buckets_ok p \<longleftrightarrow> distinct (map fst p) \<and> (\<forall>(k, s) \<in> set p. k = bucket_key s)"

lemma in_bucket_simps [simp]: "in_bucket [] t d = 0"
  "in_bucket (s # ss) t d = (if st_DateTime s = t \<and> Direction s = d then Traffic s else 0) + in_bucket ss t d"
  "in_bucket (ss @ ss') t d = in_bucket ss t d + in_bucket ss' t d"
  by (simp_all add: in_bucket_def)

lemma in_bucket_sort [simp]: "in_bucket (sort_key f ss) t d = in_bucket ss t d"
  by (simp add: in_bucket_def sum_list_sort_key)

lemma in_bucket_nonneg: "\<forall>s \<in> set ss. 0 \<le> Traffic s \<Longrightarrow> 0 \<le> in_bucket ss t d"
  by (induction ss) auto

lemma in_bucket_absent: "(t, d) \<notin> (\<lambda>s. (st_DateTime s, Direction s)) ` set ss \<Longrightarrow> in_bucket ss t d = 0"
  by (induction ss) (auto simp: image_iff)

lemma bucket_key_inj: "bucket_key s = bucket_key s' \<longleftrightarrow> st_DateTime s = st_DateTime s' \<and> Direction s = Direction s'"
proof
  assume k: "bucket_key s = bucket_key s'"
  from split_first [OF k [unfolded bucket_key_def] itoa_no_nul itoa_no_nul]
  have "itoa (st_DateTime s) = itoa (st_DateTime s')" "(if Direction s then ''true'' else ''false'') = (if Direction s' then ''true'' else ''false'')"
    by simp_all
  then show "st_DateTime s = st_DateTime s' \<and> Direction s = Direction s'" using itoa_inj by (auto split: if_splits)
qed (simp add: bucket_key_def)

lemma in_bucket_own:
  assumes p: "buckets_ok p" and c: "(k, c) \<in> set p"
  shows "in_bucket (map snd p) (st_DateTime c) (Direction c) = Traffic c"
proof -
  from c obtain xs ys where p': "p = xs @ (k, c) # ys" by (meson split_list)
  have k: "k = bucket_key c" "\<forall>(k, s) \<in> set p. k = bucket_key s" "distinct (map fst p)" using p c by (auto simp: buckets_ok_def)
  have absent: "in_bucket (map snd zs) (st_DateTime c) (Direction c) = 0" if "k \<notin> fst ` set zs" "set zs \<subseteq> set p" for zs
  proof (rule in_bucket_absent)
    show "(st_DateTime c, Direction c) \<notin> (\<lambda>s. (st_DateTime s, Direction s)) ` set (map snd zs)"
    proof
      assume "(st_DateTime c, Direction c) \<in> (\<lambda>s. (st_DateTime s, Direction s)) ` set (map snd zs)"
      then obtain l x where x: "(l, x) \<in> set zs" "bucket_key x = k" using bucket_key_inj [of _ c] k(1) by fastforce
      then have "l = k" using k(2) that(2) by auto
      with x(1) that(1) show False by force
    qed
  qed
  have "k \<notin> fst ` set xs" "k \<notin> fst ` set ys" using k(3) p' by auto
  moreover have "set xs \<subseteq> set p" "set ys \<subseteq> set p" using p' by auto
  ultimately show ?thesis using absent [of xs] absent [of ys] by (simp add: p')
qed

lemma add_bucket_step:
  assumes p: "buckets_ok p"
    and add: "pl (in_bucket (map snd p) (st_DateTime s) (Direction s)) (Traffic s) = in_bucket (map snd p) (st_DateTime s) (Direction s) + Traffic s"
  shows "buckets_ok (add_bucket pl p s)
    \<and> in_bucket (map snd (add_bucket pl p s)) t d = in_bucket (map snd p) t d + (if st_DateTime s = t \<and> Direction s = d then Traffic s else 0)"
proof (cases "map_of p (bucket_key s)")
  case None
  then have "bucket_key s \<notin> fst ` set p" by (simp add: map_of_eq_None_iff)
  with None p show ?thesis by (auto simp: add_bucket_def buckets_ok_def)
next
  case (Some c)
  let ?key = "bucket_key s"
  have mem: "(?key, c) \<in> set p" by (rule map_of_SomeD [OF Some])
  then obtain xs ys where p': "p = xs @ (?key, c) # ys" by (meson split_list)
  have k: "\<forall>(k, s) \<in> set p. k = bucket_key s" "distinct (map fst p)" using p by (simp_all add: buckets_ok_def)
  have fresh: "?key \<notin> fst ` set xs" "?key \<notin> fst ` set ys" using k(2) p' by auto
  have c: "?key = bucket_key c" "st_DateTime c = st_DateTime s" "Direction c = Direction s"
    using k(1) mem bucket_key_inj [of s c] by auto
  have pl: "pl (Traffic c) (Traffic s) = Traffic c + Traffic s" using add in_bucket_own [OF p mem] c by simp
  have same: "map (\<lambda>(k, x). if k = ?key then (k, x\<lparr>Traffic := pl (Traffic x) (Traffic s)\<rparr>) else (k, x)) zs = zs"
    if "?key \<notin> fst ` set zs" for zs
    using that by (intro map_idI) (auto simp: image_iff)
  have q: "add_bucket pl p s = xs @ (?key, c\<lparr>Traffic := Traffic c + Traffic s\<rparr>) # ys"
    using Some same [OF fresh(1)] same [OF fresh(2)] by (simp add: add_bucket_def p' pl)
  have "bucket_key (c\<lparr>Traffic := Traffic c + Traffic s\<rparr>) = ?key" by (simp add: c(2,3) bucket_key_def)
  with k c show ?thesis unfolding q unfolding p' by (simp add: buckets_ok_def)
qed

lemma add_buckets_sql:
  assumes "buckets_ok p"
  shows "buckets_ok (foldl (add_bucket (+)) p ss)
    \<and> in_bucket (map snd (foldl (add_bucket (+)) p ss)) t d = in_bucket (map snd p) t d + in_bucket ss t d"
  using assms
proof (induction ss arbitrary: p)
  case (Cons s ss)
  from add_bucket_step [OF Cons.prems, of "(+)" s t d] Cons.IH [of "add_bucket (+) p s"] show ?case by simp
qed simp

lemma add_buckets_go:
  assumes "buckets_ok p" "\<forall>s \<in> set ss. 0 \<le> Traffic s"
    "\<forall>t d. min_int64 \<le> in_bucket (map snd p) t d \<and> in_bucket (map snd p) t d + in_bucket ss t d \<le> max_int64"
  shows "buckets_ok (foldl (add_bucket add64) p ss)
    \<and> in_bucket (map snd (foldl (add_bucket add64) p ss)) t d = in_bucket (map snd p) t d + in_bucket ss t d"
  using assms
proof (induction ss arbitrary: p)
  case (Cons s ss)
  let ?old = "in_bucket (map snd p) (st_DateTime s) (Direction s)"
  have n: "0 \<le> Traffic s" "\<And>t d. 0 \<le> in_bucket ss t d" using Cons.prems(2) by (auto intro: in_bucket_nonneg)
  have "min_int64 \<le> ?old" "?old + Traffic s \<le> max_int64"
    using Cons.prems(3) [rule_format, of "st_DateTime s" "Direction s"] n(2) [of "st_DateTime s" "Direction s"] by simp_all
  then have w: "add64 ?old (Traffic s) = ?old + Traffic s"
    unfolding add64_def using n(1) by (intro wrap64_id) (simp add: in_int64_def)
  note step = add_bucket_step [OF Cons.prems(1), of add64 s, OF w]
  have "min_int64 \<le> in_bucket (map snd (add_bucket add64 p s)) t d \<and> in_bucket (map snd (add_bucket add64 p s)) t d + in_bucket ss t d \<le> max_int64" for t d
    using Cons.prems(3) [rule_format, of t d] step [of t d] n(1) by simp
  with Cons.IH [of "add_bucket add64 p s"] step [of t d] Cons.prems(2) show ?case by simp
qed simp

lemma add_buckets_keep:
  assumes "\<And>s n. Q s \<Longrightarrow> Q (s\<lparr>Traffic := n\<rparr>)" "\<forall>s \<in> set (map snd p). Q s" "\<forall>s \<in> set ss. Q s"
  shows "\<forall>s \<in> set (map snd (foldl (add_bucket pl) p ss)). Q s"
  using assms(2,3)
proof (induction ss arbitrary: p)
  case (Cons s ss)
  have "\<forall>x \<in> set (map snd (add_bucket pl p s)). Q x"
    using Cons.prems assms(1) by (auto simp: add_bucket_def split: option.splits)
  with Cons show ?case by simp
qed simp

lemma sorted_buckets:
  assumes "buckets_ok p"
  shows "sorted_wrt (<) (map (\<lambda>s. (st_DateTime s, Direction s)) (sortedPendingTrafficStats p))"
proof -
  let ?f = "\<lambda>s. (st_DateTime s, Direction s)"
  have d: "distinct (map fst p)" and k: "fst z = bucket_key (snd z)" if "z \<in> set p" for z
    using assms that by (auto simp: buckets_ok_def)
  have "inj_on (?f \<circ> snd) (set p)"
  proof (rule inj_onI)
    fix x y assume xy: "x \<in> set p" "y \<in> set p" "(?f \<circ> snd) x = (?f \<circ> snd) y"
    then have f: "fst x = fst y" using bucket_key_inj [of "snd x" "snd y"] k [of x] k [of y] by simp
    have "(fst x, snd x) \<in> set p" using xy(1) by simp
    moreover have "(fst x, snd y) \<in> set p" using xy(2) f by simp
    ultimately have "snd x = snd y" by (rule eq_key_imp_eq_value [OF d [OF xy(1)]])
    with f show "x = y" by (rule prod_eqI)
  qed
  moreover have "distinct p" using assms by (simp add: buckets_ok_def distinct_map)
  ultimately have "distinct (map (?f \<circ> snd) p)" by (simp only: distinct_map)
  moreover have "mset (map ?f (sort_key ?f (map snd p))) = mset (map (?f \<circ> snd) p)" by (simp only: mset_map mset_sort multiset.map_comp)
  ultimately have "distinct (map ?f (sort_key ?f (map snd p)))" using mset_eq_imp_distinct_iff by blast
  moreover have "sorted (map ?f (sort_key ?f (map snd p)))" by (rule sorted_sort_key)
  ultimately show ?thesis unfolding sortedPendingTrafficStats_def strict_sorted_iff by blast
qed

section \<open>What a query adds up\<close>

definition picked :: "(int \<times> string \<times> string \<times> bool \<Rightarrow> bool) \<Rightarrow> Stats list \<Rightarrow> int" where
  "picked P ss = (\<Sum>s\<leftarrow>ss. if P (sample_order s) then Traffic s else 0)"

lemma picked_simps [simp]: "picked P [] = 0" "picked P (s # ss) = (if P (sample_order s) then Traffic s else 0) + picked P ss"
  "picked P (ss @ ts) = picked P ss + picked P ts"
  by (simp_all add: picked_def)

lemma picked_total:
  assumes "finite K" "sample_order ` set ss \<subseteq> K"
  shows "picked P ss = (\<Sum>k\<in>K. if P k then total ss k else 0)"
  using assms(2)
proof (induction ss)
  case (Cons s ss)
  have "(\<Sum>k\<in>K. if P k then total (s # ss) k else 0)
      = (\<Sum>k\<in>K. (if sample_order s = k then (if P k then Traffic s else 0) else 0) + (if P k then total ss k else 0))"
    by (intro sum.cong) auto
  also have "\<dots> = (if P (sample_order s) then Traffic s else 0) + picked P ss"
    using Cons assms(1) by (simp add: sum.distrib cong: if_cong)
  finally show ?case by simp
qed (simp cong: if_cong)

lemma picked_cong:
  assumes "\<And>k. total xs k = total ys k"
  shows "picked P xs = picked P ys"
proof -
  let ?K = "sample_order ` set (xs @ ys)"
  have "picked P xs = (\<Sum>k\<in>?K. if P k then total xs k else 0)" by (intro picked_total) auto
  also have "\<dots> = (\<Sum>k\<in>?K. if P k then total ys k else 0)" using assms by (simp cong: if_cong)
  also have "\<dots> = picked P ys" by (intro picked_total [symmetric]) auto
  finally show ?thesis .
qed

lemma picked_bounds: "\<forall>s \<in> set ss. 0 \<le> Traffic s \<Longrightarrow> 0 \<le> picked P ss \<and> picked P ss \<le> bytes ss"
  by (induction ss) auto

definition asked :: "int \<Rightarrow> int \<Rightarrow> string \<Rightarrow> string \<Rightarrow> int \<Rightarrow> bool \<Rightarrow> int \<times> string \<times> string \<times> bool \<Rightarrow> bool" where
  \<comment> \<open>the samples that belong to a row of the answer\<close>
  "asked startUnix b resource tag t d k \<longleftrightarrow> (case k of (t', resource', tag', d') \<Rightarrow>
     t' div b * b = t \<and> resource' \<in> set (statsQueryResources resource) \<and> tag' = tag \<and> d' = d \<and> startUnix \<le> t')"

lemma in_bucket_pick:
  "in_bucket (map (pick b resource) (filter P ss)) t d
     = (\<Sum>s\<leftarrow>ss. if P s \<and> st_DateTime s div b * b = t \<and> Direction s = d then Traffic s else 0)"
  by (induction ss) (auto simp: pick_def)

lemma query_rows_sum:
  "sorted_wrt (<) (map (\<lambda>s. (st_DateTime s, Direction s)) (query_rows resource tag startUnix b rows))
   \<and> in_bucket (query_rows resource tag startUnix b rows) t d = picked (asked startUnix b resource tag t d) rows"
proof -
  have "buckets_ok []" by (simp add: buckets_ok_def)
  from add_buckets_sql [OF this] sorted_buckets show ?thesis
    by (auto simp: query_rows_def sortedPendingTrafficStats_def in_bucket_pick picked_def asked_def sample_order_def intro!: arg_cong [of _ _ sum_list])
qed

lemma statsQueryResources_allowed:
  assumes r: "r \<in> set (statsQueryResources r)" "normalizeStatsResource r = r" and s: "normalizeStatsResource x = x"
  shows "x \<in> set (map normalizeStatsResource (statsQueryResources r)) \<longleftrightarrow> x \<in> set (statsQueryResources r)"
proof -
  have n: "normalizeStatsResource ''client'' = ''client''" "normalizeStatsResource ''user'' = ''client''"
    "normalizeStatsResource ''mihomo_client'' = ''mihomo_client''" "normalizeStatsResource ''mihomo_user'' = ''mihomo_client''"
    "normalizeStatsResource ''inbound'' = ''inbound''" "normalizeStatsResource ''outbound'' = ''outbound''" by code_simp+
  have "statsQueryResources r \<in> {[''inbound'', ''outbound''], [''client'', ''user''], [''mihomo_client'', ''mihomo_user''], [r]}"
    using r(1) by (auto simp: statsQueryResources_def Let_def split: if_splits)
  with r s n show ?thesis by auto
qed

lemma pending_pass:
  assumes b: "0 < b" and r: "r \<in> set (statsQueryResources r)" "normalizeStatsResource r = r" "r \<noteq> []"
    and g: "trim_space g = g" "g \<noteq> []"
    and ss: "\<forall>s \<in> set ss. 0 \<le> Traffic s \<and> normalizeStatsResource (Resource s) = Resource s"
      "\<forall>t d. picked (asked startUnix b r g t d) ss \<le> max_int64"
    and q: "q = pendingTrafficRuntimeStatsFromSamples ss r g startUnix b"
  shows "in_bucket q t d = picked (asked startUnix b r g t d) ss"
    "\<forall>s \<in> set q. 0 \<le> Traffic s \<and> Resource s = r \<and> st_Tag s = g \<and> st_DateTime s div b * b = st_DateTime s"
proof -
  let ?P = "\<lambda>s. normalizeStatsResource (Resource s) \<in> set (map normalizeStatsResource (statsQueryResources r)) \<and> st_Tag s = g \<and> startUnix \<le> st_DateTime s"
  let ?in = "map (pick b r) (filter ?P ss)" let ?p = "foldl (add_bucket add64) [] ?in"
  have sum: "in_bucket ?in t d = picked (asked startUnix b r g t d) ss" for t d
    unfolding in_bucket_pick picked_def
    using ss(1) statsQueryResources_allowed [OF r(1,2)]
    by (intro arg_cong [of _ _ sum_list] map_cong) (auto simp: asked_def sample_order_def)
  have nonneg: "\<forall>s \<in> set ?in. 0 \<le> Traffic s" using ss(1) by (auto simp: pick_def)
  have ok: "buckets_ok []" by (simp add: buckets_ok_def)
  have "min_int64 \<le> in_bucket (map snd []) t d \<and> in_bucket (map snd []) t d + in_bucket ?in t d \<le> max_int64" for t d
    using picked_bounds [of ss "asked startUnix b r g t d"] ss unfolding sum by (simp add: int64_defs)
  then have p: "buckets_ok ?p" "in_bucket (map snd ?p) t d = picked (asked startUnix b r g t d) ss" for t d
    using add_buckets_go [OF ok nonneg] sum by auto
  have q': "q = sortedPendingTrafficStats ?p" using r g by (simp add: q pendingTrafficRuntimeStatsFromSamples_def)
  show "in_bucket q t d = picked (asked startUnix b r g t d) ss"
    unfolding q' sortedPendingTrafficStats_def using p(2) by simp
  let ?Q = "\<lambda>s. Resource s = r \<and> st_Tag s = g \<and> st_DateTime s div b * b = st_DateTime s"
  have fields: "\<forall>s \<in> set (map snd ?p). ?Q s"
    using b by (intro add_buckets_keep) (auto simp: pick_def)
  have "0 \<le> Traffic s" if "(k, s) \<in> set ?p" for k s
    using in_bucket_own [OF p(1) that] p(2) [of "st_DateTime s" "Direction s"] picked_bounds [of ss] ss(1) by metis
  with fields show "\<forall>s \<in> set q. 0 \<le> Traffic s \<and> Resource s = r \<and> st_Tag s = g \<and> st_DateTime s div b * b = st_DateTime s"
    unfolding q' sortedPendingTrafficStats_def by fastforce
qed

lemma merge_ok:
  assumes "sorted_wrt (<) (map (\<lambda>s. (st_DateTime s, Direction s)) rows)"
  shows "buckets_ok (map (\<lambda>r. (bucket_key r, r)) rows)"
proof -
  have "distinct (map (\<lambda>s. (st_DateTime s, Direction s)) rows)" using assms by (simp add: strict_sorted_iff)
  then have "distinct (map bucket_key rows)"
    by (auto simp: distinct_map inj_on_def bucket_key_inj)
  then show ?thesis by (auto simp: buckets_ok_def comp_def)
qed

lemma picked_rows:
  assumes "\<forall>s \<in> set ss. Resource s = r \<and> st_Tag s = g \<and> st_DateTime s div b * b = st_DateTime s" "r \<in> set (statsQueryResources r)"
  shows "picked (asked startUnix b r g t d) ss = (if startUnix \<le> t then in_bucket ss t d else 0)"
  using assms(1) by (induction ss) (auto simp: asked_def sample_order_def assms(2))

lemma bucket_seconds_pos: "0 < statsQueryBucketSeconds h"
  by (simp add: statsQueryBucketSeconds_def)

lemma query_sum:
  assumes r: "r \<in> set (statsQueryResources r)" "normalizeStatsResource r = r" "r \<noteq> []" "trim_space r = r"
    and g: "trim_space g = g" "g \<noteq> []" and h: "1 \<le> h"
    and p: "\<forall>s \<in> set (map snd p). 0 \<le> Traffic s \<and> normalizeStatsResource (Resource s) = Resource s" "bytes (map snd p) \<le> max_int64"
    and all: "\<And>P. 0 \<le> picked P (rows @ map snd p) \<and> picked P (rows @ map snd p) \<le> max_int64"
    and start: "start = now - h * 3600" and b: "b = statsQueryBucketSeconds h"
  shows "sorted_wrt (<) (map (\<lambda>s. (st_DateTime s, Direction s)) (queryStatsHistory now r g h rows p))"
    and "start \<le> t \<Longrightarrow> in_bucket (queryStatsHistory now r g h rows p) t d = picked (asked start b r g t d) (rows @ map snd p)"
proof -
  let ?A = "asked start b r g"
  have b0: "0 < b" by (simp add: b bucket_seconds_pos)
  define q1 where "q1 = pendingTrafficRuntimeStatsFromSamples (map snd p) r g start b"
  define q2 where "q2 = pendingTrafficRuntimeStatsFromSamples q1 r g start b"
  define R where "R = query_rows r g start b rows"
  have bound: "0 \<le> picked (?A t d) (map snd p) \<and> picked (?A t d) (map snd p) \<le> max_int64" for t d
    using picked_bounds [of "map snd p" "?A t d"] p by auto
  have 1: "in_bucket q1 t d = picked (?A t d) (map snd p)"
    "\<forall>s \<in> set q1. 0 \<le> Traffic s \<and> Resource s = r \<and> st_Tag s = g \<and> st_DateTime s div b * b = st_DateTime s" for t d
    using pending_pass [OF b0 r(1-3) g p(1) _ q1_def] bound by blast+
  have 2: "picked (?A t d) q1 = (if start \<le> t then picked (?A t d) (map snd p) else 0)" for t d
    using picked_rows [of q1 r g b start t d] 1 r(1) by simp
  have q1: "\<forall>s \<in> set q1. 0 \<le> Traffic s \<and> normalizeStatsResource (Resource s) = Resource s" using 1(2) r(2) by simp
  have small: "\<forall>t d. picked (?A t d) q1 \<le> max_int64" using bound by (simp add: 2 int64_defs)
  have 3: "in_bucket q2 t d = (if start \<le> t then picked (?A t d) (map snd p) else 0)" "\<forall>s \<in> set q2. 0 \<le> Traffic s" for t d
    using pending_pass [OF b0 r(1-3) g q1 small q2_def] 2 by simp_all
  have R: "sorted_wrt (<) (map (\<lambda>s. (st_DateTime s, Direction s)) R)" "in_bucket R t d = picked (?A t d) rows" for t d
    unfolding R_def using query_rows_sum [of r g start b rows] by blast+
  let ?m = "map (\<lambda>r. (bucket_key r, r)) R"
  have m: "map snd ?m = R" by (simp add: comp_def)
  have "min_int64 \<le> in_bucket (map snd ?m) t d \<and> in_bucket (map snd ?m) t d + in_bucket q2 t d \<le> max_int64" for t d
    unfolding m using all [of "?A t d"] bound [of t d] by (auto simp: R(2) 3(1) int64_defs)
  then have M: "buckets_ok (foldl (add_bucket add64) ?m q2)"
    "in_bucket (map snd (foldl (add_bucket add64) ?m q2)) t d = in_bucket R t d + in_bucket q2 t d" for t d
    using add_buckets_go [OF merge_ok [OF R(1)] 3(2)] unfolding m by blast+
  have ans: "queryStatsHistory now r g h rows p = (if q2 = [] then R else sortedPendingTrafficStats (foldl (add_bucket add64) ?m q2))"
    using r g h b0 by (simp add: queryStatsHistory_def start [symmetric] b [symmetric] mergePendingTrafficRuntimeStatsWithSamples_def
        snapshotPendingForQuery_def q1_def [symmetric] q2_def [symmetric] R_def [symmetric] Let_def)
  show "sorted_wrt (<) (map (\<lambda>s. (st_DateTime s, Direction s)) (queryStatsHistory now r g h rows p))"
    unfolding ans using R(1) sorted_buckets [OF M(1)] by simp
  have "in_bucket (queryStatsHistory now r g h rows p) t d = in_bucket R t d + in_bucket q2 t d"
    using M(2) by (simp add: ans sortedPendingTrafficStats_def)
  then show "start \<le> t \<Longrightarrow> in_bucket (queryStatsHistory now r g h rows p) t d = picked (?A t d) (rows @ map snd p)"
    by (simp add: R(2) 3(1))
qed

section \<open>Properties\<close>

text \<open>
  C22: what a history query shows is the ledger. After any history of rounds, flushes and crashes, the row
  of an answer for a bucket that begins within the asked period holds exactly the bytes of the
  initial rows and of the committed rounds that fall into the bucket, whether they are flushed or
  still pending; and the answer has one row per bucket and direction, in ascending order. The resource is
  one the query asks for under its own name, which excludes \<open>endpoint\<close>. Transactions may fail, and starts may fail to read the journal, when no round
  commits before a later start has read it (the condition of the ledger theorem).
\<close>

theorem history_shows_the_ledger:
  assumes g: "trim_space g \<noteq> []" "distinct (map sample_order rows)" and size: "\<forall>xs. 0 < json_size xs"
    and evs: "history_ok True evs" "last_read True evs" "bytes rows + bytes (ledger evs) \<le> max_int64" and rows: "\<forall>s \<in> set rows. 0 \<le> Traffic s"
    and r: "r \<in> set (statsQueryResources r)" "normalizeStatsResource r = r" "r \<noteq> []"
    and tag: "trim_space tag = tag" "tag \<noteq> []" and h: "1 \<le> h" "h \<le> 2562047" and t: "now - h * 3600 \<le> t"
  shows "(let (db, j) = run_journal json_size evs (opened g rows); answer = queryStatsHistory now r tag h (stats db) (pending j)
     in in_bucket answer t d = picked (asked (now - h * 3600) (statsQueryBucketSeconds h) r tag t d) (rows @ ledger evs)
      \<and> sorted_wrt (<) (map (\<lambda>s. (st_DateTime s, Direction s)) answer))"
proof -
  obtain db j where s: "run_journal json_size evs (opened g rows) = (db, j)" by fastforce
  have L: "\<forall>s \<in> set (ledger evs). 0 \<le> Traffic s" using history_batches [OF evs(1)] settled_pos by fastforce
  have nonneg: "\<forall>s \<in> set (rows @ ledger evs). 0 \<le> Traffic s" using rows L by auto
  have "0 \<le> bytes rows" using picked_bounds [OF rows, of "\<lambda>k. True"] by linarith
  then have small: "bytes (ledger evs) \<le> max_int64" using evs(3) by simp
  note J = history_books(1) [OF g size evs(1) small s] history_books(2-4) [OF g size evs(1) small s evs(2)]
  have books: "picked P (stats db @ map snd (pending j)) = picked P (rows @ ledger evs)" for P
    by (rule picked_cong) (use J(2) in simp)
  have all: "0 \<le> picked P (stats db @ map snd (pending j)) \<and> picked P (stats db @ map snd (pending j)) \<le> max_int64" for P
    unfolding books using picked_bounds [OF nonneg, of P] evs(3) by simp
  have p: "\<forall>s \<in> set (map snd (pending j)). 0 \<le> Traffic s \<and> normalizeStatsResource (Resource s) = Resource s"
    using J(4) by (auto simp: settled_def)
  have "trim_space ''client'' = ''client''" "trim_space ''mihomo_client'' = ''mihomo_client''" by code_simp+
  then have "trim_space r = r"
    using r(2) by (auto simp: normalizeStatsResource_def Let_def split: if_splits)
  note q = query_sum [OF r this tag h(1) p J(3) all refl refl, of now]
  from q(1) q(2) [OF t, of d] show ?thesis unfolding s by (simp only: Let_def prod.case books)
qed

theorem history_shows_the_ledger_witness:
  "(let (db, j) = run_journal ex_size ex_history (opened ''g'' [ex_sample 60 1]); answer = queryStatsHistory 3700 ''inbound'' ''a'' 1 (stats db) (pending j)
     in in_bucket answer 120 True = 107 \<and> sorted_wrt (<) (map (\<lambda>s. (st_DateTime s, Direction s)) answer))"
proof -
  note ok = events_history_ok [OF ex_simps(4)]
  have b: "bytes [ex_sample 60 1] + bytes (ledger ex_history) \<le> max_int64" by (simp add: ex_simps ex_sample_def int64_defs)
  have n: "\<forall>s \<in> set [ex_sample 60 1]. 0 \<le> Traffic s" by (simp add: ex_sample_def)
  have r: "''inbound'' \<in> set (statsQueryResources ''inbound'')" "normalizeStatsResource ''inbound'' = ''inbound''" "''inbound'' \<noteq> []"
    "trim_space ''a'' = ''a''" "''a'' \<noteq> []" by code_simp+
  have p: "picked (asked (3700 - 1 * 3600) (statsQueryBucketSeconds 1) ''inbound'' ''a'' 120 True) ([ex_sample 60 1] @ ledger ex_history) = 107"
    by code_simp
  show ?thesis
    using history_shows_the_ledger [OF ex_simps(2,6,1) conjunct1 [OF ok] conjunct2 [OF ok] b n r, of 1 3700 120 True] p by (simp add: case_prod_beta Let_def)
qed

text \<open>
  a query for the resource \<open>endpoint\<close> ignores what is pending. The snapshot renames the pending samples
  to \<open>endpoint\<close>, and the merge then filters them again by the resources \<open>inbound\<close> and \<open>outbound\<close>, which none of
  them has any more: the answer is the same as with no pending samples at all.
\<close>

lemma endpoint_history_misses_tail:
  "queryStatsHistory now ''endpoint'' tag h rows p = queryStatsHistory now ''endpoint'' tag h rows []"
proof -
  have n: "normalizeStatsResource ''endpoint'' = ''endpoint''" "trim_space ''endpoint'' = ''endpoint''"
    "statsQueryResources ''endpoint'' = [''inbound'', ''outbound'']"
    "normalizeStatsResource ''inbound'' = ''inbound''" "normalizeStatsResource ''outbound'' = ''outbound''" by code_simp+
  have first: "\<forall>s \<in> set (pendingTrafficRuntimeStatsFromSamples ss ''endpoint'' g start b). Resource s = ''endpoint''" for ss g start b
  proof -
    have "\<forall>s \<in> set (map snd (foldl (add_bucket add64) [] (map (pick b ''endpoint'') xs))). Resource s = ''endpoint''" for xs
      by (intro add_buckets_keep) (auto simp: pick_def)
    then show ?thesis by (simp add: pendingTrafficRuntimeStatsFromSamples_def n Let_def sortedPendingTrafficStats_def)
  qed
  have second: "pendingTrafficRuntimeStatsFromSamples ss ''endpoint'' g start b = []" if "\<forall>s \<in> set ss. Resource s = ''endpoint''" for ss g start b
  proof -
    have "filter (\<lambda>s. (Resource s = ''inbound'' \<or> Resource s = ''outbound'') \<and> st_Tag s = g' \<and> start \<le> st_DateTime s) ss = []" for g'
      using that by (auto simp: filter_empty_conv)
    then show ?thesis using that by (simp add: pendingTrafficRuntimeStatsFromSamples_def n Let_def sortedPendingTrafficStats_def cong: filter_cong)
  qed
  have "pendingTrafficRuntimeStatsFromSamples (snapshotPendingForQuery p ''endpoint'' g start b) ''endpoint'' g start b = []" for p g start b
    by (rule second) (simp add: snapshotPendingForQuery_def first)
  then show ?thesis
    by (simp add: queryStatsHistory_def n mergePendingTrafficRuntimeStatsWithSamples_def Let_def)
qed

end
