(* ===== verification/Traffic_Report.thy ===== *)
theory Traffic_Report
  imports Traffic_Recovery
begin

text \<open>
  What a collection round reports to the history, and that it is what it charges. The locale
  \<open>traffic_reporter\<close> extends the contract of a collector by the list of samples a committed round
  hands to the journal; both cores are instances. Its lemma says that the samples of a client in the minute
  of the round add up to exactly what its quota counters moved by.
\<close>

section \<open>The history of a round\<close>

lemma batch_of_simps [simp]: "batch_of now [] = []" "batch_of now (ss @ ts) = batch_of now ss @ batch_of now ts"
  by (simp_all add: batch_of_def map_filter_def)

lemma batch_of_stat:
  assumes "normalizeStatsResource res = res" "res \<noteq> []"
  shows "total (batch_of now (stat res t tag dir n)) k
     = (if 0 < n \<and> trim_space tag \<noteq> [] \<and> k = (statsBucketStart now t, res, trim_space tag, dir) then n else 0)"
  using assms by (auto simp: batch_of_def stat_def map_filter_simps normalize_sample_def sample_order_def Let_def)

lemma total_concat: "total (concat (map f xs)) k = (\<Sum>x\<leftarrow>xs. total (f x) k)"
  by (induction xs) simp_all

lemma batch_of_concat: "batch_of now (concat (map f xs)) = concat (map (batch_of now \<circ> f) xs)"
  by (induction xs) simp_all

lemma inbound_history_elsewhere:
  assumes "normalizeStatsResource res = res" "res \<noteq> []" "r \<noteq> res"
  shows "total (batch_of now (inbound_history res t save ds)) (m, r, g, d) = 0"
  by (simp add: inbound_history_def batch_of_concat total_concat batch_of_stat [OF assms(1,2)] assms(3) comp_def)

lemma clientAggs_None:
  "cid \<notin> ClientId ` {b \<in> set bs. charged ds b \<noteq> None} \<Longrightarrow> clientAggs ds bs cid = None"
proof (induction bs rule: rev_induct)
  case (snoc b bs)
  then show ?case by (cases "charged ds b") (auto simp: clientAggs_def agg_step_def split: option.split)
qed (simp add: clientAggs_def)

lemma client_deltas_nonneg: "0 \<le> fst (client_deltas ds db cid)" "0 \<le> snd (client_deltas ds db cid)"
  by (simp_all add: client_deltas_def split: option.split)

lemma uncharged_client:
  assumes "cid \<notin> set (charged_clients ds db)"
  shows "client_deltas ds db cid = (0, 0)"
  using assms clientAggs_None [of cid "bindings db" ds]
  by (auto simp: client_deltas_def charged_clients_def split: option.split)

lemma sum_single:
  assumes "distinct xs" "\<And>x. x \<in> set xs \<Longrightarrow> x \<noteq> a \<Longrightarrow> f x = 0"
  shows "(\<Sum>x\<leftarrow>xs. f x :: int) = (if a \<in> set xs then f a else 0)"
  using assms by (induction xs) auto

lemma client_of_name:
  assumes "distinct (map Id cs)" "inj_on (trim_space \<circ> Name) (set cs)" "c \<in> set cs" "trim_space (Name c) \<noteq> []"
    and "client_name cs cid = trim_space (Name c)"
  shows "cid = Id c"
proof -
  from assms(4,5) obtain n where n: "map_of (rev (map (\<lambda>c. (Id c, Name c)) cs)) cid = Some n" "trim_space n = trim_space (Name c)"
    by (auto simp: client_name_def split: option.splits)
  from map_of_SomeD [OF n(1)] obtain e where e: "e \<in> set cs" "cid = Id e" "n = Name e" by auto
  then have "e = c" using assms(2,3) n(2) by (auto simp: inj_on_def)
  with e show ?thesis by simp
qed

lemma client_history_total:
  assumes ids: "distinct (map Id (clients db))" and names: "inj_on (trim_space \<circ> Name) (set (clients db))"
    and c: "c \<in> set (clients db)" and res: "normalizeStatsResource res = res" "res \<noteq> []"
  shows "total (batch_of now (client_history res ds t True db)) (statsBucketStart now t, res, trim_space (Name c), d)
     = (if d then fst (client_deltas ds db (Id c)) else snd (client_deltas ds db (Id c)))"
proof -
  let ?N = "trim_space (Name c)"
  let ?f = "\<lambda>cid. if client_name (clients db) cid = ?N \<and> ?N \<noteq> []
     then (if d then fst (client_deltas ds db cid) else snd (client_deltas ds db cid)) else 0"
  have name: "client_name (clients db) (Id c) = ?N" by (rule client_name_distinct [OF ids c])
  have trim: "trim_space (client_name cs cid) = client_name cs cid" for cs cid
    by (simp add: client_name_def split: option.split)
  have "total (batch_of now (client_history res ds t True db)) (statsBucketStart now t, res, ?N, d)
      = (\<Sum>cid\<leftarrow>charged_clients ds db. ?f cid)"
    unfolding client_history_def batch_of_concat total_concat if_True
    using client_deltas_nonneg [of ds db]
    by (intro arg_cong [of _ _ sum_list] map_cong) (auto simp: batch_of_stat [OF res] trim less_le)
  also have "\<dots> = (if Id c \<in> set (charged_clients ds db) then ?f (Id c) else 0)"
  proof (rule sum_single)
    show "distinct (charged_clients ds db)" by (simp add: charged_clients_def)
    show "?f x = 0" if "x \<noteq> Id c" for x using client_of_name [OF ids names c] that by auto
  qed
  also have "\<dots> = (if d then fst (client_deltas ds db (Id c)) else snd (client_deltas ds db (Id c)))"
  proof (cases "Id c \<in> set (charged_clients ds db)")
    case True
    then have "?N \<noteq> []" using name by (simp add: charged_clients_def)
    with True show ?thesis by (simp add: name)
  next
    case False
    then show ?thesis by (simp add: uncharged_client)
  qed
  finally show ?thesis .
qed

text \<open>A collector that also reports what it charged.\<close>

locale traffic_reporter = traffic_collector +
  fixes in_res cl_res :: string
  assumes resources: "normalizeStatsResource in_res = in_res" "in_res \<noteq> []" "normalizeStatsResource cl_res = cl_res" "cl_res \<noteq> []" "cl_res \<noteq> in_res"
    and resources_ok: "CHR 0x00 \<notin> set in_res" "CHR 0x00 \<notin> set cl_res"
    and round_history: "rows_ok (load_states g heal db0) \<Longrightarrow> ready db1
      \<Longrightarrow> collect g heal env now save db0 db1 = Committed db' hist tags users changed
      \<Longrightarrow> ds = round_deltas hop (round_samples recover g heal env db0) db1
      \<Longrightarrow> hist = inbound_history in_res now save ds @ client_history cl_res ds now save (tables db1)"
begin

lemma history_samples_ok:
  assumes "rows_ok (load_states g heal db0)" "ready db1" "60 \<le> now"
    and "collect g heal env now save db0 db1 = Committed db' hist tags users changed"
  shows "\<forall>s \<in> set hist. sample_ok now s"
  using assms(3) resources_ok unfolding round_history [OF assms(1,2,4) refl]
  by (auto simp: inbound_history_def client_history_def stat_def sample_ok_def split: if_splits)

lemma charges_are_history:
  assumes rows: "rows_ok (load_states g heal db0)" "ready db1"
    and commit: "collect g heal env now True db0 db1 = Committed db' hist tags users changed"
    and cs: "distinct (map Id (clients (tables db1)))" "inj_on (trim_space \<circ> Name) (set (clients (tables db1)))"
      "\<forall>c \<in> set (clients (tables db1)). 0 < Id c"
  shows "clients (tables db') = map (\<lambda>c.
      c\<lparr>Up := Up c + total (batch_of now hist) (statsBucketStart now now, cl_res, trim_space (Name c), True),
        Down := Down c + total (batch_of now hist) (statsBucketStart now now, cl_res, trim_space (Name c), False)\<rparr>) (clients (tables db1))"
proof -
  define ds where "ds = round_deltas hop (round_samples recover g heal env db0) db1"
  have t: "tables db' = charge_tables ds (tables db1)" using round_effect [OF rows commit refl] by (simp add: ds_def)
  have h: "total (batch_of now hist) (statsBucketStart now now, cl_res, trim_space (Name c), d)
      = (if d then fst (client_deltas ds (tables db1) (Id c)) else snd (client_deltas ds (tables db1) (Id c)))"
    if "c \<in> set (clients (tables db1))" for c d
    unfolding round_history [OF rows commit ds_def]
    using client_history_total [OF cs(1,2) that resources(3,4), of now ds now d] inbound_history_elsewhere [OF resources(1,2,5)] by simp
  have keep: "(if 0 < Id c \<and> 0 < x then x else 0) = x" if "c \<in> set (clients (tables db1))" "0 \<le> x" for c and x :: int
    using cs(3) that by auto
  have "clients (tables db') = applyClientTrafficDeltasBatch (client_deltas ds (tables db1)) (clients (tables db1))"
    by (simp add: t charge_tables_def)
  also have "\<dots> = map (\<lambda>c. c\<lparr>Up := Up c + fst (client_deltas ds (tables db1) (Id c)),
      Down := Down c + snd (client_deltas ds (tables db1) (Id c))\<rparr>) (clients (tables db1))"
    unfolding applyClientTrafficDeltasBatch_def
    by (rule map_cong [OF refl]) (simp only: keep client_deltas_nonneg)
  also have "\<dots> = map (\<lambda>c.
      c\<lparr>Up := Up c + total (batch_of now hist) (statsBucketStart now now, cl_res, trim_space (Name c), True),
        Down := Down c + total (batch_of now hist) (statsBucketStart now now, cl_res, trim_space (Name c), False)\<rparr>) (clients (tables db1))"
    by (rule map_cong [OF refl]) (simp only: h if_True if_False)
  finally show ?thesis .
qed

end

lemma resource_names: "normalizeStatsResource ''inbound'' = ''inbound''" "normalizeStatsResource ''client'' = ''client''"
  "normalizeStatsResource ''mihomo_inbound'' = ''mihomo_inbound''" "normalizeStatsResource ''mihomo_client'' = ''mihomo_client''"
  by code_simp+

lemma no_delta_history: "inbound_history res now save [] = []" "client_history res [] now save db = []"
  by (simp_all add: inbound_history_def client_history_def charged_clients_def no_deltas)

interpretation singbox_report: traffic_reporter collectAndSaveTraffic singbox_recoverHandles False "\<lambda>db. \<not> repairNeeded db" "''inbound''" "''client''"
proof
  fix g heal db0 db1 env now save db' hist tags users changed ds
  assume rows: "rows_ok (load_states g heal db0)" and ready: "\<not> repairNeeded db1"
    and c: "collectAndSaveTraffic g heal env now save db0 db1 = Committed db' hist tags users changed"
    and ds: "ds = round_deltas False (round_samples singbox_recoverHandles g heal env db0) db1"
  from c show "hist = inbound_history ''inbound'' now save ds @ client_history ''client'' ds now save (tables db1)"
    unfolding collectAndSaveTraffic_def Let_def round_rows [OF collectors_recover(1) rows] ds
    using ready
    by (auto simp: ensureClientBindings_def writeClientStats_def round_deltas_def no_delta_history split: if_splits)
qed (simp_all add: resource_names)

interpretation mihomo_report: traffic_reporter mihomo_collectAndSaveTraffic mihomo_recoverHandles True "\<lambda>db. True" "''mihomo_inbound''" "''mihomo_client''"
proof
  fix g heal db0 db1 env now save db' hist tags users changed ds
  assume rows: "rows_ok (load_states g heal db0)"
    and c: "mihomo_collectAndSaveTraffic g heal env now save db0 db1 = Committed db' hist tags users changed"
    and ds: "ds = round_deltas True (round_samples mihomo_recoverHandles g heal env db0) db1"
  from c show "hist = inbound_history ''mihomo_inbound'' now save ds @ client_history ''mihomo_client'' ds now save (tables db1)"
    unfolding mihomo_collectAndSaveTraffic_def Let_def round_rows [OF collectors_recover(2) rows] ds
    by (auto simp: mihomo_writeClientStats_def round_deltas_def no_delta_history split: if_splits)
qed (simp_all add: resource_names)

end
