(* ===== verification/Login_Sessions.thy ===== *)
theory Login_Sessions
  imports Go_Prelude "HOL-Library.AList"
begin

text \<open>
  Login sessions of the panel (\<open>api/session.go\<close>, \<open>database/model/login_session.go\<close>). A login stores a
  record under the hash of an opaque token; up to 25 records live in memory, the others in the table
  \<open>login_sessions\<close>, and every operation may move records between the two.

  Instants are nanoseconds. The browser's cookie is the token it presents, if any; decoding and hashing a
  token (base64 and SHA-256) is the parameter \<open>token_hash\<close>. The table is reached by statements each of
  which may fail: \<open>stmt_ok n\<close> is the outcome of the \<open>n\<close>-th statement of a request, and every operation
  takes and returns the number of statements issued so far. Of several newest rows SQLite may return any one, which
  \<open>tie\<close> decides. Where the code reads the clock more than once the instants are separate arguments. Log lines are
  left out.
\<close>

section \<open>Records\<close>

record loginSessionRecord =
  userName :: string
  lr_version :: string
  lr_epoch :: string
  expiresAt :: int
  lastActivityAt :: int
  idleLimitMinutes :: int

record LoginSession =
  TokenHash :: string
  ls_record :: loginSessionRecord
  UpdatedAt :: int

datatype session_reason =
    ReasonMissing | ReasonVersion | ReasonTimeout | ReasonRestarted | ReasonLiveMissing | ReasonLiveChanged
  | ReasonStoreFailed | ReasonWriteFailed

definition loginSessionReasonIsTransient :: "session_reason \<Rightarrow> bool" where
  "loginSessionReasonIsTransient reason \<longleftrightarrow> reason = ReasonStoreFailed \<or> reason = ReasonWriteFailed"

definition maxInMemoryLoginSessions :: nat where
  "maxInMemoryLoginSessions = 25"

definition sessionMaxAgeMaxMinutes :: int where
  "sessionMaxAgeMaxMinutes = 72 * 60"

definition EffectiveSessionMaxAgeMinutes :: "int \<Rightarrow> int" where
  "EffectiveSessionMaxAgeMinutes v =
     (if v \<le> 0 then sessionMaxAgeMaxMinutes else if v > sessionMaxAgeMaxMinutes then sessionMaxAgeMaxMinutes else v)"

definition normalizeStoredSessionTimeoutMinutes :: "int \<Rightarrow> int" where
  "normalizeStoredSessionTimeoutMinutes v = EffectiveSessionMaxAgeMinutes v"

definition truncate_second :: "int \<Rightarrow> int" where
  "truncate_second t = t div 1000000000 * 1000000000"

definition loginSessionExpiry :: "int \<Rightarrow> int \<Rightarrow> int" where
  "loginSessionExpiry now minutes = now + normalizeStoredSessionTimeoutMinutes minutes * 60000000000"

definition loginSessionModel :: "int \<Rightarrow> string \<Rightarrow> loginSessionRecord \<Rightarrow> LoginSession" where
  \<comment> \<open>the first argument is the time stamp the database layer adds\<close>
  "loginSessionModel stamp h r = \<lparr>TokenHash = h, ls_record = r, UpdatedAt = stamp\<rparr>"

definition loginSessionRecordFromModel :: "LoginSession \<Rightarrow> loginSessionRecord" where
  "loginSessionRecordFromModel p =
     (ls_record p)\<lparr>idleLimitMinutes := normalizeStoredSessionTimeoutMinutes (idleLimitMinutes (ls_record p))\<rparr>"

section \<open>The registry and the table\<close>

record session_env =
  db_open :: bool
  stmt_ok :: "nat \<Rightarrow> bool"
  tie :: "nat \<Rightarrow> nat"
  db_clock :: int
  reports_zero :: bool  \<comment> \<open>an update that changes nothing is reported as zero rows\<close>
  panel_version :: string
  session_max_age :: "int option"  \<comment> \<open>what \<open>GetSessionMaxAge\<close> returns, \<open>None\<close> for an error\<close>

record session_state =
  epoch :: string
  sessions :: "(string \<times> loginSessionRecord) list"
  hasPersisted :: bool
  session_rows :: "LoginSession list"

definition currentLoginSessionVersion :: "session_env \<Rightarrow> string" where
  "currentLoginSessionVersion env =
     (let v = trim_space (panel_version env) in if v = [] then ''unknown'' else v)"

definition loginSessionRecordReasonLocked :: "session_env \<Rightarrow> string \<Rightarrow> loginSessionRecord \<Rightarrow> int \<Rightarrow> session_reason option" where
  "loginSessionRecordReasonLocked env ep r now =
     (if trim_space (userName r) = [] then Some ReasonLiveChanged
      else if lr_version r \<noteq> currentLoginSessionVersion env then Some ReasonVersion
      else if lr_epoch r \<noteq> ep then Some ReasonRestarted
      else if \<not> now < expiresAt r then Some ReasonTimeout
      else None)"

definition pruneExpiredLoginSessionsLocked :: "session_env \<Rightarrow> int \<Rightarrow> session_state \<Rightarrow> session_state" where
  "pruneExpiredLoginSessionsLocked env now s =
     s\<lparr>sessions := filter (\<lambda>(h, r). loginSessionRecordReasonLocked env (epoch s) r now = None) (sessions s)\<rparr>"

definition delete_row :: "string \<Rightarrow> session_state \<Rightarrow> session_state" where
  "delete_row h s = s\<lparr>session_rows := filter (\<lambda>p. TokenHash p \<noteq> h) (session_rows s)\<rparr>"

definition deletePersistedLoginSessionLocked :: "session_env \<Rightarrow> string \<Rightarrow> nat \<Rightarrow> session_state \<Rightarrow> bool \<times> nat \<times> session_state" where
  "deletePersistedLoginSessionLocked env h n s =
     (if \<not> db_open env then (True, n, s)
      else if stmt_ok env n then (True, Suc n, delete_row h s) else (False, Suc n, s))"

definition savePersistedLoginSessionLocked ::
    "session_env \<Rightarrow> string \<Rightarrow> loginSessionRecord \<Rightarrow> nat \<Rightarrow> session_state \<Rightarrow> bool \<times> nat \<times> session_state" where
  \<comment> \<open>the token hash is the primary key\<close>
  "savePersistedLoginSessionLocked env h r n s =
     (if \<not> db_open env then (False, n, s)
      else if stmt_ok env n \<and> h \<notin> TokenHash ` set (session_rows s)
      then (True, Suc n, s\<lparr>session_rows := session_rows s @ [loginSessionModel (db_clock env) h r], hasPersisted := True\<rparr>)
      else (False, Suc n, s))"

definition update_row :: "session_env \<Rightarrow> string \<Rightarrow> loginSessionRecord \<Rightarrow> LoginSession \<Rightarrow> LoginSession" where
  "update_row env h r p =
     (if TokenHash p = h
      then p\<lparr>ls_record := (ls_record p)\<lparr>expiresAt := expiresAt r, lastActivityAt := lastActivityAt r,
                                       idleLimitMinutes := idleLimitMinutes r\<rparr>, UpdatedAt := db_clock env\<rparr>
      else p)"

definition updatePersistedLoginSessionLocked ::
    "session_env \<Rightarrow> string \<Rightarrow> loginSessionRecord \<Rightarrow> nat \<Rightarrow> session_state \<Rightarrow> bool \<times> nat \<times> session_state" where
  "updatePersistedLoginSessionLocked env h r n s =
     (if \<not> db_open env then (False, n, s)
      else if \<not> stmt_ok env n then (False, Suc n, s)
      else let s' = s\<lparr>session_rows := map (update_row env h r) (session_rows s)\<rparr>;
               known = (h \<in> TokenHash ` set (session_rows s))
           in if known \<and> \<not> reports_zero env then (True, Suc n, s')
              else if \<not> stmt_ok env (Suc n) then (False, Suc (Suc n), s')
              else (known, Suc (Suc n), s'))"

definition clearPersistedLoginSessionsLocked :: "session_env \<Rightarrow> nat \<Rightarrow> session_state \<Rightarrow> bool \<times> nat \<times> session_state" where
  "clearPersistedLoginSessionsLocked env n s =
     (if \<not> db_open env then (True, n, s)
      else if \<not> stmt_ok env n then (False, Suc n, s)
      else if \<not> stmt_ok env (Suc n) then (False, Suc (Suc n), s)
      else (True, Suc (Suc n), s\<lparr>session_rows := []\<rparr>))"

definition prunePersistedLoginSessionsLocked :: "session_env \<Rightarrow> int \<Rightarrow> nat \<Rightarrow> session_state \<Rightarrow> bool \<times> nat \<times> session_state" where
  "prunePersistedLoginSessionsLocked env now n s =
     (if \<not> db_open env then (True, n, s)
      else if \<not> stmt_ok env n then (False, Suc n, s)
      else (True, Suc n, s\<lparr>session_rows := filter (\<lambda>p. \<not> (expiresAt (ls_record p) \<le> now
              \<or> lr_version (ls_record p) \<noteq> currentLoginSessionVersion env \<or> lr_epoch (ls_record p) \<noteq> epoch s)) (session_rows s)\<rparr>))"

definition newest_row :: "nat \<Rightarrow> LoginSession list \<Rightarrow> LoginSession" where
  \<comment> \<open>\<open>ORDER BY updated_at DESC LIMIT 1\<close> of a non-empty table\<close>
  "newest_row k ps = (let cs = filter (\<lambda>p. list_all (\<lambda>q. UpdatedAt q \<le> UpdatedAt p) ps) ps in cs ! (k mod length cs))"

lemma newest_row_mem:
  assumes "ps \<noteq> []"
  shows "newest_row k ps \<in> set ps"
proof -
  define m where "m = Max (UpdatedAt ` set ps)"
  have "m \<in> UpdatedAt ` set ps" unfolding m_def using assms by (intro Max_in) auto
  then obtain p where p: "p \<in> set ps" "UpdatedAt p = m" by auto
  have "\<forall>q \<in> set ps. UpdatedAt q \<le> UpdatedAt p" by (simp add: p(2) m_def)
  then have "filter (\<lambda>p. list_all (\<lambda>q. UpdatedAt q \<le> UpdatedAt p) ps) ps \<noteq> []" (is "?cs \<noteq> []")
    using p(1) by (auto simp: filter_empty_conv list_all_iff)
  then have "?cs ! (k mod length ?cs) \<in> set ?cs" by (intro nth_mem) simp
  then show ?thesis unfolding newest_row_def Let_def by simp
qed

function refillInMemoryLoginSessionsLocked ::
    "session_env \<Rightarrow> int \<Rightarrow> nat \<Rightarrow> session_state \<Rightarrow> bool \<times> nat \<times> session_state" where
  "refillInMemoryLoginSessionsLocked env now n s =
     (if \<not> db_open env \<or> length (sessions s) \<ge> maxInMemoryLoginSessions then (True, n, s)
      else if \<not> stmt_ok env n then (False, Suc n, s)
      else if session_rows s = [] then (True, Suc n, s\<lparr>hasPersisted := False\<rparr>)
      else let c = newest_row (tie env n) (session_rows s); r = loginSessionRecordFromModel c
           in if \<not> stmt_ok env (Suc n) then (False, Suc (Suc n), s)
              else if loginSessionRecordReasonLocked env (epoch s) r now \<noteq> None
              then refillInMemoryLoginSessionsLocked env now (Suc (Suc n)) (delete_row (TokenHash c) s)
              else refillInMemoryLoginSessionsLocked env now (Suc (Suc n))
                     ((delete_row (TokenHash c) s)\<lparr>sessions := AList.update (TokenHash c) r (sessions s)\<rparr>))"
  by pat_completeness auto

lemma delete_row_less:
  assumes "c \<in> set (session_rows s)"
  shows "length (session_rows (delete_row (TokenHash c) s)) < length (session_rows s)"
  using assms unfolding delete_row_def by (simp add: length_filter_less)

termination refillInMemoryLoginSessionsLocked
  by (relation "measure (\<lambda>(env, now, n, s). length (session_rows s))")
     (use delete_row_less newest_row_mem in \<open>auto simp: delete_row_def\<close>)

declare refillInMemoryLoginSessionsLocked.simps [simp del]

section \<open>Operations of the store\<close>

definition storeLoginSession ::
    "session_env \<Rightarrow> int \<Rightarrow> string \<Rightarrow> string \<Rightarrow> string \<Rightarrow> int \<Rightarrow> int \<Rightarrow> int \<Rightarrow> nat \<Rightarrow> session_state
     \<Rightarrow> loginSessionRecord option \<times> nat \<times> session_state" where
  "storeLoginSession env now h user version expires lastActivity idleLimit n s =
     (let (_, n1, s1) = refillInMemoryLoginSessionsLocked env now n (pruneExpiredLoginSessionsLocked env now s);
          r = \<lparr>userName = user, lr_version = version, lr_epoch = epoch s1, expiresAt = expires,
               lastActivityAt = lastActivity, idleLimitMinutes = idleLimit\<rparr>
      in if length (sessions s1) < maxInMemoryLoginSessions
         then (Some r, n1, s1\<lparr>sessions := AList.update h r (sessions s1)\<rparr>)
         else case savePersistedLoginSessionLocked env h r n1 s1 of
                (True, n2, s2) \<Rightarrow> (Some r, n2, s2)
              | (False, n2, s2) \<Rightarrow> (None, n2, s2))"

datatype session_storage = StorageMemory | StorageDatabase

datatype load_result = Loaded loginSessionRecord session_storage | Refused session_reason | LoadFailed

definition loadLoginSessionLocked ::
    "session_env \<Rightarrow> string \<Rightarrow> int \<Rightarrow> nat \<Rightarrow> session_state \<Rightarrow> load_result \<times> nat \<times> session_state" where
  "loadLoginSessionLocked env h now n s =
     (case map_of (sessions s) h of
        Some r \<Rightarrow>
          (case loginSessionRecordReasonLocked env (epoch s) r now of
             Some reason \<Rightarrow>
               (case refillInMemoryLoginSessionsLocked env now n (s\<lparr>sessions := AList.delete h (sessions s)\<rparr>) of
                  (_, n1, s1) \<Rightarrow> (Refused reason, n1, s1))
           | None \<Rightarrow> (Loaded r StorageMemory, n, s))
      | None \<Rightarrow>
          (if \<not> db_open env then (Refused ReasonLiveMissing, n, s)
           else if \<not> stmt_ok env n then (LoadFailed, Suc n, s)
           else case find (\<lambda>p. TokenHash p = h) (session_rows s) of
                  None \<Rightarrow> (Refused ReasonLiveMissing, Suc n, s)
                | Some p \<Rightarrow>
                    (let r = loginSessionRecordFromModel p
                     in case loginSessionRecordReasonLocked env (epoch s) r now of
                          Some reason \<Rightarrow>
                            (case deletePersistedLoginSessionLocked env h (Suc n) s of
                               (True, n1, s1) \<Rightarrow> (Refused reason, n1, s1)
                             | (False, n1, s1) \<Rightarrow> (LoadFailed, n1, s1))
                        | None \<Rightarrow>
                            (if length (sessions s) < maxInMemoryLoginSessions
                             then case deletePersistedLoginSessionLocked env h (Suc n) s of
                                    (True, n1, s1) \<Rightarrow>
                                      (Loaded r StorageMemory, n1, s1\<lparr>sessions := AList.update h r (sessions s1)\<rparr>)
                                  | (False, n1, s1) \<Rightarrow> (Loaded r StorageDatabase, n1, s1)
                             else (Loaded r StorageDatabase, Suc n, s)))))"

definition GetEffectiveSessionMaxAgeMinutes :: "session_env \<Rightarrow> int option" where
  "GetEffectiveSessionMaxAgeMinutes env = map_option EffectiveSessionMaxAgeMinutes (session_max_age env)"

definition currentLoginSessionTimeoutMinutes :: "session_env \<Rightarrow> int \<Rightarrow> int" where
  "currentLoginSessionTimeoutMinutes env fallback =
     (if \<not> db_open env then normalizeStoredSessionTimeoutMinutes fallback
      else case GetEffectiveSessionMaxAgeMinutes env of Some m \<Rightarrow> m | None \<Rightarrow> normalizeStoredSessionTimeoutMinutes fallback)"

definition refreshLoginSession ::
    "session_env \<Rightarrow> string \<Rightarrow> int \<Rightarrow> nat \<Rightarrow> session_state \<Rightarrow> (session_reason + loginSessionRecord) \<times> nat \<times> session_state" where
  "refreshLoginSession env h now n s =
     (case loadLoginSessionLocked env h now n s of
        (LoadFailed, n1, s1) \<Rightarrow> (Inl ReasonStoreFailed, n1, s1)
      | (Refused reason, n1, s1) \<Rightarrow> (Inl reason, n1, s1)
      | (Loaded r storage, n1, s1) \<Rightarrow>
          (let idle = currentLoginSessionTimeoutMinutes env (idleLimitMinutes r);
               r' = r\<lparr>idleLimitMinutes := idle, expiresAt := loginSessionExpiry now idle, lastActivityAt := now\<rparr>
           in case storage of
                StorageMemory \<Rightarrow> (Inr r', n1, s1\<lparr>sessions := AList.update h r' (sessions s1)\<rparr>)
              | StorageDatabase \<Rightarrow>
                  (case updatePersistedLoginSessionLocked env h r' n1 s1 of
                     (True, n2, s2) \<Rightarrow> (Inr r', n2, s2)
                   | (False, n2, s2) \<Rightarrow> (Inl ReasonStoreFailed, n2, s2))))"

definition removeLoginSession :: "session_env \<Rightarrow> int \<Rightarrow> string \<Rightarrow> nat \<Rightarrow> session_state \<Rightarrow> nat \<times> session_state" where
  "removeLoginSession env now h n s =
     (if h = [] then (n, s)
      else case deletePersistedLoginSessionLocked env h n (s\<lparr>sessions := AList.delete h (sessions s)\<rparr>) of
             (False, n1, s1) \<Rightarrow> (n1, s1)
           | (True, n1, s1) \<Rightarrow> snd (refillInMemoryLoginSessionsLocked env now n1 s1))"

definition cleanup_tick :: "session_env \<Rightarrow> int \<Rightarrow> session_state \<Rightarrow> session_state" where
  "cleanup_tick env now s =
     (if sessions s = [] \<and> \<not> hasPersisted s then s
      else case prunePersistedLoginSessionsLocked env now 0 (pruneExpiredLoginSessionsLocked env now s) of
             (False, n, s1) \<Rightarrow> s1
           | (True, n, s1) \<Rightarrow> snd (snd (refillInMemoryLoginSessionsLocked env now n s1)))"

definition InitializeLoginSessionStore :: "session_env \<Rightarrow> string \<Rightarrow> session_state \<Rightarrow> bool \<times> session_state" where
  \<comment> \<open>the second argument is the fresh epoch\<close>
  "InitializeLoginSessionStore env ep s =
     (case clearPersistedLoginSessionsLocked env 0 (s\<lparr>sessions := [], epoch := ep, hasPersisted := False\<rparr>) of
        (ok, n, s1) \<Rightarrow> (ok, s1))"

definition InvalidateAllLoginSessions :: "session_env \<Rightarrow> string \<Rightarrow> session_state \<Rightarrow> session_state" where
  "InvalidateAllLoginSessions env ep s =
     snd (snd (clearPersistedLoginSessionsLocked env 0 (s\<lparr>sessions := [], epoch := ep\<rparr>)))"

definition rename_record :: "string \<Rightarrow> string \<Rightarrow> loginSessionRecord \<Rightarrow> loginSessionRecord" where
  "rename_record old new r = (if userName r = old then r\<lparr>userName := new\<rparr> else r)"

definition RenameLoginSessionUser :: "session_env \<Rightarrow> string \<Rightarrow> string \<Rightarrow> session_state \<Rightarrow> bool \<times> session_state" where
  "RenameLoginSessionUser env oldUsername newUsername s =
     (let old = trim_space oldUsername; new = trim_space newUsername
      in if old = [] \<or> new = [] \<or> old = new then (True, s)
         else if db_open env \<and> \<not> stmt_ok env 0 then (False, s)
         else (True, s\<lparr>session_rows := (if db_open env
                          then map (\<lambda>p. if userName (ls_record p) = old
                                       then p\<lparr>ls_record := rename_record old new (ls_record p), UpdatedAt := db_clock env\<rparr> else p)
                                   (session_rows s)
                          else session_rows s),
                       sessions := map (\<lambda>(h, r). (h, rename_record old new r)) (sessions s)\<rparr>))"

section \<open>Requests\<close>

datatype cookie_action = KeepCookie | ClearCookie | SetCookie string int

record loginSessionValidation =
  v_token :: string
  v_hash :: string
  v_user :: string

definition validateLoginSession ::
    "(string \<Rightarrow> string option) \<Rightarrow> session_env \<Rightarrow> string option \<Rightarrow> int \<Rightarrow> nat \<Rightarrow> session_state
     \<Rightarrow> (session_reason + loginSessionValidation) \<times> nat \<times> session_state" where
  "validateLoginSession token_hash env cookie now n s =
     (case Option.bind cookie token_hash of
        None \<Rightarrow> (Inl ReasonMissing, n, s)
      | Some h \<Rightarrow>
          (case loadLoginSessionLocked env h now n s of
             (LoadFailed, n1, s1) \<Rightarrow> (Inl ReasonStoreFailed, n1, s1)
           | (Refused reason, n1, s1) \<Rightarrow> (Inl reason, n1, s1)
           | (Loaded r _, n1, s1) \<Rightarrow> (Inr \<lparr>v_token = the cookie, v_hash = h, v_user = userName r\<rparr>, n1, s1)))"

definition valid_login :: "session_reason + loginSessionValidation \<Rightarrow> bool" where
  \<comment> \<open>\<open>loginSessionValidation.valid\<close>\<close>
  "valid_login v = (case v of Inl _ \<Rightarrow> False | Inr w \<Rightarrow> v_user w \<noteq> [] \<and> v_hash w \<noteq> [])"

definition refusal_cookie :: "session_reason + loginSessionValidation \<Rightarrow> cookie_action" where
  "refusal_cookie v =
     (case v of Inl reason \<Rightarrow> (if loginSessionReasonIsTransient reason then KeepCookie else ClearCookie) | Inr _ \<Rightarrow> ClearCookie)"

definition IsLogin ::
    "(string \<Rightarrow> string option) \<Rightarrow> session_env \<Rightarrow> string option \<Rightarrow> int \<Rightarrow> session_state \<Rightarrow> bool \<times> cookie_action \<times> session_state" where
  "IsLogin token_hash env cookie now s =
     (let (v, n, s1) = validateLoginSession token_hash env cookie now 0 s
      in if valid_login v then (True, KeepCookie, s1) else (False, refusal_cookie v, s1))"

definition GetLoginUser ::
    "(string \<Rightarrow> string option) \<Rightarrow> session_env \<Rightarrow> string option \<Rightarrow> string option \<Rightarrow> int \<Rightarrow> session_state
     \<Rightarrow> string \<times> cookie_action \<times> session_state" where
  \<comment> \<open>the user an earlier check of the same request has found comes first\<close>
  "GetLoginUser token_hash env known cookie now s =
     (case known of
        Some u \<Rightarrow> (u, KeepCookie, s)
      | None \<Rightarrow>
          (let (v, n, s1) = validateLoginSession token_hash env cookie now 0 s
           in case v of
                Inr w \<Rightarrow> (if valid_login v then (v_user w, KeepCookie, s1) else ([], refusal_cookie v, s1))
              | Inl _ \<Rightarrow> ([], refusal_cookie v, s1)))"

definition loginSessionCookieMaxAgeSecondsForRecord :: "loginSessionRecord \<Rightarrow> int \<Rightarrow> int" where
  "loginSessionCookieMaxAgeSecondsForRecord r now =
     (let age = (expiresAt r - now) div 1000000000 in if age \<le> 0 then 1 else age)"

definition loginSessionStatusFromRecord :: "loginSessionRecord \<Rightarrow> int" where
  \<comment> \<open>both deadlines are the same Unix time; zero when there is none\<close>
  "loginSessionStatusFromRecord r = (if 0 < expiresAt r then expiresAt r div 1000000000 else 0)"

definition SetLoginUser ::
    "(string \<Rightarrow> string option) \<Rightarrow> session_env \<Rightarrow> bool \<Rightarrow> string option \<Rightarrow> string option \<Rightarrow> string \<Rightarrow> int \<Rightarrow> int \<times> int \<times> int \<Rightarrow> session_state
     \<Rightarrow> bool \<times> cookie_action \<times> session_state" where
  \<comment> \<open>whether the cookie can be written, the cookie the browser sent, the new token (\<open>None\<close> when no random bytes are
     available), and three readings of the clock\<close>
  "SetLoginUser token_hash env save_ok cookie fresh user minutes ts s =
     (case Option.bind fresh token_hash of
        None \<Rightarrow> (False, KeepCookie, s)
      | Some h \<Rightarrow>
          (let (t0, t1, t2) = ts; now = truncate_second t0; m = normalizeStoredSessionTimeoutMinutes minutes;
               (stored, n1, s1) = storeLoginSession env t1 h user (currentLoginSessionVersion env) (loginSessionExpiry now m) now m 0 s
           in case stored of
                None \<Rightarrow> (False, KeepCookie, s1)
              | Some r \<Rightarrow>
                  (if \<not> save_ok then (False, KeepCookie, snd (removeLoginSession env t2 h n1 s1))
                   else (True, SetCookie (the fresh) (loginSessionCookieMaxAgeSecondsForRecord r now),
                         case Option.bind cookie token_hash of
                           Some h' \<Rightarrow> (if h' \<noteq> h then snd (removeLoginSession env t2 h' n1 s1) else s1)
                         | None \<Rightarrow> s1))))"

definition RefreshLoginSession ::
    "(string \<Rightarrow> string option) \<Rightarrow> session_env \<Rightarrow> bool \<Rightarrow> string option \<Rightarrow> int \<times> int \<Rightarrow> session_state
     \<Rightarrow> (session_reason + int) \<times> cookie_action \<times> session_state" where
  \<comment> \<open>on success the deadline; an invalid validation without a reason counts as \<open>ReasonLiveChanged\<close>\<close>
  "RefreshLoginSession token_hash env save_ok cookie ts s =
     (let (t0, t1) = ts; (v, n, s1) = validateLoginSession token_hash env cookie t0 0 s
      in if \<not> valid_login v then (Inl (case v of Inl reason \<Rightarrow> reason | Inr _ \<Rightarrow> ReasonLiveChanged), refusal_cookie v, s1)
         else case v of
                Inl reason \<Rightarrow> (Inl reason, refusal_cookie v, s1)
              | Inr w \<Rightarrow>
                  (let now = truncate_second t1
                   in case refreshLoginSession env (v_hash w) now n s1 of
                        (Inl reason, n2, s2) \<Rightarrow>
                          (Inl reason, if loginSessionReasonIsTransient reason then KeepCookie else ClearCookie, s2)
                      | (Inr r, n2, s2) \<Rightarrow>
                          (if save_ok
                           then (Inr (loginSessionStatusFromRecord r), SetCookie (v_token w) (loginSessionCookieMaxAgeSecondsForRecord r now), s2)
                           else (Inl ReasonWriteFailed, KeepCookie, s2))))"

definition ClearSession ::
    "(string \<Rightarrow> string option) \<Rightarrow> session_env \<Rightarrow> string option \<Rightarrow> int \<Rightarrow> session_state \<Rightarrow> cookie_action \<times> session_state" where
  "ClearSession token_hash env cookie now s =
     (ClearCookie,
      case Option.bind cookie token_hash of Some h \<Rightarrow> snd (removeLoginSession env now h 0 s) | None \<Rightarrow> s)"

end
