(* ===== verification/Login_Store.thy ===== *)
theory Login_Store
  imports Login_Sessions
begin

text \<open>
  What the operations on the session store do to the sessions that are held. \<open>lookup_session\<close> reads a session from memory or else
  from the table, \<open>store_ok\<close> is the invariant (keys are distinct, no session is in both places, memory is bounded), and
  \<open>drops\<close> says that a change has only lost sessions nobody could use any more. Each operation has one lemma that covers all its
  branches, failing statements included.
\<close>

section \<open>The sessions that are held\<close>

definition lookup_session :: "(string \<times> loginSessionRecord) list \<Rightarrow> LoginSession list \<Rightarrow> string \<Rightarrow> loginSessionRecord option" where
  "lookup_session mem ps h = (case map_of mem h of
     Some r \<Rightarrow> Some r
   | None \<Rightarrow> map_option loginSessionRecordFromModel (find (\<lambda>p. TokenHash p = h) ps))"

abbreviation held :: "session_state \<Rightarrow> string \<Rightarrow> loginSessionRecord option" where
  "held s \<equiv> lookup_session (sessions s) (session_rows s)"

definition accept_at :: "session_env \<Rightarrow> string \<Rightarrow> int \<Rightarrow> loginSessionRecord option \<Rightarrow> loginSessionRecord option" where
  "accept_at env ep t ro = (case ro of
     Some r \<Rightarrow> (if loginSessionRecordReasonLocked env ep r t = None then Some r else None) | None \<Rightarrow> None)"

definition live :: "session_env \<Rightarrow> session_state \<Rightarrow> int \<Rightarrow> string \<Rightarrow> loginSessionRecord option" where
  \<comment> \<open>the sessions that are accepted at an instant\<close>
  "live env s t h = accept_at env (epoch s) t (held s h)"

definition store_ok :: "session_state \<Rightarrow> bool" where
  "store_ok s \<longleftrightarrow> distinct (map fst (sessions s)) \<and> distinct (map TokenHash (session_rows s))
     \<and> fst ` set (sessions s) \<inter> TokenHash ` set (session_rows s) = {}
     \<and> length (sessions s) \<le> maxInMemoryLoginSessions"

lemma find_row_filter:
  assumes "distinct (map TokenHash ps)"
  shows "find (\<lambda>p. TokenHash p = h) (filter Q ps)
     = (case find (\<lambda>p. TokenHash p = h) ps of Some p \<Rightarrow> if Q p then Some p else None | None \<Rightarrow> None)"
  using assms
proof (induction ps)
  case (Cons p ps)
  have "find (\<lambda>q. TokenHash q = TokenHash p) ps = None" using Cons.prems by (auto simp: find_None_iff image_iff)
  with Cons show ?case by (cases "TokenHash p = h") (auto split: option.split)
qed simp

lemma find_row_delete:
  "find (\<lambda>p. TokenHash p = h) (filter (\<lambda>p. TokenHash p \<noteq> k) ps) = (if h = k then None else find (\<lambda>p. TokenHash p = h) ps)"
  by (induction ps) auto

lemma find_row_Some: "find (\<lambda>p. TokenHash p = h) ps = Some p \<Longrightarrow> p \<in> set ps \<and> TokenHash p = h"
  by (induction ps) (auto split: if_splits)

lemma find_row_None: "find (\<lambda>p. TokenHash p = h) ps = None \<longleftrightarrow> h \<notin> TokenHash ` set ps"
  by (auto simp: find_None_iff)

lemma find_row_mem:
  "distinct (map TokenHash ps) \<Longrightarrow> p \<in> set ps \<Longrightarrow> find (\<lambda>q. TokenHash q = TokenHash p) ps = Some p"
  by (induction ps) (auto simp: image_iff)

lemma map_of_filter_key:
  "distinct (map fst xs) \<Longrightarrow> map_of (filter (\<lambda>(k, v). P k v) xs) h = (case map_of xs h of Some v \<Rightarrow> if P h v then Some v else None | None \<Rightarrow> None)"
proof (induction xs)
  case (Cons x xs)
  then have "map_of xs (fst x) = None" by (simp add: map_of_eq_None_iff)
  with Cons show ?case by (cases x) (auto split: option.split)
qed simp

lemma lookup_update: "lookup_session (AList.update k r mem) ps h = (if h = k then Some r else lookup_session mem ps h)"
  by (simp add: lookup_session_def AList.update_conv')

lemma lookup_delete_row:
  "lookup_session mem (filter (\<lambda>p. TokenHash p \<noteq> k) ps) h = (if h = k then map_of mem k else lookup_session mem ps h)"
  by (auto simp: lookup_session_def find_row_delete split: option.split)

lemma lookup_delete:
  "lookup_session (AList.delete k mem) ps h
     = (if h = k then map_option loginSessionRecordFromModel (find (\<lambda>p. TokenHash p = k) ps) else lookup_session mem ps h)"
  by (simp add: lookup_session_def AList.delete_conv')

lemma update_length: "k \<notin> fst ` set xs \<Longrightarrow> length (AList.update k v xs) = Suc (length xs)"
  by (induction xs) auto

lemma update_length_known: "k \<in> fst ` set xs \<Longrightarrow> length (AList.update k v xs) = length xs"
  by (induction xs) auto

lemma update_keys: "fst ` set (AList.update k v xs) = insert k (fst ` set xs)"
  by (induction xs) auto

lemma store_okD:
  assumes "store_ok s"
  shows "distinct (map fst (sessions s))" "distinct (map TokenHash (session_rows s))"
    "h \<in> fst ` set (sessions s) \<Longrightarrow> h \<notin> TokenHash ` set (session_rows s)" "length (sessions s) \<le> maxInMemoryLoginSessions"
    "map_of (sessions s) h = Some r \<Longrightarrow> find (\<lambda>p. TokenHash p = h) (session_rows s) = None"
  using assms by (force simp: store_ok_def find_row_None dest: map_of_SomeD)+

lemma store_ok_delete_row: "store_ok s \<Longrightarrow> store_ok (delete_row h s)"
  by (auto simp: store_ok_def delete_row_def distinct_map_filter)

section \<open>Changes that nobody notices\<close>

lemma reason_mono: "loginSessionRecordReasonLocked env ep r now \<noteq> None \<Longrightarrow> now \<le> t \<Longrightarrow> loginSessionRecordReasonLocked env ep r t \<noteq> None"
  by (auto simp: loginSessionRecordReasonLocked_def split: if_splits)

definition expired_at :: "session_env \<Rightarrow> string \<Rightarrow> int \<Rightarrow> loginSessionRecord option \<Rightarrow> bool" where
  "expired_at env ep now ro = (case ro of Some r \<Rightarrow> loginSessionRecordReasonLocked env ep r now \<noteq> None | None \<Rightarrow> False)"

lemma expired_at_simps [simp]:
  "\<not> expired_at env ep now None"
  "expired_at env ep now (Some r) \<longleftrightarrow> loginSessionRecordReasonLocked env ep r now \<noteq> None"
  by (simp_all add: expired_at_def)

lemma expired_at_mono: "expired_at env ep now ro \<Longrightarrow> now \<le> t \<Longrightarrow> expired_at env ep t ro"
  using reason_mono [of env ep _ now t] by (auto simp: expired_at_def split: option.splits)

text \<open>One set of sessions has lost, against another, only sessions that nobody can use any more.\<close>

definition drops :: "session_env \<Rightarrow> string \<Rightarrow> int \<Rightarrow> (string \<Rightarrow> loginSessionRecord option) \<Rightarrow> (string \<Rightarrow> loginSessionRecord option) \<Rightarrow> bool" where
  "drops env ep now m m' \<longleftrightarrow> (\<forall>h. m' h = m h \<or> m' h = None \<and> expired_at env ep now (m h))"

lemma drops_refl [simp]: "drops env ep now m m"
  by (simp add: drops_def)

lemma drops_trans: "drops env ep now m m' \<Longrightarrow> drops env ep now m' m'' \<Longrightarrow> drops env ep now m m''"
  unfolding drops_def by metis

lemma drops_mono: "drops env ep now m m' \<Longrightarrow> now \<le> t \<Longrightarrow> drops env ep t m m'"
  unfolding drops_def using expired_at_mono by blast

lemma drops_upd: "drops env ep now m m' \<Longrightarrow> drops env ep now (m(h := x)) (m'(h := x))"
  by (simp add: drops_def)

lemma drops_accept:
  assumes "drops env ep now m m'" "now \<le> t"
  shows "accept_at env ep t (m' h) = accept_at env ep t (m h)"
proof -
  have "m' h = m h \<or> m' h = None \<and> expired_at env ep t (m h)"
    using drops_mono [OF assms] unfolding drops_def by blast
  then show ?thesis by (cases "m h") (auto simp: accept_at_def)
qed

definition same_live :: "session_env \<Rightarrow> int \<Rightarrow> session_state \<Rightarrow> session_state \<Rightarrow> bool" where
  "same_live env now s s' \<longleftrightarrow> epoch s' = epoch s \<and> drops env (epoch s) now (held s) (held s')"

lemma same_live_refl [simp]: "same_live env now s s"
  by (simp add: same_live_def)

lemma same_live_trans: "same_live env now s s' \<Longrightarrow> same_live env now s' s'' \<Longrightarrow> same_live env now s s''"
  unfolding same_live_def using drops_trans by metis

lemma same_live_live: "same_live env now s s' \<Longrightarrow> now \<le> t \<Longrightarrow> live env s' t h = live env s t h"
  unfolding same_live_def live_def using drops_accept by metis

lemma prune_memory:
  assumes ok: "store_ok s"
  shows "store_ok (pruneExpiredLoginSessionsLocked env now s) \<and> same_live env now s (pruneExpiredLoginSessionsLocked env now s)"
proof
  note D = store_okD [OF ok]
  let ?f = "filter (\<lambda>(h, r). loginSessionRecordReasonLocked env (epoch s) r now = None) (sessions s)"
  have "length ?f \<le> length (sessions s)" by (rule length_filter_le)
  then have "length ?f \<le> maxInMemoryLoginSessions" using D(4) by linarith
  then show "store_ok (pruneExpiredLoginSessionsLocked env now s)"
    using ok by (auto simp: store_ok_def pruneExpiredLoginSessionsLocked_def distinct_map_filter)
  show "same_live env now s (pruneExpiredLoginSessionsLocked env now s)"
    using D(5) map_of_filter_key [OF D(1), of "\<lambda>h r. loginSessionRecordReasonLocked env (epoch s) r now = None"]
    by (auto simp: same_live_def drops_def lookup_session_def expired_at_def pruneExpiredLoginSessionsLocked_def split: option.split)
qed

lemma prune_rows:
  assumes ok: "store_ok s" and p: "prunePersistedLoginSessionsLocked env now n s = (done, n', s')"
  shows "store_ok s' \<and> same_live env now s s'"
proof (cases "db_open env \<and> stmt_ok env n")
  case True
  define Q :: "LoginSession \<Rightarrow> bool" where
    "Q = (\<lambda>p. \<not> (expiresAt (ls_record p) \<le> now \<or> lr_version (ls_record p) \<noteq> currentLoginSessionVersion env \<or> lr_epoch (ls_record p) \<noteq> epoch s))"
  have s': "s' = s\<lparr>session_rows := filter Q (session_rows s)\<rparr>" using True p by (auto simp: prunePersistedLoginSessionsLocked_def Q_def)
  have out: "\<not> Q q \<Longrightarrow> loginSessionRecordReasonLocked env (epoch s) (loginSessionRecordFromModel q) now \<noteq> None" for q
    by (auto simp: Q_def loginSessionRecordReasonLocked_def loginSessionRecordFromModel_def)
  have "store_ok s'" using ok by (auto simp: s' store_ok_def distinct_map_filter)
  moreover have "same_live env now s s'"
    using find_row_filter [OF store_okD(2) [OF ok], of _ Q] out
    by (auto simp: s' same_live_def drops_def lookup_session_def expired_at_def split: option.split)
  ultimately show ?thesis by blast
next
  case False
  then have "s' = s" using p by (auto simp: prunePersistedLoginSessionsLocked_def split: if_splits)
  then show ?thesis using ok by simp
qed

lemma move_row:
  assumes ok: "store_ok s" and c: "c \<in> set (session_rows s)" and room: "length (sessions s) < maxInMemoryLoginSessions"
    and r: "r = loginSessionRecordFromModel c"
  shows "store_ok (delete_row (TokenHash c) s)"
    "loginSessionRecordReasonLocked env (epoch s) r now \<noteq> None \<Longrightarrow> same_live env now s (delete_row (TokenHash c) s)"
    "store_ok ((delete_row (TokenHash c) s)\<lparr>sessions := AList.update (TokenHash c) r (sessions s)\<rparr>)"
    "same_live env now s ((delete_row (TokenHash c) s)\<lparr>sessions := AList.update (TokenHash c) r (sessions s)\<rparr>)"
proof -
  have fresh: "TokenHash c \<notin> fst ` set (sessions s)" using ok c by (auto simp: store_ok_def)
  have none: "map_of (sessions s) (TokenHash c) = None" using fresh by (simp add: map_of_eq_None_iff)
  have h: "held s (TokenHash c) = Some r"
    using find_row_mem [OF store_okD(2) [OF ok] c] none by (simp add: lookup_session_def r)
  show "store_ok (delete_row (TokenHash c) s)" using ok by (rule store_ok_delete_row)
  show "loginSessionRecordReasonLocked env (epoch s) r now \<noteq> None \<Longrightarrow> same_live env now s (delete_row (TokenHash c) s)"
    using h none by (simp add: same_live_def drops_def delete_row_def lookup_delete_row expired_at_def)
  show "store_ok ((delete_row (TokenHash c) s)\<lparr>sessions := AList.update (TokenHash c) r (sessions s)\<rparr>)"
    using ok fresh room by (auto simp: store_ok_def delete_row_def update_length update_keys distinct_update distinct_map_filter)
  show "same_live env now s ((delete_row (TokenHash c) s)\<lparr>sessions := AList.update (TokenHash c) r (sessions s)\<rparr>)"
    using h none by (simp add: same_live_def drops_def delete_row_def lookup_update lookup_delete_row AList.update_conv')
qed

lemma refill_invariant:
  assumes "refillInMemoryLoginSessionsLocked env now n s = (done, n', s')" and "P s"
    and "\<And>s. P s \<Longrightarrow> P (s\<lparr>hasPersisted := False\<rparr>)"
    and "\<And>s c. P s \<Longrightarrow> c \<in> set (session_rows s) \<Longrightarrow> length (sessions s) < maxInMemoryLoginSessions \<Longrightarrow>
           loginSessionRecordReasonLocked env (epoch s) (loginSessionRecordFromModel c) now \<noteq> None \<Longrightarrow> P (delete_row (TokenHash c) s)"
    and "\<And>s c. P s \<Longrightarrow> c \<in> set (session_rows s) \<Longrightarrow> length (sessions s) < maxInMemoryLoginSessions \<Longrightarrow>
           P ((delete_row (TokenHash c) s)\<lparr>sessions := AList.update (TokenHash c) (loginSessionRecordFromModel c) (sessions s)\<rparr>)"
  shows "P s'"
  using assms
proof (induction env now n s rule: refillInMemoryLoginSessionsLocked.induct)
  case (1 env now n s)
  let ?stop = "\<not> db_open env \<or> length (sessions s) \<ge> maxInMemoryLoginSessions"
  let ?c = "newest_row (tie env n) (session_rows s)"
  note step = "1.prems"(1) [unfolded refillInMemoryLoginSessionsLocked.simps [of env now n s]]
  consider (stop) "?stop \<or> \<not> stmt_ok env n \<or> session_rows s = [] \<or> \<not> stmt_ok env (Suc n)"
    | (go) "\<not> ?stop" "\<not> \<not> stmt_ok env n" "session_rows s \<noteq> []" "\<not> \<not> stmt_ok env (Suc n)" by blast
  then show ?case
  proof cases
    case stop
    then have "s' = s \<or> s' = s\<lparr>hasPersisted := False\<rparr>" using step by (auto simp: Let_def split: if_splits)
    then show ?thesis using "1.prems"(2,3) by auto
  next
    case go
    have c: "?c \<in> set (session_rows s)" using go by (intro newest_row_mem)
    have room: "length (sessions s) < maxInMemoryLoginSessions" using go by simp
    note ih = "1.IH" [OF go(1,2,3) refl refl go(4)]
    show ?thesis
    proof (cases "loginSessionRecordReasonLocked env (epoch s) (loginSessionRecordFromModel ?c) now = None")
      case True
      show ?thesis
        by (rule ih(2)) (use True go step c room in \<open>simp_all add: Let_def "1.prems"(2-)\<close>)
    next
      case False
      show ?thesis
        by (rule ih(1)) (use False go step c room in \<open>simp_all add: Let_def "1.prems"(2-)\<close>)
    qed
  qed
qed

lemma refill_ok:
  assumes ok: "store_ok s" and f: "refillInMemoryLoginSessionsLocked env now n s = (done, n', s')"
  shows "store_ok s' \<and> same_live env now s s'"
proof (rule refill_invariant [OF f, where P = "\<lambda>u. store_ok u \<and> same_live env now s u"])
  show "store_ok s \<and> same_live env now s s" using ok by simp
  fix u c assume u: "store_ok u \<and> same_live env now s u"
  show "store_ok (u\<lparr>hasPersisted := False\<rparr>) \<and> same_live env now s (u\<lparr>hasPersisted := False\<rparr>)"
    using u by (simp add: store_ok_def same_live_def)
  assume c: "c \<in> set (session_rows u)" "length (sessions u) < maxInMemoryLoginSessions"
  note m = move_row [OF conjunct1 [OF u] c refl]
  show "store_ok (delete_row (TokenHash c) u) \<and> same_live env now s (delete_row (TokenHash c) u)"
    if "loginSessionRecordReasonLocked env (epoch u) (loginSessionRecordFromModel c) now \<noteq> None"
    using m(1) m(2) [OF that] u same_live_trans by blast
  show "store_ok ((delete_row (TokenHash c) u)\<lparr>sessions := AList.update (TokenHash c) (loginSessionRecordFromModel c) (sessions u)\<rparr>)
      \<and> same_live env now s ((delete_row (TokenHash c) u)\<lparr>sessions := AList.update (TokenHash c) (loginSessionRecordFromModel c) (sessions u)\<rparr>)"
    using m(3) m(4) u same_live_trans by blast
qed

lemma effective_idem [simp]: "EffectiveSessionMaxAgeMinutes (EffectiveSessionMaxAgeMinutes v) = EffectiveSessionMaxAgeMinutes v"
  by (simp add: EffectiveSessionMaxAgeMinutes_def sessionMaxAgeMaxMinutes_def)

lemma delete_persisted:
  assumes "deletePersistedLoginSessionLocked env h n s = (d, n', s')"
  shows "s' = delete_row h s \<and> d \<and> db_open env \<and> stmt_ok env n \<or> s' = s \<and> (\<not> db_open env \<and> d \<or> \<not> stmt_ok env n \<and> \<not> d)"
  using assms by (auto simp: deletePersistedLoginSessionLocked_def split: if_splits)

lemma delete_keys_set: "fst ` set (AList.delete k xs) = fst ` set xs - {k}"
  by (auto simp: AList.delete_eq)

lemma drop_memory:
  assumes ok: "store_ok s"
  shows "store_ok (s\<lparr>sessions := AList.delete h (sessions s)\<rparr>)"
    "map_of (sessions s) h = Some r \<Longrightarrow> loginSessionRecordReasonLocked env (epoch s) r now \<noteq> None \<Longrightarrow>
       same_live env now s (s\<lparr>sessions := AList.delete h (sessions s)\<rparr>)"
proof -
  have "length (AList.delete h (sessions s)) \<le> length (sessions s)" by (rule length_delete_le)
  then show "store_ok (s\<lparr>sessions := AList.delete h (sessions s)\<rparr>)"
    using ok by (auto simp: store_ok_def distinct_delete delete_keys_set)
  assume r: "map_of (sessions s) h = Some r" "loginSessionRecordReasonLocked env (epoch s) r now \<noteq> None"
  moreover from r have "held s h = Some r" by (simp add: lookup_session_def)
  ultimately show "same_live env now s (s\<lparr>sessions := AList.delete h (sessions s)\<rparr>)"
    using store_okD(5) [OF ok r(1)] by (simp add: same_live_def drops_def lookup_delete expired_at_def)
qed

section \<open>Loading a session\<close>

lemma load_cases:
  assumes ok: "store_ok s" and l: "loadLoginSessionLocked env h now n s = (res, n', s')"
  shows "store_ok s' \<and> same_live env now s s'
    \<and> (case res of
        Loaded r st \<Rightarrow> held s h = Some r \<and> held s' h = Some r \<and> loginSessionRecordReasonLocked env (epoch s) r now = None
          \<and> (st = StorageMemory \<longleftrightarrow> h \<in> fst ` set (sessions s'))
      | Refused _ \<Rightarrow> \<not> db_open env \<or> live env s now h = None
      | LoadFailed \<Rightarrow> \<not> stmt_ok env n \<or> \<not> stmt_ok env (Suc n))"
proof (cases "map_of (sessions s) h")
  case (Some r)
  then have hd: "held s h = Some r" by (simp add: lookup_session_def)
  have mem: "h \<in> fst ` set (sessions s)" using map_of_SomeD [OF Some] by force
  show ?thesis
  proof (cases "loginSessionRecordReasonLocked env (epoch s) r now")
    case None
    then have "res = Loaded r StorageMemory \<and> s' = s" using l Some by (simp add: loadLoginSessionLocked_def)
    then show ?thesis using ok hd mem None by simp
  next
    case (Some reason)
    note dm = drop_memory [OF ok, of h]
    obtain d m u where f: "refillInMemoryLoginSessionsLocked env now n (s\<lparr>sessions := AList.delete h (sessions s)\<rparr>) = (d, m, u)"
      by (rule prod_cases3)
    have "same_live env now s (s\<lparr>sessions := AList.delete h (sessions s)\<rparr>)"
      using dm(2) \<open>map_of (sessions s) h = Some r\<close> Some by simp
    with refill_ok [OF dm(1) f] have "store_ok u \<and> same_live env now s u" using same_live_trans by blast
    moreover have "res = Refused reason \<and> s' = u"
      using l f Some \<open>map_of (sessions s) h = Some r\<close> by (simp add: loadLoginSessionLocked_def)
    moreover have "live env s now h = None" using hd Some by (simp add: live_def accept_at_def)
    ultimately show ?thesis by simp
  qed
next
  case None
  show ?thesis
  proof (cases "db_open env \<and> stmt_ok env n")
    case False
    then show ?thesis using l None ok by (auto simp: loadLoginSessionLocked_def split: if_splits)
  next
    case True
    show ?thesis
    proof (cases "find (\<lambda>p. TokenHash p = h) (session_rows s)")
      case (Some p)
      have p: "p \<in> set (session_rows s)" "TokenHash p = h" using find_row_Some [OF Some] by auto
      let ?r = "loginSessionRecordFromModel p"
      have hd: "held s h = Some ?r" using None Some by (simp add: lookup_session_def)
      have nm: "h \<notin> fst ` set (sessions s)" using None by (simp add: map_of_eq_None_iff)
      show ?thesis
      proof (cases "loginSessionRecordReasonLocked env (epoch s) ?r now")
        case bad: (Some reason)
        note step = l [unfolded loadLoginSessionLocked_def, simplified None Some bad True Let_def option.case if_True simp_thms]
        have dead: "live env s now h = None" using hd bad by (simp add: live_def accept_at_def)
        have "store_ok (delete_row h s)" "same_live env now s (delete_row h s)"
          using ok None hd bad
          by (auto simp: store_ok_def delete_row_def distinct_map_filter same_live_def drops_def lookup_delete_row expired_at_def)
        then show ?thesis using step dead ok True
          by (auto simp: deletePersistedLoginSessionLocked_def split: if_splits)
      next
        case good: None
        show ?thesis
        proof (cases "length (sessions s) < maxInMemoryLoginSessions \<and> stmt_ok env (Suc n)")
          case room: True
          note m = move_row [OF ok p(1) conjunct1 [OF room] refl]
          have "s' = (delete_row h s)\<lparr>sessions := AList.update h ?r (sessions s)\<rparr> \<and> res = Loaded ?r StorageMemory"
            using l None Some good True room
            by (simp add: loadLoginSessionLocked_def deletePersistedLoginSessionLocked_def Let_def delete_row_def)
          then show ?thesis
            using m(3) m(4) [of env now] hd good by (simp add: p(2) lookup_update update_keys)
        next
          case full: False
          then have "s' = s \<and> res = Loaded ?r StorageDatabase"
            using l None Some good True
            by (auto simp: loadLoginSessionLocked_def deletePersistedLoginSessionLocked_def Let_def split: if_splits)
          then show ?thesis using ok hd good nm by simp
        qed
      qed
    next
      case nr: None
      then show ?thesis using l None ok True by (auto simp: loadLoginSessionLocked_def live_def accept_at_def lookup_session_def)
    qed
  qed
qed

section \<open>The operations\<close>

lemma remove_cases:
  assumes ok: "store_ok s" and h: "h \<noteq> []"
  shows "store_ok (snd (removeLoginSession env now h n s))
    \<and> epoch (snd (removeLoginSession env now h n s)) = epoch s
    \<and> (\<exists>m. drops env (epoch s) now m (held (snd (removeLoginSession env now h n s)))
        \<and> (m = (held s)(h := None) \<or> m = held s \<and> h \<notin> fst ` set (sessions s) \<and> \<not> (db_open env \<and> stmt_ok env n)))"
proof -
  let ?s1 = "s\<lparr>sessions := AList.delete h (sessions s)\<rparr>"
  obtain d n1 s1 where del: "deletePersistedLoginSessionLocked env h n ?s1 = (d, n1, s1)" by (rule prod_cases3)
  define u where "u = snd (removeLoginSession env now h n s)"
  have ok1: "store_ok ?s1" using ok by (rule drop_memory)
  have ok1': "store_ok s1"
    using ok1 store_ok_delete_row [OF ok1] del by (auto simp: deletePersistedLoginSessionLocked_def split: if_splits)
  have u: "store_ok u \<and> same_live env now s1 u"
  proof (cases d)
    case True
    obtain d2 n2 s2 where f: "refillInMemoryLoginSessionsLocked env now n1 s1 = (d2, n2, s2)" by (rule prod_cases3)
    have "u = s2" using True del f h by (simp add: u_def removeLoginSession_def)
    then show ?thesis using refill_ok [OF ok1' f] by simp
  next
    case False
    then have "u = s1" using del h by (simp add: u_def removeLoginSession_def)
    then show ?thesis using ok1' by simp
  qed
  have s1: "s1 = delete_row h ?s1 \<or> s1 = ?s1 \<and> \<not> (db_open env \<and> stmt_ok env n)"
    using delete_persisted [OF del] by blast
  have ep: "epoch s1 = epoch s" using s1 by (auto simp: delete_row_def)
  have "held s1 = (held s)(h := None) \<or> held s1 = held s \<and> h \<notin> fst ` set (sessions s) \<and> \<not> (db_open env \<and> stmt_ok env n)"
  proof (cases "s1 = delete_row h ?s1")
    case True
    then show ?thesis by (auto simp: delete_row_def lookup_delete_row lookup_delete AList.delete_conv' fun_eq_iff)
  next
    case False
    then have s1': "s1 = ?s1" and bad: "\<not> (db_open env \<and> stmt_ok env n)" using s1 by auto
    show ?thesis
    proof (cases "h \<in> fst ` set (sessions s)")
      case True
      then have "h \<notin> TokenHash ` set (session_rows s)" by (rule store_okD(3) [OF ok])
      then have "find (\<lambda>p. TokenHash p = h) (session_rows s) = None" by (simp only: find_row_None not_False_eq_True)
      then show ?thesis by (simp add: s1' lookup_delete fun_eq_iff)
    next
      case False
      then have "AList.delete h (sessions s) = sessions s" by (force simp: AList.delete_eq filter_id_conv)
      then show ?thesis using False bad s1' by simp
    qed
  qed
  then show ?thesis using u ep unfolding u_def [symmetric] same_live_def by auto
qed

lemma add_memory:
  assumes ok: "store_ok s" and free: "held s h = None" and room: "length (sessions s) < maxInMemoryLoginSessions"
  shows "store_ok (s\<lparr>sessions := AList.update h r (sessions s)\<rparr>)"
proof -
  have "map_of (sessions s) h = None" "find (\<lambda>p. TokenHash p = h) (session_rows s) = None"
    using free by (auto simp: lookup_session_def split: option.splits)
  then have "h \<notin> fst ` set (sessions s)" "h \<notin> TokenHash ` set (session_rows s)"
    by (simp_all add: map_of_eq_None_iff find_row_None)
  then show ?thesis using ok room by (auto simp: store_ok_def update_length update_keys distinct_update)
qed

lemma find_row_append:
  "find P (xs @ ys) = (case find P xs of Some x \<Rightarrow> Some x | None \<Rightarrow> find P ys)"
  by (induction xs) auto

lemma add_row:
  assumes ok: "store_ok s" and free: "held s h = None" and r: "idleLimitMinutes r = EffectiveSessionMaxAgeMinutes m"
  shows "store_ok (s\<lparr>session_rows := session_rows s @ [loginSessionModel stamp h r], hasPersisted := True\<rparr>)"
    "lookup_session (sessions s) (session_rows s @ [loginSessionModel stamp h r]) = (held s)(h \<mapsto> r)"
proof -
  have n: "map_of (sessions s) h = None" "find (\<lambda>p. TokenHash p = h) (session_rows s) = None"
    using free by (auto simp: lookup_session_def split: option.splits)
  then have "h \<notin> fst ` set (sessions s)" "h \<notin> TokenHash ` set (session_rows s)"
    by (simp_all add: map_of_eq_None_iff find_row_None)
  then show "store_ok (s\<lparr>session_rows := session_rows s @ [loginSessionModel stamp h r], hasPersisted := True\<rparr>)"
    using ok by (auto simp: store_ok_def loginSessionModel_def)
  have "loginSessionRecordFromModel (loginSessionModel stamp h r) = r"
    using r by (cases r) (simp add: loginSessionRecordFromModel_def loginSessionModel_def normalizeStoredSessionTimeoutMinutes_def)
  then show "lookup_session (sessions s) (session_rows s @ [loginSessionModel stamp h r]) = (held s)(h \<mapsto> r)"
    using n
    by (auto simp: lookup_session_def fun_eq_iff loginSessionModel_def find_row_append split: option.split)
qed

lemma drops_free: "drops env ep now m m' \<Longrightarrow> m h = None \<Longrightarrow> m' h = None"
  unfolding drops_def by (metis)

lemma store_cases:
  assumes ok: "store_ok s" and free: "held s h = None" and m: "idle = EffectiveSessionMaxAgeMinutes k"
    and st: "storeLoginSession env now h user v ex la idle n s = (res, n', s')"
  defines "r \<equiv> \<lparr>userName = user, lr_version = v, lr_epoch = epoch s, expiresAt = ex, lastActivityAt = la, idleLimitMinutes = idle\<rparr>"
  shows "store_ok s' \<and> epoch s' = epoch s
    \<and> (res = Some r \<and> drops env (epoch s) now ((held s)(h \<mapsto> r)) (held s')
       \<or> res = None \<and> drops env (epoch s) now (held s) (held s') \<and> \<not> (db_open env \<and> (\<forall>i. stmt_ok env i)))"
proof -
  let ?s0 = "pruneExpiredLoginSessionsLocked env now s"
  obtain d n1 s1 where f: "refillInMemoryLoginSessionsLocked env now n ?s0 = (d, n1, s1)" by (rule prod_cases3)
  have p: "store_ok ?s0" "same_live env now s ?s0" using prune_memory [OF ok, of env now] by auto
  have "store_ok s1" "same_live env now s s1" using refill_ok [OF p(1) f] p(2) same_live_trans by blast+
  then have s1: "store_ok s1" "epoch s1 = epoch s" "drops env (epoch s) now (held s) (held s1)" by (auto simp: same_live_def)
  have free1: "held s1 h = None" using drops_free [OF s1(3) free] .
  show ?thesis
  proof (cases "length (sessions s1) < maxInMemoryLoginSessions")
    case True
    then have "res = Some r \<and> s' = s1\<lparr>sessions := AList.update h r (sessions s1)\<rparr>"
      using st f s1(2) by (simp add: storeLoginSession_def r_def Let_def)
    moreover have "lookup_session (AList.update h r (sessions s1)) (session_rows s1) = (held s1)(h \<mapsto> r)"
      by (simp add: lookup_update fun_eq_iff)
    ultimately show ?thesis using add_memory [OF s1(1) free1 True, of r] s1 drops_upd [OF s1(3), of h "Some r"] by simp
  next
    case False
    have r: "idleLimitMinutes r = EffectiveSessionMaxAgeMinutes k" using m by (simp add: r_def)
    obtain d2 n2 s2 where sv: "savePersistedLoginSessionLocked env h r n1 s1 = (d2, n2, s2)" by (rule prod_cases3)
    have out: "s' = s2 \<and> res = (if d2 then Some r else None)"
      using st f s1(2) False sv by (cases d2) (simp_all add: storeLoginSession_def Let_def r_def)
    have new: "h \<notin> TokenHash ` set (session_rows s1)"
      using free1 by (auto simp: lookup_session_def find_row_None split: option.splits)
    show ?thesis
    proof (cases "db_open env \<and> stmt_ok env n1")
      case True
      then have "res = Some r" "s' = s1\<lparr>session_rows := session_rows s1 @ [loginSessionModel (db_clock env) h r], hasPersisted := True\<rparr>"
        using sv out new by (auto simp: savePersistedLoginSessionLocked_def)
      then show ?thesis
        using add_row [OF s1(1) free1 r, of "db_clock env"] s1 drops_upd [OF s1(3), of h "Some r"] by simp
    next
      case False
      then have "res = None" "s' = s1" using sv out by (auto simp: savePersistedLoginSessionLocked_def split: if_splits)
      then show ?thesis using s1 False by auto
    qed
  qed
qed

definition renewed :: "session_env \<Rightarrow> int \<Rightarrow> loginSessionRecord \<Rightarrow> loginSessionRecord" where
  "renewed env now r = (let idle = currentLoginSessionTimeoutMinutes env (idleLimitMinutes r)
     in r\<lparr>idleLimitMinutes := idle, expiresAt := loginSessionExpiry now idle, lastActivityAt := now\<rparr>)"

lemma timeout_effective [simp]:
  "EffectiveSessionMaxAgeMinutes (currentLoginSessionTimeoutMinutes env k) = currentLoginSessionTimeoutMinutes env k"
  by (auto simp: currentLoginSessionTimeoutMinutes_def normalizeStoredSessionTimeoutMinutes_def GetEffectiveSessionMaxAgeMinutes_def
      split: option.split)

lemma lookup_map_rows:
  assumes "\<And>p. TokenHash (f p) = TokenHash p"
  shows "find (\<lambda>p. TokenHash p = h) (map f ps) = map_option f (find (\<lambda>p. TokenHash p = h) ps)"
  by (induction ps) (auto simp: assms)

lemma store_ok_map_rows:
  assumes "\<And>p. TokenHash (f p) = TokenHash p"
  shows "store_ok (s\<lparr>session_rows := map f (session_rows s)\<rparr>) = store_ok s"
  by (simp add: store_ok_def image_image assms o_def)

lemma store_ok_keys:
  "store_ok s \<longleftrightarrow> (let ks = map fst (sessions s); hs = map TokenHash (session_rows s)
     in distinct ks \<and> distinct hs \<and> set ks \<inter> set hs = {} \<and> length ks \<le> maxInMemoryLoginSessions)"
  by (simp add: store_ok_def)

lemma update_row_hash [simp]: "TokenHash (update_row env h r p) = TokenHash p"
  by (simp add: update_row_def)

lemma update_rows_held:
  assumes "map_of mem h = None" "lookup_session mem ps h = Some r"
  shows "lookup_session mem (map (update_row env h (renewed env now r)) ps) = (lookup_session mem ps)(h \<mapsto> renewed env now r)"
proof
  fix k
  obtain p where p: "find (\<lambda>p. TokenHash p = h) ps = Some p" "r = loginSessionRecordFromModel p"
    using assms by (auto simp: lookup_session_def)
  have "loginSessionRecordFromModel (update_row env h (renewed env now r) p) = renewed env now r"
    using find_row_Some [OF p(1)]
    by (simp add: p(2) loginSessionRecordFromModel_def update_row_def renewed_def Let_def normalizeStoredSessionTimeoutMinutes_def)
  moreover have "find (\<lambda>p. TokenHash p = k) ps = Some q \<Longrightarrow> k \<noteq> h \<Longrightarrow> update_row env h (renewed env now r) q = q" for q
    using find_row_Some [of k ps q] by (simp add: update_row_def)
  ultimately show "lookup_session mem (map (update_row env h (renewed env now r)) ps) k = ((lookup_session mem ps)(h \<mapsto> renewed env now r)) k"
    using assms(1) p by (cases "find (\<lambda>p. TokenHash p = k) ps") (auto simp: lookup_session_def lookup_map_rows split: option.split)
qed

lemma update_persisted:
  assumes ok: "store_ok s" and m: "map_of (sessions s) h = None" and r: "held s h = Some r"
    and u: "updatePersistedLoginSessionLocked env h (renewed env now r) n s = (d, n', s')"
  shows "store_ok s' \<and> epoch s' = epoch s \<and> (held s' = (held s)(h \<mapsto> renewed env now r) \<or> \<not> d \<and> held s' = held s)
    \<and> (db_open env \<and> (\<forall>i. stmt_ok env i) \<longrightarrow> d)"
proof (cases "db_open env \<and> stmt_ok env n")
  case True
  have known: "h \<in> TokenHash ` set (session_rows s)"
    using m r find_row_None [of h "session_rows s"] by (auto simp: lookup_session_def)
  have "s' = s\<lparr>session_rows := map (update_row env h (renewed env now r)) (session_rows s)\<rparr>"
    using True u by (auto simp: updatePersistedLoginSessionLocked_def Let_def split: if_splits)
  then show ?thesis
    using ok update_rows_held [OF m r, of env now] True u known
    by (auto simp: store_ok_map_rows updatePersistedLoginSessionLocked_def Let_def split: if_splits)
next
  case False
  then show ?thesis using u ok by (auto simp: updatePersistedLoginSessionLocked_def split: if_splits)
qed

lemma update_memory:
  assumes "store_ok s" "h \<in> fst ` set (sessions s)"
  shows "store_ok (s\<lparr>sessions := AList.update h r (sessions s)\<rparr>)"
  using assms by (auto simp: store_ok_def update_keys distinct_update update_length_known)

lemma refresh_cases:
  assumes ok: "store_ok s" and rf: "refreshLoginSession env h now n s = (res, n', s')"
  shows "store_ok s' \<and> epoch s' = epoch s
    \<and> (drops env (epoch s) now (held s) (held s') \<and> (\<forall>r'. res \<noteq> Inr r') \<and> (db_open env \<and> (\<forall>i. stmt_ok env i) \<longrightarrow> live env s now h = None)
       \<or> (\<exists>r. held s h = Some r \<and> loginSessionRecordReasonLocked env (epoch s) r now = None
            \<and> drops env (epoch s) now ((held s)(h \<mapsto> renewed env now r)) (held s')
            \<and> (res = Inr (renewed env now r) \<or> \<not> (db_open env \<and> (\<forall>i. stmt_ok env i)) \<and> (\<forall>r'. res \<noteq> Inr r'))))"
proof -
  obtain lr n1 s1 where l: "loadLoginSessionLocked env h now n s = (lr, n1, s1)" by (rule prod_cases3)
  note L = load_cases [OF ok l]
  have s1: "store_ok s1" "epoch s1 = epoch s" "drops env (epoch s) now (held s) (held s1)"
    using L by (auto simp: same_live_def)
  show ?thesis
  proof (cases lr)
    case (Loaded r st)
    have r: "held s h = Some r" "held s1 h = Some r" "loginSessionRecordReasonLocked env (epoch s) r now = None"
      "st = StorageMemory \<longleftrightarrow> h \<in> fst ` set (sessions s1)" using L Loaded by auto
    have dr: "drops env (epoch s) now ((held s)(h \<mapsto> renewed env now r)) ((held s1)(h \<mapsto> renewed env now r))"
      by (rule drops_upd [OF s1(3)])
    show ?thesis
    proof (cases st)
      case StorageMemory
      then have "s' = s1\<lparr>sessions := AList.update h (renewed env now r) (sessions s1)\<rparr>" "res = Inr (renewed env now r)"
        using rf l Loaded by (simp_all add: refreshLoginSession_def Let_def renewed_def)
      moreover have "lookup_session (AList.update h (renewed env now r) (sessions s1)) (session_rows s1) = (held s1)(h \<mapsto> renewed env now r)"
        by (simp add: lookup_update fun_eq_iff)
      ultimately show ?thesis using update_memory [OF s1(1)] r StorageMemory s1(2) dr by simp
    next
      case StorageDatabase
      then have m: "map_of (sessions s1) h = None" using r(4) by (simp add: map_of_eq_None_iff)
      obtain d n2 s2 where u: "updatePersistedLoginSessionLocked env h (renewed env now r) n1 s1 = (d, n2, s2)" by (rule prod_cases3)
      have out: "s' = s2 \<and> res = (if d then Inr (renewed env now r) else Inl ReasonStoreFailed)"
        using rf l Loaded StorageDatabase u by (cases d) (simp_all add: refreshLoginSession_def Let_def renewed_def)
      note U = update_persisted [OF s1(1) m r(2) u]
      show ?thesis
      proof (cases "held s2 = (held s1)(h \<mapsto> renewed env now r)")
        case True
        then show ?thesis using U out dr r s1(2) by (cases d) auto
      next
        case False
        then have "\<not> d" "held s2 = held s1" using U by auto
        then show ?thesis using U out s1 by auto
      qed
    qed
  next
    case (Refused reason)
    then have "s' = s1 \<and> res = Inl reason" using rf l by (simp add: refreshLoginSession_def)
    then show ?thesis using s1 L Refused by auto
  next
    case LoadFailed
    then have "s' = s1 \<and> res = Inl ReasonStoreFailed" using rf l by (simp add: refreshLoginSession_def)
    then show ?thesis using s1 L LoadFailed by auto
  qed
qed

lemma tick_cases:
  assumes ok: "store_ok s"
  shows "store_ok (cleanup_tick env now s) \<and> same_live env now s (cleanup_tick env now s)"
proof (cases "sessions s = [] \<and> \<not> hasPersisted s")
  case True
  then show ?thesis using ok by (simp add: cleanup_tick_def)
next
  case False
  let ?s0 = "pruneExpiredLoginSessionsLocked env now s"
  obtain d n1 s1 where p: "prunePersistedLoginSessionsLocked env now 0 ?s0 = (d, n1, s1)" by (rule prod_cases3)
  obtain d2 n2 s2 where f: "refillInMemoryLoginSessionsLocked env now n1 s1 = (d2, n2, s2)" by (rule prod_cases3)
  have a: "store_ok ?s0" "same_live env now s ?s0" using prune_memory [OF ok] by auto
  have b: "store_ok s1" "same_live env now s s1" using prune_rows [OF a(1) p] a(2) same_live_trans by blast+
  have c: "store_ok s2" "same_live env now s s2" using refill_ok [OF b(1) f] b(2) same_live_trans by blast+
  have "cleanup_tick env now s = (if d then s2 else s1)" using False p f by (cases d) (auto simp: cleanup_tick_def)
  then show ?thesis using b c by simp
qed

lemma rename_from_model:
  "loginSessionRecordFromModel (if userName (ls_record p) = old
     then p\<lparr>ls_record := rename_record old new (ls_record p), UpdatedAt := t\<rparr> else p)
   = rename_record old new (loginSessionRecordFromModel p)"
  by (simp add: loginSessionRecordFromModel_def rename_record_def)

lemma rename_cases:
  assumes ok: "store_ok s" and r: "RenameLoginSessionUser env old new s = (d, s')" and op: "db_open env"
  shows "store_ok s' \<and> epoch s' = epoch s
    \<and> held s' = (if d \<and> trim_space old \<noteq> [] \<and> trim_space new \<noteq> [] \<and> trim_space old \<noteq> trim_space new
                then map_option (rename_record (trim_space old) (trim_space new)) \<circ> held s else held s)
    \<and> (stmt_ok env 0 \<longrightarrow> d)"
proof (cases "trim_space old = [] \<or> trim_space new = [] \<or> trim_space old = trim_space new \<or> \<not> stmt_ok env 0")
  case True
  then have "s' = s" using r op by (auto simp: RenameLoginSessionUser_def Let_def split: if_splits)
  then show ?thesis using True ok r op by (auto simp: RenameLoginSessionUser_def Let_def split: if_splits)
next
  case False
  define f :: "LoginSession \<Rightarrow> LoginSession" where "f = (\<lambda>p. if userName (ls_record p) = trim_space old
     then p\<lparr>ls_record := rename_record (trim_space old) (trim_space new) (ls_record p), UpdatedAt := db_clock env\<rparr> else p)"
  let ?g = "rename_record (trim_space old) (trim_space new)"
  have s': "s' = s\<lparr>session_rows := map f (session_rows s), sessions := map (\<lambda>(h, r). (h, ?g r)) (sessions s)\<rparr>" and d
    using False r op by (auto simp: RenameLoginSessionUser_def Let_def f_def)
  have hash: "TokenHash (f p) = TokenHash p" for p by (simp add: f_def)
  have model: "loginSessionRecordFromModel (f p) = ?g (loginSessionRecordFromModel p)" for p
    unfolding f_def by (rule rename_from_model)
  have "map fst (sessions s') = map fst (sessions s)" "map TokenHash (session_rows s') = map TokenHash (session_rows s)"
    by (auto simp: s' hash)
  then have "store_ok s'" using ok unfolding store_ok_keys Let_def by metis
  moreover have "held s' = map_option ?g \<circ> held s"
    unfolding s'
    by (auto simp: lookup_session_def fun_eq_iff map_of_map lookup_map_rows [of f, OF hash] model option.map_comp o_def split: option.split)
  ultimately show ?thesis using False \<open>d\<close> s' by simp
qed

lemma rename_closed:
  assumes ok: "store_ok s" and r: "RenameLoginSessionUser env old new s = (d, s')" and op: "\<not> db_open env"
  shows "store_ok s' \<and> epoch s' = epoch s \<and> d
    \<and> (\<forall>h. held s' h = held s h \<or> held s' h = map_option (rename_record (trim_space old) (trim_space new)) (held s h))
    \<and> (trim_space old = [] \<or> trim_space new = [] \<or> trim_space old = trim_space new \<longrightarrow> s' = s)"
proof (cases "trim_space old = [] \<or> trim_space new = [] \<or> trim_space old = trim_space new")
  case True
  then show ?thesis using ok r op by (auto simp: RenameLoginSessionUser_def Let_def split: if_splits)
next
  case False
  let ?g = "rename_record (trim_space old) (trim_space new)"
  have s': "s' = s\<lparr>sessions := map (\<lambda>(h, r). (h, ?g r)) (sessions s)\<rparr>" and d
    using False r op by (auto simp: RenameLoginSessionUser_def Let_def)
  have "map fst (sessions s') = map fst (sessions s)" "map TokenHash (session_rows s') = map TokenHash (session_rows s)"
    by (auto simp: s')
  then have "store_ok s'" using ok unfolding store_ok_keys Let_def by metis
  moreover have "held s' h = held s h \<or> held s' h = map_option ?g (held s h)" for h
    by (cases "map_of (sessions s) h") (simp_all add: s' lookup_session_def map_of_map)
  ultimately show ?thesis using False \<open>d\<close> s' by simp
qed

lemma empty_held [simp]: "lookup_session [] [] = Map.empty"
  by (simp add: lookup_session_def fun_eq_iff)

lemma refill_total:
  assumes "db_open env" "\<forall>i. stmt_ok env i" "refillInMemoryLoginSessionsLocked env now n s = (d, n', s')"
  shows "d \<and> (maxInMemoryLoginSessions \<le> length (sessions s') \<or> session_rows s' = []) \<and> n' \<le> n + 2 * length (session_rows s) + 1"
  using assms
proof (induction env now n s rule: refillInMemoryLoginSessionsLocked.induct)
  case (1 env now n s)
  let ?stop = "\<not> db_open env \<or> length (sessions s) \<ge> maxInMemoryLoginSessions"
  let ?c = "newest_row (tie env n) (session_rows s)"
  note step = "1.prems"(3) [unfolded refillInMemoryLoginSessionsLocked.simps [of env now n s]]
  show ?case
  proof (cases "?stop \<or> session_rows s = []")
    case True
    then show ?thesis using step "1.prems"(1,2) by (auto split: if_splits)
  next
    case False
    have ok: "\<not> \<not> stmt_ok env n" "\<not> \<not> stmt_ok env (Suc n)" using "1.prems"(2) by auto
    have go: "\<not> ?stop" "session_rows s \<noteq> []" using False by auto
    have less: "length (session_rows (delete_row (TokenHash ?c) s)) < length (session_rows s)"
      using delete_row_less newest_row_mem [OF go(2)] by blast
    note ih = "1.IH" [OF go(1) ok(1) go(2) refl refl ok(2) _ "1.prems"(1,2)]
    show ?thesis
    proof (cases "loginSessionRecordReasonLocked env (epoch s) (loginSessionRecordFromModel ?c) now = None")
      case True
      with step go ok have "refillInMemoryLoginSessionsLocked env now (Suc (Suc n))
        ((delete_row (TokenHash ?c) s)\<lparr>sessions := AList.update (TokenHash ?c) (loginSessionRecordFromModel ?c) (sessions s)\<rparr>) = (d, n', s')"
        by (simp add: Let_def)
      from ih(2) [OF _ this] True less show ?thesis by auto
    next
      case False
      with step go ok have "refillInMemoryLoginSessionsLocked env now (Suc (Suc n)) (delete_row (TokenHash ?c) s) = (d, n', s')"
        by (simp add: Let_def)
      from ih(1) [OF _ this] False less show ?thesis by auto
    qed
  qed
qed

end
