(* ===== verification/Login_Guarantees.thy ===== *)
theory Login_Guarantees
  imports Login_Store
begin

text \<open>
  What the login sessions guarantee over whole runs of the panel: \<open>session_step\<close> is one request, tick of the cleanup
  goroutine, or restart. While the database answers, the 25 records in memory, the table and all moves between them behave exactly
  like one map of sessions (\<open>book_step\<close>). When statements fail arbitrarily, a request is still admitted only on the
  trail of a login (\<open>trail_step\<close>).
\<close>

section \<open>Runs\<close>

datatype session_call =
    Login bool "string option" "string option" string int "int \<times> int \<times> int"
  | Check "string option" int
  | Refresh bool "string option" "int \<times> int"
  | Logout "string option" int
  | Rename string string
  | Tick int
  | Restart string
  | Boot string

datatype session_answer = Done | Admitted string | Denied | Until int

definition session_step ::
    "(string \<Rightarrow> string option) \<Rightarrow> session_env \<Rightarrow> session_call \<Rightarrow> session_state \<Rightarrow> session_answer \<times> session_state" where
  "session_step token_hash env call s = (case call of
     Login save_ok cookie fresh user minutes ts \<Rightarrow>
       (case SetLoginUser token_hash env save_ok cookie fresh user minutes ts s of (d, _, s') \<Rightarrow> (if d then Done else Denied, s'))
   | Check cookie now \<Rightarrow>
       (case GetLoginUser token_hash env None cookie now s of (u, _, s') \<Rightarrow> (if u = [] then Denied else Admitted u, s'))
   | Refresh save_ok cookie ts \<Rightarrow>
       (case RefreshLoginSession token_hash env save_ok cookie ts s of (Inr d, _, s') \<Rightarrow> (Until d, s') | (Inl _, _, s') \<Rightarrow> (Denied, s'))
   | Logout cookie now \<Rightarrow> (Done, snd (ClearSession token_hash env cookie now s))
   | Rename old new \<Rightarrow> (case RenameLoginSessionUser env old new s of (d, s') \<Rightarrow> (if d then Done else Denied, s'))
   | Tick now \<Rightarrow> (Done, cleanup_tick env now s)
   | Restart ep \<Rightarrow> (Done, InvalidateAllLoginSessions env ep s)
   | Boot ep \<Rightarrow> (case InitializeLoginSessionStore env ep s of (d, s') \<Rightarrow> (if d then Done else Denied, s')))"

fun session_run :: "(string \<Rightarrow> string option) \<Rightarrow> (session_env \<times> session_call) list \<Rightarrow> session_state \<Rightarrow> session_answer list \<times> session_state" where
  "session_run token_hash [] s = ([], s)"
| "session_run token_hash ((env, c) # cs) s =
     (let (a, s1) = session_step token_hash env c s; (as, s2) = session_run token_hash cs s1 in (a # as, s2))"

text \<open>What the sessions promise: an unbounded map of sessions, changed by what users do and by nothing else.\<close>

record session_book =
  b_epoch :: string
  granted :: "string \<Rightarrow> loginSessionRecord option"

definition granted_at :: "session_env \<Rightarrow> session_book \<Rightarrow> string \<Rightarrow> int \<Rightarrow> loginSessionRecord option" where
  "granted_at env b h t = accept_at env (b_epoch b) t (granted b h)"

definition book_step ::
    "(string \<Rightarrow> string option) \<Rightarrow> session_env \<Rightarrow> session_call \<Rightarrow> session_book \<Rightarrow> session_answer \<times> session_book" where
  "book_step token_hash env call b = (case call of
     Login save_ok cookie fresh user minutes (t0, t1, t2) \<Rightarrow>
       (case Option.bind fresh token_hash of
          None \<Rightarrow> (Denied, b)
        | Some h \<Rightarrow>
            (if \<not> save_ok then (Denied, b)
             else let m = EffectiveSessionMaxAgeMinutes minutes;
                      r = \<lparr>userName = user, lr_version = currentLoginSessionVersion env, lr_epoch = b_epoch b,
                           expiresAt = truncate_second t0 + m * 60000000000, lastActivityAt = truncate_second t0, idleLimitMinutes = m\<rparr>;
                      g = (granted b)(h \<mapsto> r)
                  in (Done, b\<lparr>granted := (case Option.bind cookie token_hash of
                                  Some h' \<Rightarrow> (if h' \<noteq> h then g(h' := None) else g) | None \<Rightarrow> g)\<rparr>)))
   | Check cookie now \<Rightarrow>
       (case Option.bind cookie token_hash of
          None \<Rightarrow> (Denied, b)
        | Some h \<Rightarrow> (case granted_at env b h now of Some r \<Rightarrow> Admitted (userName r) | None \<Rightarrow> Denied, b))
   | Refresh save_ok cookie (t0, t1) \<Rightarrow>
       (case Option.bind cookie token_hash of
          None \<Rightarrow> (Denied, b)
        | Some h \<Rightarrow>
            (case (granted_at env b h t0, granted_at env b h (truncate_second t1)) of
               (Some _, Some r) \<Rightarrow>
                 (let r' = renewed env (truncate_second t1) r
                  in (if save_ok then Until (loginSessionStatusFromRecord r') else Denied, b\<lparr>granted := (granted b)(h \<mapsto> r')\<rparr>))
             | _ \<Rightarrow> (Denied, b)))
   | Logout cookie now \<Rightarrow>
       (Done, case Option.bind cookie token_hash of Some h \<Rightarrow> b\<lparr>granted := (granted b)(h := None)\<rparr> | None \<Rightarrow> b)
   | Rename old new \<Rightarrow>
       (Done, if trim_space old \<noteq> [] \<and> trim_space new \<noteq> [] \<and> trim_space old \<noteq> trim_space new
              then b\<lparr>granted := map_option (rename_record (trim_space old) (trim_space new)) \<circ> granted b\<rparr> else b)
   | Tick now \<Rightarrow> (Done, b)
   | Restart ep \<Rightarrow> (Done, \<lparr>b_epoch = ep, granted = Map.empty\<rparr>)
   | Boot ep \<Rightarrow> (Done, \<lparr>b_epoch = ep, granted = Map.empty\<rparr>))"

fun book_run :: "(string \<Rightarrow> string option) \<Rightarrow> (session_env \<times> session_call) list \<Rightarrow> session_book \<Rightarrow> session_answer list \<times> session_book" where
  "book_run token_hash [] b = ([], b)"
| "book_run token_hash ((env, c) # cs) b =
     (let (a, b1) = book_step token_hash env c b; (as, b2) = book_run token_hash cs b1 in (a # as, b2))"

definition no_sessions :: "string \<Rightarrow> session_state" where
  \<comment> \<open>a new database and a new process\<close>
  "no_sessions ep = \<lparr>epoch = ep, sessions = [], hasPersisted = False, session_rows = []\<rparr>"

definition empty_book :: "string \<Rightarrow> session_book" where
  "empty_book ep = \<lparr>b_epoch = ep, granted = Map.empty\<rparr>"

definition call_times :: "session_call \<Rightarrow> int list" where
  "call_times c = (case c of
     Login _ _ _ _ _ (t0, t1, t2) \<Rightarrow> [t0, t1, t2] | Check _ t \<Rightarrow> [t] | Refresh _ _ (t0, t1) \<Rightarrow> [t0, t1]
   | Logout _ t \<Rightarrow> [t] | Tick t \<Rightarrow> [t] | _ \<Rightarrow> [])"

definition healthy :: "string \<Rightarrow> session_env \<Rightarrow> bool" where
  "healthy v env \<longleftrightarrow> db_open env \<and> (\<forall>n. stmt_ok env n) \<and> currentLoginSessionVersion env = v"

definition fresh_token :: "(string \<Rightarrow> string option) \<Rightarrow> session_call \<Rightarrow> (string \<Rightarrow> loginSessionRecord option) \<Rightarrow> bool" where
  "fresh_token token_hash c m = (case c of
     Login _ _ fresh _ _ _ \<Rightarrow> (case Option.bind fresh token_hash of Some h \<Rightarrow> m h = None | None \<Rightarrow> True) | _ \<Rightarrow> True)"

definition tracks :: "string \<Rightarrow> int \<Rightarrow> session_book \<Rightarrow> session_state \<Rightarrow> bool" where
  "tracks v now b s \<longleftrightarrow> store_ok s \<and> epoch s = b_epoch b
     \<and> (\<forall>env. currentLoginSessionVersion env = v \<longrightarrow> drops env (b_epoch b) now (granted b) (held s))"

lemma reason_version:
  "currentLoginSessionVersion env = currentLoginSessionVersion env' \<Longrightarrow> loginSessionRecordReasonLocked env = loginSessionRecordReasonLocked env'"
  by (simp add: loginSessionRecordReasonLocked_def fun_eq_iff)

lemma drops_version:
  "currentLoginSessionVersion env = currentLoginSessionVersion env' \<Longrightarrow> drops env = drops env'"
  unfolding drops_def [abs_def] expired_at_def by (simp only: reason_version [of env env'])

lemma tracksI:
  "store_ok s \<Longrightarrow> epoch s = b_epoch b \<Longrightarrow> currentLoginSessionVersion env = v \<Longrightarrow> drops env (b_epoch b) now (granted b) (held s) \<Longrightarrow> tracks v now b s"
  using drops_version unfolding tracks_def by metis

lemma tracksD:
  assumes "tracks v now b s"
  shows "store_ok s" "epoch s = b_epoch b" "currentLoginSessionVersion env = v \<Longrightarrow> drops env (epoch s) now (granted b) (held s)"
  using assms by (auto simp: tracks_def)

lemma healthyD:
  assumes "healthy v env"
  shows "db_open env" "stmt_ok env n" "currentLoginSessionVersion env = v"
  using assms by (simp_all add: healthy_def)

lemma validate_cases:
  assumes ok: "store_ok s" and va: "validateLoginSession token_hash env cookie t n s = (w, n', s')"
  shows "store_ok s' \<and> same_live env t s s'
    \<and> (case w of Inr x \<Rightarrow> (\<exists>h r. Option.bind cookie token_hash = Some h \<and> live env s t h = Some r \<and> held s' h = Some r
                          \<and> x = \<lparr>v_token = the cookie, v_hash = h, v_user = userName r\<rparr>)
       | Inl _ \<Rightarrow> db_open env \<and> (\<forall>i. stmt_ok env i) \<longrightarrow> Option.bind cookie (\<lambda>c. Option.bind (token_hash c) (live env s t)) = None)"
proof (cases "Option.bind cookie token_hash")
  case None
  then have "w = Inl ReasonMissing" "s' = s" using va by (simp_all add: validateLoginSession_def)
  moreover have "Option.bind cookie (\<lambda>c. Option.bind (token_hash c) (live env s t)) = None" using None by (cases cookie) auto
  ultimately show ?thesis using ok by simp
next
  case (Some h)
  obtain lr n1 s1 where l: "loadLoginSessionLocked env h t n s = (lr, n1, s1)" by (rule prod_cases3)
  note L = load_cases [OF ok l]
  have lv: "Option.bind cookie (\<lambda>c. Option.bind (token_hash c) (live env s t)) = live env s t h" using Some by (cases cookie) auto
  show ?thesis
  proof (cases lr)
    case (Loaded r st)
    then show ?thesis using va L l Some by (auto simp: validateLoginSession_def live_def accept_at_def)
  next
    case (Refused reason)
    then show ?thesis using va L l Some lv by (auto simp: validateLoginSession_def)
  next
    case LoadFailed
    then show ?thesis using va L l Some lv by (auto simp: validateLoginSession_def)
  qed
qed

lemma accepted_user: "live env s t h = Some r \<Longrightarrow> userName r \<noteq> []"
  by (auto simp: live_def accept_at_def loginSessionRecordReasonLocked_def split: option.splits if_splits)

lemma healthy_all: "healthy v env \<Longrightarrow> db_open env \<and> (\<forall>i. stmt_ok env i)"
  by (simp add: healthy_def)

text \<open>The simulation, call by call.\<close>

lemma tracks_live:
  assumes "tracks v now b s" "healthy v env" "now \<le> t"
  shows "live env s t h = granted_at env b h t"
  using drops_accept [OF tracksD(3) [OF assms(1) healthyD(3) [OF assms(2)]] assms(3)] tracksD(2) [OF assms(1)]
  by (simp add: live_def granted_at_def)

lemma tracks_same_live:
  assumes "tracks v now b s" "healthy v env" "same_live env t s s'" "store_ok s'" "now \<le> t'" "t \<le> t'"
  shows "tracks v t' b s'"
proof (rule tracksI [OF assms(4) _ healthyD(3) [OF assms(2)]])
  have e: "epoch s = b_epoch b" "epoch s' = epoch s" using assms by (auto simp: tracks_def same_live_def)
  then show "epoch s' = b_epoch b" by simp
  have "drops env (epoch s) t' (granted b) (held s)"
    using drops_mono [OF tracksD(3) [OF assms(1) healthyD(3) [OF assms(2)]] assms(5)] .
  moreover have "drops env (epoch s) t' (held s) (held s')"
    using assms(3,6) drops_mono by (auto simp: same_live_def)
  ultimately show "drops env (b_epoch b) t' (granted b) (held s')" using drops_trans e by metis
qed

lemma tracks_upd:
  assumes "tracks v now b s" "healthy v env" "store_ok s'" "epoch s' = epoch s"
    and "drops env (epoch s) t ((held s)(h := x)) (held s')" "now \<le> t'" "t \<le> t'"
  shows "tracks v t' (b\<lparr>granted := (granted b)(h := x)\<rparr>) s'"
proof (rule tracksI [OF assms(3) _ healthyD(3) [OF assms(2)]])
  have e: "epoch s = b_epoch b" using assms by (auto simp: tracks_def)
  then show "epoch s' = b_epoch (b\<lparr>granted := (granted b)(h := x)\<rparr>)" using assms(4) by simp
  have "drops env (epoch s) t' (granted b) (held s)"
    using drops_mono [OF tracksD(3) [OF assms(1) healthyD(3) [OF assms(2)]] assms(6)] .
  from drops_upd [OF this, of h x] have "drops env (epoch s) t' ((granted b)(h := x)) ((held s)(h := x))" .
  from drops_trans [OF this drops_mono [OF assms(5,7)]] e
  show "drops env (b_epoch (b\<lparr>granted := (granted b)(h := x)\<rparr>)) t' (granted (b\<lparr>granted := (granted b)(h := x)\<rparr>)) (held s')" by simp
qed

lemma remove_healthy:
  assumes "tracks v now b s" "healthy v env" "h \<noteq> []" "now \<le> t"
  shows "tracks v t (b\<lparr>granted := (granted b)(h := None)\<rparr>) (snd (removeLoginSession env t h n s))"
proof -
  from remove_cases [OF tracksD(1) [OF assms(1)] assms(3), of env t n] healthyD [OF assms(2)]
  have "store_ok (snd (removeLoginSession env t h n s))" "epoch (snd (removeLoginSession env t h n s)) = epoch s"
    "drops env (epoch s) t ((held s)(h := None)) (held (snd (removeLoginSession env t h n s)))" by auto
  from tracks_upd [OF assms(1,2) this assms(4) order.refl] show ?thesis .
qed

lemma step_Check:
  assumes tr: "tracks v now b s" and he: "healthy v env" and t: "now \<le> t" and th: "\<And>x. token_hash x \<noteq> Some []"
  shows "fst (session_step token_hash env (Check cookie t) s) = fst (book_step token_hash env (Check cookie t) b)
    \<and> tracks v t (snd (book_step token_hash env (Check cookie t) b)) (snd (session_step token_hash env (Check cookie t) s))"
proof -
  obtain w n1 s1 where va: "validateLoginSession token_hash env cookie t 0 s = (w, n1, s1)" by (rule prod_cases3)
  note V = validate_cases [OF tracksD(1) [OF tr] va]
  have out: "snd (session_step token_hash env (Check cookie t) s) = s1"
    using va by (auto simp: session_step_def GetLoginUser_def split: sum.split)
  have "tracks v t b s1" using tracks_same_live [OF tr he _ _ t order.refl] V by blast
  moreover have "snd (book_step token_hash env (Check cookie t) b) = b" by (simp add: book_step_def split: option.split)
  moreover have "fst (session_step token_hash env (Check cookie t) s) = fst (book_step token_hash env (Check cookie t) b)"
  proof (cases w)
    case (Inl reason)
    then have "Option.bind cookie (\<lambda>c. Option.bind (token_hash c) (live env s t)) = None" using V healthy_all [OF he] by auto
    then have "fst (book_step token_hash env (Check cookie t) b) = Denied"
      by (cases cookie; cases "token_hash (the cookie)") (auto simp: book_step_def tracks_live [OF tr he t])
    then show ?thesis using Inl va by (simp add: session_step_def GetLoginUser_def)
  next
    case (Inr x)
    then obtain h r where x: "Option.bind cookie token_hash = Some h" "live env s t h = Some r"
      "x = \<lparr>v_token = the cookie, v_hash = h, v_user = userName r\<rparr>" using V by auto
    have "h \<noteq> []" using x(1) th by (cases cookie) auto
    then have "valid_login w" using Inr x accepted_user by (simp add: valid_login_def)
    then show ?thesis using Inr va x accepted_user [OF x(2)]
      by (simp add: session_step_def GetLoginUser_def book_step_def flip: tracks_live [OF tr he t])
  qed
  ultimately show ?thesis using out by simp
qed

lemma step_Logout:
  assumes tr: "tracks v now b s" and he: "healthy v env" and t: "now \<le> t" and th: "\<And>x. token_hash x \<noteq> Some []"
  shows "tracks v t (snd (book_step token_hash env (Logout cookie t) b)) (snd (session_step token_hash env (Logout cookie t) s))"
proof (cases "Option.bind cookie token_hash")
  case None
  have "tracks v t b s" using tracks_same_live [OF tr he same_live_refl tracksD(1) [OF tr] t order.refl] .
  then show ?thesis using None by (simp add: book_step_def session_step_def ClearSession_def)
next
  case (Some h)
  then have "h \<noteq> []" using th by (cases cookie) auto
  from remove_healthy [OF tr he this t, of 0] show ?thesis using Some
    by (simp add: book_step_def session_step_def ClearSession_def)
qed

lemma step_Refresh:
  assumes tr: "tracks v now b s" and he: "healthy v env" and t: "now \<le> t0" "t0 \<le> t1" and th: "\<And>x. token_hash x \<noteq> Some []"
    and c_def: "c = Refresh save_ok cookie (t0, t1)"
  shows "fst (session_step token_hash env c s) = fst (book_step token_hash env c b)
    \<and> tracks v t1 (snd (book_step token_hash env c b)) (snd (session_step token_hash env c s))"
proof -
  obtain w n1 s1 where va: "validateLoginSession token_hash env cookie t0 0 s = (w, n1, s1)" by (rule prod_cases3)
  note V = validate_cases [OF tracksD(1) [OF tr] va]
  have s1: "tracks v t0 b s1" using tracks_same_live [OF tr he _ _ t(1) order.refl] V by blast
  have tt: "truncate_second t1 \<le> t1" unfolding truncate_second_def by presburger
  show ?thesis
  proof (cases w)
    case (Inl reason)
    then have "Option.bind cookie (\<lambda>c. Option.bind (token_hash c) (live env s t0)) = None" using V healthy_all [OF he] by auto
    then have "book_step token_hash env c b = (Denied, b)"
      by (cases cookie; cases "token_hash (the cookie)") (auto simp: book_step_def c_def tracks_live [OF tr he t(1)] split: option.split)
    moreover have "session_step token_hash env c s = (Denied, s1)"
      using Inl va by (simp add: session_step_def c_def RefreshLoginSession_def valid_login_def)
    moreover have "tracks v t1 b s1" using tracks_same_live [OF s1 he same_live_refl tracksD(1) [OF s1] t(2) t(2)] .
    ultimately show ?thesis by simp
  next
    case (Inr x)
    then obtain h r where x: "Option.bind cookie token_hash = Some h" "live env s t0 h = Some r" "held s1 h = Some r"
      "x = \<lparr>v_token = the cookie, v_hash = h, v_user = userName r\<rparr>" using V by auto
    have "h \<noteq> []" using x(1) th by (cases cookie) auto
    then have vl: "valid_login w" using Inr x accepted_user by (simp add: valid_login_def)
    have g0: "granted_at env b h t0 = Some r" using tracks_live [OF tr he t(1), of h] x(2) by simp
    then have g: "granted b h = Some r" by (auto simp: granted_at_def accept_at_def split: option.splits if_splits)
    obtain res n2 s2 where rf: "refreshLoginSession env h (truncate_second t1) n1 s1 = (res, n2, s2)" by (rule prod_cases3)
    note R = refresh_cases [OF tracksD(1) [OF s1] rf]
    have lv: "live env s1 (truncate_second t1) h = granted_at env b h (truncate_second t1)"
      using x(3) g tracksD(2) [OF s1] by (simp add: live_def granted_at_def)
    have step: "session_step token_hash env c s = (case res of Inl _ \<Rightarrow> (Denied, s2)
        | Inr r' \<Rightarrow> (if save_ok then Until (loginSessionStatusFromRecord r') else Denied, s2))"
      using Inr va vl rf x(4) by (auto simp: session_step_def c_def RefreshLoginSession_def Let_def split: sum.split)
    show ?thesis
    proof (cases "granted_at env b h (truncate_second t1)")
      case None
      then have "(\<forall>r'. res \<noteq> Inr r') \<and> same_live env (truncate_second t1) s1 s2" "store_ok s2"
        using R lv x(3) by (auto simp: same_live_def live_def accept_at_def)
      moreover from this have "tracks v t1 b s2" using tracks_same_live [OF s1 he _ _ t(2) tt] by blast
      ultimately show ?thesis using step None x(1) g0 by (cases res) (auto simp: book_step_def c_def)
    next
      case (Some r2)
      then have r2: "r2 = r" using g by (auto simp: granted_at_def accept_at_def split: if_splits)
      have R': "store_ok s2" "epoch s2 = epoch s1" "res = Inr (renewed env (truncate_second t1) r)"
        "drops env (epoch s1) (truncate_second t1) ((held s1)(h \<mapsto> renewed env (truncate_second t1) r)) (held s2)"
        using R lv Some x(3) healthy_all [OF he] by auto
      from tracks_upd [OF s1 he R'(1,2,4) t(2) tt]
      show ?thesis using step R'(3) x(1) g0 Some r2 by (simp add: book_step_def c_def Let_def)
    qed
  qed
qed

lemma step_Login:
  assumes tr: "tracks v now b s" and he: "healthy v env" and t: "now \<le> t0" "t0 \<le> t1" "t1 \<le> t2" and th: "\<And>x. token_hash x \<noteq> Some []"
    and c: "c = Login save_ok cookie fresh user minutes (t0, t1, t2)" and new: "fresh_token token_hash c (granted b)"
  shows "fst (session_step token_hash env c s) = fst (book_step token_hash env c b)
    \<and> tracks v t2 (snd (book_step token_hash env c b)) (snd (session_step token_hash env c s))"
proof (cases "Option.bind fresh token_hash")
  case None
  have "tracks v t2 b s" using tracks_same_live [OF tr he same_live_refl tracksD(1) [OF tr], of t2 t2] t by simp
  then show ?thesis using None by (simp add: session_step_def book_step_def c SetLoginUser_def)
next
  case (Some h)
  let ?m = "EffectiveSessionMaxAgeMinutes minutes"
  let ?now = "truncate_second t0"
  define r where "r = \<lparr>userName = user, lr_version = currentLoginSessionVersion env, lr_epoch = b_epoch b,
     expiresAt = ?now + ?m * 60000000000, lastActivityAt = ?now, idleLimitMinutes = ?m\<rparr>"
  have h: "h \<noteq> []" using Some th by (cases fresh) auto
  have gb: "granted b h = None" using new Some by (simp add: fresh_token_def c)
  have ep: "epoch s = b_epoch b" by (rule tracksD(2) [OF tr])
  have free: "held s h = None" using drops_free [OF tracksD(3) [OF tr healthyD(3) [OF he]] gb] .
  obtain res n1 s1 where st: "storeLoginSession env t1 h user (currentLoginSessionVersion env) (loginSessionExpiry ?now ?m) ?now ?m 0 s = (res, n1, s1)"
    by (rule prod_cases3)
  have S: "res = Some r" "store_ok s1" "epoch s1 = epoch s" "drops env (epoch s) t1 ((held s)(h \<mapsto> r)) (held s1)"
    using store_cases [OF tracksD(1) [OF tr] free refl st] healthy_all [OF he]
    by (auto simp: r_def ep loginSessionExpiry_def normalizeStoredSessionTimeoutMinutes_def)
  let ?b1 = "b\<lparr>granted := (granted b)(h \<mapsto> r)\<rparr>"
  have t1: "now \<le> t1" using t by simp
  have T1: "tracks v t1 ?b1 s1" by (rule tracks_upd [OF tr he S(2,3,4) t1 order.refl])
  have T2: "tracks v t2 ?b1 s1" using tracks_same_live [OF T1 he same_live_refl tracksD(1) [OF T1] t(3) t(3)] .
  note norm = normalizeStoredSessionTimeoutMinutes_def
  show ?thesis
  proof (cases save_ok)
    case False
    have "tracks v t2 (?b1\<lparr>granted := (granted ?b1)(h := None)\<rparr>) (snd (removeLoginSession env t2 h n1 s1))"
      by (rule remove_healthy [OF T1 he h t(3)])
    moreover have "?b1\<lparr>granted := (granted ?b1)(h := None)\<rparr> = b" using gb by (simp add: fun_upd_idem)
    moreover have "session_step token_hash env c s = (Denied, snd (removeLoginSession env t2 h n1 s1))"
      using False Some st S(1) by (simp add: session_step_def c SetLoginUser_def norm)
    ultimately show ?thesis using False Some by (simp add: book_step_def c)
  next
    case True
    have book: "book_step token_hash env c b = (Done, b\<lparr>granted := (case Option.bind cookie token_hash of
        Some h' \<Rightarrow> (if h' \<noteq> h then (granted ?b1)(h' := None) else granted ?b1) | None \<Rightarrow> granted ?b1)\<rparr>)"
      using True Some by (auto simp: book_step_def c r_def Let_def split: option.split)
    have step: "session_step token_hash env c s = (Done, case Option.bind cookie token_hash of
        Some h' \<Rightarrow> (if h' \<noteq> h then snd (removeLoginSession env t2 h' n1 s1) else s1) | None \<Rightarrow> s1)"
      using True Some st S(1) by (simp add: session_step_def c SetLoginUser_def norm)
    show ?thesis
    proof (cases "Option.bind cookie token_hash")
      case None
      then show ?thesis using book step T2 by simp
    next
      case (Some h')
      then have "h' \<noteq> []" using th by (cases cookie) auto
      from remove_healthy [OF T1 he this t(3), of n1] show ?thesis using book step T2 Some by simp
    qed
  qed
qed

lemma rename_reason:
  assumes "old \<noteq> []" "new \<noteq> []" "trim_space old = old" "trim_space new = new"
  shows "loginSessionRecordReasonLocked env ep (rename_record old new r) t = loginSessionRecordReasonLocked env ep r t"
  using assms by (auto simp: rename_record_def loginSessionRecordReasonLocked_def)

lemma drops_rename:
  assumes "drops env ep now m m'" "old \<noteq> []" "new \<noteq> []" "trim_space old = old" "trim_space new = new"
  shows "drops env ep now (map_option (rename_record old new) \<circ> m) (map_option (rename_record old new) \<circ> m')"
proof -
  have "expired_at env ep now (map_option (rename_record old new) ro) = expired_at env ep now ro" for ro
    using rename_reason [OF assms(2-), of env ep _ now] by (cases ro) auto
  then show ?thesis using assms(1) unfolding drops_def by (metis comp_apply option.map(1))
qed

lemma step_Rename:
  assumes tr: "tracks v now b s" and he: "healthy v env"
  shows "fst (session_step token_hash env (Rename old new) s) = Done
    \<and> tracks v now (snd (book_step token_hash env (Rename old new) b)) (snd (session_step token_hash env (Rename old new) s))"
proof -
  obtain d s1 where rn: "RenameLoginSessionUser env old new s = (d, s1)" by fastforce
  note R = rename_cases [OF tracksD(1) [OF tr] rn healthyD(1) [OF he]]
  have d: d using R healthyD(2) [OF he] by blast
  note dr = tracksD(3) [OF tr healthyD(3) [OF he]]
  have "tracks v now (snd (book_step token_hash env (Rename old new) b)) s1"
  proof (rule tracksI [OF _ _ healthyD(3) [OF he]])
    show "store_ok s1" using R by blast
    show "epoch s1 = b_epoch (snd (book_step token_hash env (Rename old new) b))"
      using R tracksD(2) [OF tr] by (simp add: book_step_def)
    show "drops env (b_epoch (snd (book_step token_hash env (Rename old new) b))) now
        (granted (snd (book_step token_hash env (Rename old new) b))) (held s1)"
      using R d dr drops_rename [OF dr, of "trim_space old" "trim_space new"] tracksD(2) [OF tr] by (simp add: book_step_def)
  qed
  then show ?thesis using rn d by (simp add: session_step_def)
qed

lemma step_Tick:
  assumes tr: "tracks v now b s" and he: "healthy v env" and t: "now \<le> t"
  shows "tracks v t b (cleanup_tick env t s)"
  using tracks_same_live [OF tr he _ _ t order.refl] tick_cases [OF tracksD(1) [OF tr]] by blast

lemma empty_tracks: "sessions s = [] \<Longrightarrow> session_rows s = [] \<Longrightarrow> epoch s = b_epoch b \<Longrightarrow> granted b = Map.empty \<Longrightarrow> tracks v now b s"
  by (simp add: tracks_def store_ok_def)

lemma session_step_tracks:
  assumes tr: "tracks v now b s" and he: "healthy v env" and t: "sorted (now # call_times c)" and th: "\<And>x. token_hash x \<noteq> Some []"
    and new: "fresh_token token_hash c (granted b)"
  shows "fst (session_step token_hash env c s) = fst (book_step token_hash env c b)
    \<and> tracks v (last (now # call_times c)) (snd (book_step token_hash env c b)) (snd (session_step token_hash env c s))"
proof (cases c)
  case (Login save_ok cookie fresh user minutes ts)
  obtain t0 t1 t2 where ts: "ts = (t0, t1, t2)" by (rule prod_cases3)
  then show ?thesis using step_Login [OF tr he _ _ _ th Login [unfolded ts] new] t Login by (simp add: call_times_def)
next
  case (Check cookie t')
  then show ?thesis using step_Check [where t = t' and cookie = cookie, OF tr he _ th] t by (simp add: call_times_def)
next
  case (Refresh save_ok cookie ts)
  obtain t0 t1 where ts: "ts = (t0, t1)" by fastforce
  then show ?thesis using step_Refresh [OF tr he _ _ th Refresh [unfolded ts]] t Refresh by (simp add: call_times_def)
next
  case (Logout cookie t')
  then show ?thesis using step_Logout [where t = t' and cookie = cookie, OF tr he _ th] t
    by (simp add: call_times_def book_step_def session_step_def)
next
  case (Rename old new)
  then show ?thesis using step_Rename [OF tr he, of token_hash old new] by (simp add: call_times_def book_step_def)
next
  case (Tick t')
  then show ?thesis using step_Tick [OF tr he, of t'] t by (simp add: call_times_def book_step_def session_step_def)
next
  case (Restart ep)
  then show ?thesis using healthyD [OF he]
    by (simp add: call_times_def book_step_def session_step_def InvalidateAllLoginSessions_def clearPersistedLoginSessionsLocked_def empty_tracks)
next
  case (Boot ep)
  then show ?thesis using healthyD [OF he]
    by (simp add: call_times_def book_step_def session_step_def InitializeLoginSessionStore_def clearPersistedLoginSessionsLocked_def empty_tracks)
qed

definition call_tokens :: "(string \<Rightarrow> string option) \<Rightarrow> session_call \<Rightarrow> string list" where
  "call_tokens token_hash c = (case c of
     Login _ _ fresh _ _ _ \<Rightarrow> (case Option.bind fresh token_hash of Some h \<Rightarrow> [h] | None \<Rightarrow> []) | _ \<Rightarrow> [])"

definition call_epochs :: "session_call \<Rightarrow> string list" where
  "call_epochs c = (case c of Restart ep \<Rightarrow> [ep] | Boot ep \<Rightarrow> [ep] | _ \<Rightarrow> [])"

definition run_times :: "(session_env \<times> session_call) list \<Rightarrow> int list" where
  "run_times cs = concat (map (\<lambda>(env, c). call_times c) cs)"

definition run_tokens :: "(string \<Rightarrow> string option) \<Rightarrow> (session_env \<times> session_call) list \<Rightarrow> string list" where
  "run_tokens token_hash cs = concat (map (\<lambda>(env, c). call_tokens token_hash c) cs)"

definition run_epochs :: "(session_env \<times> session_call) list \<Rightarrow> string list" where
  "run_epochs cs = concat (map (\<lambda>(env, c). call_epochs c) cs)"

lemma run_lists [simp]:
  "run_times [] = []" "run_times ((env, c) # cs) = call_times c @ run_times cs"
  "run_tokens token_hash [] = []" "run_tokens token_hash ((env, c) # cs) = call_tokens token_hash c @ run_tokens token_hash cs"
  "run_epochs [] = []" "run_epochs ((env, c) # cs) = call_epochs c @ run_epochs cs"
  by (simp_all add: run_times_def run_tokens_def run_epochs_def)

lemma sorted_split:
  fixes now :: "'a :: linorder"
  assumes "sorted (now # xs @ ys)"
  shows "sorted (now # xs)" "sorted (last (now # xs) # ys)"
  using assms by (auto simp: sorted_append)

lemma book_dom: "dom (granted (snd (book_step token_hash env c b))) \<subseteq> dom (granted b) \<union> set (call_tokens token_hash c)"
  by (auto simp: book_step_def call_tokens_def granted_at_def accept_at_def Let_def split: session_call.splits option.splits if_splits prod.splits)

lemma session_run_tracks:
  assumes "tracks v now b s" "list_all (\<lambda>(env, c). healthy v env) cs" "sorted (now # run_times cs)"
    "\<And>x. token_hash x \<noteq> Some []" "distinct (run_tokens token_hash cs)"
    "dom (granted b) \<inter> set (run_tokens token_hash cs) = {}"
  shows "fst (session_run token_hash cs s) = fst (book_run token_hash cs b)"
  using assms(1-3,5-)
proof (induction cs arbitrary: now b s)
  case (Cons ec cs)
  obtain env c where ec: "ec = (env, c)" by fastforce
  let ?ts = "call_times c"
  have he: "healthy v env" and rest: "list_all (\<lambda>(env, c). healthy v env) cs" using Cons.prems(2) ec by auto
  have srt: "sorted (now # ?ts)" "sorted (last (now # ?ts) # run_times cs)"
    using sorted_split [of now ?ts "run_times cs"] Cons.prems(3) ec by simp_all
  have "fresh_token token_hash c (granted b)"
    using Cons.prems(5) ec by (auto simp: fresh_token_def call_tokens_def split: session_call.splits option.splits)
  from session_step_tracks [OF Cons.prems(1) he srt(1) assms(4) this]
  have st: "fst (session_step token_hash env c s) = fst (book_step token_hash env c b)"
    "tracks v (last (now # ?ts)) (snd (book_step token_hash env c b)) (snd (session_step token_hash env c s))" by auto
  have "dom (granted (snd (book_step token_hash env c b))) \<inter> set (run_tokens token_hash cs) = {}"
    using book_dom [of token_hash env c b] Cons.prems(4,5) ec by auto
  from Cons.IH [OF st(2) rest srt(2) _ this] Cons.prems(4) ec st(1)
  show ?case by (auto simp: split_beta)
qed simp

section \<open>Failing statements\<close>

text \<open>
  The trail of a token: the records its holder may have, told only by the calls, their answers and which statements could
  fail. A login that was answered with success gives exactly one record; one that was refused can leave its record behind only when a statement failed.
  A refresh that was answered with a deadline gives exactly the prolonged record, and only of a session that had not expired;
  a refused one leaves the record as it was, unless the answer was lost with the cookie or a statement failed, when both are possible.
\<close>

type_synonym login_trail = "string \<Rightarrow> loginSessionRecord set"

definition statements_work :: "session_env \<Rightarrow> bool" where
  "statements_work env \<longleftrightarrow> db_open env \<and> (\<forall>i. stmt_ok env i)"

definition issued :: "session_env \<Rightarrow> string \<Rightarrow> string \<Rightarrow> int \<Rightarrow> int \<Rightarrow> loginSessionRecord" where
  "issued env ep user minutes now =
     (let k = EffectiveSessionMaxAgeMinutes minutes
      in \<lparr>userName = user, lr_version = currentLoginSessionVersion env, lr_epoch = ep,
          expiresAt = now + k * 60000000000, lastActivityAt = now, idleLimitMinutes = k\<rparr>)"

definition prolonged :: "session_env \<Rightarrow> int \<Rightarrow> loginSessionRecord \<Rightarrow> loginSessionRecord" where
  \<comment> \<open>the configured number of minutes from now, the record's own number when the setting cannot be read\<close>
  "prolonged env now r =
     (let k = EffectiveSessionMaxAgeMinutes
                (case session_max_age env of Some m \<Rightarrow> (if db_open env then m else idleLimitMinutes r) | None \<Rightarrow> idleLimitMinutes r)
      in r\<lparr>idleLimitMinutes := k, expiresAt := now + k * 60000000000, lastActivityAt := now\<rparr>)"

definition trail_step ::
    "(string \<Rightarrow> string option) \<Rightarrow> session_env \<Rightarrow> session_call \<Rightarrow> session_answer \<Rightarrow> string \<times> login_trail \<Rightarrow> string \<times> login_trail" where
  \<comment> \<open>the first component is the epoch, which every restart replaces\<close>
  "trail_step token_hash env call a em = (case em of (ep, m) \<Rightarrow> (case call of
     Login _ _ fresh user minutes (t0, _, _) \<Rightarrow>
       (case Option.bind fresh token_hash of
          Some h \<Rightarrow> (ep, if a = Done \<or> \<not> statements_work env then m(h := {issued env ep user minutes (truncate_second t0)}) else m)
        | None \<Rightarrow> (ep, m))
   | Refresh save_ok cookie (t0, t1) \<Rightarrow>
       (case Option.bind cookie token_hash of
          Some h \<Rightarrow>
            (let now = truncate_second t1;
                 new = prolonged env now ` {r \<in> m h. t0 < expiresAt r \<and> now < expiresAt r}
             in (ep, if a \<noteq> Denied then m(h := new)
                     else if save_ok \<and> statements_work env then m
                     else m(h := m h \<union> new)))
        | None \<Rightarrow> (ep, m))
   | Logout cookie _ \<Rightarrow>
       (case Option.bind cookie token_hash of
          Some h \<Rightarrow> (ep, if db_open env \<and> stmt_ok env 0 then m(h := {}) else m) | None \<Rightarrow> (ep, m))
   | Rename old new \<Rightarrow>
       (ep, if trim_space old = [] \<or> trim_space new = [] \<or> trim_space old = trim_space new \<or> a = Denied then m
            else if db_open env then (\<lambda>h. rename_record (trim_space old) (trim_space new) ` m h)
            else (\<lambda>h. m h \<union> rename_record (trim_space old) (trim_space new) ` m h))
   | Restart ep' \<Rightarrow> (ep', \<lambda>_. {})
   | Boot ep' \<Rightarrow> (ep', \<lambda>_. {})
   | _ \<Rightarrow> (ep, m)))"

fun trail_run ::
    "(string \<Rightarrow> string option) \<Rightarrow> (session_env \<times> session_call) list \<Rightarrow> session_answer list \<Rightarrow> string \<times> login_trail \<Rightarrow> string \<times> login_trail" where
  "trail_run token_hash ((env, c) # cs) (a # as) m = trail_run token_hash cs as (trail_step token_hash env c a m)"
| "trail_run token_hash _ _ m = m"

definition login_trail_of :: "(string \<Rightarrow> string option) \<Rightarrow> string \<Rightarrow> (session_env \<times> session_call) list \<Rightarrow> login_trail" where
  \<comment> \<open>the trails after a run of a new process with a new database\<close>
  "login_trail_of token_hash ep cs =
     snd (trail_run token_hash cs (fst (session_run token_hash cs (no_sessions ep))) (ep, \<lambda>_. {}))"

definition on_trail :: "string set \<Rightarrow> string set \<Rightarrow> login_trail \<Rightarrow> string \<Rightarrow> string \<Rightarrow> loginSessionRecord \<Rightarrow> bool" where
  "on_trail P U m ep h r \<longleftrightarrow> h \<in> U \<and> lr_epoch r \<in> P \<and> (lr_epoch r = ep \<longrightarrow> r \<in> m h)"

definition covered :: "string set \<Rightarrow> string set \<Rightarrow> login_trail \<Rightarrow> string \<Rightarrow> (string \<Rightarrow> loginSessionRecord option) \<Rightarrow> bool" where
  "covered P U m ep g \<longleftrightarrow> (\<forall>h r. g h = Some r \<longrightarrow> on_trail P U m ep h r)"

lemma covered_drops: "covered P U m ep g \<Longrightarrow> drops env e t g g' \<Longrightarrow> covered P U m ep g'"
  unfolding covered_def drops_def by (metis option.distinct(1))

lemma covered_None: "covered P U m ep g \<Longrightarrow> covered P U (m(h := x)) ep (g(h := None))"
  by (simp add: covered_def on_trail_def)

lemma covered_Some:
  "covered P U m ep g \<Longrightarrow> ep \<in> P \<Longrightarrow> lr_epoch r = ep \<Longrightarrow> r \<in> R \<Longrightarrow> covered P (insert h U) (m(h := R)) ep (g(h \<mapsto> r))"
  by (auto simp: covered_def on_trail_def)

lemma covered_more: "covered P U m ep g \<Longrightarrow> h \<notin> U \<Longrightarrow> covered P U' (m(h := x)) ep g \<longleftrightarrow> covered P U' m ep g"
  by (auto simp: covered_def on_trail_def)

lemma covered_mono: "covered P U m ep g \<Longrightarrow> P \<subseteq> P' \<Longrightarrow> U \<subseteq> U' \<Longrightarrow> covered P' U' m ep g"
  unfolding covered_def on_trail_def by blast

definition covers :: "string set \<Rightarrow> string set \<Rightarrow> string \<times> login_trail \<Rightarrow> session_state \<Rightarrow> bool" where
  "covers P U em s \<longleftrightarrow> store_ok s \<and> epoch s \<in> P \<and> fst em = epoch s \<and> covered P U (snd em) (epoch s) (held s)"

lemma covered_remove: "covered P U m ep g \<Longrightarrow> covered P U m ep (g(h := None))"
  by (simp add: covered_def)

lemma covers_same_live: "covers P U m s \<Longrightarrow> store_ok s' \<Longrightarrow> same_live env t s s' \<Longrightarrow> covers P U m s'"
  using covered_drops by (auto simp: covers_def same_live_def)

lemma remove_covers:
  assumes c: "covers P U (ep, m) s" and h: "h \<noteq> []"
  shows "covers P U (ep, m) (snd (removeLoginSession env t h n s))"
    "db_open env \<Longrightarrow> stmt_ok env n \<Longrightarrow> covers P U (ep, m(h := R)) (snd (removeLoginSession env t h n s))"
proof -
  have c': "store_ok s" "epoch s \<in> P" "covered P U m (epoch s) (held s)" "ep = epoch s" using c by (auto simp: covers_def)
  note R = remove_cases [OF c'(1) h, of env t n]
  then obtain g where g: "drops env (epoch s) t g (held (snd (removeLoginSession env t h n s)))"
    "g = (held s)(h := None) \<or> g = held s \<and> h \<notin> fst ` set (sessions s) \<and> \<not> (db_open env \<and> stmt_ok env n)" by blast
  have "covered P U m (epoch s) g" using g(2) c'(3) covered_remove by auto
  then show "covers P U (ep, m) (snd (removeLoginSession env t h n s))" using R g(1) c' covered_drops by (auto simp: covers_def)
  assume "db_open env" "stmt_ok env n"
  then have "covered P U (m(h := R)) (epoch s) g" using g(2) covered_None [OF c'(3), of h R] by auto
  then show "covers P U (ep, m(h := R)) (snd (removeLoginSession env t h n s))" using R g(1) c' covered_drops by (auto simp: covers_def)
qed

lemma renewed_prolonged: "renewed env now r = prolonged env now r"
  by (simp add: renewed_def prolonged_def Let_def loginSessionExpiry_def normalizeStoredSessionTimeoutMinutes_def
      currentLoginSessionTimeoutMinutes_def GetEffectiveSessionMaxAgeMinutes_def split: option.split)

lemma prolonged_simps [simp]: "userName (prolonged env now r) = userName r" "lr_epoch (prolonged env now r) = lr_epoch r"
  by (simp_all add: prolonged_def Let_def)

lemma reason_epoch: "loginSessionRecordReasonLocked env ep r t = None \<Longrightarrow> lr_epoch r = ep \<and> t < expiresAt r"
  by (auto simp: loginSessionRecordReasonLocked_def split: if_splits)

lemma covered_extend: "covered P U m ep g \<Longrightarrow> m h \<subseteq> R \<Longrightarrow> covered P U (m(h := R)) ep g"
  unfolding covered_def on_trail_def by auto

lemma covered_renew:
  assumes c: "covered P U m ep g" and g: "g h = Some r" "lr_epoch r = ep"
    and R: "prolonged env now r \<in> R"
  shows "covered P U (m(h := R)) ep (g(h \<mapsto> renewed env now r))"
proof -
  have "on_trail P U m ep h r" using c g unfolding covered_def by blast
  then have "on_trail P U (m(h := R)) ep h (renewed env now r)" using R by (simp add: on_trail_def renewed_prolonged)
  then show ?thesis using c by (simp add: covered_def on_trail_def)
qed

text \<open>What a login leaves: its record, or nothing.\<close>

lemma login_outcome:
  assumes c: "covers P U (ep, m) s" and th: "\<And>x. token_hash x \<noteq> Some []" and hU: "h \<notin> U" and fresh: "Option.bind fresh token_hash = Some h"
    and call: "call = Login save_ok cookie fresh user minutes (t0, t1, t2)"
    and out: "session_step token_hash env call s = (a, s')"
  shows "covers P (insert h U) (ep, m(h := {issued env ep user minutes (truncate_second t0)})) s'
     \<and> (a \<noteq> Done \<and> statements_work env \<longrightarrow> covers P (insert h U) (ep, m) s')"
proof -
  let ?e = "EffectiveSessionMaxAgeMinutes minutes" and ?now = "truncate_second t0" and ?r = "issued env ep user minutes (truncate_second t0)"
  have c': "store_ok s" "epoch s \<in> P" "covered P U m (epoch s) (held s)" "epoch s = ep" using c by (auto simp: covers_def)
  have h: "h \<noteq> []" using fresh th by (cases fresh) auto
  have free: "held s h = None" using hU c'(3) by (cases "held s h") (auto simp: covered_def on_trail_def)
  obtain res n1 s1 where st: "storeLoginSession env t1 h user (currentLoginSessionVersion env) (loginSessionExpiry ?now ?e) ?now ?e 0 s = (res, n1, s1)"
    by (rule prod_cases3)
  have S: "store_ok s1 \<and> epoch s1 = ep
      \<and> (res = Some ?r \<and> drops env ep t1 ((held s)(h \<mapsto> ?r)) (held s1) \<or> res = None \<and> drops env ep t1 (held s) (held s1) \<and> \<not> statements_work env)"
    using store_cases [OF c'(1) free refl st] c'(4)
    by (simp add: issued_def Let_def loginSessionExpiry_def normalizeStoredSessionTimeoutMinutes_def statements_work_def)
  have base: "covered P (insert h U) m ep (held s)" using covered_mono [OF c'(3), of P "insert h U"] c'(4) by auto
  have "covered P (insert h U) (m(h := {?r})) ep (held s1)"
  proof (cases res)
    case None
    then have "covered P (insert h U) m ep (held s1)" "covered P U m ep (held s1)"
      using S covered_drops [OF base] covered_drops [of P U m ep "held s"] c' by auto
    then show ?thesis using covered_more [OF _ hU] by blast
  next
    case (Some r)
    then have r: "r = ?r" "drops env ep t1 ((held s)(h \<mapsto> ?r)) (held s1)" using S by auto
    have "covered P (insert h U) (m(h := {?r})) ep ((held s)(h \<mapsto> ?r))"
      using covered_Some [OF c'(3,2), of ?r "{?r}" h] c'(4) by (simp add: issued_def Let_def)
    then show ?thesis using covered_drops r(2) by blast
  qed
  then have s1: "covers P (insert h U) (ep, m(h := {?r})) s1" using S c' by (simp add: covers_def)
  have step: "(a, s') = (case res of None \<Rightarrow> (Denied, s1)
      | Some r \<Rightarrow> if \<not> save_ok then (Denied, snd (removeLoginSession env t2 h n1 s1))
          else (Done, case Option.bind cookie token_hash of Some h' \<Rightarrow> (if h' \<noteq> h then snd (removeLoginSession env t2 h' n1 s1) else s1) | None \<Rightarrow> s1))"
    using fresh st out
    by (auto simp: session_step_def call SetLoginUser_def Let_def normalizeStoredSessionTimeoutMinutes_def split: option.splits if_splits)
  have key: "Option.bind cookie token_hash = Some k \<Longrightarrow> k \<noteq> []" for k using th by (cases cookie) auto
  have "s' = s1 \<or> (\<exists>k n. k \<noteq> [] \<and> s' = snd (removeLoginSession env t2 k n s1))"
    using step key h by (auto split: option.splits if_splits)
  then have "covers P (insert h U) (ep, m(h := {?r})) s'" using s1 remove_covers(1) [OF s1] by auto
  moreover have "covers P (insert h U) (ep, m) s'" if bad: "a \<noteq> Done" "statements_work env"
  proof -
    have "s' = snd (removeLoginSession env t2 h n1 s1)" using step S bad by (auto split: if_splits)
    then show ?thesis
      using remove_covers(2) [OF s1 h, of env n1 "m h" t2] bad(2) by (simp add: statements_work_def)
  qed
  ultimately show ?thesis by blast
qed

lemma cover_Login:
  assumes c: "covers P U (ep, m) s" and th: "\<And>x. token_hash x \<noteq> Some []" and new: "set (call_tokens token_hash call) \<inter> U = {}"
    and call: "call = Login save_ok cookie fresh user minutes (t0, t1, t2)"
    and out: "session_step token_hash env call s = (a, s')"
  shows "covers P (U \<union> set (call_tokens token_hash call)) (trail_step token_hash env call a (ep, m)) s'"
proof (cases "Option.bind fresh token_hash")
  case None
  then show ?thesis using c out by (auto simp: call session_step_def SetLoginUser_def trail_step_def call_tokens_def)
next
  case (Some h)
  then have "h \<notin> U" "insert h U = U \<union> set (call_tokens token_hash call)" using new by (simp_all add: call call_tokens_def)
  then show ?thesis using login_outcome [OF c th _ Some call out] Some by (auto simp: call trail_step_def)
qed

lemma cover_validate:
  assumes c: "covers P U m s" and va: "validateLoginSession token_hash env cookie t n s = (w, n', s')"
  shows "covers P U m s'"
  using validate_cases [OF _ va] covers_same_live [OF c] c by (auto simp: covers_def)

text \<open>What a refresh leaves: the record as it was, or prolonged when it had not expired.\<close>

lemma refresh_outcome:
  assumes c: "covers P U (ep, m) s" and h: "Option.bind cookie token_hash = Some h"
    and out: "session_step token_hash env (Refresh save_ok cookie (t0, t1)) s = (a, s')"
    and new: "new = prolonged env (truncate_second t1) ` {r \<in> m h. t0 < expiresAt r \<and> truncate_second t1 < expiresAt r}"
  shows "covers P U (ep, m(h := new)) s' \<and> (a = Denied \<longrightarrow> \<not> (save_ok \<and> statements_work env)) \<or> covers P U (ep, m) s' \<and> a = Denied"
proof -
  let ?now = "truncate_second t1"
  obtain w n1 s1 where va: "validateLoginSession token_hash env cookie t0 0 s = (w, n1, s1)" by (rule prod_cases3)
  note V = validate_cases [OF _ va]
  have s1: "covers P U (ep, m) s1" by (rule cover_validate [OF c va])
  then have s1': "store_ok s1" "epoch s1 \<in> P" "covered P U m (epoch s1) (held s1)" "epoch s1 = ep" by (auto simp: covers_def)
  show ?thesis
  proof (cases "valid_login w")
    case False
    then have "s' = s1 \<and> a = Denied" using out va by (auto simp: session_step_def RefreshLoginSession_def)
    then show ?thesis using s1 by simp
  next
    case True
    then obtain x where w: "w = Inr x" by (auto simp: valid_login_def split: sum.splits)
    obtain r where r: "v_hash x = h" "live env s t0 h = Some r" "held s1 h = Some r" using V c w h by (auto simp: covers_def)
    then have t0: "t0 < expiresAt r" using reason_epoch by (auto simp: live_def accept_at_def split: option.splits if_splits)
    obtain res n2 s2 where rf: "refreshLoginSession env h ?now n1 s1 = (res, n2, s2)" by (rule prod_cases3)
    have step: "s' = s2 \<and> (a = Denied \<longleftrightarrow> \<not> (save_ok \<and> (\<exists>r'. res = Inr r')))"
      using out va rf True w r(1) by (cases res) (auto simp: session_step_def RefreshLoginSession_def Let_def split: if_splits)
    have F: "store_ok s2" "epoch s2 = ep" using refresh_cases [OF s1'(1) rf] s1'(4) by auto
    from refresh_cases [OF s1'(1) rf] consider
        (kept) "drops env ep ?now (held s1) (held s2)" "\<forall>r'. res \<noteq> Inr r'"
      | (renewed) "loginSessionRecordReasonLocked env ep r ?now = None" "drops env ep ?now ((held s1)(h \<mapsto> renewed env ?now r)) (held s2)"
          "(\<exists>r'. res = Inr r') \<or> \<not> statements_work env"
      using r(3) s1'(4) unfolding statements_work_def by auto
    then show ?thesis
    proof cases
      case kept
      then have "covers P U (ep, m) s2" using covered_drops s1' F by (auto simp: covers_def)
      then show ?thesis using step kept(2) by auto
    next
      case renewed
      then have re: "lr_epoch r = ep" "?now < expiresAt r" using reason_epoch by auto
      then have "r \<in> m h" using s1'(3,4) r(3) unfolding covered_def on_trail_def by auto
      then have "prolonged env ?now r \<in> new" using re t0 by (simp add: new)
      then have "covered P U (m(h := new)) ep ((held s1)(h \<mapsto> renewed env ?now r))"
        using covered_renew [OF s1'(3) r(3)] re s1'(4) by simp
      then have "covers P U (ep, m(h := new)) s2" using covered_drops renewed(2) F s1' by (auto simp: covers_def)
      then show ?thesis using step renewed(3) by auto
    qed
  qed
qed

lemma cover_Refresh:
  assumes c: "covers P U (ep, m) s" and call: "call = Refresh save_ok cookie (t0, t1)"
    and out: "session_step token_hash env call s = (a, s')"
  shows "covers P U (trail_step token_hash env call a (ep, m)) s'"
proof (cases "Option.bind cookie token_hash")
  case None
  then have "s' = s" using out by (auto simp: session_step_def call RefreshLoginSession_def validateLoginSession_def valid_login_def)
  then show ?thesis using c None by (simp add: call trail_step_def)
next
  case (Some h)
  define new where "new = prolonged env (truncate_second t1) ` {r \<in> m h. t0 < expiresAt r \<and> truncate_second t1 < expiresAt r}"
  have tr: "trail_step token_hash env call a (ep, m)
      = (ep, if a \<noteq> Denied then m(h := new) else if save_ok \<and> statements_work env then m else m(h := m h \<union> new))"
    using Some by (simp add: call trail_step_def new_def Let_def)
  have ext: "covers P U (ep, m(h := m h \<union> new)) s'" if "covers P U (ep, m(h := new)) s' \<or> covers P U (ep, m) s'"
    using that covered_extend [of P U "m(h := new)" _ _ h "m h \<union> new"] covered_extend [of P U m _ _ h "m h \<union> new"] by (auto simp: covers_def)
  show ?thesis unfolding tr using refresh_outcome [OF c Some out [unfolded call] new_def] ext by auto
qed

lemma rename_pointwise:
  assumes c: "covered P U m ep g"
    and g': "\<And>h. g' h = g h \<or> g' h = map_option (rename_record old new) (g h)"
  shows "covered P U (\<lambda>h. m h \<union> rename_record old new ` m h) ep g'"
  unfolding covered_def
proof (intro allI impI)
  fix h r assume "g' h = Some r"
  then obtain q where q: "g h = Some q" "r = q \<or> r = rename_record old new q" using g' [of h] by (cases "g h") auto
  have "on_trail P U m ep h q" using c q(1) unfolding covered_def by blast
  then show "on_trail P U (\<lambda>h. m h \<union> rename_record old new ` m h) ep h r"
    using q(2) by (auto simp: on_trail_def rename_record_def split: if_splits)
qed

lemma covered_rename:
  assumes "covered P U m ep g"
  shows "covered P U (\<lambda>h. rename_record old new ` m h) ep (map_option (rename_record old new) \<circ> g)"
  unfolding covered_def
proof (intro allI impI)
  fix h r assume "(map_option (rename_record old new) \<circ> g) h = Some r"
  then obtain q where q: "g h = Some q" "r = rename_record old new q" by auto
  then have "on_trail P U m ep h q" using assms unfolding covered_def by blast
  moreover have "lr_epoch r = lr_epoch q" using q(2) by (simp add: rename_record_def)
  ultimately show "on_trail P U (\<lambda>h. rename_record old new ` m h) ep h r" using q(2) by (auto simp: on_trail_def)
qed

lemma cover_Rename:
  assumes c: "covers P U (ep, m) s" and out: "session_step token_hash env (Rename old new) s = (a, s')"
  shows "covers P U (trail_step token_hash env (Rename old new) a (ep, m)) s'"
proof -
  obtain d where rn: "RenameLoginSessionUser env old new s = (d, s')" and a: "a = Denied \<longleftrightarrow> \<not> d"
    using out by (auto simp: session_step_def split: prod.splits if_splits)
  have c': "store_ok s" "epoch s \<in> P" "covered P U m (epoch s) (held s)" "epoch s = ep" using c by (auto simp: covers_def)
  show ?thesis
  proof (cases "db_open env")
    case True
    then show ?thesis
      using rename_cases [OF c'(1) rn True] c' a covered_rename [OF c'(3), of "trim_space old" "trim_space new"]
      by (auto simp: covers_def trail_step_def)
  next
    case False
    note R = rename_closed [OF c'(1) rn False]
    show ?thesis
      using R c' a False rename_pointwise [OF c'(3), of "held s'" "trim_space old" "trim_space new"]
      by (auto simp: covers_def trail_step_def)
  qed
qed

lemma clear_cases:
  assumes "clearPersistedLoginSessionsLocked env n s = (d, n', s')"
  shows "s' = s \<or> s' = s\<lparr>session_rows := []\<rparr>"
  using assms by (auto simp: clearPersistedLoginSessionsLocked_def split: if_splits)

lemma new_epoch_covers:
  assumes c: "covers P U em s" and ep: "ep \<notin> P"
    and s': "sessions s' = []" "epoch s' = ep" "session_rows s' = session_rows s \<or> session_rows s' = []"
  shows "covers (insert ep P) U (ep, \<lambda>_. {}) s'"
proof -
  have c': "store_ok s" "covered P U (snd em) (epoch s) (held s)" using c by (auto simp: covers_def)
  have "store_ok s'" using c'(1) s' by (auto simp: store_ok_def)
  moreover have "held s' h = Some r \<Longrightarrow> held s h = Some r" for h r
    using s' store_okD(5) [OF c'(1), of h] by (auto simp: lookup_session_def split: option.split)
  then have "covered (insert ep P) U (\<lambda>_. {}) ep (held s')"
    using c'(2) ep unfolding covered_def on_trail_def by blast
  ultimately show ?thesis using s' by (simp add: covers_def)
qed

lemma cover_new_epoch:
  assumes c: "covers P U (ep0, m) s" and ep: "ep \<notin> P" and call: "call = Restart ep \<or> call = Boot ep"
    and out: "session_step token_hash env call s = (a, s')"
  shows "covers (insert ep P) U (trail_step token_hash env call a (ep0, m)) s'"
proof -
  obtain d n s1 where cl: "clearPersistedLoginSessionsLocked env 0 (s\<lparr>sessions := [], epoch := ep\<rparr>) = (d, n, s1)" by (rule prod_cases3)
  obtain d2 n2 s2 where cl2: "clearPersistedLoginSessionsLocked env 0 (s\<lparr>sessions := [], epoch := ep, hasPersisted := False\<rparr>) = (d2, n2, s2)"
    by (rule prod_cases3)
  from call show ?thesis
  proof
    assume "call = Restart ep"
    then show ?thesis using new_epoch_covers [OF c ep, of s1] clear_cases [OF cl] cl out
      by (auto simp: session_step_def trail_step_def InvalidateAllLoginSessions_def)
  next
    assume "call = Boot ep"
    then show ?thesis using new_epoch_covers [OF c ep, of s2] clear_cases [OF cl2] cl2 out
      by (auto simp: session_step_def trail_step_def InitializeLoginSessionStore_def)
  qed
qed

lemma session_step_covers:
  assumes c: "covers P U (ep, m) s" and th: "\<And>x. token_hash x \<noteq> Some []"
    and new: "set (call_tokens token_hash call) \<inter> U = {}" "set (call_epochs call) \<inter> P = {}"
    and out: "session_step token_hash env call s = (a, s')"
  shows "covers (P \<union> set (call_epochs call)) (U \<union> set (call_tokens token_hash call)) (trail_step token_hash env call a (ep, m)) s'"
proof (cases call)
  case (Login save_ok cookie fresh user minutes ts)
  obtain t0 t1 t2 where ts: "ts = (t0, t1, t2)" by (rule prod_cases3)
  from cover_Login [OF c th new(1) Login [unfolded ts] out] Login show ?thesis by (simp add: call_epochs_def)
next
  case (Check cookie t)
  obtain w n1 s1 where va: "validateLoginSession token_hash env cookie t 0 s = (w, n1, s1)" by (rule prod_cases3)
  have "s' = s1" using va out by (auto simp: Check session_step_def GetLoginUser_def split: sum.splits if_splits)
  then show ?thesis using cover_validate [OF c va] Check by (simp add: call_epochs_def call_tokens_def trail_step_def)
next
  case (Refresh save_ok cookie ts)
  obtain t0 t1 where ts: "ts = (t0, t1)" by fastforce
  from cover_Refresh [OF c Refresh [unfolded ts] out] Refresh show ?thesis by (simp add: call_epochs_def call_tokens_def)
next
  case (Logout cookie t)
  show ?thesis
  proof (cases "Option.bind cookie token_hash")
    case None
    then show ?thesis using c Logout out by (auto simp: call_epochs_def call_tokens_def session_step_def trail_step_def ClearSession_def)
  next
    case (Some h)
    then have "h \<noteq> []" using th by (cases cookie) auto
    from remove_covers [OF c this, where env = env and t = t and n = 0] show ?thesis using Some Logout out
      by (auto simp: call_epochs_def call_tokens_def session_step_def trail_step_def ClearSession_def)
  qed
next
  case (Rename old new)
  then show ?thesis using cover_Rename [OF c] out by (auto simp: call_epochs_def call_tokens_def)
next
  case (Tick t)
  then show ?thesis using covers_same_live [OF c] tick_cases [where env = env and now = t] c out
    by (auto simp: covers_def call_epochs_def call_tokens_def session_step_def trail_step_def)
next
  case (Restart ep')
  then show ?thesis using cover_new_epoch [OF c _ _ out, of ep'] new(2) by (simp add: call_epochs_def call_tokens_def)
next
  case (Boot ep')
  then show ?thesis using cover_new_epoch [OF c _ _ out, of ep'] new(2) by (simp add: call_epochs_def call_tokens_def)
qed

lemma session_run_covers:
  assumes "covers P U em s" "\<And>x. token_hash x \<noteq> Some []"
    "distinct (run_tokens token_hash cs)" "set (run_tokens token_hash cs) \<inter> U = {}"
    "distinct (run_epochs cs)" "set (run_epochs cs) \<inter> P = {}"
  shows "\<exists>P' U'. covers P' U' (trail_run token_hash cs (fst (session_run token_hash cs s)) em) (snd (session_run token_hash cs s))"
  using assms(1,3-)
proof (induction cs arbitrary: P U em s)
  case (Cons ec cs)
  obtain env c where ec: "ec = (env, c)" by fastforce
  obtain ep m where em: "em = (ep, m)" by fastforce
  obtain a s1 where st: "session_step token_hash env c s = (a, s1)" by fastforce
  have "covers (P \<union> set (call_epochs c)) (U \<union> set (call_tokens token_hash c)) (trail_step token_hash env c a (ep, m)) s1"
    by (rule session_step_covers [OF Cons.prems(1) [unfolded em] assms(2) _ _ st]) (use Cons.prems ec in auto)
  note ih = Cons.IH [OF this]
  have "set (run_tokens token_hash cs) \<inter> (U \<union> set (call_tokens token_hash c)) = {}" "set (run_epochs cs) \<inter> (P \<union> set (call_epochs c)) = {}"
    using Cons.prems ec by auto
  with ih Cons.prems ec st em show ?case by (simp add: split_beta)
qed auto

lemma run_covers:
  assumes "\<forall>x. token_hash x \<noteq> Some []" "distinct (run_tokens token_hash cs)" "distinct (ep # run_epochs cs)"
  shows "\<exists>P U ep'. covers P U (ep', login_trail_of token_hash ep cs) (snd (session_run token_hash cs (no_sessions ep)))"
proof -
  have "covers {ep} {} (ep, \<lambda>_. {}) (no_sessions ep)" by (simp add: no_sessions_def covers_def covered_def store_ok_def)
  from session_run_covers [OF this spec [OF assms(1)] assms(2)] assms(3)
  show ?thesis unfolding login_trail_of_def by (metis prod.collapse distinct.simps(2) empty_iff inf_bot_right disjoint_insert(1))
qed

section \<open>Properties\<close>

text \<open>C7: While the database answers and the clock does not run backwards, every sequence of logins, checks, refreshes, logouts,
  renames, cleanup ticks and restarts is answered exactly as if all sessions were in one unbounded map, which only logins, refreshes,
  logouts, renames and restarts change: no session is lost, prolonged or brought back by the limit of 25 records in memory,
  by pruning, refilling or promoting.\<close>

theorem sessions_refine_the_book:
  assumes "\<forall>x. token_hash x \<noteq> Some []" "list_all (\<lambda>(env, c). healthy v env) cs" "sorted (run_times cs)"
    "distinct (run_tokens token_hash cs)"
  shows "fst (session_run token_hash cs (no_sessions ep)) = fst (book_run token_hash cs (empty_book ep))"
proof -
  have "\<exists>now. sorted (now # run_times cs)" using assms(3) by (cases "run_times cs") auto
  then obtain now where "sorted (now # run_times cs)" ..
  moreover have "tracks v now (empty_book ep) (no_sessions ep)" by (rule empty_tracks) (simp_all add: no_sessions_def empty_book_def)
  ultimately show ?thesis using session_run_tracks [OF _ assms(2) _ spec [OF assms(1)] assms(4)] by (auto simp: empty_book_def)
qed

text \<open>C11: Whatever statements fail, and also while the database is closed, a request is admitted as a user only with a session
  that the trail of its token shows: the token was issued to that user by a login (under a name since changed by renames), no restart and no
  logout whose delete succeeded came after it, the session belongs to the present version, and the request comes before its deadline. The deadline is that of
  the login, or the configured time after the last refresh that took effect, and a refresh takes effect only before the deadline then in force; a refresh that
  was answered with a refusal took effect only when the cookie could not be written or a statement failed.
  Token hashes are non-empty, no token is issued twice and no epoch is drawn twice.\<close>

theorem admitted_was_granted:
  assumes "\<forall>x. token_hash x \<noteq> Some []"
    "distinct (run_tokens token_hash cs)" "distinct (ep # run_epochs cs)"
    and adm: "fst (session_step token_hash env (Check cookie t) (snd (session_run token_hash cs (no_sessions ep)))) = Admitted u"
  shows "\<exists>h r. Option.bind cookie token_hash = Some h \<and> r \<in> login_trail_of token_hash ep cs h
     \<and> userName r = u \<and> t < expiresAt r \<and> lr_version r = currentLoginSessionVersion env"
proof -
  define s where "s = snd (session_run token_hash cs (no_sessions ep))"
  obtain P U ep' where c: "covers P U (ep', login_trail_of token_hash ep cs) s" using run_covers [OF assms(1-3)] by (auto simp: s_def)
  obtain w n1 s1 where va: "validateLoginSession token_hash env cookie t 0 s = (w, n1, s1)" by (rule prod_cases3)
  have V: "valid_login w \<and> (\<exists>x. w = Inr x \<and> u = v_user x)"
    using adm va unfolding s_def [symmetric]
    by (auto simp: session_step_def GetLoginUser_def split: sum.splits if_splits)
  then obtain h r where h: "Option.bind cookie token_hash = Some h" "live env s t h = Some r" "u = userName r"
    using validate_cases [OF _ va] c by (auto simp: covers_def)
  then have r: "held s h = Some r" "loginSessionRecordReasonLocked env (epoch s) r t = None"
    by (auto simp: live_def accept_at_def split: option.splits if_splits)
  then have "on_trail P U (login_trail_of token_hash ep cs) (epoch s) h r" using c unfolding covers_def covered_def by auto
  then have "r \<in> login_trail_of token_hash ep cs h" using reason_epoch [OF r(2)] by (simp add: on_trail_def)
  moreover have "lr_version r = currentLoginSessionVersion env"
    using r(2) by (simp add: loginSessionRecordReasonLocked_def split: if_splits)
  ultimately show ?thesis using h reason_epoch [OF r(2)] by auto
qed

text \<open>After every run, failing statements included, at most 25 sessions are in memory, no token has two records in memory or in the
  table, and none has one in each.\<close>

lemma session_store_invariant:
  assumes "\<forall>x. token_hash x \<noteq> Some []" "distinct (run_tokens token_hash cs)" "distinct (ep # run_epochs cs)"
  shows "store_ok (snd (session_run token_hash cs (no_sessions ep)))"
  using run_covers [OF assms] by (auto simp: covers_def)

text \<open>Refilling the memory from the table ends: while the statements succeed it reports success, leaves the memory full or the table
  empty, and has issued at most two statements for every row of the table and one more.\<close>

lemma refill_ends:
  assumes "db_open env" "\<forall>i. stmt_ok env i" "refillInMemoryLoginSessionsLocked env now n s = (d, n', s')"
  shows "d \<and> (maxInMemoryLoginSessions \<le> length (sessions s') \<or> session_rows s' = []) \<and> n' \<le> n + 2 * length (session_rows s) + 1"
  by (rule refill_total [OF assms])

text \<open>A logout whose delete fails changes nothing: the cookie is cleared in the browser and the session stays exactly as
  valid as it was, for every holder of the token, when its record is in the table.\<close>

lemma logout_lost_on_failed_delete:
  assumes "Option.bind cookie token_hash = Some h" "h \<notin> fst ` set (sessions s)" "db_open env" "\<not> stmt_ok env 0"
  shows "ClearSession token_hash env cookie now s = (ClearCookie, s)"
proof -
  have "AList.delete h (sessions s) = sessions s" using assms(2) by (force simp: AList.delete_eq filter_id_conv)
  then show ?thesis using assms by (simp add: ClearSession_def removeLoginSession_def deletePersistedLoginSessionLocked_def)
qed

section \<open>Witnesses\<close>

definition test_env :: session_env where
  "test_env = \<lparr>db_open = True, stmt_ok = (\<lambda>_. True), tie = (\<lambda>_. 0), db_clock = 7, reports_zero = False,
     panel_version = ''1.2'', session_max_age = Some 30\<rparr>"

definition test_hash :: "string \<Rightarrow> string option" where
  "test_hash x = (if x = [] then None else Some (CHR ''#'' # x))"

definition test_calls :: "(session_env \<times> session_call) list" where
  "test_calls = map (Pair test_env)
    [Login True None (Some ''a'') ''ann'' 1 (0, 0, 0), Check (Some ''a'') 59000000000, Refresh True (Some ''a'') (59500000000, 59500000000),
     Rename ''ann'' ''eve'', Tick 70000000000, Check (Some ''a'') 80000000000, Check (Some ''b'') 80000000000,
     Logout (Some ''a'') 90000000000, Check (Some ''a'') 90000000000]"

lemma test_run:
  "\<forall>x. test_hash x \<noteq> Some []"
  "list_all (\<lambda>(env, c). healthy (currentLoginSessionVersion test_env) env) test_calls"
  "sorted (run_times test_calls)" "distinct (run_tokens test_hash test_calls)" "distinct (ep # run_epochs test_calls)"
  by (simp_all add: test_hash_def test_calls_def healthy_def test_env_def call_times_def call_tokens_def call_epochs_def)

lemma sessions_refine_the_book_witness:
  "fst (session_run test_hash test_calls (no_sessions ''e''))
     = [Done, Admitted ''ann'', Until 1859, Done, Done, Admitted ''eve'', Denied, Done, Denied]"
proof -
  have "fst (book_run test_hash test_calls (empty_book ''e''))
      = [Done, Admitted ''ann'', Until 1859, Done, Done, Admitted ''eve'', Denied, Done, Denied]" by code_simp
  then show ?thesis using sessions_refine_the_book [OF test_run(1,2,3,4), of "''e''"] by simp
qed

definition flaky_env :: session_env where
  "flaky_env = test_env\<lparr>stmt_ok := (\<lambda>n. n = 7)\<rparr>"

definition flaky_calls :: "(session_env \<times> session_call) list" where
  "flaky_calls = map (Pair flaky_env)
    [Login True None (Some ''b'') ''bob'' 1 (0, 0, 0), Restart ''f'', Login True None (Some ''a'') ''ann'' 1 (0, 0, 0),
     Refresh True (Some ''a'') (59000000000, 59000000000)]"

lemma flaky_run:
  "distinct (run_tokens test_hash flaky_calls)" "distinct (''e'' # run_epochs flaky_calls)"
  by (simp_all add: test_hash_def flaky_calls_def flaky_env_def test_env_def call_tokens_def call_epochs_def)

lemma flaky_trail:
  "login_trail_of test_hash ''e'' flaky_calls ''#a''
     = {\<lparr>userName = ''ann'', lr_version = ''1.2'', lr_epoch = ''f'', expiresAt = 1859000000000, lastActivityAt = 59000000000, idleLimitMinutes = 30\<rparr>}"
proof -
  have a: "fst (session_run test_hash flaky_calls (no_sessions ''e'')) = [Done, Done, Done, Until 1859]" by code_simp
  have v: "trim_space ''1.2'' = ''1.2''" by code_simp
  have one: "{r. r = x \<and> t < expiresAt r} = (if t < expiresAt x then {x} else {})" for x :: loginSessionRecord and t by auto
  show ?thesis
    unfolding login_trail_of_def a
    by (simp add: v one flaky_calls_def trail_step_def test_hash_def issued_def prolonged_def EffectiveSessionMaxAgeMinutes_def truncate_second_def
        sessionMaxAgeMaxMinutes_def flaky_env_def test_env_def currentLoginSessionVersion_def)
qed

lemma admitted_was_granted_witness:
  "\<exists>h r. Option.bind (Some ''a'') test_hash = Some h \<and> r \<in> login_trail_of test_hash ''e'' flaky_calls h
     \<and> userName r = ''ann'' \<and> 1800000000000 < expiresAt r \<and> lr_version r = currentLoginSessionVersion flaky_env"
proof (rule admitted_was_granted [OF test_run(1) flaky_run])
  show "fst (session_step test_hash flaky_env (Check (Some ''a'') 1800000000000) (snd (session_run test_hash flaky_calls (no_sessions ''e'')))) = Admitted ''ann''"
    by code_simp
qed

lemma session_store_invariant_example: "store_ok (snd (session_run test_hash flaky_calls (no_sessions ''e'')))"
  by (rule session_store_invariant [OF test_run(1) flaky_run])

definition overflow_row :: LoginSession where
  "overflow_row = loginSessionModel 3 ''#a'' \<lparr>userName = ''ann'', lr_version = ''1.2'', lr_epoch = ''e'', expiresAt = 900,
     lastActivityAt = 5, idleLimitMinutes = 30\<rparr>"

definition overflow_state :: session_state where
  "overflow_state = (no_sessions ''e'')\<lparr>session_rows := [overflow_row], hasPersisted := True\<rparr>"

lemma refill_ends_example:
  "case refillInMemoryLoginSessionsLocked test_env 8 0 overflow_state of
     (d, n', s') \<Rightarrow> d \<and> (maxInMemoryLoginSessions \<le> length (sessions s') \<or> session_rows s' = []) \<and> n' \<le> 0 + 2 * length (session_rows overflow_state) + 1"
proof -
  obtain d n' s' where r: "refillInMemoryLoginSessionsLocked test_env 8 0 overflow_state = (d, n', s')" by (rule prod_cases3)
  have "db_open test_env" "\<forall>i. stmt_ok test_env i" by (simp_all add: test_env_def)
  from refill_ends [OF this r] show ?thesis unfolding r by simp
qed

lemma logout_lost_on_failed_delete_example:
  "ClearSession test_hash flaky_env (Some ''a'') 8 overflow_state = (ClearCookie, overflow_state)
     \<and> live flaky_env overflow_state 8 ''#a'' \<noteq> None"
proof
  show "ClearSession test_hash flaky_env (Some ''a'') 8 overflow_state = (ClearCookie, overflow_state)"
    by (rule logout_lost_on_failed_delete [of _ _ "''#a''"])
       (simp_all add: test_hash_def flaky_env_def test_env_def overflow_state_def no_sessions_def)
  show "live flaky_env overflow_state 8 ''#a'' \<noteq> None" by code_simp
qed

end
