(* ===== verification/Content_Negotiation.thy ===== *)
theory Content_Negotiation
  imports Go_Prelude
begin

text \<open>
  Content negotiation of the reverse proxy (\<open>compression/Compression-algorithm/Compression_negotiation.go\<close> and the constants of
  \<open>Compression_types.go\<close>): parsing \<open>Accept-Encoding\<close> and \<open>Content-Encoding\<close>, choosing a coding, and the header the proxy sends
  upstream.

  A quality is a \<open>float64\<close> of which only 0, 1 and, for an absent wildcard, -1 occur; it is an \<^typ>\<open>int\<close> here. The decreasing
  qualities the proxy prints are counted in thousandths. Header values are taken to be ASCII where letters are compared without regard
  to case.
\<close>

section \<open>Codings\<close>

type_synonym Algorithm = string

definition AlgorithmIdentity :: Algorithm where "AlgorithmIdentity = ''identity''"
definition AlgorithmZstd :: Algorithm where "AlgorithmZstd = ''zstd''"
definition AlgorithmS2 :: Algorithm where "AlgorithmS2 = ''s2''"
definition AlgorithmSnappy :: Algorithm where "AlgorithmSnappy = ''snappy''"
definition AlgorithmBrotli :: Algorithm where "AlgorithmBrotli = ''br''"
definition AlgorithmDeflate :: Algorithm where "AlgorithmDeflate = ''deflate''"
definition AlgorithmGzip :: Algorithm where "AlgorithmGzip = ''gzip''"

lemmas algorithm_defs =
  AlgorithmIdentity_def AlgorithmZstd_def AlgorithmS2_def AlgorithmSnappy_def AlgorithmBrotli_def AlgorithmDeflate_def AlgorithmGzip_def

definition fixedPriorityOrder :: "Algorithm list" where
  "fixedPriorityOrder = [AlgorithmZstd, AlgorithmS2, AlgorithmSnappy, AlgorithmBrotli, AlgorithmDeflate, AlgorithmGzip]"

definition isSupportedAlgorithm :: "Algorithm \<Rightarrow> bool" where
  "isSupportedAlgorithm a \<longleftrightarrow> a = AlgorithmZstd \<or> a = AlgorithmS2 \<or> a = AlgorithmSnappy \<or> a = AlgorithmBrotli
     \<or> a = AlgorithmDeflate \<or> a = AlgorithmGzip"

definition canonicalEncodingName :: "string \<Rightarrow> string" where
  "canonicalEncodingName name = (if name = ''x-gzip'' then AlgorithmGzip else name)"

section \<open>Parsing\<close>

definition parseQuality :: "string \<Rightarrow> int option" where
  "parseQuality v =
     (if v \<noteq> trim_space v then None
      else if v = ''0'' \<or> v = ''0.'' then Some 0
      else if has_prefix v ''0.''
      then (let fraction = drop 2 v
            in if fraction = [] then Some 0
               else if \<not> list_all is_digit fraction then None
               else if list_ex (\<lambda>c. c \<noteq> CHR ''0'') fraction then Some 1 else Some 0)
      else if v = ''1'' \<or> v = ''1.'' then Some 1
      else if has_prefix v ''1.'' then (if list_all (\<lambda>c. c = CHR ''0'') (drop 2 v) then Some 1 else None)
      else None)"

record acceptEncodingPreferences =
  explicit :: "string \<Rightarrow> int option"
  wildcard :: int
  identityQuality :: int
  identityExplicit :: bool

fun item_quality :: "string list \<Rightarrow> int \<Rightarrow> bool \<Rightarrow> int option" where
  \<comment> \<open>the loop over the parameters of an item, with \<open>quality\<close> and \<open>qualitySeen\<close>; \<open>None\<close> when \<open>valid\<close> is cleared\<close>
  "item_quality [] quality qualitySeen = Some quality"
| "item_quality (p # ps) quality qualitySeen =
     (let parameter = trim_space p
      in if parameter = [] then None
         else case split_n2 (CHR ''='') parameter of
                [key, v] \<Rightarrow>
                  (if \<not> equal_fold (trim_space key) ''q'' then None
                   else if qualitySeen then None
                   else case parseQuality v of None \<Rightarrow> None | Some parsed \<Rightarrow> item_quality ps parsed True)
              | _ \<Rightarrow> None)"

definition accept_item :: "string \<Rightarrow> (string \<times> int) option" where
  \<comment> \<open>one element of the list: its name and quality, \<open>None\<close> when it is skipped\<close>
  "accept_item raw =
     (let item = trim_space raw
      in if item = [] then None
         else let parts = split_on (CHR '';'') item; name = to_lower (trim_space (hd parts))
              in if name = [] then None
                 else case item_quality (tl parts) 1 False of None \<Rightarrow> None | Some quality \<Rightarrow> Some (name, quality))"

definition add_preference :: "acceptEncodingPreferences \<Rightarrow> string \<times> int \<Rightarrow> acceptEncodingPreferences" where
  "add_preference p e =
     (case e of (name, quality) \<Rightarrow>
        (if name = ''*''
         then (if wildcard p < 0 \<or> quality < wildcard p then p\<lparr>wildcard := quality\<rparr> else p)
         else if name = AlgorithmIdentity
         then (if \<not> identityExplicit p \<or> quality < identityQuality p then p\<lparr>identityQuality := quality\<rparr> else p)\<lparr>identityExplicit := True\<rparr>
         else (case explicit p name of
                 None \<Rightarrow> p\<lparr>explicit := (explicit p)(name \<mapsto> quality)\<rparr>
               | Some previous \<Rightarrow> (if quality < previous then p\<lparr>explicit := (explicit p)(name \<mapsto> quality)\<rparr> else p))))"

definition parseAcceptEncoding :: "string \<Rightarrow> acceptEncodingPreferences" where
  "parseAcceptEncoding header =
     (let p = foldl (\<lambda>p item. case accept_item item of None \<Rightarrow> p | Some e \<Rightarrow> add_preference p e)
                \<lparr>explicit = Map.empty, wildcard = - 1, identityQuality = 1, identityExplicit = False\<rparr> (split_on (CHR '','') header)
      in if wildcard p = 0 \<and> \<not> identityExplicit p then p\<lparr>identityQuality := 0\<rparr> else p)"

section \<open>Choosing\<close>

definition coding_quality :: "acceptEncodingPreferences \<Rightarrow> string \<Rightarrow> int" where
  "coding_quality p name = (case explicit p name of Some q \<Rightarrow> q | None \<Rightarrow> wildcard p)"

definition SelectEncoding :: "string \<Rightarrow> Algorithm \<times> bool" where
  "SelectEncoding raw =
     (let header = trim_space raw
      in if header = [] then (AlgorithmIdentity, True)
         else let p = parseAcceptEncoding header
              in case find (\<lambda>a. coding_quality p a > 0) fixedPriorityOrder of
                   Some a \<Rightarrow> (a, True)
                 | None \<Rightarrow> (AlgorithmIdentity, identityQuality p > 0))"

definition IdentityAcceptable :: "string \<Rightarrow> bool" where
  "IdentityAcceptable header \<longleftrightarrow> identityQuality (parseAcceptEncoding (trim_space header)) > 0"

fun codings_acceptable :: "acceptEncodingPreferences \<Rightarrow> string list \<Rightarrow> bool" where
  "codings_acceptable p [] \<longleftrightarrow> True"
| "codings_acceptable p (item # items) \<longleftrightarrow>
     (let name = canonicalEncodingName (to_lower (trim_space item))
      in if name = [] \<or> name = AlgorithmIdentity then codings_acceptable p items
         else if coding_quality p name \<le> 0 then False else codings_acceptable p items)"

definition contentEncodingAcceptable :: "string \<Rightarrow> string \<Rightarrow> bool" where
  "contentEncodingAcceptable contentEncoding acceptEncoding \<longleftrightarrow>
     codings_acceptable (parseAcceptEncoding acceptEncoding) (split_on (CHR '','') contentEncoding)"

definition ContentEncodingAcceptable :: "string \<Rightarrow> string \<Rightarrow> bool" where
  "ContentEncodingAcceptable contentEncoding acceptEncoding \<longleftrightarrow>
     (if trim_space contentEncoding = [] \<or> equal_fold (trim_space contentEncoding) AlgorithmIdentity then True
      else if trim_space acceptEncoding = [] then True
      else contentEncodingAcceptable contentEncoding acceptEncoding)"

definition ContentEncodingAcceptableValues :: "string \<Rightarrow> string list \<Rightarrow> bool" where
  "ContentEncodingAcceptableValues raw acceptValues \<longleftrightarrow>
     (let contentEncoding = trim_space raw
      in if contentEncoding = [] \<or> equal_fold contentEncoding AlgorithmIdentity then True
         else if acceptValues = [] then True
         else let acceptEncoding = trim_space (str_join '','' acceptValues)
              in if acceptEncoding = [] then False else contentEncodingAcceptable contentEncoding acceptEncoding)"

definition SelectEncodingWithAllowed :: "string \<Rightarrow> Algorithm list option \<Rightarrow> Algorithm \<times> bool" where
  \<comment> \<open>\<open>None\<close> is a nil slice\<close>
  "SelectEncodingWithAllowed header allowed =
     (case allowed of
        None \<Rightarrow> SelectEncoding header
      | Some [] \<Rightarrow> (AlgorithmIdentity, IdentityAcceptable (trim_space header))
      | Some as \<Rightarrow>
          (let allowedSet = filter isSupportedAlgorithm as; p = parseAcceptEncoding (trim_space header)
           in case find (\<lambda>a. a \<in> set allowedSet \<and> coding_quality p a > 0) fixedPriorityOrder of
                Some a \<Rightarrow> (a, True)
              | None \<Rightarrow> (AlgorithmIdentity, identityQuality p > 0)))"

definition format_thousandths :: "nat \<Rightarrow> string" where
  \<comment> \<open>\<open>%.3f\<close> of a number of thousandths\<close>
  "format_thousandths k = nat_digits (k div 1000) @ ''.'' @ [digit_char (k div 100 mod 10), digit_char (k div 10 mod 10), digit_char (k mod 10)]"

fun advertised_items :: "nat \<Rightarrow> Algorithm list \<Rightarrow> string list" where
  \<comment> \<open>the number of items so far and the algorithms still to come\<close>
  "advertised_items n [] = []"
| "advertised_items n (a # as) = (a @ '';q='' @ format_thousandths (1000 - n)) # advertised_items (Suc n) as"

definition AcceptEncodingFor :: "Algorithm list \<Rightarrow> string" where
  "AcceptEncodingFor selected =
     (if selected = [] then []
      else let allowed = filter isSupportedAlgorithm selected
           in str_join '', '' (advertised_items 0 (filter (\<lambda>a. a \<in> set allowed) fixedPriorityOrder)))"

definition UpstreamAcceptEncoding :: string where
  "UpstreamAcceptEncoding = AcceptEncodingFor fixedPriorityOrder"

datatype negotiation_error = ErrUnsupportedEncoding

fun content_codings :: "string list \<Rightarrow> negotiation_error + Algorithm list" where
  "content_codings [] = Inr []"
| "content_codings (part # parts) =
     (let name = canonicalEncodingName (to_lower (trim_space part))
      in if name = [] \<or> name = AlgorithmIdentity then content_codings parts
         else if \<not> isSupportedAlgorithm name then Inl ErrUnsupportedEncoding
         else case content_codings parts of Inl e \<Rightarrow> Inl e | Inr as \<Rightarrow> Inr (name # as))"

definition ParseContentEncoding :: "string \<Rightarrow> negotiation_error + Algorithm list" where
  "ParseContentEncoding raw =
     (let header = trim_space raw
      in if header = [] \<or> equal_fold header AlgorithmIdentity then Inr []
         else content_codings (split_on (CHR '','') header))"

definition AppendVaryAcceptEncoding :: "string \<Rightarrow> string \<Rightarrow> string" where
  \<comment> \<open>the current and the new value of \<open>Vary\<close>\<close>
  "AppendVaryAcceptEncoding current v =
     (if list_ex (\<lambda>item. trim_space item = ''*'' \<or> equal_fold (trim_space item) v) (split_on (CHR '','') current) then current
      else if trim_space current = [] then v
      else current @ '', '' @ v)"

section \<open>What a header means\<close>

definition offers :: "string \<Rightarrow> (string \<times> int) list" where
  "offers header = List.map_filter accept_item (split_on (CHR '','') header)"

definition accepted :: "(string \<times> int) list \<Rightarrow> string \<Rightarrow> bool" where
  \<comment> \<open>a coding is accepted when it is listed and never refused, or not listed and covered by a wildcard that is never refused\<close>
  "accepted es a \<longleftrightarrow> (if a \<in> fst ` set es then (a, 0) \<notin> set es else ''*'' \<in> fst ` set es \<and> (''*'', 0) \<notin> set es)"

definition identity_accepted :: "(string \<times> int) list \<Rightarrow> bool" where
  \<comment> \<open>the plain content is accepted unless it is refused, or a wildcard is refused and it is not listed\<close>
  "identity_accepted es \<longleftrightarrow>
     (if AlgorithmIdentity \<in> fst ` set es then (AlgorithmIdentity, 0) \<notin> set es else (''*'', 0) \<notin> set es)"

definition choose_coding :: "(Algorithm \<Rightarrow> bool) \<Rightarrow> (string \<times> int) list \<Rightarrow> Algorithm \<times> bool" where
  "choose_coding allowed es =
     (case find (\<lambda>a. allowed a \<and> accepted es a) fixedPriorityOrder of
        Some a \<Rightarrow> (a, True) | None \<Rightarrow> (AlgorithmIdentity, identity_accepted es))"

lemma parseQuality_01: "parseQuality v = Some q \<Longrightarrow> q = 0 \<or> q = 1"
  by (auto simp: parseQuality_def Let_def split: if_splits)

lemma item_quality_01: "item_quality ps q seen = Some r \<Longrightarrow> q = 0 \<or> q = 1 \<Longrightarrow> r = 0 \<or> r = 1"
proof (induction ps q seen rule: item_quality.induct)
  case (2 p ps q seen)
  then show ?case
    by (auto simp: Let_def split: if_splits list.splits option.splits dest: parseQuality_01)
qed auto

lemma accept_item_01: "accept_item s = Some (a, q) \<Longrightarrow> q = 0 \<or> q = 1"
  by (auto simp: accept_item_def Let_def split: if_splits option.splits dest: item_quality_01)

definition start_preferences :: acceptEncodingPreferences where
  "start_preferences = \<lparr>explicit = Map.empty, wildcard = - 1, identityQuality = 1, identityExplicit = False\<rparr>"

lemma parse_fold:
  "foldl (\<lambda>p item. case accept_item item of None \<Rightarrow> p | Some e \<Rightarrow> add_preference p e) p items
     = foldl add_preference p (List.map_filter accept_item items)"
  by (induction items arbitrary: p) (auto simp: map_filter_simps split: option.splits)

definition least_quality :: "(string \<times> int) list \<Rightarrow> string \<Rightarrow> int option" where
  "least_quality es a = (if (a, 0) \<in> set es then Some 0 else if a \<in> fst ` set es then Some 1 else None)"

lemma least_quality_snoc:
  "q = 0 \<or> q = 1 \<Longrightarrow> least_quality (es @ [(b, q)]) a
     = (if a = b then Some (case least_quality es a of None \<Rightarrow> q | Some p \<Rightarrow> min p q) else least_quality es a)"
  by (auto simp: least_quality_def)

definition reads :: "(string \<times> int) list \<Rightarrow> acceptEncodingPreferences \<Rightarrow> bool" where
  \<comment> \<open>the preferences hold the least quality of every name\<close>
  "reads es p \<longleftrightarrow> (\<forall>a. a \<noteq> ''*'' \<longrightarrow> a \<noteq> AlgorithmIdentity \<longrightarrow> explicit p a = least_quality es a)
    \<and> wildcard p = (case least_quality es ''*'' of None \<Rightarrow> - 1 | Some q \<Rightarrow> q)
    \<and> identityQuality p = (case least_quality es AlgorithmIdentity of None \<Rightarrow> 1 | Some q \<Rightarrow> q)
    \<and> identityExplicit p = (least_quality es AlgorithmIdentity \<noteq> None)"

lemma least_quality_cases: "least_quality es x = None \<or> least_quality es x = Some 0 \<or> least_quality es x = Some 1"
  by (simp add: least_quality_def)

lemma identity_not_star [simp]: "AlgorithmIdentity \<noteq> ''*''" "''*'' \<noteq> AlgorithmIdentity"
  by (simp_all add: algorithm_defs)

lemma add_preference_reads:
  assumes r: "reads es p" and q: "q = 0 \<or> q = 1"
  shows "reads (es @ [(b, q)]) (add_preference p (b, q))"
proof -
  consider "b = ''*''" | "b = AlgorithmIdentity" "b \<noteq> ''*''" | "b \<noteq> ''*''" "b \<noteq> AlgorithmIdentity" by blast
  then show ?thesis
  proof cases
    case 1
    show ?thesis using r q least_quality_cases [of es "''*''"] unfolding reads_def 1
      by (elim conjE disjE) (simp_all add: add_preference_def least_quality_snoc)
  next
    case 2
    show ?thesis using r q least_quality_cases [of es AlgorithmIdentity] unfolding reads_def 2(1)
      by (elim conjE disjE) (simp_all add: add_preference_def least_quality_snoc)
  next
    case 3
    then have "explicit p b = least_quality es b" using r by (simp add: reads_def)
    then show ?thesis using r q 3 least_quality_cases [of es b] unfolding reads_def
      by (elim conjE disjE) (simp_all add: add_preference_def least_quality_snoc)
  qed
qed

lemma preferences_read:
  "\<forall>(a, q) \<in> set es. q = 0 \<or> q = 1 \<Longrightarrow> reads es (foldl add_preference start_preferences es)"
proof (induction es rule: rev_induct)
  case (snoc e es)
  then show ?case using add_preference_reads [of es _ "snd e" "fst e"] by (cases e) auto
qed (simp add: reads_def start_preferences_def least_quality_def)

lemma offers_01: "\<forall>(a, q) \<in> set (offers header). q = 0 \<or> q = 1"
  by (auto simp: offers_def List.map_filter_def dest: accept_item_01)

lemma parse_meaning:
  assumes "a \<noteq> ''*''" "a \<noteq> AlgorithmIdentity"
  shows "coding_quality (parseAcceptEncoding header) a > 0 \<longleftrightarrow> accepted (offers header) a"
    and "identityQuality (parseAcceptEncoding header) > 0 \<longleftrightarrow> identity_accepted (offers header)"
proof -
  let ?p = "foldl add_preference start_preferences (offers header)"
  have p: "parseAcceptEncoding header = (if wildcard ?p = 0 \<and> \<not> identityExplicit ?p then ?p\<lparr>identityQuality := 0\<rparr> else ?p)"
    by (simp add: parseAcceptEncoding_def parse_fold offers_def start_preferences_def Let_def)
  have r: "reads (offers header) ?p" by (rule preferences_read [OF offers_01])
  then show "coding_quality (parseAcceptEncoding header) a > 0 \<longleftrightarrow> accepted (offers header) a"
    using assms unfolding p by (auto simp: reads_def coding_quality_def accepted_def least_quality_def intro: rev_image_eqI)
  show "identityQuality (parseAcceptEncoding header) > 0 \<longleftrightarrow> identity_accepted (offers header)"
    using r unfolding p by (auto simp: reads_def identity_accepted_def least_quality_def image_iff)
qed

lemma priority_names:
  assumes "a \<in> set fixedPriorityOrder"
  shows "a \<noteq> ''*''" "a \<noteq> AlgorithmIdentity" "a \<noteq> []" "isSupportedAlgorithm a" "to_lower a = a" "CHR '','' \<notin> set a"
    "plain_char (hd a)" "plain_char (last a)" "canonicalEncodingName a = a"
  using assms
  by (auto simp: fixedPriorityOrder_def algorithm_defs isSupportedAlgorithm_def to_lower_def ascii_lower_def plain_char_def canonicalEncodingName_def)

lemma supported_iff: "isSupportedAlgorithm a \<longleftrightarrow> a \<in> set fixedPriorityOrder"
  by (auto simp: isSupportedAlgorithm_def fixedPriorityOrder_def)

lemma find_priority_cong:
  "(\<And>a. a \<in> set fixedPriorityOrder \<Longrightarrow> P a = Q a) \<Longrightarrow> find P fixedPriorityOrder = find Q fixedPriorityOrder"
  by (rule find_cong) auto

lemma select_is_choice:
  "SelectEncodingWithAllowed header allowed
     = choose_coding (\<lambda>a. case allowed of None \<Rightarrow> True | Some as \<Rightarrow> a \<in> set as) (offers (trim_space header))"
proof -
  let ?p = "parseAcceptEncoding (trim_space header)"
  have m: "a \<in> set fixedPriorityOrder \<Longrightarrow> coding_quality ?p a > 0 \<longleftrightarrow> accepted (offers (trim_space header)) a" for a
    using parse_meaning(1) [of a "trim_space header"] priority_names by blast
  have i: "identityQuality ?p > 0 \<longleftrightarrow> identity_accepted (offers (trim_space header))"
    using parse_meaning(2) [of "''zstd''" "trim_space header"] by (simp add: algorithm_defs)
  have e: "offers [] = []" by (simp add: offers_def List.map_filter_def accept_item_def)
  consider "allowed = None" | "allowed = Some []" | a as where "allowed = Some (a # as)" by (metis list.exhaust option.exhaust)
  then show ?thesis
  proof cases
    case 1
    have "find (\<lambda>a. coding_quality ?p a > 0) fixedPriorityOrder = find (accepted (offers (trim_space header))) fixedPriorityOrder"
      by (rule find_priority_cong) (rule m)
    moreover have "find (accepted []) fixedPriorityOrder = None" by (simp add: find_None_iff accepted_def)
    moreover have "identity_accepted []" by (simp add: identity_accepted_def)
    ultimately show ?thesis
      using 1 i e by (auto simp: SelectEncodingWithAllowed_def SelectEncoding_def choose_coding_def Let_def split: option.split)
  next
    case 2
    have "find (\<lambda>a. False) fixedPriorityOrder = None" by (simp add: find_None_iff)
    then show ?thesis using 2 i by (simp add: SelectEncodingWithAllowed_def choose_coding_def IdentityAcceptable_def)
  next
    case 3
    have "find (\<lambda>x. x \<in> set (filter isSupportedAlgorithm (a # as)) \<and> coding_quality ?p x > 0) fixedPriorityOrder
        = find (\<lambda>x. x \<in> set (a # as) \<and> accepted (offers (trim_space header)) x) fixedPriorityOrder"
      by (rule find_priority_cong) (use m priority_names(4) in auto)
    then show ?thesis using 3 i by (simp add: SelectEncodingWithAllowed_def choose_coding_def Let_def split: option.split)
  qed
qed

lemma acceptable_one:
  assumes a: "a \<in> set fixedPriorityOrder" and h: "trim_space (str_join '','' vs) \<noteq> []"
  shows "ContentEncodingAcceptableValues a vs \<longleftrightarrow> accepted (offers (trim_space (str_join '','' vs))) a"
proof -
  note n = priority_names [OF a]
  have t: "trim_space a = a" by (rule trim_space_plain [OF n(7,8)])
  have "vs \<noteq> []" using h by auto
  moreover have "\<not> equal_fold a AlgorithmIdentity"
    using n(2,5) by (auto simp: equal_fold_def algorithm_defs to_lower_def ascii_lower_def)
  ultimately have "ContentEncodingAcceptableValues a vs
      \<longleftrightarrow> contentEncodingAcceptable a (trim_space (str_join '','' vs))"
    using n(3) h by (simp add: ContentEncodingAcceptableValues_def t Let_def)
  also have "\<dots> \<longleftrightarrow> coding_quality (parseAcceptEncoding (trim_space (str_join '','' vs))) a > 0"
    using n by (simp add: contentEncodingAcceptable_def split_on_no_sep t Let_def linorder_not_le)
  finally show ?thesis using parse_meaning(1) [OF n(1,2)] by blast
qed

lemma selection_acceptable:
  assumes "SelectEncodingWithAllowed (str_join '','' vs) allowed = (a, ok)"
  shows "(ok \<longrightarrow> (if a = AlgorithmIdentity then IdentityAcceptable (str_join '','' vs) else ContentEncodingAcceptableValues a vs))
    \<and> (\<not> ok \<longrightarrow> \<not> IdentityAcceptable (str_join '','' vs)
         \<and> (\<forall>b. isSupportedAlgorithm b \<longrightarrow> (case allowed of None \<Rightarrow> True | Some as \<Rightarrow> b \<in> set as) \<longrightarrow> \<not> ContentEncodingAcceptableValues b vs))"
proof -
  let ?h = "trim_space (str_join '','' vs)"
  let ?al = "\<lambda>a. case allowed of None \<Rightarrow> True | Some as \<Rightarrow> a \<in> set as"
  have c: "choose_coding ?al (offers ?h) = (a, ok)" using assms by (simp add: select_is_choice)
  have i: "IdentityAcceptable (str_join '','' vs) \<longleftrightarrow> identity_accepted (offers ?h)"
    using parse_meaning(2) [of "''zstd''" ?h] by (simp add: IdentityAcceptable_def algorithm_defs)
  have e: "offers [] = []" by (simp add: offers_def List.map_filter_def accept_item_def)
  show ?thesis
  proof (cases "find (\<lambda>a. ?al a \<and> accepted (offers ?h) a) fixedPriorityOrder")
    case None
    then have a: "a = AlgorithmIdentity" "ok = identity_accepted (offers ?h)" using c by (auto simp: choose_coding_def)
    moreover have "\<not> ContentEncodingAcceptableValues b vs" if "\<not> ok" "isSupportedAlgorithm b" "?al b" for b
    proof -
      have "?h \<noteq> []" using that(1) a e by (auto simp: identity_accepted_def)
      moreover have "\<not> accepted (offers ?h) b" using None that(2,3) by (auto simp: find_None_iff supported_iff)
      ultimately show ?thesis using acceptable_one [of b vs] that(2) by (simp add: supported_iff)
    qed
    ultimately show ?thesis using i by auto
  next
    case (Some b)
    then have ab: "a = b" ok using c by (auto simp: choose_coding_def)
    have b: "b \<in> set fixedPriorityOrder" "accepted (offers ?h) b"
      using Some by (auto simp: find_Some_iff)
    then have "?h \<noteq> []" using e by (auto simp: accepted_def)
    then show ?thesis using ab b acceptable_one [of b vs] priority_names(2) by auto
  qed
qed

lemma trim_space_lead: "trim_space (CHR '' '' # s) = trim_space s"
proof -
  have "strip_left space_seqs (CHR '' '' # s) = strip_left space_seqs s"
    by (subst strip_left.simps) (simp add: space_seqs_def)
  then show ?thesis by (simp add: trim_space_def)
qed

lemma split_on_comma_space: "split_on (CHR '','') (CHR '' '' # s) = (CHR '' '' # hd (split_on (CHR '','') s)) # tl (split_on (CHR '','') s)"
  by (simp split: list.split)

lemma split_join_spaced:
  assumes "\<forall>v \<in> set (w # ws). CHR '','' \<notin> set v"
  shows "split_on (CHR '','') (str_join '', '' (w # ws)) = w # map (Cons (CHR '' '')) ws"
  using assms
proof (induction ws arbitrary: w)
  case (Cons v ws)
  from Cons.prems have "split_on (CHR '','') (str_join '', '' (w # v # ws)) = w # split_on (CHR '','') (CHR '' '' # str_join '', '' (v # ws))"
    by (simp add: split_on_append del: split_on.simps)
  also have "\<dots> = w # (CHR '' '' # v) # map (Cons (CHR '' '')) ws"
    unfolding split_on_comma_space using Cons.IH [of v] Cons.prems by simp
  finally show ?case by simp
qed (simp add: split_on_no_sep)

lemma find_hd_filter: "filter P xs \<noteq> [] \<Longrightarrow> find P xs = Some (hd (filter P xs))"
  by (induction xs) auto

lemma format_values:
  "format_thousandths 1000 = ''1.000''" "format_thousandths 999 = ''0.999''" "format_thousandths 998 = ''0.998''"
  "format_thousandths 997 = ''0.997''" "format_thousandths 996 = ''0.996''" "format_thousandths 995 = ''0.995''"
  by (simp_all add: format_thousandths_def nat_digits.simps digit_char_def char_of_def bit_0)

lemma format_last: "format_thousandths k \<noteq> [] \<and> last (format_thousandths k) = digit_char (k mod 10)"
  by (simp add: format_thousandths_def)

lemma quality_positive: "n < 6 \<Longrightarrow> parseQuality (format_thousandths (1000 - n)) = Some 1 \<and> CHR '';'' \<notin> set (format_thousandths (1000 - n)) \<and> CHR '','' \<notin> set (format_thousandths (1000 - n))"
proof -
  assume "n < 6"
  then consider "n = 0" | "n = 1" | "n = 2" | "n = 3" | "n = 4" | "n = 5" by linarith
  then show ?thesis
    by cases (simp_all add: format_values parseQuality_def plain_char_def has_prefix_def is_digit_def)
qed

lemma advertised_item:
  assumes a: "a \<in> set fixedPriorityOrder" and n: "n < 6"
  defines "w \<equiv> a @ '';q='' @ format_thousandths (1000 - n)"
  shows "accept_item w = Some (a, 1)" "accept_item (CHR '' '' # w) = Some (a, 1)" "CHR '','' \<notin> set w" "plain_char (hd w)" "plain_char (last w)" "w \<noteq> []"
proof -
  note p = priority_names [OF a]
  let ?f = "format_thousandths (1000 - n)"
  have semi: "CHR '';'' \<notin> set a" using a by (auto simp: fixedPriorityOrder_def algorithm_defs)
  have f: "parseQuality ?f = Some 1" "CHR '';'' \<notin> set ?f" "CHR '','' \<notin> set ?f" using quality_positive [OF n] by auto
  show ends: "plain_char (hd w)" "plain_char (last w)" "w \<noteq> []"
    using p(3,7) format_last [of "1000 - n"] by (auto simp: w_def digit_char_props)
  show "CHR '','' \<notin> set w" using p(6) f(3) by (simp add: w_def)
  have t: "trim_space w = w" by (rule trim_space_plain [OF ends(1,2)])
  have "split_on (CHR '';'') w = [a, ''q='' @ ?f]"
    unfolding w_def using semi f(2) by (simp add: split_on_append split_on_no_sep)
  moreover have "trim_space (''q='' @ ?f) = ''q='' @ ?f"
    by (rule trim_space_plain) (use format_last [of "1000 - n"] in \<open>auto simp: plain_char_def [of "CHR ''q''"] digit_char_props\<close>)
  then have "item_quality [''q='' @ ?f] 1 False = Some 1"
    using f(1) by (simp add: Let_def split_n2_def equal_fold_def plain_char_def)
  ultimately show "accept_item w = Some (a, 1)"
    using ends p(3,5) trim_space_plain [OF p(7,8)] by (simp add: accept_item_def t)
  then show "accept_item (CHR '' '' # w) = Some (a, 1)" by (simp add: accept_item_def trim_space_lead)
qed

lemma advertised_offers:
  assumes "set as \<subseteq> set fixedPriorityOrder" "n + length as \<le> 6"
  shows "List.map_filter accept_item (map (Cons (CHR '' '')) (advertised_items n as)) = map (\<lambda>a. (a, 1)) as"
    "List.map_filter accept_item (advertised_items n as) = map (\<lambda>a. (a, 1)) as"
    "\<forall>w \<in> set (advertised_items n as). CHR '','' \<notin> set w \<and> w \<noteq> [] \<and> plain_char (hd w) \<and> plain_char (last w)"
  using assms
proof (induction as arbitrary: n)
  case (Cons a as)
  { case 1 then show ?case using Cons.IH(1) [of "Suc n"] advertised_item [of a n] by (simp add: map_filter_simps) }
  { case 2 then show ?case using Cons.IH(2) [of "Suc n"] advertised_item [of a n] by (simp add: map_filter_simps) }
  { case 3 then show ?case using Cons.IH(3) [of "Suc n"] advertised_item [of a n] by simp }
qed (simp_all add: map_filter_simps)

lemma advertised_header:
  assumes as: "as = filter (\<lambda>a. a \<in> set selected) fixedPriorityOrder" and ne: "as \<noteq> []"
  shows "trim_space (AcceptEncodingFor selected) = AcceptEncodingFor selected" "AcceptEncodingFor selected \<noteq> []"
    "offers (AcceptEncodingFor selected) = map (\<lambda>a. (a, 1)) as"
proof -
  have sub: "set as \<subseteq> set fixedPriorityOrder" "0 + length as \<le> 6"
    using as by (auto simp: fixedPriorityOrder_def intro: order_trans [OF length_filter_le])
  note I = advertised_offers [OF sub]
  have "filter (\<lambda>a. a \<in> set (filter isSupportedAlgorithm selected)) fixedPriorityOrder = as"
    unfolding as by (rule filter_cong) (auto simp: supported_iff)
  moreover have "selected \<noteq> []" using ne as by auto
  ultimately have h: "AcceptEncodingFor selected = str_join '', '' (advertised_items 0 as)"
    by (simp add: AcceptEncodingFor_def del: filter_filter)
  obtain a as' where c: "as = a # as'" using ne by (cases as) auto
  let ?w = "a @ '';q='' @ format_thousandths (1000 - 0)" and ?ws = "advertised_items 1 as'"
  have ws: "advertised_items 0 as = ?w # ?ws" by (simp add: c)
  have E: "str_join '', '' (advertised_items 0 as) \<noteq> []" "plain_char (hd (str_join '', '' (advertised_items 0 as)))"
    "plain_char (last (str_join '', '' (advertised_items 0 as)))"
    using str_join_ends [of "advertised_items 0 as" "'', ''"] I(3) last_in_set [of "advertised_items 0 as"] by (auto simp: ws)
  then show "trim_space (AcceptEncodingFor selected) = AcceptEncodingFor selected" "AcceptEncodingFor selected \<noteq> []"
    unfolding h by (auto intro: trim_space_plain)
  have "split_on (CHR '','') (str_join '', '' (?w # ?ws)) = ?w # map (Cons (CHR '' '')) ?ws"
    using split_join_spaced [of ?w ?ws] I(3) by (simp add: ws)
  moreover have "List.map_filter accept_item (map (Cons (CHR '' '')) ?ws) = map (\<lambda>a. (a, 1)) as'"
    using advertised_offers(1) [of as' 1] sub c by simp
  moreover have "accept_item ?w = Some (a, 1)" using advertised_item(1) [of a 0] sub(1) c by simp
  ultimately show "offers (AcceptEncodingFor selected) = map (\<lambda>a. (a, 1)) as"
    unfolding h ws offers_def by (simp add: map_filter_simps c)
qed

section \<open>Properties\<close>

text \<open>C30: The coding chosen for a response is the first one, in the fixed order of the project, that the configuration allows and the
  client accepts; a coding is accepted when it is listed and no entry for it has quality 0, or when it is not listed and there
  is a wildcard none of whose entries has quality 0. Without such a coding the plain content is sent, unless the client
  refuses it. The order of the entries and positive qualities have no influence.\<close>

theorem select_first_accepted:
  "SelectEncodingWithAllowed header allowed
     = choose_coding (\<lambda>a. case allowed of None \<Rightarrow> True | Some as \<Rightarrow> a \<in> set as) (offers (trim_space header))"
  by (rule select_is_choice)

text \<open>Choosing a coding and checking one agree: what is chosen passes the check of the responses that already have a
  coding, and when nothing can be chosen neither the plain content nor any supported and allowed coding would pass.\<close>

lemma selection_agrees_with_acceptability:
  assumes "SelectEncodingWithAllowed (str_join '','' vs) allowed = (a, ok)"
  shows "(ok \<longrightarrow> (if a = AlgorithmIdentity then IdentityAcceptable (str_join '','' vs) else ContentEncodingAcceptableValues a vs))
    \<and> (\<not> ok \<longrightarrow> \<not> IdentityAcceptable (str_join '','' vs)
         \<and> (\<forall>b. isSupportedAlgorithm b \<longrightarrow> (case allowed of None \<Rightarrow> True | Some as \<Rightarrow> b \<in> set as) \<longrightarrow> \<not> ContentEncodingAcceptableValues b vs))"
  by (rule selection_acceptable [OF assms])

lemma selection_agrees_with_acceptability_example:
  "ContentEncodingAcceptableValues AlgorithmGzip [''gzip;q=0.1, identity;q=0'']"
proof -
  have "SelectEncodingWithAllowed (str_join '','' [''gzip;q=0.1, identity;q=0'']) None = (AlgorithmGzip, True)" by code_simp
  from selection_agrees_with_acceptability [OF this] show ?thesis by (simp add: algorithm_defs)
qed

text \<open>The header the proxy sends upstream for a selection of codings reads back as that selection: a supported coding is
  acceptable under it exactly when it was selected, and a server of the same kind chooses the first selected coding of the fixed order.\<close>

lemma advertised_codings_read_back:
  assumes "list_ex isSupportedAlgorithm selected"
  shows "(isSupportedAlgorithm a \<longrightarrow> (ContentEncodingAcceptableValues a [AcceptEncodingFor selected] \<longleftrightarrow> a \<in> set selected))
    \<and> SelectEncoding (AcceptEncodingFor selected) = (hd (filter (\<lambda>a. a \<in> set selected) fixedPriorityOrder), True)"
proof
  define as where "as = filter (\<lambda>a. a \<in> set selected) fixedPriorityOrder"
  have ne: "as \<noteq> []" using assms by (auto simp: as_def filter_empty_conv list_ex_iff supported_iff)
  note A = advertised_header [OF as_def ne]
  have acc: "accepted (map (\<lambda>a. (a, 1)) as) b \<longleftrightarrow> b \<in> set as" if "b \<in> set fixedPriorityOrder" for b
  proof -
    have "''*'' \<notin> set as" using priority_names(1) by (auto simp: as_def)
    then show ?thesis by (auto simp: accepted_def image_iff)
  qed
  show "isSupportedAlgorithm a \<longrightarrow> (ContentEncodingAcceptableValues a [AcceptEncodingFor selected] \<longleftrightarrow> a \<in> set selected)"
    using acceptable_one [of a "[AcceptEncodingFor selected]"] A acc [of a] by (auto simp: supported_iff as_def)
  have "find (\<lambda>b. True \<and> accepted (map (\<lambda>a. (a, 1)) as) b) fixedPriorityOrder = find (\<lambda>b. b \<in> set selected) fixedPriorityOrder"
    by (rule find_priority_cong) (use acc in \<open>auto simp: as_def\<close>)
  also have "\<dots> = Some (hd as)"
    using ne unfolding as_def by (rule find_hd_filter)
  finally show "SelectEncoding (AcceptEncodingFor selected) = (hd (filter (\<lambda>a. a \<in> set selected) fixedPriorityOrder), True)"
    using select_is_choice [of "AcceptEncodingFor selected" None] A
    by (simp add: SelectEncodingWithAllowed_def choose_coding_def as_def)
qed

lemma advertised_codings_read_back_example:
  "SelectEncoding (AcceptEncodingFor [AlgorithmGzip, ''lzma'', AlgorithmBrotli]) = (AlgorithmBrotli, True)"
proof -
  have "list_ex isSupportedAlgorithm [AlgorithmGzip, ''lzma'', AlgorithmBrotli]" by code_simp
  from advertised_codings_read_back [OF this, of AlgorithmGzip] show ?thesis
    by (simp add: fixedPriorityOrder_def algorithm_defs)
qed

text \<open>A client that lists only \<open>x-gzip\<close>, the old name of \<open>gzip\<close>, is refused a response in \<open>x-gzip\<close>: the name is
  made canonical in the response and not in the request.\<close>

lemma x_gzip_refused: "\<not> ContentEncodingAcceptableValues ''x-gzip'' [''x-gzip'']"
  by code_simp

end
