(* ===== verification/Compressed_Response.thy ===== *)
theory Compressed_Response
  imports Content_Negotiation
begin

text \<open>
  The response writer that compresses bodies on the way to the client, and the decoder that bounds what a compressed body may expand to
  (\<open>compression/Compression-algorithm/Compression_http.go\<close>, \<open>Compression_codecs.go\<close>).

  The codecs are third-party code: a \<open>codec\<close> is a record of functions for creating an encoder, writing to it, flushing
  and closing it, each with the bytes it emits and whether it succeeded. The writer of the web server is its header map and the list of what
  has been sent (\<open>w_wire\<close>); \<open>raw_write\<close> says how many bytes of a direct write it takes and whether that succeeds. A header map
  has canonical keys. A dereferenced nil request is the result \<open>None\<close>.
\<close>

section \<open>Headers\<close>

type_synonym bytes = string
type_synonym http_header = "string \<Rightarrow> string list"

definition header_get :: "http_header \<Rightarrow> string \<Rightarrow> string" where
  "header_get h k = (case h k of [] \<Rightarrow> [] | v # _ \<Rightarrow> v)"

definition header_set :: "string \<Rightarrow> string \<Rightarrow> http_header \<Rightarrow> http_header" where
  "header_set k v h = h(k := [v])"

definition header_del :: "string \<Rightarrow> http_header \<Rightarrow> http_header" where
  "header_del k h = h(k := [])"

definition add_vary :: "http_header \<Rightarrow> http_header" where
  \<comment> \<open>\<open>AppendVaryAcceptEncoding(w.Header(), "Accept-Encoding")\<close>; an unchanged field is not set again\<close>
  "add_vary h =
     (let current = header_get h ''Vary''; new = AppendVaryAcceptEncoding current ''Accept-Encoding''
      in if new = current then h else header_set ''Vary'' new h)"

record http_request =
  rq_method :: string
  rq_proto :: string
  rq_header :: http_header

definition isUpgradeRequest :: "http_request \<Rightarrow> bool" where
  "isUpgradeRequest r \<longleftrightarrow>
     (if trim_space (header_get (rq_header r) ''Upgrade'') \<noteq> [] then True
      else rq_method r = ''CONNECT'' \<and> equal_fold (trim_space (rq_proto r)) ''websocket'')"

definition compressibleContentType :: "string \<Rightarrow> bool" where
  "compressibleContentType t \<longleftrightarrow>
     (if t = [] \<or> t = ''text/event-stream'' \<or> has_prefix t ''multipart/'' then False
      else if has_prefix t ''text/'' then True
      else t \<in> {''application/json'', ''application/ld+json'', ''application/javascript'', ''application/x-javascript'', ''application/css'',
                ''text/css'', ''application/xml'', ''application/rss+xml'', ''application/atom+xml'', ''application/xhtml+xml'',
                ''application/wasm'', ''application/dns-message'', ''image/svg+xml'', ''application/x-www-form-urlencoded''})"

definition media_type :: "http_header \<Rightarrow> string" where
  "media_type h = to_lower (trim_space (hd (split_on (CHR '';'') (header_get h ''Content-Type''))))"

definition bodyless_status :: "int \<Rightarrow> bool" where
  "bodyless_status st \<longleftrightarrow> (100 \<le> st \<and> st < 200) \<or> st = 204 \<or> st = 205 \<or> st = 304"

section \<open>State\<close>

datatype sent = Informational int | Head int http_header | Body bytes | Flushed

datatype response_error = ErrClosedPipe | EncoderFailed | WriteFailed

record 'e codec =
  enc_new :: "Algorithm \<Rightarrow> int \<Rightarrow> int \<Rightarrow> 'e option"
  enc_write :: "'e \<Rightarrow> bytes \<Rightarrow> 'e \<times> bytes \<times> nat \<times> bool"
  enc_flush :: "'e \<Rightarrow> ('e \<times> bytes \<times> bool) option"  \<comment> \<open>\<open>None\<close> when the encoder cannot be flushed\<close>
  enc_close :: "'e \<Rightarrow> bytes \<times> bool"
  raw_write :: "sent list \<Rightarrow> bytes \<Rightarrow> nat \<times> bool"

record 'e HTTPResponseWriter =
  w_request :: "http_request option"
  w_level :: int
  w_minSize :: int
  w_enabled :: bool
  w_allowed :: "Algorithm list option"
  w_headerSent :: bool
  w_statusSet :: bool
  w_status :: int
  w_algorithm :: Algorithm
  w_encoder :: "'e option"
  w_encoderError :: "response_error option"
  w_closed :: bool
  w_negotiationFailed :: bool
  w_bodyStarted :: bool
  w_pending :: bytes
  w_forceCompression :: bool
  w_contentLengthHint :: int
  w_header :: http_header
  w_wire :: "sent list"

record response_options =
  o_request :: "http_request option"
  o_level :: int
  o_enabled :: bool
  o_minSize :: int
  o_allowed :: "Algorithm list option"

definition NewHTTPResponseWriter :: "http_header \<Rightarrow> response_options \<Rightarrow> 'e HTTPResponseWriter" where
  "NewHTTPResponseWriter h opt =
     \<lparr>w_request = o_request opt, w_level = o_level opt, w_minSize = (if o_minSize opt < 0 then 0 else o_minSize opt),
      w_enabled = o_enabled opt, w_allowed = o_allowed opt, w_headerSent = False, w_statusSet = False, w_status = 0,
      w_algorithm = [], w_encoder = None, w_encoderError = None, w_closed = False, w_negotiationFailed = False,
      w_bodyStarted = False, w_pending = [], w_forceCompression = False, w_contentLengthHint = 0, w_header = h, w_wire = []\<rparr>"

definition send :: "sent \<Rightarrow> 'e HTTPResponseWriter \<Rightarrow> 'e HTTPResponseWriter" where
  "send x w = w\<lparr>w_wire := w_wire w @ [x]\<rparr>"

definition default_status :: "'e HTTPResponseWriter \<Rightarrow> 'e HTTPResponseWriter" where
  "default_status w = (if w_statusSet w then w else w\<lparr>w_status := 200, w_statusSet := True\<rparr>)"

section \<open>Selecting a coding\<close>

definition refuse_identity :: "bool \<Rightarrow> 'e HTTPResponseWriter \<Rightarrow> Algorithm \<times> 'e HTTPResponseWriter" where
  "refuse_identity identityAllowed w =
     (AlgorithmIdentity, if identityAllowed then w else w\<lparr>w_negotiationFailed := True\<rparr>)"

definition too_small :: "'e HTTPResponseWriter \<Rightarrow> bool" where
  "too_small w \<longleftrightarrow>
     (case atoi (trim_space (header_get (w_header w) ''Content-Length'')) of
        Some n \<Rightarrow> (if 0 \<le> n then n = 0 \<or> n < w_minSize w
                  else \<not> w_forceCompression w \<and> w_minSize w > 0 \<and> w_pending w \<noteq> [] \<and> int (length (w_pending w)) < w_minSize w)
      | None \<Rightarrow> \<not> w_forceCompression w \<and> w_minSize w > 0 \<and> w_pending w \<noteq> [] \<and> int (length (w_pending w)) < w_minSize w)"

definition selectAlgorithm :: "int \<Rightarrow> 'e HTTPResponseWriter \<Rightarrow> Algorithm \<times> 'e HTTPResponseWriter" where
  "selectAlgorithm st w =
     (case w_request w of
        None \<Rightarrow> (AlgorithmIdentity, w)
      | Some request \<Rightarrow>
          (if bodyless_status st then (AlgorithmIdentity, w)
           else
             let contentEncoding = trim_space (str_join '','' (w_header w ''Content-Encoding''));
                 acceptValues = rq_header request ''Accept-Encoding''
             in if contentEncoding \<noteq> [] \<and> \<not> equal_fold contentEncoding AlgorithmIdentity
                then (if \<not> ContentEncodingAcceptableValues contentEncoding acceptValues
                      then (AlgorithmIdentity, w\<lparr>w_negotiationFailed := True\<rparr>)
                      else (AlgorithmIdentity, w\<lparr>w_header := add_vary (w_header w)\<rparr>))
                else if rq_method request = ''HEAD'' \<or> st = 101 then (AlgorithmIdentity, w)
                else if isUpgradeRequest request then (AlgorithmIdentity, w)
                else
                  let acceptHeader = str_join '','' acceptValues;
                      (algorithm, acceptable) = SelectEncodingWithAllowed acceptHeader (w_allowed w);
                      identityAllowed = IdentityAcceptable acceptHeader
                  in if \<not> acceptable then (AlgorithmIdentity, w\<lparr>w_negotiationFailed := True\<rparr>)
                     else if \<not> w_enabled w then refuse_identity identityAllowed w
                     else if header_get (rq_header request) ''Range'' \<noteq> [] \<or> header_get (w_header w) ''Content-Range'' \<noteq> []
                     then refuse_identity identityAllowed w
                     else if \<not> compressibleContentType (media_type (w_header w)) then refuse_identity identityAllowed w
                     else let w1 = w\<lparr>w_header := add_vary (w_header w)\<rparr>
                          in if too_small w1 then refuse_identity identityAllowed w1 else (algorithm, w1)))"

definition shouldBufferForMinimumSize :: "'e HTTPResponseWriter \<Rightarrow> bool" where
  "shouldBufferForMinimumSize w \<longleftrightarrow>
     (case w_request w of
        None \<Rightarrow> False
      | Some request \<Rightarrow>
          (if w_minSize w \<le> 0 \<or> \<not> w_enabled w \<or> w_forceCompression w then False
           else if w_statusSet w \<and> bodyless_status (w_status w) then False
           else if trim_space (header_get (w_header w) ''Content-Length'') \<noteq> [] then False
           else if trim_space (str_join '','' (w_header w ''Content-Encoding'')) \<noteq> [] then False
           else if isUpgradeRequest request \<or> rq_method request = ''HEAD'' \<or> header_get (rq_header request) ''Range'' \<noteq> []
                   \<or> header_get (w_header w) ''Content-Range'' \<noteq> [] then False
           else compressibleContentType (media_type (w_header w)) \<and> int (length (w_pending w)) < w_minSize w))"

section \<open>Sending\<close>

definition not_acceptable_text :: bytes where
  "not_acceptable_text = ''not acceptable'' @ [CHR 0x0A]"

definition sendNotAcceptable :: "'e HTTPResponseWriter \<Rightarrow> 'e HTTPResponseWriter" where
  "sendNotAcceptable w =
     (if w_headerSent w then w
      else let h = fold header_del [''Content-Encoding'', ''Content-Length'', ''Content-Md5'', ''Etag'', ''Digest'', ''Content-Digest'', ''Content-Range'']
                     (w_header w);
               h' = header_set ''Content-Type'' ''text/plain; charset=utf-8'' (add_vary h);
               w1 = w\<lparr>w_algorithm := AlgorithmIdentity, w_status := 406, w_header := h'\<rparr>
           in send (Body not_acceptable_text) ((send (Head 406 h') w1)\<lparr>w_headerSent := True\<rparr>))"

definition length_hint :: "http_header \<Rightarrow> int option" where
  \<comment> \<open>a positive \<open>Content-Length\<close>\<close>
  "length_hint h = (case atoi (trim_space (header_get h ''Content-Length'')) of
     Some n \<Rightarrow> (if n > 0 then Some n else None) | None \<Rightarrow> None)"

definition sendHeader :: "'e HTTPResponseWriter \<Rightarrow> response_error option \<times> 'e HTTPResponseWriter" where
  "sendHeader w =
     (if w_headerSent w then (w_encoderError w, w)
      else let w0 = default_status w;
               w1 = (if w_negotiationFailed w0 then w0
                     else case selectAlgorithm (w_status w0) w0 of (a, v) \<Rightarrow> v\<lparr>w_algorithm := a\<rparr>)
           in if w_negotiationFailed w1 then (w_encoderError w1, sendNotAcceptable w1)
              else let w2 = (if w_algorithm w1 = AlgorithmIdentity then w1
                             else w1\<lparr>w_contentLengthHint := (case length_hint (w_header w1) of Some n \<Rightarrow> n | None \<Rightarrow> w_contentLengthHint w1),
                                    w_header := header_set ''Content-Encoding'' (w_algorithm w1)
                                       (fold header_del [''Content-Length'', ''Content-Md5'', ''Digest'', ''Content-Digest'', ''Etag''] (w_header w1))\<rparr>)
                   in (None, (send (Head (w_status w2) (w_header w2)) w2)\<lparr>w_headerSent := True\<rparr>))"

definition zstd_window_max :: int where "zstd_window_max = 33554432"
definition brotli_window_max :: int where "brotli_window_max = 16777216"

function double_until :: "int \<Rightarrow> int \<Rightarrow> int" where
  \<comment> \<open>\<open>for window < contentLength { window <<= 1 }\<close>\<close>
  "double_until window n = (if 0 < window \<and> window < n then double_until (2 * window) n else window)"
  by pat_completeness auto
termination double_until
  by (relation "measure (\<lambda>(window, n). nat (n - window))") auto

declare double_until.simps [simp del]

definition encoderWindowBytesForContentLength :: "Algorithm \<Rightarrow> int \<Rightarrow> int" where
  "encoderWindowBytesForContentLength algorithm contentLength =
     (if contentLength \<le> 0 then 0
      else if algorithm \<noteq> AlgorithmZstd \<and> algorithm \<noteq> AlgorithmBrotli then 0
      else let maximum = (if algorithm = AlgorithmZstd then zstd_window_max else brotli_window_max)
           in if contentLength < 1024 then 1024
              else if contentLength \<ge> maximum then maximum
              else double_until 1024 contentLength)"

definition DefaultLevelFor :: "Algorithm \<Rightarrow> int" where
  "DefaultLevelFor algorithm = (if algorithm = AlgorithmZstd then 8 else 6)"

definition newEncoder :: "'e codec \<Rightarrow> Algorithm \<Rightarrow> int \<Rightarrow> int \<Rightarrow> 'e option" where
  \<comment> \<open>the constructor of each algorithm, and the encoder that copies for the identity, are \<open>enc_new\<close>\<close>
  "newEncoder c algorithm level windowBytes =
     (if algorithm = AlgorithmIdentity then enc_new c algorithm level windowBytes
      else let level' = (if level \<le> 0 then DefaultLevelFor algorithm else level)
           in if isSupportedAlgorithm algorithm then enc_new c algorithm level' windowBytes else None)"

definition new_encoder :: "'e codec \<Rightarrow> 'e HTTPResponseWriter \<Rightarrow> 'e option" where
  \<comment> \<open>the method \<open>newEncoder\<close> of the writer\<close>
  "new_encoder c w =
     (let contentLength = (if w_contentLengthHint w \<le> 0
                           then (case length_hint (w_header w) of Some n \<Rightarrow> n | None \<Rightarrow> w_contentLengthHint w) else w_contentLengthHint w)
      in newEncoder c (w_algorithm w) (w_level w) (encoderWindowBytesForContentLength (w_algorithm w) contentLength))"

definition raw_body :: "'e codec \<Rightarrow> bytes \<Rightarrow> 'e HTTPResponseWriter \<Rightarrow> nat \<times> response_error option \<times> 'e HTTPResponseWriter" where
  "raw_body c p w =
     (case raw_write c (w_wire w) p of (n, good) \<Rightarrow> (n, if good then None else Some WriteFailed, send (Body (take n p)) w))"

definition encode_body :: "'e codec \<Rightarrow> 'e \<Rightarrow> bytes \<Rightarrow> 'e HTTPResponseWriter \<Rightarrow> nat \<times> response_error option \<times> 'e HTTPResponseWriter" where
  "encode_body c e p w =
     (case enc_write c e p of (e', out, n, good) \<Rightarrow>
        (n, if good then None else Some EncoderFailed, (send (Body out) w)\<lparr>w_encoder := Some e'\<rparr>))"

definition writeBody :: "'e codec \<Rightarrow> bytes \<Rightarrow> 'e HTTPResponseWriter \<Rightarrow> nat \<times> response_error option \<times> 'e HTTPResponseWriter" where
  "writeBody c p w =
     (if w_algorithm w = AlgorithmIdentity then raw_body c p w
      else case w_encoder w of
             Some e \<Rightarrow> encode_body c e p w
           | None \<Rightarrow> (case new_encoder c w of
                        None \<Rightarrow> (0, Some EncoderFailed, w\<lparr>w_encoderError := Some EncoderFailed\<rparr>)
                      | Some e \<Rightarrow> encode_body c e p (w\<lparr>w_encoder := Some e\<rparr>)))"

section \<open>Methods\<close>

definition WriteHeader :: "int \<Rightarrow> 'e HTTPResponseWriter \<Rightarrow> 'e HTTPResponseWriter" where
  "WriteHeader st w =
     (if 100 \<le> st \<and> st < 200 then send (Informational st) w
      else if w_statusSet w \<or> w_headerSent w then w
      else w\<lparr>w_statusSet := True, w_status := st\<rparr>)"

definition buffer_body :: "bytes \<Rightarrow> 'e HTTPResponseWriter \<Rightarrow> bytes \<times> 'e HTTPResponseWriter" where
  \<comment> \<open>the rest of the bytes after the buffer is filled\<close>
  "buffer_body p w =
     (if \<not> w_headerSent w \<and> shouldBufferForMinimumSize w
      then let remaining = w_minSize w - int (length (w_pending w))
           in if remaining > 0
              then let n = (if remaining > int (length p) then length p else nat remaining)
                   in (drop n p, w\<lparr>w_pending := w_pending w @ take n p\<rparr>)
              else (p, w)
      else (p, w))"

definition flush_pending :: "'e codec \<Rightarrow> 'e HTTPResponseWriter \<Rightarrow> response_error option \<times> 'e HTTPResponseWriter" where
  "flush_pending c w =
     (if w_pending w = [] then (None, w)
      else case writeBody c (w_pending w) w of
             (_, Some e, v) \<Rightarrow> (Some e, v)
           | (_, None, v) \<Rightarrow> (None, v\<lparr>w_pending := []\<rparr>))"

definition Write :: "'e codec \<Rightarrow> bytes \<Rightarrow> 'e HTTPResponseWriter \<Rightarrow> nat \<times> response_error option \<times> 'e HTTPResponseWriter" where
  "Write c p w =
     (if w_closed w then (0, Some ErrClosedPipe, w)
      else if p = [] then (0, None, w)
      else let w1 = (default_status w)\<lparr>w_bodyStarted := True\<rparr>
           in if w_encoderError w1 \<noteq> None then (0, w_encoderError w1, w1)
              else let (rest, w2) = buffer_body p w1
                   in if rest = [] then (length p, None, w2)
                      else case sendHeader w2 of
                             (Some e, w3) \<Rightarrow> (0, Some e, w3)
                           | (None, w3) \<Rightarrow>
                               (if w_negotiationFailed w3 then (length p, None, w3)
                                else let consumed = length p - length rest
                                     in case flush_pending c w3 of
                                          (Some e, w4) \<Rightarrow> (consumed, Some e, w4)
                                        | (None, w4) \<Rightarrow>
                                            (case writeBody c rest w4 of (n, e, w5) \<Rightarrow> (consumed + n, e, w5))))"

definition keep_error :: "response_error option \<Rightarrow> 'e HTTPResponseWriter \<Rightarrow> 'e HTTPResponseWriter" where
  "keep_error e w = (if e \<noteq> None \<and> w_encoderError w = None then w\<lparr>w_encoderError := e\<rparr> else w)"

definition close_body :: "'e codec \<Rightarrow> 'e HTTPResponseWriter \<Rightarrow> response_error option \<times> 'e HTTPResponseWriter" where
  \<comment> \<open>\<open>Close\<close> once the header is sent\<close>
  "close_body c w =
     (let w1 = (if w_pending w \<noteq> [] \<and> \<not> w_negotiationFailed w
                then case writeBody c (w_pending w) w of (_, e, v) \<Rightarrow> (keep_error e v)\<lparr>w_pending := []\<rparr> else w)
      in case w_encoder w1 of
           None \<Rightarrow> (w_encoderError w1, w1)
         | Some e \<Rightarrow>
             (case enc_close c e of (out, good) \<Rightarrow>
                let w2 = keep_error (if good then None else Some EncoderFailed) ((send (Body out) w1)\<lparr>w_encoder := None\<rparr>)
                in (w_encoderError w2, w2)))"

definition Close :: "'e codec \<Rightarrow> 'e HTTPResponseWriter \<Rightarrow> (response_error option \<times> 'e HTTPResponseWriter) option" where
  "Close c w =
     (if w_closed w then Some (None, w)
      else let w0 = w\<lparr>w_closed := True\<rparr>
           in if w_headerSent w0 then Some (close_body c w0)
              else let w1 = default_status w0
                   in if \<not> w_bodyStarted w1
                      then let (_, w2) = selectAlgorithm (w_status w1) w1
                           in if \<not> w_negotiationFailed w2 \<and> w_algorithm w2 \<noteq> AlgorithmIdentity \<and> w_request w2 = None then None
                              else let w3 = (if \<not> w_negotiationFailed w2 \<and> w_algorithm w2 \<noteq> AlgorithmIdentity
                                                \<and> \<not> IdentityAcceptable (str_join '','' (rq_header (the (w_request w2)) ''Accept-Encoding''))
                                             then w2\<lparr>w_negotiationFailed := True\<rparr> else w2)
                                   in if w_negotiationFailed w3 then Some (w_encoderError w3, sendNotAcceptable w3)
                                      else Some (close_body c ((send (Head (w_status w3) (w_header w3))
                                                                  (w3\<lparr>w_algorithm := AlgorithmIdentity\<rparr>))\<lparr>w_headerSent := True\<rparr>))
                      else case sendHeader w1 of
                             (Some e, w2) \<Rightarrow> Some (Some e, w2)
                           | (None, w2) \<Rightarrow> Some (close_body c w2))"

definition FlushError :: "'e codec \<Rightarrow> bool \<Rightarrow> 'e HTTPResponseWriter \<Rightarrow> response_error option \<times> 'e HTTPResponseWriter" where
  \<comment> \<open>the second argument: the writer of the web server can be flushed\<close>
  "FlushError c can_flush w =
     (case sendHeader ((default_status w)\<lparr>w_bodyStarted := True, w_forceCompression := True\<rparr>) of
        (Some e, w1) \<Rightarrow> (Some e, w1)
      | (None, w1) \<Rightarrow>
          (if w_negotiationFailed w1 then (None, w1)
           else if w_algorithm w1 \<noteq> AlgorithmIdentity \<and> w_encoder w1 = None \<and> new_encoder c w1 = None
           then (Some EncoderFailed, w1\<lparr>w_encoderError := Some EncoderFailed\<rparr>)
           else let w2 = (if w_algorithm w1 \<noteq> AlgorithmIdentity \<and> w_encoder w1 = None then w1\<lparr>w_encoder := new_encoder c w1\<rparr> else w1)
                in case flush_pending c w2 of
                     (Some e, w3) \<Rightarrow> (Some e, w3)
                   | (None, w3) \<Rightarrow>
                       (let (e, w4) = (case Option.bind (w_encoder w3) (enc_flush c) of
                                         None \<Rightarrow> (None, w3)
                                       | Some (e', out, good) \<Rightarrow>
                                           (let v = (send (Body out) w3)\<lparr>w_encoder := Some e'\<rparr>
                                            in if good then (None, v) else (Some EncoderFailed, v\<lparr>w_encoderError := Some EncoderFailed\<rparr>)))
                        in if e \<noteq> None then (e, w4)
                           else (None, if can_flush then send Flushed w4 else w4))))"

definition Hijack :: "bool \<Rightarrow> 'e HTTPResponseWriter \<Rightarrow> 'e HTTPResponseWriter" where
  \<comment> \<open>the first argument: the connection was handed over\<close>
  "Hijack handed_over w =
     (if handed_over then w\<lparr>w_closed := True, w_headerSent := True, w_algorithm := AlgorithmIdentity\<rparr> else w)"

section \<open>Decoding\<close>

datatype read_error = ReadEOF | ReadFailed | ErrDecodedSizeLimit | ReadClosedPipe

record decoderReadCloser =
  d_open :: bool
  d_limit :: int
  d_decoded :: int

record 'r decoders =
  \<comment> \<open>the readers of the third-party codecs: their smallest zstd window, their constructors (with the zstd
     window they may use; a constructor may read ahead, and fails on a header it rejects) and how a reader is read\<close>
  zstd_MinWindowSize :: int
  dec_new :: "Algorithm \<Rightarrow> int option \<Rightarrow> 'r \<Rightarrow> 'r option"
  dec_read :: "nat \<Rightarrow> 'r \<Rightarrow> bytes \<times> read_error option \<times> 'r"

datatype decoder_error = NoSource | Negotiation negotiation_error | NotCreated

definition zstd_decoder_window :: "int \<Rightarrow> int \<Rightarrow> int" where
  \<comment> \<open>\<open>newZstdDecoder\<close>: the window a frame may ask for\<close>
  "zstd_decoder_window smallest maxDecodedBytes =
     (let maxWindow = (if maxDecodedBytes > 0 \<and> maxDecodedBytes < zstd_window_max then maxDecodedBytes else zstd_window_max)
      in if maxWindow < smallest then smallest else maxWindow)"

definition newDecoderForAlgorithm :: "'r decoders \<Rightarrow> 'r \<Rightarrow> Algorithm \<Rightarrow> int \<Rightarrow> 'r option" where
  "newDecoderForAlgorithm ds source algorithm maxDecodedBytes =
     (if algorithm = AlgorithmZstd
      then dec_new ds algorithm (Some (zstd_decoder_window (zstd_MinWindowSize ds) maxDecodedBytes)) source
      else if algorithm \<in> {AlgorithmS2, AlgorithmSnappy, AlgorithmBrotli, AlgorithmDeflate, AlgorithmGzip}
      then dec_new ds algorithm None source
      else None)"

fun stack_decoders :: "'r decoders \<Rightarrow> int \<Rightarrow> Algorithm list \<Rightarrow> 'r \<Rightarrow> 'r option" where
  \<comment> \<open>the loop of \<open>NewDecoder\<close>; the list is in decoding order\<close>
  "stack_decoders ds maxDecodedBytes [] current = Some current"
| "stack_decoders ds maxDecodedBytes (a # as) current =
     (case newDecoderForAlgorithm ds current a maxDecodedBytes of
        None \<Rightarrow> None
      | Some decoder \<Rightarrow> stack_decoders ds maxDecodedBytes as decoder)"

definition NewDecoder :: "'r decoders \<Rightarrow> 'r option \<Rightarrow> string \<Rightarrow> int \<Rightarrow> decoder_error + (decoderReadCloser \<times> 'r)" where
  \<comment> \<open>the limited reader and the stack of decoders it reads from\<close>
  "NewDecoder ds source header maxDecodedBytes =
     (case source of
        None \<Rightarrow> Inl NoSource
      | Some body \<Rightarrow>
          (case ParseContentEncoding header of
             Inl e \<Rightarrow> Inl (Negotiation e)
           | Inr algorithms \<Rightarrow>
               (case stack_decoders ds maxDecodedBytes (rev algorithms) body of
                  None \<Rightarrow> Inl NotCreated
                | Some current \<Rightarrow> Inr (\<lparr>d_open = True, d_limit = maxDecodedBytes, d_decoded = 0\<rparr>, current))))"

datatype 'r body_reader = PlainBody 'r | DecodedBody decoderReadCloser 'r | ClosedBody

record 'r request_body =
  b_header :: http_header
  b_read :: "'r body_reader"
  b_length :: int

definition RequestBodyDecoder ::
    "'r decoders \<Rightarrow> 'r \<Rightarrow> 'r request_body \<Rightarrow> int \<Rightarrow> (decoder_error + bool) \<times> 'r request_body" where
  \<comment> \<open>\<open>body\<close>: the reader of the request; a stack that cannot be built closes it\<close>
  "RequestBodyDecoder ds body r maxDecodedBytes =
     (let header = trim_space (str_join '','' (b_header r ''Content-Encoding''))
      in if header = [] \<or> equal_fold header AlgorithmIdentity
         then (Inr False, r\<lparr>b_header := header_del ''Content-Encoding'' (b_header r)\<rparr>)
         else case NewDecoder ds (Some body) header maxDecodedBytes of
                Inl e \<Rightarrow> (Inl e, if e = NotCreated then r\<lparr>b_read := ClosedBody\<rparr> else r)
              | Inr (d, current) \<Rightarrow>
                  (Inr True, \<lparr>b_header = header_del ''Content-Length'' (header_del ''Content-Encoding'' (b_header r)),
                             b_read = DecodedBody d current, b_length = - 1\<rparr>))"

definition Read ::
    "(nat \<Rightarrow> 'r \<Rightarrow> bytes \<times> read_error option \<times> 'r) \<Rightarrow> nat \<Rightarrow> decoderReadCloser \<Rightarrow> 'r
     \<Rightarrow> bytes \<times> read_error option \<times> decoderReadCloser \<times> 'r" where
  \<comment> \<open>the decoders below, as a function of the room in the buffer and their state\<close>
  "Read below room d r =
     (if room = 0 then ([], None, d, r)
      else if \<not> d_open d then ([], Some ReadClosedPipe, d, r)
      else if d_limit d > 0 \<and> d_limit d - d_decoded d \<le> 0
      then (case below 1 r of (out, e, r') \<Rightarrow> if out \<noteq> [] then ([], Some ErrDecodedSizeLimit, d, r') else ([], e, d, r'))
      else let room' = (if d_limit d > 0 \<and> int room > d_limit d - d_decoded d then nat (d_limit d - d_decoded d) else room)
           in case below room' r of (out, e, r') \<Rightarrow> (out, e, d\<lparr>d_decoded := d_decoded d + int (length out)\<rparr>, r'))"

end
