(* ===== verification/Response_Guarantees.thy ===== *)
theory Response_Guarantees
  imports Compressed_Response
begin

text \<open>
  What the compressing response writer and the decoders guarantee. \<open>writer_inv\<close> is the invariant of a writer that is not closed,
  over the bytes written so far and the status the handler has settled on; \<open>reliable\<close> and \<open>lossless\<close> are what
  the writer relies on in the codecs and the web server.
\<close>

section \<open>Codecs\<close>

text \<open>The bytes an encoder has taken and emitted so far.\<close>

inductive stream :: "'e codec \<Rightarrow> Algorithm \<Rightarrow> 'e \<Rightarrow> bytes \<Rightarrow> bytes \<Rightarrow> bool" for c :: "'e codec" where
  stream_new: "enc_new c a level window = Some e \<Longrightarrow> stream c a e [] []"
| stream_write: "stream c a e i out \<Longrightarrow> enc_write c e p = (e', extra, n, True) \<Longrightarrow> stream c a e' (i @ p) (out @ extra)"
| stream_flush: "stream c a e i out \<Longrightarrow> enc_flush c e = Some (e', extra, True) \<Longrightarrow> stream c a e' i (out @ extra)"

text \<open>What the writer relies on: the calls of the libraries succeed, a write takes all its bytes, and decoding what an encoder
  has emitted when it is closed gives back what was written to it.\<close>

definition reliable :: "'e codec \<Rightarrow> bool" where
  "reliable c \<longleftrightarrow> (\<forall>a level window. isSupportedAlgorithm a \<longrightarrow> enc_new c a level window \<noteq> None)
     \<and> (\<forall>e p. snd (snd (enc_write c e p)) = (length p, True))
     \<and> (\<forall>e x. enc_flush c e = Some x \<longrightarrow> snd (snd x))
     \<and> (\<forall>e. snd (enc_close c e))
     \<and> (\<forall>sent p. raw_write c sent p = (length p, True))"

definition lossless :: "'e codec \<Rightarrow> (Algorithm \<Rightarrow> bytes \<Rightarrow> bytes option) \<Rightarrow> bool" where
  "lossless c dec \<longleftrightarrow> (\<forall>a e i out. stream c a e i out \<longrightarrow> dec a (out @ fst (enc_close c e)) = Some i)"

section \<open>What has been sent\<close>

definition visible :: "sent list \<Rightarrow> sent list" where
  "visible ws = filter (\<lambda>x. case x of Head _ _ \<Rightarrow> True | Body _ \<Rightarrow> True | _ \<Rightarrow> False) ws"

lemma visible_simps [simp]:
  "visible [] = []" "visible (xs @ ys) = visible xs @ visible ys"
  "visible (Head st h # xs) = Head st h # visible xs" "visible (Body b # xs) = Body b # visible xs"
  "visible (Informational st # xs) = visible xs" "visible (Flushed # xs) = visible xs"
  by (simp_all add: visible_def)

lemma send_simps [simp]:
  "w_wire (send x w) = w_wire w @ [x]" "w_request (send x w) = w_request w" "w_headerSent (send x w) = w_headerSent w"
  "w_statusSet (send x w) = w_statusSet w" "w_status (send x w) = w_status w" "w_algorithm (send x w) = w_algorithm w"
  "w_encoder (send x w) = w_encoder w" "w_encoderError (send x w) = w_encoderError w" "w_closed (send x w) = w_closed w"
  "w_negotiationFailed (send x w) = w_negotiationFailed w" "w_bodyStarted (send x w) = w_bodyStarted w"
  "w_pending (send x w) = w_pending w" "w_header (send x w) = w_header w" "w_allowed (send x w) = w_allowed w"
  by (simp_all add: send_def)

definition accepted_by :: "http_request option \<Rightarrow> Algorithm list option \<Rightarrow> Algorithm \<Rightarrow> bool" where
  "accepted_by rq allowed a \<longleftrightarrow> (\<exists>r. rq = Some r \<and> ContentEncodingAcceptableValues a (rq_header r ''Accept-Encoding'')
     \<and> isSupportedAlgorithm a \<and> (case allowed of None \<Rightarrow> True | Some as \<Rightarrow> a \<in> set as))"

text \<open>The header is out and the bytes \<open>i\<close> are on their way.\<close>

definition carries ::
    "'e codec \<Rightarrow> http_request option \<Rightarrow> Algorithm list option \<Rightarrow> int \<Rightarrow> Algorithm \<Rightarrow> 'e option \<Rightarrow> sent list \<Rightarrow> bytes \<Rightarrow> bool" where
  "carries c rq allowed st a en ws i \<longleftrightarrow> (\<exists>h bs. visible ws = Head st h # map Body bs
     \<and> (if a = AlgorithmIdentity then en = None \<and> concat bs = i
        else h ''Content-Encoding'' = [a] \<and> accepted_by rq allowed a
          \<and> (case en of None \<Rightarrow> i = [] \<and> bs = [] | Some e \<Rightarrow> stream c a e i (concat bs))))"

abbreviation body_state :: "'e codec \<Rightarrow> 'e HTTPResponseWriter \<Rightarrow> bytes \<Rightarrow> bool" where
  "body_state c w i \<equiv> carries c (w_request w) (w_allowed w) (w_status w) (w_algorithm w) (w_encoder w) (w_wire w) i"

definition started :: "Algorithm \<Rightarrow> 'e option \<Rightarrow> bool" where
  "started a en \<longleftrightarrow> a = AlgorithmIdentity \<or> en \<noteq> None"

lemma new_encoder_reliable:
  assumes "reliable c" "isSupportedAlgorithm (w_algorithm w)" "w_algorithm w \<noteq> AlgorithmIdentity"
  shows "\<exists>e. new_encoder c w = Some e \<and> stream c (w_algorithm w) e [] []"
proof -
  obtain l k where n: "new_encoder c w = enc_new c (w_algorithm w) l k"
    using assms(2,3) by (auto simp: new_encoder_def newEncoder_def Let_def)
  then obtain e where "enc_new c (w_algorithm w) l k = Some e" using assms(1,2) unfolding reliable_def by blast
  then show ?thesis using n stream_new by auto
qed

lemma writeBody_state:
  assumes rel: "reliable c" and b: "body_state c w i"
  shows "\<exists>ws en. writeBody c p w = (length p, None, w\<lparr>w_wire := ws, w_encoder := en\<rparr>)
    \<and> body_state c (w\<lparr>w_wire := ws, w_encoder := en\<rparr>) (i @ p) \<and> started (w_algorithm w) en"
proof -
  obtain h bs where v: "visible (w_wire w) = Head (w_status w) h # map Body bs"
    and st: "if w_algorithm w = AlgorithmIdentity then w_encoder w = None \<and> concat bs = i
        else h ''Content-Encoding'' = [w_algorithm w] \<and> accepted_by (w_request w) (w_allowed w) (w_algorithm w)
          \<and> (case w_encoder w of None \<Rightarrow> i = [] \<and> bs = [] | Some e \<Rightarrow> stream c (w_algorithm w) e i (concat bs))"
    using b unfolding carries_def by blast
  show ?thesis
  proof (cases "w_algorithm w = AlgorithmIdentity")
    case True
    have "raw_write c (w_wire w) p = (length p, True)" using rel unfolding reliable_def by blast
    then have "writeBody c p w = (length p, None, w\<lparr>w_wire := w_wire w @ [Body p], w_encoder := None\<rparr>)"
      using True st by (simp add: writeBody_def raw_body_def send_def)
    moreover have "body_state c (w\<lparr>w_wire := w_wire w @ [Body p], w_encoder := None\<rparr>) (i @ p)"
      unfolding carries_def using True st v by (intro exI [of _ h] exI [of _ "bs @ [p]"]) simp
    ultimately show ?thesis using True by (auto simp: started_def)
  next
    case False
    then have ac: "accepted_by (w_request w) (w_allowed w) (w_algorithm w)" "h ''Content-Encoding'' = [w_algorithm w]" using st by auto
    obtain e where e: "stream c (w_algorithm w) e i (concat bs)"
      "writeBody c p w = encode_body c e p (w\<lparr>w_encoder := Some e\<rparr>)"
    proof (cases "w_encoder w")
      case None
      obtain e where "new_encoder c w = Some e" "stream c (w_algorithm w) e [] []"
        using new_encoder_reliable [OF rel, of w] ac(1) False by (auto simp: accepted_by_def)
      then show ?thesis using that [of e] None False st by (auto simp: writeBody_def)
    next
      case (Some e)
      then have eq: "w\<lparr>w_encoder := Some e\<rparr> = w" by (cases w) simp
      have "writeBody c p w = encode_body c e p (w\<lparr>w_encoder := Some e\<rparr>)" unfolding eq using Some False by (simp add: writeBody_def)
      then show ?thesis using that [of e] Some False st by auto
    qed
    obtain e' out where ew: "enc_write c e p = (e', out, length p, True)"
      using rel unfolding reliable_def by (metis prod.collapse)
    have "writeBody c p w = (length p, None, w\<lparr>w_wire := w_wire w @ [Body out], w_encoder := Some e'\<rparr>)"
      using e(2) ew by (simp add: encode_body_def send_def)
    moreover have "body_state c (w\<lparr>w_wire := w_wire w @ [Body out], w_encoder := Some e'\<rparr>) (i @ p)"
      unfolding carries_def using False v ac stream_write [OF e(1) ew]
      by (intro exI [of _ h] exI [of _ "bs @ [out]"]) simp
    ultimately show ?thesis by (auto simp: started_def)
  qed
qed

section \<open>Sending the header\<close>

lemma header_del_other [simp]: "k \<noteq> k' \<Longrightarrow> header_del k h k' = h k'" "header_set k v h k = [v]"
  by (simp_all add: header_del_def header_set_def)

definition touched :: "'e HTTPResponseWriter \<Rightarrow> 'e HTTPResponseWriter \<Rightarrow> bool" where
  \<comment> \<open>what selecting a coding may change\<close>
  "touched w v \<longleftrightarrow> (\<exists>f h. v = w\<lparr>w_negotiationFailed := f, w_header := h\<rparr> \<and> (w_negotiationFailed w \<longrightarrow> f))"

lemma touched_intros [simp]:
  "touched w w" "touched w (w\<lparr>w_negotiationFailed := True\<rparr>)" "touched w (w\<lparr>w_header := h\<rparr>)"
  "touched w (w\<lparr>w_header := h, w_negotiationFailed := True\<rparr>)"
proof -
  show "touched w w" unfolding touched_def by (intro exI [of _ "w_negotiationFailed w"] exI [of _ "w_header w"]) (cases w, simp)
  show "touched w (w\<lparr>w_negotiationFailed := True\<rparr>)" unfolding touched_def by (intro exI [of _ True] exI [of _ "w_header w"]) (cases w, simp)
  show "touched w (w\<lparr>w_header := h\<rparr>)" unfolding touched_def by (intro exI [of _ "w_negotiationFailed w"] exI [of _ h]) (cases w, simp)
  show "touched w (w\<lparr>w_header := h, w_negotiationFailed := True\<rparr>)" unfolding touched_def by (intro exI [of _ True] exI [of _ h]) simp
qed

lemma refuse_touched: "touched w (snd (refuse_identity b w))" "touched w (snd (refuse_identity b (w\<lparr>w_header := h\<rparr>)))"
  by (simp_all add: refuse_identity_def)

lemma touched_if: "touched w (snd x) \<Longrightarrow> touched w (snd y) \<Longrightarrow> touched w (snd (if b then x else y))"
  by simp

lemma select_touched: "touched w (snd (selectAlgorithm st w))"
proof (cases "w_request w")
  case None
  then show ?thesis by (simp add: selectAlgorithm_def)
next
  case (Some r)
  obtain a ok where sel: "SelectEncodingWithAllowed (str_join '','' (rq_header r ''Accept-Encoding'')) (w_allowed w) = (a, ok)" by fastforce
  show ?thesis
    unfolding selectAlgorithm_def Let_def Some option.case sel prod.case
    by (intro touched_if refuse_touched) simp_all
qed

lemma chosen_accepted:
  assumes "SelectEncodingWithAllowed (str_join '','' (rq_header r ''Accept-Encoding'')) allowed = (a, ok)" "ok" "a \<noteq> AlgorithmIdentity"
  shows "accepted_by (Some r) allowed a"
proof -
  have "ContentEncodingAcceptableValues a (rq_header r ''Accept-Encoding'')"
    using selection_agrees_with_acceptability [OF assms(1)] assms(2,3) by auto
  moreover have "isSupportedAlgorithm a \<and> (case allowed of None \<Rightarrow> True | Some as \<Rightarrow> a \<in> set as)"
    using assms unfolding select_first_accepted choose_coding_def
    by (auto simp: supported_iff find_Some_iff split: option.splits)
  ultimately show ?thesis by (simp add: accepted_by_def)
qed

lemma refuse_fst [simp]: "fst (refuse_identity b w) = AlgorithmIdentity"
  by (simp add: refuse_identity_def)

lemma select_accepted:
  assumes "fst (selectAlgorithm st w) \<noteq> AlgorithmIdentity"
  shows "accepted_by (w_request w) (w_allowed w) (fst (selectAlgorithm st w))"
proof -
  obtain r where r: "w_request w = Some r" using assms by (auto simp: selectAlgorithm_def split: option.splits)
  obtain a ok where sel: "SelectEncodingWithAllowed (str_join '','' (rq_header r ''Accept-Encoding'')) (w_allowed w) = (a, ok)" by fastforce
  have "fst (selectAlgorithm st w) = AlgorithmIdentity \<or> ok \<and> fst (selectAlgorithm st w) = a"
    unfolding selectAlgorithm_def Let_def by (simp add: r sel)
  then show ?thesis using chosen_accepted [OF sel] assms r by auto
qed

lemma touched_fields:
  assumes "touched w v"
  shows "w_request v = w_request w" "w_allowed v = w_allowed w" "w_headerSent v = w_headerSent w" "w_statusSet v = w_statusSet w"
    "w_status v = w_status w" "w_algorithm v = w_algorithm w" "w_encoder v = w_encoder w" "w_encoderError v = w_encoderError w"
    "w_closed v = w_closed w" "w_bodyStarted v = w_bodyStarted w" "w_pending v = w_pending w" "w_wire v = w_wire w"
    "w_negotiationFailed w \<Longrightarrow> w_negotiationFailed v"
  using assms by (auto simp: touched_def)

lemma default_status_fields [simp]:
  "w_request (default_status w) = w_request w" "w_allowed (default_status w) = w_allowed w" "w_headerSent (default_status w) = w_headerSent w"
  "w_statusSet (default_status w)" "w_algorithm (default_status w) = w_algorithm w" "w_encoder (default_status w) = w_encoder w"
  "w_encoderError (default_status w) = w_encoderError w" "w_closed (default_status w) = w_closed w"
  "w_bodyStarted (default_status w) = w_bodyStarted w" "w_pending (default_status w) = w_pending w" "w_wire (default_status w) = w_wire w"
  "w_negotiationFailed (default_status w) = w_negotiationFailed w" "w_header (default_status w) = w_header w"
  "w_statusSet w \<Longrightarrow> default_status w = w"
  by (simp_all add: default_status_def)

text \<open>Nothing but informational responses has been sent.\<close>

definition unsent :: "'e HTTPResponseWriter \<Rightarrow> bool" where
  "unsent w \<longleftrightarrow> \<not> w_headerSent w \<and> \<not> w_negotiationFailed w \<and> visible (w_wire w) = [] \<and> w_encoder w = None \<and> w_encoderError w = None"

text \<open>The refusal has been sent.\<close>

definition refused :: "'e HTTPResponseWriter \<Rightarrow> bool" where
  "refused w \<longleftrightarrow> w_headerSent w \<and> w_negotiationFailed w \<and> w_encoder w = None \<and> w_encoderError w = None
     \<and> (\<exists>h. visible (w_wire w) = [Head 406 h, Body not_acceptable_text])"

lemma sendNotAcceptable_refused:
  assumes "unsent (w\<lparr>w_negotiationFailed := False\<rparr>)" "w_negotiationFailed w"
  shows "refused (sendNotAcceptable w)" "w_pending (sendNotAcceptable w) = w_pending w" "w_closed (sendNotAcceptable w) = w_closed w"
    "w_bodyStarted (sendNotAcceptable w) = w_bodyStarted w" "w_statusSet (sendNotAcceptable w) = w_statusSet w"
    "w_request (sendNotAcceptable w) = w_request w"
  using assms by (auto simp: unsent_def refused_def sendNotAcceptable_def Let_def)

definition header_out :: "'e codec \<Rightarrow> 'e HTTPResponseWriter \<Rightarrow> 'e HTTPResponseWriter \<Rightarrow> bool" where
  \<comment> \<open>\<open>sendHeader\<close> has made the second of the first\<close>
  "header_out c w v \<longleftrightarrow> w_request v = w_request w \<and> w_pending v = w_pending w \<and> w_closed v = w_closed w \<and> w_bodyStarted v = w_bodyStarted w \<and> w_statusSet v
     \<and> (refused v \<or> w_headerSent v \<and> \<not> w_negotiationFailed v \<and> w_encoderError v = None \<and> w_status v = w_status (default_status w)
          \<and> body_state c v [])"

lemma sendHeader_out:
  assumes u: "unsent w"
  shows "fst (sendHeader w) = None \<and> header_out c w (snd (sendHeader w))"
proof -
  let ?w0 = "default_status w"
  obtain a v where s: "selectAlgorithm (w_status ?w0) ?w0 = (a, v)" by fastforce
  have t: "touched ?w0 v" using select_touched [of ?w0 "w_status ?w0"] s by simp
  note T = touched_fields [OF t]
  have u0: "unsent ?w0" using u by (simp add: unsent_def)
  let ?w1 = "v\<lparr>w_algorithm := a\<rparr>"
  show ?thesis
  proof (cases "w_negotiationFailed v")
    case True
    have "sendHeader w = (None, sendNotAcceptable ?w1)"
      using u0 u s True T(8) by (simp add: sendHeader_def unsent_def Let_def)
    moreover have "unsent (?w1\<lparr>w_negotiationFailed := False\<rparr>)" using u0 T by (simp add: unsent_def)
    ultimately show ?thesis
      using sendNotAcceptable_refused [of ?w1] True T by (simp add: header_out_def)
  next
    case False
    let ?w2 = "if a = AlgorithmIdentity then ?w1
               else ?w1\<lparr>w_contentLengthHint := (case length_hint (w_header v) of Some n \<Rightarrow> n | None \<Rightarrow> w_contentLengthHint v),
                        w_header := header_set ''Content-Encoding'' a
                           (fold header_del [''Content-Length'', ''Content-Md5'', ''Digest'', ''Content-Digest'', ''Etag''] (w_header v))\<rparr>"
    have eq: "sendHeader w = (None, (send (Head (w_status ?w2) (w_header ?w2)) ?w2)\<lparr>w_headerSent := True\<rparr>)"
      using u0 u s False by (simp add: sendHeader_def unsent_def Let_def cong: option.case_cong)
    have ac: "a \<noteq> AlgorithmIdentity \<Longrightarrow> accepted_by (w_request w) (w_allowed w) a"
      using select_accepted [of "w_status ?w0" ?w0] s by simp
    have "body_state c ((send (Head (w_status ?w2) (w_header ?w2)) ?w2)\<lparr>w_headerSent := True\<rparr>) []"
      unfolding carries_def using u0 T ac
      by (intro exI [of _ "w_header ?w2"] exI [of _ "[]"]) (simp add: unsent_def)
    then show ?thesis using eq T u0 False by (simp add: header_out_def unsent_def)
  qed
qed

section \<open>Runs\<close>

datatype writer_op = OpHeader "http_header \<Rightarrow> http_header" | OpWriteHeader int | OpWrite bytes | OpFlush bool

definition run_op :: "'e codec \<Rightarrow> writer_op \<Rightarrow> 'e HTTPResponseWriter \<Rightarrow> 'e HTTPResponseWriter" where
  "run_op c op w = (case op of
     OpHeader f \<Rightarrow> w\<lparr>w_header := f (w_header w)\<rparr>
   | OpWriteHeader st \<Rightarrow> WriteHeader st w
   | OpWrite p \<Rightarrow> snd (snd (Write c p w))
   | OpFlush can_flush \<Rightarrow> snd (FlushError c can_flush w))"

definition run_ops :: "'e codec \<Rightarrow> writer_op list \<Rightarrow> 'e HTTPResponseWriter \<Rightarrow> 'e HTTPResponseWriter" where
  "run_ops c ops w = foldl (\<lambda>w op. run_op c op w) w ops"

definition op_bytes :: "writer_op \<Rightarrow> bytes" where
  "op_bytes op = (case op of OpWrite p \<Rightarrow> p | _ \<Rightarrow> [])"

definition written :: "writer_op list \<Rightarrow> bytes" where
  "written ops = concat (map op_bytes ops)"

definition requested :: "int option \<Rightarrow> writer_op \<Rightarrow> int option" where
  \<comment> \<open>the status the handler has settled on: the first final one it sets, 200 when it writes or flushes before\<close>
  "requested so op = (case op of
     OpHeader _ \<Rightarrow> so
   | OpWriteHeader st \<Rightarrow> (if 100 \<le> st \<and> st < 200 \<or> so \<noteq> None then so else Some st)
   | OpWrite p \<Rightarrow> (if p = [] \<or> so \<noteq> None then so else Some 200)
   | OpFlush _ \<Rightarrow> (if so \<noteq> None then so else Some 200))"

definition requested_status :: "writer_op list \<Rightarrow> int" where
  "requested_status ops = (case foldl requested None ops of Some st \<Rightarrow> st | None \<Rightarrow> 200)"

definition status_is :: "int option \<Rightarrow> 'e HTTPResponseWriter \<Rightarrow> bool" where
  "status_is so w \<longleftrightarrow> w_statusSet w = (so \<noteq> None) \<and> (\<not> w_negotiationFailed w \<longrightarrow> (\<forall>st. so = Some st \<longrightarrow> w_status w = st))"

lemma status_is_frame [simp]:
  "status_is so (w\<lparr>w_wire := ws\<rparr>) = status_is so w" "status_is so (w\<lparr>w_encoder := en\<rparr>) = status_is so w"
  "status_is so (w\<lparr>w_pending := p\<rparr>) = status_is so w" "status_is so (send x w) = status_is so w"
  "status_is so (w\<lparr>w_header := h\<rparr>) = status_is so w"
  by (simp_all add: status_is_def)

definition writer_inv :: "'e codec \<Rightarrow> bytes \<Rightarrow> int option \<Rightarrow> 'e HTTPResponseWriter \<Rightarrow> bool" where
  "writer_inv c i so w \<longleftrightarrow> w_request w \<noteq> None \<and> \<not> w_closed w \<and> status_is so w \<and> (w_bodyStarted w \<longrightarrow> w_statusSet w) \<and> (w_headerSent w \<longrightarrow> w_bodyStarted w)
     \<and> (\<not> w_headerSent w \<longrightarrow> (w_bodyStarted w \<longleftrightarrow> i \<noteq> []))
     \<and> (unsent w \<and> w_pending w = i \<or> refused w
        \<or> w_headerSent w \<and> \<not> w_negotiationFailed w \<and> w_encoderError w = None \<and> w_pending w = [] \<and> body_state c w i \<and> started (w_algorithm w) (w_encoder w))"

lemma flush_pending_state:
  assumes "reliable c" "body_state c w i"
  shows "\<exists>ws en. flush_pending c w = (None, w\<lparr>w_wire := ws, w_encoder := en, w_pending := []\<rparr>)
    \<and> body_state c (w\<lparr>w_wire := ws, w_encoder := en, w_pending := []\<rparr>) (i @ w_pending w)
    \<and> (started (w_algorithm w) (w_encoder w) \<longrightarrow> started (w_algorithm w) en)"
proof (cases "w_pending w = []")
  case True
  then have "flush_pending c w = (None, w\<lparr>w_wire := w_wire w, w_encoder := w_encoder w, w_pending := []\<rparr>)"
    by (cases w) (simp add: flush_pending_def)
  moreover have "body_state c (w\<lparr>w_wire := w_wire w, w_encoder := w_encoder w, w_pending := []\<rparr>) (i @ w_pending w)"
    using assms(2) True by simp
  ultimately show ?thesis by blast
next
  case False
  obtain ws en where "writeBody c (w_pending w) w = (length (w_pending w), None, w\<lparr>w_wire := ws, w_encoder := en\<rparr>)"
    "body_state c (w\<lparr>w_wire := ws, w_encoder := en\<rparr>) (i @ w_pending w)" "started (w_algorithm w) en"
    using writeBody_state [OF assms, of "w_pending w"] by blast
  then show ?thesis using False
    by (intro exI [of _ ws] exI [of _ en]) (simp add: flush_pending_def)
qed

lemma buffer_split:
  "\<exists>q rest. p = q @ rest \<and> buffer_body p w = (rest, w\<lparr>w_pending := w_pending w @ q\<rparr>) \<and> (w_headerSent w \<longrightarrow> q = [])"
proof (cases "\<not> w_headerSent w \<and> shouldBufferForMinimumSize w \<and> w_minSize w - int (length (w_pending w)) > 0")
  case True
  define n where "n = (if w_minSize w - int (length (w_pending w)) > int (length p) then length p else nat (w_minSize w - int (length (w_pending w))))"
  have "buffer_body p w = (drop n p, w\<lparr>w_pending := w_pending w @ take n p\<rparr>)"
    using True by (simp add: buffer_body_def Let_def n_def)
  moreover have "p = take n p @ drop n p" by simp
  ultimately show ?thesis using True by blast
next
  case False
  have keep: "buffer_body p w = (p, w)"
  proof (cases "\<not> w_headerSent w \<and> shouldBufferForMinimumSize w")
    case True
    then have full: "\<not> w_minSize w - int (length (w_pending w)) > 0" using False by blast
    show ?thesis unfolding buffer_body_def Let_def if_P [OF True] if_not_P [OF full] ..
  next
    case idle: False
    show ?thesis unfolding buffer_body_def if_not_P [OF idle] ..
  qed
  have same: "(p, w) = (p, w\<lparr>w_pending := w_pending w @ []\<rparr>)" by simp
  show ?thesis
    by (rule exI [of _ "[]"], rule exI [of _ p], rule conjI, simp, rule conjI, rule trans [OF keep same], simp)
qed

text \<open>A writer whose header is out, the bytes \<open>i\<close> written so far partly pending.\<close>

definition streaming :: "'e codec \<Rightarrow> bytes \<Rightarrow> int option \<Rightarrow> 'e HTTPResponseWriter \<Rightarrow> bool" where
  "streaming c i so w \<longleftrightarrow> w_request w \<noteq> None \<and> w_headerSent w \<and> \<not> w_negotiationFailed w \<and> w_encoderError w = None \<and> \<not> w_closed w \<and> w_bodyStarted w \<and> w_statusSet w
     \<and> status_is so w \<and> (\<exists>j. body_state c w j \<and> j @ w_pending w = i)"

definition stopped :: "int option \<Rightarrow> 'e HTTPResponseWriter \<Rightarrow> bool" where
  "stopped so w \<longleftrightarrow> w_request w \<noteq> None \<and> refused w \<and> \<not> w_closed w \<and> w_bodyStarted w \<and> w_statusSet w \<and> status_is so w"

lemma stopped_inv: "stopped so w \<Longrightarrow> writer_inv c i so w"
  by (simp add: stopped_def writer_inv_def refused_def)

lemma streaming_flush_pending:
  assumes rel: "reliable c" and s: "streaming c i so w"
  shows "\<exists>w'. flush_pending c w = (None, w') \<and> streaming c i so w' \<and> w_pending w' = []
    \<and> (started (w_algorithm w) (w_encoder w) \<longrightarrow> started (w_algorithm w') (w_encoder w'))"
proof -
  obtain j where j: "body_state c w j" "j @ w_pending w = i" using s by (auto simp: streaming_def)
  obtain ws en where f: "flush_pending c w = (None, w\<lparr>w_wire := ws, w_encoder := en, w_pending := []\<rparr>)"
    "body_state c (w\<lparr>w_wire := ws, w_encoder := en, w_pending := []\<rparr>) i" "started (w_algorithm w) (w_encoder w) \<longrightarrow> started (w_algorithm w) en"
    using flush_pending_state [OF rel j(1)] j(2) by blast
  then have "streaming c i so (w\<lparr>w_wire := ws, w_encoder := en, w_pending := []\<rparr>)" using s by (simp add: streaming_def)
  then show ?thesis using f(1,3) by simp
qed

lemma streaming_write:
  assumes rel: "reliable c" and s: "streaming c i so w" and e: "w_pending w = []"
  shows "\<exists>w'. writeBody c p w = (length p, None, w') \<and> streaming c (i @ p) so w' \<and> w_pending w' = []
    \<and> started (w_algorithm w') (w_encoder w')"
proof -
  have b: "body_state c w i" using s e by (auto simp: streaming_def)
  obtain ws en where g: "writeBody c p w = (length p, None, w\<lparr>w_wire := ws, w_encoder := en\<rparr>)"
    "body_state c (w\<lparr>w_wire := ws, w_encoder := en\<rparr>) (i @ p)" "started (w_algorithm w) en"
    using writeBody_state [OF rel b, of p] by blast
  then have "streaming c (i @ p) so (w\<lparr>w_wire := ws, w_encoder := en\<rparr>)" using s e by (simp add: streaming_def)
  then show ?thesis using g(1,3) e by simp
qed

lemma streaming_inv: "streaming c i so w \<Longrightarrow> w_pending w = [] \<Longrightarrow> started (w_algorithm w) (w_encoder w) \<Longrightarrow> writer_inv c i so w"
  by (auto simp: streaming_def writer_inv_def)

lemma sendHeader_cases:
  assumes inv: "writer_inv c i so w" and v: "v = (default_status w)\<lparr>w_bodyStarted := True, w_forceCompression := fc, w_pending := w_pending w @ q\<rparr>"
    and q: "w_headerSent w \<Longrightarrow> q = []" and so': "so' = Some (case so of Some st \<Rightarrow> st | None \<Rightarrow> 200)"
  shows "\<exists>w'. sendHeader v = (None, w') \<and> (stopped so' w' \<or> streaming c (i @ q) so' w')"
proof -
  have op: "\<not> w_closed w" "w_request w \<noteq> None" and st: "status_is so w" using inv by (simp_all add: writer_inv_def)
  have std: "\<not> w_negotiationFailed w \<Longrightarrow> w_status (default_status w) = (case so of Some st \<Rightarrow> st | None \<Rightarrow> 200)"
    using st by (auto simp: status_is_def default_status_def split: option.split)
  consider (unsent) "unsent w" "w_pending w = i" | (refused) "refused w" "w_statusSet w"
    | (body) "w_headerSent w" "\<not> w_negotiationFailed w" "w_encoderError w = None" "w_pending w = []" "body_state c w i" "w_statusSet w"
    using inv by (auto simp: writer_inv_def refused_def)
  then show ?thesis
  proof cases
    case unsent
    then have "unsent v" by (simp add: unsent_def v)
    then obtain w1 where h: "sendHeader v = (None, w1)" "header_out c v w1"
      using sendHeader_out [of v c] by (metis prod.collapse)
    have "w_status (default_status v) = w_status (default_status w)" by (simp add: v)
    then have "stopped so' w1 \<or> streaming c (i @ q) so' w1"
      using h(2) op unsent std so'
      by (auto simp: header_out_def stopped_def streaming_def status_is_def refused_def unsent_def v)
    then show ?thesis using h(1) by blast
  next
    case refused
    have "sendHeader v = (None, v)" using refused by (simp add: sendHeader_def refused_def v)
    moreover have "stopped so' v" using refused op so' q by (simp add: stopped_def refused_def status_is_def v)
    ultimately show ?thesis by blast
  next
    case body
    have "sendHeader v = (None, v)" using body by (simp add: sendHeader_def v)
    moreover have "streaming c (i @ q) so' v" using body op so' q std by (auto simp: streaming_def status_is_def v)
    ultimately show ?thesis by blast
  qed
qed

lemma Write_inv:
  assumes rel: "reliable c" and inv: "writer_inv c i so w"
  shows "\<exists>w'. Write c p w = (length p, None, w') \<and> writer_inv c (i @ p) (requested so (OpWrite p)) w'"
proof (cases "p = []")
  case True
  then show ?thesis using inv by (simp add: Write_def writer_inv_def requested_def)
next
  case False
  let ?w1 = "(default_status w)\<lparr>w_bodyStarted := True\<rparr>"
  let ?so = "Some (case so of Some st \<Rightarrow> st | None \<Rightarrow> 200)"
  have rq: "requested so (OpWrite p) = ?so" using False by (auto simp: requested_def split: option.split)
  obtain q rest where q: "p = q @ rest" "buffer_body p ?w1 = (rest, ?w1\<lparr>w_pending := w_pending ?w1 @ q\<rparr>)" "w_headerSent ?w1 \<Longrightarrow> q = []"
    using buffer_split [of p ?w1] by blast
  let ?w2 = "?w1\<lparr>w_pending := w_pending ?w1 @ q\<rparr>"
  have w2: "?w2 = (default_status w)\<lparr>w_bodyStarted := True, w_forceCompression := w_forceCompression (default_status w), w_pending := w_pending w @ q\<rparr>"
    by (rule HTTPResponseWriter.equality) simp_all
  have open': "\<not> w_closed w" "w_encoderError ?w1 = None" using inv by (auto simp: writer_inv_def unsent_def refused_def)
  have W: "Write c p w = (if rest = [] then (length p, None, ?w2)
     else case sendHeader ?w2 of (Some e, w3) \<Rightarrow> (0, Some e, w3)
        | (None, w3) \<Rightarrow> (if w_negotiationFailed w3 then (length p, None, w3)
            else case flush_pending c w3 of (Some e, w4) \<Rightarrow> (length p - length rest, Some e, w4)
                 | (None, w4) \<Rightarrow> (case writeBody c rest w4 of (n, e, w5) \<Rightarrow> (length p - length rest + n, e, w5))))"
    unfolding Write_def Let_def using False open' q(2) by simp
  show ?thesis
  proof (cases "rest = []")
    case True
    then have "unsent w \<and> w_pending w = i"
      using q(1,3) False inv by (auto simp: writer_inv_def refused_def)
    then have "writer_inv c (i @ p) ?so ?w2"
      using True q(1) inv False by (auto simp: writer_inv_def unsent_def status_is_def default_status_def split: option.splits)
    then show ?thesis using W True rq by simp
  next
    case rest: False
    obtain w3 where h: "sendHeader ?w2 = (None, w3)" "stopped ?so w3 \<or> streaming c (i @ q) ?so w3"
      using sendHeader_cases [OF inv w2 _ refl] q(3) by auto
    from h(2) show ?thesis
    proof
      assume s: "stopped ?so w3"
      then have "w_negotiationFailed w3" by (simp add: stopped_def refused_def)
      then show ?thesis using W rest h(1) stopped_inv [OF s, of c "i @ p"] rq by simp
    next
      assume s: "streaming c (i @ q) ?so w3"
      then have nf: "\<not> w_negotiationFailed w3" by (simp add: streaming_def)
      obtain w4 where w4: "flush_pending c w3 = (None, w4)" "streaming c (i @ q) ?so w4" "w_pending w4 = []"
        using streaming_flush_pending [OF rel s] by blast
      obtain w5 where w5: "writeBody c rest w4 = (length rest, None, w5)" "streaming c ((i @ q) @ rest) ?so w5" "w_pending w5 = []" "started (w_algorithm w5) (w_encoder w5)"
        using streaming_write [OF rel w4(2,3), of rest] by blast
      have "writer_inv c (i @ p) ?so w5" using streaming_inv [OF w5(2,3,4)] q(1) by simp
      then show ?thesis using W rest h(1) nf w4(1) w5(1) rq q(1) by simp
    qed
  qed
qed

lemma carries_flushed [simp]: "carries c rq al st a en (ws @ [Flushed]) i = carries c rq al st a en ws i"
  "carries c rq al st a en (ws @ [Informational k]) i = carries c rq al st a en ws i"
  by (simp_all add: carries_def)

lemma carries_flush:
  assumes "carries c rq al st a (Some e) ws i" "enc_flush c e = Some (e', out, True)"
  shows "carries c rq al st a (Some e') (ws @ [Body out]) i"
proof -
  obtain h bs where h: "visible ws = Head st h # map Body bs" "a \<noteq> AlgorithmIdentity" "h ''Content-Encoding'' = [a]" "accepted_by rq al a"
    "stream c a e i (concat bs)" using assms(1) by (auto simp: carries_def split: if_splits)
  then show ?thesis unfolding carries_def using stream_flush [OF h(5) assms(2)]
    by (intro exI [of _ h] exI [of _ "bs @ [out]"]) simp
qed

lemma opened_encoder:
  assumes rel: "reliable c" and s: "streaming c i so w" and n: "w_algorithm w \<noteq> AlgorithmIdentity" "w_encoder w = None"
  shows "new_encoder c w \<noteq> None" "streaming c i so (w\<lparr>w_encoder := new_encoder c w\<rparr>)"
proof -
  obtain j where j: "body_state c w j" "j @ w_pending w = i" using s by (auto simp: streaming_def)
  then have "isSupportedAlgorithm (w_algorithm w)" using n by (auto simp: carries_def accepted_by_def)
  then obtain e where e: "new_encoder c w = Some e" "stream c (w_algorithm w) e [] []"
    using new_encoder_reliable [OF rel] n by blast
  then show "new_encoder c w \<noteq> None" by simp
  have "body_state c (w\<lparr>w_encoder := new_encoder c w\<rparr>) j" using e j(1) n by (auto simp: carries_def)
  then show "streaming c i so (w\<lparr>w_encoder := new_encoder c w\<rparr>)" using s j(2) by (auto simp: streaming_def)
qed

definition flush_encoder :: "'e codec \<Rightarrow> 'e HTTPResponseWriter \<Rightarrow> response_error option \<times> 'e HTTPResponseWriter" where
  "flush_encoder c w = (case Option.bind (w_encoder w) (enc_flush c) of
     None \<Rightarrow> (None, w)
   | Some (e', out, good) \<Rightarrow>
       (let v = (send (Body out) w)\<lparr>w_encoder := Some e'\<rparr>
        in if good then (None, v) else (Some EncoderFailed, v\<lparr>w_encoderError := Some EncoderFailed\<rparr>)))"

lemma streaming_flush_encoder:
  assumes rel: "reliable c" and s: "streaming c i so w" and p: "w_pending w = []"
  shows "\<exists>w'. flush_encoder c w = (None, w') \<and> streaming c i so w' \<and> w_pending w' = []
    \<and> (started (w_algorithm w) (w_encoder w) \<longrightarrow> started (w_algorithm w') (w_encoder w'))"
proof (cases "Option.bind (w_encoder w) (enc_flush c)")
  case None
  then show ?thesis using s p by (simp add: flush_encoder_def)
next
  case (Some x)
  obtain e e' out good where e: "w_encoder w = Some e" "enc_flush c e = Some (e', out, good)" "x = (e', out, good)"
    using Some by (cases "w_encoder w"; cases x) auto
  then have g: good using rel unfolding reliable_def by fastforce
  have "body_state c w i" using s p by (auto simp: streaming_def)
  then have "carries c (w_request w) (w_allowed w) (w_status w) (w_algorithm w) (Some e') (w_wire w @ [Body out]) i"
    using carries_flush [of c _ _ _ _ e "w_wire w" i e' out] e g by simp
  then show ?thesis using Some e(3) g s p by (simp add: flush_encoder_def Let_def streaming_def started_def)
qed

lemma FlushError_inv:
  assumes rel: "reliable c" and inv: "writer_inv c i so w"
  shows "\<exists>w'. FlushError c can_flush w = (None, w') \<and> writer_inv c i (requested so (OpFlush can_flush)) w'"
proof -
  let ?w0 = "(default_status w)\<lparr>w_bodyStarted := True, w_forceCompression := True\<rparr>"
  let ?so = "Some (case so of Some st \<Rightarrow> st | None \<Rightarrow> 200)"
  have rq: "requested so (OpFlush can_flush) = ?so" by (auto simp: requested_def split: option.split)
  have w0: "?w0 = (default_status w)\<lparr>w_bodyStarted := True, w_forceCompression := True, w_pending := w_pending w @ []\<rparr>"
    by (simp add: default_status_def)
  obtain w1 where h: "sendHeader ?w0 = (None, w1)" "stopped ?so w1 \<or> streaming c i ?so w1"
    using sendHeader_cases [OF inv w0 _ refl] by auto
  from h(2) show ?thesis
  proof
    assume s: "stopped ?so w1"
    then have "w_negotiationFailed w1" by (simp add: stopped_def refused_def)
    then show ?thesis using h(1) stopped_inv [OF s] rq by (simp add: FlushError_def)
  next
    assume s: "streaming c i ?so w1"
    define w2 where "w2 = (if w_algorithm w1 \<noteq> AlgorithmIdentity \<and> w_encoder w1 = None then w1\<lparr>w_encoder := new_encoder c w1\<rparr> else w1)"
    have s2: "streaming c i ?so w2" using opened_encoder(2) [OF rel s] s by (simp add: w2_def)
    have ne: "\<not> (w_algorithm w1 \<noteq> AlgorithmIdentity \<and> w_encoder w1 = None \<and> new_encoder c w1 = None)" using opened_encoder(1) [OF rel s] by blast
    have "started (w_algorithm w2) (w_encoder w2)" using ne by (auto simp: w2_def started_def)
    then obtain w3 where w3: "flush_pending c w2 = (None, w3)" "streaming c i ?so w3" "w_pending w3 = []" "started (w_algorithm w3) (w_encoder w3)"
      using streaming_flush_pending [OF rel s2] by blast
    then obtain w4 where w4: "flush_encoder c w3 = (None, w4)" "streaming c i ?so w4" "w_pending w4 = []" "started (w_algorithm w4) (w_encoder w4)"
      using streaming_flush_encoder [OF rel w3(2,3)] by blast
    have nf: "\<not> w_negotiationFailed w1" using s by (simp add: streaming_def)
    have F: "FlushError c can_flush w = (None, if can_flush then send Flushed w4 else w4)"
      unfolding FlushError_def h(1) prod.case option.case if_not_P [OF nf] if_not_P [OF ne] w2_def [symmetric] Let_def [of w2] w3(1)
        flush_encoder_def [symmetric] w4(1) by simp
    have "streaming c i ?so (send Flushed w4)" using w4(2) by (simp add: streaming_def)
    from streaming_inv [OF this] have "writer_inv c i ?so (send Flushed w4)" using w4(3,4) by simp
    then show ?thesis unfolding F rq using streaming_inv [OF w4(2,3,4)] by auto
  qed
qed

lemma run_op_inv:
  assumes rel: "reliable c" and inv: "writer_inv c i so w"
  shows "writer_inv c (i @ op_bytes op) (requested so op) (run_op c op w)"
proof (cases op)
  case (OpHeader f)
  then show ?thesis using inv by (simp add: run_op_def op_bytes_def requested_def writer_inv_def unsent_def refused_def)
next
  case (OpWriteHeader st)
  show ?thesis
  proof (cases "100 \<le> st \<and> st < 200")
    case True
    then show ?thesis using OpWriteHeader inv
      by (simp add: run_op_def op_bytes_def requested_def writer_inv_def unsent_def refused_def WriteHeader_def)
  next
    case False
    then show ?thesis using OpWriteHeader inv
      by (auto simp: run_op_def op_bytes_def requested_def writer_inv_def unsent_def refused_def WriteHeader_def status_is_def)
  qed
next
  case (OpWrite p)
  then show ?thesis using Write_inv [OF assms, of p] by (auto simp: run_op_def op_bytes_def)
next
  case (OpFlush can_flush)
  then show ?thesis using FlushError_inv [OF assms, of can_flush] by (auto simp: run_op_def op_bytes_def)
qed

lemma run_ops_inv:
  assumes rel: "reliable c" and inv: "writer_inv c i so w"
  shows "writer_inv c (i @ written ops) (foldl requested so ops) (run_ops c ops w)"
  using inv
proof (induction ops arbitrary: i so w)
  case Nil
  then show ?case by (simp add: written_def run_ops_def)
next
  case (Cons op ops)
  from Cons.IH [OF run_op_inv [OF rel Cons.prems]] show ?case by (simp add: written_def run_ops_def)
qed

lemma new_inv: "o_request opt \<noteq> None \<Longrightarrow> writer_inv c [] None (NewHTTPResponseWriter h opt)"
  by (simp add: writer_inv_def NewHTTPResponseWriter_def unsent_def status_is_def)

text \<open>A finished response: the refusal, or the requested status with a body that stands for the bytes written.\<close>

definition delivered :: "(Algorithm \<Rightarrow> bytes \<Rightarrow> bytes option) \<Rightarrow> bytes \<Rightarrow> int \<Rightarrow> 'e HTTPResponseWriter \<Rightarrow> bool" where
  "delivered dec i st w \<longleftrightarrow> (\<exists>h bs.
     w_negotiationFailed w \<and> visible (w_wire w) = [Head 406 h, Body not_acceptable_text]
     \<or> \<not> w_negotiationFailed w \<and> visible (w_wire w) = Head st h # map Body bs
        \<and> (if w_algorithm w = AlgorithmIdentity then concat bs = i
           else h ''Content-Encoding'' = [w_algorithm w] \<and> accepted_by (w_request w) (w_allowed w) (w_algorithm w)
             \<and> dec (w_algorithm w) (concat bs) = Some i))"

lemma close_body_refused: "refused w \<Longrightarrow> close_body c w = (None, w)"
  by (simp add: close_body_def refused_def)

lemma refused_delivered: "refused w \<Longrightarrow> delivered dec i st w"
  by (auto simp: refused_def delivered_def)

lemma close_body_delivers:
  assumes rel: "reliable c" and ll: "lossless c dec" and b: "body_state c w j" and w: "\<not> w_negotiationFailed w" "w_encoderError w = None"
    and p: "j @ w_pending w = i" and e: "w_pending w \<noteq> [] \<or> started (w_algorithm w) (w_encoder w)"
  shows "\<exists>w'. close_body c w = (None, w') \<and> delivered dec i (w_status w) w'"
proof -
  define w1 where "w1 = (if w_pending w \<noteq> [] \<and> \<not> w_negotiationFailed w
     then case writeBody c (w_pending w) w of (_, e, v) \<Rightarrow> (keep_error e v)\<lparr>w_pending := []\<rparr> else w)"
  have w1: "body_state c w1 i \<and> w_status w1 = w_status w \<and> \<not> w_negotiationFailed w1 \<and> w_encoderError w1 = None
      \<and> started (w_algorithm w1) (w_encoder w1)"
  proof (cases "w_pending w = []")
    case True
    then show ?thesis using b w p e by (auto simp: w1_def)
  next
    case False
    obtain ws en where g: "writeBody c (w_pending w) w = (length (w_pending w), None, w\<lparr>w_wire := ws, w_encoder := en\<rparr>)"
      "body_state c (w\<lparr>w_wire := ws, w_encoder := en\<rparr>) i" "started (w_algorithm w) en"
      using writeBody_state [OF rel b, of "w_pending w"] p by auto
    then show ?thesis using w False by (simp add: w1_def keep_error_def)
  qed
  have C: "close_body c w = (case w_encoder w1 of
         None \<Rightarrow> (w_encoderError w1, w1)
       | Some e \<Rightarrow> (case enc_close c e of (out, good) \<Rightarrow>
            let w2 = keep_error (if good then None else Some EncoderFailed) ((send (Body out) w1)\<lparr>w_encoder := None\<rparr>) in (w_encoderError w2, w2)))"
    unfolding close_body_def w1_def [symmetric] Let_def ..
  show ?thesis
  proof (cases "w_encoder w1")
    case None
    then have "w_algorithm w1 = AlgorithmIdentity" using w1 by (auto simp: started_def)
    then show ?thesis using C None w1 by (auto simp: delivered_def carries_def)
  next
    case (Some e)
    obtain out where cl: "enc_close c e = (out, True)" using rel unfolding reliable_def by (metis prod.collapse)
    obtain h bs where h: "visible (w_wire w1) = Head (w_status w1) h # map Body bs" "w_algorithm w1 \<noteq> AlgorithmIdentity"
      "h ''Content-Encoding'' = [w_algorithm w1]" "accepted_by (w_request w1) (w_allowed w1) (w_algorithm w1)" "stream c (w_algorithm w1) e i (concat bs)"
      using w1 Some by (auto simp: carries_def split: if_splits)
    have d: "dec (w_algorithm w1) (concat (bs @ [out])) = Some i" using ll h(5) cl unfolding lossless_def by fastforce
    let ?w2 = "(send (Body out) w1)\<lparr>w_encoder := None\<rparr>"
    have "close_body c w = (None, ?w2)" using C Some cl w1 by (simp add: keep_error_def Let_def)
    moreover have "delivered dec i (w_status w) ?w2"
      unfolding delivered_def using h d w1 by (intro exI [of _ h] exI [of _ "bs @ [out]"]) simp
    ultimately show ?thesis by blast
  qed
qed

lemma Close_delivers:
  assumes rel: "reliable c" and ll: "lossless c dec" and inv: "writer_inv c i so w"
  shows "\<exists>w'. Close c w = Some (None, w') \<and> delivered dec i (case so of Some st \<Rightarrow> st | None \<Rightarrow> 200) w'"
proof -
  let ?w0 = "w\<lparr>w_closed := True\<rparr>"
  let ?st = "case so of Some st \<Rightarrow> st | None \<Rightarrow> 200"
  obtain r where rq: "w_request w = Some r" using inv by (auto simp: writer_inv_def)
  have op: "\<not> w_closed w" and so: "status_is so w" using inv by (simp_all add: writer_inv_def)
  have st0: "\<not> w_negotiationFailed w \<Longrightarrow> w_status (default_status ?w0) = ?st"
    using so by (auto simp: status_is_def default_status_def split: option.split)
  consider (refused) "refused w"
    | (body) "w_headerSent w" "\<not> w_negotiationFailed w" "w_encoderError w = None" "w_pending w = []" "body_state c w i"
        "started (w_algorithm w) (w_encoder w)" "w_statusSet w"
    | (buffered) "unsent w" "w_pending w = i" "w_bodyStarted w" "w_statusSet w" "i \<noteq> []"
    | (empty) "unsent w" "w_pending w = []" "i = []" "\<not> w_bodyStarted w"
    using inv by (auto simp: writer_inv_def unsent_def)
  then show ?thesis
  proof cases
    case refused
    then have "refused ?w0" by (simp add: refused_def)
    then show ?thesis using op close_body_refused [of ?w0 c] refused_delivered [of ?w0] by (simp add: Close_def refused_def)
  next
    case body
    have "w_status ?w0 = ?st" using st0 body(2,7) by simp
    then show ?thesis
      using close_body_delivers [OF rel ll, of ?w0 i i] body op by (simp add: Close_def)
  next
    case buffered
    let ?w1 = "default_status ?w0"
    have u: "unsent ?w1" using buffered(1) by (simp add: unsent_def)
    obtain w2 where h: "sendHeader ?w1 = (None, w2)" "header_out c ?w1 w2"
      using sendHeader_out [OF u, of c] by (metis prod.collapse)
    have C: "Close c w = Some (close_body c w2)" using op buffered h(1) by (simp add: Close_def unsent_def Let_def)
    show ?thesis
    proof (cases "refused w2")
      case True
      then show ?thesis using C close_body_refused [OF True, of c] refused_delivered [OF True] by simp
    next
      case False
      then have b: "body_state c w2 []" "\<not> w_negotiationFailed w2" "w_encoderError w2 = None" "w_pending w2 = i" "w_status w2 = w_status (default_status ?w1)"
        using h(2) buffered by (auto simp: header_out_def)
      moreover have "w_status (default_status ?w1) = ?st" using st0 buffered(1,4) by (simp add: unsent_def)
      ultimately show ?thesis using C close_body_delivers [OF rel ll b(1-3), of i] buffered(5) by simp
    qed
  next
    case empty
    let ?w1 = "default_status ?w0"
    obtain a w2 where s: "selectAlgorithm (w_status ?w1) ?w1 = (a, w2)" by fastforce
    have "touched ?w1 w2" using select_touched [of ?w1 "w_status ?w1"] s by simp
    note T = touched_fields [OF this]
    define w3 where "w3 = (if \<not> w_negotiationFailed w2 \<and> w_algorithm w2 \<noteq> AlgorithmIdentity
         \<and> \<not> IdentityAcceptable (str_join '','' (rq_header (the (w_request w2)) ''Accept-Encoding''))
       then w2\<lparr>w_negotiationFailed := True\<rparr> else w2)"
    have "touched w2 w3" by (simp add: w3_def)
    note T3 = touched_fields [OF this]
    let ?w4 = "(send (Head (w_status w3) (w_header w3)) (w3\<lparr>w_algorithm := AlgorithmIdentity\<rparr>))\<lparr>w_headerSent := True\<rparr>"
    have C: "Close c w = Some (if w_negotiationFailed w3 then (w_encoderError w3, sendNotAcceptable w3) else close_body c ?w4)"
      unfolding Close_def Let_def using op empty rq T(1) s by (simp add: unsent_def w3_def)
    show ?thesis
    proof (cases "w_negotiationFailed w3")
      case True
      have "unsent (w3\<lparr>w_negotiationFailed := False\<rparr>)" using empty T T3 by (simp add: unsent_def)
      then have "refused (sendNotAcceptable w3)" using sendNotAcceptable_refused(1) [of w3] True by simp
      then show ?thesis using C True refused_delivered empty(1) T(8) T3(8) by (auto simp: unsent_def)
    next
      case False
      have "close_body c ?w4 = (None, ?w4)" using False empty T T3 by (simp add: close_body_def unsent_def)
      moreover have "delivered dec i ?st ?w4"
        unfolding delivered_def using False empty T T3 st0
        by (intro exI [of _ "w_header w3"] exI [of _ "[]"]) (simp add: unsent_def)
      ultimately show ?thesis using C False by simp
    qed
  qed
qed

lemma no_algorithm: "[] \<noteq> AlgorithmIdentity"
  by (simp add: algorithm_defs)

lemma empty_response_without_request:
  "o_request opt = None \<Longrightarrow> Close c (NewHTTPResponseWriter h opt) = None"
  by (simp add: Close_def Let_def NewHTTPResponseWriter_def default_status_def selectAlgorithm_def algorithm_defs)

section \<open>Decoding and windows\<close>

lemma double_until_bounds:
  assumes "window = 2 ^ k" "window < 2 * n"
  shows "n \<le> double_until window n \<and> double_until window n < 2 * n \<and> (\<exists>j. double_until window n = 2 ^ j)"
  using assms
proof (induction window n arbitrary: k rule: double_until.induct)
  case (1 window n)
  show ?case
  proof (cases "window < n")
    case True
    have "0 < window" using 1(2) by simp
    then have "double_until window n = double_until (2 * window) n" using True by (simp add: double_until.simps [of window n])
    then show ?thesis using 1(1) [of "Suc k"] True \<open>0 < window\<close> 1(2) by simp
  next
    case False
    then have "double_until window n = window" by (simp add: double_until.simps [of window n])
    then show ?thesis using False 1(2,3) by auto
  qed
qed

lemma power_between:
  assumes "(2::int) ^ j < 2 * n" "n < 2 ^ k"
  shows "(2::int) ^ j \<le> 2 ^ k"
proof (cases "j \<le> k")
  case True
  then show ?thesis by (intro power_increasing) auto
next
  case False
  then have "(2::int) ^ Suc k \<le> 2 ^ j" by (intro power_increasing) auto
  then show ?thesis using assms by simp
qed

lemma encoder_window_bounds:
  assumes "0 < n" "a = AlgorithmZstd \<or> a = AlgorithmBrotli" and m: "m = (if a = AlgorithmZstd then zstd_window_max else brotli_window_max)"
  shows "min n m \<le> encoderWindowBytesForContentLength a n \<and> encoderWindowBytesForContentLength a n \<le> m
    \<and> (\<exists>k. encoderWindowBytesForContentLength a n = 2 ^ k)"
proof -
  have m': "m = 33554432 \<or> m = 16777216" using m by (simp add: zstd_window_max_def brotli_window_max_def)
  have pows: "(33554432 :: int) = 2 ^ 25" "(16777216 :: int) = 2 ^ 24" "(1024 :: int) = 2 ^ 10" by simp_all
  have "\<exists>k. m = 2 ^ k" using m' pows by metis
  then obtain k where k: "m = 2 ^ k" ..
  have W: "encoderWindowBytesForContentLength a n = (if n < 1024 then 1024 else if n \<ge> m then m else double_until 1024 n)"
    using assms(1,2) unfolding encoderWindowBytesForContentLength_def m Let_def by auto
  consider (small) "n < 1024" | (big) "\<not> n < 1024" "m \<le> n" | (mid) "\<not> n < 1024" "n < m" by linarith
  then show ?thesis
  proof cases
    case small
    then show ?thesis using W m' pows(3) by (auto simp del: power_numeral)
  next
    case big
    then show ?thesis using W k by auto
  next
    case mid
    have "n \<le> double_until 1024 n \<and> double_until 1024 n < 2 * n \<and> (\<exists>j. double_until 1024 n = 2 ^ j)"
      using double_until_bounds [OF pows(3), of n] mid by simp
    then obtain j where j: "double_until 1024 n = 2 ^ j" "n \<le> 2 ^ j" "2 ^ j < 2 * n" by metis
    have "(2::int) ^ j \<le> 2 ^ k" using power_between [OF j(3), of k] mid k by simp
    then show ?thesis using W mid j k by auto
  qed
qed

lemma content_codings_read_back:
  assumes "list_all isSupportedAlgorithm as"
  shows "content_codings as = Inr as" "content_codings (map (Cons (CHR '' '')) as) = Inr as"
  using assms
proof (induction as)
  case (Cons a as)
  { case 1
    then have "a \<in> set fixedPriorityOrder" by (simp add: supported_iff)
    note n = priority_names [OF this]
    show ?case using 1 Cons.IH(1) n trim_space_plain [OF n(7,8)] by simp }
  { case 2
    then have "a \<in> set fixedPriorityOrder" by (simp add: supported_iff)
    note n = priority_names [OF this]
    show ?case using 2 Cons.IH(2) n trim_space_plain [OF n(7,8)] by (simp add: trim_space_lead) }
qed simp_all

lemma ParseContentEncoding_read_back:
  assumes s: "list_all isSupportedAlgorithm as"
  shows "ParseContentEncoding (str_join '', '' as) = Inr as"
proof (cases as)
  case Nil
  then show ?thesis by (simp add: ParseContentEncoding_def)
next
  case (Cons a as')
  have mem: "\<forall>b \<in> set as. b \<in> set fixedPriorityOrder" using s by (simp add: list_all_iff supported_iff)
  then have ne: "\<forall>b \<in> set as. b \<noteq> []" "\<forall>b \<in> set as. CHR '','' \<notin> set b" using priority_names(3,6) by blast+
  have E: "str_join '', '' as \<noteq> []" "hd (str_join '', '' as) = hd a" "last (str_join '', '' as) = last (last as)"
    using str_join_ends [of as "'', ''"] ne(1) Cons by auto
  have "plain_char (hd (str_join '', '' as))" "plain_char (last (str_join '', '' as))"
    using E mem Cons priority_names(7,8) last_in_set [of as] by (auto simp del: last.simps)
  then have t: "trim_space (str_join '', '' as) = str_join '', '' as" by (rule trim_space_plain)
  have ni: "\<not> equal_fold (str_join '', '' as) AlgorithmIdentity"
  proof (cases as')
    case Nil
    then show ?thesis using Cons mem by (auto simp: fixedPriorityOrder_def algorithm_defs equal_fold_def to_lower_def ascii_lower_def)
  next
    case (Cons b bs)
    have "CHR '','' \<in> set (to_lower (str_join '', '' as))"
      using \<open>as = a # as'\<close> Cons by (simp add: to_lower_def ascii_lower_def)
    moreover have "CHR '','' \<notin> set (to_lower AlgorithmIdentity)" by (simp add: algorithm_defs to_lower_def ascii_lower_def)
    ultimately show ?thesis unfolding equal_fold_def by metis
  qed
  have "split_on (CHR '','') (str_join '', '' as) = a # map (Cons (CHR '' '')) as'"
    using split_join_spaced [of a as'] ne(2) Cons by simp
  moreover have "content_codings (a # map (Cons (CHR '' '')) as') = Inr as"
  proof -
    note n = priority_names [of a]
    have "content_codings (map (Cons (CHR '' '')) as') = Inr as'" using content_codings_read_back(2) [of as'] s Cons by simp
    then show ?thesis using n mem Cons trim_space_plain [of a] by simp
  qed
  ultimately show ?thesis using t ni E(1) by (simp add: ParseContentEncoding_def Let_def)
qed

fun read_run ::
    "(nat \<Rightarrow> 'r \<Rightarrow> bytes \<times> read_error option \<times> 'r) \<Rightarrow> nat list \<Rightarrow> decoderReadCloser \<Rightarrow> 'r \<Rightarrow> bytes \<times> read_error option" where
  \<comment> \<open>reading into buffers of the given sizes up to the first error\<close>
  "read_run below [] d r = ([], None)"
| "read_run below (room # rooms) d r =
     (case Read below room d r of
        (out, Some e, _, _) \<Rightarrow> (out, Some e)
      | (out, None, d', r') \<Rightarrow> (case read_run below rooms d' r' of (out', e) \<Rightarrow> (out @ out', e)))"

definition reads_from :: "(nat \<Rightarrow> 'r \<Rightarrow> bytes \<times> read_error option \<times> 'r) \<Rightarrow> ('r \<Rightarrow> bytes) \<Rightarrow> bool" where
  \<comment> \<open>a reader hands out its content in order, at most as much as there is room for, and reports the end at its end only\<close>
  "reads_from below content \<longleftrightarrow> (\<forall>room r. case below room r of (out, e, r') \<Rightarrow>
     out @ content r' = content r \<and> length out \<le> room \<and> (e = Some ReadEOF \<longrightarrow> content r' = []) \<and> e \<noteq> Some ErrDecodedSizeLimit)"

lemma reads_fromD:
  assumes "reads_from below content" "below room r = (out, e, r')"
  shows "out @ content r' = content r" "length out \<le> room" "e = Some ReadEOF \<longrightarrow> content r' = []" "e \<noteq> Some ErrDecodedSizeLimit"
  using spec [OF spec [OF assms(1) [unfolded reads_from_def], of room], of r] assms(2) by simp_all

lemma Read_within:
  assumes src: "reads_from below content" and d: "d_limit d > 0" "0 \<le> d_decoded d" "d_decoded d \<le> d_limit d"
    and rd: "Read below room d r = (out, e, d', r')"
  shows "d_limit d' = d_limit d \<and> d_decoded d' = d_decoded d + int (length out) \<and> d_decoded d' \<le> d_limit d
    \<and> (if e = Some ErrDecodedSizeLimit then out = [] \<and> content r \<noteq> [] \<and> d_decoded d = d_limit d else out @ content r' = content r)
    \<and> (e = Some ReadEOF \<longrightarrow> content r' = [])"
proof -
  obtain o1 e1 r1 where b1: "below 1 r = (o1, e1, r1)" by (rule prod_cases3)
  define k where "k = (if d_limit d > 0 \<and> int room > d_limit d - d_decoded d then nat (d_limit d - d_decoded d) else room)"
  obtain o2 e2 r2 where b2: "below k r = (o2, e2, r2)" by (rule prod_cases3)
  note l1 = reads_fromD [OF src b1]
  note l2 = reads_fromD [OF src b2]
  consider "room = 0 \<or> \<not> d_open d" | (full) "room \<noteq> 0" "d_open d" "d_limit d - d_decoded d \<le> 0" | (free) "room \<noteq> 0" "d_open d" "\<not> d_limit d - d_decoded d \<le> 0"
    by blast
  then show ?thesis
  proof cases
    case 1
    then show ?thesis using rd d by (auto simp: Read_def split: if_splits)
  next
    case full
    then show ?thesis using rd d b1 l1 by (auto simp: Read_def split: if_splits)
  next
    case free
    have "(out, e, d', r') = (o2, e2, d\<lparr>d_decoded := d_decoded d + int (length o2)\<rparr>, r2)"
      using free rd b2 unfolding Read_def k_def Let_def by auto
    moreover have "int (length o2) \<le> d_limit d - d_decoded d" using l2(2) free d by (auto simp: k_def split: if_splits)
    ultimately show ?thesis using l2 by simp
  qed
qed

definition reads_on :: "(nat \<Rightarrow> 'r \<Rightarrow> bytes \<times> read_error option \<times> 'r) \<Rightarrow> ('r \<Rightarrow> bytes) \<Rightarrow> bool" where
  \<comment> \<open>moreover a read into a non-empty buffer does not fail, and gives a byte or the end\<close>
  "reads_on below content \<longleftrightarrow> reads_from below content \<and> (\<forall>room r. case below room r of (out, e, r') \<Rightarrow>
     room > 0 \<longrightarrow> (e = None \<and> out \<noteq> []) \<or> e = Some ReadEOF)"

lemma Read_progress:
  assumes src: "reads_on below content" and room: "room > 0" and d: "d_open d" "0 \<le> d_decoded d" "d_limit d > 0 \<longrightarrow> d_decoded d \<le> d_limit d"
    and rd: "Read below room d r = (out, e, d', r')"
  shows "if d_limit d > 0 \<and> d_decoded d = d_limit d \<and> content r \<noteq> []
         then out = [] \<and> e = Some ErrDecodedSizeLimit
         else out @ content r' = content r \<and> d' = d\<lparr>d_decoded := d_decoded d + int (length out)\<rparr>
           \<and> (d_limit d > 0 \<longrightarrow> d_decoded d' \<le> d_limit d) \<and> (if e = None then out \<noteq> [] else e = Some ReadEOF \<and> content r' = [])"
proof -
  have rf: "reads_from below content" using src by (simp add: reads_on_def)
  have on: "(e0 = None \<and> o0 \<noteq> []) \<or> e0 = Some ReadEOF" if "below n r = (o0, e0, r0)" "n > 0" for n o0 e0 r0
    using src that unfolding reads_on_def by (elim conjE allE [of _ n] allE [of _ r]) simp
  show ?thesis
  proof (cases "d_limit d > 0 \<and> d_decoded d = d_limit d")
    case True
    obtain o1 e1 r1 where b1: "below (Suc 0) r = (o1, e1, r1)" by (rule prod_cases3)
    note l1 = reads_fromD [OF rf b1] on [OF b1]
    have "Read below room d r = (if o1 \<noteq> [] then ([], Some ErrDecodedSizeLimit, d, r1) else ([], e1, d, r1))"
      using True room d(1) b1 by (simp add: Read_def)
    then show ?thesis using rd True l1 d by (cases "o1 = []") auto
  next
    case False
    define k where "k = (if d_limit d > 0 \<and> int room > d_limit d - d_decoded d then nat (d_limit d - d_decoded d) else room)"
    have k: "k > 0" "d_limit d > 0 \<longrightarrow> int k \<le> d_limit d - d_decoded d" using False room d by (auto simp: k_def)
    obtain o2 e2 r2 where b2: "below k r = (o2, e2, r2)" by (rule prod_cases3)
    note l2 = reads_fromD [OF rf b2] on [OF b2 k(1)]
    have "\<not> (d_limit d > 0 \<and> d_limit d - d_decoded d \<le> 0)" using False d by auto
    then have "Read below room d r = (o2, e2, d\<lparr>d_decoded := d_decoded d + int (length o2)\<rparr>, r2)"
      using room d(1) b2 unfolding Read_def Let_def k_def [symmetric] by auto
    then show ?thesis using rd False l2 k by auto
  qed
qed

lemma read_run_exact:
  assumes src: "reads_on below content"
  shows "\<lbrakk>list_all ((<) 0) rooms; length (content r) < length rooms; d_open d; 0 \<le> d_decoded d; d_limit d > 0 \<longrightarrow> d_decoded d \<le> d_limit d\<rbrakk>
    \<Longrightarrow> read_run below rooms d r =
      (if d_limit d > 0 \<and> d_decoded d + int (length (content r)) > d_limit d
       then (take (nat (d_limit d - d_decoded d)) (content r), Some ErrDecodedSizeLimit) else (content r, Some ReadEOF))"
proof (induction rooms arbitrary: d r)
  case (Cons room rooms)
  obtain o1 e1 d1 r1 where rd: "Read below room d r = (o1, e1, d1, r1)" by (metis prod_cases4)
  have room: "room > 0" using Cons.prems(1) by simp
  note P = Read_progress [OF src room Cons.prems(3-5) rd]
  show ?case
  proof (cases "d_limit d > 0 \<and> d_decoded d = d_limit d \<and> content r \<noteq> []")
    case True
    then show ?thesis using P by (simp add: rd)
  next
    case False
    then have c: "content r = o1 @ content r1" and d1: "d1 = d\<lparr>d_decoded := d_decoded d + int (length o1)\<rparr>"
      and le: "d_limit d > 0 \<longrightarrow> d_decoded d1 \<le> d_limit d" and e: "if e1 = None then o1 \<noteq> [] else e1 = Some ReadEOF \<and> content r1 = []"
      using P unfolding if_not_P [OF False] by auto
    show ?thesis
    proof (cases e1)
      case None
      then have "length (content r1) < length rooms" using Cons.prems(2) c e by (cases o1) auto
      then have "read_run below rooms d1 r1 =
          (if d_limit d1 > 0 \<and> d_decoded d1 + int (length (content r1)) > d_limit d1
           then (take (nat (d_limit d1 - d_decoded d1)) (content r1), Some ErrDecodedSizeLimit) else (content r1, Some ReadEOF))"
        using Cons.prems d1 le by (intro Cons.IH) auto
      moreover have "take (nat (d_limit d - d_decoded d)) (o1 @ content r1) = o1 @ take (nat (d_limit d - (d_decoded d + int (length o1)))) (content r1)"
        if "d_limit d > 0"
      proof -
        have "nat (d_limit d - d_decoded d) - length o1 = nat (d_limit d - (d_decoded d + int (length o1)))" by simp
        then show ?thesis using le d1 that by simp
      qed
      ultimately show ?thesis using c d1 by (simp add: rd None)
    next
      case (Some x)
      then show ?thesis using e c d1 le by (auto simp: rd)
    qed
  qed
qed simp

section \<open>A stack of codings\<close>

fun windows_fit :: "(bytes \<Rightarrow> int) \<Rightarrow> int \<Rightarrow> (Algorithm \<Rightarrow> bytes \<Rightarrow> bytes) \<Rightarrow> Algorithm list \<Rightarrow> bytes \<Rightarrow> bool" where
  \<comment> \<open>every zstd layer asks for a window of at most the given size\<close>
  "windows_fit need window enc [] body = True"
| "windows_fit need window enc (a # as) body =
     ((a = AlgorithmZstd \<longrightarrow> need (enc a body) \<le> window) \<and> windows_fit need window enc as (enc a body))"

definition decoders_undo :: "'r decoders \<Rightarrow> ('r \<Rightarrow> bytes) \<Rightarrow> (bytes \<Rightarrow> int) \<Rightarrow> (Algorithm \<Rightarrow> bytes \<Rightarrow> bytes) \<Rightarrow> bool" where
  \<comment> \<open>a decoder opened on a coded body reads the plain one, for zstd when the frame asks for no more than the permitted window\<close>
  "decoders_undo ds content need enc \<longleftrightarrow>
     (\<forall>a window r x. isSupportedAlgorithm a \<and> content r = enc a x \<and> (\<forall>w. window = Some w \<longrightarrow> need (enc a x) \<le> w)
        \<longrightarrow> (\<exists>r'. dec_new ds a window r = Some r' \<and> content r' = x))"

lemma windows_fit_append:
  "windows_fit need window enc (as @ [a]) body \<longleftrightarrow> windows_fit need window enc as body
     \<and> (a = AlgorithmZstd \<longrightarrow> need (enc a (foldl (\<lambda>b a. enc a b) body as)) \<le> window)"
  by (induction as arbitrary: body) auto

lemma newDecoder_undoes:
  assumes "decoders_undo ds content need enc" "isSupportedAlgorithm a" "content r = enc a x"
    "a = AlgorithmZstd \<longrightarrow> need (enc a x) \<le> zstd_decoder_window (zstd_MinWindowSize ds) limit"
  shows "\<exists>r'. newDecoderForAlgorithm ds r a limit = Some r' \<and> content r' = x"
proof (cases "a = AlgorithmZstd")
  case True
  have "\<exists>r'. dec_new ds a (Some (zstd_decoder_window (zstd_MinWindowSize ds) limit)) r = Some r' \<and> content r' = x"
    using assms True unfolding decoders_undo_def by simp
  with True show ?thesis by (simp add: newDecoderForAlgorithm_def)
next
  case False
  have "\<exists>r'. dec_new ds a None r = Some r' \<and> content r' = x" using assms(1-3) unfolding decoders_undo_def by simp
  moreover have "a \<in> {AlgorithmS2, AlgorithmSnappy, AlgorithmBrotli, AlgorithmDeflate, AlgorithmGzip}"
    using assms(2) False by (auto simp: isSupportedAlgorithm_def)
  ultimately show ?thesis using False by (simp add: newDecoderForAlgorithm_def)
qed

lemma stack_undoes:
  assumes "decoders_undo ds content need enc"
  shows "\<lbrakk>list_all isSupportedAlgorithm as; windows_fit need (zstd_decoder_window (zstd_MinWindowSize ds) limit) enc as body;
      content r = foldl (\<lambda>b a. enc a b) body as\<rbrakk> \<Longrightarrow> \<exists>r'. stack_decoders ds limit (rev as) r = Some r' \<and> content r' = body"
proof (induction as arbitrary: r rule: rev_induct)
  case (snoc a as)
  obtain r1 where r1: "newDecoderForAlgorithm ds r a limit = Some r1" "content r1 = foldl (\<lambda>b a. enc a b) body as"
    using newDecoder_undoes [OF assms, of a r "foldl (\<lambda>b a. enc a b) body as" limit] snoc.prems by (auto simp: windows_fit_append)
  with snoc.IH [of r1] snoc.prems show ?case by (simp add: windows_fit_append)
qed simp

section \<open>Properties\<close>

text \<open>C14: However a handler mixes header changes, status, writes and flushes, closing the writer delivers exactly one response: the refusal 406
  when the negotiation fails, and otherwise the status the handler asked for with a body that is the written bytes, or, when it
  is coded, is announced as coded in an algorithm the client accepts and the configuration allows, and decodes to the written bytes.\<close>

theorem response_delivered:
  assumes "reliable c" "lossless c dec" "o_request opt \<noteq> None"
  shows "\<exists>w. Close c (run_ops c ops (NewHTTPResponseWriter h opt)) = Some (None, w) \<and> delivered dec (written ops) (requested_status ops) w"
  using Close_delivers [OF assms(1,2) run_ops_inv [OF assms(1) new_inv [OF assms(3)], of ops]]
  by (auto simp: requested_status_def)

text \<open>A response without a body by its status, such as 304, is replaced by a 406 with a body when the client refuses the plain content,
  although the negotiation itself accepts such responses.\<close>

lemma empty_response_refused:
  assumes "o_request opt = Some r" "\<not> IdentityAcceptable (str_join '','' (rq_header r ''Accept-Encoding''))"
    "bodyless_status st" "200 \<le> st"
  shows "\<exists>w h'. Close c (run_ops c [OpWriteHeader st] (NewHTTPResponseWriter h opt)) = Some (None, w)
    \<and> w_wire w = [Head 406 h', Body not_acceptable_text]"
proof -
  let ?w = "(NewHTTPResponseWriter h opt)\<lparr>w_statusSet := True, w_status := st\<rparr>"
  let ?v = "?w\<lparr>w_closed := True\<rparr>"
  have run: "run_ops c [OpWriteHeader st] (NewHTTPResponseWriter h opt) = ?w"
    using assms(4) by (simp add: run_ops_def run_op_def WriteHeader_def NewHTTPResponseWriter_def)
  have "Close c ?w = Some (None, sendNotAcceptable (?v\<lparr>w_negotiationFailed := True\<rparr>))"
    using assms(1-3) by (simp add: Close_def Let_def NewHTTPResponseWriter_def default_status_def selectAlgorithm_def no_algorithm)
  then show ?thesis unfolding run
    by (simp add: sendNotAcceptable_def Let_def NewHTTPResponseWriter_def send_def)
qed

text \<open>C37: Decoding undoes a stack of codings. For every list of supported codings, a body coded with them in turn and labelled with
  them in that order gets a decoder, provided every zstd layer asks for a window of at most the one \<open>newZstdDecoder\<close> permits: the
  size limit when there is one, between the smallest window of the library and 32 MiB. Reading it through the limited reader in any
  sufficiently many non-empty buffers gives the original and the end when there is no limit or the original keeps it, and
  otherwise the bytes up to the limit and the limit error. The codecs are assumed to undo their codings within the
  permitted window and to read without failing or stalling.\<close>

theorem stacked_codings_decoded:
  assumes "list_all isSupportedAlgorithm as" "reads_on (dec_read ds) content" "decoders_undo ds content need enc"
    and "windows_fit need (zstd_decoder_window (zstd_MinWindowSize ds) limit) enc as body"
    and "content source = foldl (\<lambda>b a. enc a b) body as"
  shows "\<exists>d r. NewDecoder ds (Some source) (str_join '', '' as) limit = Inr (d, r)
    \<and> (\<forall>rooms. list_all ((<) 0) rooms \<and> length body < length rooms \<longrightarrow>
         read_run (dec_read ds) rooms d r =
           (if limit > 0 \<and> int (length body) > limit then (take (nat limit) body, Some ErrDecodedSizeLimit) else (body, Some ReadEOF)))"
proof -
  obtain r where r: "stack_decoders ds limit (rev as) source = Some r" "content r = body"
    using stack_undoes [OF assms(3,1,4,5)] by blast
  then show ?thesis
    using read_run_exact [OF assms(2), of _ r "\<lparr>d_open = True, d_limit = limit, d_decoded = 0\<rparr>"]
    by (simp add: NewDecoder_def ParseContentEncoding_read_back [OF assms(1)])
qed

text \<open>C38: Reading a decoded body in buffers of any sizes never hands out more than the limit, hands out the content in order, reports
  the end only when all of it was handed out, and the limit only when the content exceeds it.\<close>

theorem decoded_size_bounded:
  assumes "reads_from below content" "d_limit d > 0" "0 \<le> d_decoded d" "d_decoded d \<le> d_limit d"
    "read_run below rooms d r = (out, e)"
  shows "d_decoded d + int (length out) \<le> d_limit d \<and> prefix out (content r) \<and> (e = Some ReadEOF \<longrightarrow> out = content r)
    \<and> (e = Some ErrDecodedSizeLimit \<longrightarrow> d_decoded d + int (length (content r)) > d_limit d)"
  using assms(2-)
proof (induction rooms arbitrary: d r out)
  case (Cons room rooms)
  obtain o1 e1 d1 r1 where rd: "Read below room d r = (o1, e1, d1, r1)" by (metis prod_cases4)
  note R = Read_within [OF assms(1) Cons.prems(1-3) rd]
  show ?case
  proof (cases e1)
    case None
    then have c: "o1 @ content r1 = content r" using R by simp
    obtain o2 where o2: "read_run below rooms d1 r1 = (o2, e)" "out = o1 @ o2" using Cons.prems(4) rd None by (auto split: prod.splits)
    have "d_limit d1 > 0" "0 \<le> d_decoded d1" "d_decoded d1 \<le> d_limit d1" using R Cons.prems by auto
    from Cons.IH [OF this o2(1)] show ?thesis using R o2(2) by (auto simp: c [symmetric])
  next
    case (Some x)
    then have o: "out = o1" "e = Some x" using Cons.prems(4) rd by simp_all
    show ?thesis
    proof (cases "x = ErrDecodedSizeLimit")
      case True
      then show ?thesis using R Some o Cons.prems by auto
    next
      case False
      then have c: "o1 @ content r1 = content r" using R Some by simp
      then have "prefix o1 (content r)" by (metis prefixI)
      then show ?thesis using R Some o False c by auto
    qed
  qed
qed (auto simp: Cons_eq_append_conv)

section \<open>Witnesses\<close>

definition test_codec :: "bytes codec" where
  "test_codec = \<lparr>enc_new = (\<lambda>a level window. Some []), enc_write = (\<lambda>e p. (e @ p, [], length p, True)), enc_flush = (\<lambda>e. None),
     enc_close = (\<lambda>e. (rev e, True)), raw_write = (\<lambda>sent p. (length p, True))\<rparr>"

definition test_decoder :: "Algorithm \<Rightarrow> bytes \<Rightarrow> bytes option" where
  "test_decoder a b = Some (rev b)"

lemma test_stream: "stream test_codec a e i out \<Longrightarrow> e = i \<and> out = []"
  by (induction rule: stream.induct) (auto simp: test_codec_def)

lemma test_codec_ok: "reliable test_codec" "lossless test_codec test_decoder"
proof -
  show "reliable test_codec" by (simp add: reliable_def test_codec_def)
  have "test_decoder a (out @ fst (enc_close test_codec e)) = Some i" if "stream test_codec a e i out" for a e i out
    using test_stream [OF that] by (simp add: test_decoder_def) (simp add: test_codec_def)
  then show "lossless test_codec test_decoder" by (simp add: lossless_def)
qed

definition test_request :: http_request where
  "test_request = \<lparr>rq_method = ''GET'', rq_proto = ''HTTP/1.1'', rq_header = (\<lambda>k. if k = ''Accept-Encoding'' then [''gzip, br;q=0.5''] else [])\<rparr>"

definition test_options :: response_options where
  "test_options = \<lparr>o_request = Some test_request, o_level = 0, o_enabled = True, o_minSize = 4, o_allowed = None\<rparr>"

definition test_header :: http_header where
  "test_header = (\<lambda>k. if k = ''Content-Type'' then [''text/html''] else [])"

definition test_ops :: "writer_op list" where
  "test_ops = [OpWriteHeader 201, OpWrite ''ab'', OpWrite ''cde'', OpFlush True, OpWrite ''f'']"

lemma response_delivered_witness:
  "\<exists>w. Close test_codec (run_ops test_codec test_ops (NewHTTPResponseWriter test_header test_options)) = Some (None, w)
     \<and> delivered test_decoder ''abcdef'' 201 w"
proof -
  have "o_request test_options \<noteq> None" by (simp add: test_options_def)
  from response_delivered [OF test_codec_ok this, of test_ops test_header] show ?thesis
    by (simp add: test_ops_def written_def op_bytes_def requested_status_def requested_def)
qed

lemma test_response_coded:
  "map_option (\<lambda>(e, w). (w_algorithm w, concat (map (\<lambda>x. case x of Body b \<Rightarrow> b | _ \<Rightarrow> []) (w_wire w))))
     (Close test_codec (run_ops test_codec test_ops (NewHTTPResponseWriter test_header test_options)))
   = Some (AlgorithmBrotli, ''fedcba'')"
  by code_simp

definition picky_request :: http_request where
  "picky_request = test_request\<lparr>rq_header := (\<lambda>k. if k = ''Accept-Encoding'' then [''gzip, identity;q=0''] else [])\<rparr>"

lemma empty_response_refused_example:
  "\<exists>w h'. Close test_codec (run_ops test_codec [OpWriteHeader 304] (NewHTTPResponseWriter test_header (test_options\<lparr>o_request := Some picky_request\<rparr>)))
       = Some (None, w) \<and> w_wire w = [Head 406 h', Body not_acceptable_text]"
proof (rule empty_response_refused)
  show "o_request (test_options\<lparr>o_request := Some picky_request\<rparr>) = Some picky_request" by simp
  show "\<not> IdentityAcceptable (str_join '','' (rq_header picky_request ''Accept-Encoding''))" by code_simp
qed (simp_all add: bodyless_status_def)

definition test_reader :: "nat \<Rightarrow> bytes \<Rightarrow> bytes \<times> read_error option \<times> bytes" where
  "test_reader room r = (if r = [] then ([], Some ReadEOF, []) else (take room r, None, drop room r))"

definition test_decoders :: "bytes decoders" where
  \<comment> \<open>reversing stands for every coding; a zstd body needs a window of its length\<close>
  "test_decoders = \<lparr>zstd_MinWindowSize = 4, dec_new = (\<lambda>a window r. case window of
      Some w \<Rightarrow> if int (length r) \<le> w then Some (rev r) else None | None \<Rightarrow> Some (rev r)), dec_read = test_reader\<rparr>"

lemma test_decoders_ok:
  "reads_on (dec_read test_decoders) id" "decoders_undo test_decoders id (\<lambda>x. int (length x)) (\<lambda>a. rev)"
  by (simp_all add: reads_on_def reads_from_def test_decoders_def test_reader_def decoders_undo_def split: option.split)

lemma stacked_codings_decoded_witness:
  "\<exists>d r. NewDecoder test_decoders (Some ''abc'') (str_join '', '' [AlgorithmZstd, AlgorithmGzip]) 3 = Inr (d, r)
     \<and> read_run (dec_read test_decoders) [2, 5, 1, 1] d r = (''abc'', Some ReadEOF)"
proof -
  have "\<exists>d r. NewDecoder test_decoders (Some ''abc'') (str_join '', '' [AlgorithmZstd, AlgorithmGzip]) 3 = Inr (d, r)
     \<and> (\<forall>rooms. list_all ((<) 0) rooms \<and> length ''abc'' < length rooms \<longrightarrow>
         read_run (dec_read test_decoders) rooms d r =
           (if (3 :: int) > 0 \<and> int (length ''abc'') > 3 then (take (nat 3) ''abc'', Some ErrDecodedSizeLimit) else (''abc'', Some ReadEOF)))"
    by (rule stacked_codings_decoded [OF _ test_decoders_ok])
       (simp_all add: isSupportedAlgorithm_def zstd_decoder_window_def test_decoders_def zstd_window_max_def)
  then obtain d r where dr: "NewDecoder test_decoders (Some ''abc'') (str_join '', '' [AlgorithmZstd, AlgorithmGzip]) 3 = Inr (d, r)"
    and all: "\<forall>rooms. list_all ((<) 0) rooms \<and> length ''abc'' < length rooms \<longrightarrow>
         read_run (dec_read test_decoders) rooms d r =
           (if (3 :: int) > 0 \<and> int (length ''abc'') > 3 then (take (nat 3) ''abc'', Some ErrDecodedSizeLimit) else (''abc'', Some ReadEOF))"
    by blast
  from spec [OF all, of "[2, 5, 1, 1]"] dr show ?thesis by simp
qed

lemma decoded_size_bounded_witness:
  "read_run test_reader [2, 2, 2] \<lparr>d_open = True, d_limit = 3, d_decoded = 0\<rparr> ''abcd'' = (''abc'', Some ErrDecodedSizeLimit)
     \<and> 0 + int (length ''abcd'') > (3 :: int)"
proof
  show run: "read_run test_reader [2, 2, 2] \<lparr>d_open = True, d_limit = 3, d_decoded = 0\<rparr> ''abcd'' = (''abc'', Some ErrDecodedSizeLimit)"
    by code_simp
  have "reads_from test_reader id" by (simp add: reads_from_def test_reader_def)
  from decoded_size_bounded [OF this _ _ _ run] show "0 + int (length ''abcd'') > (3 :: int)" by simp
qed

end
