(* ===== verification/Lifecycle_Files.thy ===== *)
theory Lifecycle_Files
  imports Go_Prelude "HOL-Library.List_Lexorder" "HOL-Library.Char_ord" "HOL-Library.Word"
begin

text \<open>
  The files of the panel's lifecycle (\<open>service/lifecycle.go\<close>): the register of
  background operations \<open>operations-v1.json\<close> and the state of a removal \<open>uninstall-v1.json\<close>. The build for
  Linux is modelled: the branches for other systems return at once.

  A file holds a value, is absent or holds something that does not parse; writing and reading back JSON
  returns the value. Every access takes the lock of the files, reads, and replaces the file by a rename, and
  each of these may fail (\<open>file_io\<close>); a failure after the rename has happened leaves the new
  content and reports an error all the same. Instants are nanoseconds, recorded times are seconds.
\<close>

section \<open>Files\<close>

datatype lifecycle_error =
    LockFailed | ReadFailed | ParseFailed | VersionUnsupported int | WriteFailed
  | RecordIncomplete | OperationUnknown string | KindEmpty | NoRandomness
  | QuiesceRunning | UninstallUnfinished | ManifestUnreadable
  | HandingOver string | OperationRunning string | StateUnknown string | StaleKept string
  | ReservationEmpty | ReservationTaken | IdentityUnknown | TerminateFailed | NotExited string

datatype 'a json_file = Absent | Unparsable | Holds 'a

datatype write_outcome = Replaced | NotReplaced | ReplacedUnsynced

record file_io =
  lock_ok :: bool
  read_ok :: bool
  written :: write_outcome

definition writeKworLifecycleJSON :: "file_io \<Rightarrow> 'a \<Rightarrow> 'a json_file \<Rightarrow> lifecycle_error option \<times> 'a json_file" where
  "writeKworLifecycleJSON io v f =
     (case written io of
        Replaced \<Rightarrow> (None, Holds v)
      | NotReplaced \<Rightarrow> (Some WriteFailed, f)
      | ReplacedUnsynced \<Rightarrow> (Some WriteFailed, Holds v))"

definition unix_seconds :: "int \<Rightarrow> int" where
  "unix_seconds t = t div 1000000000"

definition from_unix :: "int \<Rightarrow> int" where
  "from_unix sec = sec * 1000000000"

definition kworLifecycleStateVersion :: int where
  "kworLifecycleStateVersion = 1"

definition kworUninstallStartupGrace :: int where
  "kworUninstallStartupGrace = 30 * 1000000000"

section \<open>The register of operations\<close>

record KworManagedOperationRecord =
  op_ID :: string
  op_Kind :: string
  op_PID :: int
  op_PGID :: int
  op_ProcessStartTime :: "64 word"
  op_Unit :: string
  op_BlockNewWork :: bool
  op_BlockingSince :: int
  op_StartedAt :: int

record kworManagedOperationsFile =
  of_Version :: int
  Operations :: "KworManagedOperationRecord list"

type_synonym operations_json = "kworManagedOperationsFile json_file"

definition trim_record :: "KworManagedOperationRecord \<Rightarrow> KworManagedOperationRecord" where
  "trim_record r = r\<lparr>op_ID := trim_space (op_ID r), op_Kind := trim_space (op_Kind r), op_Unit := trim_space (op_Unit r)\<rparr>"

fun keep_first_records :: "string list \<Rightarrow> KworManagedOperationRecord list \<Rightarrow> KworManagedOperationRecord list" where
  "keep_first_records seen [] = []"
| "keep_first_records seen (record # records) =
     (let r = trim_record record
      in if op_ID r = [] \<or> op_Kind r = [] then keep_first_records seen records
         else if op_ID r \<in> set seen then keep_first_records seen records
         else r # keep_first_records (op_ID r # seen) records)"

definition normalizeKworManagedOperations :: "KworManagedOperationRecord list \<Rightarrow> KworManagedOperationRecord list" where
  "normalizeKworManagedOperations records = sort_key op_ID (keep_first_records [] records)"

definition loadKworManagedOperationsLocked :: "file_io \<Rightarrow> operations_json \<Rightarrow> lifecycle_error + kworManagedOperationsFile" where
  "loadKworManagedOperationsLocked io f =
     (if \<not> read_ok io then Inl ReadFailed
      else case f of
        Absent \<Rightarrow> Inr \<lparr>of_Version = kworLifecycleStateVersion, Operations = []\<rparr>
      | Unparsable \<Rightarrow> Inl ParseFailed
      | Holds v \<Rightarrow>
          if of_Version v \<noteq> kworLifecycleStateVersion then Inl (VersionUnsupported (of_Version v))
          else Inr (v\<lparr>Operations := normalizeKworManagedOperations (Operations v)\<rparr>))"

definition saveKworManagedOperationsLocked ::
    "file_io \<Rightarrow> kworManagedOperationsFile \<Rightarrow> operations_json \<Rightarrow> lifecycle_error option \<times> operations_json" where
  "saveKworManagedOperationsLocked io v f =
     writeKworLifecycleJSON io
       (v\<lparr>of_Version := kworLifecycleStateVersion, Operations := normalizeKworManagedOperations (Operations v)\<rparr>) f"

definition loadKworManagedOperations :: "file_io \<Rightarrow> operations_json \<Rightarrow> lifecycle_error + KworManagedOperationRecord list" where
  "loadKworManagedOperations io f =
     (if \<not> lock_ok io then Inl LockFailed
      else case loadKworManagedOperationsLocked io f of Inl e \<Rightarrow> Inl e | Inr v \<Rightarrow> Inr (Operations v))"

text \<open>The index loops change the first record with the identifier.\<close>

fun change_first :: "string \<Rightarrow> (KworManagedOperationRecord \<Rightarrow> KworManagedOperationRecord) \<Rightarrow>
    KworManagedOperationRecord list \<Rightarrow> KworManagedOperationRecord list option" where
  "change_first i f [] = None"
| "change_first i f (r # rs) =
     (if op_ID r = i then Some (f r # rs) else case change_first i f rs of None \<Rightarrow> None | Some rs' \<Rightarrow> Some (r # rs'))"

definition upsertKworManagedOperation ::
    "file_io \<Rightarrow> KworManagedOperationRecord \<Rightarrow> operations_json \<Rightarrow> lifecycle_error option \<times> operations_json" where
  "upsertKworManagedOperation io record f =
     (let r = record\<lparr>op_ID := trim_space (op_ID record), op_Kind := trim_space (op_Kind record)\<rparr>
      in if op_ID r = [] \<or> op_Kind r = [] then (Some RecordIncomplete, f)
         else if \<not> lock_ok io then (Some LockFailed, f)
         else case loadKworManagedOperationsLocked io f of
           Inl e \<Rightarrow> (Some e, f)
         | Inr v \<Rightarrow>
             (case change_first (op_ID r) (\<lambda>_. r) (Operations v) of
                Some ops \<Rightarrow> saveKworManagedOperationsLocked io (v\<lparr>Operations := ops\<rparr>) f
              | None \<Rightarrow> saveKworManagedOperationsLocked io (v\<lparr>Operations := Operations v @ [r]\<rparr>) f))"

definition updateKworManagedOperation ::
    "file_io \<Rightarrow> string \<Rightarrow> (KworManagedOperationRecord \<Rightarrow> KworManagedOperationRecord) \<Rightarrow> operations_json \<Rightarrow>
     lifecycle_error option \<times> operations_json" where
  "updateKworManagedOperation io ident update f =
     (let i = trim_space ident
      in if i = [] then (None, f)
         else if \<not> lock_ok io then (Some LockFailed, f)
         else case loadKworManagedOperationsLocked io f of
           Inl e \<Rightarrow> (Some e, f)
         | Inr v \<Rightarrow>
             (case change_first i update (Operations v) of
                Some ops \<Rightarrow> saveKworManagedOperationsLocked io (v\<lparr>Operations := ops\<rparr>) f
              | None \<Rightarrow> (Some (OperationUnknown i), f)))"

definition removeKworManagedOperation :: "file_io \<Rightarrow> string \<Rightarrow> operations_json \<Rightarrow> lifecycle_error option \<times> operations_json" where
  "removeKworManagedOperation io ident f =
     (let i = trim_space ident
      in if i = [] then (None, f)
         else if \<not> lock_ok io then (Some LockFailed, f)
         else case loadKworManagedOperationsLocked io f of
           Inl e \<Rightarrow> (Some e, f)
         | Inr v \<Rightarrow> saveKworManagedOperationsLocked io (v\<lparr>Operations := filter (\<lambda>r. op_ID r \<noteq> i) (Operations v)\<rparr>) f)"

definition SetSystemdUnit :: "file_io \<Rightarrow> string \<Rightarrow> string \<Rightarrow> operations_json \<Rightarrow> lifecycle_error option \<times> operations_json" where
  \<comment> \<open>of the handle only its identifier matters, here and in the next two\<close>
  "SetSystemdUnit io ident unit f =
     (if trim_space ident = [] then (None, f)
      else updateKworManagedOperation io ident (\<lambda>r. r\<lparr>op_Unit := trim_space unit\<rparr>) f)"

definition SetBlockNewWork :: "file_io \<Rightarrow> int \<Rightarrow> string \<Rightarrow> bool \<Rightarrow> operations_json \<Rightarrow> lifecycle_error option \<times> operations_json" where
  "SetBlockNewWork io now ident block f =
     (if trim_space ident = [] then (None, f)
      else updateKworManagedOperation io ident
             (\<lambda>r. r\<lparr>op_BlockNewWork := block, op_BlockingSince := (if block then unix_seconds now else 0)\<rparr>) f)"

definition managedOperationBlockingGraceActive :: "KworManagedOperationRecord \<Rightarrow> int \<Rightarrow> bool" where
  "managedOperationBlockingGraceActive operation now =
     (if \<not> op_BlockNewWork operation \<or> op_BlockingSince operation \<le> 0 then False
      else now < from_unix (op_BlockingSince operation) + kworUninstallStartupGrace)"

section \<open>The state of a removal\<close>

definition kworUninstallStatusScheduled :: string where
  "kworUninstallStatusScheduled = ''scheduled''"

definition kworUninstallStatusRunning :: string where
  "kworUninstallStatusRunning = ''running''"

definition kworUninstallStatusFailed :: string where
  "kworUninstallStatusFailed = ''failed''"

record KworUninstallLifecycleState =
  us_Version :: int
  us_Status :: string
  us_Phase :: string
  us_Error :: string
  us_Failures :: "string list"
  us_Warnings :: "string list"
  us_BlockNewWork :: bool
  us_ReservationID :: string
  us_WorkerPID :: int
  us_WorkerPGID :: int
  us_WorkerStartTime :: "64 word"
  us_WorkerUnit :: string
  us_UpdatedAt :: int

type_synonym uninstall_json = "KworUninstallLifecycleState json_file"

definition empty_uninstall_state :: KworUninstallLifecycleState where
  "empty_uninstall_state = \<lparr>us_Version = 0, us_Status = [], us_Phase = [], us_Error = [], us_Failures = [], us_Warnings = [],
     us_BlockNewWork = False, us_ReservationID = [], us_WorkerPID = 0, us_WorkerPGID = 0, us_WorkerStartTime = 0,
     us_WorkerUnit = [], us_UpdatedAt = 0\<rparr>"

definition maxMessages :: nat where
  "maxMessages = 32"

fun collect_messages :: "string list \<Rightarrow> string list \<Rightarrow> string list" where
  "collect_messages result [] = result"
| "collect_messages result (raw # values) =
     (let v = trim_space raw
      in if v = [] then collect_messages result values
         else if v \<in> set result then collect_messages result values
         else if length (result @ [v]) = maxMessages then result @ [v]
         else collect_messages (result @ [v]) values)"

definition normalizeKworUninstallMessages :: "string list \<Rightarrow> string list" where
  "normalizeKworUninstallMessages values = collect_messages [] values"

definition loadKworUninstallLifecycleStateLocked ::
    "file_io \<Rightarrow> uninstall_json \<Rightarrow> lifecycle_error + KworUninstallLifecycleState option" where
  "loadKworUninstallLifecycleStateLocked io f =
     (if \<not> read_ok io then Inl ReadFailed
      else case f of
        Absent \<Rightarrow> Inr None
      | Unparsable \<Rightarrow> Inl ParseFailed
      | Holds st \<Rightarrow>
          if us_Version st \<noteq> kworLifecycleStateVersion then Inl (VersionUnsupported (us_Version st))
          else Inr (Some (st\<lparr>us_Status := trim_space (us_Status st), us_Phase := trim_space (us_Phase st),
                 us_Error := trim_space (us_Error st), us_Failures := normalizeKworUninstallMessages (us_Failures st),
                 us_Warnings := normalizeKworUninstallMessages (us_Warnings st),
                 us_ReservationID := trim_space (us_ReservationID st), us_WorkerUnit := trim_space (us_WorkerUnit st)\<rparr>)))"

definition LoadKworUninstallLifecycleState :: "file_io \<Rightarrow> uninstall_json \<Rightarrow> lifecycle_error + KworUninstallLifecycleState option" where
  "LoadKworUninstallLifecycleState io f =
     (if \<not> lock_ok io then Inl LockFailed else loadKworUninstallLifecycleStateLocked io f)"

definition saveKworUninstallLifecycleStateLocked ::
    "file_io \<Rightarrow> int \<Rightarrow> KworUninstallLifecycleState \<Rightarrow> uninstall_json \<Rightarrow> lifecycle_error option \<times> uninstall_json" where
  "saveKworUninstallLifecycleStateLocked io now st f =
     writeKworLifecycleJSON io (st\<lparr>us_Version := kworLifecycleStateVersion, us_UpdatedAt := unix_seconds now\<rparr>) f"

definition updateKworUninstallLifecycleState ::
    "file_io \<Rightarrow> int \<Rightarrow> (KworUninstallLifecycleState \<Rightarrow> KworUninstallLifecycleState) \<Rightarrow> uninstall_json \<Rightarrow>
     lifecycle_error option \<times> uninstall_json" where
  "updateKworUninstallLifecycleState io now update f =
     (if \<not> lock_ok io then (Some LockFailed, f)
      else case loadKworUninstallLifecycleStateLocked io f of
        Inl e \<Rightarrow> (Some e, f)
      | Inr loaded \<Rightarrow>
          let st = (case loaded of Some st \<Rightarrow> st | None \<Rightarrow> empty_uninstall_state\<lparr>us_Version := kworLifecycleStateVersion\<rparr>)
          in saveKworUninstallLifecycleStateLocked io now (update st) f)"

definition lifecycleStateBlocksNewWork :: "KworUninstallLifecycleState \<Rightarrow> bool" where
  "lifecycleStateBlocksNewWork st =
     (if us_BlockNewWork st then True
      else us_Status st = kworUninstallStatusScheduled \<or> us_Status st = kworUninstallStatusRunning)"

definition lifecycleUninstallTakeoverBlocked :: "KworUninstallLifecycleState \<Rightarrow> int \<Rightarrow> bool \<Rightarrow> bool" where
  "lifecycleUninstallTakeoverBlocked st now workerAlive =
     (if us_Status st = kworUninstallStatusScheduled then
        (if workerAlive then True
         else if us_UpdatedAt st \<le> 0 then False
         else now < from_unix (us_UpdatedAt st) + kworUninstallStartupGrace)
      else if us_Status st = kworUninstallStatusRunning then workerAlive
      else if us_Status st = kworUninstallStatusFailed then us_BlockNewWork st \<and> workerAlive
      else False)"

end
