(* ===== verification/Unit_Identity.thy ===== *)
theory Unit_Identity
  imports Lifecycle_Files
begin

text \<open>
  The check that a systemd unit runs an update of this panel (\<open>verifyKworPanelUpdateSystemdUnit\<close> of
  \<open>service/lifecycle_linux.go\<close> with the checks of paths in \<open>service/panel_update.go\<close>): its name, the operation
  token in its environment, the script it starts and its working directory. What \<open>systemctl show\<close> prints, the
  regular files and the directory for temporary files are the parameter \<open>unit_host\<close>.

  The lemmas show what a positive answer means: either systemd does not know the unit, or the unit starts a script with
  the mark of the panel in a workspace of its own.
\<close>

section \<open>Paths\<close>

fun clean_step :: "bool \<Rightarrow> string list \<Rightarrow> string \<Rightarrow> string list" where
  \<comment> \<open>one element of a path; the kept ones are in reverse\<close>
  "clean_step rooted out e =
     (if e = [] \<or> e = ''.'' then out
      else if e = ''..'' then (if out \<noteq> [] \<and> hd out \<noteq> ''..'' then tl out else if rooted then out else e # out)
      else e # out)"

definition path_clean :: "string \<Rightarrow> string" where
  \<comment> \<open>\<open>filepath.Clean\<close>\<close>
  "path_clean p =
     (let rooted = has_prefix p ''/''; out = rev (foldl (clean_step rooted) [] (split_on (CHR ''/'') p))
      in if rooted then ''/'' @ str_join ''/'' out else if out = [] then ''.'' else str_join ''/'' out)"

definition path_dir :: "string \<Rightarrow> string" where
  \<comment> \<open>\<open>filepath.Dir\<close>\<close>
  "path_dir p = path_clean (rev (dropWhile (\<lambda>c. c \<noteq> CHR ''/'') (rev p)))"

definition path_base :: "string \<Rightarrow> string" where
  \<comment> \<open>\<open>filepath.Base\<close>\<close>
  "path_base p =
     (if p = [] then ''.''
      else let body = rev (dropWhile (\<lambda>c. c = CHR ''/'') (rev p))
           in if body = [] then ''/'' else rev (takeWhile (\<lambda>c. c \<noteq> CHR ''/'') (rev body)))"

section \<open>The workspace of an update\<close>

datatype unit_show = ShowFailed string | ShowText string  \<comment> \<open>the output and the text of the error, or the output\<close>

record unit_host =
  systemctl_show :: "string \<Rightarrow> unit_show"
  regular_file :: "string \<Rightarrow> string option"  \<comment> \<open>the content of a readable regular file that is no link\<close>
  temp_dir :: string  \<comment> \<open>\<open>os.TempDir\<close>\<close>

definition panelUpdateWorkspaceMarkerContent :: string where
  "panelUpdateWorkspaceMarkerContent = ''kwor-owner:v1 resource=panel-update-workspace'' @ [CHR 0x0A]"

definition panelUpdateWorkspacePathStrict :: "'a unit_host_scheme \<Rightarrow> string \<Rightarrow> bool" where
  "panelUpdateWorkspacePathStrict h path0 =
     (let path = path_clean (trim_space path0)
      in if path = [] \<or> path = ''.'' \<or> path = ''/'' then False
         else let base = path_base path
              in if \<not> has_prefix base ''kwor-panel-update-'' \<or> length base = length ''kwor-panel-update-'' then False
                 else let parent = path_clean (path_dir path)
                      in parent = path_clean (temp_dir h) \<or> parent = path_clean ''/tmp'')"

definition panelUpdateWorkspaceScriptOwned :: "'a unit_host_scheme \<Rightarrow> string \<Rightarrow> bool" where
  "panelUpdateWorkspaceScriptOwned h scriptPath0 =
     (let scriptPath = path_clean (trim_space scriptPath0)
      in if path_base scriptPath \<noteq> ''apply-update.sh'' \<or> \<not> panelUpdateWorkspacePathStrict h (path_dir scriptPath) then False
         else case regular_file h scriptPath of
                None \<Rightarrow> False
              | Some raw \<Rightarrow> str_contains raw (''# '' @ trim_space panelUpdateWorkspaceMarkerContent))"

section \<open>The script in a command\<close>

text \<open>
  \<open>panelUpdateScriptPathPattern\<close>: an absolute path that ends in \<open>apply-update.sh\<close>, at the start or after a
  delimiter, and followed by the end or a delimiter. No character of a path is a delimiter, so the path at a position is
  the longest run of path characters there.
\<close>

definition regexp_space :: "char set" where
  "regexp_space = {CHR 0x09, CHR 0x0A, CHR 0x0C, CHR 0x0D, CHR '' ''}"

definition script_opener :: "char \<Rightarrow> bool" where
  "script_opener c \<longleftrightarrow> c \<in> regexp_space \<union> {CHR 0x22, CHR 0x27, CHR ''='', CHR '';'', CHR ''{''}"

definition script_closer :: "char \<Rightarrow> bool" where
  "script_closer c \<longleftrightarrow> c \<in> regexp_space \<union> {CHR 0x22, CHR 0x27, CHR '';'', CHR ''}''}"

definition script_char :: "char \<Rightarrow> bool" where
  "script_char c \<longleftrightarrow> c \<notin> regexp_space \<union> {CHR 0x22, CHR 0x27, CHR ''='', CHR '';'', CHR ''{'', CHR ''}''}"

definition script_at :: "string \<Rightarrow> string option" where
  "script_at s =
     (let run = takeWhile script_char s; rest = dropWhile script_char s; parts = split_on (CHR ''/'') run
      in if 3 \<le> length parts \<and> hd parts = [] \<and> [] \<notin> set (tl parts) \<and> last parts = ''apply-update.sh''
            \<and> (rest = [] \<or> script_closer (hd rest))
         then Some run else None)"

fun script_after :: "string \<Rightarrow> string option" where
  "script_after [] = None"
| "script_after (c # s) =
     (case (if script_opener c then script_at s else None) of Some p \<Rightarrow> Some p | None \<Rightarrow> script_after s)"

definition panelUpdateScriptPathFromCommandText :: "'a unit_host_scheme \<Rightarrow> string \<Rightarrow> string" where
  "panelUpdateScriptPathFromCommandText h command =
     (case (case script_at command of Some p \<Rightarrow> Some p | None \<Rightarrow> script_after command) of
        None \<Rightarrow> []
      | Some m \<Rightarrow>
          (let path = path_clean (trim_space m)
           in if \<not> panelUpdateWorkspacePathStrict h (path_dir path) \<or> path_base path \<noteq> ''apply-update.sh'' then [] else path))"

section \<open>The unit\<close>

definition unit_name_ok :: "string \<Rightarrow> bool" where
  \<comment> \<open>\<open>panelUpdateSystemdUnitNamePattern\<close>\<close>
  "unit_name_ok u \<longleftrightarrow> has_prefix u ''kwor-panel-update-''
     \<and> (let rest = drop (length ''kwor-panel-update-'') u
        in takeWhile is_digit rest \<noteq> [] \<and> (dropWhile is_digit rest = [] \<or> dropWhile is_digit rest = ''.service''))"

definition unit_line :: "string \<Rightarrow> (string \<times> string) option" where
  \<comment> \<open>\<open>strings.Cut(strings.TrimSpace(line), "=")\<close>\<close>
  "unit_line line =
     (case split_n2 (CHR ''='') (trim_space line) of [k, v] \<Rightarrow> Some (k, trim_space v) | _ \<Rightarrow> None)"

definition unit_value :: "string \<Rightarrow> string \<Rightarrow> string" where
  \<comment> \<open>the map \<open>values\<close>: the last line of a key counts\<close>
  "unit_value output key =
     (case map_of (rev (List.map_filter unit_line (split_on (CHR 0x0A) output))) key of Some v \<Rightarrow> v | None \<Rightarrow> [])"

definition trim_quotes :: "string \<Rightarrow> string" where
  "trim_quotes s =
     (let quote = (\<lambda>c. c = CHR 0x22 \<or> c = CHR 0x27) in rev (dropWhile quote (rev (dropWhile quote s))))"

definition unit_has_token :: "string \<Rightarrow> string \<Rightarrow> bool" where
  "unit_has_token output operationID \<longleftrightarrow>
     ''KWOR_LIFECYCLE_OPERATION_ID='' @ trim_space operationID \<in> set (map trim_quotes (str_fields (unit_value output ''Environment'')))"

definition verifyKworPanelUpdateSystemdUnit :: "'a unit_host_scheme \<Rightarrow> string \<Rightarrow> string \<Rightarrow> bool \<Rightarrow> bool option" where
  \<comment> \<open>\<open>None\<close>: the error of \<open>systemctl\<close>\<close>
  "verifyKworPanelUpdateSystemdUnit h unit0 operationID requireToken =
     (let unit = trim_space unit0
      in if \<not> unit_name_ok unit then Some False
         else case systemctl_show h unit of
                ShowFailed t \<Rightarrow>
                  (if str_contains (to_lower t) ''not found'' \<or> str_contains (to_lower t) ''not loaded'' then Some True else None)
              | ShowText output \<Rightarrow>
                  (if equal_fold (unit_value output ''LoadState'') ''not-found'' then Some True
                   else let hasToken = unit_has_token output operationID;
                            scriptPath = panelUpdateScriptPathFromCommandText h (unit_value output ''ExecStart'');
                            workingDirectory = path_clean (trim_space (unit_value output ''WorkingDirectory''))
                        in if requireToken \<and> \<not> hasToken then Some False
                           else if scriptPath = [] \<or> \<not> panelUpdateWorkspaceScriptOwned h scriptPath then Some False
                           else if workingDirectory = [] \<or> workingDirectory = ''.'' \<or> workingDirectory \<noteq> path_dir scriptPath then Some False
                           else Some (hasToken \<or> \<not> requireToken)))"

section \<open>What ownership means\<close>

definition unit_unknown :: "'a unit_host_scheme \<Rightarrow> string \<Rightarrow> bool" where
  \<comment> \<open>systemd does not have the unit\<close>
  "unit_unknown h u = (case systemctl_show h u of
     ShowFailed t \<Rightarrow> str_contains (to_lower t) ''not found'' \<or> str_contains (to_lower t) ''not loaded''
   | ShowText output \<Rightarrow> equal_fold (unit_value output ''LoadState'') ''not-found'')"

definition marked_script :: "'a unit_host_scheme \<Rightarrow> string \<Rightarrow> bool" where
  \<comment> \<open>the script \<open>apply-update.sh\<close> with the mark of the panel, in a workspace for updates\<close>
  "marked_script h path \<longleftrightarrow> path_base path = ''apply-update.sh'' \<and> panelUpdateWorkspacePathStrict h (path_dir path)
     \<and> (\<exists>raw. regular_file h path = Some raw \<and> str_contains raw ''# kwor-owner:v1 resource=panel-update-workspace'')"

definition unit_proven :: "'a unit_host_scheme \<Rightarrow> string \<Rightarrow> string \<Rightarrow> bool \<Rightarrow> bool" where
  "unit_proven h u operationID requireToken \<longleftrightarrow> unit_name_ok u
     \<and> (unit_unknown h u
        \<or> (\<exists>output path. systemctl_show h u = ShowText output \<and> path = panelUpdateScriptPathFromCommandText h (unit_value output ''ExecStart'')
             \<and> path \<noteq> [] \<and> marked_script h (path_clean (trim_space path))
             \<and> path_clean (trim_space (unit_value output ''WorkingDirectory'')) = path_dir path \<and> path_dir path \<noteq> ''.''
             \<and> (requireToken \<longrightarrow> unit_has_token output operationID)))"

lemma marker_text: "trim_space panelUpdateWorkspaceMarkerContent = ''kwor-owner:v1 resource=panel-update-workspace''"
  by code_simp

lemma script_owned: "panelUpdateWorkspaceScriptOwned h p \<longleftrightarrow> marked_script h (path_clean (trim_space p))"
  by (auto simp: panelUpdateWorkspaceScriptOwned_def marked_script_def marker_text Let_def split: option.splits)

lemma path_clean_nonempty: "path_clean p \<noteq> []"
proof -
  define out where "out = rev (foldl (clean_step (has_prefix p ''/'')) [] (split_on (CHR ''/'') p))"
  have step: "[] \<notin> set (foldl (clean_step b) acc es)" if "[] \<notin> set acc" for b acc es
    using that
  proof (induction es arbitrary: acc)
    case (Cons e es)
    have "[] \<notin> set (clean_step b acc e)" using Cons.prems by (cases acc) auto
    then show ?case using Cons.IH by simp
  qed simp
  have ne: "[] \<notin> set out" unfolding out_def set_rev by (rule step) simp
  have "str_join ''/'' out \<noteq> []" if "out \<noteq> []"
    using that ne by (cases out; cases "tl out") auto
  then show ?thesis unfolding path_clean_def Let_def out_def [symmetric] by simp
qed

lemma path_dir_nonempty: "path_dir p \<noteq> []"
  by (simp add: path_dir_def path_clean_nonempty)

lemma verify_unit:
  assumes "trim_space u = u"
  shows "verifyKworPanelUpdateSystemdUnit h u operationID requireToken = Some True \<longleftrightarrow> unit_proven h u operationID requireToken"
proof (cases "systemctl_show h u")
  case (ShowFailed t)
  then show ?thesis by (simp add: verifyKworPanelUpdateSystemdUnit_def unit_proven_def unit_unknown_def assms)
next
  case (ShowText t)
  then show ?thesis
    by (auto simp: verifyKworPanelUpdateSystemdUnit_def unit_proven_def unit_unknown_def assms script_owned Let_def
        path_clean_nonempty path_dir_nonempty)
qed

section \<open>An example\<close>

definition example_unit_host :: unit_host where
  "example_unit_host =
     \<lparr>systemctl_show = (\<lambda>_. ShowText (''LoadState=loaded'' @ [CHR 0x0A] @ ''Environment=A=1 KWOR_LIFECYCLE_OPERATION_ID=up-1'' @ [CHR 0x0A]
         @ ''ExecStart={ path=/bin/bash ; argv[]=/bin/bash /tmp/kwor-panel-update-7/apply-update.sh ; }'' @ [CHR 0x0A]
         @ ''WorkingDirectory=/tmp/kwor-panel-update-7/'')),
      regular_file = (\<lambda>p. if p = ''/tmp/kwor-panel-update-7/apply-update.sh''
         then Some (''#!/bin/sh'' @ [CHR 0x0A] @ ''# kwor-owner:v1 resource=panel-update-workspace'') else None),
      temp_dir = ''/var/tmp''\<rparr>"

lemma example_unit:
  "verifyKworPanelUpdateSystemdUnit example_unit_host ''kwor-panel-update-12.service'' ''up-1'' True = Some True"
  "verifyKworPanelUpdateSystemdUnit example_unit_host ''kwor-panel-update-12.service'' ''up-2'' True = Some False"
  "verifyKworPanelUpdateSystemdUnit example_unit_host ''sshd.service'' ''up-1'' True = Some False"
  by code_simp+

end
