(* ===== verification/Process_Identity.thy ===== *)
theory Process_Identity
  imports Unit_Identity
begin

text \<open>
  The check that a recorded process is still the recorded one, and stopping it (\<open>service/lifecycle_linux.go\<close>).
  A child carries the identifier of its operation in its environment; a process is signalled only while its
  start time and this token match the record. What the kernel and systemd answer is the parameter \<open>host\<close>.
\<close>

section \<open>Identity of processes\<close>

datatype proc_read = ProcAbsent | ProcUnreadable | ProcText string

record host = unit_host +
  proc_stat :: "int \<Rightarrow> proc_read"
  proc_environ :: "int \<Rightarrow> proc_read"
  lifecyclePIDAlive :: "int \<Rightarrow> bool"
  isKworSystemdHost :: bool
  has_systemctl :: bool
  unit_active :: "string \<Rightarrow> bool option"

datatype identity_error = ProcessGone | IdentityUnclear

definition parse_uint64 :: "string \<Rightarrow> nat option" where
  "parse_uint64 s = (case parse_unsigned s of None \<Rightarrow> None | Some n \<Rightarrow> if int n < 2 ^ 64 then Some n else None)"

definition stat_start_time :: "string \<Rightarrow> 64 word option" where
  "stat_start_time raw =
     (if CHR '')'' \<notin> set raw then None
      else let suffix = rev (takeWhile (\<lambda>c. c \<noteq> CHR '')'') (rev raw)) in
        if suffix = [] then None
        else let fs = str_fields suffix in
          if length fs \<le> 19 then None
          else case parse_uint64 (fs ! 19) of
                 None \<Rightarrow> None
               | Some n \<Rightarrow> if n = 0 then None else Some (of_nat n))"

definition kworLifecycleProcessStartTime :: "host \<Rightarrow> int \<Rightarrow> identity_error + 64 word" where
  "kworLifecycleProcessStartTime h pid =
     (if pid \<le> 0 then Inl IdentityUnclear
      else case proc_stat h pid of
        ProcAbsent \<Rightarrow> Inl ProcessGone
      | ProcUnreadable \<Rightarrow> Inl IdentityUnclear
      | ProcText raw \<Rightarrow> (case stat_start_time raw of None \<Rightarrow> Inl IdentityUnclear | Some t \<Rightarrow> Inr t))"

definition kworLifecycleOperationIDEnv :: string where
  "kworLifecycleOperationIDEnv = ''KWOR_LIFECYCLE_OPERATION_ID''"

definition setKworCommandEnvironment :: "string list \<Rightarrow> string \<Rightarrow> string \<Rightarrow> string list" where
  "setKworCommandEnvironment environment name v =
     (let key = trim_space name
      in if key = [] then environment
         else let p = key @ ''='' in filter (\<lambda>entry. \<not> has_prefix entry p) environment @ [p @ v])"

definition kworProcessEnvironmentHasOperationID :: "host \<Rightarrow> int \<Rightarrow> string \<Rightarrow> identity_error + bool" where
  "kworProcessEnvironmentHasOperationID h pid operationID =
     (case proc_environ h pid of
        ProcText raw \<Rightarrow>
          Inr (kworLifecycleOperationIDEnv @ ''='' @ trim_space operationID \<in> set (split_on (CHR 0x00) raw))
      | _ \<Rightarrow> Inl IdentityUnclear)"

definition kworManagedOperationProcessMatches :: "host \<Rightarrow> KworManagedOperationRecord \<Rightarrow> identity_error + bool" where
  "kworManagedOperationProcessMatches h operation =
     (if op_PID operation \<le> 0 then Inr False
      else if op_ProcessStartTime operation = 0 then
        (if lifecyclePIDAlive h (op_PID operation) then Inl IdentityUnclear else Inr False)
      else case kworLifecycleProcessStartTime h (op_PID operation) of
        Inl ProcessGone \<Rightarrow> Inr False
      | Inl IdentityUnclear \<Rightarrow> Inl IdentityUnclear
      | Inr startTime \<Rightarrow>
          (if startTime \<noteq> op_ProcessStartTime operation then Inr False
           else case kworProcessEnvironmentHasOperationID h (op_PID operation) (op_ID operation) of
             Inl e \<Rightarrow> Inl e
           | Inr owned \<Rightarrow> (if owned then Inr True else Inl IdentityUnclear)))"

text \<open>A new child may not show its environment yet, so its identity is asked for until a deadline: one look per attempt.\<close>

fun kworManagedOperationProcessIdentity :: "host list \<Rightarrow> int \<Rightarrow> string \<Rightarrow> 64 word option" where
  "kworManagedOperationProcessIdentity [] pid operationID = None"
| "kworManagedOperationProcessIdentity (h # hs) pid operationID =
     (case kworLifecycleProcessStartTime h pid of
        Inl _ \<Rightarrow> None
      | Inr startTime \<Rightarrow>
          (case kworProcessEnvironmentHasOperationID h pid operationID of
             Inl _ \<Rightarrow> None
           | Inr owned \<Rightarrow> if owned then Some startTime else kworManagedOperationProcessIdentity hs pid operationID))"

definition SetProcess ::
    "file_io \<Rightarrow> host list \<Rightarrow> string \<Rightarrow> int \<Rightarrow> int \<Rightarrow> operations_json \<Rightarrow> lifecycle_error option \<times> operations_json" where
  "SetProcess io hs ident pid pgid f =
     (if trim_space ident = [] then (None, f)
      else case kworManagedOperationProcessIdentity hs pid ident of
        None \<Rightarrow> (Some IdentityUnknown, f)
      | Some startTime \<Rightarrow>
          updateKworManagedOperation io ident (\<lambda>r. r\<lparr>op_PID := pid, op_PGID := pgid, op_ProcessStartTime := startTime\<rparr>) f)"

definition kworManagedOperationAlive :: "host \<Rightarrow> KworManagedOperationRecord \<Rightarrow> identity_error + bool" where
  "kworManagedOperationAlive h operation =
     (let unit = trim_space (op_Unit operation)
      in if unit \<noteq> [] \<and> isKworSystemdHost h then
           (if \<not> has_systemctl h then Inl IdentityUnclear
            else case verifyKworPanelUpdateSystemdUnit h unit (op_ID operation) (trim_space (op_ID operation) \<noteq> []) of
              Some True \<Rightarrow>
                (case unit_active h unit of
                   None \<Rightarrow> Inl IdentityUnclear
                 | Some active \<Rightarrow> if active then Inr True else kworManagedOperationProcessMatches h operation)
            | _ \<Rightarrow> Inl IdentityUnclear)
         else kworManagedOperationProcessMatches h operation)"

text \<open>
  \<open>terminateKworManagedOperation\<close> with what it does to other processes. The host is looked at several times:
  for the unit, after the unit was stopped, before the first signal, while waiting for the exit (a list that
  ends with the last look), before the second signal and while waiting again.
\<close>

datatype unix_signal = SIGTERM | SIGKILL

datatype process_action = StopUnit string | SignalGroup int unix_signal | SignalPID int unix_signal

record terminate_env =
  at_unit :: host
  at_stopped :: host
  at_check :: host
  at_wait :: "host list"
  at_recheck :: host
  at_wait_again :: "host list"
  kill_ok :: "unix_signal \<Rightarrow> bool"  \<comment> \<open>a process that is gone counts as signalled\<close>
  own_group :: int

definition waitKworManagedOperationExit :: "host list \<Rightarrow> KworManagedOperationRecord \<Rightarrow> bool" where
  "waitKworManagedOperationExit hs operation \<longleftrightarrow> list_ex (\<lambda>h. kworManagedOperationProcessMatches h operation = Inr False) hs"

definition signal_twice :: "terminate_env \<Rightarrow> KworManagedOperationRecord \<Rightarrow> (unix_signal \<Rightarrow> process_action) \<Rightarrow>
    bool \<times> process_action list" where
  \<comment> \<open>the ends of the two branches, for a group and for a single process\<close>
  "signal_twice e operation act =
     (if \<not> kill_ok e SIGTERM then (False, [act SIGTERM])
      else if waitKworManagedOperationExit (at_wait e) operation then (True, [act SIGTERM])
      else case kworManagedOperationProcessMatches (at_recheck e) operation of
        Inl _ \<Rightarrow> (False, [act SIGTERM])
      | Inr matches \<Rightarrow>
          if \<not> matches then (True, [act SIGTERM])
          else if \<not> kill_ok e SIGKILL then (False, [act SIGTERM, act SIGKILL])
          else (waitKworManagedOperationExit (at_wait_again e) operation, [act SIGTERM, act SIGKILL]))"

definition signal_process :: "terminate_env \<Rightarrow> KworManagedOperationRecord \<Rightarrow> bool \<times> process_action list" where
  "signal_process e operation =
     (case kworManagedOperationProcessMatches (at_check e) operation of
        Inl _ \<Rightarrow> (False, [])
      | Inr processOwned \<Rightarrow>
          if \<not> processOwned then (True, [])
          else if 0 < op_PGID operation then
            (if op_PGID operation = own_group e then (False, [])
             else signal_twice e operation (SignalGroup (op_PGID operation)))
          else if 0 < op_PID operation then signal_twice e operation (SignalPID (op_PID operation))
          else (True, []))"

definition terminateKworManagedOperation :: "terminate_env \<Rightarrow> KworManagedOperationRecord \<Rightarrow> bool \<times> process_action list" where
  "terminateKworManagedOperation e operation =
     (let unit = trim_space (op_Unit operation)
      in if unit \<noteq> [] \<and> isKworSystemdHost (at_unit e) then
           (if \<not> has_systemctl (at_unit e) then (False, [])
            else case verifyKworPanelUpdateSystemdUnit (at_unit e) unit (op_ID operation) (0 < op_ProcessStartTime operation) of
              Some True \<Rightarrow>
                (case unit_active (at_stopped e) unit of
                   Some False \<Rightarrow> (case signal_process e operation of (ok, acts) \<Rightarrow> (ok, StopUnit unit # acts))
                 | _ \<Rightarrow> (False, [StopUnit unit]))
            | _ \<Rightarrow> (False, []))
         else signal_process e operation)"

end
