(* ===== verification/Uninstall_State.thy ===== *)
theory Uninstall_State
  imports Process_Identity
begin

text \<open>
  Scheduling and reporting the removal of the panel (\<open>service/lifecycle.go\<close>): a caller reserves the removal,
  records the worker it started or that none could be started, and the worker reports its progress. The texts
  of errors handed in are arguments; the message of \<open>taskErr\<close> is \<open>None\<close> for a nil error.
\<close>

section \<open>Is the worker alive\<close>

definition unit_keeps_alive :: "host \<Rightarrow> string \<Rightarrow> bool" where
  "unit_keeps_alive h unit =
     (if trim_space unit = [] then False
      else if \<not> isKworSystemdHost h then False
      else if \<not> has_systemctl h then True
      else case unit_active h unit of None \<Rightarrow> True | Some active \<Rightarrow> active)"

definition lifecycleUninstallWorkerAlive :: "host \<Rightarrow> KworUninstallLifecycleState \<Rightarrow> bool" where
  "lifecycleUninstallWorkerAlive h st =
     (if 0 < us_WorkerPID st
         \<and> (if 0 < us_WorkerStartTime st
             then (case kworLifecycleProcessStartTime h (us_WorkerPID st) of
                     Inr startTime \<Rightarrow> startTime = us_WorkerStartTime st
                   | Inl _ \<Rightarrow> lifecyclePIDAlive h (us_WorkerPID st))
             else lifecyclePIDAlive h (us_WorkerPID st))
      then True else unit_keeps_alive h (us_WorkerUnit st))"

section \<open>Phases\<close>

text \<open>The phases shown to the user, as the bytes of their UTF-8 text.\<close>

definition phase_waiting :: string where
  "phase_waiting =
     [CHR 0xE7, CHR 0xAD, CHR 0x89, CHR 0xE5, CHR 0xBE, CHR 0x85, CHR 0xE7, CHR 0x8B, CHR 0xAC, CHR 0xE7, CHR
      0xAB, CHR 0x8B, CHR 0xE5, CHR 0x8D, CHR 0xB8, CHR 0xE8, CHR 0xBD, CHR 0xBD, CHR 0x20, CHR 0x77, CHR
      0x6F, CHR 0x72, CHR 0x6B, CHR 0x65, CHR 0x72, CHR 0x20, CHR 0xE5, CHR 0x90, CHR 0xAF, CHR 0xE5, CHR
      0x8A, CHR 0xA8]"

definition phase_started :: string where
  "phase_started =
     [CHR 0xE7, CHR 0x8B, CHR 0xAC, CHR 0xE7, CHR 0xAB, CHR 0x8B, CHR 0xE5, CHR 0x8D, CHR 0xB8, CHR 0xE8, CHR
      0xBD, CHR 0xBD, CHR 0x20, CHR 0x77, CHR 0x6F, CHR 0x72, CHR 0x6B, CHR 0x65, CHR 0x72, CHR 0x20, CHR
      0xE5, CHR 0xB7, CHR 0xB2, CHR 0xE5, CHR 0x90, CHR 0xAF, CHR 0xE5, CHR 0x8A, CHR 0xA8]"

definition phase_rollback_failed :: string where
  "phase_rollback_failed =
     [CHR 0xE7, CHR 0x8B, CHR 0xAC, CHR 0xE7, CHR 0xAB, CHR 0x8B, CHR 0xE5, CHR 0x8D, CHR 0xB8, CHR 0xE8, CHR
      0xBD, CHR 0xBD, CHR 0x20, CHR 0x77, CHR 0x6F, CHR 0x72, CHR 0x6B, CHR 0x65, CHR 0x72, CHR 0x20, CHR
      0xE5, CHR 0x9B, CHR 0x9E, CHR 0xE6, CHR 0xBB, CHR 0x9A, CHR 0xE5, CHR 0xA4, CHR 0xB1, CHR 0xE8, CHR
      0xB4, CHR 0xA5]"

definition phase_not_started :: string where
  "phase_not_started =
     [CHR 0xE7, CHR 0x8B, CHR 0xAC, CHR 0xE7, CHR 0xAB, CHR 0x8B, CHR 0xE5, CHR 0x8D, CHR 0xB8, CHR 0xE8, CHR
      0xBD, CHR 0xBD, CHR 0x20, CHR 0x77, CHR 0x6F, CHR 0x72, CHR 0x6B, CHR 0x65, CHR 0x72, CHR 0x20, CHR
      0xE6, CHR 0x9C, CHR 0xAA, CHR 0xE8, CHR 0x83, CHR 0xBD, CHR 0xE5, CHR 0x90, CHR 0xAF, CHR 0xE5, CHR
      0x8A, CHR 0xA8]"

definition phase_unfinished :: string where
  "phase_unfinished =
     [CHR 0xE5, CHR 0x8D, CHR 0xB8, CHR 0xE8, CHR 0xBD, CHR 0xBD, CHR 0xE6, CHR 0x9C, CHR 0xAA, CHR 0xE5, CHR
      0xAE, CHR 0x8C, CHR 0xE6, CHR 0x88, CHR 0x90]"

section \<open>Scheduling\<close>

record reserve_env =
  re_host :: host
  re_now :: int
  re_random :: "string option"  \<comment> \<open>\<open>newHostOwnershipID\<close>, \<open>None\<close> for an error\<close>
  re_stamp :: int  \<comment> \<open>the clock when the state is written\<close>

definition scheduled_state :: "string \<Rightarrow> KworUninstallLifecycleState \<Rightarrow> KworUninstallLifecycleState" where
  "scheduled_state reservationID st =
     st\<lparr>us_Version := kworLifecycleStateVersion, us_Status := kworUninstallStatusScheduled, us_Phase := phase_waiting, us_Error := [],
        us_Failures := [], us_Warnings := [], us_BlockNewWork := True, us_ReservationID := reservationID,
        us_WorkerPID := 0, us_WorkerPGID := 0, us_WorkerStartTime := 0, us_WorkerUnit := []\<rparr>"

definition ReservePanelUninstallLifecycle ::
    "file_io \<Rightarrow> reserve_env \<Rightarrow> uninstall_json \<Rightarrow> (lifecycle_error + string option) \<times> uninstall_json" where
  \<comment> \<open>\<open>Inr None\<close>: somebody else is removing the panel\<close>
  "ReservePanelUninstallLifecycle io e f =
     (if \<not> lock_ok io then (Inl LockFailed, f)
      else case loadKworUninstallLifecycleStateLocked io f of
        Inl err \<Rightarrow> (Inl err, f)
      | Inr loaded \<Rightarrow>
          (if (case loaded of None \<Rightarrow> False
              | Some st \<Rightarrow> lifecycleUninstallTakeoverBlocked st (re_now e) (lifecycleUninstallWorkerAlive (re_host e) st))
          then (Inr None, f)
          else case re_random e of
            None \<Rightarrow> (Inl NoRandomness, f)
          | Some reservationID \<Rightarrow>
              let st = (case loaded of None \<Rightarrow> empty_uninstall_state | Some st \<Rightarrow> st)
              in case saveKworUninstallLifecycleStateLocked io (re_stamp e) (scheduled_state reservationID st) f of
                   (Some err, f') \<Rightarrow> (Inl err, f')
                 | (None, f') \<Rightarrow> (Inr (Some reservationID), f')))"

definition applyPanelUninstallWorkerRecord ::
    "string \<Rightarrow> int \<Rightarrow> int \<Rightarrow> 64 word \<Rightarrow> string \<Rightarrow> KworUninstallLifecycleState \<Rightarrow> lifecycle_error + KworUninstallLifecycleState option" where
  "applyPanelUninstallWorkerRecord reservationID pid pgid startTime unit st =
     (if us_ReservationID st \<noteq> trim_space reservationID then Inl ReservationTaken
      else if us_Status st \<noteq> kworUninstallStatusScheduled then Inr None
      else Inr (Some (st\<lparr>us_Phase := phase_started, us_Error := [], us_WorkerPID := pid, us_WorkerPGID := pgid,
                  us_WorkerStartTime := startTime, us_WorkerUnit := trim_space unit\<rparr>)))"

definition RecordPanelUninstallLifecycleWorker ::
    "file_io \<Rightarrow> host \<Rightarrow> int \<Rightarrow> string \<Rightarrow> int \<Rightarrow> int \<Rightarrow> string \<Rightarrow> uninstall_json \<Rightarrow> lifecycle_error option \<times> uninstall_json" where
  "RecordPanelUninstallLifecycleWorker io h now reservation pid pgid unit f =
     (let reservationID = trim_space reservation
      in if reservationID = [] then (Some ReservationEmpty, f)
         else if \<not> lock_ok io then (Some LockFailed, f)
         else case loadKworUninstallLifecycleStateLocked io f of
           Inl err \<Rightarrow> (Some err, f)
         | Inr None \<Rightarrow> (None, f)
         | Inr (Some st) \<Rightarrow>
             (if us_ReservationID st \<noteq> reservationID then (Some ReservationTaken, f)
             else if us_Status st \<noteq> kworUninstallStatusScheduled then (None, f)
             else case (if 0 < pid then kworLifecycleProcessStartTime h pid else Inr 0) of
               Inl _ \<Rightarrow> (Some IdentityUnknown, f)
             | Inr startTime \<Rightarrow>
                 (case applyPanelUninstallWorkerRecord reservationID pid pgid startTime unit st of
                    Inl err \<Rightarrow> (Some err, f)
                  | Inr None \<Rightarrow> (None, f)
                  | Inr (Some st') \<Rightarrow> saveKworUninstallLifecycleStateLocked io now st' f)))"

definition applyPanelUninstallRollbackFailure ::
    "string \<Rightarrow> int \<Rightarrow> int \<Rightarrow> 64 word \<Rightarrow> string \<Rightarrow> string option \<Rightarrow> KworUninstallLifecycleState \<Rightarrow>
     lifecycle_error + KworUninstallLifecycleState option" where
  "applyPanelUninstallRollbackFailure reservationID pid pgid startTime unit taskErr st =
     (if us_ReservationID st \<noteq> trim_space reservationID then Inl ReservationTaken
      else if us_Status st \<noteq> kworUninstallStatusScheduled then Inr None
      else let st1 = st\<lparr>us_Status := kworUninstallStatusFailed, us_Phase := phase_rollback_failed, us_BlockNewWork := True,
                 us_WorkerPID := pid, us_WorkerPGID := pgid, us_WorkerStartTime := startTime, us_WorkerUnit := trim_space unit\<rparr>
           in Inr (Some (case taskErr of None \<Rightarrow> st1 | Some m \<Rightarrow> st1\<lparr>us_Error := trim_space m\<rparr>)))"

definition RecordPanelUninstallLifecycleRollbackFailure ::
    "file_io \<Rightarrow> int \<Rightarrow> string \<Rightarrow> int \<Rightarrow> int \<Rightarrow> 64 word \<Rightarrow> string \<Rightarrow> string option \<Rightarrow> uninstall_json \<Rightarrow>
     lifecycle_error option \<times> uninstall_json" where
  "RecordPanelUninstallLifecycleRollbackFailure io now reservation pid pgid startTime unit taskErr f =
     (let reservationID = trim_space reservation
      in if reservationID = [] then (Some ReservationEmpty, f)
         else if \<not> lock_ok io then (Some LockFailed, f)
         else case loadKworUninstallLifecycleStateLocked io f of
           Inl err \<Rightarrow> (Some err, f)
         | Inr None \<Rightarrow> (None, f)
         | Inr (Some st) \<Rightarrow>
             (case applyPanelUninstallRollbackFailure reservationID pid pgid startTime unit taskErr st of
                Inl err \<Rightarrow> (Some err, f)
              | Inr None \<Rightarrow> (None, f)
              | Inr (Some st') \<Rightarrow> saveKworUninstallLifecycleStateLocked io now st' f))"

definition schedule_failed :: "string \<Rightarrow> string option \<Rightarrow> KworUninstallLifecycleState \<Rightarrow> KworUninstallLifecycleState" where
  "schedule_failed reservationID taskErr st =
     (if reservationID = [] \<or> us_ReservationID st \<noteq> reservationID \<or> us_Status st \<noteq> kworUninstallStatusScheduled then st
      else let st1 = st\<lparr>us_Status := kworUninstallStatusFailed, us_Phase := phase_not_started, us_BlockNewWork := False\<rparr>;
               st2 = (case taskErr of
                        None \<Rightarrow> st1
                      | Some m \<Rightarrow> st1\<lparr>us_Error := trim_space m, us_Failures := normalizeKworUninstallMessages [trim_space m]\<rparr>)
           in st2\<lparr>us_WorkerPID := 0, us_WorkerPGID := 0, us_WorkerStartTime := 0, us_WorkerUnit := []\<rparr>)"

definition MarkPanelUninstallLifecycleScheduleFailed ::
    "file_io \<Rightarrow> int \<Rightarrow> string \<Rightarrow> string option \<Rightarrow> uninstall_json \<Rightarrow> uninstall_json" where
  "MarkPanelUninstallLifecycleScheduleFailed io now reservationID taskErr f =
     snd (updateKworUninstallLifecycleState io now (schedule_failed (trim_space reservationID) taskErr) f)"

section \<open>Progress of the worker\<close>

definition BeginKworUninstallLifecycle ::
    "file_io \<Rightarrow> host \<Rightarrow> int \<Rightarrow> int \<Rightarrow> string \<Rightarrow> uninstall_json \<Rightarrow> lifecycle_error option \<times> uninstall_json" where
  "BeginKworUninstallLifecycle io h own_pid now phase f =
     updateKworUninstallLifecycleState io now
       (\<lambda>st. let st1 = st\<lparr>us_Status := kworUninstallStatusRunning, us_Phase := trim_space phase, us_Error := [],
                   us_Failures := [], us_Warnings := [], us_BlockNewWork := True\<rparr>
             in if us_WorkerPID st1 = 0
                then (let st2 = st1\<lparr>us_WorkerPID := own_pid\<rparr>
                      in case kworLifecycleProcessStartTime h own_pid of
                           Inl _ \<Rightarrow> st2
                         | Inr startTime \<Rightarrow> st2\<lparr>us_WorkerStartTime := startTime\<rparr>)
                else st1) f"

definition UpdateKworUninstallLifecycle :: "file_io \<Rightarrow> int \<Rightarrow> string \<Rightarrow> uninstall_json \<Rightarrow> lifecycle_error option \<times> uninstall_json" where
  "UpdateKworUninstallLifecycle io now phase f =
     updateKworUninstallLifecycleState io now
       (\<lambda>st. st\<lparr>us_Status := kworUninstallStatusRunning, us_Phase := trim_space phase, us_Error := [], us_BlockNewWork := True\<rparr>) f"

definition FailKworUninstallLifecycleWithReport ::
    "file_io \<Rightarrow> int \<Rightarrow> string option \<Rightarrow> (string list \<times> string list) option \<Rightarrow> uninstall_json \<Rightarrow> uninstall_json" where
  \<comment> \<open>the report, if any, is its failures and warnings\<close>
  "FailKworUninstallLifecycleWithReport io now taskErr report f =
     snd (updateKworUninstallLifecycleState io now
       (\<lambda>st. let st1 = st\<lparr>us_Status := kworUninstallStatusFailed,
                          us_Phase := (if trim_space (us_Phase st) = [] then phase_unfinished else us_Phase st),
                          us_BlockNewWork := True\<rparr>;
                 st2 = (case taskErr of None \<Rightarrow> st1 | Some m \<Rightarrow> st1\<lparr>us_Error := trim_space m\<rparr>);
                 st3 = (case report of
                          None \<Rightarrow> st2
                        | Some (failures, warnings) \<Rightarrow>
                            st2\<lparr>us_Failures := normalizeKworUninstallMessages failures,
                                us_Warnings := normalizeKworUninstallMessages warnings\<rparr>)
             in if us_Failures st3 = [] \<and> us_Error st3 \<noteq> [] then st3\<lparr>us_Failures := [us_Error st3]\<rparr> else st3) f)"

definition FailKworUninstallLifecycle :: "file_io \<Rightarrow> int \<Rightarrow> string option \<Rightarrow> uninstall_json \<Rightarrow> uninstall_json" where
  "FailKworUninstallLifecycle io now taskErr f = FailKworUninstallLifecycleWithReport io now taskErr None f"

definition KworServiceStartAllowed :: "file_io \<Rightarrow> lifecycle_error + bool \<Rightarrow> uninstall_json \<Rightarrow> lifecycle_error option" where
  \<comment> \<open>the second argument is the answer of \<open>IsKworUninstalling\<close>, here and below\<close>
  "KworServiceStartAllowed io pending f =
     (case pending of
        Inl e \<Rightarrow> Some e
      | Inr True \<Rightarrow> Some UninstallUnfinished
      | Inr False \<Rightarrow>
          (case LoadKworUninstallLifecycleState io f of
             Inl e \<Rightarrow> Some e
           | Inr (Some st) \<Rightarrow> if lifecycleStateBlocksNewWork st then Some UninstallUnfinished else None
           | Inr None \<Rightarrow> None))"

end
