(* ===== verification/Lifecycle_Operations.thy ===== *)
theory Lifecycle_Operations
  imports Uninstall_State "HOL-Library.AList"
begin

text \<open>
  Background operations of the panel process (\<open>service/lifecycle.go\<close>): an operation is registered in memory and,
  if persistent, in the register file; before the panel is removed or replaced, \<open>Quiesce\<close> refuses new operations,
  cancels the present ones and waits for them.

  Handles are objects: they live in the list \<open>handles\<close> and are named by their position. A context is the flag
  whether it is cancelled, the channel \<open>done\<close> the flag whether it is closed. \<open>Quiesce\<close> waits for other goroutines,
  so it is a sequence of steps with a program counter; every other operation is one step. The order in which Go
  walks the map of operations is not fixed; the model takes the order of the list. The uninstalling flag of the
  ownership manifest (\<open>IsKworUninstalling\<close>) is an argument.
\<close>

section \<open>State\<close>

record KworManagedOperationHandle =
  h_id :: string
  h_cancelled :: bool
  h_closed :: bool
  h_persistent :: bool
  h_detached :: bool

record lifecycle_state =
  handles :: "KworManagedOperationHandle list"
  kworLifecycleTasks :: "(string \<times> nat) list"
  kworLifecycleQuiescing :: bool
  operations_file :: operations_json
  uninstall_file :: uninstall_json

definition handle_at :: "lifecycle_state \<Rightarrow> nat \<Rightarrow> KworManagedOperationHandle option" where
  \<comment> \<open>a position without a handle plays the part of the nil handle\<close>
  "handle_at s a = (if a < length (handles s) then Some (handles s ! a) else None)"

definition cancel_handle :: "nat \<Rightarrow> lifecycle_state \<Rightarrow> lifecycle_state" where
  "cancel_handle a s =
     (case handle_at s a of None \<Rightarrow> s | Some h \<Rightarrow> s\<lparr>handles := (handles s)[a := h\<lparr>h_cancelled := True\<rparr>]\<rparr>)"

section \<open>Identifiers\<close>

definition hex_digit :: "nat \<Rightarrow> char" where
  "hex_digit n = ''0123456789abcdef'' ! n"

definition hex_encode :: "8 word list \<Rightarrow> string" where
  "hex_encode bs = concat (map (\<lambda>b. [hex_digit (unat b div 16), hex_digit (unat b mod 16)]) bs)"

definition newHostOwnershipID :: "8 word list option \<Rightarrow> string option" where
  \<comment> \<open>the bytes \<open>rand.Read\<close> fills in, \<open>None\<close> for its error\<close>
  "newHostOwnershipID random = map_option hex_encode random"

section \<open>Beginning an operation\<close>

record work_env =
  state_io :: file_io
  uninstalling :: "lifecycle_error + bool"
  load_io :: file_io
  work_now :: int
  host_for :: "string \<Rightarrow> host"  \<comment> \<open>the host when the operation with the identifier is looked at\<close>
  remove_io :: "string \<Rightarrow> file_io"
  random_bytes :: "8 word list option"
  upsert_io :: file_io
  started_now :: int

fun clear_stale :: "work_env \<Rightarrow> KworManagedOperationRecord list \<Rightarrow> operations_json \<Rightarrow> lifecycle_error option \<times> operations_json" where
  "clear_stale e [] f = (None, f)"
| "clear_stale e (operation # operations) f =
     (if \<not> op_BlockNewWork operation then clear_stale e operations f
      else if managedOperationBlockingGraceActive operation (work_now e) then (Some (HandingOver (op_Kind operation)), f)
      else case kworManagedOperationAlive (host_for e (op_ID operation)) operation of
        Inl _ \<Rightarrow> (Some (StateUnknown (op_ID operation)), f)
      | Inr alive \<Rightarrow>
          if alive then (Some (OperationRunning (op_Kind operation)), f)
          else case removeKworManagedOperation (remove_io e (op_ID operation)) (op_ID operation) f of
            (Some _, f') \<Rightarrow> (Some (StaleKept (op_ID operation)), f')
          | (None, f') \<Rightarrow> clear_stale e operations f')"

definition ensureNoBlockingKworManagedOperations :: "work_env \<Rightarrow> operations_json \<Rightarrow> lifecycle_error option \<times> operations_json" where
  "ensureNoBlockingKworManagedOperations e f =
     (case loadKworManagedOperations (load_io e) f of
        Inl err \<Rightarrow> (Some err, f)
      | Inr operations \<Rightarrow> clear_stale e operations f)"

definition ensureKworLifecycleAcceptsNewWorkLocked :: "work_env \<Rightarrow> lifecycle_state \<Rightarrow> lifecycle_error option \<times> lifecycle_state" where
  "ensureKworLifecycleAcceptsNewWorkLocked e s =
     (if kworLifecycleQuiescing s then (Some QuiesceRunning, s)
      else case LoadKworUninstallLifecycleState (state_io e) (uninstall_file s) of
        Inl err \<Rightarrow> (Some err, s)
      | Inr loaded \<Rightarrow>
          if (case loaded of None \<Rightarrow> False | Some st \<Rightarrow> lifecycleStateBlocksNewWork st) then (Some UninstallUnfinished, s)
          else case uninstalling e of
            Inl err \<Rightarrow> (Some err, s)
          | Inr pending \<Rightarrow>
              if pending then (Some UninstallUnfinished, s)
              else case ensureNoBlockingKworManagedOperations e (operations_file s) of
                (err, f) \<Rightarrow> (err, s\<lparr>operations_file := f\<rparr>))"

definition new_record :: "string \<Rightarrow> string \<Rightarrow> int \<Rightarrow> KworManagedOperationRecord" where
  "new_record ident kind now = \<lparr>op_ID = ident, op_Kind = kind, op_PID = 0, op_PGID = 0, op_ProcessStartTime = 0,
     op_Unit = [], op_BlockNewWork = False, op_BlockingSince = 0, op_StartedAt = unix_seconds now\<rparr>"

definition new_handle :: "string \<Rightarrow> bool \<Rightarrow> KworManagedOperationHandle" where
  "new_handle ident persistent =
     \<lparr>h_id = ident, h_cancelled = False, h_closed = False, h_persistent = persistent, h_detached = False\<rparr>"

definition beginKworManagedOperation ::
    "work_env \<Rightarrow> string \<Rightarrow> bool \<Rightarrow> lifecycle_state \<Rightarrow> (lifecycle_error + nat) \<times> lifecycle_state" where
  "beginKworManagedOperation e rawKind persistent s =
     (let kind = trim_space rawKind
      in if kind = [] then (Inl KindEmpty, s)
         else case newHostOwnershipID (random_bytes e) of
           None \<Rightarrow> (Inl NoRandomness, s)
         | Some idPart \<Rightarrow>
             let ident = kind @ ''-'' @ idPart in
             case ensureKworLifecycleAcceptsNewWorkLocked e s of
               (Some err, s1) \<Rightarrow> (Inl err, s1)
             | (None, s1) \<Rightarrow>
                 let a = length (handles s1);
                     s2 = s1\<lparr>handles := handles s1 @ [new_handle ident persistent],
                             kworLifecycleTasks := AList.update ident a (kworLifecycleTasks s1)\<rparr>
                 in if \<not> persistent then (Inr a, s2)
                    else case upsertKworManagedOperation (upsert_io e) (new_record ident kind (started_now e)) (operations_file s2) of
                      (None, f) \<Rightarrow> (Inr a, s2\<lparr>operations_file := f\<rparr>)
                    | (Some err, f) \<Rightarrow>
                        (Inl err, cancel_handle a
                           (s2\<lparr>operations_file := f, kworLifecycleTasks := AList.delete ident (kworLifecycleTasks s2)\<rparr>)))"

definition BeginKworManagedOperation :: "work_env \<Rightarrow> string \<Rightarrow> lifecycle_state \<Rightarrow> (lifecycle_error + nat) \<times> lifecycle_state" where
  "BeginKworManagedOperation e kind s = beginKworManagedOperation e kind True s"

definition BeginKworInProcessOperation :: "work_env \<Rightarrow> string \<Rightarrow> lifecycle_state \<Rightarrow> (lifecycle_error + nat) \<times> lifecycle_state" where
  "BeginKworInProcessOperation e kind s = beginKworManagedOperation e kind False s"

section \<open>Ending an operation\<close>

definition Done :: "file_io \<Rightarrow> nat \<Rightarrow> lifecycle_state \<Rightarrow> lifecycle_state" where
  "Done io a s =
     (case handle_at s a of
        None \<Rightarrow> s
      | Some h \<Rightarrow>
          if h_closed h then s
          else let s1 = s\<lparr>handles := (handles s)[a := h\<lparr>h_cancelled := True, h_closed := True\<rparr>],
                          kworLifecycleTasks := AList.delete (h_id h) (kworLifecycleTasks s)\<rparr>
               in if h_persistent h
                  then s1\<lparr>operations_file := snd (removeKworManagedOperation io (h_id h) (operations_file s1))\<rparr>
                  else s1)"

definition Detach :: "nat \<Rightarrow> lifecycle_state \<Rightarrow> lifecycle_state" where
  "Detach a s =
     (case handle_at s a of
        None \<Rightarrow> s
      | Some h \<Rightarrow>
          if h_detached h then s
          else let s1 = s\<lparr>handles := (handles s)[a := h\<lparr>h_detached := True\<rparr>]\<rparr>
               in if map_of (kworLifecycleTasks s1) (h_id h) = Some a
                  then s1\<lparr>kworLifecycleTasks := AList.delete (h_id h) (kworLifecycleTasks s1)\<rparr> else s1)"

definition FinishKworManagedOperation :: "file_io \<Rightarrow> string \<Rightarrow> lifecycle_state \<Rightarrow> lifecycle_error option \<times> lifecycle_state" where
  "FinishKworManagedOperation io rawID s =
     (let i = trim_space rawID
      in if i = [] then (None, s)
         else case map_of (kworLifecycleTasks s) i of
           Some a \<Rightarrow> (None, Done io a s)
         | None \<Rightarrow> (case removeKworManagedOperation io i (operations_file s) of
                      (err, f) \<Rightarrow> (err, s\<lparr>operations_file := f\<rparr>)))"

section \<open>Quiescing\<close>

datatype quiesce_pc =
    QuiesceIdle
  | QuiesceCancelling "nat list"
  | QuiesceStopping "nat list"
  | QuiesceWaiting "nat list"
  | QuiesceReturned "lifecycle_error option"

record quiesce_env =
  q_load_io :: file_io
  q_terminate :: "string \<Rightarrow> terminate_env"
  q_remove_io :: "string \<Rightarrow> file_io"
  deadline_passed :: bool

definition ids_in_memory :: "lifecycle_state \<Rightarrow> nat list \<Rightarrow> string list" where
  "ids_in_memory s hs =
     concat (map (\<lambda>a. case handle_at s a of
                        None \<Rightarrow> [] | Some h \<Rightarrow> if trim_space (h_id h) = [] then [] else [h_id h]) hs)"

fun stop_records :: "quiesce_env \<Rightarrow> string list \<Rightarrow> KworManagedOperationRecord list \<Rightarrow> operations_json \<Rightarrow>
    lifecycle_error option \<times> operations_json" where
  "stop_records q inMemory [] f = (None, f)"
| "stop_records q inMemory (operation # operations) f =
     (if \<not> fst (terminateKworManagedOperation (q_terminate q (op_ID operation)) operation) then (Some TerminateFailed, f)
      else if op_ID operation \<in> set inMemory then stop_records q inMemory operations f
      else case removeKworManagedOperation (q_remove_io q (op_ID operation)) (op_ID operation) f of
        (Some err, f') \<Rightarrow> (Some err, f')
      | (None, f') \<Rightarrow> stop_records q inMemory operations f')"

definition quiesce_records :: "quiesce_env \<Rightarrow> nat list \<Rightarrow> lifecycle_state \<Rightarrow> quiesce_pc \<times> lifecycle_state" where
  "quiesce_records q hs s =
     (case loadKworManagedOperations (q_load_io q) (operations_file s) of
        Inl err \<Rightarrow> (QuiesceReturned (Some err), s)
      | Inr operations \<Rightarrow>
          (case stop_records q (ids_in_memory s hs) operations (operations_file s) of
             (Some err, f) \<Rightarrow> (QuiesceReturned (Some err), s\<lparr>operations_file := f\<rparr>)
           | (None, f) \<Rightarrow> (QuiesceWaiting hs, s\<lparr>operations_file := f\<rparr>)))"

fun quiesce_wait :: "bool \<Rightarrow> nat list \<Rightarrow> lifecycle_state \<Rightarrow> quiesce_pc" where
  "quiesce_wait deadline [] s = QuiesceReturned None"
| "quiesce_wait deadline (a # hs) s =
     (case handle_at s a of
        None \<Rightarrow> QuiesceWaiting hs
      | Some h \<Rightarrow>
          if deadline then QuiesceReturned (Some (NotExited (h_id h)))
          else if h_closed h then QuiesceWaiting hs
          else QuiesceWaiting (a # hs))"

definition QuiesceKworManagedOperations :: "quiesce_env \<Rightarrow> quiesce_pc \<Rightarrow> lifecycle_state \<Rightarrow> quiesce_pc \<times> lifecycle_state" where
  \<comment> \<open>one step of the function: the first one under the mutex\<close>
  "QuiesceKworManagedOperations q pc s =
     (case pc of
        QuiesceIdle \<Rightarrow> (QuiesceCancelling (map snd (kworLifecycleTasks s)), s\<lparr>kworLifecycleQuiescing := True\<rparr>)
      | QuiesceCancelling hs \<Rightarrow> (QuiesceStopping hs, fold cancel_handle hs s)
      | QuiesceStopping hs \<Rightarrow> quiesce_records q hs s
      | QuiesceWaiting hs \<Rightarrow> (quiesce_wait (deadline_passed q) hs s, s)
      | QuiesceReturned r \<Rightarrow> (QuiesceReturned r, s))"

section \<open>Facts about single operations\<close>

lemma hex_digit_plain: "n < 16 \<Longrightarrow> plain_char (hex_digit n)"
proof -
  assume "n < 16"
  then have "hex_digit n \<in> set ''0123456789abcdef''" unfolding hex_digit_def by (intro nth_mem) simp
  moreover have "list_all plain_char ''0123456789abcdef''" by (simp add: plain_char_def)
  ultimately show "plain_char (hex_digit n)" unfolding list_all_iff by blast
qed

lemma hex_encode_plain: "c \<in> set (hex_encode bs) \<Longrightarrow> plain_char c"
proof -
  have "unat b div 16 < 16" "unat b mod 16 < 16" for b :: "8 word"
    using unsigned_less [of b, where ?'a = nat] by auto
  then show "c \<in> set (hex_encode bs) \<Longrightarrow> plain_char c" by (auto simp: hex_encode_def intro: hex_digit_plain)
qed

lemma operation_id_trimmed:
  "trim_space (trim_space k @ ''-'' @ hex_encode bs) = trim_space k @ ''-'' @ hex_encode bs"
  by (rule trim_space_extend) (auto simp: last_append plain_char_def dest: hex_encode_plain [OF last_in_set])

lemma handle_at_cancel [simp]:
  "handle_at (cancel_handle a s) b = map_option (\<lambda>h. if b = a then h\<lparr>h_cancelled := True\<rparr> else h) (handle_at s b)"
  by (auto simp: cancel_handle_def handle_at_def nth_list_update)

text \<open>What a granted operation is.\<close>

lemma begin_granted:
  assumes "beginKworManagedOperation e kind persistent s = (Inr a, s')"
  obtains bs s1 where "random_bytes e = Some bs" "ensureKworLifecycleAcceptsNewWorkLocked e s = (None, s1)"
    "trim_space kind \<noteq> []" "a = length (handles s1)"
    "handles s' = handles s1 @ [new_handle (trim_space kind @ ''-'' @ hex_encode bs) persistent]"
    "kworLifecycleTasks s' = AList.update (trim_space kind @ ''-'' @ hex_encode bs) a (kworLifecycleTasks s1)"
    "kworLifecycleQuiescing s' = kworLifecycleQuiescing s1" "uninstall_file s' = uninstall_file s1"
    "persistent \<Longrightarrow> upsertKworManagedOperation (upsert_io e)
       (new_record (trim_space kind @ ''-'' @ hex_encode bs) (trim_space kind) (started_now e)) (operations_file s1)
       = (None, operations_file s')"
    "\<not> persistent \<Longrightarrow> operations_file s' = operations_file s1"
  using assms
  by (auto simp: beginKworManagedOperation_def newHostOwnershipID_def Let_def
      split: if_splits option.splits prod.splits)

lemma begin_handle:
  assumes "beginKworManagedOperation e kind persistent s = (Inr a, s')"
  shows "\<exists>h. handle_at s' a = Some h \<and> h_id h \<noteq> [] \<and> trim_space (h_id h) = h_id h \<and> \<not> h_cancelled h"
  using assms
proof (rule begin_granted)
  fix bs s1
  assume "a = length (handles s1)" and "handles s' = handles s1 @ [new_handle (trim_space kind @ ''-'' @ hex_encode bs) persistent]"
  then show ?thesis using operation_id_trimmed [of kind bs] by (simp add: handle_at_def new_handle_def)
qed
end
