(* ===== verification/Lifecycle_Register.thy ===== *)
theory Lifecycle_Register
  imports Lifecycle_Operations
begin

text \<open>
  The register of operations is a finite map. Its file holds the records sorted by identifier, without repetition and
  trimmed; adding, changing and removing a record are the updates of a map, and they either replace the file or leave it.
\<close>

section \<open>Normal form\<close>

definition record_complete :: "KworManagedOperationRecord \<Rightarrow> bool" where
  "record_complete r \<longleftrightarrow> trim_record r = r \<and> op_ID r \<noteq> [] \<and> op_Kind r \<noteq> []"

definition register_normal :: "KworManagedOperationRecord list \<Rightarrow> bool" where
  "register_normal rs \<longleftrightarrow> sorted (map op_ID rs) \<and> distinct (map op_ID rs) \<and> (\<forall>r \<in> set rs. record_complete r)"

lemma trim_record_idem [simp]: "trim_record (trim_record r) = trim_record r"
  by (simp add: trim_record_def)

lemma complete_trim: "op_ID (trim_record r) \<noteq> [] \<Longrightarrow> op_Kind (trim_record r) \<noteq> [] \<Longrightarrow> record_complete (trim_record r)"
  by (simp add: record_complete_def)

lemma completeD: "record_complete r \<Longrightarrow> trim_record r = r" "record_complete r \<Longrightarrow> op_ID r \<noteq> []" "record_complete r \<Longrightarrow> op_Kind r \<noteq> []"
  by (simp_all add: record_complete_def)

lemma keep_first_ids:
  "distinct (map op_ID (keep_first_records seen rs)) \<and> set (map op_ID (keep_first_records seen rs)) \<inter> set seen = {}
   \<and> (\<forall>r \<in> set (keep_first_records seen rs). record_complete r)"
  by (induction seen rs rule: keep_first_records.induct) (auto simp: Let_def complete_trim)

lemma keep_first_id:
  assumes "distinct (map op_ID rs)" "\<forall>r \<in> set rs. record_complete r" "set (map op_ID rs) \<inter> set seen = {}"
  shows "keep_first_records seen rs = rs"
  using assms by (induction seen rs rule: keep_first_records.induct) (auto simp: Let_def completeD)

lemma normalize_normal: "register_normal (normalizeKworManagedOperations rs)"
  using keep_first_ids [of "[]" rs] unfolding register_normal_def normalizeKworManagedOperations_def
  by (simp add: distinct_map inj_on_def)

lemma normalize_fixed: "register_normal rs \<Longrightarrow> normalizeKworManagedOperations rs = rs"
  by (simp add: register_normal_def normalizeKworManagedOperations_def keep_first_id sort_key_id_if_sorted)

section \<open>Lookup\<close>

definition record_of :: "KworManagedOperationRecord list \<Rightarrow> string \<Rightarrow> KworManagedOperationRecord option" where
  "record_of rs i = map_of (map (\<lambda>r. (op_ID r, r)) rs) i"

lemma record_of_Nil [simp]: "record_of [] = Map.empty"
  by (simp add: record_of_def fun_eq_iff)

lemma record_of_Cons [simp]: "record_of (r # rs) = (record_of rs)(op_ID r \<mapsto> r)"
  by (simp add: record_of_def fun_eq_iff)

lemma record_of_in: "record_of rs i = Some r \<Longrightarrow> r \<in> set rs \<and> op_ID r = i"
  by (induction rs) (auto split: if_splits)

lemma record_of_None: "record_of rs i = None \<longleftrightarrow> i \<notin> op_ID ` set rs"
  by (induction rs) auto

lemma record_of_Some:
  assumes "distinct (map op_ID rs)"
  shows "record_of rs i = Some r \<longleftrightarrow> r \<in> set rs \<and> op_ID r = i"
  using assms by (induction rs) (auto split: if_splits, metis image_eqI)

lemma record_of_perm:
  assumes "distinct (map op_ID rs)" "set rs = set rs'" "distinct (map op_ID rs')"
  shows "record_of rs = record_of rs'"
proof
  fix i
  show "record_of rs i = record_of rs' i"
    using record_of_Some [OF assms(1)] record_of_Some [OF assms(3)] assms(2) by (metis not_Some_eq)
qed

lemma record_of_normalize:
  assumes "distinct (map op_ID rs)" "\<forall>r \<in> set rs. record_complete r"
  shows "record_of (normalizeKworManagedOperations rs) = record_of rs"
proof (rule record_of_perm)
  show "set (normalizeKworManagedOperations rs) = set rs"
    using keep_first_id [OF assms, of "[]"] by (simp add: normalizeKworManagedOperations_def)
  show "distinct (map op_ID (normalizeKworManagedOperations rs))" using normalize_normal by (simp add: register_normal_def)
qed (rule assms(1))

lemma record_of_filter: "record_of (filter (\<lambda>r. op_ID r \<noteq> i) rs) = (record_of rs)(i := None)"
  by (induction rs) (auto simp: fun_eq_iff)

lemma record_of_append: "record_of rs (op_ID r) = None \<Longrightarrow> record_of (rs @ [r]) = (record_of rs)(op_ID r \<mapsto> r)"
  by (induction rs) (auto simp: fun_eq_iff split: if_splits)

lemma change_first_None: "change_first i f rs = None \<longleftrightarrow> record_of rs i = None"
  by (induction rs) (auto split: option.splits)

lemma change_first_Some:
  assumes "change_first i f rs = Some rs'" "\<And>r. op_ID r = i \<Longrightarrow> op_ID (f r) = i"
  shows "map op_ID rs' = map op_ID rs \<and> record_of rs' = (record_of rs)(i := map_option f (record_of rs i))
    \<and> set rs' \<subseteq> set rs \<union> f ` set rs"
  using assms by (induction rs arbitrary: rs') (auto simp: fun_eq_iff split: if_splits option.splits)

section \<open>The file\<close>

definition readable :: "operations_json \<Rightarrow> bool" where
  "readable f \<longleftrightarrow> (case f of Absent \<Rightarrow> True | Unparsable \<Rightarrow> False | Holds v \<Rightarrow> of_Version v = kworLifecycleStateVersion)"

definition registered :: "operations_json \<Rightarrow> string \<Rightarrow> KworManagedOperationRecord option" where
  "registered f = (case f of Holds v \<Rightarrow> record_of (normalizeKworManagedOperations (Operations v)) | _ \<Rightarrow> Map.empty)"

lemma load_register:
  assumes "readable f" "read_ok io"
  obtains v where "loadKworManagedOperationsLocked io f = Inr v" "register_normal (Operations v)" "record_of (Operations v) = registered f"
  using assms
  by (cases f) (auto simp: loadKworManagedOperationsLocked_def readable_def registered_def register_normal_def normalize_normal [unfolded register_normal_def])

lemma save_register:
  assumes "saveKworManagedOperationsLocked io v f = (e, f')" "written io \<noteq> NotReplaced"
    "distinct (map op_ID (Operations v))" "\<forall>r \<in> set (Operations v). record_complete r"
  shows "readable f'" "registered f' = record_of (Operations v)" "e = None \<longleftrightarrow> written io = Replaced"
proof -
  have f': "f' = Holds (v\<lparr>of_Version := kworLifecycleStateVersion, Operations := normalizeKworManagedOperations (Operations v)\<rparr>)"
    using assms(1,2) by (auto simp: saveKworManagedOperationsLocked_def writeKworLifecycleJSON_def split: write_outcome.splits)
  show "readable f'" by (simp add: f' readable_def)
  show "registered f' = record_of (Operations v)"
    by (simp add: f' registered_def normalize_fixed [OF normalize_normal] record_of_normalize [OF assms(3,4)])
  show "e = None \<longleftrightarrow> written io = Replaced"
    using assms(1,2) by (auto simp: saveKworManagedOperationsLocked_def writeKworLifecycleJSON_def split: write_outcome.splits)
qed

lemma save_not_replaced:
  "written io = NotReplaced \<Longrightarrow> saveKworManagedOperationsLocked io v f = (Some WriteFailed, f)"
  by (simp add: saveKworManagedOperationsLocked_def writeKworLifecycleJSON_def)

lemma complete_trimmed:
  assumes "record_complete r"
  shows "trim_space (op_ID r) = op_ID r" "trim_space (op_Kind r) = op_Kind r"
    "r\<lparr>op_ID := trim_space (op_ID r), op_Kind := trim_space (op_Kind r)\<rparr> = r"
proof -
  have "op_ID (trim_record r) = op_ID r" "op_Kind (trim_record r) = op_Kind r" by (simp_all only: completeD(1) [OF assms])
  then show "trim_space (op_ID r) = op_ID r" and "trim_space (op_Kind r) = op_Kind r" by (simp_all add: trim_record_def)
  then show "r\<lparr>op_ID := trim_space (op_ID r), op_Kind := trim_space (op_Kind r)\<rparr> = r" by simp
qed

definition io_works :: "file_io \<Rightarrow> bool" where
  "io_works io \<longleftrightarrow> lock_ok io \<and> read_ok io \<and> written io \<noteq> NotReplaced"

lemma normalD:
  "register_normal rs \<Longrightarrow> distinct (map op_ID rs)" "register_normal rs \<Longrightarrow> r \<in> set rs \<Longrightarrow> record_complete r"
  by (auto simp: register_normal_def)

lemma upsert_register:
  assumes f: "readable f" and io: "io_works io" and r: "record_complete r"
    and up: "upsertKworManagedOperation io r f = (e, f')"
  shows "readable f'" "registered f' = (registered f)(op_ID r \<mapsto> r)" "e = None \<longleftrightarrow> written io = Replaced"
proof -
  obtain v where v: "loadKworManagedOperationsLocked io f = Inr v" "register_normal (Operations v)" "record_of (Operations v) = registered f"
    using load_register f io unfolding io_works_def by blast
  note n = normalD [OF v(2)]
  define ops where "ops = (case change_first (op_ID r) (\<lambda>_. r) (Operations v) of Some ops \<Rightarrow> ops | None \<Rightarrow> Operations v @ [r])"
  have up': "saveKworManagedOperationsLocked io (v\<lparr>Operations := ops\<rparr>) f = (e, f')"
    using up io r v(1) completeD [OF r] complete_trimmed [OF r]
    by (auto simp: upsertKworManagedOperation_def io_works_def Let_def ops_def split: option.splits)
  have "distinct (map op_ID ops) \<and> (\<forall>x \<in> set ops. record_complete x) \<and> record_of ops = (record_of (Operations v))(op_ID r \<mapsto> r)"
  proof (cases "change_first (op_ID r) (\<lambda>_. r) (Operations v)")
    case None
    then have "record_of (Operations v) (op_ID r) = None" by (simp add: change_first_None)
    then show ?thesis using n r record_of_append [of "Operations v" r] None by (auto simp: ops_def record_of_None)
  next
    case (Some ops')
    then have "record_of (Operations v) (op_ID r) \<noteq> None" using change_first_None [of "op_ID r" "\<lambda>_. r"] by force
    then show ?thesis using change_first_Some [OF Some] n r Some by (auto simp: ops_def fun_eq_iff)
  qed
  then show "readable f'" "registered f' = (registered f)(op_ID r \<mapsto> r)" "e = None \<longleftrightarrow> written io = Replaced"
    using save_register [OF up'] io v(3) by (auto simp: io_works_def)
qed

lemma remove_register:
  assumes f: "readable f" and io: "io_works io" and i: "i \<noteq> []" "trim_space i = i"
    and rm: "removeKworManagedOperation io i f = (e, f')"
  shows "readable f'" "registered f' = (registered f)(i := None)" "e = None \<longleftrightarrow> written io = Replaced"
proof -
  obtain v where v: "loadKworManagedOperationsLocked io f = Inr v" "register_normal (Operations v)" "record_of (Operations v) = registered f"
    using load_register f io unfolding io_works_def by blast
  note n = normalD [OF v(2)]
  let ?ops = "filter (\<lambda>r. op_ID r \<noteq> i) (Operations v)"
  have rm': "saveKworManagedOperationsLocked io (v\<lparr>Operations := ?ops\<rparr>) f = (e, f')"
    using rm io v(1) i by (auto simp: removeKworManagedOperation_def io_works_def Let_def)
  have "distinct (map op_ID ?ops)" "\<forall>x \<in> set ?ops. record_complete x" using n by (auto simp: distinct_map_filter)
  then show "readable f'" "registered f' = (registered f)(i := None)" "e = None \<longleftrightarrow> written io = Replaced"
    using save_register [OF rm'] io v(3) record_of_filter [of i "Operations v"] by (auto simp: io_works_def)
qed

lemma update_register:
  assumes f: "readable f" and io: "io_works io" and i: "i \<noteq> []" "trim_space i = i"
    and u: "\<And>r. record_complete r \<Longrightarrow> record_complete (u r)" "\<And>r. op_ID (u r) = op_ID r"
    and up: "updateKworManagedOperation io i u f = (e, f')"
  shows "registered f' = (registered f)(i := map_option u (registered f i))"
    and "registered f i = None \<Longrightarrow> e = Some (OperationUnknown i)"
proof -
  obtain v where v: "loadKworManagedOperationsLocked io f = Inr v" "register_normal (Operations v)" "record_of (Operations v) = registered f"
    using load_register f io unfolding io_works_def by blast
  note n = normalD [OF v(2)]
  show "registered f' = (registered f)(i := map_option u (registered f i))"
  proof (cases "change_first i u (Operations v)")
    case None
    then have "f' = f" using up io v(1) i by (auto simp: updateKworManagedOperation_def io_works_def Let_def)
    then show ?thesis using None v(3) by (auto simp: change_first_None fun_eq_iff)
  next
    case (Some ops)
    then have up': "saveKworManagedOperationsLocked io (v\<lparr>Operations := ops\<rparr>) f = (e, f')"
      using up io v(1) i by (auto simp: updateKworManagedOperation_def io_works_def Let_def)
    have c: "map op_ID ops = map op_ID (Operations v)" "record_of ops = (record_of (Operations v))(i := map_option u (record_of (Operations v) i))"
      "set ops \<subseteq> set (Operations v) \<union> u ` set (Operations v)"
      using change_first_Some [OF Some] u(2) by auto
    have "\<forall>x \<in> set ops. record_complete x" using c(3) n(2) u(1) by auto
    then show ?thesis using save_register [OF up'] io v(3) n(1) c(1,2) by (auto simp: io_works_def)
  qed
  assume "registered f i = None"
  then have "change_first i u (Operations v) = None" using v(3) by (simp add: change_first_None)
  then show "e = Some (OperationUnknown i)" using up io v(1) i by (auto simp: updateKworManagedOperation_def io_works_def Let_def)
qed

section \<open>The register as an interface\<close>

text \<open>What the bookkeeping of operations relies on: a map from identifiers to records.\<close>

locale operation_register =
  fixes entries :: "'f \<Rightarrow> string \<Rightarrow> 'r option" and usable :: "'f \<Rightarrow> bool" and name_of :: "'r \<Rightarrow> string"
    and proper :: "'r \<Rightarrow> bool" and proper_name :: "string \<Rightarrow> bool"
    and add_entry :: "'r \<Rightarrow> 'f \<Rightarrow> 'f" and drop_entry :: "string \<Rightarrow> 'f \<Rightarrow> 'f"
  assumes add: "usable f \<Longrightarrow> proper r \<Longrightarrow> usable (add_entry r f) \<and> entries (add_entry r f) = (entries f)(name_of r \<mapsto> r)"
    and drop: "usable f \<Longrightarrow> proper_name i \<Longrightarrow> usable (drop_entry i f) \<and> entries (drop_entry i f) = (entries f)(i := None)"
    and named: "proper r \<Longrightarrow> proper_name (name_of r)"
begin

lemma add_then_drop:
  assumes "usable f" "proper r" "entries f (name_of r) = None"
  shows "entries (drop_entry (name_of r) (add_entry r f)) = entries f"
  using add [OF assms(1,2)] drop [of "add_entry r f" "name_of r"] named [OF assms(2)] assms(3) by (auto simp: fun_eq_iff)

lemma drop_many:
  assumes "usable f" "\<forall>i \<in> set is. proper_name i"
  shows "usable (fold drop_entry is f) \<and> entries (fold drop_entry is f) = (\<lambda>i. if i \<in> set is then None else entries f i)"
  using assms by (induction "is" arbitrary: f) (auto simp: drop fun_eq_iff)

lemma add_many:
  assumes "usable f" "\<forall>r \<in> set rs. proper r"
  shows "usable (fold add_entry rs f) \<and> dom (entries (fold add_entry rs f)) = dom (entries f) \<union> name_of ` set rs"
  using assms by (induction rs arbitrary: f) (auto simp: add)

end

definition valid_name :: "string \<Rightarrow> bool" where
  "valid_name i \<longleftrightarrow> i \<noteq> [] \<and> trim_space i = i"

definition working_io :: file_io where
  "working_io = \<lparr>lock_ok = True, read_ok = True, written = Replaced\<rparr>"

lemma working_io_works [simp]: "io_works working_io" "written working_io = Replaced"
  by (simp_all add: io_works_def working_io_def)

interpretation file_register: operation_register registered readable op_ID record_complete valid_name
  "\<lambda>r f. snd (upsertKworManagedOperation working_io r f)" "\<lambda>i f. snd (removeKworManagedOperation working_io i f)"
proof unfold_locales
  fix f r assume "readable f" "record_complete r"
  then show "readable (snd (upsertKworManagedOperation working_io r f))
      \<and> registered (snd (upsertKworManagedOperation working_io r f)) = (registered f)(op_ID r \<mapsto> r)"
    using upsert_register [of f working_io r] by (metis prod.collapse working_io_works(1))
next
  fix f i assume "readable f" "valid_name i"
  then show "readable (snd (removeKworManagedOperation working_io i f))
      \<and> registered (snd (removeKworManagedOperation working_io i f)) = (registered f)(i := None)"
    using remove_register [of f working_io i] unfolding valid_name_def by (metis prod.collapse working_io_works(1))
next
  fix r assume "record_complete r"
  then show "valid_name (op_ID r)" by (simp add: valid_name_def completeD complete_trimmed)
qed

section \<open>Guarantees\<close>

lemma update_complete:
  assumes "record_complete r"
  shows "record_complete (r\<lparr>op_BlockNewWork := b, op_BlockingSince := t\<rparr>)" "record_complete (r\<lparr>op_Unit := trim_space u\<rparr>)"
    "record_complete (r\<lparr>op_PID := pid, op_PGID := pgid, op_ProcessStartTime := st\<rparr>)"
proof -
  have u: "trim_space (op_Unit r) = op_Unit r"
    using arg_cong [OF completeD(1) [OF assms], of op_Unit] by (simp add: trim_record_def)
  show "record_complete (r\<lparr>op_BlockNewWork := b, op_BlockingSince := t\<rparr>)" "record_complete (r\<lparr>op_Unit := trim_space u\<rparr>)"
    "record_complete (r\<lparr>op_PID := pid, op_PGID := pgid, op_ProcessStartTime := st\<rparr>)"
    using complete_trimmed [OF assms] completeD [OF assms] u by (simp_all add: record_complete_def trim_record_def)
qed

text \<open>
  C33: the register is a finite map. As long as the file can be read and replaced, adding a record, removing one and
  changing its process, its unit or its blocking mark are the updates of a map from identifiers to records and
  touch no other record; loading returns the map sorted by identifier, each record once.
\<close>

theorem register_is_a_map:
  assumes f: "readable f" and io: "io_works io"
  shows "(record_complete r \<longrightarrow> registered (snd (upsertKworManagedOperation io r f)) = (registered f)(op_ID r \<mapsto> r))
    \<and> (valid_name i \<longrightarrow>
        registered (snd (removeKworManagedOperation io i f)) = (registered f)(i := None)
      \<and> registered (snd (SetBlockNewWork io now i block f)) = (registered f)(i := map_option (\<lambda>r. r\<lparr>op_BlockNewWork := block,
          op_BlockingSince := (if block then unix_seconds now else 0)\<rparr>) (registered f i))
      \<and> registered (snd (SetSystemdUnit io i unit f)) = (registered f)(i := map_option (\<lambda>r. r\<lparr>op_Unit := trim_space unit\<rparr>) (registered f i))
      \<and> (kworManagedOperationProcessIdentity hs pid i = Some st \<longrightarrow>
          registered (snd (SetProcess io hs i pid pgid f)) =
            (registered f)(i := map_option (\<lambda>r. r\<lparr>op_PID := pid, op_PGID := pgid, op_ProcessStartTime := st\<rparr>) (registered f i))))
    \<and> (\<exists>ops. loadKworManagedOperations io f = Inr ops \<and> sorted (map op_ID ops) \<and> distinct (map op_ID ops) \<and> record_of ops = registered f)"
proof (intro conjI impI)
  assume "record_complete r"
  then show "registered (snd (upsertKworManagedOperation io r f)) = (registered f)(op_ID r \<mapsto> r)"
    using upsert_register(2) [OF f io] by (metis prod.collapse)
next
  assume "valid_name i"
  then have i: "i \<noteq> []" "trim_space i = i" by (simp_all add: valid_name_def)
  show "registered (snd (removeKworManagedOperation io i f)) = (registered f)(i := None)"
    using remove_register(2) [OF f io i] by (metis prod.collapse)
  have set_ok: "registered (snd (updateKworManagedOperation io i u f)) = (registered f)(i := map_option u (registered f i))"
    if "\<And>r. record_complete r \<Longrightarrow> record_complete (u r)" "\<And>r. op_ID (u r) = op_ID r" for u
    using update_register(1) [OF f io i that] by (metis prod.collapse)
  show "registered (snd (SetBlockNewWork io now i block f)) = (registered f)(i := map_option (\<lambda>r. r\<lparr>op_BlockNewWork := block,
      op_BlockingSince := (if block then unix_seconds now else 0)\<rparr>) (registered f i))"
    using i by (simp add: SetBlockNewWork_def set_ok update_complete)
  show "registered (snd (SetSystemdUnit io i unit f)) = (registered f)(i := map_option (\<lambda>r. r\<lparr>op_Unit := trim_space unit\<rparr>) (registered f i))"
    using i by (simp add: SetSystemdUnit_def set_ok update_complete)
  assume "kworManagedOperationProcessIdentity hs pid i = Some st"
  then show "registered (snd (SetProcess io hs i pid pgid f)) =
      (registered f)(i := map_option (\<lambda>r. r\<lparr>op_PID := pid, op_PGID := pgid, op_ProcessStartTime := st\<rparr>) (registered f i))"
    using i by (simp add: SetProcess_def set_ok update_complete)
next
  obtain v where "loadKworManagedOperationsLocked io f = Inr v" "register_normal (Operations v)" "record_of (Operations v) = registered f"
    using load_register f io unfolding io_works_def by blast
  then show "\<exists>ops. loadKworManagedOperations io f = Inr ops \<and> sorted (map op_ID ops) \<and> distinct (map op_ID ops) \<and> record_of ops = registered f"
    using io by (auto simp: loadKworManagedOperations_def io_works_def register_normal_def)
qed

theorem register_is_a_map_witness:
  "registered (snd (SetBlockNewWork working_io 7000000000 ''a-1'' True
     (snd (upsertKworManagedOperation working_io (new_record ''a-1'' ''a'' 0) Absent)))) ''a-1''
   = Some ((new_record ''a-1'' ''a'' 0)\<lparr>op_BlockNewWork := True, op_BlockingSince := 7\<rparr>)"
proof -
  have c: "record_complete (new_record ''a-1'' ''a'' 0)" and v: "valid_name ''a-1''"
    by (simp_all add: record_complete_def valid_name_def trim_record_def new_record_def plain_char_def)
  have r: "readable Absent" by (simp add: readable_def)
  note m = register_is_a_map [OF r working_io_works(1), THEN conjunct1, rule_format, OF c]
  have r': "readable (snd (upsertKworManagedOperation working_io (new_record ''a-1'' ''a'' 0) Absent))"
    using file_register.add [OF r c] by blast
  show ?thesis
    using register_is_a_map [OF r' working_io_works(1), of _ "''a-1''" 7000000000 True] v m by (simp add: new_record_def unix_seconds_def)
qed

lemma upsert_success:
  assumes "upsertKworManagedOperation io r f = (None, f')"
  shows "io_works io" "readable f"
  using assms
  by (cases f; auto simp: upsertKworManagedOperation_def io_works_def readable_def Let_def loadKworManagedOperationsLocked_def
      saveKworManagedOperationsLocked_def writeKworLifecycleJSON_def split: if_splits option.splits write_outcome.splits)+

text \<open>
  a persistent operation is known from its beginning to its end. When an operation is granted, it is registered in
  memory and in the register file under its identifier; when it is done, its context is cancelled, its channel closed
  and both registrations are gone, and the records of all other operations are as before.
\<close>

lemma operation_registered_until_done:
  assumes b: "BeginKworManagedOperation e kind s = (Inr a, s')" and io: "io_works io"
  shows "\<exists>h. handle_at s' a = Some h \<and> \<not> h_cancelled h \<and> \<not> h_closed h \<and> map_of (kworLifecycleTasks s') (h_id h) = Some a
    \<and> registered (operations_file s') (h_id h) = Some (new_record (h_id h) (trim_space kind) (started_now e))
    \<and> handle_at (Done io a s') a = Some (h\<lparr>h_cancelled := True, h_closed := True\<rparr>)
    \<and> map_of (kworLifecycleTasks (Done io a s')) = (map_of (kworLifecycleTasks s'))(h_id h := None)
    \<and> registered (operations_file (Done io a s')) = (registered (operations_file s'))(h_id h := None)"
  using b unfolding BeginKworManagedOperation_def
proof (rule begin_granted)
  fix bs s1
  let ?i = "trim_space kind @ ''-'' @ hex_encode bs"
  let ?r = "new_record ?i (trim_space kind) (started_now e)"
  assume k: "trim_space kind \<noteq> []" and a: "a = length (handles s1)" and hs: "handles s' = handles s1 @ [new_handle ?i True]"
    and ts: "kworLifecycleTasks s' = AList.update ?i a (kworLifecycleTasks s1)"
    and "True \<Longrightarrow> upsertKworManagedOperation (upsert_io e) ?r (operations_file s1) = (None, operations_file s')"
  then have up: "upsertKworManagedOperation (upsert_io e) ?r (operations_file s1) = (None, operations_file s')" by simp
  have i: "?i \<noteq> []" "trim_space ?i = ?i" using operation_id_trimmed by simp_all
  have c: "record_complete ?r" using k i by (simp add: record_complete_def trim_record_def new_record_def)
  note reg = upsert_register [OF upsert_success(2) [OF up] upsert_success(1) [OF up] c up]
  let ?h = "new_handle ?i True"
  have h: "handle_at s' a = Some ?h" by (simp add: handle_at_def hs a)
  obtain x f where rm: "removeKworManagedOperation io ?i (operations_file s') = (x, f)" by force
  have d: "Done io a s' = s'\<lparr>handles := (handles s')[a := ?h\<lparr>h_cancelled := True, h_closed := True\<rparr>],
      kworLifecycleTasks := AList.delete ?i (kworLifecycleTasks s'), operations_file := f\<rparr>"
    unfolding Done_def h using rm by (simp add: new_handle_def)
  have ID: "op_ID ?r = ?i" by (simp add: new_record_def)
  show ?thesis
  proof (intro exI [of _ ?h] conjI)
    show "handle_at (Done io a s') a = Some (?h\<lparr>h_cancelled := True, h_closed := True\<rparr>)" unfolding d by (simp add: handle_at_def hs a)
    show "map_of (kworLifecycleTasks (Done io a s')) = (map_of (kworLifecycleTasks s'))(h_id ?h := None)"
      by (simp add: d new_handle_def AList.delete_conv')
    show "registered (operations_file (Done io a s')) = (registered (operations_file s'))(h_id ?h := None)"
      using remove_register(2) [OF reg(1) io i rm] by (simp add: d new_handle_def)
    show "registered (operations_file s') (h_id ?h) = Some (new_record (h_id ?h) (trim_space kind) (started_now e))"
      unfolding reg(2) ID by (simp add: new_handle_def)
  qed (simp_all add: h new_handle_def ts AList.update_conv')
qed

definition quiet_host :: host where
  "quiet_host = \<lparr>systemctl_show = \<lambda>_. ShowFailed [], regular_file = \<lambda>_. None, temp_dir = ''/tmp'',
     proc_stat = \<lambda>_. ProcAbsent, proc_environ = \<lambda>_. ProcAbsent, lifecyclePIDAlive = \<lambda>_. False, isKworSystemdHost = False,
     has_systemctl = False, unit_active = \<lambda>_. None\<rparr>"

definition example_work :: work_env where
  "example_work = \<lparr>state_io = working_io, uninstalling = Inr False, load_io = working_io, work_now = 0, host_for = \<lambda>_. quiet_host,
     remove_io = \<lambda>_. working_io, random_bytes = Some [0xA7], upsert_io = working_io, started_now = 0\<rparr>"

definition example_lifecycle :: lifecycle_state where
  "example_lifecycle = \<lparr>handles = [], kworLifecycleTasks = [], kworLifecycleQuiescing = False, operations_file = Absent, uninstall_file = Absent\<rparr>"

theorem operation_registered_until_done_example:
  "registered (operations_file (Done working_io 0 (snd (BeginKworManagedOperation example_work ''core'' example_lifecycle)))) ''core-a7'' = None"
proof -
  let ?b = "BeginKworManagedOperation example_work ''core'' example_lifecycle"
  have "(case fst ?b of Inr a \<Rightarrow> a = 0 | Inl _ \<Rightarrow> False) \<and> map_option h_id (handle_at (snd ?b) 0) = Some ''core-a7''" by code_simp
  then have b: "?b = (Inr 0, snd ?b)" "\<And>h. handle_at (snd ?b) 0 = Some h \<Longrightarrow> h_id h = ''core-a7''"
    by (auto simp: prod_eq_iff split: sum.splits)
  show ?thesis using operation_registered_until_done [OF b(1) working_io_works(1)] b(2) by auto
qed

end
