(* ===== verification/Lifecycle_Guarantees.thy ===== *)
theory Lifecycle_Guarantees
  imports Lifecycle_Register
begin

text \<open>
  When an operation may begin, and that quiescing leaves none behind: any number of goroutines begin, end,
  detach and finish operations and quiesce the panel, in any order, while other processes change the files.
\<close>

section \<open>The gate\<close>

definition blocks_new_work :: "work_env \<Rightarrow> KworManagedOperationRecord \<Rightarrow> bool" where
  "blocks_new_work e operation \<longleftrightarrow> op_BlockNewWork operation
     \<and> (managedOperationBlockingGraceActive operation (work_now e)
        \<or> kworManagedOperationAlive (host_for e (op_ID operation)) operation \<noteq> Inr False)"

lemma removal_succeeds:
  assumes "readable f" "valid_name i" "io_works io" "written io = Replaced"
  shows "\<exists>f'. removeKworManagedOperation io i f = (None, f') \<and> readable f'"
  using remove_register [OF assms(1,3)] assms(2,4) unfolding valid_name_def by (metis prod.collapse)

lemma clear_stale_iff:
  assumes "readable f" "\<forall>r \<in> set ops. valid_name (op_ID r)" "\<And>i. remove_io e i = working_io"
  shows "if \<forall>r \<in> set ops. \<not> blocks_new_work e r then \<exists>f'. clear_stale e ops f = (None, f') \<and> readable f'
    else fst (clear_stale e ops f) \<noteq> None"
  using assms(1,2)
proof (induction ops arbitrary: f)
  case (Cons r rs)
  let ?i = "op_ID r"
  obtain f' where rm: "removeKworManagedOperation (remove_io e ?i) ?i f = (None, f')" "readable f'"
    using removal_succeeds [of f ?i working_io] Cons.prems assms(3) by auto
  show ?case
  proof (cases "blocks_new_work e r")
    case True
    then have "fst (clear_stale e (r # rs) f) \<noteq> None"
      by (cases "kworManagedOperationAlive (host_for e ?i) r") (auto simp: blocks_new_work_def)
    then show ?thesis using True by simp
  next
    case False
    then have "clear_stale e (r # rs) f = clear_stale e rs (if op_BlockNewWork r then f' else f)"
      using rm(1) by (auto simp: blocks_new_work_def)
    then show ?thesis using Cons.IH [of "if op_BlockNewWork r then f' else f"] Cons.prems rm(2) False by simp
  qed
qed simp

lemma upsert_succeeds:
  assumes "readable f" "record_complete r"
  shows "\<exists>f'. upsertKworManagedOperation working_io r f = (None, f')"
  using upsert_register [OF assms(1) working_io_works(1) assms(2)] by (metis prod.collapse working_io_works(2))

lemma readable_loads:
  assumes "readable f"
  shows "\<exists>ops. loadKworManagedOperations working_io f = Inr ops \<and> (\<forall>r \<in> set ops. valid_name (op_ID r)) \<and> record_of ops = registered f
    \<and> distinct (map op_ID ops)"
proof -
  obtain v where v: "loadKworManagedOperationsLocked working_io f = Inr v" "register_normal (Operations v)" "record_of (Operations v) = registered f"
    using load_register [OF assms] working_io_works(1) unfolding io_works_def by blast
  then show ?thesis using normalD [OF v(2)] file_register.named
    by (auto simp: loadKworManagedOperations_def io_works_def working_io_def)
qed

text \<open>
  C31: when an operation may begin. With working files, an operation with a kind and an identifier is granted
  exactly if the panel is not quiescing, neither the state of a removal nor the ownership manifest blocks new
  work, and no recorded operation that blocks new work is within its grace period, alive or of unknown state.
\<close>

theorem operation_granted_iff:
  assumes io: "state_io e = working_io" "load_io e = working_io" "upsert_io e = working_io" "\<And>i. remove_io e i = working_io"
    and f: "readable (operations_file s)" and kind: "trim_space kind \<noteq> []" "random_bytes e \<noteq> None"
  shows "(\<exists>a s'. beginKworManagedOperation e kind persistent s = (Inr a, s')) \<longleftrightarrow>
    \<not> kworLifecycleQuiescing s \<and> uninstalling e = Inr False
    \<and> (case LoadKworUninstallLifecycleState working_io (uninstall_file s) of
         Inl _ \<Rightarrow> False | Inr None \<Rightarrow> True | Inr (Some st) \<Rightarrow> \<not> lifecycleStateBlocksNewWork st)
    \<and> (\<forall>i r. registered (operations_file s) i = Some r \<longrightarrow> \<not> blocks_new_work e r)"
proof -
  obtain bs where bs: "random_bytes e = Some bs" using kind(2) by blast
  obtain ops where ops: "loadKworManagedOperations working_io (operations_file s) = Inr ops"
    "\<forall>r \<in> set ops. valid_name (op_ID r)" "record_of ops = registered (operations_file s)" "distinct (map op_ID ops)"
    using readable_loads [OF f] by blast
  let ?gate = "ensureKworLifecycleAcceptsNewWorkLocked e s"
  let ?blocked = "\<exists>r \<in> set ops. blocks_new_work e r"
  have regs: "?blocked \<longleftrightarrow> (\<exists>i r. registered (operations_file s) i = Some r \<and> blocks_new_work e r)"
    using record_of_Some [OF ops(4)] ops(3) by auto
  have gate: "fst ?gate = None \<longleftrightarrow> \<not> kworLifecycleQuiescing s \<and> uninstalling e = Inr False
    \<and> (case LoadKworUninstallLifecycleState working_io (uninstall_file s) of
         Inl _ \<Rightarrow> False | Inr None \<Rightarrow> True | Inr (Some st) \<Rightarrow> \<not> lifecycleStateBlocksNewWork st) \<and> \<not> ?blocked"
    using clear_stale_iff [OF f ops(2) io(4)] ops(1) io(1,2)
    by (auto simp: ensureKworLifecycleAcceptsNewWorkLocked_def ensureNoBlockingKworManagedOperations_def split: sum.splits option.splits prod.splits if_splits)
  have "(\<exists>a s'. beginKworManagedOperation e kind persistent s = (Inr a, s')) \<longleftrightarrow> fst ?gate = None"
  proof
    assume "\<exists>a s'. beginKworManagedOperation e kind persistent s = (Inr a, s')"
    then show "fst ?gate = None" by (auto elim: begin_granted)
  next
    assume g: "fst ?gate = None"
    then obtain s1 where s1: "?gate = (None, s1)" by (metis prod.collapse)
    have r: "readable (operations_file s1)"
      using s1 gate g clear_stale_iff [OF f ops(2) io(4)] ops(1) io(1,2)
      by (auto simp: ensureKworLifecycleAcceptsNewWorkLocked_def ensureNoBlockingKworManagedOperations_def split: sum.splits option.splits prod.splits if_splits)
    let ?i = "trim_space kind @ ''-'' @ hex_encode bs"
    have "record_complete (new_record ?i (trim_space kind) (started_now e))"
      using kind(1) operation_id_trimmed by (simp add: record_complete_def trim_record_def new_record_def)
    then obtain f' where "upsertKworManagedOperation working_io (new_record ?i (trim_space kind) (started_now e)) (operations_file s1) = (None, f')"
      using upsert_succeeds [OF r] by blast
    then show "\<exists>a s'. beginKworManagedOperation e kind persistent s = (Inr a, s')"
      using kind(1) bs s1 io(3) by (cases persistent) (simp_all add: beginKworManagedOperation_def newHostOwnershipID_def Let_def)
  qed
  then show ?thesis using gate regs by auto
qed

theorem operation_granted_iff_witness:
  "\<exists>a s'. beginKworManagedOperation example_work ''core'' True example_lifecycle = (Inr a, s')"
proof -
  have w: "state_io example_work = working_io" "load_io example_work = working_io" "upsert_io example_work = working_io"
    "\<And>i. remove_io example_work i = working_io" "random_bytes example_work \<noteq> None" "uninstalling example_work = Inr False"
    by (simp_all add: example_work_def)
  have s: "readable (operations_file example_lifecycle)" "\<not> kworLifecycleQuiescing example_lifecycle"
    "registered (operations_file example_lifecycle) = Map.empty"
    "LoadKworUninstallLifecycleState working_io (uninstall_file example_lifecycle) = Inr None"
    by (simp_all add: readable_def registered_def example_lifecycle_def LoadKworUninstallLifecycleState_def
        loadKworUninstallLifecycleStateLocked_def working_io_def)
  have k: "trim_space ''core'' \<noteq> []" by (simp add: plain_char_def)
  show ?thesis using operation_granted_iff [OF w(1-4) s(1) k w(5), of True] w(6) s by simp
qed

section \<open>Quiescing\<close>

inductive lifecycle_step :: "lifecycle_state \<times> (nat \<Rightarrow> quiesce_pc) \<Rightarrow> lifecycle_state \<times> (nat \<Rightarrow> quiesce_pc) \<Rightarrow> bool" where
  begins: "beginKworManagedOperation e kind persistent s = (r, s') \<Longrightarrow> lifecycle_step (s, pc) (s', pc)"
| ends: "lifecycle_step (s, pc) (Done io a s, pc)"
| detaches: "lifecycle_step (s, pc) (Detach a s, pc)"
| finishes: "FinishKworManagedOperation io i s = (r, s') \<Longrightarrow> lifecycle_step (s, pc) (s', pc)"
| quiesces: "QuiesceKworManagedOperations q (pc n) s = (pc', s') \<Longrightarrow> lifecycle_step (s, pc) (s', pc(n := pc'))"
| files: "lifecycle_step (s, pc) (s\<lparr>operations_file := f, uninstall_file := g\<rparr>, pc)"

text \<open>The handles a quiescing goroutine still has to see.\<close>

fun to_see :: "quiesce_pc \<Rightarrow> nat set" where
  "to_see QuiesceIdle = UNIV"
| "to_see (QuiesceCancelling hs) = set hs"
| "to_see (QuiesceStopping hs) = set hs"
| "to_see (QuiesceWaiting hs) = set hs"
| "to_see (QuiesceReturned r) = (if r = None then {} else UNIV)"

definition has_cancelled :: "quiesce_pc \<Rightarrow> bool" where
  "has_cancelled p \<longleftrightarrow> (case p of QuiesceIdle \<Rightarrow> False | QuiesceCancelling _ \<Rightarrow> False | _ \<Rightarrow> True)"

definition tasks_open :: "lifecycle_state \<Rightarrow> bool" where
  "tasks_open s \<longleftrightarrow> (\<forall>i a. (i, a) \<in> set (kworLifecycleTasks s) \<longrightarrow> (\<exists>h. handle_at s a = Some h \<and> h_id h = i \<and> \<not> h_closed h))"

definition pc_ok :: "lifecycle_state \<Rightarrow> quiesce_pc \<Rightarrow> bool" where
  "pc_ok s p \<longleftrightarrow> (p \<noteq> QuiesceIdle \<longrightarrow> kworLifecycleQuiescing s)
     \<and> (\<forall>i a. (i, a) \<in> set (kworLifecycleTasks s) \<longrightarrow> a \<in> to_see p)
     \<and> (has_cancelled p \<longrightarrow> (\<forall>i a. (i, a) \<in> set (kworLifecycleTasks s) \<longrightarrow> (\<exists>h. handle_at s a = Some h \<and> h_cancelled h)))"

definition quiesce_inv :: "lifecycle_state \<times> (nat \<Rightarrow> quiesce_pc) \<Rightarrow> bool" where
  "quiesce_inv sp \<longleftrightarrow> tasks_open (fst sp) \<and> (\<forall>n. pc_ok (fst sp) (snd sp n))"

text \<open>A change that only ends, cancels or unregisters operations keeps the invariant.\<close>

definition shrinks :: "lifecycle_state \<Rightarrow> lifecycle_state \<Rightarrow> bool" where
  "shrinks s s' \<longleftrightarrow> (kworLifecycleQuiescing s \<longrightarrow> kworLifecycleQuiescing s')
     \<and> set (kworLifecycleTasks s') \<subseteq> set (kworLifecycleTasks s)
     \<and> (\<forall>i a h. (i, a) \<in> set (kworLifecycleTasks s') \<and> handle_at s a = Some h \<and> h_id h = i \<and> \<not> h_closed h \<longrightarrow>
          (\<exists>h'. handle_at s' a = Some h' \<and> h_id h' = i \<and> \<not> h_closed h' \<and> (h_cancelled h \<longrightarrow> h_cancelled h')))"

lemma shrinks_keeps:
  assumes sh: "shrinks s s'" and op: "tasks_open s"
  shows "tasks_open s'" "pc_ok s p \<Longrightarrow> pc_ok s' p"
proof -
  have entry: "\<exists>h h'. handle_at s a = Some h \<and> handle_at s' a = Some h' \<and> h_id h' = i \<and> \<not> h_closed h' \<and> (h_cancelled h \<longrightarrow> h_cancelled h')"
    if "(i, a) \<in> set (kworLifecycleTasks s')" for i a
    using that sh op unfolding shrinks_def tasks_open_def by (meson subsetD)
  then show "tasks_open s'" unfolding tasks_open_def by blast
  assume p: "pc_ok s p"
  have sub: "(i, a) \<in> set (kworLifecycleTasks s)" if "(i, a) \<in> set (kworLifecycleTasks s')" for i a
    using that sh unfolding shrinks_def by blast
  show "pc_ok s' p" unfolding pc_ok_def
  proof (intro conjI allI impI)
    show "kworLifecycleQuiescing s'" if "p \<noteq> QuiesceIdle" using that p sh unfolding pc_ok_def shrinks_def by blast
    fix i a assume m: "(i, a) \<in> set (kworLifecycleTasks s')"
    show "a \<in> to_see p" using p sub [OF m] unfolding pc_ok_def by blast
    assume "has_cancelled p"
    then obtain h where "handle_at s a = Some h" "h_cancelled h" using p sub [OF m] unfolding pc_ok_def by blast
    then show "\<exists>h. handle_at s' a = Some h \<and> h_cancelled h" using entry [OF m] by auto
  qed
qed

lemma shrinks_refl: "shrinks s s"
  by (auto simp: shrinks_def)

lemma shrinks_file: "shrinks s (s\<lparr>operations_file := f, uninstall_file := g\<rparr>)" "shrinks s (s\<lparr>operations_file := f\<rparr>)"
  by (auto simp: shrinks_def handle_at_def)

lemma delete_subset: "set (AList.delete i al) = {(k, v) \<in> set al. k \<noteq> i}"
  by (auto simp: AList.delete_eq)

lemma update_subset: "set (AList.update k v al) \<subseteq> insert (k, v) (set al)"
  by (induction al) auto

lemma shrinks_Done: "shrinks s (Done io a s)"
proof (cases "handle_at s a")
  case None
  then show ?thesis by (simp add: Done_def shrinks_refl)
next
  case (Some h)
  show ?thesis
  proof (cases "h_closed h")
    case True
    then show ?thesis using Some by (simp add: Done_def shrinks_refl)
  next
    case False
    have t: "kworLifecycleTasks (Done io a s) = AList.delete (h_id h) (kworLifecycleTasks s)"
      and hs: "handles (Done io a s) = (handles s)[a := h\<lparr>h_cancelled := True, h_closed := True\<rparr>]"
      and q: "kworLifecycleQuiescing (Done io a s) = kworLifecycleQuiescing s"
      using Some False by (simp_all add: Done_def Let_def)
    have "handle_at (Done io a s) b = Some g" if "handle_at s b = Some g" "h_id g \<noteq> h_id h" for b g
      using that Some by (cases "b = a") (simp_all add: handle_at_def hs split: if_splits)
    then show ?thesis unfolding shrinks_def t q delete_subset by blast
  qed
qed

lemma shrinks_Detach: "shrinks s (Detach a s)"
proof (cases "handle_at s a")
  case None
  then show ?thesis by (simp add: Detach_def shrinks_refl)
next
  case (Some h)
  have "set (kworLifecycleTasks (Detach a s)) \<subseteq> set (kworLifecycleTasks s)"
    using Some by (auto simp: Detach_def Let_def delete_subset)
  moreover have "kworLifecycleQuiescing (Detach a s) = kworLifecycleQuiescing s" using Some by (simp add: Detach_def Let_def)
  moreover have "\<exists>h'. handle_at (Detach a s) b = Some h' \<and> h_id h' = h_id g \<and> h_closed h' = h_closed g \<and> h_cancelled h' = h_cancelled g"
    if "handle_at s b = Some g" for b g
    using that Some by (auto simp: Detach_def Let_def handle_at_def nth_list_update split: if_splits)
  ultimately show ?thesis unfolding shrinks_def by fastforce
qed

lemma cancel_all:
  "kworLifecycleTasks (fold cancel_handle hs s) = kworLifecycleTasks s"
  "kworLifecycleQuiescing (fold cancel_handle hs s) = kworLifecycleQuiescing s"
  "handle_at (fold cancel_handle hs s) b = map_option (\<lambda>h. if b \<in> set hs then h\<lparr>h_cancelled := True\<rparr> else h) (handle_at s b)"
proof (induction hs arbitrary: s)
  case (Cons a hs)
  have c: "kworLifecycleTasks (cancel_handle a s) = kworLifecycleTasks s" "kworLifecycleQuiescing (cancel_handle a s) = kworLifecycleQuiescing s"
    for s :: lifecycle_state
    by (simp_all add: cancel_handle_def split: option.split)
  { case 1 show ?case using Cons(1) c by simp }
  { case 2 show ?case using Cons(2) c by simp }
  { case 3 show ?case using Cons(3) by (cases "handle_at s b") simp_all }
qed (simp_all add: option.map_ident)

lemma shrinks_cancel: "shrinks s (fold cancel_handle hs s)"
  unfolding shrinks_def by (auto simp: cancel_all)

lemma begin_quiescing:
  assumes "kworLifecycleQuiescing s"
  shows "\<exists>err. beginKworManagedOperation e kind persistent s = (Inl err, s)"
proof -
  have g: "ensureKworLifecycleAcceptsNewWorkLocked e s = (Some QuiesceRunning, s)"
    using assms by (simp add: ensureKworLifecycleAcceptsNewWorkLocked_def)
  show ?thesis unfolding beginKworManagedOperation_def Let_def g by (cases "newHostOwnershipID (random_bytes e)") auto
qed

lemma gate_keeps:
  assumes "ensureKworLifecycleAcceptsNewWorkLocked e s = (ge, s1)"
  shows "\<exists>f. s1 = s\<lparr>operations_file := f\<rparr>"
proof -
  have "\<exists>f. s = s\<lparr>operations_file := f\<rparr>" by (rule exI [of _ "operations_file s"]) simp
  moreover have "s1 = s \<or> (\<exists>f. s1 = s\<lparr>operations_file := f\<rparr>)"
    using assms unfolding ensureKworLifecycleAcceptsNewWorkLocked_def by (auto split: if_splits sum.splits prod.splits)
  ultimately show ?thesis by metis
qed

text \<open>Either nothing is registered, or the new handle, and at most under its identifier.\<close>

lemma begin_shape:
  assumes "beginKworManagedOperation e kind persistent s = (r, s')"
  obtains (refused) f where "s' = s\<lparr>operations_file := f\<rparr>"
  | (granted) i f h ts where "s' = s\<lparr>handles := handles s @ [h], kworLifecycleTasks := ts, operations_file := f\<rparr>" "h_id h = i" "\<not> h_closed h"
      "ts = AList.update i (length (handles s)) (kworLifecycleTasks s) \<or> ts = AList.delete i (AList.update i (length (handles s)) (kworLifecycleTasks s))"
proof -
  have same: "s = s\<lparr>operations_file := operations_file s\<rparr>" by simp
  consider "trim_space kind = [] \<or> random_bytes e = None" | bs where "trim_space kind \<noteq> []" "random_bytes e = Some bs" by fastforce
  then show ?thesis
  proof cases
    case 1
    then have "s' = s" using assms by (auto simp: beginKworManagedOperation_def newHostOwnershipID_def Let_def split: if_splits)
    then show ?thesis using refused same by metis
  next
    case (2 bs)
    let ?i = "trim_space kind @ ''-'' @ hex_encode bs"
    obtain ge s1 where g: "ensureKworLifecycleAcceptsNewWorkLocked e s = (ge, s1)" by force
    obtain f1 where s1: "s1 = s\<lparr>operations_file := f1\<rparr>" using gate_keeps [OF g] by blast
    show ?thesis
    proof (cases ge)
      case (Some err)
      then have "s' = s1" using assms 2 g by (simp add: beginKworManagedOperation_def newHostOwnershipID_def Let_def)
      then show ?thesis using refused s1 by blast
    next
      case None
      let ?h = "new_handle ?i persistent" and ?ts = "AList.update ?i (length (handles s)) (kworLifecycleTasks s)"
      have h: "h_id ?h = ?i" "\<not> h_closed ?h" by (simp_all add: new_handle_def)
      obtain x f where up: "upsertKworManagedOperation (upsert_io e) (new_record ?i (trim_space kind) (started_now e)) f1 = (x, f)" by force
      have begin_eq: "(r, s') = (if \<not> persistent then (Inr (length (handles s)), s1\<lparr>handles := handles s @ [?h], kworLifecycleTasks := ?ts\<rparr>)
          else case x of
            None \<Rightarrow> (Inr (length (handles s)), s1\<lparr>handles := handles s @ [?h], kworLifecycleTasks := ?ts, operations_file := f\<rparr>)
          | Some err \<Rightarrow> (Inl err, cancel_handle (length (handles s))
              (s1\<lparr>handles := handles s @ [?h], operations_file := f, kworLifecycleTasks := AList.delete ?i ?ts\<rparr>)))"
        using assms 2 g None up
        by (cases persistent; cases x) (auto simp: beginKworManagedOperation_def newHostOwnershipID_def Let_def s1)
      show ?thesis
      proof (cases "persistent \<and> x \<noteq> None")
        case False
        then have "s' = s\<lparr>handles := handles s @ [?h], kworLifecycleTasks := ?ts, operations_file := (if persistent then f else f1)\<rparr>"
          using begin_eq by (auto simp: s1)
        then show ?thesis using granted h by blast
      next
        case True
        then have "s' = s\<lparr>handles := handles s @ [?h\<lparr>h_cancelled := True\<rparr>], kworLifecycleTasks := AList.delete ?i ?ts, operations_file := f\<rparr>"
          using begin_eq by (auto simp: s1 cancel_handle_def handle_at_def intro: lifecycle_state.equality)
        then show ?thesis using granted [where h = "?h\<lparr>h_cancelled := True\<rparr>" and i = ?i] h by simp
      qed
    qed
  qed
qed

lemma begin_open:
  assumes b: "beginKworManagedOperation e kind persistent s = (r, s')" and op: "tasks_open s"
  shows "tasks_open s' \<and> kworLifecycleQuiescing s' = kworLifecycleQuiescing s"
  using b
proof (cases rule: begin_shape)
  case (refused f)
  then have "handle_at s' a = handle_at s a" for a by (simp add: handle_at_def)
  then show ?thesis using op by (simp add: tasks_open_def refused)
next
  case (granted i f h ts)
  have old: "handle_at s' b = handle_at s b" if "handle_at s b \<noteq> None" for b
    using that by (auto simp: handle_at_def granted(1) nth_append split: if_splits)
  have new: "handle_at s' (length (handles s)) = Some h" by (simp add: handle_at_def granted(1))
  have ts: "set ts \<subseteq> insert (i, length (handles s)) (set (kworLifecycleTasks s))"
    using granted(4) update_subset by (fastforce simp: delete_subset)
  have "\<exists>h. handle_at s' a = Some h \<and> h_id h = j \<and> \<not> h_closed h" if "(j, a) \<in> set (kworLifecycleTasks s')" for j a
  proof (cases "(j, a) = (i, length (handles s))")
    case True
    then show ?thesis using new granted(2,3) by simp
  next
    case False
    then have "(j, a) \<in> set (kworLifecycleTasks s)" using that ts by (auto simp: granted(1))
    then obtain g where "handle_at s a = Some g" "h_id g = j" "\<not> h_closed g" using op unfolding tasks_open_def by blast
    then show ?thesis using old [of a] by simp
  qed
  then show ?thesis by (simp add: tasks_open_def granted(1))
qed

lemma shrinks_Finish:
  assumes "FinishKworManagedOperation io i s = (r, s')"
  shows "shrinks s s'"
  using assms shrinks_refl shrinks_Done shrinks_file(2)
  by (auto simp: FinishKworManagedOperation_def Let_def split: if_splits option.splits prod.splits)

lemma quiesce_keeps:
  assumes q: "QuiesceKworManagedOperations q p s = (p', s')" and op: "tasks_open s" and p: "pc_ok s p"
  shows "shrinks s s' \<and> pc_ok s' p'"
proof (cases p)
  case QuiesceIdle
  then have s': "s' = s\<lparr>kworLifecycleQuiescing := True\<rparr>" "p' = QuiesceCancelling (map snd (kworLifecycleTasks s))"
    using q by (simp_all add: QuiesceKworManagedOperations_def)
  have "handle_at s' a = handle_at s a" for a by (simp add: s' handle_at_def)
  then show ?thesis unfolding shrinks_def pc_ok_def by (auto simp: s' has_cancelled_def image_iff intro: rev_bexI)
next
  case (QuiesceCancelling hs)
  then have s': "s' = fold cancel_handle hs s" "p' = QuiesceStopping hs" using q by (simp_all add: QuiesceKworManagedOperations_def)
  have sh: "shrinks s s'" unfolding s' by (rule shrinks_cancel)
  have "\<exists>h. handle_at s' a = Some h \<and> h_cancelled h" if m: "(i, a) \<in> set (kworLifecycleTasks s')" for i a
  proof -
    have m': "(i, a) \<in> set (kworLifecycleTasks s)" using m by (simp add: s' cancel_all)
    then have "a \<in> set hs" using p unfolding pc_ok_def QuiesceCancelling by simp
    moreover obtain h where "handle_at s a = Some h" using op m' unfolding tasks_open_def by blast
    ultimately show ?thesis by (simp add: s' cancel_all)
  qed
  moreover have "kworLifecycleQuiescing s'" "\<forall>i a. (i, a) \<in> set (kworLifecycleTasks s') \<longrightarrow> a \<in> set hs"
    using p unfolding pc_ok_def QuiesceCancelling by (simp_all add: s' cancel_all)
  ultimately show ?thesis using sh unfolding pc_ok_def s'(2) by auto
next
  case (QuiesceStopping hs)
  then obtain f where s': "s' = s\<lparr>operations_file := f\<rparr>" "p' = QuiesceWaiting hs \<or> (\<exists>e. p' = QuiesceReturned (Some e))"
    using q by (auto simp: QuiesceKworManagedOperations_def quiesce_records_def split: sum.splits prod.splits option.splits
        intro: that [of "operations_file s"])
  have sh: "shrinks s s'" unfolding s' by (rule shrinks_file)
  have "pc_ok s' (QuiesceStopping hs)" using shrinks_keeps(2) [OF sh op] p QuiesceStopping by simp
  then show ?thesis using sh s'(2) unfolding pc_ok_def has_cancelled_def by auto
next
  case (QuiesceWaiting hs)
  then have s': "s' = s" "p' = quiesce_wait (deadline_passed q) hs s" using q by (auto simp: QuiesceKworManagedOperations_def)
  have "pc_ok s p'"
  proof (cases hs)
    case Nil
    then show ?thesis using p QuiesceWaiting by (simp add: s' pc_ok_def has_cancelled_def)
  next
    case (Cons a as)
    show ?thesis
    proof (cases "(\<exists>i. (i, a) \<in> set (kworLifecycleTasks s))")
      case True
      then obtain h where "handle_at s a = Some h" "\<not> h_closed h" using op unfolding tasks_open_def by blast
      then have "p' = QuiesceWaiting hs \<or> (\<exists>e. p' = QuiesceReturned (Some e))" by (simp add: s' Cons)
      then show ?thesis using p QuiesceWaiting by (auto simp: pc_ok_def has_cancelled_def)
    next
      case False
      have "p' = QuiesceWaiting as \<or> p' = QuiesceWaiting hs \<or> (\<exists>e. p' = QuiesceReturned (Some e))"
        by (auto simp: s' Cons split: option.split)
      moreover have "\<forall>i b. (i, b) \<in> set (kworLifecycleTasks s) \<longrightarrow> b \<in> set as"
        using p False unfolding pc_ok_def QuiesceWaiting Cons by (metis set_ConsD to_see.simps(4))
      ultimately show ?thesis using p QuiesceWaiting by (auto simp: pc_ok_def has_cancelled_def)
    qed
  qed
  then show ?thesis using shrinks_refl by (simp add: s')
next
  case (QuiesceReturned x)
  then show ?thesis using q p shrinks_refl by (auto simp: QuiesceKworManagedOperations_def)
qed

lemma lifecycle_step_keeps:
  assumes "lifecycle_step sp sp'" "quiesce_inv sp"
  shows "quiesce_inv sp'"
  using assms
proof (induction rule: lifecycle_step.induct)
  case (begins e kind persistent s r s' pc)
  show ?case
  proof (cases "kworLifecycleQuiescing s")
    case True
    then have "s' = s" using begin_quiescing [of s e kind persistent] begins(1) by auto
    then show ?thesis using begins(2) by simp
  next
    case False
    have op: "tasks_open s" and ps: "\<forall>n. pc_ok s (pc n)" using begins(2) by (simp_all add: quiesce_inv_def)
    have "pc n = QuiesceIdle" for n using ps False unfolding pc_ok_def by blast
    then show ?thesis using begin_open [OF begins(1) op] False by (simp add: quiesce_inv_def pc_ok_def has_cancelled_def)
  qed
next
  case (ends s pc io a)
  then show ?case using shrinks_keeps [OF shrinks_Done] unfolding quiesce_inv_def by auto
next
  case (detaches s pc a)
  then show ?case using shrinks_keeps [OF shrinks_Detach] unfolding quiesce_inv_def by auto
next
  case (finishes io i s r s' pc)
  then show ?case using shrinks_keeps [OF shrinks_Finish [OF finishes(1)]] unfolding quiesce_inv_def by auto
next
  case (quiesces q pc n s pc' s')
  have op: "tasks_open s" and ps: "\<And>k. pc_ok s (pc k)" using quiesces(2) by (simp_all add: quiesce_inv_def)
  note k = quiesce_keeps [OF quiesces(1) op ps]
  have "pc_ok s' ((pc(n := pc')) j)" for j using k shrinks_keeps(2) [OF _ op ps] by auto
  then show ?case using k shrinks_keeps(1) [OF _ op] unfolding quiesce_inv_def by auto
next
  case (files s pc f g)
  then show ?case using shrinks_keeps [OF shrinks_file(1)] unfolding quiesce_inv_def by auto
qed

lemma lifecycle_run_keeps: "lifecycle_step\<^sup>*\<^sup>* sp sp' \<Longrightarrow> quiesce_inv sp \<Longrightarrow> quiesce_inv sp'"
  by (induction rule: rtranclp_induct) (auto intro: lifecycle_step_keeps)

lemma returned_stays:
  assumes "lifecycle_step\<^sup>*\<^sup>* sp sp'" "snd sp n = QuiesceReturned r"
  shows "snd sp' n = QuiesceReturned r"
  using assms
proof (induction rule: rtranclp_induct)
  case (step y z)
  from step.hyps(2) step.IH [OF step.prems] show ?case
    by (induction rule: lifecycle_step.induct) (auto simp: QuiesceKworManagedOperations_def split: if_splits)
qed

text \<open>
  C15: quiescing leaves nothing behind. Let any number of goroutines begin, end, detach and finish operations and quiesce, in any
  interleaving, while other processes change the files. Once one call of \<open>Quiesce\<close> has returned without an error,
  no operation is registered in the process, and none will ever be granted again; and even if it returned with an error,
  the context of every operation that is still registered is cancelled.
\<close>

theorem quiesced_for_good:
  assumes start: "kworLifecycleTasks s0 = []"
    and run: "lifecycle_step\<^sup>*\<^sup>* (s0, \<lambda>_. QuiesceIdle) (s, pc)" "pc n = QuiesceReturned r" "lifecycle_step\<^sup>*\<^sup>* (s, pc) (s', pc')"
  shows "(r = None \<longrightarrow> kworLifecycleTasks s' = [])
    \<and> (\<exists>err. fst (beginKworManagedOperation e kind persistent s') = Inl err)
    \<and> (\<forall>i a. (i, a) \<in> set (kworLifecycleTasks s') \<longrightarrow> (\<exists>h. handle_at s' a = Some h \<and> h_cancelled h))"
proof -
  have "quiesce_inv (s0, \<lambda>_. QuiesceIdle)" using start by (simp add: quiesce_inv_def tasks_open_def pc_ok_def has_cancelled_def)
  then have "quiesce_inv (s', pc')" using lifecycle_run_keeps run(1,3) by blast
  then have "pc_ok s' (pc' n)" by (simp add: quiesce_inv_def)
  moreover have pc': "pc' n = QuiesceReturned r" using returned_stays [OF run(3)] run(2) by simp
  ultimately have "kworLifecycleQuiescing s'" and see: "\<forall>i a. (i, a) \<in> set (kworLifecycleTasks s') \<longrightarrow> a \<in> to_see (QuiesceReturned r)"
    and c: "\<forall>i a. (i, a) \<in> set (kworLifecycleTasks s') \<longrightarrow> (\<exists>h. handle_at s' a = Some h \<and> h_cancelled h)"
    by (auto simp: pc_ok_def has_cancelled_def)
  then have "\<exists>err. fst (beginKworManagedOperation e kind persistent s') = Inl err"
    using begin_quiescing [of s' e kind persistent] by auto
  moreover have "kworLifecycleTasks s' = []" if "r = None"
    using see that by (cases "kworLifecycleTasks s'") (simp, metis empty_iff list.set_intros(1) surj_pair to_see.simps(5))
  ultimately show ?thesis using c by blast
qed

definition example_terminate :: terminate_env where
  "example_terminate = \<lparr>at_unit = quiet_host, at_stopped = quiet_host, at_check = quiet_host, at_wait = [], at_recheck = quiet_host,
     at_wait_again = [], kill_ok = \<lambda>_. True, own_group = 1\<rparr>"

definition example_quiesce :: "quiesce_pc \<times> lifecycle_state \<Rightarrow> quiesce_pc \<times> lifecycle_state" where
  "example_quiesce ps = QuiesceKworManagedOperations \<lparr>q_load_io = working_io, q_terminate = \<lambda>_. example_terminate,
     q_remove_io = \<lambda>_. working_io, deadline_passed = False\<rparr> (fst ps) (snd ps)"

text \<open>One operation runs, the panel is quiesced, the operation ends while \<open>Quiesce\<close> waits for it.\<close>

definition example_waiting :: "quiesce_pc \<times> lifecycle_state" where
  "example_waiting = example_quiesce (example_quiesce (example_quiesce
     (QuiesceIdle, snd (beginKworManagedOperation example_work ''core'' True example_lifecycle))))"

definition example_quiesced :: "quiesce_pc \<times> lifecycle_state" where
  "example_quiesced = example_quiesce (example_quiesce (fst example_waiting, Done working_io 0 (snd example_waiting)))"

lemma example_quiesce_step: "lifecycle_step (s, (\<lambda>_. QuiesceIdle)(0 := p))
    (snd (example_quiesce (p, s)), (\<lambda>_. QuiesceIdle)(0 := fst (example_quiesce (p, s))))"
  using lifecycle_step.quiesces [where n = 0 and pc = "(\<lambda>_. QuiesceIdle)(0 := p)" and s = s]
  by (simp add: example_quiesce_def prod_eq_iff)

lemma example_quiesce_run:
  "lifecycle_step\<^sup>*\<^sup>* (example_lifecycle, \<lambda>_. QuiesceIdle) (snd example_quiesced, (\<lambda>_. QuiesceIdle)(0 := fst example_quiesced))"
proof -
  let ?P = "\<lambda>p. (\<lambda>_. QuiesceIdle)(0 := p)"
  have q: "lifecycle_step\<^sup>*\<^sup>* x (snd ps, ?P (fst ps)) \<Longrightarrow>
      lifecycle_step\<^sup>*\<^sup>* x (snd (example_quiesce ps), ?P (fst (example_quiesce ps)))" for x ps
    using example_quiesce_step [of "snd ps" "fst ps"] by (simp add: rtranclp.rtrancl_into_rtrancl)
  let ?b = "beginKworManagedOperation example_work ''core'' True example_lifecycle"
  have "lifecycle_step (example_lifecycle, \<lambda>_. QuiesceIdle) (snd ?b, \<lambda>_. QuiesceIdle)" by (rule begins) (rule prod.collapse [symmetric])
  then have "lifecycle_step\<^sup>*\<^sup>* (example_lifecycle, \<lambda>_. QuiesceIdle) (snd (QuiesceIdle, snd ?b), ?P (fst (QuiesceIdle, snd ?b)))"
    by (simp add: fun_upd_idem r_into_rtranclp)
  then have "lifecycle_step\<^sup>*\<^sup>* (example_lifecycle, \<lambda>_. QuiesceIdle) (snd example_waiting, ?P (fst example_waiting))"
    unfolding example_waiting_def by (intro q)
  then have "lifecycle_step\<^sup>*\<^sup>* (example_lifecycle, \<lambda>_. QuiesceIdle)
      (snd (fst example_waiting, Done working_io 0 (snd example_waiting)), ?P (fst (fst example_waiting, Done working_io 0 (snd example_waiting))))"
    using ends by (simp add: rtranclp.rtrancl_into_rtrancl)
  then show ?thesis unfolding example_quiesced_def by (intro q)
qed

theorem quiesced_for_good_witness:
  "kworLifecycleTasks (snd example_quiesced) = []
   \<and> (\<exists>err. fst (beginKworManagedOperation example_work ''core'' True (snd example_quiesced)) = Inl err)"
proof -
  have start: "kworLifecycleTasks example_lifecycle = []" by (simp add: example_lifecycle_def)
  have "fst example_quiesced = QuiesceReturned None" by code_simp
  then have r: "((\<lambda>_. QuiesceIdle)(0 := fst example_quiesced)) (0::nat) = QuiesceReturned None" by simp
  show ?thesis using quiesced_for_good [OF start example_quiesce_run r rtranclp.rtrancl_refl] by blast
qed

end
