(* ===== verification/Uninstall_Guarantees.thy ===== *)
theory Uninstall_Guarantees
  imports Uninstall_State
begin

text \<open>
  Only a process that is proven to be the recorded one is signalled, the proof finds what the panel left in the child,
  and a reserved removal of the panel stays with the caller that reserved it.
\<close>

section \<open>Signals\<close>

definition proven_owned :: "host \<Rightarrow> KworManagedOperationRecord \<Rightarrow> bool" where
  "proven_owned h operation \<longleftrightarrow> 0 < op_PID operation \<and> op_ProcessStartTime operation \<noteq> 0
     \<and> kworLifecycleProcessStartTime h (op_PID operation) = Inr (op_ProcessStartTime operation)
     \<and> kworProcessEnvironmentHasOperationID h (op_PID operation) (op_ID operation) = Inr True"

lemma matches_proven: "kworManagedOperationProcessMatches h operation = Inr True \<longleftrightarrow> proven_owned h operation"
  by (auto simp: kworManagedOperationProcessMatches_def proven_owned_def split: sum.splits identity_error.splits if_splits)

definition look_before :: "terminate_env \<Rightarrow> unix_signal \<Rightarrow> host" where
  "look_before e sig = (case sig of SIGTERM \<Rightarrow> at_check e | SIGKILL \<Rightarrow> at_recheck e)"

definition action_allowed :: "terminate_env \<Rightarrow> KworManagedOperationRecord \<Rightarrow> process_action \<Rightarrow> bool" where
  "action_allowed e operation act = (case act of
     StopUnit u \<Rightarrow> u = trim_space (op_Unit operation) \<and> u \<noteq> []
       \<and> unit_proven (at_unit e) u (op_ID operation) (0 < op_ProcessStartTime operation)
   | SignalGroup g sig \<Rightarrow> g = op_PGID operation \<and> 0 < g \<and> g \<noteq> own_group e \<and> proven_owned (look_before e sig) operation
   | SignalPID p sig \<Rightarrow> p = op_PID operation \<and> 0 < p \<and> op_PGID operation \<le> 0 \<and> proven_owned (look_before e sig) operation)"

lemma signal_twice_actions:
  assumes "kworManagedOperationProcessMatches (at_check e) operation = Inr True" "a \<in> set (snd (signal_twice e operation act))"
  shows "\<exists>sig. a = act sig \<and> proven_owned (look_before e sig) operation"
  using assms
  by (auto simp: signal_twice_def look_before_def matches_proven [symmetric] split: if_splits sum.splits)

lemma signal_process_actions:
  assumes "a \<in> set (snd (signal_process e operation))"
  shows "action_allowed e operation a"
proof (cases "kworManagedOperationProcessMatches (at_check e) operation")
  case (Inr owned)
  then have own: owned using assms by (cases owned) (auto simp: signal_process_def)
  show ?thesis
    using assms own Inr signal_twice_actions [of e operation a "SignalGroup (op_PGID operation)"]
      signal_twice_actions [of e operation a "SignalPID (op_PID operation)"]
    by (auto simp: signal_process_def action_allowed_def split: if_splits)
qed (use assms in \<open>simp add: signal_process_def\<close>)

text \<open>
  C23: only what is proven to belong to an operation is stopped. Whatever the host answers between the looks, each signal goes to the
  recorded process or its group, never to the group of the panel, right after a look at which the start time of the process
  and the operation token in its environment matched the record; a second, killing signal needs a second such look; and a
  unit is stopped only when its name is that of an update and either systemd does not know it, or it starts the marked script of
  an update workspace in that workspace and, for an operation with a recorded process, carries the token of the operation.
\<close>

theorem only_owned_processes_signalled:
  assumes "a \<in> set (snd (terminateKworManagedOperation e operation))"
  shows "action_allowed e operation a"
proof (cases "trim_space (op_Unit operation) \<noteq> [] \<and> isKworSystemdHost (at_unit e)")
  case True
  let ?u = "trim_space (op_Unit operation)"
  have "verifyKworPanelUpdateSystemdUnit (at_unit e) ?u (op_ID operation) (0 < op_ProcessStartTime operation) = Some True"
    using assms True by (auto simp: terminateKworManagedOperation_def Let_def split: if_splits option.splits bool.splits)
  then have owned: "unit_proven (at_unit e) ?u (op_ID operation) (0 < op_ProcessStartTime operation)" by (simp add: verify_unit)
  have "a = StopUnit ?u \<or> a \<in> set (snd (signal_process e operation))"
    using assms True by (auto simp: terminateKworManagedOperation_def Let_def split: if_splits option.splits bool.splits prod.splits)
  then show ?thesis using signal_process_actions owned True by (auto simp: action_allowed_def)
next
  case False
  then show ?thesis using assms signal_process_actions by (auto simp: terminateKworManagedOperation_def Let_def)
qed

definition example_operation :: KworManagedOperationRecord where
  "example_operation = \<lparr>op_ID = ''core-a7'', op_Kind = ''core'', op_PID = 41, op_PGID = 40, op_ProcessStartTime = 9, op_Unit = [],
     op_BlockNewWork = False, op_BlockingSince = 0, op_StartedAt = 0\<rparr>"

definition example_child :: host where
  "example_child = \<lparr>systemctl_show = systemctl_show example_unit_host, regular_file = regular_file example_unit_host, temp_dir = temp_dir example_unit_host,
     proc_stat = \<lambda>_. ProcText (''41 (core) S 1 2 3 4 5 6 7 8 9 10 11 12 13 14 15 16 17 18 9 0''),
     proc_environ = \<lambda>_. ProcText (''KWOR_LIFECYCLE_OPERATION_ID=core-a7'' @ [CHR 0x00]), lifecyclePIDAlive = \<lambda>_. True, isKworSystemdHost = False,
     has_systemctl = False, unit_active = \<lambda>_. None\<rparr>"

definition example_stop :: terminate_env where
  "example_stop = \<lparr>at_unit = example_child, at_stopped = example_child, at_check = example_child, at_wait = [example_child],
     at_recheck = example_child, at_wait_again = [example_child\<lparr>proc_stat := \<lambda>_. ProcAbsent\<rparr>], kill_ok = \<lambda>_. True, own_group = 1\<rparr>"

theorem only_owned_processes_signalled_witness: "action_allowed example_stop example_operation (SignalGroup 40 SIGKILL)"
proof -
  have "terminateKworManagedOperation example_stop example_operation = (True, [SignalGroup 40 SIGTERM, SignalGroup 40 SIGKILL])" by code_simp
  then show ?thesis using only_owned_processes_signalled [of "SignalGroup 40 SIGKILL" example_stop example_operation] by simp
qed

section \<open>What a child carries\<close>

definition environ_text :: "string list \<Rightarrow> string" where
  \<comment> \<open>the file \<open>environ\<close> of a process: every entry is followed by a zero byte\<close>
  "environ_text entries = concat (map (\<lambda>entry. entry @ [CHR 0x00]) entries)"

lemma split_environ: "\<forall>entry \<in> set entries. CHR 0x00 \<notin> set entry \<Longrightarrow> split_on (CHR 0x00) (environ_text entries) = entries @ [[]]"
  by (induction entries) (auto simp: environ_text_def split_on_append)

lemma env_name: "trim_space kworLifecycleOperationIDEnv = kworLifecycleOperationIDEnv" "kworLifecycleOperationIDEnv \<noteq> []"
  "CHR 0x00 \<notin> set kworLifecycleOperationIDEnv"
  by (simp_all add: kworLifecycleOperationIDEnv_def plain_char_def)

text \<open>
  a child is recognised by its operation and by no other. The environment the panel prepares for a command carries the
  identifier of the operation exactly once, also when the panel itself was started with another one; so the
  check on the running child accepts this operation and rejects every other.
\<close>

lemma child_carries_its_operation:
  assumes env: "\<forall>entry \<in> set environment. CHR 0x00 \<notin> set entry" "CHR 0x00 \<notin> set ident"
    and read: "proc_environ h pid = ProcText (environ_text (setKworCommandEnvironment environment kworLifecycleOperationIDEnv ident))"
  shows "kworProcessEnvironmentHasOperationID h pid other = Inr (trim_space other = ident)"
proof -
  let ?p = "kworLifecycleOperationIDEnv @ ''=''"
  let ?es = "filter (\<lambda>entry. \<not> has_prefix entry ?p) environment @ [?p @ ident]"
  have set: "setKworCommandEnvironment environment kworLifecycleOperationIDEnv ident = ?es"
    using env_name by (simp add: setKworCommandEnvironment_def Let_def)
  have "\<forall>entry \<in> set ?es. CHR 0x00 \<notin> set entry" using env env_name by auto
  then have "split_on (CHR 0x00) (environ_text ?es) = ?es @ [[]]" by (rule split_environ)
  moreover have "has_prefix (?p @ x) ?p" for x by (simp add: has_prefix_def)
  ultimately show ?thesis using read unfolding set kworProcessEnvironmentHasOperationID_def by auto
qed

theorem child_carries_its_operation_example:
  "kworProcessEnvironmentHasOperationID \<lparr>systemctl_show = \<lambda>_. ShowFailed [], regular_file = \<lambda>_. None, temp_dir = [], proc_stat = \<lambda>_. ProcAbsent,
     proc_environ = \<lambda>_. ProcText (environ_text (setKworCommandEnvironment [''A=1'', ''KWOR_LIFECYCLE_OPERATION_ID=old''] kworLifecycleOperationIDEnv ''core-a7'')),
     lifecyclePIDAlive = \<lambda>_. True, isKworSystemdHost = False, has_systemctl = False, unit_active = \<lambda>_. None\<rparr> 7 ''old''
   = Inr False"
  (is "kworProcessEnvironmentHasOperationID ?h _ _ = _")
  using child_carries_its_operation [of "[''A=1'', ''KWOR_LIFECYCLE_OPERATION_ID=old'']" "''core-a7''" ?h 7 "''old''"]
  by (simp add: plain_char_def)

section \<open>The start time of a process\<close>

lemma fields_word: "\<forall>c \<in> set w. plain_char c \<Longrightarrow> str_fields_loop cur (w @ s) = str_fields_loop (cur @ w) s"
proof (induction w arbitrary: cur)
  case (Cons c w)
  have "strip_one space_seqs (c # w @ s) = None" using Cons.prems by (intro strip_one_first) (auto dest: space_seqs_hd)
  then have "str_fields_loop cur ((c # w) @ s) = str_fields_loop (cur @ [c]) (w @ s)" by (simp add: str_fields_loop.simps)
  then show ?case using Cons by simp
qed simp

lemma strip_blank: "strip_one space_seqs (CHR '' '' # s) = Some s" "strip_one space_seqs (CHR 0x0A # s) = Some s"
  by (simp_all add: space_seqs_def)

lemma fields_blank: "c \<in> {CHR '' '', CHR 0x0A} \<Longrightarrow> str_fields_loop cur (c # s) = (if cur = [] then [] else [cur]) @ str_fields_loop [] s"
  by (subst str_fields_loop.simps) (auto simp: strip_blank)

lemma fields_line:
  assumes "\<forall>w \<in> set ws. w \<noteq> [] \<and> (\<forall>c \<in> set w. plain_char c)"
  shows "str_fields (concat (map (\<lambda>w. CHR '' '' # w) ws) @ [CHR 0x0A]) = ws"
proof -
  have "str_fields_loop cur (concat (map (\<lambda>w. CHR '' '' # w) ws) @ [CHR 0x0A]) = (if cur = [] then [] else [cur]) @ ws" for cur
    using assms
  proof (induction ws arbitrary: cur)
    case Nil
    have "str_fields_loop [] [] = []" by (subst str_fields_loop.simps) simp
    then show ?case by (simp add: fields_blank)
  next
    case (Cons w ws)
    then have "str_fields_loop [] (w @ concat (map (\<lambda>w. CHR '' '' # w) ws) @ [CHR 0x0A]) = w # ws"
      by (subst fields_word) simp_all
    then show ?case by (simp add: fields_blank)
  qed
  then show ?thesis by (simp add: str_fields_def)
qed

text \<open>
  the start time of a process is read whatever the process calls itself. The line the kernel prints in \<open>/proc/pid/stat\<close> holds the
  command in parentheses and then the fields separated by blanks, the 22nd of them, the 20th after the command, being the start
  time; the command may hold blanks and parentheses.
\<close>

lemma start_time_read_back:
  assumes ws: "\<forall>w \<in> set ws. w \<noteq> [] \<and> (\<forall>c \<in> set w. plain_char c \<and> c \<noteq> CHR '')'')" "19 < length ws"
    and t: "ws ! 19 = nat_digits t" "0 < t" "int t < 2 ^ 64"
  shows "stat_start_time (nat_digits pid @ '' ('' @ command @ '')'' @ concat (map (\<lambda>w. CHR '' '' # w) ws) @ [CHR 0x0A]) = Some (of_nat t)"
proof -
  let ?line = "concat (map (\<lambda>w. CHR '' '' # w) ws) @ [CHR 0x0A]"
  let ?raw = "(nat_digits pid @ '' ('' @ command) @ CHR '')'' # ?line"
  have "CHR '')'' \<notin> set ?line" using ws(1) by auto
  then have "takeWhile (\<lambda>c. c \<noteq> CHR '')'') (rev ?line @ CHR '')'' # rev (nat_digits pid @ '' ('' @ command)) = rev ?line"
    by (subst takeWhile_append2) (auto simp del: rev_append)
  then have suffix: "rev (takeWhile (\<lambda>c. c \<noteq> CHR '')'') (rev ?raw)) = ?line" by simp
  have fs: "str_fields ?line = ws" using ws(1) by (intro fields_line) auto
  have "parse_uint64 (ws ! 19) = Some t"
    using t by (simp add: parse_uint64_def parse_unsigned_def nat_digits_all nat_digits_val)
  then have "stat_start_time ?raw = Some (of_nat t)"
    unfolding stat_start_time_def suffix Let_def fs using ws(2) t(2) by simp
  then show ?thesis by simp
qed

theorem start_time_read_back_example:
  "stat_start_time (nat_digits 41 @ '' ('' @ ''ev) il'' @ '')'' @ concat (map (\<lambda>w. CHR '' '' # w) (replicate 19 ''1'' @ [nat_digits 7700])) @ [CHR 0x0A])
   = Some 7700"
proof -
  let ?ws = "replicate 19 ''1'' @ [nat_digits 7700]"
  have "\<forall>c \<in> set (nat_digits 7700). plain_char c \<and> c \<noteq> CHR '')''"
  proof
    fix c assume "c \<in> set (nat_digits 7700)"
    then have "is_digit c" by (rule nat_digits_in)
    then show "plain_char c \<and> c \<noteq> CHR '')''" by (auto simp: plain_char_def is_digit_def Let_def)
  qed
  then have "\<forall>w \<in> set ?ws. w \<noteq> [] \<and> (\<forall>c \<in> set w. plain_char c \<and> c \<noteq> CHR '')'')" by (auto simp: plain_char_def)
  from start_time_read_back [OF this, of 7700 41 "''ev) il''"] show ?thesis by (simp add: nth_append)
qed

section \<open>Reservations\<close>

text \<open>What other schedulers may do: reserve, and report about a reservation of theirs.\<close>

datatype schedule_call =
    TryReserve file_io reserve_env
  | ReportWorker file_io host int string int int string
  | ReportRollback file_io int string int int "64 word" string "string option"
  | ReportFailure file_io int string "string option"

fun schedule_effect :: "schedule_call \<Rightarrow> uninstall_json \<Rightarrow> uninstall_json" where
  "schedule_effect (TryReserve io e) f = snd (ReservePanelUninstallLifecycle io e f)"
| "schedule_effect (ReportWorker io h now r pid pgid u) f = snd (RecordPanelUninstallLifecycleWorker io h now r pid pgid u f)"
| "schedule_effect (ReportRollback io now r pid pgid st u err) f = snd (RecordPanelUninstallLifecycleRollbackFailure io now r pid pgid st u err f)"
| "schedule_effect (ReportFailure io now r err) f = MarkPanelUninstallLifecycleScheduleFailed io now r err f"

text \<open>A call by somebody else, after the instant \<open>t0\<close> and, if it reserves, within the grace period.\<close>

fun foreign_call :: "string \<Rightarrow> int \<Rightarrow> schedule_call \<Rightarrow> bool" where
  "foreign_call r t0 (TryReserve io e) \<longleftrightarrow> re_now e < from_unix (unix_seconds t0) + kworUninstallStartupGrace"
| "foreign_call r t0 (ReportWorker io h now r' pid pgid u) \<longleftrightarrow> trim_space r' \<noteq> r"
| "foreign_call r t0 (ReportRollback io now r' pid pgid st u err) \<longleftrightarrow> trim_space r' \<noteq> r"
| "foreign_call r t0 (ReportFailure io now r' err) \<longleftrightarrow> trim_space r' \<noteq> r \<and> t0 \<le> now"

definition reserved_by :: "string \<Rightarrow> int \<Rightarrow> uninstall_json \<Rightarrow> bool" where
  "reserved_by r t0 f \<longleftrightarrow> (\<exists>st. f = Holds st \<and> us_Version st = kworLifecycleStateVersion \<and> us_Status st = kworUninstallStatusScheduled
     \<and> us_ReservationID st = r \<and> us_BlockNewWork st \<and> unix_seconds t0 \<le> us_UpdatedAt st)"

lemma scheduled_trim [simp]: "trim_space kworUninstallStatusScheduled = kworUninstallStatusScheduled"
  by (simp add: kworUninstallStatusScheduled_def plain_char_def)

lemma reserved_load:
  assumes "reserved_by r t0 f" "trim_space r = r"
  shows "loadKworUninstallLifecycleStateLocked io f = Inl ReadFailed
    \<or> (\<exists>st. loadKworUninstallLifecycleStateLocked io f = Inr (Some st) \<and> us_Status st = kworUninstallStatusScheduled
         \<and> us_ReservationID st = r \<and> us_BlockNewWork st \<and> unix_seconds t0 \<le> us_UpdatedAt st)"
  using assms by (auto simp: reserved_by_def loadKworUninstallLifecycleStateLocked_def)

lemma saved_reserved:
  assumes f: "reserved_by r t0 f" and st: "us_Status st = kworUninstallStatusScheduled" "us_ReservationID st = r" "us_BlockNewWork st"
    and now: "t0 \<le> now"
  shows "reserved_by r t0 (snd (saveKworUninstallLifecycleStateLocked io now st f))"
proof -
  have "unix_seconds t0 \<le> unix_seconds now" using now by (simp add: unix_seconds_def zdiv_mono1)
  then show ?thesis using assms
    by (auto simp: saveKworUninstallLifecycleStateLocked_def writeKworLifecycleJSON_def reserved_by_def split: write_outcome.split)
qed

lemma reserve_blocked:
  assumes f: "reserved_by r t0 f" "trim_space r = r" and t: "0 < unix_seconds t0" "re_now e < from_unix (unix_seconds t0) + kworUninstallStartupGrace"
  shows "snd (ReservePanelUninstallLifecycle io e f) = f \<and> (\<forall>x. fst (ReservePanelUninstallLifecycle io e f) \<noteq> Inr (Some x))"
proof -
  have "lifecycleUninstallTakeoverBlocked st (re_now e) alive"
    if "us_Status st = kworUninstallStatusScheduled" "unix_seconds t0 \<le> us_UpdatedAt st" for st alive
    using that t by (auto simp: lifecycleUninstallTakeoverBlocked_def from_unix_def)
  then show ?thesis using reserved_load [OF f, of io] by (auto simp: ReservePanelUninstallLifecycle_def)
qed

lemma foreign_keeps:
  assumes f: "reserved_by r t0 f" "trim_space r = r" and t: "0 < unix_seconds t0" and c: "foreign_call r t0 c"
  shows "reserved_by r t0 (schedule_effect c f)"
proof (cases c)
  case (TryReserve io e)
  then show ?thesis using reserve_blocked [OF f t] c f(1) by simp
next
  case (ReportWorker io h now r' pid pgid u)
  then have "schedule_effect c f = f"
    using reserved_load [OF f, of io] c by (auto simp: RecordPanelUninstallLifecycleWorker_def Let_def)
  then show ?thesis using f(1) by simp
next
  case (ReportRollback io now r' pid pgid st u err)
  then have "schedule_effect c f = f"
    using reserved_load [OF f, of io] c
    by (auto simp: RecordPanelUninstallLifecycleRollbackFailure_def applyPanelUninstallRollbackFailure_def Let_def)
  then show ?thesis using f(1) by simp
next
  case (ReportFailure io now r' err)
  have other: "trim_space r' \<noteq> r" "t0 \<le> now" using c ReportFailure by simp_all
  show ?thesis
    using reserved_load [OF f, of io] saved_reserved [OF f(1) _ _ _ other(2)] other(1) f(1)
    by (auto simp: ReportFailure MarkPanelUninstallLifecycleScheduleFailed_def updateKworUninstallLifecycleState_def schedule_failed_def)
qed

text \<open>
  a reservation of the removal stays with its owner. After a successful reservation, whatever other schedulers do within the
  grace period (reserving, recording workers, reporting roll-backs and failures of reservations of their own,
  with any failures of the files), the removal is scheduled under the same reservation, new work is blocked, and no other
  reservation succeeds.
\<close>

lemma reservation_is_kept:
  assumes got: "ReservePanelUninstallLifecycle io e f = (Inr (Some r), f')" and r: "trim_space r = r" and t: "1000000000 \<le> re_stamp e"
    and foreign: "\<forall>c \<in> set cs. foreign_call r (re_stamp e) c"
    and later: "re_now e2 < from_unix (unix_seconds (re_stamp e)) + kworUninstallStartupGrace"
  shows "(\<exists>st. fold schedule_effect cs f' = Holds st \<and> us_Status st = kworUninstallStatusScheduled \<and> us_ReservationID st = r
      \<and> lifecycleStateBlocksNewWork st)
    \<and> (\<forall>x. fst (ReservePanelUninstallLifecycle io2 e2 (fold schedule_effect cs f')) \<noteq> Inr (Some x))"
proof -
  have pos: "0 < unix_seconds (re_stamp e)" using t zdiv_mono1 [of 1000000000 "re_stamp e" 1000000000] by (simp add: unix_seconds_def)
  have "\<exists>st. f' = Holds ((scheduled_state r st)\<lparr>us_Version := kworLifecycleStateVersion, us_UpdatedAt := unix_seconds (re_stamp e)\<rparr>)"
    using got by (auto simp: ReservePanelUninstallLifecycle_def saveKworUninstallLifecycleStateLocked_def writeKworLifecycleJSON_def Let_def
        split: if_splits sum.splits option.splits write_outcome.splits)
  then have "reserved_by r (re_stamp e) f'" by (auto simp: reserved_by_def scheduled_state_def)
  then have kept: "reserved_by r (re_stamp e) (fold schedule_effect cs f')"
    using foreign by (induction cs arbitrary: f') (auto intro: foreign_keeps [OF _ r pos])
  then show ?thesis using reserve_blocked [OF kept r pos later] by (auto simp: reserved_by_def lifecycleStateBlocksNewWork_def)
qed

theorem reservation_is_kept_example:
  "\<exists>st. snd (ReservePanelUninstallLifecycle \<lparr>lock_ok = True, read_ok = True, written = Replaced\<rparr>
      \<lparr>re_host = example_child, re_now = 0, re_random = Some ''a7'', re_stamp = 5000000000\<rparr> Absent) = Holds st
     \<and> us_ReservationID st = ''a7''"
proof -
  let ?io = "\<lparr>lock_ok = True, read_ok = True, written = Replaced\<rparr>"
  let ?e = "\<lparr>re_host = example_child, re_now = 0, re_random = Some ''a7'', re_stamp = 5000000000\<rparr>"
  obtain f' where f': "ReservePanelUninstallLifecycle ?io ?e Absent = (Inr (Some ''a7''), f')"
    by (simp add: ReservePanelUninstallLifecycle_def loadKworUninstallLifecycleStateLocked_def saveKworUninstallLifecycleStateLocked_def
        writeKworLifecycleJSON_def Let_def)
  show ?thesis
    using reservation_is_kept [OF f', of "[]" ?e ?io] f' by (auto simp: plain_char_def unix_seconds_def from_unix_def kworUninstallStartupGrace_def)
qed

text \<open>
  A report about a reservation that no longer holds is meant to change nothing, but it writes the state back with a new
  time: the grace period of the present reservation starts again; without a state it even leaves a file with an empty status.
\<close>

lemma stale_failure_report_renews_the_grace:
  assumes "trim_space r \<noteq> us_ReservationID st" "loadKworUninstallLifecycleStateLocked io (Holds st) = Inr (Some st)"
    "lock_ok io" "written io = Replaced"
  shows "MarkPanelUninstallLifecycleScheduleFailed io now r err (Holds st) =
    Holds (st\<lparr>us_Version := kworLifecycleStateVersion, us_UpdatedAt := unix_seconds now\<rparr>)"
  using assms by (auto simp: MarkPanelUninstallLifecycleScheduleFailed_def updateKworUninstallLifecycleState_def schedule_failed_def
      saveKworUninstallLifecycleStateLocked_def writeKworLifecycleJSON_def)

end
