(* ===== verification/Download_Tasks.thy ===== *)
theory Download_Tasks
  imports Lifecycle_Operations
begin

text \<open>
  Managed background tasks (\<open>service/managed_download_task.go\<close>): downloads, installations and updates that a
  browser starts, follows and stops. A manager runs one task at a time; the task is worked on by the goroutine
  that holds its handle, stopped by requests and by its deadline, and stays visible for a while after its end.

  Every method locks the manager, so a method is one step; the calls that follow the unlocking (cancelling a
  context, ending the operation) are part of it. A task's context is cancelled by its own \<open>cancel\<close> or with the
  context of its operation. Timers are recorded as armed or not; what they call when they fire are operations of
  the manager. The nil manager and the nil handle are left out. Texts of errors are constructors.
\<close>

section \<open>State\<close>

datatype managed_task_state =
    managedDownloadTaskQueued | managedDownloadTaskRunning | managedDownloadTaskStopping | managedDownloadTaskCancelled
  | managedDownloadTaskTimedOut | managedDownloadTaskSuccess | managedDownloadTaskError | managedDownloadTaskIdle
  | noTaskState  \<comment> \<open>the empty string\<close>

record ManagedDownloadTaskStatus =
  ts_ID :: string
  ts_State :: managed_task_state
  ts_Phase :: string
  ts_CanCancel :: bool
  ts_StopRequested :: bool
  ts_DeadlineExceeded :: bool
  ts_StartedAt :: int
  ts_UpdatedAt :: int
  ts_DeadlineAt :: int
  ts_FinishedAt :: int
  ts_Error :: string

record managedDownloadTask =
  task_status :: ManagedDownloadTaskStatus
  fingerprint :: string
  ctx_parent :: nat  \<comment> \<open>the operation whose context is the parent\<close>
  ctx_cancelled :: bool
  has_cancel :: bool
  task_operation :: "nat option"
  deadline_armed :: bool
  expires_armed :: bool
  timeoutStop :: bool
  irreversible :: bool

record ManagedDownloadTaskManager =
  tm_name :: string
  tm_deadline :: int
  tm_terminalTTL :: int
  tm_tasks :: "(string \<times> managedDownloadTask) list"
  activeID :: string
  latestID :: string

datatype task_error = KindRequired | AlreadyRunning string | NotBegun lifecycle_error | TaskIDRequired | CannotBeStopped

definition managedDownloadTaskDeadline :: int where
  "managedDownloadTaskDeadline = 20 * 60 * 1000000000"

definition managedDownloadTaskTTL :: int where
  "managedDownloadTaskTTL = 30 * 60 * 1000000000"

definition NewManagedDownloadTaskManagerWithOptions :: "string \<Rightarrow> int \<Rightarrow> int \<Rightarrow> ManagedDownloadTaskManager" where
  "NewManagedDownloadTaskManagerWithOptions name deadline terminalTTL =
     \<lparr>tm_name = trim_space name,
      tm_deadline = (if deadline \<le> 0 then managedDownloadTaskDeadline else deadline),
      tm_terminalTTL = (if terminalTTL \<le> 0 then managedDownloadTaskTTL else terminalTTL),
      tm_tasks = [], activeID = [], latestID = []\<rparr>"

definition NewManagedDownloadTaskManager :: "string \<Rightarrow> ManagedDownloadTaskManager" where
  "NewManagedDownloadTaskManager name = NewManagedDownloadTaskManagerWithOptions name 0 0"

definition taskDeadline :: "ManagedDownloadTaskManager \<Rightarrow> int" where
  "taskDeadline m = (if tm_deadline m \<le> 0 then managedDownloadTaskDeadline else tm_deadline m)"

definition taskTerminalTTL :: "ManagedDownloadTaskManager \<Rightarrow> int" where
  "taskTerminalTTL m = (if tm_terminalTTL m \<le> 0 then managedDownloadTaskTTL else tm_terminalTTL m)"

definition isManagedDownloadTaskTerminal :: "managed_task_state \<Rightarrow> bool" where
  "isManagedDownloadTaskTerminal state \<longleftrightarrow>
     state \<in> {managedDownloadTaskCancelled, managedDownloadTaskTimedOut, managedDownloadTaskSuccess, managedDownloadTaskError}"

definition idle_status :: ManagedDownloadTaskStatus where
  "idle_status = \<lparr>ts_ID = [], ts_State = managedDownloadTaskIdle, ts_Phase = [], ts_CanCancel = False, ts_StopRequested = False,
     ts_DeadlineExceeded = False, ts_StartedAt = 0, ts_UpdatedAt = 0, ts_DeadlineAt = 0, ts_FinishedAt = 0, ts_Error = []\<rparr>"

definition task_of :: "ManagedDownloadTaskManager \<Rightarrow> string \<Rightarrow> managedDownloadTask option" where
  "task_of m i = map_of (tm_tasks m) i"

definition put_task :: "string \<Rightarrow> managedDownloadTask \<Rightarrow> ManagedDownloadTaskManager \<Rightarrow> ManagedDownloadTaskManager" where
  \<comment> \<open>the code changes the task through its pointer\<close>
  "put_task i t m = m\<lparr>tm_tasks := AList.update i t (tm_tasks m)\<rparr>"

definition ctx_err :: "lifecycle_state \<Rightarrow> managedDownloadTask \<Rightarrow> bool" where
  "ctx_err s t \<longleftrightarrow>
     ctx_cancelled t \<or> (case handle_at s (ctx_parent t) of None \<Rightarrow> False | Some h \<Rightarrow> h_cancelled h)"

section \<open>Expiry\<close>

definition forget_task :: "string \<Rightarrow> ManagedDownloadTaskManager \<Rightarrow> ManagedDownloadTaskManager" where
  "forget_task i m =
     m\<lparr>tm_tasks := AList.delete i (tm_tasks m), latestID := (if latestID m = i then [] else latestID m)\<rparr>"

definition expire :: "string \<Rightarrow> ManagedDownloadTaskManager \<Rightarrow> ManagedDownloadTaskManager" where
  "expire i m =
     (case task_of m i of
        None \<Rightarrow> m
      | Some t \<Rightarrow> if \<not> isManagedDownloadTaskTerminal (ts_State (task_status t)) then m else forget_task i m)"

definition prune_due :: "ManagedDownloadTaskManager \<Rightarrow> int \<Rightarrow> managedDownloadTask \<Rightarrow> bool" where
  "prune_due m now t =
     (if \<not> isManagedDownloadTaskTerminal (ts_State (task_status t)) \<or> ts_FinishedAt (task_status t) = 0 then False
      else \<not> now - from_unix (ts_FinishedAt (task_status t)) \<le> taskTerminalTTL m)"

definition pruneExpiredLocked :: "int \<Rightarrow> ManagedDownloadTaskManager \<Rightarrow> ManagedDownloadTaskManager" where
  "pruneExpiredLocked now m =
     fold (\<lambda>(i, t) m'. if prune_due m now t then forget_task i m' else m') (tm_tasks m) m"

section \<open>Starting\<close>

definition firstManagedDownloadTaskName :: "string \<Rightarrow> string \<Rightarrow> string" where
  "firstManagedDownloadTaskName name fallback =
     (let trimmed = trim_space name in if trimmed \<noteq> [] then trimmed else fallback)"

record start_result =
  sr_handle :: string
  sr_status :: ManagedDownloadTaskStatus
  sr_created :: bool

definition new_task :: "ManagedDownloadTaskManager \<Rightarrow> string \<Rightarrow> nat \<Rightarrow> string \<Rightarrow> int \<Rightarrow> managedDownloadTask" where
  "new_task m fprint a ident now =
     \<lparr>task_status = \<lparr>ts_ID = ident, ts_State = managedDownloadTaskQueued, ts_Phase = ''preparing'', ts_CanCancel = True,
        ts_StopRequested = False, ts_DeadlineExceeded = False, ts_StartedAt = unix_seconds now, ts_UpdatedAt = unix_seconds now,
        ts_DeadlineAt = unix_seconds (now + taskDeadline m), ts_FinishedAt = 0, ts_Error = []\<rparr>,
      fingerprint = fprint, ctx_parent = a, ctx_cancelled = False, has_cancel = True, task_operation = Some a,
      deadline_armed = True, expires_armed = False, timeoutStop = False, irreversible = False\<rparr>"

definition Start ::
    "work_env \<Rightarrow> int \<Rightarrow> int \<Rightarrow> string \<Rightarrow> string \<Rightarrow> ManagedDownloadTaskManager \<times> lifecycle_state \<Rightarrow>
     (task_error + start_result) \<times> ManagedDownloadTaskManager \<times> lifecycle_state" where
  "Start e pruneNow now rawKind rawFingerprint ms =
     (let (m0, s) = ms; fprint = trim_space rawFingerprint; operationKind = trim_space rawKind
      in if operationKind = [] then (Inl KindRequired, m0, s)
         else let m = pruneExpiredLocked pruneNow m0 in
           case task_of m (activeID m) of
             Some active \<Rightarrow>
               if fingerprint active = fprint
               then (Inr \<lparr>sr_handle = ts_ID (task_status active), sr_status = task_status active, sr_created = False\<rparr>, m, s)
               else (Inl (AlreadyRunning (firstManagedDownloadTaskName (tm_name m) operationKind)), m, s)
           | None \<Rightarrow>
               (case BeginKworManagedOperation e operationKind s of
                  (Inl err, s1) \<Rightarrow> (Inl (NotBegun err), m, s1)
                | (Inr a, s1) \<Rightarrow>
                    let ident = (case handle_at s1 a of None \<Rightarrow> [] | Some h \<Rightarrow> h_id h);
                        t = new_task m fprint a ident now
                    in (Inr \<lparr>sr_handle = ident, sr_status = task_status t, sr_created = True\<rparr>,
                        (put_task ident t m)\<lparr>activeID := ident, latestID := ident\<rparr>, s1)))"

section \<open>The worker's handle\<close>

definition reported_task :: "string \<Rightarrow> bool \<Rightarrow> bool \<Rightarrow> int \<Rightarrow> managedDownloadTask \<Rightarrow> managedDownloadTask" where
  "reported_task phase canCancel applying now t =
     (let st = task_status t;
          st1 = (if ts_State st = managedDownloadTaskQueued then st\<lparr>ts_State := managedDownloadTaskRunning\<rparr> else st);
          st2 = (if phase \<noteq> [] then st1\<lparr>ts_Phase := phase\<rparr> else st1);
          st3 = st2\<lparr>ts_CanCancel := (if applying then False else if irreversible t then False else canCancel),
                    ts_UpdatedAt := unix_seconds now\<rparr>
      in t\<lparr>task_status := st3, irreversible := (irreversible t \<or> applying)\<rparr>)"

definition handle_update ::
    "string \<Rightarrow> string \<Rightarrow> bool \<Rightarrow> bool \<Rightarrow> int \<Rightarrow> ManagedDownloadTaskManager \<times> lifecycle_state \<Rightarrow> bool \<times> ManagedDownloadTaskManager" where
  "handle_update i rawPhase canCancel applying now ms =
     (let (m, s) = ms; phase = trim_space rawPhase
      in case task_of m i of
           None \<Rightarrow> (False, m)
         | Some t \<Rightarrow>
             let st = task_status t in
             if ts_State st = managedDownloadTaskStopping \<or> isManagedDownloadTaskTerminal (ts_State st) \<or> ctx_err s t then (False, m)
             else (True, put_task i (reported_task phase canCancel applying now t) m))"

definition MarkRunning :: "string \<Rightarrow> string \<Rightarrow> int \<Rightarrow> ManagedDownloadTaskManager \<times> lifecycle_state \<Rightarrow> bool \<times> ManagedDownloadTaskManager" where
  "MarkRunning i phase now ms = handle_update i phase True False now ms"

definition BeginApplying :: "string \<Rightarrow> string \<Rightarrow> int \<Rightarrow> ManagedDownloadTaskManager \<times> lifecycle_state \<Rightarrow> bool \<times> ManagedDownloadTaskManager" where
  "BeginApplying i phase now ms = handle_update i phase False True now ms"

definition SetPhase :: "string \<Rightarrow> string \<Rightarrow> bool \<Rightarrow> int \<Rightarrow> ManagedDownloadTaskManager \<times> lifecycle_state \<Rightarrow> bool \<times> ManagedDownloadTaskManager" where
  "SetPhase i phase canCancel now ms = handle_update i phase canCancel False now ms"

definition DetachOperation :: "string \<Rightarrow> ManagedDownloadTaskManager \<times> lifecycle_state \<Rightarrow> nat option \<times> ManagedDownloadTaskManager \<times> lifecycle_state" where
  "DetachOperation i ms =
     (let (m, s) = ms
      in case task_of m i of
           None \<Rightarrow> (None, m, s)
         | Some t \<Rightarrow>
             (task_operation t, put_task i (t\<lparr>task_operation := None\<rparr>) m,
              case task_operation t of None \<Rightarrow> s | Some a \<Rightarrow> Detach a s))"

text \<open>The state a finished task gets, and its message.\<close>

definition final_state :: "managedDownloadTask \<Rightarrow> managed_task_state \<Rightarrow> string \<Rightarrow> managed_task_state \<times> string" where
  "final_state t requested message =
     (if ts_State (task_status t) = managedDownloadTaskStopping \<or> requested = noTaskState then
        (if timeoutStop t
         then (managedDownloadTaskTimedOut, if message = [] then ''download task timed out'' else message)
         else (managedDownloadTaskCancelled, if message = [] then ''download task was stopped'' else message))
      else (requested, message))"

definition finished_task :: "managed_task_state \<Rightarrow> string \<Rightarrow> string \<Rightarrow> int \<Rightarrow> managedDownloadTask \<Rightarrow> managedDownloadTask" where
  "finished_task requested phase message now t =
     (let final = final_state t requested message;
          state = (if fst final = noTaskState then managedDownloadTaskError else fst final);
          st = task_status t;
          st' = st\<lparr>ts_State := state, ts_Phase := (if phase \<noteq> [] then phase else ts_Phase st), ts_CanCancel := False,
                   ts_Error := snd final, ts_UpdatedAt := unix_seconds now, ts_FinishedAt := unix_seconds now\<rparr>
      in t\<lparr>task_status := st', deadline_armed := False, ctx_cancelled := (ctx_cancelled t \<or> has_cancel t),
           has_cancel := False, task_operation := None, expires_armed := True\<rparr>)"

definition handle_finish ::
    "file_io \<Rightarrow> string \<Rightarrow> managed_task_state \<Rightarrow> string \<Rightarrow> string \<Rightarrow> int \<Rightarrow> ManagedDownloadTaskManager \<times> lifecycle_state \<Rightarrow>
     ManagedDownloadTaskManager \<times> lifecycle_state" where
  "handle_finish io i requested rawPhase rawMessage now ms =
     (let (m, s) = ms; phase = trim_space rawPhase; message = trim_space rawMessage
      in case task_of m i of
           None \<Rightarrow> (m, s)
         | Some t \<Rightarrow>
             if isManagedDownloadTaskTerminal (ts_State (task_status t)) then (m, s)
             else let m1 = put_task i (finished_task requested phase message now t) m;
                      m2 = (if activeID m1 = i then m1\<lparr>activeID := []\<rparr> else m1)
                  in (m2, case task_operation t of None \<Rightarrow> s | Some a \<Rightarrow> Done io a s))"

definition FinishSuccess :: "file_io \<Rightarrow> string \<Rightarrow> string \<Rightarrow> int \<Rightarrow> ManagedDownloadTaskManager \<times> lifecycle_state \<Rightarrow> ManagedDownloadTaskManager \<times> lifecycle_state" where
  "FinishSuccess io i phase now ms = handle_finish io i managedDownloadTaskSuccess phase [] now ms"

definition FinishError ::
    "file_io \<Rightarrow> string \<Rightarrow> string \<Rightarrow> string option \<Rightarrow> int \<Rightarrow> ManagedDownloadTaskManager \<times> lifecycle_state \<Rightarrow> ManagedDownloadTaskManager \<times> lifecycle_state" where
  "FinishError io i phase err now ms =
     handle_finish io i managedDownloadTaskError phase (case err of None \<Rightarrow> [] | Some text \<Rightarrow> trim_space text) now ms"

definition FinishCancelled :: "file_io \<Rightarrow> string \<Rightarrow> string \<Rightarrow> int \<Rightarrow> ManagedDownloadTaskManager \<times> lifecycle_state \<Rightarrow> ManagedDownloadTaskManager \<times> lifecycle_state" where
  "FinishCancelled io i phase now ms = handle_finish io i noTaskState phase [] now ms"

definition finishManagedDownloadTaskPanic ::
    "file_io \<Rightarrow> string \<Rightarrow> string \<Rightarrow> string \<Rightarrow> string option \<Rightarrow> int \<Rightarrow> ManagedDownloadTaskManager \<times> lifecycle_state \<Rightarrow>
     ManagedDownloadTaskManager \<times> lifecycle_state" where
  \<comment> \<open>\<open>recovered\<close> is the printed value of the panic, if there was one\<close>
  "finishManagedDownloadTaskPanic io i phase rawName recovered now ms =
     (case recovered of
        None \<Rightarrow> ms
      | Some text \<Rightarrow>
          let name = trim_space rawName; taskName = (if name = [] then ''managed download'' else name)
          in FinishError io i phase (Some (taskName @ '' task panicked: '' @ text)) now ms)"

section \<open>Requests\<close>

definition stopped_task :: "bool \<Rightarrow> int \<Rightarrow> managedDownloadTask \<Rightarrow> managedDownloadTask" where
  "stopped_task timeout now t =
     (let st = task_status t;
          st' = st\<lparr>ts_State := managedDownloadTaskStopping, ts_Phase := ''stopping'', ts_CanCancel := False,
                   ts_StopRequested := True, ts_DeadlineExceeded := (ts_DeadlineExceeded st \<or> timeout),
                   ts_UpdatedAt := unix_seconds now\<rparr>
      in t\<lparr>task_status := st', timeoutStop := (timeoutStop t \<or> timeout), ctx_cancelled := (ctx_cancelled t \<or> has_cancel t)\<rparr>)"

definition requestStop ::
    "string \<Rightarrow> bool \<Rightarrow> int \<Rightarrow> ManagedDownloadTaskManager \<Rightarrow> (ManagedDownloadTaskStatus \<times> bool) \<times> ManagedDownloadTaskManager" where
  "requestStop rawID timeout now m =
     (let i = trim_space rawID
      in case task_of m i of
           None \<Rightarrow> ((idle_status, False), m)
         | Some t \<Rightarrow>
             let st = task_status t in
             if isManagedDownloadTaskTerminal (ts_State st) \<or> \<not> ts_CanCancel st then
               (let t' = (if timeout \<and> \<not> isManagedDownloadTaskTerminal (ts_State st)
                          then t\<lparr>task_status := st\<lparr>ts_DeadlineExceeded := True, ts_UpdatedAt := unix_seconds now\<rparr>\<rparr> else t)
                in ((task_status t', False), put_task i t' m))
             else let t' = stopped_task timeout now t in ((task_status t', True), put_task i t' m))"

definition Stop :: "string \<Rightarrow> int \<Rightarrow> ManagedDownloadTaskManager \<Rightarrow> (ManagedDownloadTaskStatus \<times> task_error option) \<times> ManagedDownloadTaskManager" where
  "Stop rawID now m =
     (let i = trim_space rawID
      in if i = [] then ((idle_status\<lparr>ts_State := noTaskState\<rparr>, Some TaskIDRequired), m)
         else case requestStop i False now m of
           ((st, ok), m') \<Rightarrow> ((st, if ok then None else Some CannotBeStopped), m'))"

definition Get :: "string \<Rightarrow> int \<Rightarrow> ManagedDownloadTaskManager \<Rightarrow> ManagedDownloadTaskStatus \<times> ManagedDownloadTaskManager" where
  "Get rawID now m0 =
     (let m = pruneExpiredLocked now m0;
          i = (if trim_space rawID = [] then (if activeID m = [] then latestID m else activeID m) else rawID)
      in (case task_of m (trim_space i) of None \<Rightarrow> idle_status | Some t \<Rightarrow> task_status t, m))"

definition IsActive :: "ManagedDownloadTaskManager \<Rightarrow> bool" where
  "IsActive m \<longleftrightarrow> task_of m (activeID m) \<noteq> None"

definition HandleContext :: "string \<Rightarrow> ManagedDownloadTaskManager \<times> lifecycle_state \<Rightarrow> bool" where
  \<comment> \<open>whether the context of the handle is cancelled; without a task it is the background context\<close>
  "HandleContext i ms = (case task_of (fst ms) i of None \<Rightarrow> False | Some t \<Rightarrow> ctx_err (snd ms) t)"

section \<open>Copying with a context\<close>

text \<open>
  \<open>copyManagedDownloadTaskContext\<close> copies in chunks of at most 64 KiB and looks at the context before every
  read and write. The \<open>k\<close>-th look, read and write are given by the environment: a read yields bytes and how it
  ended; a write says how many of the offered bytes it took (their first ones) and whether it failed. The result
  is the error, the count and what reached the destination. A source that never ends makes the loop run forever,
  which is the value \<open>None\<close>.
\<close>

datatype copy_error = ContextError | SourceError | DestinationError | ErrShortWrite | SlicePanic

datatype read_end = MoreToRead | ReadEOF | ReadFailure

record 'b copy_env =
  ctx_stopped :: "nat \<Rightarrow> bool"
  source_read :: "nat \<Rightarrow> 'b list \<times> read_end"
  dest_write :: "nat \<Rightarrow> 'b list \<Rightarrow> nat \<times> bool"

record 'b copy_state =
  looks :: nat
  read_count :: nat
  write_count :: nat
  copied :: "'b list"
  copy_written :: int

function (sequential) write_chunk :: "'b copy_env \<Rightarrow> 'b list \<Rightarrow> 'b copy_state \<Rightarrow> copy_error option \<times> 'b copy_state" where
  "write_chunk c [] st = (None, st)"
| "write_chunk c remaining st =
     (if ctx_stopped c (looks st) then (Some ContextError, st)
      else let (count, failed) = dest_write c (write_count st) remaining;
               st1 = st\<lparr>looks := looks st + 1, write_count := write_count st + 1\<rparr>
           in if length remaining < count then (Some SlicePanic, st1)
              else let st2 = st1\<lparr>copied := copied st @ take count remaining, copy_written := wrap64 (copy_written st + int count)\<rparr>
                   in if failed then (Some DestinationError, st2)
                      else if count = 0 then (Some ErrShortWrite, st2)
                      else write_chunk c (drop count remaining) st2)"
  by pat_completeness auto
termination
  by (relation "measure (\<lambda>(c, remaining, st). length remaining)") auto

partial_function (option) copy_loop :: "'b copy_env \<Rightarrow> 'b copy_state \<Rightarrow> (copy_error option \<times> int \<times> 'b list) option" where
  "copy_loop c st =
     (if ctx_stopped c (looks st) then Some (Some ContextError, copy_written st, copied st)
      else let (chunk, ending) = source_read c (read_count st) in
        case write_chunk c chunk (st\<lparr>looks := looks st + 1, read_count := read_count st + 1\<rparr>) of
          (Some e, st2) \<Rightarrow> Some (Some e, copy_written st2, copied st2)
        | (None, st2) \<Rightarrow>
            (case ending of
               ReadEOF \<Rightarrow> Some (None, copy_written st2, copied st2)
             | ReadFailure \<Rightarrow> Some (Some SourceError, copy_written st2, copied st2)
             | MoreToRead \<Rightarrow> copy_loop c st2))"

definition copyManagedDownloadTaskContext :: "'b copy_env \<Rightarrow> (copy_error option \<times> int \<times> 'b list) option" where
  "copyManagedDownloadTaskContext c =
     (if ctx_stopped c 0 then Some (Some ContextError, 0, [])
      else copy_loop c \<lparr>looks = 1, read_count = 0, write_count = 0, copied = [], copy_written = 0\<rparr>)"

end
