(* ===== verification/Task_Guarantees.thy ===== *)
theory Task_Guarantees
  imports Download_Tasks Lifecycle_Register
begin

text \<open>
  What the task manager promises. Its abstract specification is a board with at most one current task and the
  outcomes of the ended ones; the manager refines it however starts, progress reports, stop requests, deadlines,
  ends and expiries are interleaved and whatever happens to the operations meanwhile.
\<close>

section \<open>Single operations\<close>

lemma task_of_simps [simp]:
  "task_of (put_task i t m) j = (if j = i then Some t else task_of m j)"
  "task_of (forget_task i m) j = (if j = i then None else task_of m j)"
  "task_of (m\<lparr>activeID := x\<rparr>) j = task_of m j" "task_of (m\<lparr>latestID := x\<rparr>) j = task_of m j"
  by (auto simp: task_of_def put_task_def forget_task_def AList.update_conv' AList.delete_conv')

lemma manager_fields [simp]:
  "activeID (put_task i t m) = activeID m" "latestID (put_task i t m) = latestID m"
  "activeID (forget_task i m) = activeID m" "latestID (forget_task i m) = (if latestID m = i then [] else latestID m)"
  by (auto simp: put_task_def forget_task_def)

lemma distinct_tasks [simp]:
  assumes "distinct (map fst (tm_tasks m))"
  shows "distinct (map fst (tm_tasks (put_task i t m)))" "distinct (map fst (tm_tasks (forget_task i m)))"
  using assms by (simp_all add: put_task_def forget_task_def AList.distinct_update AList.distinct_delete)

lemma prune_fold:
  fixes due :: "managedDownloadTask \<Rightarrow> bool" and L :: "(string \<times> managedDownloadTask) list"
  defines "step \<equiv> \<lambda>(i, t) m'. if due t then forget_task i m' else m'"
  shows "task_of (fold step L m) j = (if \<exists>t. (j, t) \<in> set L \<and> due t then None else task_of m j)
    \<and> activeID (fold step L m) = activeID m
    \<and> latestID (fold step L m) = (if \<exists>t. (latestID m, t) \<in> set L \<and> due t then [] else latestID m)
    \<and> (distinct (map fst (tm_tasks m)) \<longrightarrow> distinct (map fst (tm_tasks (fold step L m))))"
proof (induction L arbitrary: m)
  case (Cons p L)
  obtain i t where p: "p = (i, t)" by (cases p)
  show ?case
  proof (cases "due t")
    case True
    have next_one: "fold step (p # L) m = fold step L (forget_task i m)" using True by (simp add: p step_def)
    show ?thesis unfolding next_one using Cons.IH [of "forget_task i m"] True by (auto simp: p)
  next
    case False
    have next_one: "fold step (p # L) m = fold step L m" using False by (simp add: p step_def)
    show ?thesis unfolding next_one using Cons.IH [of m] False by (auto simp: p)
  qed
qed simp

lemma task_of_iff: "distinct (map fst (tm_tasks m)) \<Longrightarrow> (j, t) \<in> set (tm_tasks m) \<longleftrightarrow> task_of m j = Some t"
  by (auto simp: task_of_def map_of_eq_Some_iff)

lemma prune_tasks:
  assumes d: "distinct (map fst (tm_tasks m))"
  shows "task_of (pruneExpiredLocked now m) j =
      (case task_of m j of None \<Rightarrow> None | Some t \<Rightarrow> if prune_due m now t then None else Some t)"
    and "activeID (pruneExpiredLocked now m) = activeID m"
    and "latestID (pruneExpiredLocked now m) =
      (case task_of m (latestID m) of None \<Rightarrow> latestID m | Some t \<Rightarrow> if prune_due m now t then [] else latestID m)"
    and "distinct (map fst (tm_tasks (pruneExpiredLocked now m)))"
  using prune_fold [of "prune_due m now" "tm_tasks m" m j] d
  by (auto simp: pruneExpiredLocked_def task_of_iff split: option.split)

section \<open>The invariant\<close>

definition task_live :: "managedDownloadTask \<Rightarrow> bool" where
  "task_live t \<longleftrightarrow> \<not> isManagedDownloadTaskTerminal (ts_State (task_status t))"

definition task_ok :: "string \<Rightarrow> managedDownloadTask \<Rightarrow> bool" where
  "task_ok i t \<longleftrightarrow>
     ts_ID (task_status t) = i \<and> i \<noteq> [] \<and> trim_space i = i
     \<and> ts_State (task_status t) \<noteq> managedDownloadTaskIdle \<and> ts_State (task_status t) \<noteq> noTaskState
     \<and> (ts_State (task_status t) = managedDownloadTaskStopping \<longleftrightarrow> task_live t \<and> ts_StopRequested (task_status t))
     \<and> (ts_CanCancel (task_status t) \<longrightarrow> task_live t \<and> \<not> irreversible t \<and> \<not> ts_StopRequested (task_status t))
     \<and> (irreversible t \<longrightarrow> \<not> ts_StopRequested (task_status t))
     \<and> (timeoutStop t \<longrightarrow> ts_StopRequested (task_status t) \<and> ts_DeadlineExceeded (task_status t))
     \<and> (\<not> task_live t \<and> ts_StopRequested (task_status t) \<longrightarrow>
          ts_State (task_status t) = (if timeoutStop t then managedDownloadTaskTimedOut else managedDownloadTaskCancelled))
     \<and> (ts_State (task_status t) = managedDownloadTaskTimedOut \<longrightarrow> timeoutStop t)
     \<and> (has_cancel t \<longleftrightarrow> task_live t) \<and> (deadline_armed t \<longleftrightarrow> task_live t) \<and> (expires_armed t \<longleftrightarrow> \<not> task_live t)
     \<and> (\<not> task_live t \<or> ts_StopRequested (task_status t) \<longrightarrow> ctx_cancelled t)
     \<and> (\<not> task_live t \<longrightarrow> task_operation t = None)
     \<and> (\<forall>a. task_operation t = Some a \<longrightarrow> a = ctx_parent t)"

lemma task_okD:
  assumes "task_ok i t"
  shows "ts_ID (task_status t) = i" and "i \<noteq> []" and "trim_space i = i"
    and "ts_State (task_status t) \<noteq> managedDownloadTaskIdle" and "ts_State (task_status t) \<noteq> noTaskState"
    and "ts_State (task_status t) = managedDownloadTaskStopping \<longleftrightarrow> task_live t \<and> ts_StopRequested (task_status t)"
    and "ts_CanCancel (task_status t) \<longrightarrow> task_live t \<and> \<not> irreversible t \<and> \<not> ts_StopRequested (task_status t)"
    and "irreversible t \<longrightarrow> \<not> ts_StopRequested (task_status t)"
    and "timeoutStop t \<longrightarrow> ts_StopRequested (task_status t) \<and> ts_DeadlineExceeded (task_status t)"
    and "\<not> task_live t \<and> ts_StopRequested (task_status t) \<longrightarrow>
          ts_State (task_status t) = (if timeoutStop t then managedDownloadTaskTimedOut else managedDownloadTaskCancelled)"
    and "ts_State (task_status t) = managedDownloadTaskTimedOut \<longrightarrow> timeoutStop t"
    and "has_cancel t \<longleftrightarrow> task_live t" and "deadline_armed t \<longleftrightarrow> task_live t" and "expires_armed t \<longleftrightarrow> \<not> task_live t"
    and "\<not> task_live t \<or> ts_StopRequested (task_status t) \<longrightarrow> ctx_cancelled t"
    and "\<not> task_live t \<longrightarrow> task_operation t = None"
    and "\<forall>a. task_operation t = Some a \<longrightarrow> a = ctx_parent t"
  using assms unfolding task_ok_def by - (elim conjE, assumption)+

definition manager_ok :: "ManagedDownloadTaskManager \<Rightarrow> bool" where
  "manager_ok m \<longleftrightarrow>
     distinct (map fst (tm_tasks m))
     \<and> (\<forall>i t. task_of m i = Some t \<longrightarrow> task_ok i t \<and> (task_live t \<longleftrightarrow> i = activeID m))
     \<and> (activeID m \<noteq> [] \<longrightarrow> task_of m (activeID m) \<noteq> None \<and> latestID m = activeID m)
     \<and> (latestID m \<noteq> [] \<longrightarrow> task_of m (latestID m) \<noteq> None)"

lemmas state_simps = isManagedDownloadTaskTerminal_def task_live_def

lemma manager_okD:
  assumes "manager_ok m"
  shows "distinct (map fst (tm_tasks m))"
    and "task_of m i = Some t \<Longrightarrow> task_ok i t"
    and "task_of m i = Some t \<Longrightarrow> task_live t \<longleftrightarrow> i = activeID m"
    and "activeID m \<noteq> [] \<Longrightarrow> task_of m (activeID m) \<noteq> None"
    and "activeID m \<noteq> [] \<Longrightarrow> latestID m = activeID m"
    and "latestID m \<noteq> [] \<Longrightarrow> task_of m (latestID m) \<noteq> None"
  using assms unfolding manager_ok_def by blast+

text \<open>Changing a task to one that is as live as before keeps the invariant.\<close>

lemma put_keeps_ok:
  assumes "manager_ok m" "task_of m i = Some t" "task_ok i t'" "task_live t' = task_live t"
  shows "manager_ok (put_task i t' m)"
  using assms unfolding manager_ok_def by auto

lemma new_manager_ok: "manager_ok (NewManagedDownloadTaskManagerWithOptions name deadline ttl)"
  by (simp add: manager_ok_def NewManagedDownloadTaskManagerWithOptions_def task_of_def)

lemma forget_keeps_ok:
  assumes ok: "manager_ok m" and t: "task_of m i = Some t" "\<not> task_live t"
  shows "manager_ok (forget_task i m)"
proof -
  have "i \<noteq> activeID m" using manager_okD(3) [OF ok t(1)] t(2) by simp
  then show ?thesis using ok unfolding manager_ok_def by auto
qed

lemma expire_ok: "manager_ok m \<Longrightarrow> manager_ok (expire i m)"
  by (auto simp: expire_def task_live_def split: option.split intro: forget_keeps_ok)

lemma prune_ok:
  assumes ok: "manager_ok m"
  shows "manager_ok (pruneExpiredLocked now m)"
proof -
  note d = manager_okD(1) [OF ok]
  note p = prune_tasks [OF d]
  have due: "task_of m i = Some t \<Longrightarrow> prune_due m now t \<Longrightarrow> i \<noteq> activeID m" for i t
    using manager_okD(3) [OF ok, of i t] by (auto simp: prune_due_def task_live_def split: if_splits)
  show ?thesis unfolding manager_ok_def
  proof (intro conjI allI impI)
    fix i t assume "task_of (pruneExpiredLocked now m) i = Some t"
    then have "task_of m i = Some t" by (auto simp: p split: option.splits if_splits)
    then show "task_ok i t" and "task_live t = (i = activeID (pruneExpiredLocked now m))"
      using manager_okD(2,3) [OF ok] by (auto simp: p)
  next
    assume a: "activeID (pruneExpiredLocked now m) \<noteq> []"
    then show "task_of (pruneExpiredLocked now m) (activeID (pruneExpiredLocked now m)) \<noteq> None"
      using manager_okD(4) [OF ok] due by (auto simp: p split: option.split)
    show "latestID (pruneExpiredLocked now m) = activeID (pruneExpiredLocked now m)"
      using a manager_okD(5) [OF ok] due by (auto simp: p split: option.split)
  next
    assume "latestID (pruneExpiredLocked now m) \<noteq> []"
    then show "task_of (pruneExpiredLocked now m) (latestID (pruneExpiredLocked now m)) \<noteq> None"
      using manager_okD(6) [OF ok] by (auto simp: p split: option.splits if_splits)
  qed (simp add: p)
qed

lemma Start_cases:
  assumes "Start e pruneNow now kind fp (m, s) = (r, m', s')"
  obtains (refused) err where "r = Inl err" "m' = (if err = KindRequired then m else pruneExpiredLocked pruneNow m)"
  | (joined) t where "task_of m' (activeID m') = Some t" "fingerprint t = trim_space fp"
      "r = Inr \<lparr>sr_handle = ts_ID (task_status t), sr_status = task_status t, sr_created = False\<rparr>"
      "m' = pruneExpiredLocked pruneNow m" "s' = s"
  | (created) a i p where "p = pruneExpiredLocked pruneNow m" "task_of p (activeID p) = None"
      "BeginKworManagedOperation e (trim_space kind) s = (Inr a, s')" "i \<noteq> []" "trim_space i = i"
      "r = Inr \<lparr>sr_handle = i, sr_status = task_status (new_task p (trim_space fp) a i now), sr_created = True\<rparr>"
      "m' = (put_task i (new_task p (trim_space fp) a i now) p)\<lparr>activeID := i, latestID := i\<rparr>"
proof (cases "trim_space kind = []")
  case True
  with assms refused show ?thesis by (auto simp: Start_def)
next
  case False
  let ?p = "pruneExpiredLocked pruneNow m"
  show ?thesis
  proof (cases "task_of ?p (activeID ?p)")
    case (Some t)
    with assms False refused joined show ?thesis by (auto simp: Start_def Let_def split: if_splits)
  next
    case None
    obtain b s1 where b: "BeginKworManagedOperation e (trim_space kind) s = (b, s1)" by force
    show ?thesis
    proof (cases b)
      case (Inl err)
      with assms False None b refused show ?thesis by (auto simp: Start_def Let_def)
    next
      case (Inr a)
      from begin_handle b Inr obtain h where h: "handle_at s1 a = Some h" "h_id h \<noteq> []" "trim_space (h_id h) = h_id h"
        unfolding BeginKworManagedOperation_def by blast
      have eq: "r = Inr \<lparr>sr_handle = h_id h, sr_status = task_status (new_task ?p (trim_space fp) a (h_id h) now), sr_created = True\<rparr>"
        "m' = (put_task (h_id h) (new_task ?p (trim_space fp) a (h_id h) now) ?p)\<lparr>activeID := h_id h, latestID := h_id h\<rparr>" "s' = s1"
        using assms False None b Inr h by (simp_all add: Start_def Let_def)
      show ?thesis using created [OF refl None _ h(2,3) eq(1,2)] b Inr eq(3) by simp
    qed
  qed
qed

lemma new_task_ok: "i \<noteq> [] \<Longrightarrow> trim_space i = i \<Longrightarrow> task_ok i (new_task m fp a i now) \<and> task_live (new_task m fp a i now)"
  by (simp add: task_ok_def new_task_def state_simps)

lemma no_active:
  assumes "manager_ok m" "task_of m (activeID m) = None" "task_of m i = Some t"
  shows "\<not> task_live t"
  using manager_okD(3) [OF assms(1,3)] assms(2,3) by auto

lemma Start_ok:
  assumes ok: "manager_ok m" and st: "Start e pruneNow now kind fp (m, s) = (r, m', s')"
  shows "manager_ok m'"
  using st
proof (cases rule: Start_cases)
  case refused then show ?thesis using ok prune_ok by auto
next
  case joined then show ?thesis using ok prune_ok by simp
next
  case (created a i p)
  have p: "manager_ok p" using prune_ok [OF ok] created(1) by simp
  note n = new_task_ok [OF created(4,5), of p "trim_space fp" a now]
  have "task_ok j t \<and> (task_live t \<longleftrightarrow> j = activeID m')" if "task_of m' j = Some t" for j t
    using that n manager_okD(2) [OF p] no_active [OF p created(2)] by (auto simp: created(7) split: if_splits)
  then show ?thesis unfolding manager_ok_def using manager_okD(1) [OF p] by (auto simp: created(7))
qed

text \<open>The fields the three changes of a task set and keep.\<close>

lemma reported_fields [simp]:
  "ts_State (task_status (reported_task phase canCancel applying now t)) =
     (if ts_State (task_status t) = managedDownloadTaskQueued then managedDownloadTaskRunning else ts_State (task_status t))"
  "irreversible (reported_task phase canCancel applying now t) \<longleftrightarrow> irreversible t \<or> applying"
  "ts_CanCancel (task_status (reported_task phase canCancel applying now t)) \<longleftrightarrow> \<not> irreversible t \<and> \<not> applying \<and> canCancel"
  "ts_ID (task_status (reported_task phase canCancel applying now t)) = ts_ID (task_status t)"
  "ts_StopRequested (task_status (reported_task phase canCancel applying now t)) = ts_StopRequested (task_status t)"
  "ts_DeadlineExceeded (task_status (reported_task phase canCancel applying now t)) = ts_DeadlineExceeded (task_status t)"
  "timeoutStop (reported_task phase canCancel applying now t) = timeoutStop t"
  "has_cancel (reported_task phase canCancel applying now t) = has_cancel t"
  "deadline_armed (reported_task phase canCancel applying now t) = deadline_armed t"
  "expires_armed (reported_task phase canCancel applying now t) = expires_armed t"
  "ctx_cancelled (reported_task phase canCancel applying now t) = ctx_cancelled t"
  "task_operation (reported_task phase canCancel applying now t) = task_operation t"
  "ctx_parent (reported_task phase canCancel applying now t) = ctx_parent t"
  by (simp_all add: reported_task_def Let_def)

lemma stopped_fields [simp]:
  "ts_State (task_status (stopped_task timeout now t)) = managedDownloadTaskStopping"
  "irreversible (stopped_task timeout now t) = irreversible t" "\<not> ts_CanCancel (task_status (stopped_task timeout now t))"
  "ts_ID (task_status (stopped_task timeout now t)) = ts_ID (task_status t)"
  "ts_StopRequested (task_status (stopped_task timeout now t))"
  "ts_DeadlineExceeded (task_status (stopped_task timeout now t)) \<longleftrightarrow> ts_DeadlineExceeded (task_status t) \<or> timeout"
  "timeoutStop (stopped_task timeout now t) \<longleftrightarrow> timeoutStop t \<or> timeout"
  "has_cancel (stopped_task timeout now t) = has_cancel t" "deadline_armed (stopped_task timeout now t) = deadline_armed t"
  "expires_armed (stopped_task timeout now t) = expires_armed t"
  "ctx_cancelled (stopped_task timeout now t) \<longleftrightarrow> ctx_cancelled t \<or> has_cancel t"
  "task_operation (stopped_task timeout now t) = task_operation t" "ctx_parent (stopped_task timeout now t) = ctx_parent t"
  by (simp_all add: stopped_task_def Let_def)

lemma finished_fields [simp]:
  "ts_State (task_status (finished_task requested phase message now t)) =
     (let state = fst (final_state t requested message) in if state = noTaskState then managedDownloadTaskError else state)"
  "irreversible (finished_task requested phase message now t) = irreversible t"
  "\<not> ts_CanCancel (task_status (finished_task requested phase message now t))"
  "ts_ID (task_status (finished_task requested phase message now t)) = ts_ID (task_status t)"
  "ts_StopRequested (task_status (finished_task requested phase message now t)) = ts_StopRequested (task_status t)"
  "ts_DeadlineExceeded (task_status (finished_task requested phase message now t)) = ts_DeadlineExceeded (task_status t)"
  "timeoutStop (finished_task requested phase message now t) = timeoutStop t"
  "\<not> has_cancel (finished_task requested phase message now t)" "\<not> deadline_armed (finished_task requested phase message now t)"
  "expires_armed (finished_task requested phase message now t)"
  "ctx_cancelled (finished_task requested phase message now t) \<longleftrightarrow> ctx_cancelled t \<or> has_cancel t"
  "task_operation (finished_task requested phase message now t) = None"
  "ctx_parent (finished_task requested phase message now t) = ctx_parent t"
  by (simp_all add: finished_task_def Let_def)

text \<open>A progress report changes a live task that was not stopped, and nothing else.\<close>

lemma handle_update_cases:
  assumes "handle_update i phase canCancel applying now (m, s) = (b, m')"
  obtains (refused) "\<not> b" "m' = m"
  | (reported) t where b "task_of m i = Some t" "task_live t" "\<not> ctx_err s t" "ts_State (task_status t) \<noteq> managedDownloadTaskStopping"
      "m' = put_task i (reported_task (trim_space phase) canCancel applying now t) m"
  using assms by (auto simp: handle_update_def task_live_def Let_def split: option.splits if_splits)

lemma reported_ok:
  assumes "task_ok i t" "task_live t" "ts_State (task_status t) \<noteq> managedDownloadTaskStopping"
  shows "task_ok i (reported_task phase canCancel applying now t)" "task_live (reported_task phase canCancel applying now t)"
proof -
  note k = task_okD [OF assms(1)]
  show l: "task_live (reported_task phase canCancel applying now t)" using assms(2) by (simp add: state_simps)
  have "\<not> ts_StopRequested (task_status t)" using k(6) assms(2,3) by simp
  then show "task_ok i (reported_task phase canCancel applying now t)"
    using k(1-5,9,12-15,17) l assms(2,3) unfolding task_ok_def by (simp add: state_simps)
qed

lemma handle_update_ok:
  assumes ok: "manager_ok m" and st: "handle_update i phase canCancel applying now (m, s) = (b, m')"
  shows "manager_ok m'"
  using st
proof (cases rule: handle_update_cases)
  case (reported t)
  show ?thesis using reported reported_ok [OF manager_okD(2) [OF ok reported(2)] reported(3,5)]
    by (auto intro!: put_keeps_ok [OF ok reported(2)])
qed (simp add: ok)

lemma stopped_ok:
  assumes "task_ok i t" "task_live t" "ts_CanCancel (task_status t)"
  shows "task_ok i (stopped_task timeout now t)" "task_live (stopped_task timeout now t)"
proof -
  note k = task_okD [OF assms(1)]
  show l: "task_live (stopped_task timeout now t)" by (simp add: state_simps)
  have "\<not> irreversible t" "\<not> timeoutStop t" using k(7,9) assms(3) by auto
  then show "task_ok i (stopped_task timeout now t)"
    using k(1-3,12-14,17) l assms(2) unfolding task_ok_def by simp
qed

definition deadline_noted :: "bool \<Rightarrow> int \<Rightarrow> managedDownloadTask \<Rightarrow> managedDownloadTask" where
  "deadline_noted timeout now t =
     (if timeout \<and> task_live t then t\<lparr>task_status := (task_status t)\<lparr>ts_DeadlineExceeded := True, ts_UpdatedAt := unix_seconds now\<rparr>\<rparr>
      else t)"

lemma requestStop_eq:
  "requestStop raw timeout now m =
     (case task_of m (trim_space raw) of
        None \<Rightarrow> ((idle_status, False), m)
      | Some t \<Rightarrow>
          let ok = (task_live t \<and> ts_CanCancel (task_status t)); t' = (if ok then stopped_task timeout now t else deadline_noted timeout now t)
          in ((task_status t', ok), put_task (trim_space raw) t' m))"
  by (cases "task_of m (trim_space raw)") (simp_all add: requestStop_def deadline_noted_def task_live_def Let_def)

lemma requestStop_cases:
  assumes "requestStop raw timeout now m = ((st, ok), m')"
  obtains (unknown) "task_of m (trim_space raw) = None" "\<not> ok" "m' = m" "st = idle_status"
  | (refused) t where "task_of m (trim_space raw) = Some t" "\<not> task_live t \<or> \<not> ts_CanCancel (task_status t)" "\<not> ok"
      "m' = put_task (trim_space raw) (deadline_noted timeout now t) m" "st = task_status (deadline_noted timeout now t)"
  | (accepted) t where "task_of m (trim_space raw) = Some t" "task_live t" "ts_CanCancel (task_status t)" ok
      "m' = put_task (trim_space raw) (stopped_task timeout now t) m" "st = task_status (stopped_task timeout now t)"
  using assms unfolding requestStop_eq by (auto simp: Let_def split: option.splits if_splits)

lemma deadline_noted_live [simp]: "task_live (deadline_noted timeout now t) = task_live t"
  by (simp add: deadline_noted_def task_live_def)

lemma same_fields:
  "task_status (t\<lparr>task_operation := x\<rparr>) = task_status t" "irreversible (t\<lparr>task_operation := x\<rparr>) = irreversible t"
  "timeoutStop (t\<lparr>task_operation := x\<rparr>) = timeoutStop t" "has_cancel (t\<lparr>task_operation := x\<rparr>) = has_cancel t"
  "deadline_armed (t\<lparr>task_operation := x\<rparr>) = deadline_armed t" "expires_armed (t\<lparr>task_operation := x\<rparr>) = expires_armed t"
  "ctx_cancelled (t\<lparr>task_operation := x\<rparr>) = ctx_cancelled t" "ctx_parent (t\<lparr>task_operation := x\<rparr>) = ctx_parent t"
  "irreversible (t\<lparr>task_status := st\<rparr>) = irreversible t" "timeoutStop (t\<lparr>task_status := st\<rparr>) = timeoutStop t"
  "has_cancel (t\<lparr>task_status := st\<rparr>) = has_cancel t" "deadline_armed (t\<lparr>task_status := st\<rparr>) = deadline_armed t"
  "expires_armed (t\<lparr>task_status := st\<rparr>) = expires_armed t" "ctx_cancelled (t\<lparr>task_status := st\<rparr>) = ctx_cancelled t"
  "task_operation (t\<lparr>task_status := st\<rparr>) = task_operation t" "ctx_parent (t\<lparr>task_status := st\<rparr>) = ctx_parent t"
  "task_status (t\<lparr>task_status := st\<rparr>) = st"
  "ts_ID (u\<lparr>ts_DeadlineExceeded := True, ts_UpdatedAt := n\<rparr>) = ts_ID u"
  "ts_State (u\<lparr>ts_DeadlineExceeded := True, ts_UpdatedAt := n\<rparr>) = ts_State u"
  "ts_CanCancel (u\<lparr>ts_DeadlineExceeded := True, ts_UpdatedAt := n\<rparr>) = ts_CanCancel u"
  "ts_StopRequested (u\<lparr>ts_DeadlineExceeded := True, ts_UpdatedAt := n\<rparr>) = ts_StopRequested u"
  by simp_all

lemma deadline_noted_ok:
  assumes "task_ok i t"
  shows "task_ok i (deadline_noted timeout now t)"
proof -
  note k = task_okD [OF assms]
  have "task_ok i (t\<lparr>task_status := (task_status t)\<lparr>ts_DeadlineExceeded := True, ts_UpdatedAt := unix_seconds now\<rparr>\<rparr>)" (is "task_ok i ?t")
  proof -
    have l: "task_live ?t = task_live t" by (simp add: task_live_def)
    have "ts_DeadlineExceeded (task_status ?t)" by simp
    then show ?thesis unfolding task_ok_def l same_fields using k(9) by (intro conjI k) simp_all
  qed
  then show ?thesis using assms by (simp add: deadline_noted_def)
qed

lemma requestStop_ok:
  assumes ok: "manager_ok m" and st: "requestStop raw timeout now m = (r, m')"
  shows "manager_ok m'"
proof -
  obtain a b where "requestStop raw timeout now m = ((a, b), m')" using st by (cases r) auto
  then show ?thesis
  proof (cases rule: requestStop_cases)
    case (refused t)
    show ?thesis unfolding refused(4)
      by (rule put_keeps_ok [OF ok refused(1) deadline_noted_ok deadline_noted_live]) (rule manager_okD(2) [OF ok refused(1)])
  next
    case (accepted t)
    show ?thesis unfolding accepted(5)
      by (rule put_keeps_ok [OF ok accepted(1)])
        (use stopped_ok [OF manager_okD(2) [OF ok accepted(1)] accepted(2,3)] accepted(2) in blast)+
  qed (simp add: ok)
qed

text \<open>The states a worker may ask for at the end.\<close>

definition end_request :: "managed_task_state \<Rightarrow> bool" where
  "end_request state \<longleftrightarrow> state \<in> {managedDownloadTaskSuccess, managedDownloadTaskError, noTaskState}"

lemma final_state_terminal:
  "end_request requested \<Longrightarrow> isManagedDownloadTaskTerminal (fst (final_state t requested message))"
  by (auto simp: final_state_def end_request_def state_simps)

lemma finished_state:
  assumes "end_request requested"
  shows "ts_State (task_status (finished_task requested phase message now t)) = fst (final_state t requested message)"
    and "\<not> task_live (finished_task requested phase message now t)"
proof -
  show eq: "ts_State (task_status (finished_task requested phase message now t)) = fst (final_state t requested message)"
    using final_state_terminal [OF assms, of t message] by (auto simp: Let_def state_simps)
  show "\<not> task_live (finished_task requested phase message now t)"
    using final_state_terminal [OF assms, of t message] by (simp only: task_live_def eq not_not)
qed

lemma handle_finish_cases:
  assumes "handle_finish io i requested phase message now (m, s) = (m', s')"
  obtains (ignored) "m' = m" "s' = s" "\<And>t. task_of m i = Some t \<Longrightarrow> \<not> task_live t"
  | (finished) t where "task_of m i = Some t" "task_live t"
      "m' = (let m1 = put_task i (finished_task requested (trim_space phase) (trim_space message) now t) m
             in if activeID m1 = i then m1\<lparr>activeID := []\<rparr> else m1)"
      "s' = (case task_operation t of None \<Rightarrow> s | Some a \<Rightarrow> Done io a s)"
proof (cases "task_of m i")
  case None
  with assms ignored show ?thesis by (auto simp: handle_finish_def)
next
  case (Some t)
  show ?thesis
  proof (cases "task_live t")
    case True
    show ?thesis by (rule finished [OF Some True]) (use assms Some True in \<open>simp_all add: handle_finish_def task_live_def Let_def\<close>)
  next
    case False
    with assms Some ignored show ?thesis by (auto simp: handle_finish_def task_live_def)
  qed
qed

lemma finished_ok:
  assumes "task_ok i t" "task_live t" and r: "end_request requested"
  shows "task_ok i (finished_task requested phase message now t)"
proof -
  note k = task_okD [OF assms(1)]
  have "fst (final_state t requested message) =
      (if ts_StopRequested (task_status t) \<or> requested = noTaskState
       then (if timeoutStop t then managedDownloadTaskTimedOut else managedDownloadTaskCancelled) else requested)"
    using k(6) assms(2) by (simp add: final_state_def)
  moreover have "requested \<noteq> managedDownloadTaskStopping" "requested \<noteq> managedDownloadTaskIdle" "requested \<noteq> managedDownloadTaskTimedOut"
    using r by (auto simp: end_request_def)
  ultimately show ?thesis
    using k(1-3,8,9,12) assms(2) finished_state [OF r, of phase message now t] unfolding task_ok_def
    by (simp del: finished_fields(1))
qed

lemma handle_finish_ok:
  assumes ok: "manager_ok m" and r: "end_request requested"
    and st: "handle_finish io i requested phase message now (m, s) = (m', s')"
  shows "manager_ok m'"
  using st
proof (cases rule: handle_finish_cases)
  case (finished t)
  let ?t = "finished_task requested (trim_space phase) (trim_space message) now t"
  have act: "activeID m = i" using manager_okD(3) [OF ok finished(1)] finished(2) by simp
  have m': "m' = (put_task i ?t m)\<lparr>activeID := []\<rparr>" using finished(3) act by (simp add: Let_def)
  have new: "task_ok i ?t" "\<not> task_live ?t"
    using finished_ok [OF manager_okD(2) [OF ok finished(1)] finished(2) r] finished_state(2) [OF r] by blast+
  have ne: "i \<noteq> []" by (rule task_okD(2) [OF manager_okD(2) [OF ok finished(1)]])
  have "task_ok j u \<and> (task_live u \<longleftrightarrow> j = activeID m')" if "task_of m' j = Some u" for j u
  proof (cases "j = i")
    case True
    with that have "u = ?t" by (simp add: m')
    with True new ne show ?thesis by (simp add: m')
  next
    case False
    with that have u: "task_of m j = Some u" by (simp add: m')
    show ?thesis using manager_okD(2,3) [OF ok u] task_okD(2) [OF manager_okD(2) [OF ok u]] False act by (simp add: m')
  qed
  then show ?thesis unfolding manager_ok_def
    using manager_okD(1,4,5,6) [OF ok] finished(1) act ne by (auto simp: m')
qed (simp add: ok)

lemma detached_ok:
  assumes "task_ok i t"
  shows "task_ok i (t\<lparr>task_operation := None\<rparr>)" "task_live (t\<lparr>task_operation := None\<rparr>) = task_live t"
proof -
  show l: "task_live (t\<lparr>task_operation := None\<rparr>) = task_live t" by (simp add: task_live_def)
  show "task_ok i (t\<lparr>task_operation := None\<rparr>)" unfolding task_ok_def l same_fields
    by (intro conjI task_okD [OF assms]) simp_all
qed

lemma DetachOperation_ok:
  assumes ok: "manager_ok m" and st: "DetachOperation i (m, s) = (r, m', s')"
  shows "manager_ok m'"
proof (cases "task_of m i")
  case (Some t)
  have "task_ok i (t\<lparr>task_operation := None\<rparr>)" "task_live (t\<lparr>task_operation := None\<rparr>) = task_live t"
    using detached_ok [OF manager_okD(2) [OF ok Some]] .
  then show ?thesis using st Some put_keeps_ok [OF ok Some] by (auto simp: DetachOperation_def)
qed (use st ok in \<open>simp add: DetachOperation_def\<close>)

section \<open>The board\<close>

datatype task_stage = Open | Applying | StopAsked bool

record task_board =
  current :: "(string \<times> task_stage) option"
  ended :: "string \<Rightarrow> managed_task_state option"

datatype task_event =
    Began string
  | Applied string
  | Stopped string bool
  | Finished string managed_task_state
  | Forgot "string set"

definition may_end :: "task_stage \<Rightarrow> managed_task_state \<Rightarrow> bool" where
  "may_end st outcome \<longleftrightarrow>
     (case st of
        StopAsked timeout \<Rightarrow> outcome = (if timeout then managedDownloadTaskTimedOut else managedDownloadTaskCancelled)
      | _ \<Rightarrow> outcome \<in> {managedDownloadTaskSuccess, managedDownloadTaskError, managedDownloadTaskCancelled})"

inductive board_step :: "task_board \<Rightarrow> task_event \<Rightarrow> task_board \<Rightarrow> bool" where
  began: "current b = None \<Longrightarrow> board_step b (Began i) (b\<lparr>current := Some (i, Open), ended := (ended b)(i := None)\<rparr>)"
| applied: "current b = Some (i, st) \<Longrightarrow> st \<in> {Open, Applying} \<Longrightarrow> board_step b (Applied i) (b\<lparr>current := Some (i, Applying)\<rparr>)"
| stopped: "current b = Some (i, Open) \<Longrightarrow> board_step b (Stopped i timeout) (b\<lparr>current := Some (i, StopAsked timeout)\<rparr>)"
| finished: "current b = Some (i, st) \<Longrightarrow> may_end st outcome \<Longrightarrow>
    board_step b (Finished i outcome) (b\<lparr>current := None, ended := (ended b)(i \<mapsto> outcome)\<rparr>)"
| forgot: "\<forall>i\<in>I. current b = None \<or> fst (the (current b)) \<noteq> i \<Longrightarrow>
    board_step b (Forgot I) (b\<lparr>ended := (\<lambda>i. if i \<in> I then None else ended b i)\<rparr>)"

inductive_cases board_step_cases: "board_step b ev b'"

fun board_run :: "task_board \<Rightarrow> task_event list \<Rightarrow> task_board \<Rightarrow> bool" where
  "board_run b [] b' \<longleftrightarrow> b' = b"
| "board_run b (ev # evs) b' \<longleftrightarrow> (\<exists>c. board_step b ev c \<and> board_run c evs b')"

lemma board_run_append: "board_run b (xs @ ys) b' \<longleftrightarrow> (\<exists>c. board_run b xs c \<and> board_run c ys b')"
  by (induction xs arbitrary: b) auto

definition stage_of :: "managedDownloadTask \<Rightarrow> task_stage" where
  "stage_of t =
     (if ts_State (task_status t) = managedDownloadTaskStopping then StopAsked (timeoutStop t)
      else if irreversible t then Applying else Open)"

definition board_of :: "ManagedDownloadTaskManager \<Rightarrow> task_board" where
  "board_of m =
     \<lparr>current = map_option (\<lambda>t. (activeID m, stage_of t)) (task_of m (activeID m)),
      ended = (\<lambda>i. case task_of m i of None \<Rightarrow> None | Some t \<Rightarrow> if task_live t then None else Some (ts_State (task_status t)))\<rparr>"

definition initial_board :: task_board where
  "initial_board = \<lparr>current = None, ended = Map.empty\<rparr>"

section \<open>Runs of the manager\<close>

text \<open>What a call says to the outside.\<close>

definition pruned :: "ManagedDownloadTaskManager \<Rightarrow> int \<Rightarrow> string set" where
  "pruned m now = {i. \<exists>t. task_of m i = Some t \<and> prune_due m now t}"

definition start_events :: "ManagedDownloadTaskManager \<Rightarrow> int \<Rightarrow> task_error + start_result \<Rightarrow> task_event list" where
  "start_events m now r =
     (case r of
        Inl err \<Rightarrow> if err = KindRequired then [] else [Forgot (pruned m now)]
      | Inr sr \<Rightarrow> Forgot (pruned m now) # (if sr_created sr then [Began (sr_handle sr)] else []))"

definition finish_events :: "string \<Rightarrow> ManagedDownloadTaskManager \<Rightarrow> ManagedDownloadTaskManager \<Rightarrow> task_event list" where
  "finish_events i m m' =
     (case task_of m i of
        None \<Rightarrow> []
      | Some t \<Rightarrow> if task_live t then [Finished i (ts_State (task_status (the (task_of m' i))))] else [])"

text \<open>
  One step is one call: of a browser, of a worker, of a timer, or anything that happens to the operations.
  The timers are allowed to fire at any time.
\<close>

inductive task_step ::
    "ManagedDownloadTaskManager \<times> lifecycle_state \<Rightarrow> task_event list \<Rightarrow> ManagedDownloadTaskManager \<times> lifecycle_state \<Rightarrow> bool" where
  start: "Start e t0 t1 kind fp (m, s) = (r, m', s') \<Longrightarrow> task_step (m, s) (start_events m t0 r) (m', s')"
| running: "MarkRunning i phase now (m, s) = (b, m') \<Longrightarrow> task_step (m, s) [] (m', s)"
| phase: "SetPhase i phase canCancel now (m, s) = (b, m') \<Longrightarrow> task_step (m, s) [] (m', s)"
| applying: "BeginApplying i phase now (m, s) = (b, m') \<Longrightarrow> task_step (m, s) (if b then [Applied i] else []) (m', s)"
| stop: "Stop raw now m = ((st, err), m') \<Longrightarrow> task_step (m, s) (if err = None then [Stopped (trim_space raw) False] else []) (m', s)"
| deadline: "requestStop raw True now m = ((st, b), m') \<Longrightarrow> task_step (m, s) (if b then [Stopped (trim_space raw) True] else []) (m', s)"
| success: "FinishSuccess io i phase now (m, s) = (m', s') \<Longrightarrow> task_step (m, s) (finish_events i m m') (m', s')"
| failure: "FinishError io i phase err now (m, s) = (m', s') \<Longrightarrow> task_step (m, s) (finish_events i m m') (m', s')"
| cancelled: "FinishCancelled io i phase now (m, s) = (m', s') \<Longrightarrow> task_step (m, s) (finish_events i m m') (m', s')"
| panicked: "finishManagedDownloadTaskPanic io i phase name (Some text) now (m, s) = (m', s') \<Longrightarrow>
    task_step (m, s) (finish_events i m m') (m', s')"
| detach: "DetachOperation i (m, s) = (r, m', s') \<Longrightarrow> task_step (m, s) [] (m', s')"
| get: "Get raw now m = (st, m') \<Longrightarrow> task_step (m, s) [Forgot (pruned m now)] (m', s)"
| expire: "m' = expire i m \<Longrightarrow>
    task_step (m, s) (if task_of m i \<noteq> None \<and> task_of m' i = None then [Forgot {i}] else []) (m', s)"
| operations: "task_step (m, s) [] (m, s')"

inductive task_run ::
    "ManagedDownloadTaskManager \<times> lifecycle_state \<Rightarrow> task_event list \<Rightarrow> ManagedDownloadTaskManager \<times> lifecycle_state \<Rightarrow> bool" where
  none: "task_run ms [] ms"
| step: "task_run ms log ms' \<Longrightarrow> task_step ms' evs ms'' \<Longrightarrow> task_run ms (log @ evs) ms''"

section \<open>The manager refines the board\<close>

lemma board_of_cong:
  assumes "activeID m' = activeID m" "\<And>i. task_of m' i = task_of m i"
  shows "board_of m' = board_of m"
  using assms by (simp add: board_of_def)

lemma live_is_current:
  assumes "manager_ok m" "task_of m i = Some t" "task_live t"
  shows "activeID m = i" "current (board_of m) = Some (i, stage_of t)"
  using manager_okD(3) [OF assms(1,2)] assms(2,3) by (auto simp: board_of_def)

lemma board_put_live:
  assumes ok: "manager_ok m" and t: "task_of m i = Some t" "task_live t" and t': "task_live t'"
  shows "board_of (put_task i t' m) = (board_of m)\<lparr>current := Some (i, stage_of t')\<rparr>"
proof -
  have "activeID m = i" by (rule live_is_current(1) [OF ok t])
  then show ?thesis using t t' by (auto simp: board_of_def fun_eq_iff)
qed

lemma board_prune:
  assumes ok: "manager_ok m"
  shows "board_step (board_of m) (Forgot (pruned m now)) (board_of (pruneExpiredLocked now m))"
proof -
  note p = prune_tasks [OF manager_okD(1) [OF ok]]
  have dead: "\<not> task_live t" if "prune_due m now t" for t using that by (auto simp: prune_due_def task_live_def split: if_splits)
  have act: "task_of m (activeID m) = Some t \<Longrightarrow> task_live t" for t using manager_okD(3) [OF ok] by simp
  have "board_of (pruneExpiredLocked now m) =
      (board_of m)\<lparr>ended := (\<lambda>i. if i \<in> pruned m now then None else ended (board_of m) i)\<rparr>"
    using dead act by (auto simp: board_of_def p pruned_def fun_eq_iff split: option.split)
  moreover have "\<forall>i\<in>pruned m now. current (board_of m) = None \<or> fst (the (current (board_of m))) \<noteq> i"
    using dead act by (auto simp: board_of_def pruned_def)
  ultimately show ?thesis using forgot by metis
qed

lemma board_expire:
  assumes ok: "manager_ok m"
  shows "board_run (board_of m) (if task_of m i \<noteq> None \<and> task_of (expire i m) i = None then [Forgot {i}] else []) (board_of (expire i m))"
proof (cases "\<exists>t. task_of m i = Some t \<and> \<not> task_live t")
  case True
  then obtain t where t: "task_of m i = Some t" "\<not> task_live t" by blast
  have e: "expire i m = forget_task i m" using t by (simp add: expire_def task_live_def)
  have ne: "activeID m \<noteq> i" using manager_okD(3) [OF ok t(1)] t(2) by simp
  have "board_of (forget_task i m) = (board_of m)\<lparr>ended := (\<lambda>j. if j \<in> {i} then None else ended (board_of m) j)\<rparr>"
    using ne by (auto simp: board_of_def fun_eq_iff)
  moreover have "\<forall>j\<in>{i}. current (board_of m) = None \<or> fst (the (current (board_of m))) \<noteq> j"
    using ne by (auto simp: board_of_def)
  ultimately have "board_step (board_of m) (Forgot {i}) (board_of (forget_task i m))" using forgot by metis
  then show ?thesis using t by (simp add: e)
next
  case False
  then have "expire i m = m" by (auto simp: expire_def task_live_def split: option.split)
  then show ?thesis by (cases "task_of m i") simp_all
qed

lemma board_update:
  assumes ok: "manager_ok m" and st: "handle_update i phase canCancel applying now (m, s) = (b, m')"
  shows "board_run (board_of m) (if b \<and> applying then [Applied i] else []) (board_of m')"
  using st
proof (cases rule: handle_update_cases)
  case refused
  then show ?thesis by simp
next
  case (reported t)
  let ?t = "reported_task (trim_space phase) canCancel applying now t"
  have "task_live ?t" by (rule reported_ok(2) [OF manager_okD(2) [OF ok reported(2)] reported(3,5)])
  then have m': "board_of m' = (board_of m)\<lparr>current := Some (i, stage_of ?t)\<rparr>"
    unfolding reported(6) by (rule board_put_live [OF ok reported(2,3)])
  note cur = live_is_current(2) [OF ok reported(2,3)]
  show ?thesis
  proof (cases applying)
    case True
    then have "stage_of ?t = Applying" using reported(5) by (simp add: stage_of_def)
    moreover have "stage_of t \<in> {Open, Applying}" using reported(5) by (simp add: stage_of_def)
    ultimately show ?thesis using applied [OF cur] True reported(1) by (simp add: m')
  next
    case False
    then have "stage_of ?t = stage_of t" using reported(5) by (simp add: stage_of_def)
    then have "board_of m' = board_of m" using cur by (simp add: m')
    then show ?thesis using False by simp
  qed
qed

lemma board_stop:
  assumes ok: "manager_ok m" and st: "requestStop raw timeout now m = ((r, b), m')"
  shows "board_run (board_of m) (if b then [Stopped (trim_space raw) timeout] else []) (board_of m')"
  using st
proof (cases rule: requestStop_cases)
  case (refused t)
  let ?i = "trim_space raw"
  show ?thesis
  proof (cases "task_live t")
    case True
    have "board_of m' = (board_of m)\<lparr>current := Some (?i, stage_of (deadline_noted timeout now t))\<rparr>"
      unfolding refused(4) by (rule board_put_live [OF ok refused(1) True]) (simp add: True)
    moreover have "stage_of (deadline_noted timeout now t) = stage_of t" by (simp add: stage_of_def deadline_noted_def)
    ultimately show ?thesis using live_is_current(2) [OF ok refused(1) True] refused(3) by simp
  next
    case False
    then have "deadline_noted timeout now t = t" by (simp add: deadline_noted_def)
    then have "board_of m' = board_of m" unfolding refused(4) by (intro board_of_cong) (simp_all add: refused(1))
    then show ?thesis using refused(3) by simp
  qed
next
  case (accepted t)
  let ?i = "trim_space raw"
  note k = task_okD [OF manager_okD(2) [OF ok accepted(1)]]
  have f: "\<not> irreversible t" "\<not> timeoutStop t" "ts_State (task_status t) \<noteq> managedDownloadTaskStopping"
    using k(6,7,9) accepted(3) by auto
  have "board_of m' = (board_of m)\<lparr>current := Some (?i, stage_of (stopped_task timeout now t))\<rparr>"
    unfolding accepted(5)
    by (rule board_put_live [OF ok accepted(1,2)]) (rule stopped_ok(2) [OF manager_okD(2) [OF ok accepted(1)] accepted(2,3)])
  moreover have "stage_of (stopped_task timeout now t) = StopAsked timeout" "stage_of t = Open"
    using f by (simp_all add: stage_of_def)
  ultimately show ?thesis
    using stopped [of "board_of m" ?i] live_is_current(2) [OF ok accepted(1,2)] accepted(4) by simp
qed simp

lemma board_finish:
  assumes ok: "manager_ok m" and r: "end_request requested"
    and st: "handle_finish io i requested phase message now (m, s) = (m', s')"
  shows "board_run (board_of m) (finish_events i m m') (board_of m')"
  using st
proof (cases rule: handle_finish_cases)
  case ignored
  then show ?thesis by (auto simp: finish_events_def split: option.split)
next
  case (finished t)
  let ?t = "finished_task requested (trim_space phase) (trim_space message) now t"
  note cur = live_is_current [OF ok finished(1,2)]
  note k = task_okD [OF manager_okD(2) [OF ok finished(1)]]
  have m': "m' = (put_task i ?t m)\<lparr>activeID := []\<rparr>" using finished(3) cur(1) by (simp add: Let_def)
  have outcome: "ts_State (task_status ?t) = fst (final_state t requested (trim_space message))" and dead: "\<not> task_live ?t"
    using finished_state [OF r] by blast+
  have "may_end (stage_of t) (fst (final_state t requested (trim_space message)))"
    using r k(6,9) finished(2) by (auto simp: may_end_def stage_of_def final_state_def end_request_def)
  then have may: "may_end (stage_of t) (ts_State (task_status ?t))" unfolding outcome .
  have none: "task_of m [] = None" using task_okD(2) [OF manager_okD(2) [OF ok, of "[]"]] by (cases "task_of m []") auto
  have "board_of m' = (board_of m)\<lparr>current := None, ended := (ended (board_of m))(i \<mapsto> ts_State (task_status ?t))\<rparr>"
    using none dead k(2) by (auto simp: board_of_def m' fun_eq_iff simp del: finished_fields(1))
  moreover have "finish_events i m m' = [Finished i (ts_State (task_status ?t))]"
    using finished(1,2) by (simp add: finish_events_def m' del: finished_fields(1))
  ultimately show ?thesis using board_step.finished [OF cur(2) may] by (simp del: finished_fields(1))
qed

lemma board_start:
  assumes ok: "manager_ok m" and st: "Start e t0 t1 kind fp (m, s) = (r, m', s')"
  shows "board_run (board_of m) (start_events m t0 r) (board_of m')"
  using st
proof (cases rule: Start_cases)
  case (refused err)
  then show ?thesis using board_prune [OF ok] by (auto simp: start_events_def)
next
  case (joined t)
  then show ?thesis using board_prune [OF ok] by (auto simp: start_events_def)
next
  case (created a i p)
  have p: "manager_ok p" using prune_ok [OF ok] created(1) by simp
  let ?t = "new_task p (trim_space fp) a i t1"
  have new: "task_live ?t" "stage_of ?t = Open" using new_task_ok [OF created(4,5)] by (simp_all add: stage_of_def new_task_def)
  have "board_of m' = (board_of p)\<lparr>current := Some (i, Open), ended := (ended (board_of p))(i := None)\<rparr>"
    using new by (auto simp: board_of_def created(7) fun_eq_iff)
  moreover have "current (board_of p) = None" using created(2) by (simp add: board_of_def)
  ultimately have "board_step (board_of p) (Began i) (board_of m')" using began by metis
  then show ?thesis using board_prune [OF ok, of t0] created(1,6) by (auto simp: start_events_def)
qed

lemma end_requests [simp]:
  "end_request managedDownloadTaskSuccess" "end_request managedDownloadTaskError" "end_request noTaskState"
  by (simp_all add: end_request_def)

lemmas finish_defs = FinishSuccess_def FinishError_def FinishCancelled_def finishManagedDownloadTaskPanic_def Let_def
lemmas report_defs = MarkRunning_def SetPhase_def BeginApplying_def

lemma Stop_request:
  assumes "Stop raw now m = ((st, err), m')"
  obtains (empty) "trim_space raw = []" "err \<noteq> None" "m' = m"
  | (asked) ok where "requestStop raw False now m = ((st, ok), m')" "err = None \<longleftrightarrow> ok"
proof (cases "trim_space raw = []")
  case False
  obtain st0 ok m0 where q: "requestStop (trim_space raw) False now m = ((st0, ok), m0)" by (metis surj_pair)
  then have "requestStop raw False now m = ((st0, ok), m0)" by (simp only: requestStop_def trim_space_idem)
  then show ?thesis using assms False q asked by (auto simp: Stop_def)
qed (use assms empty in \<open>auto simp: Stop_def\<close>)

text \<open>Every step keeps the invariant and is a sequence of moves on the board.\<close>

lemma task_step_refines:
  assumes "task_step ms evs ms'" "manager_ok (fst ms)"
  shows "manager_ok (fst ms') \<and> board_run (board_of (fst ms)) evs (board_of (fst ms'))"
  using assms
proof (induction rule: task_step.induct)
  case (start e t0 t1 kind fp m s r m' s')
  then show ?case using Start_ok board_start by auto
next
  case (running i phase now m s b m')
  then show ?case using handle_update_ok board_update [of m i phase True False now s b m'] by (auto simp: report_defs)
next
  case (phase i phase canCancel now m s b m')
  then show ?case using handle_update_ok board_update [of m i phase canCancel False now s b m'] by (auto simp: report_defs)
next
  case (applying i phase now m s b m')
  then show ?case using handle_update_ok board_update [of m i phase False True now s b m'] by (auto simp: report_defs)
next
  case (stop raw now m st err m' s)
  from stop(1) show ?case
  proof (cases rule: Stop_request)
    case (asked ok)
    then show ?thesis using stop(2) requestStop_ok board_stop [of m raw False now st ok m'] by auto
  qed (use stop(2) in auto)
next
  case (deadline raw now m st b m' s)
  then show ?case using requestStop_ok board_stop by auto
next
  case (success io i phase now m s m' s')
  then show ?case unfolding finish_defs using handle_finish_ok [OF _ end_requests(1)] board_finish [OF _ end_requests(1)] by auto
next
  case (failure io i phase err now m s m' s')
  then show ?case unfolding finish_defs using handle_finish_ok [OF _ end_requests(2)] board_finish [OF _ end_requests(2)] by auto
next
  case (cancelled io i phase now m s m' s')
  then show ?case unfolding finish_defs using handle_finish_ok [OF _ end_requests(3)] board_finish [OF _ end_requests(3)] by auto
next
  case (panicked io i phase name pan now m s m' s')
  then show ?case unfolding finish_defs option.simps(5)
    using handle_finish_ok [OF _ end_requests(2)] board_finish [OF _ end_requests(2)] by auto
next
  case (detach i m s r m' s')
  then have "manager_ok m'" using DetachOperation_ok by auto
  moreover have "board_of m' = board_of m"
  proof (cases "task_of m i")
    case None
    then show ?thesis using detach(1) by (simp add: DetachOperation_def)
  next
    case (Some t)
    have "task_live (t\<lparr>task_operation := None\<rparr>) = task_live t" "stage_of (t\<lparr>task_operation := None\<rparr>) = stage_of t"
      by (simp_all add: task_live_def stage_of_def)
    then show ?thesis using detach(1) Some by (auto simp: DetachOperation_def board_of_def fun_eq_iff)
  qed
  ultimately show ?case by simp
next
  case (get raw now m st m' s)
  then have "m' = pruneExpiredLocked now m" by (simp add: Get_def Let_def)
  then show ?case using get(2) prune_ok board_prune by auto
next
  case (expire m' i m s)
  then show ?case using expire_ok board_expire [of m i] by simp
qed simp

lemma task_run_refines:
  assumes "task_run ms log ms'" "fst ms = NewManagedDownloadTaskManagerWithOptions name deadline ttl"
  shows "manager_ok (fst ms') \<and> board_run initial_board log (board_of (fst ms'))"
  using assms
proof (induction rule: task_run.induct)
  case (none ms)
  then show ?case using new_manager_ok
    by (auto simp: initial_board_def board_of_def NewManagedDownloadTaskManagerWithOptions_def task_of_def)
next
  case (step ms log ms' evs ms'')
  then show ?case using task_step_refines [OF step(2)] by (auto simp: board_run_append)
qed

text \<open>What the board knows of a task since it began.\<close>

definition stage_agrees :: "string \<Rightarrow> task_event list \<Rightarrow> task_stage \<Rightarrow> bool" where
  "stage_agrees i log st \<longleftrightarrow>
     (case st of
        Open \<Rightarrow> Applied i \<notin> set log \<and> (\<forall>t. Stopped i t \<notin> set log)
      | Applying \<Rightarrow> Applied i \<in> set log \<and> (\<forall>t. Stopped i t \<notin> set log)
      | StopAsked timeout \<Rightarrow> Applied i \<notin> set log \<and> (\<forall>t. Stopped i t \<in> set log \<longleftrightarrow> t = timeout))"

lemma board_segment:
  assumes "board_run b (Began i # mid) b'" "Began i \<notin> set mid"
  shows "(\<forall>st. current b' = Some (i, st) \<longrightarrow> stage_agrees i mid st)"
  using assms
proof (induction mid arbitrary: b' rule: rev_induct)
  case Nil
  then show ?case by (auto simp: stage_agrees_def elim!: board_step_cases)
next
  case (snoc ev mid)
  from snoc.prems(1) obtain c where c: "board_run b (Began i # mid) c" and ev: "board_step c ev b'"
    by (auto simp: board_run_append simp flip: append_Cons)
  have ih: "current c = Some (i, st) \<Longrightarrow> stage_agrees i mid st" for st using snoc.IH [OF c] snoc.prems(2) by simp
  from ev show ?case
  proof (cases rule: board_step.cases)
    case (began j) then show ?thesis using snoc.prems(2) by auto
  next
    case (applied j st) then show ?thesis using ih [of st] by (auto simp: stage_agrees_def)
  next
    case (stopped j timeout) then show ?thesis using ih [of Open] by (auto simp: stage_agrees_def)
  next
    case (finished j st outcome) then show ?thesis by simp
  next
    case (forgot I)
    then show ?thesis using ih by (auto simp: stage_agrees_def split: task_stage.splits)
  qed
qed

section \<open>Guarantees\<close>

text \<open>
  C8: the task manager refines its specification. However starts, progress reports, stop requests, deadlines,
  ends, panics, expiries and queries are interleaved, and whatever happens to the operations meanwhile, what the
  manager tells its callers is a run of a board that has at most one current task: a task begins
  only when there is none, is applied only while it was not stopped, is stopped only before it is applied, and ends with an
  outcome its stage allows; the board is what the manager holds.
\<close>

theorem tasks_refine_the_board:
  assumes "task_run (NewManagedDownloadTaskManagerWithOptions name deadline ttl, s0) log (m, s)"
  shows "board_run initial_board log (board_of m)"
  using task_run_refines [OF assms] by simp

text \<open>
  C20: applying a download and stopping it exclude each other. Between the beginning of a task and its end, either the
  worker was told to apply (host changes begin) or a stop was accepted, never both; a stopped task ends as
  cancelled, or as timed out when its deadline stopped it, and never as a success; a task ends as timed
  out only if its deadline stopped it.
\<close>

theorem applied_or_stopped:
  assumes run: "task_run (NewManagedDownloadTaskManagerWithOptions name deadline ttl, s0)
      (pre @ Began i # mid @ Finished i outcome # post) (m, s)"
    and mid: "Began i \<notin> set mid"
  shows "(Applied i \<in> set mid \<longrightarrow> (\<forall>t. Stopped i t \<notin> set mid))
    \<and> (\<forall>t. Stopped i t \<in> set mid \<longrightarrow> outcome = (if t then managedDownloadTaskTimedOut else managedDownloadTaskCancelled))
    \<and> (outcome = managedDownloadTaskTimedOut \<longrightarrow> Stopped i True \<in> set mid)"
proof -
  have "board_run initial_board (pre @ (Began i # mid) @ [Finished i outcome] @ post) (board_of m)"
    using task_run_refines [OF run] by simp
  then obtain a b c where b: "board_run a (Began i # mid) b" and fin: "board_step b (Finished i outcome) c"
    unfolding board_run_append by auto
  from fin obtain st where st: "current b = Some (i, st)" "may_end st outcome" by (auto elim: board_step_cases)
  have "stage_agrees i mid st" using board_segment [OF b mid] st(1) by blast
  then show ?thesis using st(2) by (cases st) (auto simp: stage_agrees_def may_end_def split: if_splits)
qed

text \<open>
  C35: a task that ends frees its slot. Whatever the worker reports, after the end no task is active, its
  result can be read until its time to live is over, and the next start for which the lifecycle grants an operation
  creates a new task. With the panic handler, this holds for workers that panic, too.
\<close>

theorem finish_frees_the_slot:
  assumes ok: "manager_ok m" and t: "task_of m i = Some t" "task_live t"
    and fin: "FinishSuccess io i phase now (m, s) = (m', s') \<or> FinishError io i phase err now (m, s) = (m', s')
      \<or> FinishCancelled io i phase now (m, s) = (m', s') \<or> finishManagedDownloadTaskPanic io i phase name (Some pan) now (m, s) = (m', s')"
  shows "\<not> IsActive m'
    \<and> (later - from_unix (unix_seconds now) \<le> taskTerminalTTL m' \<longrightarrow>
         isManagedDownloadTaskTerminal (ts_State (fst (Get i later m'))) \<and> ts_FinishedAt (fst (Get i later m')) = unix_seconds now)
    \<and> (trim_space kind \<noteq> [] \<and> BeginKworManagedOperation e (trim_space kind) s' = (Inr a, s2) \<longrightarrow>
         (\<exists>sr m2. Start e t0 t1 kind fp (m', s') = (Inr sr, m2, s2) \<and> sr_created sr))"
proof -
  obtain req message where req: "end_request req" and hf: "handle_finish io i req phase message now (m, s) = (m', s')"
  proof -
    from fin show ?thesis unfolding finish_defs option.simps(5) using that end_requests by blast
  qed
  have ok': "manager_ok m'" by (rule handle_finish_ok [OF ok req hf])
  note cur = live_is_current [OF ok t] and k = task_okD [OF manager_okD(2) [OF ok t(1)]]
  let ?t = "finished_task req (trim_space phase) (trim_space message) now t"
  from hf have m': "m' = (put_task i ?t m)\<lparr>activeID := []\<rparr>"
    by (cases rule: handle_finish_cases) (use t cur(1) in \<open>auto simp: Let_def\<close>)
  have none: "task_of m' [] = None" using task_okD(2) [OF manager_okD(2) [OF ok', of "[]"]] by (cases "task_of m' []") auto
  have new: "task_of m' i = Some ?t" "\<not> task_live ?t" using finished_state(2) [OF req] by (auto simp: m')
  have at: "ts_FinishedAt (task_status ?t) = unix_seconds now" by (simp add: finished_task_def Let_def)
  note p = prune_tasks [OF manager_okD(1) [OF ok']]
  show ?thesis
  proof (intro conjI impI)
    show "\<not> IsActive m'" using none by (simp add: IsActive_def m')
  next
    assume "later - from_unix (unix_seconds now) \<le> taskTerminalTTL m'"
    then have "\<not> prune_due m' later ?t" using at by (simp add: prune_due_def)
    then have "task_of (pruneExpiredLocked later m') i = Some ?t" by (simp add: p(1) new(1))
    then have "fst (Get i later m') = task_status ?t" using k(2,3) by (simp add: Get_def Let_def)
    then show "isManagedDownloadTaskTerminal (ts_State (fst (Get i later m')))"
      and "ts_FinishedAt (fst (Get i later m')) = unix_seconds now" using new(2) at by (simp_all add: task_live_def del: finished_fields(1))
  next
    assume b: "trim_space kind \<noteq> [] \<and> BeginKworManagedOperation e (trim_space kind) s' = (Inr a, s2)"
    have "task_of (pruneExpiredLocked t0 m') (activeID (pruneExpiredLocked t0 m')) = None"
    proof -
      have "activeID m' = []" by (simp add: m')
      then show ?thesis using none by (simp add: p(1,2))
    qed
    then show "\<exists>sr m2. Start e t0 t1 kind fp (m', s') = (Inr sr, m2, s2) \<and> sr_created sr"
      using b by (simp add: Start_def Let_def)
  qed
qed

section \<open>A concrete run\<close>

definition example_manager :: ManagedDownloadTaskManager where
  "example_manager = NewManagedDownloadTaskManagerWithOptions ''core'' 0 0"

definition example_started :: "(task_error + start_result) \<times> ManagedDownloadTaskManager \<times> lifecycle_state" where
  "example_started = Start example_work 0 0 ''core'' ''v1'' (example_manager, example_lifecycle)"

definition example_stopped :: ManagedDownloadTaskManager where
  "example_stopped = snd (Stop ''core-a7'' 5 (fst (snd example_started)))"

definition example_finished :: "ManagedDownloadTaskManager \<times> lifecycle_state" where
  "example_finished = FinishSuccess working_io ''core-a7'' ''done'' 7 (example_stopped, snd (snd example_started))"

lemma example_events:
  "(case fst example_started of Inr sr \<Rightarrow> sr_created sr \<and> sr_handle sr = ''core-a7'' | Inl _ \<Rightarrow> False)"
  "snd (fst (Stop ''core-a7'' 5 (fst (snd example_started)))) = None"
  "map_option (ts_State \<circ> task_status) (task_of (fst example_finished) ''core-a7'') = Some managedDownloadTaskCancelled"
  "map_option (ts_State \<circ> task_status) (task_of example_stopped ''core-a7'') = Some managedDownloadTaskStopping"
  "trim_space ''core-a7'' = ''core-a7''"
  by code_simp+

lemma example_run:
  "task_run (example_manager, example_lifecycle)
     [Forgot {}, Began ''core-a7'', Stopped ''core-a7'' False, Finished ''core-a7'' managedDownloadTaskCancelled] example_finished"
proof -
  let ?m = "fst (snd example_started)" and ?s = "snd (snd example_started)"
  have none: "pruned example_manager 0 = {}"
    by (simp add: pruned_def example_manager_def NewManagedDownloadTaskManagerWithOptions_def task_of_def)
  have "start_events example_manager 0 (fst example_started) = [Forgot {}, Began ''core-a7'']"
    using example_events(1) by (cases "fst example_started") (auto simp: start_events_def none)
  then have "task_step (example_manager, example_lifecycle) [Forgot {}, Began ''core-a7''] (?m, ?s)"
    using task_step.start [of example_work 0 0 "''core''" "''v1''" example_manager example_lifecycle "fst example_started" ?m ?s]
    by (simp add: example_started_def)
  moreover have "task_step (?m, ?s) [Stopped ''core-a7'' False] (example_stopped, ?s)"
    using task_step.stop [of "''core-a7''" 5 ?m "fst (fst (Stop ''core-a7'' 5 ?m))" None example_stopped ?s] example_events(2,5)
    by (simp add: example_stopped_def prod_eq_iff)
  moreover have "finish_events ''core-a7'' example_stopped (fst example_finished) = [Finished ''core-a7'' managedDownloadTaskCancelled]"
    using example_events(3,4) by (auto simp: finish_events_def task_live_def isManagedDownloadTaskTerminal_def split: option.splits)
  then have "task_step (example_stopped, ?s) [Finished ''core-a7'' managedDownloadTaskCancelled] example_finished"
    using task_step.success [of working_io "''core-a7''" "''done''" 7 example_stopped ?s "fst example_finished" "snd example_finished"]
    by (simp add: example_finished_def)
  ultimately show ?thesis
    using task_run.step [OF task_run.step [OF task_run.step [OF task_run.none]]] by fastforce
qed

theorem tasks_refine_the_board_witness:
  "board_run initial_board
     [Forgot {}, Began ''core-a7'', Stopped ''core-a7'' False, Finished ''core-a7'' managedDownloadTaskCancelled] (board_of (fst example_finished))"
proof -
  obtain m s where ms: "example_finished = (m, s)" by fastforce
  show ?thesis using tasks_refine_the_board [OF example_run [unfolded example_manager_def ms]] by (simp add: ms)
qed

theorem applied_or_stopped_witness:
  "Applied ''core-a7'' \<notin> set [Stopped ''core-a7'' False]
   \<and> map_option (ts_State \<circ> task_status) (task_of (fst example_finished) ''core-a7'') = Some managedDownloadTaskCancelled"
proof -
  obtain m s where ms: "example_finished = (m, s)" by fastforce
  have "task_run (NewManagedDownloadTaskManagerWithOptions ''core'' 0 0, example_lifecycle)
      ([Forgot {}] @ Began ''core-a7'' # [Stopped ''core-a7'' False] @ Finished ''core-a7'' managedDownloadTaskCancelled # []) (m, s)"
    using example_run by (simp add: example_manager_def ms)
  from applied_or_stopped [OF this] show ?thesis using example_events(3) by auto
qed

theorem finish_frees_the_slot_witness:
  "\<not> IsActive (fst (FinishCancelled working_io ''core-a7'' [] 9 (example_stopped, snd (snd example_started))))"
proof -
  let ?s = "snd (snd example_started)"
  obtain m' s' where f: "FinishCancelled working_io ''core-a7'' [] 9 (example_stopped, ?s) = (m', s')" by fastforce
  have "manager_ok example_manager" unfolding example_manager_def by (rule new_manager_ok)
  then have "manager_ok (fst (snd example_started))"
    using Start_ok [of example_manager example_work 0 0 "''core''" "''v1''" example_lifecycle "fst example_started" _ ?s] by (simp add: example_started_def)
  then have ok: "manager_ok example_stopped"
    using requestStop_ok [of _ "''core-a7''" False 5] by (simp add: example_stopped_def Stop_def example_events(5) split: prod.splits)
  obtain t where t: "task_of example_stopped ''core-a7'' = Some t" "task_live t"
    using example_events(4) by (auto simp: task_live_def isManagedDownloadTaskTerminal_def)
  show ?thesis using finish_frees_the_slot [OF ok t, of working_io "[]" 9 ?s m' s'] f by simp
qed

end
