(* ===== verification/Task_Copy.thy ===== *)
theory Task_Copy
  imports Download_Tasks
begin

text \<open>
  Copying with a context, \<open>copyManagedDownloadTaskContext\<close> of \<open>service/managed_download_task.go\<close>: it returns for every
  source that ends, and what reached the destination is always a beginning of the source.
\<close>

lemma wrap64_add: "wrap64 (wrap64 a + b) = wrap64 (a + b)"
  by (simp add: wrap64_def mod_simps algebra_simps)

lemma write_chunk_copies:
  assumes "write_chunk c rem st = (e, st')"
  shows "\<exists>n \<le> length rem. copied st' = copied st @ take n rem \<and> wrap64 (copy_written st') = wrap64 (copy_written st + int n)
    \<and> (e = None \<longrightarrow> n = length rem) \<and> read_count st' = read_count st"
  using assms
proof (induction c rem st arbitrary: e st' rule: write_chunk.induct)
  case (1 c st)
  then show ?case by auto
next
  case (2 c v va st)
  let ?rem = "v # va"
  obtain n failed where w: "dest_write c (write_count st) ?rem = (n, failed)" by force
  let ?st1 = "st\<lparr>looks := looks st + 1, write_count := write_count st + 1\<rparr>"
  let ?st2 = "?st1\<lparr>copied := copied st @ take n ?rem, copy_written := wrap64 (copy_written st + int n)\<rparr>"
  consider "ctx_stopped c (looks st)" | "\<not> ctx_stopped c (looks st)" "length ?rem < n"
    | "\<not> ctx_stopped c (looks st)" "n \<le> length ?rem" "failed \<or> n = 0"
    | "\<not> ctx_stopped c (looks st)" "n \<le> length ?rem" "\<not> failed" "n \<noteq> 0" by linarith
  then show ?case
  proof cases
    case 1 then show ?thesis using "2.prems" by auto
  next
    case 2 then show ?thesis using "2.prems" w by (auto simp: Let_def)
  next
    case 3
    then have "e \<noteq> None" "st' = ?st2" using "2.prems" w by (auto simp: Let_def split: if_splits)
    then show ?thesis using 3 by (intro exI [of _ n]) (auto simp: wrap64_add [of _ 0, simplified])
  next
    case 4
    have "write_chunk c (drop n ?rem) ?st2 = (e, st')" using "2.prems" w 4 by (simp add: Let_def)
    from "2.IH" [OF 4(1) w [symmetric] refl refl _ refl 4(3,4)] this 4(2)
    obtain k where k: "k \<le> length (drop n ?rem)" "copied st' = copied ?st2 @ take k (drop n ?rem)"
      "wrap64 (copy_written st') = wrap64 (copy_written ?st2 + int k)" "e = None \<longrightarrow> k = length (drop n ?rem)"
      "read_count st' = read_count ?st2"
      by (metis (no_types, lifting) not_le)
    have "copied st' = copied st @ take (n + k) ?rem" using k(2) by (simp add: take_add)
    moreover have "wrap64 (copy_written st') = wrap64 (copy_written st + int (n + k))"
      using k(3) by (simp add: wrap64_add add.assoc)
    ultimately show ?thesis using k(1,4,5) 4(2) by (intro exI [of _ "n + k"]) auto
  qed
qed

lemma write_chunk_smooth:
  assumes "\<And>j. \<not> ctx_stopped c j" "\<And>j bs. dest_write c j bs = (length bs, False)"
  shows "fst (write_chunk c rem st) = None"
  using assms by (cases rem) (simp_all add: Let_def)

definition source_prefix :: "'b copy_env \<Rightarrow> nat \<Rightarrow> 'b list" where
  "source_prefix c n = concat (map (\<lambda>j. fst (source_read c j)) [0..<n])"

lemma source_prefix_Suc [simp]: "source_prefix c (Suc n) = source_prefix c n @ fst (source_read c n)"
  by (simp add: source_prefix_def)

lemma source_prefix_mono: "m \<le> n \<Longrightarrow> prefix (source_prefix c m) (source_prefix c n)"
  by (induction n rule: nat_induct_at_least) (auto intro: prefix_order.trans)

text \<open>What a call that returned may report, when the read \<open>k\<close> is the first one that ends the source.\<close>

definition copy_report_ok :: "'b copy_env \<Rightarrow> nat \<Rightarrow> copy_error option \<times> int \<times> 'b list \<Rightarrow> bool" where
  "copy_report_ok c k = (\<lambda>(err, written, bytes).
     prefix bytes (source_prefix c (Suc k)) \<and> wrap64 written = wrap64 (int (length bytes))
     \<and> (err = None \<longrightarrow> bytes = source_prefix c (Suc k) \<and> snd (source_read c k) = ReadEOF)
     \<and> ((\<forall>j. \<not> ctx_stopped c j) \<and> (\<forall>j bs. dest_write c j bs = (length bs, False)) \<longrightarrow>
          bytes = source_prefix c (Suc k) \<and> err = (if snd (source_read c k) = ReadEOF then None else Some SourceError)))"

lemma copy_loop_reports:
  assumes k: "snd (source_read c k) \<noteq> MoreToRead" "\<forall>j<k. snd (source_read c j) = MoreToRead"
    and st: "read_count st \<le> k" "copied st = source_prefix c (read_count st)"
      "wrap64 (copy_written st) = wrap64 (int (length (copied st)))"
  shows "\<exists>r. copy_loop c st = Some r \<and> copy_report_ok c k r"
  using st
proof (induction "k - read_count st" arbitrary: st rule: less_induct)
  case less
  let ?n = "read_count st" and ?st1 = "st\<lparr>looks := looks st + 1, read_count := read_count st + 1\<rparr>"
  have pre: "prefix (source_prefix c ?n) (source_prefix c (Suc k))" using less.prems(1) by (intro source_prefix_mono) simp
  show ?case
  proof (cases "ctx_stopped c (looks st)")
    case True
    then have "copy_loop c st = Some (Some ContextError, copy_written st, copied st)" by (subst copy_loop.simps) simp
    then show ?thesis using less.prems pre True by (auto simp: copy_report_ok_def)
  next
    case False
    obtain chunk ending where rd: "source_read c ?n = (chunk, ending)" by force
    obtain e st2 where wr: "write_chunk c chunk ?st1 = (e, st2)" by force
    have loop: "copy_loop c st = (case e of Some e' \<Rightarrow> Some (Some e', copy_written st2, copied st2)
        | None \<Rightarrow> (case ending of ReadEOF \<Rightarrow> Some (None, copy_written st2, copied st2)
                  | ReadFailure \<Rightarrow> Some (Some SourceError, copy_written st2, copied st2)
                  | MoreToRead \<Rightarrow> copy_loop c st2))"
      using False rd wr by (subst copy_loop.simps) (simp split: option.split)
    from write_chunk_copies [OF wr] obtain w where w: "w \<le> length chunk" "copied st2 = copied st @ take w chunk"
      "wrap64 (copy_written st2) = wrap64 (copy_written st + int w)" "e = None \<longrightarrow> w = length chunk" "read_count st2 = Suc ?n"
      by auto
    have count: "wrap64 (copy_written st2) = wrap64 (int (length (copied st2)))"
      using w(1-3) less.prems(3) wrap64_add [of "copy_written st" "int w"] wrap64_add [of "int (length (copied st))" "int w"] by simp
    have part: "prefix (copied st2) (source_prefix c (Suc ?n))"
      using w(2) rd less.prems(2) by (simp add: take_is_prefix)
    then have beg: "prefix (copied st2) (source_prefix c (Suc k))"
      using source_prefix_mono [of "Suc ?n" "Suc k" c] less.prems(1) prefix_order.trans by fastforce
    have smooth: "e = None" if "\<forall>j. \<not> ctx_stopped c j" "\<forall>j bs. dest_write c j bs = (length bs, False)"
      using write_chunk_smooth [of c chunk ?st1] that wr by simp
    show ?thesis
    proof (cases e)
      case (Some e')
      then show ?thesis using loop beg count smooth by (auto simp: copy_report_ok_def)
    next
      case None
      then have all: "copied st2 = source_prefix c (Suc ?n)" using w rd less.prems(2) by simp
      show ?thesis
      proof (cases "ending = MoreToRead")
        case True
        then have "?n < k" using k(1) less.prems(1) rd by (cases "?n = k") auto
        then have "\<exists>r. copy_loop c st2 = Some r \<and> copy_report_ok c k r"
          using less.hyps [of st2] all count w(5) by simp
        then show ?thesis using loop None True by simp
      next
        case False
        then have "?n = k" using k(2) less.prems(1) rd by (metis le_neq_implies_less snd_conv)
        then show ?thesis using loop None False all count rd by (cases ending) (auto simp: copy_report_ok_def)
      qed
    qed
  qed
qed

text \<open>
  C36: copying ends whenever its source does. If some read of the source reports its end or an error, the copy
  returns; what reached the destination is then a beginning of what was read and the returned count its length (modulo
  64 bits); without an error it is everything up to the end of the source; and if the context is not
  cancelled and the destination takes what it is offered, everything arrives and the only error is that of the source.
\<close>

theorem copy_ends_with_its_source:
  assumes "snd (source_read c k) \<noteq> MoreToRead" "\<forall>j<k. snd (source_read c j) = MoreToRead"
  shows "\<exists>err written bytes. copyManagedDownloadTaskContext c = Some (err, written, bytes)
    \<and> prefix bytes (source_prefix c (Suc k)) \<and> wrap64 written = wrap64 (int (length bytes))
    \<and> (err = None \<longrightarrow> bytes = source_prefix c (Suc k) \<and> snd (source_read c k) = ReadEOF)
    \<and> ((\<forall>j. \<not> ctx_stopped c j) \<and> (\<forall>j bs. dest_write c j bs = (length bs, False)) \<longrightarrow>
         bytes = source_prefix c (Suc k) \<and> err = (if snd (source_read c k) = ReadEOF then None else Some SourceError))"
proof (cases "ctx_stopped c 0")
  case True
  then show ?thesis by (auto simp: copyManagedDownloadTaskContext_def)
next
  case False
  let ?st = "\<lparr>looks = 1, read_count = 0, write_count = 0, copied = [], copy_written = 0\<rparr>"
  have "\<exists>r. copy_loop c ?st = Some r \<and> copy_report_ok c k r"
    by (rule copy_loop_reports [OF assms]) (simp_all add: source_prefix_def)
  then show ?thesis using False by (auto simp: copyManagedDownloadTaskContext_def copy_report_ok_def)
qed

text \<open>A destination that takes two bytes at a time.\<close>

theorem copy_ends_with_its_source_witness:
  "\<exists>err written bytes.
     copyManagedDownloadTaskContext \<lparr>ctx_stopped = \<lambda>_. False, source_read = \<lambda>j. if j = 0 then (''abc'', MoreToRead) else (''d'', ReadEOF),
       dest_write = \<lambda>_ bs. (min 2 (length bs), False)\<rparr> = Some (err, written, bytes) \<and> prefix bytes ''abcd''"
  (is "\<exists>err written bytes. copyManagedDownloadTaskContext ?c = _ \<and> _")
  using copy_ends_with_its_source [of ?c 1] by (auto simp: source_prefix_def upt_rec)

end
