(* ===== verification/Traffic_Overview.thy ===== *)
theory Traffic_Overview
  imports Port_Forward_Traffic "HOL-Library.List_Lexorder" "HOL-Library.Char_ord"
begin

text \<open>
  The traffic overview of the host (\<open>service/traffic_overview.go\<close>): totals of the chosen interfaces from vnstat and
  the kernel, usage of the period and since the last full reset, the cached state and its write-back to the
  settings table, pausing and resuming.

  vnstat, the kernel's interface counters, the selected interfaces, the configuration and the clock are an
  argument, the record \<open>overview_env\<close>; all clock readings of one call are the same instant. A row of the settings table
  holds the JSON text of a struct, which is modelled by the struct itself; a statement fails when \<open>overview_io\<close>
  has an error text for its key.
\<close>

section \<open>State\<close>

record trafficOverviewRuntimeState =
  Interface :: string
  ManualBaseUp :: int
  ManualBaseDown :: int
  PeriodBaseUp :: int
  PeriodBaseDown :: int
  PeriodTag :: string
  PeriodResetDay :: int
  LastFullResetAt :: int
  LastPeriodReset :: int
  KernelOffsetUp :: int
  KernelOffsetDown :: int
  LastKernelUp :: int
  LastKernelDown :: int

record trafficOverviewSnapshot =
  sn_Source :: string
  sn_Interface :: string
  sn_Available :: bool
  sn_Up :: int
  sn_Down :: int
  sn_Total :: int
  sn_AccumUp :: int
  sn_AccumDown :: int
  sn_AccumTotal :: int
  sn_UpdatedAt :: int

record trafficOverviewPauseState =
  Paused :: bool
  ps_Interface :: string
  CurrentUp :: int
  CurrentDown :: int
  ps_PeriodBaseUp :: int
  ps_PeriodBaseDown :: int
  ps_ManualBaseUp :: int
  ps_ManualBaseDown :: int
  LastVnstatUp :: int
  LastVnstatDown :: int
  Snapshot :: trafficOverviewSnapshot
  PausedAt :: int

record trafficOverviewCapState =
  cs_Active :: bool
  cs_LimitReached :: bool
  AllowedPorts :: "int list"
  cs_UpdatedAt :: int

text \<open>
  The two caches \<open>trafficOverviewRuntimeStateCacheState\<close> and \<open>trafficOverviewSnapshotState\<close> have the same fields;
  \<open>None\<close> is the zero \<open>time.Time\<close>.
\<close>

record 'v write_back_cache =
  Loaded :: bool
  HasPersisted :: bool
  Persisted :: 'v
  HasPending :: bool
  Pending :: 'v
  LastFlushAt :: "int option"

type_synonym trafficOverviewRuntimeStateCacheState = "trafficOverviewRuntimeState write_back_cache"
type_synonym trafficOverviewSnapshotState = "trafficOverviewSnapshot write_back_cache"

definition zero_state :: trafficOverviewRuntimeState where
  "zero_state = \<lparr>Interface = [], ManualBaseUp = 0, ManualBaseDown = 0, PeriodBaseUp = 0, PeriodBaseDown = 0, PeriodTag = [],
     PeriodResetDay = 0, LastFullResetAt = 0, LastPeriodReset = 0, KernelOffsetUp = 0, KernelOffsetDown = 0,
     LastKernelUp = 0, LastKernelDown = 0\<rparr>"

definition zero_snapshot :: trafficOverviewSnapshot where
  "zero_snapshot = \<lparr>sn_Source = [], sn_Interface = [], sn_Available = False, sn_Up = 0, sn_Down = 0, sn_Total = 0,
     sn_AccumUp = 0, sn_AccumDown = 0, sn_AccumTotal = 0, sn_UpdatedAt = 0\<rparr>"

definition zero_pause :: trafficOverviewPauseState where
  "zero_pause = \<lparr>Paused = False, ps_Interface = [], CurrentUp = 0, CurrentDown = 0, ps_PeriodBaseUp = 0, ps_PeriodBaseDown = 0,
     ps_ManualBaseUp = 0, ps_ManualBaseDown = 0, LastVnstatUp = 0, LastVnstatDown = 0, Snapshot = zero_snapshot, PausedAt = 0\<rparr>"

definition zero_cap :: trafficOverviewCapState where
  "zero_cap = \<lparr>cs_Active = False, cs_LimitReached = False, AllowedPorts = [], cs_UpdatedAt = 0\<rparr>"

text \<open>
  A row of the settings table: blank text (empty or \<open>{}\<close>), text that does not decode (with the error), or
  the text of a value. The rules of the cap are the ones nft carries under its comment prefix.
\<close>

datatype 'v stored = Blank | Garbled string | Stored 'v

datatype cap_rule = Loopback_In | Loopback_Out | Drop_In "int list" | Drop_Out "int list" | Drop_Forward

record overview_sys =
  state_row :: "trafficOverviewRuntimeState stored"
  snapshot_row :: "trafficOverviewSnapshot stored"
  pause_row :: "trafficOverviewPauseState stored"
  cap_row :: "trafficOverviewCapState stored"
  enabled_row :: bool
  state_cache :: trafficOverviewRuntimeStateCacheState
  snapshot_cache :: trafficOverviewSnapshotState
  cap_checked :: bool  \<comment> \<open>\<open>trafficOverviewCapStartupChecked\<close>\<close>
  cap_evaluated :: "int option"  \<comment> \<open>\<open>trafficOverviewCapLastEvaluatedAt\<close>\<close>
  cap_rules :: "cap_rule list"

record overview_io =
  get_err :: "string \<Rightarrow> string option"
  set_err :: "string \<Rightarrow> string option"

text \<open>A limit is given by \<open>limitGiBToBytes\<close> of its value in GiB, which is positive exactly when the limit is.\<close>

record overview_config =
  cfg_limit :: int
  cfg_reset_day :: int
  cfg_expiry_date :: string
  cfg_expiry :: int
  cfg_enabled :: bool

record overview_env =
  on_linux :: bool
  nft_supported :: bool
  trusted_manifest :: bool
  vnstat_installed :: bool
  selected :: "string list \<times> string"
  vnstat_totals :: "string + int \<times> int"
  io_counters :: "string + (string \<times> int \<times> int) list"
  overview_cfg :: "string + overview_config"
  panel_loc :: location
  clock :: int  \<comment> \<open>nanoseconds\<close>

abbreviation unix :: "overview_env \<Rightarrow> int" where
  "unix e \<equiv> clock e div 1000000000"

definition trafficOverviewStateKey :: string where "trafficOverviewStateKey = ''trafficOverviewState''"
definition trafficOverviewSnapshotKey :: string where "trafficOverviewSnapshotKey = ''trafficOverviewSnapshot''"
definition trafficOverviewPauseStateKey :: string where "trafficOverviewPauseStateKey = ''trafficOverviewPauseState''"
definition trafficOverviewCapStateKey :: string where "trafficOverviewCapStateKey = ''trafficOverviewCapState''"
definition trafficOverviewEnabledKey :: string where "trafficOverviewEnabledKey = ''trafficOverviewEnabled''"

definition trafficOverviewFlushInterval :: int where "trafficOverviewFlushInterval = 30 * 1000000000"
definition trafficOverviewFlushDelta :: int where "trafficOverviewFlushDelta = 1024 * 1024"

section \<open>Totals\<close>

definition nonNegativeDiff :: "int \<Rightarrow> int \<Rightarrow> int" where
  "nonNegativeDiff current baseline = (let diff = wrap64 (current - baseline) in if diff < 0 then 0 else diff)"

definition uint64ToSafeInt64 :: "int \<Rightarrow> int" where
  "uint64ToSafeInt64 v = (if max_int64 < v then max_int64 else v)"

definition joinSortedInterfaces :: "string list \<Rightarrow> string" where
  "joinSortedInterfaces ifaces = str_join '','' (sort (filter (\<lambda>t. t \<noteq> []) (map trim_space ifaces)))"

text \<open>The sums are of type \<open>uint64\<close>.\<close>

definition sum_uint64 :: "int list \<Rightarrow> int" where
  "sum_uint64 xs = sum_list xs mod 18446744073709551616"

definition loadKernelTrafficTotals :: "string + (string \<times> int \<times> int) list \<Rightarrow> string list \<Rightarrow> (int \<times> int) option" where
  \<comment> \<open>\<open>None\<close> is an error\<close>
  "loadKernelTrafficTotals counters ifaces =
     (if ifaces = [] then None
      else case counters of
             Inl e \<Rightarrow> None
           | Inr ioStats \<Rightarrow>
               (let targets = filter (\<lambda>t. t \<noteq> []) (map trim_space ifaces);
                    hits = filter (\<lambda>(name, sent, recv). name \<in> set targets) ioStats
                in if hits = [] then None
                   else Some (uint64ToSafeInt64 (sum_uint64 (map (fst \<circ> snd) hits)),
                              uint64ToSafeInt64 (sum_uint64 (map (snd \<circ> snd) hits)))))"

text \<open>The result is the flag \<open>changed\<close>, the current total, and what the two pointers hold afterwards.\<close>

definition reconcileKernelRealtimeCounter :: "int \<Rightarrow> int \<Rightarrow> bool \<Rightarrow> int \<Rightarrow> int \<Rightarrow> bool \<times> int \<times> int \<times> int" where
  "reconcileKernelRealtimeCounter offset lastKernel ifaceChanged vnstat0 kernel0 =
     (let vnstatCurrent = maxInt64 vnstat0 0; kernelCurrent = maxInt64 kernel0 0
      in if ifaceChanged
         then let nextOffset = nonNegativeDiff vnstatCurrent kernelCurrent
              in (offset \<noteq> nextOffset \<or> lastKernel \<noteq> kernelCurrent,
                  maxInt64 vnstatCurrent (wrap64 (nextOffset + kernelCurrent)), nextOffset, kernelCurrent)
         else let previousSynthetic = wrap64 (maxInt64 offset 0 + maxInt64 lastKernel 0);
                  offset1 = (if kernelCurrent < lastKernel
                             then nonNegativeDiff (maxInt64 previousSynthetic vnstatCurrent) kernelCurrent else offset);
                  current = maxInt64 vnstatCurrent (wrap64 (maxInt64 offset1 0 + kernelCurrent));
                  desiredOffset = nonNegativeDiff current kernelCurrent
              in (offset \<noteq> offset1 \<or> offset1 \<noteq> desiredOffset \<or> lastKernel \<noteq> kernelCurrent, current, desiredOffset, kernelCurrent))"

definition iface_changed :: "trafficOverviewRuntimeState \<Rightarrow> string \<Rightarrow> bool" where
  "iface_changed st joined \<longleftrightarrow> trim_space (Interface st) = [] \<or> Interface st \<noteq> joined"

text \<open>The totals, the source, the flag \<open>changed\<close> and the new state; the pointers of the code are never nil.\<close>

definition deriveCurrentAlltimeTotals ::
  "string + (string \<times> int \<times> int) list \<Rightarrow> trafficOverviewRuntimeState \<Rightarrow> string list \<Rightarrow> int \<Rightarrow> int
    \<Rightarrow> int \<times> int \<times> string \<times> bool \<times> trafficOverviewRuntimeState" where
  "deriveCurrentAlltimeTotals counters st ifaces vnstatUp0 vnstatDown0 =
     (let vnstatUp = maxInt64 vnstatUp0 0; vnstatDown = maxInt64 vnstatDown0 0;
          ifaceChanged = iface_changed st (joinSortedInterfaces ifaces)
      in case loadKernelTrafficTotals counters ifaces of
           None \<Rightarrow> (vnstatUp, vnstatDown, ''vnstat'', False, st)
         | Some (kernelUp, kernelDown) \<Rightarrow>
             (case reconcileKernelRealtimeCounter (KernelOffsetUp st) (LastKernelUp st) ifaceChanged vnstatUp kernelUp of
                (upChanged, currentUp, offUp, lastUp) \<Rightarrow>
              case reconcileKernelRealtimeCounter (KernelOffsetDown st) (LastKernelDown st) ifaceChanged vnstatDown kernelDown of
                (downChanged, currentDown, offDown, lastDown) \<Rightarrow>
                (currentUp, currentDown, ''vnstat+kernel'', upChanged \<or> downChanged,
                 st\<lparr>KernelOffsetUp := offUp, KernelOffsetDown := offDown, LastKernelUp := lastUp, LastKernelDown := lastDown\<rparr>)))"

definition normalizeStateForTotals :: "int \<Rightarrow> trafficOverviewRuntimeState \<Rightarrow> string \<Rightarrow> int \<Rightarrow> int \<Rightarrow> bool \<times> trafficOverviewRuntimeState" where
  "normalizeStateForTotals now st iface up0 down0 =
     (let up = maxInt64 up0 0; down = maxInt64 down0 0;
          needsReset = (iface_changed st iface \<or> ManualBaseUp st > up \<or> ManualBaseDown st > down
                        \<or> PeriodBaseUp st > up \<or> PeriodBaseDown st > down)
      in if needsReset
         then (True, st\<lparr>Interface := iface, ManualBaseUp := up, ManualBaseDown := down, PeriodBaseUp := up, PeriodBaseDown := down,
                        PeriodTag := [], PeriodResetDay := 0, LastPeriodReset := now\<rparr>)
         else (False, st))"

definition applyPeriodResetIfNeeded ::
  "location \<Rightarrow> int \<Rightarrow> trafficOverviewRuntimeState \<Rightarrow> int \<Rightarrow> int \<Rightarrow> int \<Rightarrow> bool \<times> trafficOverviewRuntimeState" where
  "applyPeriodResetIfNeeded loc now st resetDay0 up down =
     (let resetDay = normalizeResetDay resetDay0
      in if resetDay \<le> 0
         then (PeriodTag st \<noteq> [] \<or> PeriodResetDay st \<noteq> 0, st\<lparr>PeriodTag := [], PeriodResetDay := 0\<rparr>)
         else let expectedTag = computePeriodTag resetDay loc now
              in if PeriodResetDay st \<noteq> resetDay
                 then (True, st\<lparr>PeriodResetDay := resetDay, PeriodTag := expectedTag\<rparr>)
                 else if trim_space (PeriodTag st) = [] then (True, st\<lparr>PeriodTag := expectedTag\<rparr>)
                 else if PeriodTag st = expectedTag then (False, st)
                 else (True, st\<lparr>PeriodTag := expectedTag, PeriodBaseUp := maxInt64 up 0, PeriodBaseDown := maxInt64 down 0,
                                LastPeriodReset := now\<rparr>))"

section \<open>The cached state\<close>

definition normalizeTrafficOverviewRuntimeState :: "trafficOverviewRuntimeState \<Rightarrow> trafficOverviewRuntimeState" where
  "normalizeTrafficOverviewRuntimeState st =
     st\<lparr>ManualBaseUp := maxInt64 (ManualBaseUp st) 0, ManualBaseDown := maxInt64 (ManualBaseDown st) 0,
        PeriodBaseUp := maxInt64 (PeriodBaseUp st) 0, PeriodBaseDown := maxInt64 (PeriodBaseDown st) 0,
        PeriodResetDay := normalizeResetDay (PeriodResetDay st),
        LastFullResetAt := maxInt64 (LastFullResetAt st) 0, LastPeriodReset := maxInt64 (LastPeriodReset st) 0,
        KernelOffsetUp := maxInt64 (KernelOffsetUp st) 0, KernelOffsetDown := maxInt64 (KernelOffsetDown st) 0,
        LastKernelUp := maxInt64 (LastKernelUp st) 0, LastKernelDown := maxInt64 (LastKernelDown st) 0\<rparr>"

definition cached_value :: "'v \<Rightarrow> 'v write_back_cache \<Rightarrow> 'v" where
  "cached_value zero c = (if HasPending c then Pending c else if HasPersisted c then Persisted c else zero)"

definition loadRuntimeState :: "overview_io \<Rightarrow> overview_sys \<Rightarrow> (string + trafficOverviewRuntimeState) \<times> overview_sys" where
  "loadRuntimeState io s =
     (if Loaded (state_cache s) then (Inr (cached_value zero_state (state_cache s)), s)
      else case get_err io trafficOverviewStateKey of
             Some e \<Rightarrow> (Inl e, s)
           | None \<Rightarrow>
               (case state_row s of
                  Garbled e \<Rightarrow> (Inl e, s)
                | row \<Rightarrow>
                    (let st = normalizeTrafficOverviewRuntimeState (case row of Stored v \<Rightarrow> v | _ \<Rightarrow> zero_state)
                     in (Inr st, s\<lparr>state_cache := \<lparr>Loaded = True, HasPersisted = True, Persisted = st,
                                                   HasPending = False, Pending = zero_state, LastFlushAt = None\<rparr>\<rparr>))))"

definition saveRuntimeState :: "overview_io \<Rightarrow> int \<Rightarrow> trafficOverviewRuntimeState \<Rightarrow> overview_sys \<Rightarrow> (string + unit) \<times> overview_sys" where
  "saveRuntimeState io clk st0 s =
     (let st = normalizeTrafficOverviewRuntimeState st0
      in case set_err io trafficOverviewStateKey of
           Some e \<Rightarrow> (Inl e, s)
         | None \<Rightarrow>
             (let c = state_cache s; pendingChanged = (HasPending c \<and> Pending c \<noteq> st)
              in (Inr (), s\<lparr>state_row := Stored st,
                            state_cache := \<lparr>Loaded = True, HasPersisted = True, Persisted = st,
                                            HasPending = pendingChanged,
                                            Pending = (if pendingChanged then Pending c else zero_state),
                                            LastFlushAt = Some clk\<rparr>\<rparr>)))"

definition flushRuntimeState :: "overview_io \<Rightarrow> int \<Rightarrow> overview_sys \<Rightarrow> (string + unit) \<times> overview_sys" where
  "flushRuntimeState io clk s =
     (if \<not> HasPending (state_cache s) then (Inr (), s)
      else saveRuntimeState io clk (Pending (state_cache s)) s)"

definition since_flush :: "int \<Rightarrow> 'v write_back_cache \<Rightarrow> bool" where
  \<comment> \<open>the interval has passed, or nothing was flushed yet\<close>
  "since_flush clk c = (case LastFlushAt c of None \<Rightarrow> True | Some t \<Rightarrow> clk - t \<ge> trafficOverviewFlushInterval)"

definition stageRuntimeState ::
  "overview_io \<Rightarrow> int \<Rightarrow> trafficOverviewRuntimeState \<Rightarrow> bool \<Rightarrow> overview_sys \<Rightarrow> (string + unit) \<times> overview_sys" where
  "stageRuntimeState io clk st0 force s =
     (let st = normalizeTrafficOverviewRuntimeState st0
      in case (if Loaded (state_cache s) then (Inr zero_state, s) else loadRuntimeState io s) of
           (Inl e, s1) \<Rightarrow> (Inl e, s1)
         | (Inr _, s1) \<Rightarrow>
             (let c = (state_cache s1)\<lparr>Pending := st, HasPending := True\<rparr>; s2 = s1\<lparr>state_cache := c\<rparr>
              in if force \<or> \<not> HasPersisted c \<or> since_flush clk c then flushRuntimeState io clk s2 else (Inr (), s2)))"

end
