(* ===== verification/Overview_Service.thy ===== *)
theory Overview_Service
  imports Traffic_Overview
begin

text \<open>
  The operations of the traffic overview (\<open>service/traffic_overview.go\<close>): the display snapshot and its cache, pausing and
  resuming, and the overview itself. An operation returns the text of its error or a result, and the new system state.
\<close>

section \<open>Snapshots\<close>

definition normalizeOverviewSnapshot :: "trafficOverviewSnapshot \<Rightarrow> trafficOverviewSnapshot" where
  "normalizeOverviewSnapshot sn =
     sn\<lparr>sn_Source := (if trim_space (sn_Source sn) = [] then ''vnstat'' else trim_space (sn_Source sn)),
        sn_Interface := trim_space (sn_Interface sn),
        sn_Up := maxInt64 (sn_Up sn) 0, sn_Down := maxInt64 (sn_Down sn) 0, sn_Total := maxInt64 (sn_Total sn) 0,
        sn_AccumUp := maxInt64 (sn_AccumUp sn) 0, sn_AccumDown := maxInt64 (sn_AccumDown sn) 0,
        sn_AccumTotal := maxInt64 (sn_AccumTotal sn) 0, sn_UpdatedAt := maxInt64 (sn_UpdatedAt sn) 0\<rparr>"

definition absInt64 :: "int \<Rightarrow> int" where
  "absInt64 v = (if v < 0 then wrap64 (- v) else v)"

definition snapshotDeltaBytes :: "trafficOverviewSnapshot \<Rightarrow> trafficOverviewSnapshot \<Rightarrow> int" where
  "snapshotDeltaBytes current previous =
     (let totalDelta = absInt64 (wrap64 (sn_Total current - sn_Total previous));
          accumDelta = absInt64 (wrap64 (sn_AccumTotal current - sn_AccumTotal previous))
      in if accumDelta > totalDelta then accumDelta else totalDelta)"

text \<open>The cache counts as loaded even when reading the row fails.\<close>

definition loadSnapshotCacheLocked :: "overview_io \<Rightarrow> overview_sys \<Rightarrow> (string + unit) \<times> overview_sys" where
  "loadSnapshotCacheLocked io s =
     (if Loaded (snapshot_cache s) then (Inr (), s)
      else let s1 = s\<lparr>snapshot_cache := (snapshot_cache s)\<lparr>Loaded := True\<rparr>\<rparr>
           in case get_err io trafficOverviewSnapshotKey of
                Some e \<Rightarrow> (Inl e, s1)
              | None \<Rightarrow>
                  (case snapshot_row s of
                     Blank \<Rightarrow> (Inr (), s1)
                   | Garbled e \<Rightarrow> (Inl e, s1)
                   | Stored sn \<Rightarrow>
                       (Inr (), s\<lparr>snapshot_cache := (snapshot_cache s)\<lparr>Loaded := True, HasPersisted := True,
                                                    Persisted := normalizeOverviewSnapshot sn\<rparr>\<rparr>)))"

definition getSnapshotForDisplay :: "overview_io \<Rightarrow> overview_sys \<Rightarrow> trafficOverviewSnapshot option \<times> overview_sys" where
  "getSnapshotForDisplay io s =
     (case loadSnapshotCacheLocked io s of
        (Inl e, s1) \<Rightarrow> (None, s1)
      | (Inr _, s1) \<Rightarrow>
          (if HasPending (snapshot_cache s1) then Some (Pending (snapshot_cache s1))
           else if HasPersisted (snapshot_cache s1) then Some (Persisted (snapshot_cache s1)) else None, s1))"

definition saveOverviewSnapshot :: "overview_io \<Rightarrow> trafficOverviewSnapshot \<Rightarrow> overview_sys \<Rightarrow> (string + unit) \<times> overview_sys" where
  "saveOverviewSnapshot io sn s =
     (case set_err io trafficOverviewSnapshotKey of
        Some e \<Rightarrow> (Inl e, s) | None \<Rightarrow> (Inr (), s\<lparr>snapshot_row := Stored sn\<rparr>))"

definition flush_due :: "int \<Rightarrow> trafficOverviewSnapshot \<Rightarrow> trafficOverviewSnapshotState \<Rightarrow> bool" where
  "flush_due clk sn c \<longleftrightarrow>
     \<not> HasPersisted c \<or> since_flush clk c \<or> snapshotDeltaBytes sn (Persisted c) \<ge> trafficOverviewFlushDelta"

definition flushOverviewSnapshot :: "overview_io \<Rightarrow> int \<Rightarrow> bool \<Rightarrow> overview_sys \<Rightarrow> (string + unit) \<times> overview_sys" where
  "flushOverviewSnapshot io clk force s =
     (case loadSnapshotCacheLocked io s of
        (Inl e, s1) \<Rightarrow> (Inl e, s1)
      | (Inr _, s1) \<Rightarrow>
          (let c = snapshot_cache s1; sn = Pending c
           in if \<not> HasPending c then (Inr (), s1)
              else if \<not> force \<and> \<not> flush_due clk sn c then (Inr (), s1)
              else case saveOverviewSnapshot io sn s1 of
                     (Inl e, s2) \<Rightarrow> (Inl e, s2)
                   | (Inr _, s2) \<Rightarrow>
                       (Inr (), s2\<lparr>snapshot_cache := c\<lparr>HasPending := False, HasPersisted := True, Persisted := sn,
                                                       LastFlushAt := Some clk\<rparr>\<rparr>)))"

definition stageOverviewSnapshot ::
  "overview_io \<Rightarrow> int \<Rightarrow> trafficOverviewSnapshot \<Rightarrow> bool \<Rightarrow> overview_sys \<Rightarrow> (string + unit) \<times> overview_sys" where
  "stageOverviewSnapshot io clk sn0 force s =
     (let sn = normalizeOverviewSnapshot sn0
      in case loadSnapshotCacheLocked io s of
           (Inl e, s1) \<Rightarrow> (Inl e, s1)
         | (Inr _, s1) \<Rightarrow>
             (let c = (snapshot_cache s1)\<lparr>Pending := sn, HasPending := True\<rparr>; s2 = s1\<lparr>snapshot_cache := c\<rparr>
              in if force \<or> flush_due clk sn c then flushOverviewSnapshot io clk force s2 else (Inr (), s2)))"

section \<open>Settling the totals\<close>

text \<open>
  The steps between loading and storing the runtime state that the overview and pausing share: totals, bases and
  period. The result is both totals, the source, whether the state changed, whether the period did, and the state.
\<close>

definition settle_totals ::
  "overview_env \<Rightarrow> int \<Rightarrow> int \<times> int \<Rightarrow> trafficOverviewRuntimeState
    \<Rightarrow> int \<times> int \<times> string \<times> bool \<times> bool \<times> trafficOverviewRuntimeState" where
  "settle_totals e resetDay vnstat st =
     (let ifaces = fst (selected e)
      in case deriveCurrentAlltimeTotals (io_counters e) st ifaces (fst vnstat) (snd vnstat) of
           (currentUp, currentDown, source, derivedChanged, st1) \<Rightarrow>
             (case normalizeStateForTotals (unix e) st1 (joinSortedInterfaces ifaces) currentUp currentDown of
                (normalizedChanged, st2) \<Rightarrow>
                  (case applyPeriodResetIfNeeded (panel_loc e) (unix e) st2 resetDay currentUp currentDown of
                     (periodChanged, st3) \<Rightarrow>
                       (currentUp, currentDown, source, derivedChanged \<or> normalizedChanged \<or> periodChanged, periodChanged, st3))))"

definition usage_snapshot :: "overview_env \<Rightarrow> string \<Rightarrow> int \<Rightarrow> int \<Rightarrow> trafficOverviewRuntimeState \<Rightarrow> trafficOverviewSnapshot" where
  "usage_snapshot e source currentUp currentDown st =
     (let up = nonNegativeDiff currentUp (PeriodBaseUp st); down = nonNegativeDiff currentDown (PeriodBaseDown st);
          accumUp = nonNegativeDiff currentUp (ManualBaseUp st); accumDown = nonNegativeDiff currentDown (ManualBaseDown st)
      in \<lparr>sn_Source = source, sn_Interface = str_join '', '' (fst (selected e)), sn_Available = True, sn_Up = up, sn_Down = down,
          sn_Total = wrap64 (up + down), sn_AccumUp = accumUp, sn_AccumDown = accumDown,
          sn_AccumTotal = wrap64 (accumUp + accumDown), sn_UpdatedAt = unix e\<rparr>)"

section \<open>Pausing and resuming\<close>

definition clean_pause :: "trafficOverviewPauseState \<Rightarrow> trafficOverviewPauseState" where
  "clean_pause ps =
     ps\<lparr>ps_Interface := trim_space (ps_Interface ps), CurrentUp := maxInt64 (CurrentUp ps) 0, CurrentDown := maxInt64 (CurrentDown ps) 0,
        ps_PeriodBaseUp := maxInt64 (ps_PeriodBaseUp ps) 0, ps_PeriodBaseDown := maxInt64 (ps_PeriodBaseDown ps) 0,
        ps_ManualBaseUp := maxInt64 (ps_ManualBaseUp ps) 0, ps_ManualBaseDown := maxInt64 (ps_ManualBaseDown ps) 0,
        LastVnstatUp := maxInt64 (LastVnstatUp ps) 0, LastVnstatDown := maxInt64 (LastVnstatDown ps) 0,
        Snapshot := normalizeOverviewSnapshot (Snapshot ps), PausedAt := maxInt64 (PausedAt ps) 0\<rparr>"

definition loadPauseState :: "overview_io \<Rightarrow> overview_sys \<Rightarrow> trafficOverviewPauseState option" where
  \<comment> \<open>\<open>None\<close> is the result \<open>false\<close>\<close>
  "loadPauseState io s =
     (case get_err io trafficOverviewPauseStateKey of
        Some e \<Rightarrow> None
      | None \<Rightarrow> (case pause_row s of Stored ps \<Rightarrow> if Paused ps then Some (clean_pause ps) else None | _ \<Rightarrow> None))"

definition savePauseState :: "overview_io \<Rightarrow> trafficOverviewPauseState \<Rightarrow> overview_sys \<Rightarrow> (string + unit) \<times> overview_sys" where
  "savePauseState io ps s =
     (case set_err io trafficOverviewPauseStateKey of
        Some e \<Rightarrow> (Inl e, s) | None \<Rightarrow> (Inr (), s\<lparr>pause_row := Stored (clean_pause ps)\<rparr>))"

definition clearPauseState :: "overview_io \<Rightarrow> overview_sys \<Rightarrow> (string + unit) \<times> overview_sys" where
  "clearPauseState io s =
     (case set_err io trafficOverviewPauseStateKey of
        Some e \<Rightarrow> (Inl e, s) | None \<Rightarrow> (Inr (), s\<lparr>pause_row := Blank\<rparr>))"

definition pauseTrafficOverviewWithCachedSnapshot :: "overview_io \<Rightarrow> overview_env \<Rightarrow> overview_sys \<Rightarrow> (string + unit) \<times> overview_sys" where
  "pauseTrafficOverviewWithCachedSnapshot io e s =
     (case getSnapshotForDisplay io s of
        (cached, s1) \<Rightarrow>
          (let sn0 = (case cached of Some sn \<Rightarrow> normalizeOverviewSnapshot sn
                                   | None \<Rightarrow> zero_snapshot\<lparr>sn_Source := ''vnstat'', sn_UpdatedAt := unix e\<rparr>);
               sn = (if sn_UpdatedAt sn0 \<le> 0 then sn0\<lparr>sn_UpdatedAt := unix e\<rparr> else sn0)
           in case stageOverviewSnapshot io (clock e) sn True s1 of
                (Inl err, s2) \<Rightarrow> (Inl err, s2)
              | (Inr _, s2) \<Rightarrow> savePauseState io (zero_pause\<lparr>Paused := True, Snapshot := sn, PausedAt := unix e\<rparr>) s2))"

definition pause_measured ::
  "overview_io \<Rightarrow> overview_env \<Rightarrow> int \<Rightarrow> int \<times> int \<Rightarrow> overview_sys \<Rightarrow> (string + unit) \<times> overview_sys" where
  "pause_measured io e resetDay vnstat s =
     (case loadRuntimeState io s of
        (Inl err, s1) \<Rightarrow> (Inl err, s1)
      | (Inr st0, s1) \<Rightarrow>
          (case settle_totals e resetDay vnstat st0 of
             (currentUp, currentDown, source, changed, periodChanged, st) \<Rightarrow>
               (case (if changed then saveRuntimeState io (clock e) st s1 else (Inr (), s1)) of
                  (Inl err, s2) \<Rightarrow> (Inl err, s2)
                | (Inr _, s2) \<Rightarrow>
                    (let sn = usage_snapshot e source currentUp currentDown st
                     in case stageOverviewSnapshot io (clock e) sn True s2 of
                          (Inl err, s3) \<Rightarrow> (Inl err, s3)
                        | (Inr _, s3) \<Rightarrow>
                            savePauseState io
                              \<lparr>Paused = True, ps_Interface = str_join '', '' (fst (selected e)),
                               CurrentUp = currentUp, CurrentDown = currentDown,
                               ps_PeriodBaseUp = PeriodBaseUp st, ps_PeriodBaseDown = PeriodBaseDown st,
                               ps_ManualBaseUp = ManualBaseUp st, ps_ManualBaseDown = ManualBaseDown st,
                               LastVnstatUp = fst vnstat, LastVnstatDown = snd vnstat,
                               Snapshot = sn, PausedAt = unix e\<rparr> s3))))"

definition pauseTrafficOverviewAccounting :: "overview_io \<Rightarrow> overview_env \<Rightarrow> overview_sys \<Rightarrow> (string + unit) \<times> overview_sys" where
  "pauseTrafficOverviewAccounting io e s =
     (if \<not> on_linux e \<or> \<not> trusted_manifest e \<or> fst (selected e) = [] then pauseTrafficOverviewWithCachedSnapshot io e s
      else case vnstat_totals e of
             Inl err \<Rightarrow> (Inl err, s)
           | Inr vnstat \<Rightarrow>
               (case overview_cfg e of
                  Inl err \<Rightarrow> (Inl err, s)
                | Inr cfg \<Rightarrow> pause_measured io e (cfg_reset_day cfg) vnstat s))"

definition resume_state ::
  "overview_env \<Rightarrow> int \<Rightarrow> trafficOverviewPauseState \<Rightarrow> int \<Rightarrow> int \<Rightarrow> trafficOverviewRuntimeState \<Rightarrow> trafficOverviewRuntimeState" where
  "resume_state e resetDay ps currentUp currentDown st =
     st\<lparr>Interface := joinSortedInterfaces (fst (selected e)),
        ManualBaseUp := nonNegativeDiff currentUp (sn_AccumUp (Snapshot ps)),
        ManualBaseDown := nonNegativeDiff currentDown (sn_AccumDown (Snapshot ps)),
        PeriodBaseUp := nonNegativeDiff currentUp (sn_Up (Snapshot ps)),
        PeriodBaseDown := nonNegativeDiff currentDown (sn_Down (Snapshot ps)),
        PeriodTag := computePeriodTag resetDay (panel_loc e) (unix e), PeriodResetDay := normalizeResetDay resetDay,
        LastPeriodReset := maxInt64 (LastPeriodReset st) (PausedAt ps)\<rparr>"

definition resume_measured ::
  "overview_io \<Rightarrow> overview_env \<Rightarrow> int \<Rightarrow> int \<times> int \<Rightarrow> trafficOverviewPauseState \<Rightarrow> overview_sys \<Rightarrow> (string + unit) \<times> overview_sys" where
  "resume_measured io e resetDay vnstat ps s =
     (case loadRuntimeState io s of
        (Inl err, s1) \<Rightarrow> (Inl err, s1)
      | (Inr st0, s1) \<Rightarrow>
          (case deriveCurrentAlltimeTotals (io_counters e) st0 (fst (selected e)) (fst vnstat) (snd vnstat) of
             (currentUp, currentDown, _, _, st) \<Rightarrow>
               (case saveRuntimeState io (clock e) (resume_state e resetDay ps currentUp currentDown st) s1 of
                  (Inl err, s2) \<Rightarrow> (Inl err, s2)
                | (Inr _, s2) \<Rightarrow>
                    (case clearPauseState io s2 of
                       (Inl err, s3) \<Rightarrow> (Inl err, s3)
                     | (Inr _, s3) \<Rightarrow> stageOverviewSnapshot io (clock e) (Snapshot ps) True s3))))"

definition resumeTrafficOverviewAccounting :: "overview_io \<Rightarrow> overview_env \<Rightarrow> overview_sys \<Rightarrow> (string + unit) \<times> overview_sys" where
  "resumeTrafficOverviewAccounting io e s =
     (case loadPauseState io s of
        None \<Rightarrow> (Inr (), s)
      | Some ps \<Rightarrow>
          (if \<not> on_linux e \<or> \<not> trusted_manifest e \<or> fst (selected e) = [] then clearPauseState io s
           else case vnstat_totals e of
                  Inl err \<Rightarrow> (Inl err, s)
                | Inr vnstat \<Rightarrow>
                    (case overview_cfg e of
                       Inl err \<Rightarrow> (Inl err, s)
                     | Inr cfg \<Rightarrow> resume_measured io e (cfg_reset_day cfg) vnstat ps s)))"

section \<open>The overview\<close>

record TrafficOverview =
  tv_Source :: string
  tv_Interface :: string
  tv_Interfaces :: "string list"
  tv_InterfaceMode :: string
  tv_Enabled :: bool
  tv_Status :: string
  tv_Available :: bool
  tv_Up :: int
  tv_Down :: int
  tv_Total :: int
  tv_AccumUp :: int
  tv_AccumDown :: int
  tv_AccumTotal :: int
  tv_Limit :: int
  tv_ResetDay :: int
  tv_ExpiryDate :: string
  tv_Expired :: bool
  tv_NextResetAt :: int
  tv_UpdatedAt :: int
  tv_Error :: string

definition snapshotFromOverview :: "TrafficOverview \<Rightarrow> trafficOverviewSnapshot" where
  "snapshotFromOverview ov =
     normalizeOverviewSnapshot
       \<lparr>sn_Source = tv_Source ov, sn_Interface = tv_Interface ov, sn_Available = tv_Available ov, sn_Up = tv_Up ov, sn_Down = tv_Down ov,
        sn_Total = tv_Total ov, sn_AccumUp = tv_AccumUp ov, sn_AccumDown = tv_AccumDown ov, sn_AccumTotal = tv_AccumTotal ov,
        sn_UpdatedAt = tv_UpdatedAt ov\<rparr>"

definition applySnapshotToOverview :: "TrafficOverview \<Rightarrow> trafficOverviewSnapshot \<Rightarrow> TrafficOverview" where
  "applySnapshotToOverview ov sn0 =
     (let sn = normalizeOverviewSnapshot sn0
      in ov\<lparr>tv_Source := sn_Source sn, tv_Interface := sn_Interface sn, tv_Available := sn_Available sn,
            tv_Up := sn_Up sn, tv_Down := sn_Down sn, tv_Total := sn_Total sn,
            tv_AccumUp := sn_AccumUp sn, tv_AccumDown := sn_AccumDown sn, tv_AccumTotal := sn_AccumTotal sn,
            tv_UpdatedAt := (if sn_UpdatedAt sn > 0 then sn_UpdatedAt sn else tv_UpdatedAt ov)\<rparr>)"

definition new_overview :: "overview_env \<Rightarrow> TrafficOverview" where
  "new_overview e =
     \<lparr>tv_Source = ''vnstat'', tv_Interface = [], tv_Interfaces = [], tv_InterfaceMode = [], tv_Enabled = True, tv_Status = ''stopped'',
      tv_Available = False, tv_Up = 0, tv_Down = 0, tv_Total = 0, tv_AccumUp = 0, tv_AccumDown = 0, tv_AccumTotal = 0,
      tv_Limit = 0, tv_ResetDay = 0, tv_ExpiryDate = [], tv_Expired = False, tv_NextResetAt = 0, tv_UpdatedAt = unix e, tv_Error = []\<rparr>"

definition configured_overview :: "overview_env \<Rightarrow> overview_config \<Rightarrow> TrafficOverview" where
  "configured_overview e cfg =
     (new_overview e)\<lparr>tv_Limit := cfg_limit cfg, tv_ResetDay := cfg_reset_day cfg, tv_ExpiryDate := cfg_expiry_date cfg,
        tv_Expired := isTrafficOverviewExpired (cfg_expiry cfg) (unix e),
        tv_NextResetAt := (case nextClientMonthlyResetBoundary (cfg_reset_day cfg) (panel_loc e) (unix e) of
                             Some t \<Rightarrow> if t = zero_time then 0 else t | None \<Rightarrow> 0),
        tv_Enabled := cfg_enabled cfg\<rparr>"

definition unavailable :: "string \<Rightarrow> string \<Rightarrow> TrafficOverview \<Rightarrow> TrafficOverview" where
  "unavailable err status ov = ov\<lparr>tv_Error := err, tv_Available := False, tv_Status := status\<rparr>"

text \<open>From the totals of vnstat to the end; errors of storing are only logged.\<close>

definition running_overview ::
  "overview_io \<Rightarrow> overview_env \<Rightarrow> int \<Rightarrow> int \<times> int \<Rightarrow> TrafficOverview \<Rightarrow> overview_sys \<Rightarrow> TrafficOverview \<times> overview_sys" where
  "running_overview io e resetDay vnstat ov s =
     (case loadRuntimeState io s of
        (Inl err, s1) \<Rightarrow> (unavailable err ''error'' ov, s1)
      | (Inr st0, s1) \<Rightarrow>
          (case settle_totals e resetDay vnstat st0 of
             (currentUp, currentDown, source, changed, periodChanged, st) \<Rightarrow>
               (let sn = usage_snapshot e source currentUp currentDown st;
                    ov1 = ov\<lparr>tv_Source := source, tv_Up := sn_Up sn, tv_Down := sn_Down sn, tv_Total := sn_Total sn,
                             tv_AccumUp := sn_AccumUp sn, tv_AccumDown := sn_AccumDown sn, tv_AccumTotal := sn_AccumTotal sn,
                             tv_Available := True, tv_Status := ''running''\<rparr>;
                    s2 = (if changed then snd (stageRuntimeState io (clock e) st periodChanged s1) else s1);
                    s3 = snd (stageOverviewSnapshot io (clock e) (snapshotFromOverview ov1) False s2)
                in (ov1, s3))))"

definition measured_overview ::
  "overview_io \<Rightarrow> overview_env \<Rightarrow> int \<Rightarrow> TrafficOverview \<Rightarrow> overview_sys \<Rightarrow> TrafficOverview \<times> overview_sys" where
  "measured_overview io e resetDay ov s =
     (if \<not> on_linux e then (unavailable ''vnstat is supported on linux only'' ''unsupported'' ov, s)
      else if \<not> vnstat_installed e then (unavailable ''vnstat is not installed'' ''missing'' ov, s)
      else case selected e of
             (ifaces, mode) \<Rightarrow>
               (if ifaces = [] then (unavailable ''no network interface selected or found'' ''error'' ov, s)
                else let ov1 = ov\<lparr>tv_Interfaces := ifaces, tv_Interface := str_join '', '' ifaces, tv_InterfaceMode := mode\<rparr>
                     in case vnstat_totals e of
                          Inl err \<Rightarrow> (unavailable err ''error'' ov1, s)
                        | Inr vnstat \<Rightarrow> running_overview io e resetDay vnstat ov1 s))"

text \<open>\<open>er\<close> is what the readings are while accounting resumes, \<open>e\<close> afterwards.\<close>

definition getTrafficOverviewUncached :: "overview_io \<Rightarrow> overview_env \<Rightarrow> overview_env \<Rightarrow> overview_sys \<Rightarrow> TrafficOverview \<times> overview_sys" where
  "getTrafficOverviewUncached io er e s =
     (case overview_cfg e of
        Inl err \<Rightarrow> ((new_overview e)\<lparr>tv_Error := err\<rparr>, s)
      | Inr cfg \<Rightarrow>
          (case getSnapshotForDisplay io s of
             (cached, s1) \<Rightarrow>
               (let ov0 = configured_overview e cfg;
                    ov = (case cached of Some sn \<Rightarrow> applySnapshotToOverview ov0 sn | None \<Rightarrow> ov0)
                in if \<not> cfg_enabled cfg
                   then ((case loadPauseState io s1 of Some ps \<Rightarrow> applySnapshotToOverview ov (Snapshot ps) | None \<Rightarrow> ov)
                           \<lparr>tv_Available := False, tv_Status := ''stopped''\<rparr>, s1)
                   else case (case loadPauseState io s1 of
                                Some ps \<Rightarrow> resumeTrafficOverviewAccounting io er s1 | None \<Rightarrow> (Inr (), s1)) of
                          (Inl err, s2) \<Rightarrow> (unavailable err ''error'' ov, s2)
                        | (Inr _, s2) \<Rightarrow> measured_overview io e (cfg_reset_day cfg) ov s2)))"

end
