(* ===== verification/Overview_Totals.thy ===== *)
theory Overview_Totals
  imports Overview_Service
begin

text \<open>
  What the totals of the traffic overview mean: reconciling vnstat with the kernel's counters refines a meter that
  never runs backwards, and the usage of a period starts from zero exactly at its boundary.
\<close>

section \<open>Differences and maxima\<close>

lemma maxInt64_max: "maxInt64 a b = max a b"
  by (simp add: maxInt64_def max_def)

lemma int64_nonneg: "0 \<le> x \<Longrightarrow> x \<le> max_int64 \<Longrightarrow> in_int64 x"
  by (simp add: int64_defs)

lemma nonNegativeDiff_eq:
  "0 \<le> a \<Longrightarrow> a \<le> max_int64 \<Longrightarrow> 0 \<le> b \<Longrightarrow> b \<le> max_int64 \<Longrightarrow> nonNegativeDiff a b = max 0 (a - b)"
  using wrap64_id [of "a - b"] by (simp add: nonNegativeDiff_def Let_def int64_defs max_def)

lemma nonNegativeDiff_nonneg: "0 \<le> nonNegativeDiff a b"
  by (simp add: nonNegativeDiff_def Let_def)

section \<open>The meter\<close>

text \<open>
  The meter adds what a kernel counter grew since the last reading (nothing when the counter started again), and
  never shows less than vnstat.
\<close>

definition growth :: "int \<Rightarrow> int \<Rightarrow> int" where
  "growth prev k = (if prev \<le> k then k - prev else 0)"

definition meter :: "int \<Rightarrow> int \<Rightarrow> int \<Rightarrow> int \<Rightarrow> int" where
  "meter acc prev vnstat k = max vnstat (acc + growth prev k)"

lemma growth_nonneg [simp]: "0 \<le> growth prev k"
  by (simp add: growth_def)

lemma meter_bounds: "acc \<le> meter acc prev v k" "v \<le> meter acc prev v k"
  by (simp_all add: meter_def max_def) (use growth_nonneg [of prev k] in linarith)

lemma meter_simps:
  "k < prev \<Longrightarrow> meter acc prev v k = max v acc"
  "prev \<le> k \<Longrightarrow> meter acc prev v k = max v (acc + (k - prev))"
  by (simp_all add: meter_def growth_def)

lemma meter_above_counter: "0 \<le> off \<Longrightarrow> k \<le> meter (off + prev) prev v k"
  by (cases "k < prev") (simp_all add: meter_simps max_def)

lemma reconcile_unfold:
  assumes "0 \<le> off" "0 \<le> prev" "0 \<le> v" "0 \<le> k" "off + prev \<le> max_int64"
  shows "reconcileKernelRealtimeCounter off prev False v k =
     (let off1 = (if k < prev then nonNegativeDiff (max (off + prev) v) k else off);
          current = max v (wrap64 (max off1 0 + k))
      in (off \<noteq> off1 \<or> off1 \<noteq> nonNegativeDiff current k \<or> prev \<noteq> k, current, nonNegativeDiff current k, k))"
proof -
  have "wrap64 (off + prev) = off + prev" using assms by (intro wrap64_id int64_nonneg) auto
  moreover have "max off 0 = off" "max prev 0 = prev" "max v 0 = v" "max k 0 = k" using assms by auto
  ultimately show ?thesis unfolding reconcileKernelRealtimeCounter_def Let_def maxInt64_max by (simp only: if_False)
qed

lemma reconcile_current:
  assumes "0 \<le> off" "0 \<le> prev" "0 \<le> v" "0 \<le> k" and m: "meter (off + prev) prev v k \<le> max_int64"
  shows "max v (wrap64 (max (if k < prev then nonNegativeDiff (max (off + prev) v) k else off) 0 + k)) = meter (off + prev) prev v k"
proof (cases "k < prev")
  case True
  let ?b = "max (off + prev) v"
  have b: "0 \<le> ?b" "?b \<le> max_int64" "k \<le> ?b" using assms True by (simp_all add: meter_simps max.commute)
  then have "nonNegativeDiff ?b k = ?b - k" using assms(4) nonNegativeDiff_eq [of ?b k] by linarith
  moreover have "max (?b - k) 0 + k = ?b" using b by simp
  ultimately show ?thesis using True wrap64_id [OF int64_nonneg [OF b(1,2)]] by (simp add: meter_simps)
next
  case False
  then have m': "meter (off + prev) prev v k = max v (off + k)" by (simp add: meter_simps)
  then have "wrap64 (off + k) = off + k" using assms by (intro wrap64_id int64_nonneg) auto
  then show ?thesis using False assms(1) m' by simp
qed

lemma reconcile_meter:
  assumes "0 \<le> off" "0 \<le> prev" "0 \<le> v" "0 \<le> k" and m: "meter (off + prev) prev v k \<le> max_int64"
  shows "\<exists>changed. reconcileKernelRealtimeCounter off prev False v k
     = (changed, meter (off + prev) prev v k, meter (off + prev) prev v k - k, k)"
proof -
  let ?t = "meter (off + prev) prev v k"
  have t: "off + prev \<le> ?t" "k \<le> ?t" by (rule meter_bounds meter_above_counter [OF assms(1)])+
  then have "nonNegativeDiff ?t k = ?t - k" using assms nonNegativeDiff_eq [of ?t k] by linarith
  then show ?thesis
    using reconcile_unfold [OF assms(1-4)] t(1) m by (simp add: Let_def reconcile_current [OF assms])
qed

text \<open>The totals a sequence of readings (vnstat, kernel) shows, in the code and in the meter.\<close>

fun shown_totals :: "int \<Rightarrow> int \<Rightarrow> (int \<times> int) list \<Rightarrow> int list" where
  "shown_totals off prev [] = []"
| "shown_totals off prev ((v, k) # ps) =
     (case reconcileKernelRealtimeCounter off prev False v k of
        (changed, current, off', prev') \<Rightarrow> current # shown_totals off' prev' ps)"

fun meter_totals :: "int \<Rightarrow> int \<Rightarrow> (int \<times> int) list \<Rightarrow> int list" where
  "meter_totals acc prev [] = []"
| "meter_totals acc prev ((v, k) # ps) = meter acc prev v k # meter_totals (meter acc prev v k) k ps"

lemma meter_totals_rise:
  "sorted (acc # meter_totals acc prev ps) \<and> list_all2 (\<lambda>p t. fst p \<le> t) ps (meter_totals acc prev ps)"
proof (induction ps arbitrary: acc prev)
  case (Cons p ps)
  obtain v k where p: "p = (v, k)" by fastforce
  show ?case using Cons.IH [of "meter acc prev v k" k] meter_bounds [where acc = acc and prev = prev and v = v and k = k] by (auto simp: p)
qed simp

lemma shown_totals_meter:
  "0 \<le> off \<Longrightarrow> 0 \<le> prev \<Longrightarrow> \<forall>(v, k) \<in> set ps. 0 \<le> v \<and> 0 \<le> k
    \<Longrightarrow> \<forall>t \<in> set (meter_totals (off + prev) prev ps). t \<le> max_int64
    \<Longrightarrow> shown_totals off prev ps = meter_totals (off + prev) prev ps"
proof (induction ps arbitrary: off prev)
  case (Cons p ps)
  obtain v k where p: "p = (v, k)" by fastforce
  let ?t = "meter (off + prev) prev v k"
  have a: "0 \<le> off" "0 \<le> prev" "0 \<le> v" "0 \<le> k" "?t \<le> max_int64" using Cons.prems p by auto
  obtain c where r: "reconcileKernelRealtimeCounter off prev False v k = (c, ?t, ?t - k, k)"
    using reconcile_meter [OF a] by blast
  have "shown_totals (?t - k) k ps = meter_totals (?t - k + k) k ps"
    using Cons.prems a meter_above_counter [OF a(1), of k prev v] by (intro Cons.IH) (auto simp: p)
  then show ?case by (simp add: p r)
qed simp

text \<open>
  C12: the totals of the overview never run backwards. As long as the selected interfaces stay the same, the totals that
  successive readings show are exactly those of a meter which adds the growth of the kernel counter, adds
  nothing when the counter starts again from a smaller value, and is never behind vnstat: the sequence is
  sorted, starts at or above the stored total, and each total is at least the reading of vnstat. The
  totals fit in 64 bits.
\<close>

theorem overview_totals_are_metered:
  assumes "0 \<le> off" "0 \<le> prev" "\<forall>(v, k) \<in> set ps. 0 \<le> v \<and> 0 \<le> k"
    "\<forall>t \<in> set (meter_totals (off + prev) prev ps). t \<le> max_int64"
  shows "shown_totals off prev ps = meter_totals (off + prev) prev ps
     \<and> sorted ((off + prev) # shown_totals off prev ps)
     \<and> list_all2 (\<lambda>p t. fst p \<le> t) ps (shown_totals off prev ps)"
  using shown_totals_meter [OF assms] meter_totals_rise [of "off + prev" prev ps] by simp

theorem overview_totals_are_metered_witness:
  "shown_totals 900 100 [(1000, 150), (1000, 20), (1040, 30), (1500, 60)] = [1050, 1050, 1060, 1500]"
  using overview_totals_are_metered [of 900 100 "[(1000, 150), (1000, 20), (1040, 30), (1500, 60)]"]
  by (simp add: meter_def growth_def max_int64_def)

end
