(* ===== verification/Traffic_Cap.thy ===== *)
theory Traffic_Cap
  imports Overview_Service
begin

text \<open>
  The traffic cap and the handlers that change the overview (\<open>service/traffic_overview.go\<close>): whether the period is over its
  limit, the nft rules that then drop everything but a few ports, the three resets and switching the overview on
  and off. The outcomes of nft commands are the record \<open>cap_env\<close>: an error text for deleting the rules (and
  which of them a failed deletion leaves behind), for preparing the table, and for adding a rule.
\<close>

section \<open>Rules\<close>

record cap_env =
  delete_err :: "string option"
  left_behind :: "cap_rule \<Rightarrow> bool"
  base_err :: "string option"
  add_err :: "cap_rule \<Rightarrow> string option"
  table_exists :: bool  \<comment> \<open>\<open>nftTableExists\<close>: the table is there and can be inspected\<close>
  firewall_ports :: "int list"  \<comment> \<open>\<open>resolveFirewallDefaultPorts().All\<close>\<close>

definition trafficOverviewCapEvaluateInterval :: int where "trafficOverviewCapEvaluateInterval = 30 * 1000000000"

definition resolveTrafficCapAllowedPorts :: "cap_env \<Rightarrow> int list" where
  "resolveTrafficCapAllowedPorts n = (if firewall_ports n = [] then [22] else firewall_ports n)"

definition cleanupTrafficCapRules :: "overview_env \<Rightarrow> cap_env \<Rightarrow> overview_sys \<Rightarrow> (string + unit) \<times> overview_sys" where
  \<comment> \<open>\<open>deleteRulesByCommentPrefix\<close> succeeds without a look at the rules when the table is missing or cannot be inspected\<close>
  "cleanupTrafficCapRules e n s =
     (if \<not> on_linux e \<or> \<not> nft_supported e \<or> \<not> table_exists n then (Inr (), s)
      else case delete_err n of
             Some err \<Rightarrow> (Inl err, s\<lparr>cap_rules := filter (left_behind n) (cap_rules s)\<rparr>)
           | None \<Rightarrow> (Inr (), s\<lparr>cap_rules := []\<rparr>))"

text \<open>The drop rules are found by their comments, whatever their ports.\<close>

definition is_drop_in :: "cap_rule \<Rightarrow> bool" where "is_drop_in r = (case r of Drop_In ps \<Rightarrow> True | _ \<Rightarrow> False)"
definition is_drop_out :: "cap_rule \<Rightarrow> bool" where "is_drop_out r = (case r of Drop_Out ps \<Rightarrow> True | _ \<Rightarrow> False)"

definition hasTrafficCapRules :: "overview_env \<Rightarrow> cap_env \<Rightarrow> overview_sys \<Rightarrow> bool" where
  "hasTrafficCapRules e n s \<longleftrightarrow>
     on_linux e \<and> nft_supported e \<and> table_exists n
     \<and> list_ex is_drop_in (cap_rules s) \<and> list_ex is_drop_out (cap_rules s) \<and> Drop_Forward \<in> set (cap_rules s)"

fun add_rules :: "cap_env \<Rightarrow> cap_rule list \<Rightarrow> overview_sys \<Rightarrow> (string + unit) \<times> overview_sys" where
  "add_rules n [] s = (Inr (), s)"
| "add_rules n (r # rs) s =
     (case add_err n r of
        Some err \<Rightarrow> (Inl err, s)
      | None \<Rightarrow> add_rules n rs (s\<lparr>cap_rules := cap_rules s @ [r]\<rparr>))"

definition cap_rule_set :: "int list \<Rightarrow> cap_rule list" where
  "cap_rule_set ports = [Loopback_In, Loopback_Out, Drop_In ports, Drop_Out ports, Drop_Forward]"

definition applyTrafficCapRules :: "overview_env \<Rightarrow> cap_env \<Rightarrow> int list \<Rightarrow> overview_sys \<Rightarrow> (string + unit) \<times> overview_sys" where
  "applyTrafficCapRules e n allowedPorts s =
     (if \<not> on_linux e \<or> \<not> nft_supported e then (Inr (), s)
      else let normalized = normalizePortList allowedPorts
           in if normalized = [] then (Inl ''traffic cap allowlist is empty'', s)
              else case cleanupTrafficCapRules e n s of
                     (Inl err, s1) \<Rightarrow> (Inl err, s1)
                   | (Inr _, s1) \<Rightarrow>
                       (case base_err n of
                          Some err \<Rightarrow> (Inl err, s1)
                        | None \<Rightarrow> add_rules n (cap_rule_set normalized) s1))"

section \<open>The decision\<close>

definition evaluateTrafficOverviewCapReached :: "bool \<Rightarrow> int \<Rightarrow> int \<Rightarrow> bool \<Rightarrow> string \<Rightarrow> bool \<Rightarrow> bool \<Rightarrow> bool" where
  "evaluateTrafficOverviewCapReached previous limit periodTotal avail errText expired hasOverview =
     (if expired then True
      else if limit \<le> 0 then False
      else if hasOverview \<and> avail \<and> trim_space errText = [] then periodTotal \<ge> limit
      else previous)"

definition trafficCapUsageBytes :: "TrafficOverview option \<Rightarrow> int" where
  "trafficCapUsageBytes ov = (case ov of None \<Rightarrow> 0 | Some v \<Rightarrow> maxInt64 (tv_Total v) 0)"

definition loadCapStateLocked :: "overview_io \<Rightarrow> overview_sys \<Rightarrow> string + trafficOverviewCapState" where
  "loadCapStateLocked io s =
     (case get_err io trafficOverviewCapStateKey of
        Some e \<Rightarrow> Inl e
      | None \<Rightarrow>
          (case cap_row s of
             Blank \<Rightarrow> Inr zero_cap
           | Garbled e \<Rightarrow> Inl e
           | Stored c \<Rightarrow> Inr (c\<lparr>AllowedPorts := normalizePortList (AllowedPorts c), cs_UpdatedAt := maxInt64 (cs_UpdatedAt c) 0\<rparr>)))"

definition saveCapStateLocked :: "overview_io \<Rightarrow> trafficOverviewCapState \<Rightarrow> overview_sys \<Rightarrow> (string + unit) \<times> overview_sys" where
  "saveCapStateLocked io c s =
     (case set_err io trafficOverviewCapStateKey of
        Some e \<Rightarrow> (Inl e, s)
      | None \<Rightarrow> (Inr (), s\<lparr>cap_row := Stored (c\<lparr>AllowedPorts := normalizePortList (AllowedPorts c),
                                               cs_UpdatedAt := maxInt64 (cs_UpdatedAt c) 0\<rparr>)\<rparr>))"

text \<open>The limit and the expiry the decision uses; without an overview both come from the configuration.\<close>

definition cap_limit :: "overview_env \<Rightarrow> TrafficOverview option \<Rightarrow> int \<times> bool" where
  "cap_limit e ov =
     (let limit0 = (case ov of Some v \<Rightarrow> tv_Limit v | None \<Rightarrow> 0);
          expired0 = (case ov of Some v \<Rightarrow> tv_Expired v | None \<Rightarrow> False)
      in if limit0 \<le> 0
         then (case overview_cfg e of
                 Inl err \<Rightarrow> (limit0, expired0)
               | Inr cfg \<Rightarrow> (cfg_limit cfg,
                             if ov = None then isTrafficOverviewExpired (cfg_expiry cfg) (unix e) else expired0))
         else (limit0, expired0))"

definition cap_reached :: "overview_env \<Rightarrow> TrafficOverview option \<Rightarrow> bool \<Rightarrow> bool" where
  "cap_reached e ov previous =
     evaluateTrafficOverviewCapReached previous (fst (cap_limit e ov)) (trafficCapUsageBytes ov)
       (case ov of Some v \<Rightarrow> tv_Available v | None \<Rightarrow> False) (case ov of Some v \<Rightarrow> tv_Error v | None \<Rightarrow> [])
       (snd (cap_limit e ov)) (ov \<noteq> None)"

definition enforce_cap ::
  "overview_io \<Rightarrow> overview_env \<Rightarrow> cap_env \<Rightarrow> int list \<Rightarrow> bool \<Rightarrow> trafficOverviewCapState \<Rightarrow> overview_sys \<Rightarrow> (string + unit) \<times> overview_sys" where
  "enforce_cap io e n allowedPorts legacyRules st s =
     (let hasRules0 = (legacyRules \<or> cs_Active st \<and> hasTrafficCapRules e n s);
          needsRuleRefresh = (\<not> cs_Active st \<or> AllowedPorts st \<noteq> allowedPorts \<or> \<not> hasRules0)
      in case (if needsRuleRefresh then applyTrafficCapRules e n allowedPorts s else (Inr (), s)) of
           (Inl err, s1) \<Rightarrow> (Inl err, s1)
         | (Inr _, s1) \<Rightarrow>
             (let hasRules = (needsRuleRefresh \<or> hasRules0)
              in if cs_Active st = hasRules \<and> cs_LimitReached st \<and> AllowedPorts st = allowedPorts then (Inr (), s1)
                 else saveCapStateLocked io (st\<lparr>cs_Active := hasRules, cs_LimitReached := True, AllowedPorts := allowedPorts,
                                               cs_UpdatedAt := unix e\<rparr>) s1))"

definition lift_cap ::
  "overview_io \<Rightarrow> overview_env \<Rightarrow> cap_env \<Rightarrow> bool \<Rightarrow> trafficOverviewCapState \<Rightarrow> overview_sys \<Rightarrow> (string + unit) \<times> overview_sys" where
  "lift_cap io e n legacyRules st s =
     (case (if cs_Active st \<or> legacyRules then cleanupTrafficCapRules e n s else (Inr (), s)) of
        (Inl err, s1) \<Rightarrow> (Inl err, s1)
      | (Inr _, s1) \<Rightarrow>
          (if \<not> cs_Active st \<and> \<not> cs_LimitReached st \<and> AllowedPorts st = [] then (Inr (), s1)
           else saveCapStateLocked io (st\<lparr>cs_Active := False, cs_LimitReached := False, AllowedPorts := [],
                                          cs_UpdatedAt := unix e\<rparr>) s1))"

definition reconcileTrafficCapFromOverview ::
  "overview_io \<Rightarrow> overview_env \<Rightarrow> cap_env \<Rightarrow> TrafficOverview option \<Rightarrow> overview_sys \<Rightarrow> (string + unit) \<times> overview_sys" where
  "reconcileTrafficCapFromOverview io e n ov s =
     (if \<not> on_linux e \<or> \<not> nft_supported e then (Inr (), s)
      else case loadCapStateLocked io s of
             Inl err \<Rightarrow> (Inl err, s)
           | Inr st \<Rightarrow>
               (let legacyRules = (\<not> cap_checked s \<and> hasTrafficCapRules e n s);
                    s1 = s\<lparr>cap_checked := True\<rparr>;
                    limitReached = cap_reached e ov (cs_LimitReached st);
                    desiredActive = ((fst (cap_limit e ov) > 0 \<or> snd (cap_limit e ov)) \<and> limitReached)
                in if desiredActive then enforce_cap io e n (resolveTrafficCapAllowedPorts n) legacyRules st s1
                   else lift_cap io e n legacyRules st s1))"

definition reconcileInactiveTrafficCap :: "overview_io \<Rightarrow> overview_env \<Rightarrow> cap_env \<Rightarrow> overview_sys \<Rightarrow> (string + unit) \<times> overview_sys" where
  "reconcileInactiveTrafficCap io e n s =
     (if cap_checked s then (Inr (), s)
      else case loadCapStateLocked io s of
             Inl err \<Rightarrow> (Inl err, s)
           | Inr st \<Rightarrow>
               (let hasRules = (on_linux e \<and> nft_supported e \<and> (cs_Active st \<or> hasTrafficCapRules e n s))
                in case (if hasRules then cleanupTrafficCapRules e n s else (Inr (), s)) of
                     (Inl err, s1) \<Rightarrow> (Inl err, s1)
                   | (Inr _, s1) \<Rightarrow>
                       (let s2 = s1\<lparr>cap_checked := True\<rparr>
                        in if \<not> cs_Active st \<and> \<not> cs_LimitReached st \<and> AllowedPorts st = [] then (Inr (), s2)
                           else saveCapStateLocked io (st\<lparr>cs_Active := False, cs_LimitReached := False, AllowedPorts := [],
                                                          cs_UpdatedAt := unix e\<rparr>) s2)))"

definition markTrafficOverviewCapReconcileNeeded :: "overview_sys \<Rightarrow> overview_sys" where
  "markTrafficOverviewCapReconcileNeeded s = s\<lparr>cap_checked := False, cap_evaluated := None\<rparr>"

definition shouldEvaluateTrafficCapNow :: "int \<Rightarrow> overview_sys \<Rightarrow> bool \<times> overview_sys" where
  "shouldEvaluateTrafficCapNow clk s =
     (case cap_evaluated s of
        Some t \<Rightarrow> if clk - t < trafficOverviewCapEvaluateInterval then (False, s) else (True, s\<lparr>cap_evaluated := Some clk\<rparr>)
      | None \<Rightarrow> (True, s\<lparr>cap_evaluated := Some clk\<rparr>))"

definition ReconcileTrafficCap ::
  "overview_io \<Rightarrow> overview_env \<Rightarrow> overview_env \<Rightarrow> cap_env \<Rightarrow> overview_sys \<Rightarrow> (string + unit) \<times> overview_sys" where
  "ReconcileTrafficCap io er e n s =
     (case overview_cfg e of
        Inl err \<Rightarrow> (Inl err, s)
      | Inr cfg \<Rightarrow>
          (if \<not> cfg_enabled cfg \<or> cfg_limit cfg \<le> 0 \<and> \<not> isTrafficOverviewExpired (cfg_expiry cfg) (unix e)
           then reconcileInactiveTrafficCap io e n s
           else case shouldEvaluateTrafficCapNow (clock e) s of
                  (False, s1) \<Rightarrow> (Inr (), s1)
                | (True, s1) \<Rightarrow>
                    (case getTrafficOverviewUncached io er e s1 of
                       (ov, s2) \<Rightarrow> reconcileTrafficCapFromOverview io e n (Some ov) s2)))"

definition CleanupTrafficCapOnShutdown :: "overview_io \<Rightarrow> overview_env \<Rightarrow> cap_env \<Rightarrow> overview_sys \<Rightarrow> (string + unit) \<times> overview_sys" where
  "CleanupTrafficCapOnShutdown io e n s =
     (if \<not> on_linux e \<or> \<not> nft_supported e then (Inr (), s)
      else case cleanupTrafficCapRules e n s of
             (Inl err, s1) \<Rightarrow> (Inl err, s1)
           | (Inr _, s1) \<Rightarrow>
               (case loadCapStateLocked io s1 of
                  Inl err \<Rightarrow> (Inl err, s1)
                | Inr st \<Rightarrow> saveCapStateLocked io (st\<lparr>cs_Active := False, cs_UpdatedAt := unix e\<rparr>) s1))"

definition FlushPendingSnapshot :: "overview_io \<Rightarrow> int \<Rightarrow> overview_sys \<Rightarrow> (string + unit) \<times> overview_sys" where
  "FlushPendingSnapshot io clk s =
     (case flushRuntimeState io clk s of
        (Inl err, s1) \<Rightarrow> (Inl err, s1)
      | (Inr _, s1) \<Rightarrow> flushOverviewSnapshot io clk True s1)"

section \<open>Resets\<close>

definition isOverviewEnabled :: "overview_io \<Rightarrow> overview_sys \<Rightarrow> string + bool" where
  "isOverviewEnabled io s =
     (case get_err io trafficOverviewEnabledKey of Some e \<Rightarrow> Inl e | None \<Rightarrow> Inr (enabled_row s))"

text \<open>
  The three resets differ in what they do to the state and in what they show. \<open>e\<close> holds the readings of the
  reset, \<open>er\<close> and \<open>e2\<close> those of the reconciliation that follows, whose error is only logged.
\<close>

definition finish_reset ::
  "overview_io \<Rightarrow> overview_env \<Rightarrow> overview_env \<Rightarrow> overview_env \<Rightarrow> cap_env \<Rightarrow> trafficOverviewRuntimeState \<Rightarrow> trafficOverviewSnapshot
    \<Rightarrow> overview_sys \<Rightarrow> (string + unit) \<times> overview_sys" where
  "finish_reset io e er e2 n st sn s =
     (case saveRuntimeState io (clock e) st s of
        (Inl err, s1) \<Rightarrow> (Inl err, s1)
      | (Inr _, s1) \<Rightarrow>
          (case stageOverviewSnapshot io (clock e) sn True s1 of
             (Inl err, s2) \<Rightarrow> (Inl err, s2)
           | (Inr _, s2) \<Rightarrow> (Inr (), snd (ReconcileTrafficCap io er e2 n (markTrafficOverviewCapReconcileNeeded s2)))))"

definition settle_bases ::
  "overview_env \<Rightarrow> int \<times> int \<Rightarrow> trafficOverviewRuntimeState \<Rightarrow> int \<times> int \<times> string \<times> trafficOverviewRuntimeState" where
  "settle_bases e vnstat st0 =
     (let ifaces = fst (selected e)
      in case deriveCurrentAlltimeTotals (io_counters e) st0 ifaces (fst vnstat) (snd vnstat) of
           (currentUp, currentDown, source, _, st1) \<Rightarrow>
             (currentUp, currentDown, source,
              snd (normalizeStateForTotals (unix e) st1 (joinSortedInterfaces ifaces) currentUp currentDown)))"

definition reset_all :: "overview_env \<Rightarrow> int \<Rightarrow> int \<Rightarrow> int \<Rightarrow> trafficOverviewRuntimeState \<Rightarrow> trafficOverviewRuntimeState" where
  "reset_all e resetDay currentUp currentDown st =
     st\<lparr>Interface := joinSortedInterfaces (fst (selected e)),
        ManualBaseUp := currentUp, ManualBaseDown := currentDown, PeriodBaseUp := currentUp, PeriodBaseDown := currentDown,
        PeriodTag := computePeriodTag resetDay (panel_loc e) (unix e), PeriodResetDay := normalizeResetDay resetDay,
        LastFullResetAt := unix e, LastPeriodReset := unix e\<rparr>"

definition reset_period :: "overview_env \<Rightarrow> int \<Rightarrow> int \<Rightarrow> int \<Rightarrow> trafficOverviewRuntimeState \<Rightarrow> trafficOverviewRuntimeState" where
  "reset_period e resetDay currentUp currentDown st =
     st\<lparr>Interface := joinSortedInterfaces (fst (selected e)),
        PeriodBaseUp := currentUp, PeriodBaseDown := currentDown,
        PeriodTag := computePeriodTag resetDay (panel_loc e) (unix e), PeriodResetDay := normalizeResetDay resetDay,
        LastPeriodReset := unix e\<rparr>"

definition reset_total :: "overview_env \<Rightarrow> int \<Rightarrow> int \<Rightarrow> trafficOverviewRuntimeState \<Rightarrow> trafficOverviewRuntimeState" where
  "reset_total e currentUp currentDown st =
     st\<lparr>Interface := joinSortedInterfaces (fst (selected e)),
        ManualBaseUp := currentUp, ManualBaseDown := currentDown, LastFullResetAt := unix e\<rparr>"

definition reset_snapshot :: "overview_env \<Rightarrow> string \<Rightarrow> int \<Rightarrow> int \<Rightarrow> int \<Rightarrow> int \<Rightarrow> trafficOverviewSnapshot" where
  "reset_snapshot e source up down accumUp accumDown =
     \<lparr>sn_Source = source, sn_Interface = str_join '', '' (fst (selected e)), sn_Available = True, sn_Up = up, sn_Down = down,
      sn_Total = wrap64 (up + down), sn_AccumUp = accumUp, sn_AccumDown = accumDown, sn_AccumTotal = wrap64 (accumUp + accumDown),
      sn_UpdatedAt = unix e\<rparr>"

text \<open>The guards the three share; \<open>go\<close> gets the totals of vnstat.\<close>

definition guarded_reset ::
  "overview_io \<Rightarrow> overview_env \<Rightarrow> (int \<times> int \<Rightarrow> overview_sys \<Rightarrow> (string + unit) \<times> overview_sys) \<Rightarrow> overview_sys \<Rightarrow> (string + unit) \<times> overview_sys" where
  "guarded_reset io e go s =
     (if \<not> on_linux e then (Inr (), s)
      else case isOverviewEnabled io s of
             Inl err \<Rightarrow> (Inl err, s)
           | Inr enabled \<Rightarrow>
               (if \<not> enabled then (Inr (), s)
                else if fst (selected e) = [] then (Inl ''no traffic interface configured or detected'', s)
                else case vnstat_totals e of Inl err \<Rightarrow> (Inl err, s) | Inr vnstat \<Rightarrow> go vnstat s))"

definition ResetAllTrafficOverviewStats ::
  "overview_io \<Rightarrow> overview_env \<Rightarrow> overview_env \<Rightarrow> overview_env \<Rightarrow> cap_env \<Rightarrow> overview_sys \<Rightarrow> (string + unit) \<times> overview_sys" where
  "ResetAllTrafficOverviewStats io e er e2 n = guarded_reset io e (\<lambda>vnstat s.
     case overview_cfg e of
       Inl err \<Rightarrow> (Inl err, s)
     | Inr cfg \<Rightarrow>
         (case loadRuntimeState io s of
            (Inl err, s1) \<Rightarrow> (Inl err, s1)
          | (Inr st0, s1) \<Rightarrow>
              (case settle_bases e vnstat st0 of
                 (currentUp, currentDown, source, st) \<Rightarrow>
                   finish_reset io e er e2 n (reset_all e (cfg_reset_day cfg) currentUp currentDown st)
                     (reset_snapshot e source 0 0 0 0) s1)))"

definition ResetPeriodTrafficOverviewStats ::
  "overview_io \<Rightarrow> overview_env \<Rightarrow> overview_env \<Rightarrow> overview_env \<Rightarrow> cap_env \<Rightarrow> overview_sys \<Rightarrow> (string + unit) \<times> overview_sys" where
  "ResetPeriodTrafficOverviewStats io e er e2 n = guarded_reset io e (\<lambda>vnstat s.
     case overview_cfg e of
       Inl err \<Rightarrow> (Inl err, s)
     | Inr cfg \<Rightarrow>
         (case loadRuntimeState io s of
            (Inl err, s1) \<Rightarrow> (Inl err, s1)
          | (Inr st0, s1) \<Rightarrow>
              (case settle_bases e vnstat st0 of
                 (currentUp, currentDown, source, st) \<Rightarrow>
                   finish_reset io e er e2 n (reset_period e (cfg_reset_day cfg) currentUp currentDown st)
                     (reset_snapshot e source 0 0 (nonNegativeDiff currentUp (ManualBaseUp st))
                        (nonNegativeDiff currentDown (ManualBaseDown st))) s1)))"

definition ResetTotalTrafficOverviewStats ::
  "overview_io \<Rightarrow> overview_env \<Rightarrow> overview_env \<Rightarrow> overview_env \<Rightarrow> cap_env \<Rightarrow> overview_sys \<Rightarrow> (string + unit) \<times> overview_sys" where
  "ResetTotalTrafficOverviewStats io e er e2 n = guarded_reset io e (\<lambda>vnstat s.
     case loadRuntimeState io s of
       (Inl err, s1) \<Rightarrow> (Inl err, s1)
     | (Inr st0, s1) \<Rightarrow>
         (case settle_bases e vnstat st0 of
            (currentUp, currentDown, source, st) \<Rightarrow>
              finish_reset io e er e2 n (reset_total e currentUp currentDown st)
                (reset_snapshot e source (nonNegativeDiff currentUp (PeriodBaseUp st))
                   (nonNegativeDiff currentDown (PeriodBaseDown st)) 0 0) s1))"

section \<open>On and off\<close>

text \<open>
  Starting and stopping the vnstat daemon has no effect on the panel's state; \<open>track_err\<close> is the error of
  tracking the default interface, when there is one.
\<close>

definition SetTrafficOverviewEnabled ::
  "overview_io \<Rightarrow> overview_env \<Rightarrow> overview_env \<Rightarrow> overview_env \<Rightarrow> cap_env \<Rightarrow> string option \<Rightarrow> bool \<Rightarrow> overview_sys \<Rightarrow> (string + unit) \<times> overview_sys" where
  "SetTrafficOverviewEnabled io e er e2 n track_err enabled s =
     (case isOverviewEnabled io s of
        Inl err \<Rightarrow> (Inl err, s)
      | Inr currentEnabled \<Rightarrow>
          (if currentEnabled = enabled
           then (if enabled then resumeTrafficOverviewAccounting io e s else (Inr (), s))
           else case (if enabled then resumeTrafficOverviewAccounting io e s else pauseTrafficOverviewAccounting io e s) of
                  (Inl err, s1) \<Rightarrow> (Inl err, s1)
                | (Inr _, s1) \<Rightarrow>
                    (case set_err io trafficOverviewEnabledKey of
                       Some err \<Rightarrow> (Inl err, s1)
                     | None \<Rightarrow>
                         (let s2 = markTrafficOverviewCapReconcileNeeded (s1\<lparr>enabled_row := enabled\<rparr>)
                          in if \<not> enabled then (Inr (), snd (cleanupTrafficCapRules e n s2))
                             else if \<not> on_linux e \<or> \<not> trusted_manifest e then (Inr (), s2)
                             else case track_err of
                                    Some err \<Rightarrow> (Inl err, s2)
                                  | None \<Rightarrow> (Inr (), snd (ReconcileTrafficCap io er e2 n s2))))))"

end
