(* ===== verification/Overview_Cache.thy ===== *)
theory Overview_Cache
  imports Traffic_Cap
begin

text \<open>
  The write-back caches of the traffic overview behave as one variable each: the interface is the locale \<open>write_back\<close>,
  and both caches are instances of it.
\<close>

section \<open>The interface\<close>

datatype ('o, 'v) cache_event = Stage 'o 'v | Flush 'o

fun last_staged :: "('v \<Rightarrow> 'v) \<Rightarrow> 'v \<Rightarrow> ('o, 'v) cache_event list \<Rightarrow> 'v" where
  "last_staged norm v [] = v"
| "last_staged norm v (Stage x w # evs) = last_staged norm (norm w) evs"
| "last_staged norm v (Flush x # evs) = last_staged norm v evs"

fun staged_values :: "('v \<Rightarrow> 'v) \<Rightarrow> ('o, 'v) cache_event list \<Rightarrow> 'v set" where
  "staged_values norm [] = {}"
| "staged_values norm (Stage x w # evs) = insert (norm w) (staged_values norm evs)"
| "staged_values norm (Flush x # evs) = staged_values norm evs"

fun run_cache :: "('o \<Rightarrow> 'v \<Rightarrow> 's \<Rightarrow> 's) \<Rightarrow> ('o \<Rightarrow> 's \<Rightarrow> 's) \<Rightarrow> ('o, 'v) cache_event list \<Rightarrow> 's \<Rightarrow> 's" where
  "run_cache stage flush [] s = s"
| "run_cache stage flush (Stage x v # evs) s = run_cache stage flush evs (stage x v s)"
| "run_cache stage flush (Flush x # evs) s = run_cache stage flush evs (flush x s)"

locale write_back =
  fixes loaded :: "'s \<Rightarrow> bool" and view :: "'s \<Rightarrow> 'v" and row :: "'s \<Rightarrow> 'v stored"
    and stage :: "'o \<Rightarrow> 'v \<Rightarrow> 's \<Rightarrow> 's" and flush :: "'o \<Rightarrow> 's \<Rightarrow> 's" and norm :: "'v \<Rightarrow> 'v"
  assumes loaded_stage: "loaded s \<Longrightarrow> loaded (stage x v s)"
    and loaded_flush: "loaded s \<Longrightarrow> loaded (flush x s)"
    and view_stage: "loaded s \<Longrightarrow> view (stage x v s) = norm v"
    and view_flush: "loaded s \<Longrightarrow> view (flush x s) = view s"
    and row_stage: "loaded s \<Longrightarrow> row (stage x v s) \<in> {row s, Stored (norm v)}"
    and row_flush: "loaded s \<Longrightarrow> row (flush x s) \<in> {row s, Stored (view s)}"
begin

lemma run_loaded: "loaded s \<Longrightarrow> loaded (run_cache stage flush evs s)"
proof (induction evs arbitrary: s)
  case (Cons ev evs)
  then show ?case by (cases ev) (simp_all add: loaded_stage loaded_flush)
qed simp

lemma run_view: "loaded s \<Longrightarrow> view (run_cache stage flush evs s) = last_staged norm (view s) evs"
proof (induction evs arbitrary: s)
  case (Cons ev evs)
  then show ?case by (cases ev) (simp_all add: loaded_stage loaded_flush view_stage view_flush)
qed simp

lemma run_row:
  "loaded s \<Longrightarrow> row (run_cache stage flush evs s) \<in> insert (row s) (Stored ` insert (view s) (staged_values norm evs))"
proof (induction evs arbitrary: s)
  case (Cons ev evs)
  show ?case
  proof (cases ev)
    case (Stage x v)
    then show ?thesis using Cons.IH [of "stage x v s"] Cons.prems row_stage [of s x v] view_stage [of s x v] loaded_stage [of s x v] by auto
  next
    case (Flush x)
    then show ?thesis using Cons.IH [of "flush x s"] Cons.prems row_flush [of s x] view_flush [of s x] loaded_flush [of s x] by auto
  qed
qed simp

end

section \<open>The cached runtime state\<close>

definition visible_state :: "overview_sys \<Rightarrow> trafficOverviewRuntimeState" where
  "visible_state s = cached_value zero_state (state_cache s)"

lemma load_loaded: "Loaded (state_cache s) \<Longrightarrow> loadRuntimeState io s = (Inr (visible_state s), s)"
  by (simp add: loadRuntimeState_def visible_state_def)

lemma maxInt64_idem: "maxInt64 (maxInt64 x 0) 0 = maxInt64 x 0"
  by (rule maxInt64_simps(3))

lemma normalizeResetDay_idem: "normalizeResetDay (normalizeResetDay d) = normalizeResetDay d"
  by (simp add: normalizeResetDay_def)

lemma normalize_state_idem [simp]:
  "normalizeTrafficOverviewRuntimeState (normalizeTrafficOverviewRuntimeState st) = normalizeTrafficOverviewRuntimeState st"
  by (simp add: normalizeTrafficOverviewRuntimeState_def normalizeResetDay_idem)

lemma save_state_view:
  assumes "saveRuntimeState io clk st s = (r, s')" "Loaded (state_cache s)"
  shows "Loaded (state_cache s')"
    "visible_state s' = (if r = Inr () \<and> \<not> HasPending (state_cache s) then normalizeTrafficOverviewRuntimeState st else visible_state s)"
    "state_row s' = (if r = Inr () then Stored (normalizeTrafficOverviewRuntimeState st) else state_row s)"
  using assms by (auto simp: saveRuntimeState_def visible_state_def cached_value_def Let_def split: option.splits)

lemma flush_state_view:
  assumes "flushRuntimeState io clk s = (r, s')" "Loaded (state_cache s)"
  shows "Loaded (state_cache s')" "visible_state s' = visible_state s"
    "state_row s' \<in> {state_row s, Stored (normalizeTrafficOverviewRuntimeState (visible_state s))}"
    "r = Inr () \<Longrightarrow> \<not> HasPending (state_cache s')
       \<or> Pending (state_cache s) \<noteq> normalizeTrafficOverviewRuntimeState (Pending (state_cache s))"
  using assms by (auto simp: flushRuntimeState_def saveRuntimeState_def visible_state_def cached_value_def Let_def
      split: option.splits if_splits)

definition stage_state :: "overview_io \<times> int \<times> bool \<Rightarrow> trafficOverviewRuntimeState \<Rightarrow> overview_sys \<Rightarrow> overview_sys" where
  "stage_state x st s = (case x of (io, clk, force) \<Rightarrow> snd (stageRuntimeState io clk st force s))"

definition flush_state :: "overview_io \<times> int \<times> bool \<Rightarrow> overview_sys \<Rightarrow> overview_sys" where
  "flush_state x s = (case x of (io, clk, force) \<Rightarrow> snd (flushRuntimeState io clk s))"

lemma stage_state_view:
  assumes "stageRuntimeState io clk st force s = (r, s')" "Loaded (state_cache s)"
  shows "Loaded (state_cache s')" "visible_state s' = normalizeTrafficOverviewRuntimeState st"
    "state_row s' \<in> {state_row s, Stored (normalizeTrafficOverviewRuntimeState st)}"
proof -
  let ?n = "normalizeTrafficOverviewRuntimeState st"
  let ?s = "s\<lparr>state_cache := (state_cache s)\<lparr>Pending := ?n, HasPending := True\<rparr>\<rparr>"
  have l: "Loaded (state_cache ?s)" and v: "visible_state ?s = ?n" using assms(2) by (simp_all add: visible_state_def cached_value_def)
  consider "s' = ?s" | r' where "flushRuntimeState io clk ?s = (r', s')"
    using assms by (auto simp: stageRuntimeState_def Let_def split: if_splits)
  then have "Loaded (state_cache s') \<and> visible_state s' = ?n \<and> state_row s' \<in> {state_row s, Stored ?n}"
  proof cases
    case 1
    then show ?thesis using l v by simp
  next
    case 2
    show ?thesis using flush_state_view(1-3) [OF 2 l] v by simp
  qed
  then show "Loaded (state_cache s')" "visible_state s' = ?n" "state_row s' \<in> {state_row s, Stored ?n}" by blast+
qed

text \<open>What the cache shows is a normalised state, and the row holds it unless it is pending.\<close>

definition row_state :: "trafficOverviewRuntimeState stored \<Rightarrow> trafficOverviewRuntimeState option" where
  "row_state r = (case r of Blank \<Rightarrow> Some (normalizeTrafficOverviewRuntimeState zero_state)
                          | Stored v \<Rightarrow> Some (normalizeTrafficOverviewRuntimeState v) | Garbled e \<Rightarrow> None)"

definition clean_state :: "overview_sys \<Rightarrow> bool" where
  "clean_state s \<longleftrightarrow> Loaded (state_cache s) \<and> normalizeTrafficOverviewRuntimeState (visible_state s) = visible_state s
     \<and> (HasPending (state_cache s) \<or> row_state (state_row s) = Some (visible_state s))"

lemma load_clean:
  assumes "loadRuntimeState io s = (Inr st, s')" "\<not> Loaded (state_cache s)"
  shows "clean_state s'" "visible_state s' = st" "row_state (state_row s) = Some st"
  using assms by (auto simp: loadRuntimeState_def clean_state_def visible_state_def cached_value_def row_state_def Let_def
      split: option.splits stored.splits)

lemma flush_clean:
  assumes "flushRuntimeState io clk s = (r, s')" "clean_state s"
  shows "clean_state s'" "r = Inr () \<Longrightarrow> \<not> HasPending (state_cache s')"
  using assms by (auto simp: flushRuntimeState_def saveRuntimeState_def visible_state_def cached_value_def clean_state_def
      row_state_def Let_def split: option.splits if_splits)

lemma stage_clean:
  assumes "stageRuntimeState io clk st force s = (r, s')" "clean_state s"
  shows "clean_state s'"
proof -
  let ?s = "s\<lparr>state_cache := (state_cache s)\<lparr>Pending := normalizeTrafficOverviewRuntimeState st, HasPending := True\<rparr>\<rparr>"
  have l: "clean_state ?s" using assms(2) by (simp add: clean_state_def visible_state_def cached_value_def)
  consider "s' = ?s" | r' where "flushRuntimeState io clk ?s = (r', s')"
    using assms by (auto simp: stageRuntimeState_def clean_state_def Let_def split: if_splits)
  then show ?thesis by cases (use l flush_clean(1) [OF _ l] in auto)
qed

interpretation runtime_cache: write_back clean_state visible_state state_row stage_state flush_state normalizeTrafficOverviewRuntimeState
proof
  fix s :: overview_sys and x :: "overview_io \<times> int \<times> bool" and v
  assume c: "clean_state s"
  obtain io clk f where x: "x = (io, clk, f)" by (cases x)
  obtain r where st: "stageRuntimeState io clk v f s = (r, stage_state x v s)" by (simp add: stage_state_def x prod_eq_iff)
  obtain r' where fl: "flushRuntimeState io clk s = (r', flush_state x s)" by (simp add: flush_state_def x prod_eq_iff)
  have l: "Loaded (state_cache s)" using c by (simp add: clean_state_def)
  show "clean_state (stage_state x v s)" "clean_state (flush_state x s)" by (rule stage_clean [OF st c] flush_clean(1) [OF fl c])+
  show "visible_state (stage_state x v s) = normalizeTrafficOverviewRuntimeState v"
    "state_row (stage_state x v s) \<in> {state_row s, Stored (normalizeTrafficOverviewRuntimeState v)}"
    by (rule stage_state_view [OF st l])+
  show "visible_state (flush_state x s) = visible_state s" "state_row (flush_state x s) \<in> {state_row s, Stored (visible_state s)}"
    using flush_state_view(2,3) [OF fl l] c by (simp_all add: clean_state_def)
qed

section \<open>The cached snapshot\<close>

definition visible_snapshot :: "overview_sys \<Rightarrow> trafficOverviewSnapshot" where
  "visible_snapshot s = cached_value zero_snapshot (snapshot_cache s)"

definition clean_snapshot :: "overview_sys \<Rightarrow> bool" where
  "clean_snapshot s \<longleftrightarrow> Loaded (snapshot_cache s)"

definition stage_snapshot :: "overview_io \<times> int \<times> bool \<Rightarrow> trafficOverviewSnapshot \<Rightarrow> overview_sys \<Rightarrow> overview_sys" where
  "stage_snapshot x sn s = (case x of (io, clk, force) \<Rightarrow> snd (stageOverviewSnapshot io clk sn force s))"

definition flush_snapshot :: "overview_io \<times> int \<times> bool \<Rightarrow> overview_sys \<Rightarrow> overview_sys" where
  "flush_snapshot x s = (case x of (io, clk, force) \<Rightarrow> snd (flushOverviewSnapshot io clk force s))"

lemma flush_snapshot_view:
  assumes "flushOverviewSnapshot io clk force s = (r, s')" "Loaded (snapshot_cache s)"
  shows "Loaded (snapshot_cache s')" "visible_snapshot s' = visible_snapshot s"
    "snapshot_row s' \<in> {snapshot_row s, Stored (visible_snapshot s)}"
  using assms by (auto simp: flushOverviewSnapshot_def saveOverviewSnapshot_def loadSnapshotCacheLocked_def
      visible_snapshot_def cached_value_def Let_def split: option.splits if_splits)

lemma stage_snapshot_view:
  assumes "stageOverviewSnapshot io clk sn force s = (r, s')" "Loaded (snapshot_cache s)"
  shows "Loaded (snapshot_cache s')" "visible_snapshot s' = normalizeOverviewSnapshot sn"
    "snapshot_row s' \<in> {snapshot_row s, Stored (normalizeOverviewSnapshot sn)}"
proof -
  let ?n = "normalizeOverviewSnapshot sn"
  let ?s = "s\<lparr>snapshot_cache := (snapshot_cache s)\<lparr>Pending := ?n, HasPending := True\<rparr>\<rparr>"
  have l: "Loaded (snapshot_cache ?s)" and v: "visible_snapshot ?s = ?n"
    using assms(2) by (simp_all add: visible_snapshot_def cached_value_def)
  consider "s' = ?s" | r' where "flushOverviewSnapshot io clk force ?s = (r', s')"
    using assms by (auto simp: stageOverviewSnapshot_def loadSnapshotCacheLocked_def Let_def split: if_splits)
  then have "Loaded (snapshot_cache s') \<and> visible_snapshot s' = ?n \<and> snapshot_row s' \<in> {snapshot_row s, Stored ?n}"
  proof cases
    case 1
    then show ?thesis using l v by simp
  next
    case 2
    show ?thesis using flush_snapshot_view [OF 2 l] v by simp
  qed
  then show "Loaded (snapshot_cache s')" "visible_snapshot s' = ?n" "snapshot_row s' \<in> {snapshot_row s, Stored ?n}" by blast+
qed

interpretation display_cache: write_back clean_snapshot visible_snapshot snapshot_row stage_snapshot flush_snapshot normalizeOverviewSnapshot
proof
  fix s :: overview_sys and x :: "overview_io \<times> int \<times> bool" and v
  assume c: "clean_snapshot s"
  then have l: "Loaded (snapshot_cache s)" by (simp add: clean_snapshot_def)
  obtain io clk f where x: "x = (io, clk, f)" by (cases x)
  obtain r where st: "stageOverviewSnapshot io clk v f s = (r, stage_snapshot x v s)" by (simp add: stage_snapshot_def x prod_eq_iff)
  obtain r' where fl: "flushOverviewSnapshot io clk f s = (r', flush_snapshot x s)" by (simp add: flush_snapshot_def x prod_eq_iff)
  show "clean_snapshot (stage_snapshot x v s)" "clean_snapshot (flush_snapshot x s)"
    using stage_snapshot_view(1) [OF st l] flush_snapshot_view(1) [OF fl l] by (simp_all add: clean_snapshot_def)
  show "visible_snapshot (stage_snapshot x v s) = normalizeOverviewSnapshot v"
    "snapshot_row (stage_snapshot x v s) \<in> {snapshot_row s, Stored (normalizeOverviewSnapshot v)}"
    by (rule stage_snapshot_view [OF st l])+
  show "visible_snapshot (flush_snapshot x s) = visible_snapshot s" "snapshot_row (flush_snapshot x s) \<in> {snapshot_row s, Stored (visible_snapshot s)}"
    by (rule flush_snapshot_view [OF fl l])+
qed

section \<open>One variable\<close>

text \<open>
  A start of the process, or another database: the hook of \<open>init\<close> forgets what is cached. \<open>empty_cache\<close> is the zero value.
\<close>

definition empty_cache :: "'v \<Rightarrow> 'v write_back_cache" where
  "empty_cache v = \<lparr>Loaded = False, HasPersisted = False, Persisted = v, HasPending = False, Pending = v, LastFlushAt = None\<rparr>"

definition reset_hook :: "overview_sys \<Rightarrow> overview_sys" where
  "reset_hook s = s\<lparr>state_cache := empty_cache zero_state, snapshot_cache := empty_cache zero_snapshot,
                   cap_checked := False, cap_evaluated := None\<rparr>"

lemma load_after_hook:
  "row_state (state_row s) = Some st \<Longrightarrow> get_err io trafficOverviewStateKey = None \<Longrightarrow> fst (loadRuntimeState io (reset_hook s)) = Inr st"
  by (auto simp: loadRuntimeState_def reset_hook_def empty_cache_def row_state_def Let_def split: stored.splits)

text \<open>
  C29: the cached runtime state is one variable. Starting from a loaded state, after any sequence of staging and flushing
  with whatever failures of the settings table, the next load shows the state staged last (normalised); the row
  holds a state that was there before or was staged; and once a flush succeeds, a restarted process loads exactly
  that last state.
\<close>

theorem staged_state_is_kept:
  assumes "clean_state s" "s1 = run_cache stage_state flush_state evs s"
    "flushRuntimeState io clk s1 = (Inr (), s2)" "get_err io' trafficOverviewStateKey = None"
  shows "fst (loadRuntimeState io0 s1) = Inr (last_staged normalizeTrafficOverviewRuntimeState (visible_state s) evs)
     \<and> state_row s1 \<in> insert (state_row s) (Stored ` insert (visible_state s) (staged_values normalizeTrafficOverviewRuntimeState evs))
     \<and> fst (loadRuntimeState io' (reset_hook s2)) = Inr (last_staged normalizeTrafficOverviewRuntimeState (visible_state s) evs)"
proof -
  note run = runtime_cache.run_loaded [OF assms(1), of evs, folded assms(2)] runtime_cache.run_view [OF assms(1), of evs, folded assms(2)]
    runtime_cache.run_row [OF assms(1), of evs, folded assms(2)]
  have l: "Loaded (state_cache s1)" using run(1) by (simp add: clean_state_def)
  have "row_state (state_row s2) = Some (visible_state s2)" using flush_clean [OF assms(3) run(1)] by (simp add: clean_state_def)
  then have "fst (loadRuntimeState io' (reset_hook s2)) = Inr (visible_state s1)"
    using load_after_hook assms(4) flush_state_view(2) [OF assms(3) l] by simp
  then show ?thesis using load_loaded [OF l, of io0] run(2,3) by simp
qed

definition ok_io :: overview_io where
  "ok_io = \<lparr>get_err = (\<lambda>_. None), set_err = (\<lambda>_. None)\<rparr>"

definition failing_io :: overview_io where
  "failing_io = \<lparr>get_err = (\<lambda>_. None), set_err = (\<lambda>_. Some ''database is locked'')\<rparr>"

definition sample_state :: "int \<Rightarrow> string \<Rightarrow> trafficOverviewRuntimeState" where
  "sample_state d tag = zero_state\<lparr>Interface := ''eth0'', ManualBaseUp := 100, ManualBaseDown := 200, PeriodBaseUp := 400, PeriodBaseDown := 500,
     PeriodTag := tag, PeriodResetDay := d,
     KernelOffsetUp := 700, KernelOffsetDown := 1300, LastKernelUp := 300, LastKernelDown := 700\<rparr>"

definition sample_sys :: "bool \<Rightarrow> trafficOverviewRuntimeState \<Rightarrow> overview_sys" where
  "sample_sys p st =
     \<lparr>state_row = Stored st, snapshot_row = Blank, pause_row = Blank, cap_row = Blank, enabled_row = True,
      state_cache = \<lparr>Loaded = True, HasPersisted = True, Persisted = st, HasPending = p, Pending = st, LastFlushAt = Some 0\<rparr>,
      snapshot_cache = empty_cache zero_snapshot, cap_checked = False, cap_evaluated = None, cap_rules = []\<rparr>"

lemma sample_sys_simps [simp]: "visible_state (sample_sys p st) = st" "Loaded (state_cache (sample_sys p st))"
  "HasPending (state_cache (sample_sys p st)) = p" "enabled_row (sample_sys p st)"
  by (simp_all add: sample_sys_def visible_state_def cached_value_def)

theorem staged_state_is_kept_witness:
  "fst (loadRuntimeState ok_io (reset_hook (snd (flushRuntimeState ok_io 3
       (run_cache stage_state flush_state [Stage (failing_io, 1, True) zero_state, Stage (ok_io, 2, False) (zero_state\<lparr>LastKernelUp := 7\<rparr>)]
          (sample_sys False (sample_state 0 [])))))))
     = Inr (zero_state\<lparr>LastKernelUp := 7\<rparr>)"
proof -
  let ?evs = "[Stage (failing_io, 1, True) zero_state, Stage (ok_io, 2, False) (zero_state\<lparr>LastKernelUp := 7\<rparr>)]"
  let ?s1 = "run_cache stage_state flush_state ?evs (sample_sys False (sample_state 0 []))"
  have c: "clean_state (sample_sys False (sample_state 0 []))" by code_simp
  have f: "flushRuntimeState ok_io 3 ?s1 = (Inr (), snd (flushRuntimeState ok_io 3 ?s1))"
  proof -
    have "fst (flushRuntimeState ok_io 3 ?s1) = Inr ()" by code_simp
    then show ?thesis by (simp add: prod_eq_iff)
  qed
  have g: "get_err ok_io trafficOverviewStateKey = None" by (simp add: ok_io_def)
  have n: "normalizeTrafficOverviewRuntimeState (zero_state\<lparr>LastKernelUp := 7\<rparr>) = zero_state\<lparr>LastKernelUp := 7\<rparr>" by code_simp
  show ?thesis using staged_state_is_kept [OF c refl f g, of ok_io] n by simp
qed

end
