(* ===== verification/Overview_Guarantees.thy ===== *)
theory Overview_Guarantees
  imports Overview_Totals Overview_Cache
begin

text \<open>
  What the operations of the traffic overview guarantee: the usage of a period, resets, pausing and resuming.
\<close>

section \<open>States between two readings\<close>

definition total_up :: "trafficOverviewRuntimeState \<Rightarrow> int" where
  "total_up st = KernelOffsetUp st + LastKernelUp st"

definition total_down :: "trafficOverviewRuntimeState \<Rightarrow> int" where
  "total_down st = KernelOffsetDown st + LastKernelDown st"

definition overview_state_ok :: "string \<Rightarrow> trafficOverviewRuntimeState \<Rightarrow> bool" where
  "overview_state_ok joined st \<longleftrightarrow>
     \<not> iface_changed st joined
     \<and> 0 \<le> KernelOffsetUp st \<and> 0 \<le> LastKernelUp st \<and> 0 \<le> KernelOffsetDown st \<and> 0 \<le> LastKernelDown st
     \<and> 0 \<le> PeriodBaseUp st \<and> PeriodBaseUp st \<le> total_up st \<and> 0 \<le> PeriodBaseDown st \<and> PeriodBaseDown st \<le> total_down st
     \<and> 0 \<le> ManualBaseUp st \<and> ManualBaseUp st \<le> total_up st \<and> 0 \<le> ManualBaseDown st \<and> ManualBaseDown st \<le> total_down st"

text \<open>The totals of the meter for the readings of \<open>e\<close>, when the kernel's counters can be read.\<close>

definition readings :: "overview_env \<Rightarrow> int \<times> int \<Rightarrow> trafficOverviewRuntimeState \<Rightarrow> (int \<times> int \<times> int \<times> int) option" where
  "readings e vnstat st =
     (case loadKernelTrafficTotals (io_counters e) (fst (selected e)) of
        None \<Rightarrow> None
      | Some (ku, kd) \<Rightarrow> Some (meter (total_up st) (LastKernelUp st) (max (fst vnstat) 0) ku,
                              meter (total_down st) (LastKernelDown st) (max (snd vnstat) 0) kd, ku, kd))"

definition metered_state :: "int \<Rightarrow> int \<Rightarrow> int \<Rightarrow> int \<Rightarrow> trafficOverviewRuntimeState \<Rightarrow> trafficOverviewRuntimeState" where
  "metered_state up down ku kd st =
     st\<lparr>KernelOffsetUp := up - ku, KernelOffsetDown := down - kd, LastKernelUp := ku, LastKernelDown := kd\<rparr>"

lemma kernel_nonneg: "loadKernelTrafficTotals c ifs = Some (ku, kd) \<Longrightarrow> 0 \<le> ku \<and> 0 \<le> kd"
  by (auto simp: loadKernelTrafficTotals_def uint64ToSafeInt64_def max_int64_def sum_uint64_def Let_def split: if_splits sum.splits)

lemma reconcile_unchanged:
  "reconcileKernelRealtimeCounter off prev ch v k = (False, current, off', prev') \<Longrightarrow> off' = off \<and> prev' = prev"
  by (auto simp: reconcileKernelRealtimeCounter_def Let_def split: if_splits)

lemma derive_unchanged:
  assumes "deriveCurrentAlltimeTotals counters st ifs vu vd = (up, down, source, False, st')"
  shows "st' = st"
proof (cases "loadKernelTrafficTotals counters ifs")
  case (Some k)
  obtain ku kd where k: "k = (ku, kd)" by fastforce
  let ?ch = "iface_changed st (joinSortedInterfaces ifs)"
  obtain c1 u1 o1 p1 where r1: "reconcileKernelRealtimeCounter (KernelOffsetUp st) (LastKernelUp st) ?ch (maxInt64 vu 0) ku = (c1, u1, o1, p1)"
    by (metis prod_cases4)
  obtain c2 u2 o2 p2 where r2: "reconcileKernelRealtimeCounter (KernelOffsetDown st) (LastKernelDown st) ?ch (maxInt64 vd 0) kd = (c2, u2, o2, p2)"
    by (metis prod_cases4)
  have "\<not> c1" "\<not> c2" "st' = st\<lparr>KernelOffsetUp := o1, KernelOffsetDown := o2, LastKernelUp := p1, LastKernelDown := p2\<rparr>"
    using assms by (simp_all add: deriveCurrentAlltimeTotals_def Let_def Some k r1 r2)
  then show ?thesis using reconcile_unchanged r1 r2 by simp
qed (use assms in \<open>simp add: deriveCurrentAlltimeTotals_def Let_def\<close>)

lemma derive_metered:
  assumes ok: "overview_state_ok (joinSortedInterfaces (fst (selected e))) st"
    and r: "readings e vnstat st = Some (up, down, ku, kd)" and fit: "up \<le> max_int64" "down \<le> max_int64"
  shows "\<exists>changed. deriveCurrentAlltimeTotals (io_counters e) st (fst (selected e)) (fst vnstat) (snd vnstat)
     = (up, down, ''vnstat+kernel'', changed, metered_state up down ku kd st)"
    and "total_up st \<le> up" "total_down st \<le> down" "ku \<le> up" "kd \<le> down" "0 \<le> ku" "0 \<le> kd"
proof -
  have k: "loadKernelTrafficTotals (io_counters e) (fst (selected e)) = Some (ku, kd)"
    and up: "up = meter (KernelOffsetUp st + LastKernelUp st) (LastKernelUp st) (max (fst vnstat) 0) ku"
    and down: "down = meter (KernelOffsetDown st + LastKernelDown st) (LastKernelDown st) (max (snd vnstat) 0) kd"
    using r by (auto simp: readings_def total_up_def total_down_def split: option.splits)
  note n = kernel_nonneg [OF k]
  have o: "0 \<le> KernelOffsetUp st" "0 \<le> LastKernelUp st" "0 \<le> KernelOffsetDown st" "0 \<le> LastKernelDown st"
    "\<not> iface_changed st (joinSortedInterfaces (fst (selected e)))"
    using ok by (simp_all add: overview_state_ok_def)
  obtain c1 where c1: "reconcileKernelRealtimeCounter (KernelOffsetUp st) (LastKernelUp st) False (max (fst vnstat) 0) ku = (c1, up, up - ku, ku)"
    using reconcile_meter [OF o(1,2), of "max (fst vnstat) 0" ku] n fit(1) up by auto
  obtain c2 where c2: "reconcileKernelRealtimeCounter (KernelOffsetDown st) (LastKernelDown st) False (max (snd vnstat) 0) kd = (c2, down, down - kd, kd)"
    using reconcile_meter [OF o(3,4), of "max (snd vnstat) 0" kd] n fit(2) down by auto
  show "\<exists>changed. deriveCurrentAlltimeTotals (io_counters e) st (fst (selected e)) (fst vnstat) (snd vnstat)
     = (up, down, ''vnstat+kernel'', changed, metered_state up down ku kd st)"
    using o(5) by (simp add: deriveCurrentAlltimeTotals_def Let_def k maxInt64_max c1 c2 metered_state_def)
  show "total_up st \<le> up" "total_down st \<le> down" unfolding total_up_def total_down_def up down by (rule meter_bounds)+
  show "ku \<le> up" "kd \<le> down" unfolding up down by (rule meter_above_counter [OF o(1)] meter_above_counter [OF o(3)])+
  show "0 \<le> ku" "0 \<le> kd" using n by blast+
qed

lemma metered_totals [simp]: "total_up (metered_state up down ku kd st) = up" "total_down (metered_state up down ku kd st) = down"
  by (simp_all add: total_up_def total_down_def metered_state_def)

lemma metered_ok:
  assumes "overview_state_ok joined st" "total_up st \<le> up" "total_down st \<le> down" "ku \<le> up" "kd \<le> down" "0 \<le> ku" "0 \<le> kd"
  shows "overview_state_ok joined (metered_state up down ku kd st)"
  using assms unfolding overview_state_ok_def metered_totals by (auto simp: metered_state_def iface_changed_def)

lemma normalize_bases_idle:
  assumes "overview_state_ok joined st" "total_up st = up" "total_down st = down"
  shows "normalizeStateForTotals now st joined up down = (False, st)"
  using assms by (auto simp: overview_state_ok_def normalizeStateForTotals_def maxInt64_max Let_def)

text \<open>Settling: what a reading does to a state that is in order, up to the period.\<close>

lemma settle_metered:
  assumes ok: "overview_state_ok (joinSortedInterfaces (fst (selected e))) st"
    and r: "readings e vnstat st = Some (up, down, ku, kd)" and fit: "up \<le> max_int64" "down \<le> max_int64"
    and p: "applyPeriodResetIfNeeded (panel_loc e) (unix e) (metered_state up down ku kd st) d up down = (pc, st')"
  shows "\<exists>changed. settle_totals e d vnstat st = (up, down, ''vnstat+kernel'', changed \<or> pc, pc, st') \<and> (\<not> changed \<longrightarrow> metered_state up down ku kd st = st)"
proof -
  note m = derive_metered [OF ok r fit]
  obtain c where c: "deriveCurrentAlltimeTotals (io_counters e) st (fst (selected e)) (fst vnstat) (snd vnstat)
     = (up, down, ''vnstat+kernel'', c, metered_state up down ku kd st)" using m(1) by blast
  have "normalizeStateForTotals (unix e) (metered_state up down ku kd st) (joinSortedInterfaces (fst (selected e))) up down
      = (False, metered_state up down ku kd st)"
    by (rule normalize_bases_idle [OF metered_ok [OF ok m(2-7)]]) simp_all
  then have s: "settle_totals e d vnstat st = (up, down, ''vnstat+kernel'', c \<or> pc, pc, st')"
    by (simp add: settle_totals_def Let_def c p)
  have "\<not> c \<longrightarrow> metered_state up down ku kd st = st" by (cases c) (use c derive_unchanged in auto)
  then show ?thesis using s by blast
qed

section \<open>The usage of a period\<close>

definition period_moved :: "overview_env \<Rightarrow> int \<Rightarrow> int \<Rightarrow> int \<Rightarrow> trafficOverviewRuntimeState \<Rightarrow> trafficOverviewRuntimeState" where
  "period_moved e d up down st =
     st\<lparr>PeriodTag := computePeriodTag d (panel_loc e) (unix e), PeriodBaseUp := max up 0, PeriodBaseDown := max down 0,
        LastPeriodReset := unix e\<rparr>"

lemma apply_period:
  assumes "regular_location (panel_loc e)" "1 \<le> d" "d \<le> 31" "PeriodResetDay st = d"
    "PeriodTag st = computePeriodTag d (panel_loc e) t0" "t0 \<le> unix e"
    "latestClientMonthlyResetBoundary d (panel_loc e) t0 = Some b0" "0 \<le> b0"
  shows "applyPeriodResetIfNeeded (panel_loc e) (unix e) st d up down =
     (if shouldResetClientTrafficMonthly t0 d (panel_loc e) (unix e) then (True, period_moved e d up down st) else (False, st))"
  using regular_location.period_tag_eq [OF assms(1-3,6-8)] assms(2-5)
  by (auto simp: applyPeriodResetIfNeeded_def normalizeResetDay_id Let_def trim_period_tag period_moved_def maxInt64_max)

lemma period_moved_ok:
  assumes "overview_state_ok joined st" "total_up st = up" "total_down st = down"
  shows "overview_state_ok joined (period_moved e d up down st)" "total_up (period_moved e d up down st) = up"
    "total_down (period_moved e d up down st) = down"
proof -
  have t: "total_up (period_moved e d up down st) = total_up st" "total_down (period_moved e d up down st) = total_down st"
    by (simp_all add: total_up_def total_down_def period_moved_def)
  show "total_up (period_moved e d up down st) = up" "total_down (period_moved e d up down st) = down" using t assms by simp_all
  show "overview_state_ok joined (period_moved e d up down st)"
    using assms unfolding overview_state_ok_def t by (auto simp: period_moved_def iface_changed_def)
qed

lemma normalize_fields:
  assumes "overview_state_ok joined st"
  shows "overview_state_ok joined (normalizeTrafficOverviewRuntimeState st)"
    "total_up (normalizeTrafficOverviewRuntimeState st) = total_up st" "total_down (normalizeTrafficOverviewRuntimeState st) = total_down st"
    "PeriodBaseUp (normalizeTrafficOverviewRuntimeState st) = PeriodBaseUp st"
    "PeriodBaseDown (normalizeTrafficOverviewRuntimeState st) = PeriodBaseDown st"
    "ManualBaseUp (normalizeTrafficOverviewRuntimeState st) = ManualBaseUp st"
    "ManualBaseDown (normalizeTrafficOverviewRuntimeState st) = ManualBaseDown st"
    "PeriodTag (normalizeTrafficOverviewRuntimeState st) = PeriodTag st"
    "PeriodResetDay (normalizeTrafficOverviewRuntimeState st) = normalizeResetDay (PeriodResetDay st)"
proof -
  have b: "0 \<le> KernelOffsetUp st" "0 \<le> LastKernelUp st" "0 \<le> KernelOffsetDown st" "0 \<le> LastKernelDown st"
    "0 \<le> PeriodBaseUp st" "0 \<le> PeriodBaseDown st" "0 \<le> ManualBaseUp st" "0 \<le> ManualBaseDown st"
    using assms by (simp_all add: overview_state_ok_def)
  show t: "total_up (normalizeTrafficOverviewRuntimeState st) = total_up st" "total_down (normalizeTrafficOverviewRuntimeState st) = total_down st"
    "PeriodBaseUp (normalizeTrafficOverviewRuntimeState st) = PeriodBaseUp st"
    "PeriodBaseDown (normalizeTrafficOverviewRuntimeState st) = PeriodBaseDown st"
    "ManualBaseUp (normalizeTrafficOverviewRuntimeState st) = ManualBaseUp st"
    "ManualBaseDown (normalizeTrafficOverviewRuntimeState st) = ManualBaseDown st"
    "PeriodTag (normalizeTrafficOverviewRuntimeState st) = PeriodTag st"
    "PeriodResetDay (normalizeTrafficOverviewRuntimeState st) = normalizeResetDay (PeriodResetDay st)"
    using b by (simp_all add: normalizeTrafficOverviewRuntimeState_def total_up_def total_down_def)
  show "overview_state_ok joined (normalizeTrafficOverviewRuntimeState st)"
    using assms b unfolding overview_state_ok_def t by (auto simp: normalizeTrafficOverviewRuntimeState_def iface_changed_def)
qed

text \<open>Storing a snapshot does not touch the runtime state.\<close>

lemma stage_snapshot_state: "state_cache (snd (stageOverviewSnapshot io clk sn force s)) = state_cache s"
  by (auto simp: stageOverviewSnapshot_def flushOverviewSnapshot_def saveOverviewSnapshot_def loadSnapshotCacheLocked_def Let_def
      split: option.splits stored.splits sum.splits prod.splits)

lemma load_makes_loaded:
  assumes "loadRuntimeState io s = (Inr st, s1)"
  shows "Loaded (state_cache s1)" "visible_state s1 = st"
proof -
  have "Loaded (state_cache s1) \<and> visible_state s1 = st"
  proof (cases "Loaded (state_cache s)")
    case True
    then show ?thesis using assms load_loaded [of s io] by auto
  next
    case False
    then show ?thesis using load_clean [OF assms] by (simp add: clean_state_def)
  qed
  then show "Loaded (state_cache s1)" "visible_state s1 = st" by blast+
qed

lemma usage_fields:
  assumes "overview_state_ok joined st" "total_up st = up" "total_down st = down" "up \<le> max_int64" "down \<le> max_int64"
  shows "sn_Up (usage_snapshot e src up down st) = up - PeriodBaseUp st" "sn_Down (usage_snapshot e src up down st) = down - PeriodBaseDown st"
    "sn_AccumUp (usage_snapshot e src up down st) = up - ManualBaseUp st"
    "sn_AccumDown (usage_snapshot e src up down st) = down - ManualBaseDown st"
  using assms unfolding overview_state_ok_def by (auto simp: usage_snapshot_def Let_def nonNegativeDiff_eq)

lemma running_overview_shows:
  assumes load: "loadRuntimeState io s = (Inr st0, s1)" and settle: "settle_totals e d vnstat st0 = (up, down, src, changed, pc, st)"
    and same: "\<not> changed \<Longrightarrow> st = st0"
    and run: "running_overview io e d vnstat ov s = (ov', s')"
  shows "tv_Up ov' = sn_Up (usage_snapshot e src up down st)" "tv_Down ov' = sn_Down (usage_snapshot e src up down st)"
    "tv_AccumUp ov' = sn_AccumUp (usage_snapshot e src up down st)" "tv_AccumDown ov' = sn_AccumDown (usage_snapshot e src up down st)"
    "tv_Available ov'" "Loaded (state_cache s')"
    "visible_state s' = (if changed then normalizeTrafficOverviewRuntimeState st else st0)"
proof -
  let ?s2 = "if changed then snd (stageRuntimeState io (clock e) st pc s1) else s1"
  let ?sn = "usage_snapshot e src up down st"
  define ov1 where "ov1 = ov\<lparr>tv_Source := src, tv_Up := sn_Up ?sn, tv_Down := sn_Down ?sn, tv_Total := sn_Total ?sn,
     tv_AccumUp := sn_AccumUp ?sn, tv_AccumDown := sn_AccumDown ?sn, tv_AccumTotal := sn_AccumTotal ?sn,
     tv_Available := True, tv_Status := ''running''\<rparr>"
  have r: "ov' = ov1" "s' = snd (stageOverviewSnapshot io (clock e) (snapshotFromOverview ov1) False ?s2)"
    using run unfolding running_overview_def load settle prod.case sum.case Let_def ov1_def [symmetric] by auto
  show "tv_Up ov' = sn_Up ?sn" "tv_Down ov' = sn_Down ?sn" "tv_AccumUp ov' = sn_AccumUp ?sn" "tv_AccumDown ov' = sn_AccumDown ?sn" "tv_Available ov'"
    by (simp_all add: r(1) ov1_def)
  note l = load_makes_loaded [OF load]
  have "Loaded (state_cache ?s2) \<and> visible_state ?s2 = (if changed then normalizeTrafficOverviewRuntimeState st else st0)"
    using l stage_state_view(1,2) [OF prod.collapse [symmetric] l(1)] by simp
  then show "Loaded (state_cache s')" "visible_state s' = (if changed then normalizeTrafficOverviewRuntimeState st else st0)"
    unfolding r(2) by (simp_all add: stage_snapshot_state visible_state_def del: if_split)
qed

text \<open>
  C21: the usage of a period is exact. A state in order, last settled at \<open>t0\<close> with the present reset day, and counters
  that can be read and fit in 64 bits: the overview then shows, for each direction, the new total less the
  base of the period, or zero when a boundary of the reset day lies between \<open>t0\<close> and now; the accumulated usage
  counts on across the boundary. The state left behind is in order again, holds the new totals, and is settled now,
  so the statement applies to the next reading.
\<close>

theorem period_usage_is_exact:
  assumes loc: "regular_location (panel_loc e)" "1 \<le> d" "d \<le> 31" "t0 \<le> unix e"
      "latestClientMonthlyResetBoundary d (panel_loc e) t0 = Some b0" "0 \<le> b0"
    and load: "loadRuntimeState io s = (Inr st, s1)"
    and ok: "overview_state_ok (joinSortedInterfaces (fst (selected e))) st"
    and settled: "PeriodResetDay st = d" "PeriodTag st = computePeriodTag d (panel_loc e) t0"
    and r: "readings e vnstat st = Some (up, down, ku, kd)" "up \<le> max_int64" "down \<le> max_int64"
    and run: "running_overview io e d vnstat ov s = (ov', s')"
  shows "(tv_Up ov', tv_Down ov') = (if shouldResetClientTrafficMonthly t0 d (panel_loc e) (unix e) then (0, 0)
                                     else (up - PeriodBaseUp st, down - PeriodBaseDown st))
     \<and> (tv_AccumUp ov', tv_AccumDown ov') = (up - ManualBaseUp st, down - ManualBaseDown st)
     \<and> (\<exists>st'. loadRuntimeState io s' = (Inr st', s') \<and> overview_state_ok (joinSortedInterfaces (fst (selected e))) st'
           \<and> (total_up st', total_down st') = (up, down)
           \<and> PeriodResetDay st' = d \<and> PeriodTag st' = computePeriodTag d (panel_loc e) (unix e))"
proof -
  let ?m = "metered_state up down ku kd st" and ?j = "joinSortedInterfaces (fst (selected e))"
  let ?due = "shouldResetClientTrafficMonthly t0 d (panel_loc e) (unix e)"
  define st3 where "st3 = (if ?due then period_moved e d up down ?m else ?m)"
  have mf: "PeriodResetDay ?m = d" "PeriodTag ?m = computePeriodTag d (panel_loc e) t0"
    "PeriodBaseUp ?m = PeriodBaseUp st" "PeriodBaseDown ?m = PeriodBaseDown st" "ManualBaseUp ?m = ManualBaseUp st" "ManualBaseDown ?m = ManualBaseDown st"
    using settled by (simp_all add: metered_state_def)
  have p: "applyPeriodResetIfNeeded (panel_loc e) (unix e) ?m d up down = (?due, st3)"
    using apply_period [OF loc(1-3) mf(1,2) loc(4-6)] by (simp add: st3_def)
  obtain c where settle: "settle_totals e d vnstat st = (up, down, ''vnstat+kernel'', c \<or> ?due, ?due, st3)" and same: "\<not> c \<longrightarrow> ?m = st"
    using settle_metered [OF ok r p] by blast
  note dm = derive_metered(2-7) [OF ok r]
  have mok: "overview_state_ok ?j ?m" by (rule metered_ok [OF ok dm])
  have ok3: "overview_state_ok ?j st3" "total_up st3 = up" "total_down st3 = down"
    using mok period_moved_ok [OF mok] by (simp_all add: st3_def)
  have tag: "PeriodTag st3 = computePeriodTag d (panel_loc e) (unix e)" "PeriodResetDay st3 = d"
    using mf regular_location.period_tag_eq(1) [OF loc] by (auto simp: st3_def period_moved_def)
  have eq: "st3 = st" if "\<not> (c \<or> ?due)" using that same by (simp add: st3_def)
  note shown = running_overview_shows [OF load settle eq run]
  have u: "tv_Up ov' = up - PeriodBaseUp st3" "tv_Down ov' = down - PeriodBaseDown st3"
    "tv_AccumUp ov' = up - ManualBaseUp st3" "tv_AccumDown ov' = down - ManualBaseDown st3"
    using shown(1-4) usage_fields [OF ok3 r(2,3)] by simp_all
  have base: "PeriodBaseUp st3 = (if ?due then up else PeriodBaseUp st)" "PeriodBaseDown st3 = (if ?due then down else PeriodBaseDown st)"
    "ManualBaseUp st3 = ManualBaseUp st" "ManualBaseDown st3 = ManualBaseDown st"
    using mf dm(3-6) by (simp_all add: st3_def period_moved_def)
  have v: "visible_state s' = normalizeTrafficOverviewRuntimeState st3 \<or> visible_state s' = st3"
    using shown(7) eq by (cases "c \<or> ?due") auto
  have "overview_state_ok ?j (visible_state s') \<and> (total_up (visible_state s'), total_down (visible_state s')) = (up, down)
      \<and> PeriodResetDay (visible_state s') = d \<and> PeriodTag (visible_state s') = computePeriodTag d (panel_loc e) (unix e)"
    using v normalize_fields [OF ok3(1)] ok3 tag normalizeResetDay_id [OF loc(2,3)] by auto
  moreover have "(tv_Up ov', tv_Down ov') = (if ?due then (0, 0) else (up - PeriodBaseUp st, down - PeriodBaseDown st))"
    "(tv_AccumUp ov', tv_AccumDown ov') = (up - ManualBaseUp st, down - ManualBaseDown st)"
    using u base by simp_all
  ultimately show ?thesis using load_loaded [OF shown(6)] by blast
qed

section \<open>Resets\<close>

text \<open>Reconciling an inactive cap leaves the caches alone.\<close>

lemma inactive_cap_caches:
  assumes "overview_cfg e = Inr cfg" "cfg_limit cfg \<le> 0" "\<not> isTrafficOverviewExpired (cfg_expiry cfg) (unix e)"
  shows "state_cache (snd (ReconcileTrafficCap io er e n s)) = state_cache s"
  using assms by (auto simp: ReconcileTrafficCap_def reconcileInactiveTrafficCap_def cleanupTrafficCapRules_def saveCapStateLocked_def Let_def
      split: option.splits sum.splits prod.splits if_splits)

lemma finish_reset_state:
  assumes "finish_reset io e er e2 n st sn s = (Inr (), s')" "Loaded (state_cache s)"
    and "overview_cfg e2 = Inr cfg" "cfg_limit cfg \<le> 0" "\<not> isTrafficOverviewExpired (cfg_expiry cfg) (unix e2)"
  shows "Loaded (state_cache s')"
    "visible_state s' = (if HasPending (state_cache s) then visible_state s else normalizeTrafficOverviewRuntimeState st)"
proof -
  obtain r s1 where r: "saveRuntimeState io (clock e) st s = (r, s1)" by fastforce
  have "r = Inr () \<and> state_cache s' = state_cache s1"
    using assms(1) inactive_cap_caches [OF assms(3-5)] stage_snapshot_state [of io "clock e" sn True s1]
    by (auto simp: finish_reset_def r markTrafficOverviewCapReconcileNeeded_def split: sum.splits prod.splits)
  then show "Loaded (state_cache s')"
    "visible_state s' = (if HasPending (state_cache s) then visible_state s else normalizeTrafficOverviewRuntimeState st)"
    using save_state_view [OF r assms(2)] by (auto simp: visible_state_def)
qed

text \<open>
  C39: a pending state undoes a reset. When a reading was staged and is not flushed yet (which is the rule between two
  flushes, half a minute apart), each of the three resets reports success, but the next load shows the staged state,
  with the old bases: \<open>saveRuntimeState\<close> keeps a pending state that differs from what it writes. The cap is
  inactive, so that nothing else runs after the reset.
\<close>

theorem pending_state_undoes_reset:
  assumes "reset \<in> {ResetAllTrafficOverviewStats, ResetPeriodTrafficOverviewStats, ResetTotalTrafficOverviewStats}"
    and "Loaded (state_cache s)" "HasPending (state_cache s)"
    and "overview_cfg e2 = Inr cfg" "cfg_limit cfg \<le> 0" "\<not> isTrafficOverviewExpired (cfg_expiry cfg) (unix e2)"
    and "reset io e er e2 n s = (Inr (), s')"
  shows "loadRuntimeState io' s' = (Inr (visible_state s), s')"
proof -
  note fin = finish_reset_state [OF _ assms(2,4-6), of io e er n _ _ s']
  have "Loaded (state_cache s') \<and> visible_state s' = visible_state s"
    using assms(1,2,3,7) fin
    by (auto simp: ResetAllTrafficOverviewStats_def ResetPeriodTrafficOverviewStats_def ResetTotalTrafficOverviewStats_def
        guarded_reset_def load_loaded split: sum.splits prod.splits if_splits)
  then show ?thesis using load_loaded by simp
qed

lemma settle_bases_metered:
  assumes ok: "overview_state_ok (joinSortedInterfaces (fst (selected e))) st"
    and r: "readings e vnstat st = Some (up, down, ku, kd)" "up \<le> max_int64" "down \<le> max_int64"
  shows "settle_bases e vnstat st = (up, down, ''vnstat+kernel'', metered_state up down ku kd st)"
proof -
  note m = derive_metered [OF ok r]
  obtain c where c: "deriveCurrentAlltimeTotals (io_counters e) st (fst (selected e)) (fst vnstat) (snd vnstat)
     = (up, down, ''vnstat+kernel'', c, metered_state up down ku kd st)" using m(1) by blast
  have "normalizeStateForTotals (unix e) (metered_state up down ku kd st) (joinSortedInterfaces (fst (selected e))) up down
      = (False, metered_state up down ku kd st)"
    by (rule normalize_bases_idle [OF metered_ok [OF ok m(2-7)]]) simp_all
  then show ?thesis by (simp add: settle_bases_def Let_def c)
qed

lemma reset_all_fields:
  assumes "overview_state_ok (joinSortedInterfaces (fst (selected e))) st" "total_up st = up" "total_down st = down" "0 \<le> up" "0 \<le> down"
  shows "overview_state_ok (joinSortedInterfaces (fst (selected e))) (reset_all e d up down st)"
    "total_up (reset_all e d up down st) = up" "total_down (reset_all e d up down st) = down"
    "PeriodBaseUp (reset_all e d up down st) = up" "PeriodBaseDown (reset_all e d up down st) = down"
    "ManualBaseUp (reset_all e d up down st) = up" "ManualBaseDown (reset_all e d up down st) = down"
proof -
  show t: "total_up (reset_all e d up down st) = up" "total_down (reset_all e d up down st) = down"
    "PeriodBaseUp (reset_all e d up down st) = up" "PeriodBaseDown (reset_all e d up down st) = down"
    "ManualBaseUp (reset_all e d up down st) = up" "ManualBaseDown (reset_all e d up down st) = down"
    using assms by (simp_all add: total_up_def total_down_def reset_all_def)
  show "overview_state_ok (joinSortedInterfaces (fst (selected e))) (reset_all e d up down st)"
    using assms unfolding overview_state_ok_def t by (auto simp: reset_all_def iface_changed_def)
qed

text \<open>
  C34: a full reset starts every count from zero. With a state in order, nothing pending, counters that can be read
  and an inactive cap, a full reset that reports success leaves a state whose totals are those read at the reset and
  whose four bases equal them.
\<close>

theorem reset_starts_from_zero:
  assumes ready: "on_linux e" "get_err io trafficOverviewEnabledKey = None" "enabled_row s" "fst (selected e) \<noteq> []"
      "vnstat_totals e = Inr vnstat" "overview_cfg e = Inr cfg"
    and state: "Loaded (state_cache s)" "\<not> HasPending (state_cache s)"
      "overview_state_ok (joinSortedInterfaces (fst (selected e))) (visible_state s)"
    and r: "readings e vnstat (visible_state s) = Some (up, down, ku, kd)" "up \<le> max_int64" "down \<le> max_int64"
    and cap: "overview_cfg e2 = Inr cfg2" "cfg_limit cfg2 \<le> 0" "\<not> isTrafficOverviewExpired (cfg_expiry cfg2) (unix e2)"
    and run: "ResetAllTrafficOverviewStats io e er e2 n s = (Inr (), s')"
  shows "\<exists>st. loadRuntimeState io s' = (Inr st, s') \<and> overview_state_ok (joinSortedInterfaces (fst (selected e))) st
     \<and> (total_up st, total_down st) = (up, down) \<and> (PeriodBaseUp st, PeriodBaseDown st) = (up, down)
     \<and> (ManualBaseUp st, ManualBaseDown st) = (up, down)"
proof -
  note m = derive_metered(2-7) [OF state(3) r]
  let ?m = "metered_state up down ku kd (visible_state s)"
  let ?new = "reset_all e (cfg_reset_day cfg) up down ?m"
  have "finish_reset io e er e2 n ?new (reset_snapshot e ''vnstat+kernel'' 0 0 0 0) s = (Inr (), s')"
    using run ready by (simp add: ResetAllTrafficOverviewStats_def guarded_reset_def isOverviewEnabled_def load_loaded [OF state(1)]
        settle_bases_metered [OF state(3) r])
  from finish_reset_state [OF this state(1) cap] have l: "Loaded (state_cache s')"
    and v: "visible_state s' = normalizeTrafficOverviewRuntimeState ?new" using state(2) by simp_all
  have "0 \<le> up" "0 \<le> down" using m(3-6) by simp_all
  note new = reset_all_fields [OF metered_ok [OF state(3) m] metered_totals this, of "cfg_reset_day cfg"]
  show ?thesis using load_loaded [OF l, of io] new normalize_fields [OF new(1)] unfolding v by simp
qed

section \<open>Pausing and resuming\<close>

lemma apply_period_keeps:
  assumes "overview_state_ok joined st" "total_up st = up" "total_down st = down"
    and p: "applyPeriodResetIfNeeded loc now st d up down = (pc, st')"
  shows "overview_state_ok joined st'" "total_up st' = up" "total_down st' = down"
    "ManualBaseUp st' = ManualBaseUp st" "ManualBaseDown st' = ManualBaseDown st" "\<not> pc \<longrightarrow> st' = st"
proof -
  have b: "0 \<le> up" "0 \<le> down" using assms(1-3) by (auto simp: overview_state_ok_def)
  have i: "Interface st' = Interface st" "KernelOffsetUp st' = KernelOffsetUp st" "KernelOffsetDown st' = KernelOffsetDown st"
      "LastKernelUp st' = LastKernelUp st" "LastKernelDown st' = LastKernelDown st"
      "ManualBaseUp st' = ManualBaseUp st" "ManualBaseDown st' = ManualBaseDown st"
    using p by (auto simp: applyPeriodResetIfNeeded_def Let_def split: if_splits)
  have "PeriodBaseUp st' \<in> {PeriodBaseUp st, up}" "PeriodBaseDown st' \<in> {PeriodBaseDown st, down}"
    using p b by (auto simp: applyPeriodResetIfNeeded_def maxInt64_max Let_def split: if_splits)
  moreover show t: "total_up st' = up" "total_down st' = down" "ManualBaseUp st' = ManualBaseUp st" "ManualBaseDown st' = ManualBaseDown st"
    using assms(2,3) i by (simp_all add: total_up_def total_down_def)
  ultimately show "overview_state_ok joined st'" using assms(1-3) b i(1-5) unfolding overview_state_ok_def t by (auto simp: iface_changed_def)
  show "\<not> pc \<longrightarrow> st' = st" using p by (auto simp: applyPeriodResetIfNeeded_def Let_def split: if_splits)
qed

text \<open>What is saved is what is shown, unless another state is still pending afterwards.\<close>

lemma save_settled:
  assumes "saveRuntimeState io clk st s = (Inr (), s')" "Loaded (state_cache s)"
  shows "visible_state s' = (if HasPending (state_cache s') then visible_state s else normalizeTrafficOverviewRuntimeState st)"
  using assms by (auto simp: saveRuntimeState_def visible_state_def cached_value_def Let_def split: option.splits)

lemma save_pause_state: "state_cache (snd (savePauseState io ps s)) = state_cache s" "state_cache (snd (clearPauseState io s)) = state_cache s"
  by (simp_all add: savePauseState_def clearPauseState_def split: option.splits)

definition paused_state :: "overview_env \<Rightarrow> int \<times> int \<Rightarrow> int \<Rightarrow> int \<Rightarrow> string \<Rightarrow> trafficOverviewRuntimeState \<Rightarrow> trafficOverviewPauseState" where
  "paused_state e vnstat up down source st =
     \<lparr>Paused = True, ps_Interface = str_join '', '' (fst (selected e)), CurrentUp = up, CurrentDown = down,
      ps_PeriodBaseUp = PeriodBaseUp st, ps_PeriodBaseDown = PeriodBaseDown st,
      ps_ManualBaseUp = ManualBaseUp st, ps_ManualBaseDown = ManualBaseDown st,
      LastVnstatUp = fst vnstat, LastVnstatDown = snd vnstat, Snapshot = usage_snapshot e source up down st, PausedAt = unix e\<rparr>"

lemma pause_measured_effect:
  assumes state: "Loaded (state_cache s)"
    and settle: "settle_totals e d vnstat (visible_state s) = (up, down, src, changed, pc, st)" "\<not> changed \<Longrightarrow> st = visible_state s"
    and run: "pause_measured io e d vnstat s = (Inr (), s')"
  shows "Loaded (state_cache s')"
    "if HasPending (state_cache s') then visible_state s' = visible_state s else visible_state s' \<in> {st, normalizeTrafficOverviewRuntimeState st}"
    "pause_row s' = Stored (clean_pause (paused_state e vnstat up down src st))"
proof -
  obtain r s2 where s2: "(if changed then saveRuntimeState io (clock e) st s else (Inr (), s)) = (r, s2)" by fastforce
  have c2: "Loaded (state_cache s2) \<and> (r = Inr () \<longrightarrow> (if HasPending (state_cache s2) then visible_state s2 = visible_state s
      else visible_state s2 \<in> {st, normalizeTrafficOverviewRuntimeState st}))"
    using s2 state settle(2) save_state_view(1) [of io "clock e" st s r s2] save_settled [of io "clock e" st s s2]
    by (cases changed) auto
  obtain r3 s3 where s3: "stageOverviewSnapshot io (clock e) (usage_snapshot e src up down st) True s2 = (r3, s3)" by fastforce
  have c3: "state_cache s3 = state_cache s2" using stage_snapshot_state s3 by (metis snd_conv)
  have eq: "(case r of Inl err \<Rightarrow> (Inl err, s2) | Inr _ \<Rightarrow>
      (case r3 of Inl err \<Rightarrow> (Inl err, s3) | Inr _ \<Rightarrow> savePauseState io (paused_state e vnstat up down src st) s3)) = (Inr (), s')"
    using run unfolding pause_measured_def load_loaded [OF state] settle(1) paused_state_def prod.case sum.case s2 s3 Let_def
    by (auto split: sum.splits)
  have ok: "r = Inr ()" "savePauseState io (paused_state e vnstat up down src st) s3 = (Inr (), s')"
    using eq by (auto split: sum.splits)
  have "state_cache s' = state_cache s2" using c3 save_pause_state(1) ok(2) by (metis snd_conv)
  then show "Loaded (state_cache s')"
    "if HasPending (state_cache s') then visible_state s' = visible_state s else visible_state s' \<in> {st, normalizeTrafficOverviewRuntimeState st}"
    using c2 ok(1) by (simp, auto simp: visible_state_def split: if_splits)
  show "pause_row s' = Stored (clean_pause (paused_state e vnstat up down src st))"
    using ok(2) by (auto simp: savePauseState_def split: option.splits)
qed

lemma resume_measured_effect:
  assumes state: "Loaded (state_cache s)"
    and derive: "deriveCurrentAlltimeTotals (io_counters e) (visible_state s) (fst (selected e)) (fst vnstat) (snd vnstat) = (up, down, src, c, st)"
    and run: "resume_measured io e d vnstat ps s = (Inr (), s')"
  shows "Loaded (state_cache s')"
    "visible_state s' = (if HasPending (state_cache s) then visible_state s else normalizeTrafficOverviewRuntimeState (resume_state e d ps up down st))"
proof -
  obtain r s2 where s2: "saveRuntimeState io (clock e) (resume_state e d ps up down st) s = (r, s2)" by fastforce
  obtain r3 s3 where s3: "clearPauseState io s2 = (r3, s3)" by fastforce
  have eq: "(case r of Inl err \<Rightarrow> (Inl err, s2) | Inr _ \<Rightarrow>
      (case r3 of Inl err \<Rightarrow> (Inl err, s3) | Inr _ \<Rightarrow> stageOverviewSnapshot io (clock e) (Snapshot ps) True s3)) = (Inr (), s')"
    using run unfolding resume_measured_def load_loaded [OF state] derive prod.case sum.case s2 s3
    by (auto split: sum.splits)
  have ok: "r = Inr ()" "stageOverviewSnapshot io (clock e) (Snapshot ps) True s3 = (Inr (), s')" using eq by (auto split: sum.splits)
  have "state_cache s' = state_cache s3" using stage_snapshot_state ok(2) by (metis snd_conv)
  moreover have "state_cache s3 = state_cache s2" using save_pause_state(2) s3 by (metis snd_conv)
  ultimately show "Loaded (state_cache s')"
    "visible_state s' = (if HasPending (state_cache s) then visible_state s else normalizeTrafficOverviewRuntimeState (resume_state e d ps up down st))"
    using save_state_view [OF s2 state] ok(1) by (simp_all add: visible_state_def)
qed

text \<open>The snapshot of a paused overview is what the overview showed.\<close>

lemma paused_usage:
  assumes "overview_state_ok joined st" "total_up st = up" "total_down st = down" "up \<le> max_int64" "down \<le> max_int64"
    and "ps = clean_pause (clean_pause (paused_state e vnstat up down src st))"
  shows "sn_Up (Snapshot ps) = up - PeriodBaseUp st" "sn_Down (Snapshot ps) = down - PeriodBaseDown st"
    "sn_AccumUp (Snapshot ps) = up - ManualBaseUp st" "sn_AccumDown (Snapshot ps) = down - ManualBaseDown st"
proof -
  have b: "PeriodBaseUp st \<le> up" "PeriodBaseDown st \<le> down" "ManualBaseUp st \<le> up" "ManualBaseDown st \<le> down"
    using assms(1-3) by (auto simp: overview_state_ok_def)
  show "sn_Up (Snapshot ps) = up - PeriodBaseUp st" "sn_Down (Snapshot ps) = down - PeriodBaseDown st"
    "sn_AccumUp (Snapshot ps) = up - ManualBaseUp st" "sn_AccumDown (Snapshot ps) = down - ManualBaseDown st"
    using usage_fields [OF assms(1-5), of e src] b
    by (simp_all add: assms(6) clean_pause_def paused_state_def normalizeOverviewSnapshot_def)
qed

lemma resume_state_fields:
  assumes ok: "overview_state_ok (joinSortedInterfaces (fst (selected e))) st" "total_up st = up" "total_down st = down" "up \<le> max_int64" "down \<le> max_int64"
    and b: "0 \<le> sn_Up (Snapshot ps)" "sn_Up (Snapshot ps) \<le> up" "0 \<le> sn_Down (Snapshot ps)" "sn_Down (Snapshot ps) \<le> down"
      "0 \<le> sn_AccumUp (Snapshot ps)" "sn_AccumUp (Snapshot ps) \<le> up" "0 \<le> sn_AccumDown (Snapshot ps)" "sn_AccumDown (Snapshot ps) \<le> down"
    and R: "R = resume_state e d ps up down st"
  shows "overview_state_ok (joinSortedInterfaces (fst (selected e))) R" "total_up R = up" "total_down R = down"
    "up - PeriodBaseUp R = sn_Up (Snapshot ps)" "down - PeriodBaseDown R = sn_Down (Snapshot ps)"
    "up - ManualBaseUp R = sn_AccumUp (Snapshot ps)" "down - ManualBaseDown R = sn_AccumDown (Snapshot ps)"
proof -
  have d: "nonNegativeDiff up x = up - x" if "0 \<le> x" "x \<le> up" for x using that ok(4) nonNegativeDiff_eq [of up x] by simp
  have d': "nonNegativeDiff down x = down - x" if "0 \<le> x" "x \<le> down" for x using that ok(5) nonNegativeDiff_eq [of down x] by simp
  have base: "PeriodBaseUp R = up - sn_Up (Snapshot ps)" "PeriodBaseDown R = down - sn_Down (Snapshot ps)"
    "ManualBaseUp R = up - sn_AccumUp (Snapshot ps)" "ManualBaseDown R = down - sn_AccumDown (Snapshot ps)"
    using d [OF b(1,2)] d' [OF b(3,4)] d [OF b(5,6)] d' [OF b(7,8)] by (simp_all add: R resume_state_def)
  show t: "total_up R = up" "total_down R = down" using ok(2,3) by (simp_all add: R resume_state_def total_up_def total_down_def)
  show "up - PeriodBaseUp R = sn_Up (Snapshot ps)" "down - PeriodBaseDown R = sn_Down (Snapshot ps)"
    "up - ManualBaseUp R = sn_AccumUp (Snapshot ps)" "down - ManualBaseDown R = sn_AccumDown (Snapshot ps)" using base by simp_all
  have "Interface R = Interface st" "KernelOffsetUp R = KernelOffsetUp st" "KernelOffsetDown R = KernelOffsetDown st"
    "LastKernelUp R = LastKernelUp st" "LastKernelDown R = LastKernelDown st"
    using ok(1) by (auto simp: R resume_state_def overview_state_ok_def iface_changed_def)
  then show "overview_state_ok (joinSortedInterfaces (fst (selected e))) R"
    using ok(1) b base unfolding overview_state_ok_def t iface_changed_def by auto
qed

lemma computePeriodTag_normalize: "computePeriodTag (normalizeResetDay d) loc now = computePeriodTag d loc now"
  by (simp add: computePeriodTag_def latestClientMonthlyResetBoundary_def normalizeResetDay_def normalizeClientResetDay_def)

lemma apply_current_period:
  assumes "PeriodTag st = computePeriodTag d loc now" "PeriodResetDay st = normalizeResetDay d"
    "applyPeriodResetIfNeeded loc now st d up down = (pc, st')"
  shows "PeriodBaseUp st' = PeriodBaseUp st" "PeriodBaseDown st' = PeriodBaseDown st"
  using assms by (auto simp: applyPeriodResetIfNeeded_def computePeriodTag_normalize Let_def split: if_splits)

lemma readings_again:
  assumes "readings e vnstat st0 = Some (up, down, ku, kd)" "LastKernelUp st = ku" "LastKernelDown st = kd" "total_up st = up" "total_down st = down"
  shows "readings e vnstat st = Some (up, down, ku, kd)"
proof -
  have k: "loadKernelTrafficTotals (io_counters e) (fst (selected e)) = Some (ku, kd)"
    and up: "up = meter (total_up st0) (LastKernelUp st0) (max (fst vnstat) 0) ku"
    and down: "down = meter (total_down st0) (LastKernelDown st0) (max (snd vnstat) 0) kd"
    using assms(1) by (auto simp: readings_def split: option.splits)
  have "max (fst vnstat) 0 \<le> up" "max (snd vnstat) 0 \<le> down" unfolding up down by (rule meter_bounds)+
  then have "meter up ku (max (fst vnstat) 0) ku = up" "meter down kd (max (snd vnstat) 0) kd = down"
    by (simp_all add: meter_def growth_def)
  then show ?thesis by (simp add: readings_def k assms(2-5))
qed

text \<open>The overview of a state in order whose period is current shows totals less bases.\<close>

lemma overview_in_period:
  assumes state: "Loaded (state_cache s)" "overview_state_ok (joinSortedInterfaces (fst (selected e))) (visible_state s)"
    and r: "readings e vnstat (visible_state s) = Some (up, down, ku, kd)" "up \<le> max_int64" "down \<le> max_int64"
    and p: "applyPeriodResetIfNeeded (panel_loc e) (unix e) (metered_state up down ku kd (visible_state s)) d up down = (pc, st)"
    and run: "running_overview io e d vnstat ov s = (ov', s')"
  shows "tv_Up ov' = up - PeriodBaseUp st" "tv_Down ov' = down - PeriodBaseDown st"
    "tv_AccumUp ov' = up - ManualBaseUp st" "tv_AccumDown ov' = down - ManualBaseDown st"
proof -
  obtain c where settle: "settle_totals e d vnstat (visible_state s) = (up, down, ''vnstat+kernel'', c \<or> pc, pc, st)"
    and same: "\<not> c \<longrightarrow> metered_state up down ku kd (visible_state s) = visible_state s"
    using settle_metered [OF state(2) r p] by blast
  note mok = metered_ok [OF state(2) derive_metered(2-7) [OF state(2) r]]
  note keep = apply_period_keeps [OF mok metered_totals p]
  have eq: "st = visible_state s" if "\<not> (c \<or> pc)" using that same keep(6) by simp
  show "tv_Up ov' = up - PeriodBaseUp st" "tv_Down ov' = down - PeriodBaseDown st"
    "tv_AccumUp ov' = up - ManualBaseUp st" "tv_AccumDown ov' = down - ManualBaseDown st"
    using running_overview_shows(1-4) [OF load_loaded [OF state(1)] settle eq run] usage_fields [OF keep(1-3) r(2,3)] by simp_all
qed

lemma clean_usage_nonneg:
  "0 \<le> sn_Up (Snapshot (clean_pause ps))" "0 \<le> sn_Down (Snapshot (clean_pause ps))"
  "0 \<le> sn_AccumUp (Snapshot (clean_pause ps))" "0 \<le> sn_AccumDown (Snapshot (clean_pause ps))"
  by (simp_all add: clean_pause_def normalizeOverviewSnapshot_def)

text \<open>What pausing leaves: a state in order with the totals of the pause, and the usage as the snapshot.\<close>

lemma pause_effect:
  assumes state: "Loaded (state_cache s)"
      "overview_state_ok (joinSortedInterfaces (fst (selected e))) (visible_state s)"
    and r: "readings e vn (visible_state s) = Some (up, down, ku, kd)" "up \<le> max_int64" "down \<le> max_int64"
    and io: "get_err io trafficOverviewPauseStateKey = None"
    and pause: "pause_measured io e d vn s = (Inr (), s1)" and run: "running_overview io e d vn ov s = (ov', s')"
  shows "Loaded (state_cache s1)" "HasPending (state_cache s1) \<Longrightarrow> visible_state s1 = visible_state s"
    "\<not> HasPending (state_cache s1) \<Longrightarrow> overview_state_ok (joinSortedInterfaces (fst (selected e))) (visible_state s1)
       \<and> total_up (visible_state s1) = up \<and> total_down (visible_state s1) = down"
    "\<exists>ps. loadPauseState io s1 = Some ps \<and> sn_Up (Snapshot ps) = tv_Up ov' \<and> sn_Down (Snapshot ps) = tv_Down ov'
       \<and> sn_AccumUp (Snapshot ps) = tv_AccumUp ov' \<and> sn_AccumDown (Snapshot ps) = tv_AccumDown ov'
       \<and> 0 \<le> tv_Up ov' \<and> tv_Up ov' \<le> up \<and> 0 \<le> tv_Down ov' \<and> tv_Down ov' \<le> down
       \<and> 0 \<le> tv_AccumUp ov' \<and> tv_AccumUp ov' \<le> up \<and> 0 \<le> tv_AccumDown ov' \<and> tv_AccumDown ov' \<le> down"
proof -
  let ?m = "metered_state up down ku kd (visible_state s)"
  obtain pc st where p: "applyPeriodResetIfNeeded (panel_loc e) (unix e) ?m d up down = (pc, st)" by fastforce
  note keep = apply_period_keeps [OF metered_ok [OF state(2) derive_metered(2-7) [OF state(2) r]] metered_totals p]
  obtain c where settle: "settle_totals e d vn (visible_state s) = (up, down, ''vnstat+kernel'', c \<or> pc, pc, st)"
    and same: "\<not> c \<longrightarrow> ?m = visible_state s" using settle_metered [OF state(2) r p] by blast
  have eq: "st = visible_state s" if "\<not> (c \<or> pc)" using that same keep(6) by simp
  note paused = pause_measured_effect [OF state(1) settle eq pause]
  show "Loaded (state_cache s1)" by (rule paused(1))
  show "visible_state s1 = visible_state s" if "HasPending (state_cache s1)" using paused(2) that by simp
  show "overview_state_ok (joinSortedInterfaces (fst (selected e))) (visible_state s1)
       \<and> total_up (visible_state s1) = up \<and> total_down (visible_state s1) = down" if np: "\<not> HasPending (state_cache s1)"
  proof -
    consider "visible_state s1 = st" | "visible_state s1 = normalizeTrafficOverviewRuntimeState st" using paused(2) np by auto
    then show ?thesis by (cases, use keep(1-3) normalize_fields(1-3) [OF keep(1)] in simp_all)
  qed
  define ps where "ps = clean_pause (clean_pause (paused_state e vn up down ''vnstat+kernel'' st))"
  have l: "loadPauseState io s1 = Some ps"
    using io by (simp add: loadPauseState_def paused(3) ps_def) (simp add: clean_pause_def paused_state_def)
  have b: "0 \<le> PeriodBaseUp st" "PeriodBaseUp st \<le> up" "0 \<le> PeriodBaseDown st" "PeriodBaseDown st \<le> down"
    "0 \<le> ManualBaseUp st" "ManualBaseUp st \<le> up" "0 \<le> ManualBaseDown st" "ManualBaseDown st \<le> down"
    using keep(1-3) by (simp_all add: overview_state_ok_def)
  show "\<exists>ps. loadPauseState io s1 = Some ps \<and> sn_Up (Snapshot ps) = tv_Up ov' \<and> sn_Down (Snapshot ps) = tv_Down ov'
       \<and> sn_AccumUp (Snapshot ps) = tv_AccumUp ov' \<and> sn_AccumDown (Snapshot ps) = tv_AccumDown ov'
       \<and> 0 \<le> tv_Up ov' \<and> tv_Up ov' \<le> up \<and> 0 \<le> tv_Down ov' \<and> tv_Down ov' \<le> down
       \<and> 0 \<le> tv_AccumUp ov' \<and> tv_AccumUp ov' \<le> up \<and> 0 \<le> tv_AccumDown ov' \<and> tv_AccumDown ov' \<le> down"
    by (rule exI [of _ ps]) (simp add: l paused_usage [OF keep(1-3) r(2,3) ps_def] overview_in_period [OF state(1,2) r p run] b)
qed

lemma resume_effect:
  assumes state: "Loaded (state_cache s)" "\<not> HasPending (state_cache s)"
      "overview_state_ok (joinSortedInterfaces (fst (selected e))) (visible_state s)"
    and r: "readings e vn (visible_state s) = Some (up, down, ku, kd)" "up \<le> max_int64" "down \<le> max_int64"
    and b: "0 \<le> sn_Up (Snapshot ps)" "sn_Up (Snapshot ps) \<le> up" "0 \<le> sn_Down (Snapshot ps)" "sn_Down (Snapshot ps) \<le> down"
      "0 \<le> sn_AccumUp (Snapshot ps)" "sn_AccumUp (Snapshot ps) \<le> up" "0 \<le> sn_AccumDown (Snapshot ps)" "sn_AccumDown (Snapshot ps) \<le> down"
    and resume: "resume_measured io e d vn ps s = (Inr (), s2)"
    and run: "running_overview io e d vn ov s2 = (ov', s')"
  shows "tv_Up ov' = sn_Up (Snapshot ps)" "tv_Down ov' = sn_Down (Snapshot ps)"
    "tv_AccumUp ov' = sn_AccumUp (Snapshot ps)" "tv_AccumDown ov' = sn_AccumDown (Snapshot ps)"
proof -
  note m = derive_metered [OF state(3) r]
  define R where "R = resume_state e d ps up down (metered_state up down ku kd (visible_state s))"
  obtain c where "deriveCurrentAlltimeTotals (io_counters e) (visible_state s) (fst (selected e)) (fst vn) (snd vn)
      = (up, down, ''vnstat+kernel'', c, metered_state up down ku kd (visible_state s))" using m(1) by blast
  note s2 = resume_measured_effect [OF state(1) this resume, folded R_def, unfolded if_not_P [OF state(2)]]
  note R = resume_state_fields [OF metered_ok [OF state(3) m(2-7)] metered_totals r(2,3) b R_def]
  note RN = normalize_fields [OF R(1), folded s2(2)]
  have k: "LastKernelUp (visible_state s2) = ku" "LastKernelDown (visible_state s2) = kd"
    using m(6,7) by (simp_all add: s2(2) R_def normalizeTrafficOverviewRuntimeState_def resume_state_def metered_state_def)
  have again: "readings e vn (visible_state s2) = Some (up, down, ku, kd)"
    by (rule readings_again [OF r(1) k]) (simp_all only: RN(2,3) R(2,3))
  let ?m = "metered_state up down ku kd (visible_state s2)"
  obtain pc st where p: "applyPeriodResetIfNeeded (panel_loc e) (unix e) ?m d up down = (pc, st)" by fastforce
  have tag: "PeriodTag R = computePeriodTag d (panel_loc e) (unix e)" "PeriodResetDay R = normalizeResetDay d"
    by (simp_all add: R_def resume_state_def)
  have "PeriodTag ?m = computePeriodTag d (panel_loc e) (unix e)" "PeriodResetDay ?m = normalizeResetDay d"
    by (simp_all add: metered_state_def RN(8,9) tag normalizeResetDay_idem)
  note base = apply_current_period [OF this p]
  note keep = apply_period_keeps(4,5) [OF metered_ok [OF RN(1) derive_metered(2-7) [OF RN(1) again r(2,3)]] metered_totals p]
  have "PeriodBaseUp st = PeriodBaseUp R" "PeriodBaseDown st = PeriodBaseDown R" "ManualBaseUp st = ManualBaseUp R" "ManualBaseDown st = ManualBaseDown R"
    by (simp_all add: base keep metered_state_def RN(4-7))
  then show "tv_Up ov' = sn_Up (Snapshot ps)" "tv_Down ov' = sn_Down (Snapshot ps)"
    "tv_AccumUp ov' = sn_AccumUp (Snapshot ps)" "tv_AccumDown ov' = sn_AccumDown (Snapshot ps)"
    using overview_in_period [OF s2(1) RN(1) again r(2,3) p run] R(4-7) by simp_all
qed

text \<open>The overview depends on the state it shows, not on how the state came about.\<close>

lemma unpaused_overview:
  assumes "Loaded (state_cache s)" "Loaded (state_cache s')" "overview_state_ok (joinSortedInterfaces (fst (selected e))) (visible_state s)"
    and "visible_state s' = visible_state s"
    and r: "readings e vn (visible_state s) = Some (up, down, ku, kd)" "up \<le> max_int64" "down \<le> max_int64"
    and "running_overview io e d vn ov s = (ov1, sa)" "running_overview io e d vn ov s' = (ov2, sb)"
  shows "(tv_Up ov2, tv_Down ov2, tv_AccumUp ov2, tv_AccumDown ov2) = (tv_Up ov1, tv_Down ov1, tv_AccumUp ov1, tv_AccumDown ov1)"
proof -
  obtain pc st where p: "applyPeriodResetIfNeeded (panel_loc e) (unix e) (metered_state up down ku kd (visible_state s)) d up down = (pc, st)"
    by fastforce
  from overview_in_period [OF assms(1,3) r p assms(8)] overview_in_period [OF assms(2) _ _ r(2,3) _ assms(9), unfolded assms(4), OF assms(3) r(1) p]
  show ?thesis by simp
qed

text \<open>
  C32: resuming continues where pausing stopped, unless a reading is still pending. With a state in order and the same
  interfaces, whose counters can be read and fit in 64 bits: when no staged state is left pending after the pause, the overview
  after pausing and resuming shows, for both directions and both counts, exactly what it would have shown instead of pausing; what
  was transferred in between is not counted, and a boundary of the reset day in between does not clear the period. When a staged
  state is still pending, which is usual between two flushes, \<open>saveRuntimeState\<close> keeps it: pausing and resuming both report
  success, but the overview then shows what it would show had nobody paused, with the transfer in between.
\<close>

theorem resuming_continues_the_count:
  assumes env: "\<forall>e \<in> {e1, e2}. on_linux e \<and> trusted_manifest e" "fst (selected e1) \<noteq> []" "fst (selected e2) = fst (selected e1)"
      "vnstat_totals e1 = Inr vn1" "vnstat_totals e2 = Inr vn2" "overview_cfg e1 = Inr cfg1" "overview_cfg e2 = Inr cfg2"
      "get_err io trafficOverviewPauseStateKey = None"
    and state: "Loaded (state_cache s)" "overview_state_ok (joinSortedInterfaces (fst (selected e1))) (visible_state s)"
    and r1: "readings e1 vn1 (visible_state s) = Some (up1, down1, ku1, kd1)" "up1 \<le> max_int64" "down1 \<le> max_int64"
    and pause: "pauseTrafficOverviewAccounting io e1 s = (Inr (), s1)"
    and r2: "readings e2 vn2 (visible_state s1) = Some (up2, down2, ku2, kd2)" "up2 \<le> max_int64" "down2 \<le> max_int64"
    and resume: "resumeTrafficOverviewAccounting io e2 s1 = (Inr (), s2)"
    and run1: "running_overview io e1 (cfg_reset_day cfg1) vn1 ov s = (ov1, sa)"
    and run2: "running_overview io e2 (cfg_reset_day cfg2) vn2 ov s2 = (ov2, sb)"
    and run3: "running_overview io e2 (cfg_reset_day cfg2) vn2 ov s = (ov3, sc)"
  shows "(tv_Up ov2, tv_Down ov2, tv_AccumUp ov2, tv_AccumDown ov2) =
     (if HasPending (state_cache s1) then (tv_Up ov3, tv_Down ov3, tv_AccumUp ov3, tv_AccumDown ov3)
      else (tv_Up ov1, tv_Down ov1, tv_AccumUp ov1, tv_AccumDown ov1))"
proof -
  have host: "on_linux e1" "trusted_manifest e1" "on_linux e2" "trusted_manifest e2" "fst (selected e2) \<noteq> []" using env(1-3) by simp_all
  have "pause_measured io e1 (cfg_reset_day cfg1) vn1 s = (Inr (), s1)"
    using pause by (simp add: pauseTrafficOverviewAccounting_def host env(2,4,6))
  note paused = pause_effect [OF state r1 env(8) this run1]
  obtain ps where ps: "loadPauseState io s1 = Some ps"
    and eq: "sn_Up (Snapshot ps) = tv_Up ov1" "sn_Down (Snapshot ps) = tv_Down ov1" "sn_AccumUp (Snapshot ps) = tv_AccumUp ov1" "sn_AccumDown (Snapshot ps) = tv_AccumDown ov1"
    and b: "0 \<le> tv_Up ov1" "tv_Up ov1 \<le> up1" "0 \<le> tv_Down ov1" "tv_Down ov1 \<le> down1"
      "0 \<le> tv_AccumUp ov1" "tv_AccumUp ov1 \<le> up1" "0 \<le> tv_AccumDown ov1" "tv_AccumDown ov1 \<le> down1"
    using paused(4) by blast
  have resumed: "resume_measured io e2 (cfg_reset_day cfg2) vn2 ps s1 = (Inr (), s2)"
    using resume by (simp add: resumeTrafficOverviewAccounting_def ps host env(5,7))
  show ?thesis
  proof (cases "HasPending (state_cache s1)")
    case True
    then have v: "visible_state s1 = visible_state s" by (rule paused(2))
    have ok: "overview_state_ok (joinSortedInterfaces (fst (selected e2))) (visible_state s)" using state(2) env(3) by simp
    have "Loaded (state_cache s2)" "visible_state s2 = visible_state s"
      using resume_measured_effect [OF paused(1) _ resumed] True v by (metis prod_cases5)+
    then show ?thesis using unpaused_overview [OF state(1) _ ok _ r2 [unfolded v] run3 run2] True by simp
  next
    case False
    then have ok: "overview_state_ok (joinSortedInterfaces (fst (selected e2))) (visible_state s1)"
      and tot: "total_up (visible_state s1) = up1" "total_down (visible_state s1) = down1" using paused(3) env(3) by simp_all
    have le: "up1 \<le> up2" "down1 \<le> down2" using derive_metered(2,3) [OF ok r2] tot by simp_all
    have "0 \<le> sn_Up (Snapshot ps)" "sn_Up (Snapshot ps) \<le> up2" "0 \<le> sn_Down (Snapshot ps)" "sn_Down (Snapshot ps) \<le> down2"
      "0 \<le> sn_AccumUp (Snapshot ps)" "sn_AccumUp (Snapshot ps) \<le> up2" "0 \<le> sn_AccumDown (Snapshot ps)" "sn_AccumDown (Snapshot ps) \<le> down2"
      using eq b le by linarith+
    from resume_effect [OF paused(1) False ok r2 this resumed run2] False show ?thesis by (simp only: eq if_False)
  qed
qed

section \<open>An example\<close>

definition sample_cfg :: "int \<Rightarrow> int \<Rightarrow> overview_config" where
  "sample_cfg limit d = \<lparr>cfg_limit = limit, cfg_reset_day = d, cfg_expiry_date = [], cfg_expiry = zero_time, cfg_enabled = True\<rparr>"

definition sample_env :: "int \<Rightarrow> int \<Rightarrow> int \<Rightarrow> int \<Rightarrow> int \<Rightarrow> overview_env" where
  "sample_env limit d sent recv now =
     \<lparr>on_linux = True, nft_supported = True, trusted_manifest = True, vnstat_installed = True, selected = ([''eth0''], ''auto''),
      vnstat_totals = Inr (1000, 2000), io_counters = Inr [(''lo'', 5, 5), (''eth0'', sent, recv)],
      overview_cfg = Inr (sample_cfg limit d),
      panel_loc = fixed_zone ''UTC'' 0, clock = now * 1000000000\<rparr>"

definition sample_nft :: cap_env where
  "sample_nft = \<lparr>delete_err = None, left_behind = (\<lambda>_. False), base_err = None, add_err = (\<lambda>_. None), table_exists = True,
     firewall_ports = [22, 443]\<rparr>"

lemma sample_iface: "joinSortedInterfaces (fst (selected (sample_env l d a b now))) = ''eth0''"
proof -
  have "joinSortedInterfaces [''eth0''] = ''eth0''" by code_simp
  then show ?thesis by (simp add: sample_env_def)
qed

lemma sample_state_ok: "overview_state_ok ''eth0'' (sample_state d tag)"
proof -
  have "trim_space ''eth0'' \<noteq> []" by code_simp
  then show ?thesis by (simp add: overview_state_ok_def sample_state_def total_up_def total_down_def iface_changed_def)
qed

lemma sample_readings:
  "readings (sample_env l d 350 800 now) (1000, 2000) (sample_state d' tag) = Some (1050, 2100, 350, 800)"
proof -
  have "loadKernelTrafficTotals (Inr [(''lo'', 5, 5), (''eth0'', 350, 800)]) [''eth0''] = Some (350, 800)" by code_simp
  then show ?thesis by (simp add: readings_def sample_env_def sample_state_def meter_def growth_def total_up_def total_down_def)
qed

lemma sample_env_simps [simp]: "on_linux (sample_env l d a b now)" "trusted_manifest (sample_env l d a b now)" "fst (selected (sample_env l d a b now)) = [''eth0'']"
  "vnstat_totals (sample_env l d a b now) = Inr (1000, 2000)" "panel_loc (sample_env l d a b now) = fixed_zone ''UTC'' 0"
  "unix (sample_env l d a b now) = now"
  "overview_cfg (sample_env l d a b now) = Inr (sample_cfg l d)" "cfg_limit (sample_cfg l d) = l" "cfg_reset_day (sample_cfg l d) = d"
  "\<not> isTrafficOverviewExpired (cfg_expiry (sample_cfg l d)) now" "get_err ok_io k = None"
  by (simp_all add: sample_env_def sample_cfg_def isTrafficOverviewExpired_def ok_io_def)

theorem period_usage_is_exact_witness:
  "tv_Up (fst (running_overview ok_io (sample_env 0 15 350 800 1709164900) 15 (1000, 2000) (new_overview (sample_env 0 15 350 800 1709164900))
       (sample_sys False (sample_state 15 (computePeriodTag 15 (fixed_zone ''UTC'' 0) 1708000000))))) = 650
   \<and> tv_Up (fst (running_overview ok_io (sample_env 0 15 350 800 1710600000) 15 (1000, 2000) (new_overview (sample_env 0 15 350 800 1710600000))
       (sample_sys False (sample_state 15 (computePeriodTag 15 (fixed_zone ''UTC'' 0) 1708000000))))) = 0"
proof -
  let ?st = "sample_state 15 (computePeriodTag 15 (fixed_zone ''UTC'' 0) 1708000000)"
  have b: "latestClientMonthlyResetBoundary 15 (fixed_zone ''UTC'' 0) 1708000000 = Some 1707955200"
    "\<not> shouldResetClientTrafficMonthly 1708000000 15 (fixed_zone ''UTC'' 0) 1709164900"
    "shouldResetClientTrafficMonthly 1708000000 15 (fixed_zone ''UTC'' 0) 1710600000" by code_simp+
  have f: "PeriodResetDay ?st = 15" "PeriodTag ?st = computePeriodTag 15 (fixed_zone ''UTC'' 0) 1708000000" "PeriodBaseUp ?st = 400"
    by (simp_all add: sample_state_def)
  have l: "loadRuntimeState ok_io (sample_sys False ?st) = (Inr ?st, sample_sys False ?st)" by (simp add: load_loaded)
  have shown: "(tv_Up ov', tv_Down ov') = (if shouldResetClientTrafficMonthly 1708000000 15 (fixed_zone ''UTC'' 0) now then (0, 0)
        else (1050 - PeriodBaseUp ?st, 2100 - PeriodBaseDown ?st))"
    if now: "1708000000 \<le> now" and run: "running_overview ok_io (sample_env 0 15 350 800 now) 15 (1000, 2000) ov (sample_sys False ?st) = (ov', s')"
    for now ov ov' s'
    using period_usage_is_exact [of "sample_env 0 15 350 800 now" 15 1708000000 1707955200 ok_io "sample_sys False ?st" ?st,
        OF _ _ _ _ _ _ l _ f(1) _ sample_readings _ _ run] now b(1) f(2) sample_state_ok fixed.regular_location_axioms
    by (simp add: sample_iface [simplified] max_int64_def)
  show ?thesis
    using shown [OF _ prod.collapse [symmetric], of 1709164900] shown [OF _ prod.collapse [symmetric], of 1710600000] b(2,3) f(3) by simp
qed

theorem pending_state_undoes_reset_witness:
  "\<exists>s'. ResetAllTrafficOverviewStats ok_io (sample_env 0 0 350 800 9) (sample_env 0 0 350 800 9) (sample_env 0 0 350 800 9) sample_nft
         (sample_sys True (sample_state 0 [])) = (Inr (), s')
     \<and> loadRuntimeState ok_io s' = (Inr (sample_state 0 []), s') \<and> PeriodBaseUp (sample_state 0 []) = 400"
proof -
  let ?r = "ResetAllTrafficOverviewStats ok_io (sample_env 0 0 350 800 9) (sample_env 0 0 350 800 9) (sample_env 0 0 350 800 9) sample_nft
      (sample_sys True (sample_state 0 []))"
  have "fst ?r = Inr ()" by code_simp
  then have r: "?r = (Inr (), snd ?r)" by (simp add: prod_eq_iff)
  have "loadRuntimeState ok_io (snd ?r) = (Inr (sample_state 0 []), snd ?r)"
    using pending_state_undoes_reset [where reset = ResetAllTrafficOverviewStats, OF _ _ _ _ _ _ r] by simp
  then show ?thesis using r by (auto simp: sample_state_def)
qed

theorem reset_starts_from_zero_witness:
  "\<exists>s' st. ResetAllTrafficOverviewStats ok_io (sample_env 0 0 350 800 9) (sample_env 0 0 350 800 9) (sample_env 0 0 350 800 9) sample_nft
         (sample_sys False (sample_state 0 [])) = (Inr (), s')
     \<and> loadRuntimeState ok_io s' = (Inr st, s') \<and> PeriodBaseUp st = 1050 \<and> ManualBaseDown st = 2100"
proof -
  let ?r = "ResetAllTrafficOverviewStats ok_io (sample_env 0 0 350 800 9) (sample_env 0 0 350 800 9) (sample_env 0 0 350 800 9) sample_nft
      (sample_sys False (sample_state 0 []))"
  have "fst ?r = Inr ()" by code_simp
  then have r: "?r = (Inr (), snd ?r)" by (simp add: prod_eq_iff)
  have "\<exists>st. loadRuntimeState ok_io (snd ?r) = (Inr st, snd ?r) \<and> overview_state_ok (joinSortedInterfaces (fst (selected (sample_env 0 0 350 800 9)))) st
     \<and> (total_up st, total_down st) = (1050, 2100) \<and> (PeriodBaseUp st, PeriodBaseDown st) = (1050, 2100)
     \<and> (ManualBaseUp st, ManualBaseDown st) = (1050, 2100)"
    by (rule reset_starts_from_zero [where s = "sample_sys False (sample_state 0 [])" and vnstat = "(1000, 2000)" and cfg = "sample_cfg 0 0" and ?cfg2.0 = "sample_cfg 0 0", OF _ _ _ _ _ _ _ _ _ _ _ _ _ _ _ r])
      (simp_all add: sample_readings sample_state_ok sample_iface [simplified] max_int64_def)
  then show ?thesis using r by auto
qed

lemma sample_paused: "readings (sample_env 0 0 450 900 99) (1000, 2000)
    (visible_state (snd (pauseTrafficOverviewAccounting ok_io (sample_env 0 0 350 800 9) (sample_sys False (sample_state 0 []))))) = Some (1150, 2200, 450, 900)"
  by code_simp

theorem resuming_continues_the_count_witness:
  "\<exists>s1 s2. pauseTrafficOverviewAccounting ok_io (sample_env 0 0 350 800 9) (sample_sys False (sample_state 0 [])) = (Inr (), s1)
     \<and> resumeTrafficOverviewAccounting ok_io (sample_env 0 0 450 900 99) s1 = (Inr (), s2)
     \<and> (let ov = fst (running_overview ok_io (sample_env 0 0 450 900 99) 0 (1000, 2000) (new_overview (sample_env 0 0 350 800 9)) s2)
        in (tv_Up ov, tv_Down ov, tv_AccumUp ov, tv_AccumDown ov) = (650, 1600, 950, 1900))"
proof -
  let ?e1 = "sample_env 0 0 350 800 9" and ?e2 = "sample_env 0 0 450 900 99" and ?s = "sample_sys False (sample_state 0 [])"
  let ?p = "pauseTrafficOverviewAccounting ok_io ?e1 ?s"
  let ?q = "resumeTrafficOverviewAccounting ok_io ?e2 (snd ?p)"
  let ?o1 = "running_overview ok_io ?e1 0 (1000, 2000) (new_overview ?e1) ?s"
  let ?o3 = "running_overview ok_io ?e2 0 (1000, 2000) (new_overview ?e1) ?s"
  have "fst ?p = Inr ()" "fst ?q = Inr ()" "\<not> HasPending (state_cache (snd ?p))" by code_simp+
  then obtain s1 s2 where p: "?p = (Inr (), s1)" and q: "resumeTrafficOverviewAccounting ok_io ?e2 s1 = (Inr (), s2)"
    and np: "\<not> HasPending (state_cache s1)"
    by (metis prod.collapse snd_conv)
  have r: "readings ?e2 (1000, 2000) (visible_state s1) = Some (1150, 2200, 450, 900)" using sample_paused p by simp
  have o: "tv_Up (fst ?o1) = 650" "tv_Down (fst ?o1) = 1600" "tv_AccumUp (fst ?o1) = 950" "tv_AccumDown (fst ?o1) = 1900" by code_simp+
  let ?o2 = "running_overview ok_io ?e2 0 (1000, 2000) (new_overview ?e1) s2"
  have "(tv_Up (fst ?o2), tv_Down (fst ?o2), tv_AccumUp (fst ?o2), tv_AccumDown (fst ?o2))
      = (if HasPending (state_cache s1) then (tv_Up (fst ?o3), tv_Down (fst ?o3), tv_AccumUp (fst ?o3), tv_AccumDown (fst ?o3))
         else (tv_Up (fst ?o1), tv_Down (fst ?o1), tv_AccumUp (fst ?o1), tv_AccumDown (fst ?o1)))"
    by (rule resuming_continues_the_count [where ?vn1.0 = "(1000, 2000)" and io = ok_io and s = ?s and ?e1.0 = ?e1 and ?e2.0 = ?e2
          and ?cfg1.0 = "sample_cfg 0 0" and ?cfg2.0 = "sample_cfg 0 0" and ?up1.0 = 1050 and ?down1.0 = 2100 and ?ku1.0 = 350 and ?kd1.0 = 800
          and ov = "new_overview ?e1" and sa = "snd ?o1" and sb = "snd ?o2" and sc = "snd ?o3", OF _ _ _ _ _ _ _ _ _ _ _ _ _ p r _ _ q])
      (simp_all add: sample_readings sample_state_ok sample_iface [simplified] max_int64_def)
  then show ?thesis using p q o np by (auto simp: Let_def)
qed

end
