(* ===== verification/Cap_Guarantees.thy ===== *)
theory Cap_Guarantees
  imports Overview_Guarantees
begin

text \<open>
  The traffic cap: a reconciliation that succeeds enforces the decision, and what a failed one leaves behind.
\<close>

section \<open>Applying rules\<close>

lemma add_rules_result:
  "add_rules n rs s = (r, s') \<Longrightarrow>
     \<exists>k. s' = s\<lparr>cap_rules := cap_rules s @ take k rs\<rparr> \<and> (r = Inr () \<longrightarrow> take k rs = rs)"
proof (induction rs arbitrary: s)
  case Nil
  then show ?case by (auto intro: exI [of _ 0])
next
  case (Cons a rs)
  show ?case
  proof (cases "add_err n a")
    case None
    then have "add_rules n rs (s\<lparr>cap_rules := cap_rules s @ [a]\<rparr>) = (r, s')" using Cons.prems by simp
    from Cons.IH [OF this] obtain k where "s' = s\<lparr>cap_rules := cap_rules s @ a # take k rs\<rparr>" "r = Inr () \<longrightarrow> take k rs = rs" by auto
    then show ?thesis by (intro exI [of _ "Suc k"]) simp
  qed (use Cons.prems in \<open>auto intro: exI [of _ 0]\<close>)
qed

lemma apply_rules_result:
  assumes "applyTrafficCapRules e n ports s = (r, s')"
  shows "\<exists>rules. s' = s\<lparr>cap_rules := rules\<rparr>"
    and "r = Inr () \<Longrightarrow> on_linux e \<Longrightarrow> nft_supported e \<Longrightarrow> table_exists n \<Longrightarrow> cap_rules s' = cap_rule_set (normalizePortList ports)"
proof -
  have "(\<exists>rules. s' = s\<lparr>cap_rules := rules\<rparr>)
      \<and> (r = Inr () \<and> on_linux e \<and> nft_supported e \<and> table_exists n \<longrightarrow> cap_rules s' = cap_rule_set (normalizePortList ports))"
  proof (cases "on_linux e \<and> nft_supported e \<and> normalizePortList ports \<noteq> [] \<and> (table_exists n \<longrightarrow> delete_err n = None) \<and> base_err n = None")
    case True
    then have "add_rules n (cap_rule_set (normalizePortList ports)) (s\<lparr>cap_rules := if table_exists n then [] else cap_rules s\<rparr>) = (r, s')"
      using assms by (auto simp: applyTrafficCapRules_def cleanupTrafficCapRules_def Let_def)
    from add_rules_result [OF this] show ?thesis by auto
  next
    case False
    have s: "\<exists>rules. s = s\<lparr>cap_rules := rules\<rparr>" by (rule exI [of _ "cap_rules s"]) simp
    show ?thesis using assms False s
      by (auto simp: applyTrafficCapRules_def cleanupTrafficCapRules_def Let_def split: if_splits option.splits)
  qed
  then show "\<exists>rules. s' = s\<lparr>cap_rules := rules\<rparr>"
    and "r = Inr () \<Longrightarrow> on_linux e \<Longrightarrow> nft_supported e \<Longrightarrow> table_exists n \<Longrightarrow> cap_rules s' = cap_rule_set (normalizePortList ports)" by blast+
qed

lemma cap_rule_set_complete:
  "on_linux e \<Longrightarrow> nft_supported e \<Longrightarrow> table_exists n \<Longrightarrow> cap_rules s = cap_rule_set ports \<Longrightarrow> hasTrafficCapRules e n s"
  by (simp add: hasTrafficCapRules_def cap_rule_set_def is_drop_in_def is_drop_out_def)

lemma load_after_save:
  assumes "saveCapStateLocked io c s = (Inr (), s')" "loadCapStateLocked io s0 = Inr st0"
  shows "\<exists>st. loadCapStateLocked io s' = Inr st \<and> cs_Active st = cs_Active c \<and> cs_LimitReached st = cs_LimitReached c" "cap_rules s' = cap_rules s"
  using assms by (auto simp: saveCapStateLocked_def loadCapStateLocked_def split: option.splits)

lemma load_cap_cong: "cap_row s = cap_row s0 \<Longrightarrow> loadCapStateLocked io s = loadCapStateLocked io s0"
  unfolding loadCapStateLocked_def by (simp only:)

lemma has_rules_cong: "cap_rules s' = cap_rules s \<Longrightarrow> hasTrafficCapRules e n s' = hasTrafficCapRules e n s"
  by (simp add: hasTrafficCapRules_def)

section \<open>Enforcing and lifting\<close>

lemma enforce_result:
  assumes host: "on_linux e" "nft_supported e" "table_exists n"
    and load: "loadCapStateLocked io s = Inr st" and legacy: "legacy \<longrightarrow> hasTrafficCapRules e n s"
    and run: "enforce_cap io e n ports legacy st s = (Inr (), s')"
  shows "hasTrafficCapRules e n s' \<and> (\<exists>st'. loadCapStateLocked io s' = Inr st' \<and> cs_Active st' \<and> cs_LimitReached st')"
proof -
  let ?has = "legacy \<or> cs_Active st \<and> hasTrafficCapRules e n s"
  let ?need = "\<not> cs_Active st \<or> AllowedPorts st \<noteq> ports \<or> \<not> ?has"
  obtain r s1 where s1: "(if ?need then applyTrafficCapRules e n ports s else (Inr (), s)) = (r, s1)" by fastforce
  have r: "r = Inr ()" using run unfolding enforce_cap_def Let_def s1 by (auto split: sum.splits)
  have row: "cap_row s1 = cap_row s"
    using s1 apply_rules_result(1) [of e n ports s r s1] by (auto split: if_splits)
  have h1: "hasTrafficCapRules e n s1"
  proof (cases ?need)
    case True
    then show ?thesis using s1 r apply_rules_result(2) [of e n ports s r s1] host cap_rule_set_complete [OF host, of s1] by auto
  next
    case False
    then show ?thesis using s1 legacy by auto
  qed
  have fin: "(if cs_Active st = (?need \<or> ?has) \<and> cs_LimitReached st \<and> AllowedPorts st = ports then (Inr (), s1)
      else saveCapStateLocked io (st\<lparr>cs_Active := (?need \<or> ?has), cs_LimitReached := True, AllowedPorts := ports, cs_UpdatedAt := unix e\<rparr>) s1) = (Inr (), s')"
    using run unfolding enforce_cap_def Let_def s1 r by simp
  have a: "?need \<or> ?has" by blast
  show ?thesis
  proof (cases "cs_Active st = (?need \<or> ?has) \<and> cs_LimitReached st \<and> AllowedPorts st = ports")
    case True
    have "s' = s1" using fin unfolding if_P [OF True] by simp
    then show ?thesis using h1 load load_cap_cong [OF row] True a by auto
  next
    case False
    have sv: "saveCapStateLocked io (st\<lparr>cs_Active := (?need \<or> ?has), cs_LimitReached := True, AllowedPorts := ports, cs_UpdatedAt := unix e\<rparr>) s1 = (Inr (), s')"
      using fin unfolding if_not_P [OF False] by simp
    show ?thesis using load_after_save [OF sv load] has_rules_cong [of s' s1 e n] h1 a by auto
  qed
qed

lemma lift_result:
  assumes "on_linux e" "nft_supported e" "table_exists n" and load: "loadCapStateLocked io s = Inr st"
    and run: "lift_cap io e n legacy st s = (Inr (), s')"
  shows "(if cs_Active st \<or> legacy then cap_rules s' = [] else cap_rules s' = cap_rules s)
    \<and> (\<exists>st'. loadCapStateLocked io s' = Inr st' \<and> \<not> cs_Active st' \<and> \<not> cs_LimitReached st')"
proof -
  obtain r s1 where s1: "(if cs_Active st \<or> legacy then cleanupTrafficCapRules e n s else (Inr (), s)) = (r, s1)" by fastforce
  have r: "r = Inr ()" using run unfolding lift_cap_def s1 by (auto split: sum.splits)
  have rules: "cap_rules s1 = (if cs_Active st \<or> legacy then [] else cap_rules s)" and row: "cap_row s1 = cap_row s"
    using s1 r assms(1-3) by (auto simp: cleanupTrafficCapRules_def split: if_splits option.splits)
  have fin: "(if \<not> cs_Active st \<and> \<not> cs_LimitReached st \<and> AllowedPorts st = [] then (Inr (), s1)
      else saveCapStateLocked io (st\<lparr>cs_Active := False, cs_LimitReached := False, AllowedPorts := [], cs_UpdatedAt := unix e\<rparr>) s1) = (Inr (), s')"
    using run unfolding lift_cap_def s1 r by simp
  show ?thesis
  proof (cases "\<not> cs_Active st \<and> \<not> cs_LimitReached st \<and> AllowedPorts st = []")
    case True
    have "s' = s1" using fin unfolding if_P [OF True] by simp
    then show ?thesis using rules load load_cap_cong [OF row] True by auto
  next
    case False
    have "saveCapStateLocked io (st\<lparr>cs_Active := False, cs_LimitReached := False, AllowedPorts := [], cs_UpdatedAt := unix e\<rparr>) s1 = (Inr (), s')"
      using fin unfolding if_not_P [OF False] by simp
    from load_after_save [OF this load] show ?thesis using rules by auto
  qed
qed

section \<open>The decision\<close>

definition over_limit :: "TrafficOverview \<Rightarrow> bool \<Rightarrow> bool" where
  "over_limit ov previous \<longleftrightarrow>
     tv_Expired ov \<or> (if tv_Available ov \<and> trim_space (tv_Error ov) = [] then tv_Limit ov \<le> tv_Total ov else previous)"

lemma reconcile_cases:
  assumes "on_linux e" "nft_supported e" "loadCapStateLocked io s = Inr st" "0 < tv_Limit ov"
  shows "reconcileTrafficCapFromOverview io e n (Some ov) s =
     (let legacy = (\<not> cap_checked s \<and> hasTrafficCapRules e n s); s1 = s\<lparr>cap_checked := True\<rparr>
      in if over_limit ov (cs_LimitReached st) then enforce_cap io e n (resolveTrafficCapAllowedPorts n) legacy st s1
         else lift_cap io e n legacy st s1)"
proof -
  have l: "cap_limit e (Some ov) = (tv_Limit ov, tv_Expired ov)" using assms(4) by (simp add: cap_limit_def)
  have "cap_reached e (Some ov) (cs_LimitReached st) = over_limit ov (cs_LimitReached st)"
    using assms(4) by (auto simp: cap_reached_def l evaluateTrafficOverviewCapReached_def trafficCapUsageBytes_def maxInt64_max over_limit_def)
  then show ?thesis using assms by (simp add: reconcileTrafficCapFromOverview_def l Let_def)
qed

text \<open>
  C25: the cap follows the usage. When a limit is set and a reconciliation reports success, then: if the overview is expired or
  its usage of the period has reached the limit (or, while usage cannot be read, the limit had been reached before),
  all three drop rules are in place and the stored state says so; otherwise the stored state is cleared, and the rules
  are gone if the panel knew of them.
\<close>

theorem cap_follows_the_usage:
  assumes host: "on_linux e" "nft_supported e" "table_exists n" and load: "loadCapStateLocked io s = Inr st" and limit: "0 < tv_Limit ov"
    and run: "reconcileTrafficCapFromOverview io e n (Some ov) s = (Inr (), s')"
  shows "if over_limit ov (cs_LimitReached st)
     then hasTrafficCapRules e n s' \<and> (\<exists>st'. loadCapStateLocked io s' = Inr st' \<and> cs_Active st' \<and> cs_LimitReached st')
     else (cs_Active st \<or> \<not> cap_checked s \<and> hasTrafficCapRules e n s \<longrightarrow> cap_rules s' = [])
       \<and> (\<exists>st'. loadCapStateLocked io s' = Inr st' \<and> \<not> cs_Active st' \<and> \<not> cs_LimitReached st')"
proof -
  let ?legacy = "\<not> cap_checked s \<and> hasTrafficCapRules e n s" and ?s = "s\<lparr>cap_checked := True\<rparr>"
  have l: "loadCapStateLocked io ?s = Inr st" using load load_cap_cong [of ?s s io] by simp
  have h: "?legacy \<longrightarrow> hasTrafficCapRules e n ?s" using has_rules_cong [of ?s s e n] by simp
  show ?thesis
  proof (cases "over_limit ov (cs_LimitReached st)")
    case True
    then have "enforce_cap io e n (resolveTrafficCapAllowedPorts n) ?legacy st ?s = (Inr (), s')"
      using run reconcile_cases [OF host(1,2) load limit, of n] by (simp add: Let_def)
    from enforce_result [OF host l h this] show ?thesis using True by simp
  next
    case False
    then have "lift_cap io e n ?legacy st ?s = (Inr (), s')"
      using run reconcile_cases [OF host(1,2) load limit, of n] by (simp add: Let_def)
    from lift_result [OF host(1,2,3) l this] show ?thesis using False by (auto split: if_splits)
  qed
qed

lemma sample_cap_load: "loadCapStateLocked ok_io (sample_sys False (sample_state 0 [])) = Inr zero_cap"
  by (simp add: loadCapStateLocked_def sample_sys_def)

definition sample_overview :: "int \<Rightarrow> TrafficOverview" where
  "sample_overview used = (new_overview (sample_env 1000 0 350 800 9))\<lparr>tv_Limit := 1000, tv_Total := used, tv_Available := True\<rparr>"

lemma sample_over_limit: "over_limit (sample_overview used) previous \<longleftrightarrow> 1000 \<le> used" "0 < tv_Limit (sample_overview used)"
  by (simp_all add: over_limit_def sample_overview_def new_overview_def)

theorem cap_follows_the_usage_witness:
  "\<exists>s'. reconcileTrafficCapFromOverview ok_io (sample_env 1000 0 350 800 9) sample_nft (Some (sample_overview 1200)) (sample_sys False (sample_state 0 []))
         = (Inr (), s') \<and> hasTrafficCapRules (sample_env 1000 0 350 800 9) sample_nft s'"
proof -
  let ?e = "sample_env 1000 0 350 800 9"
  let ?r = "reconcileTrafficCapFromOverview ok_io ?e sample_nft (Some (sample_overview 1200)) (sample_sys False (sample_state 0 []))"
  have "fst ?r = Inr ()" by code_simp
  then have r: "?r = (Inr (), snd ?r)" by (simp add: prod_eq_iff)
  have "nft_supported ?e" "table_exists sample_nft" by (simp_all add: sample_env_def sample_nft_def)
  from cap_follows_the_usage [OF sample_env_simps(1) this sample_cap_load sample_over_limit(2) r] r
  show ?thesis by (auto simp: sample_over_limit)
qed

section \<open>A cap that is applied in part\<close>

lemma lift_unknown: "\<not> cs_Active st \<Longrightarrow> cap_rules (snd (lift_cap io e n False st s)) = cap_rules s"
  by (auto simp: lift_cap_def saveCapStateLocked_def split: option.splits)

lemma partial_apply:
  assumes "on_linux e" "nft_supported e" "normalizePortList ports \<noteq> []" "delete_err n = None" "base_err n = None"
    and "\<forall>rule. add_err n rule = (if rule = Drop_Forward then Some err else None)"
  shows "applyTrafficCapRules e n ports s = (Inl err, s\<lparr>cap_rules := (if table_exists n then [] else cap_rules s) @
     [Loopback_In, Loopback_Out, Drop_In (normalizePortList ports), Drop_Out (normalizePortList ports)]\<rparr>)"
  using assms by (simp add: applyTrafficCapRules_def cleanupTrafficCapRules_def cap_rule_set_def Let_def)

text \<open>
  C40: a cap that was applied in part is never lifted. The limit is reached and nft refuses the last of the five
  rules: the reconciliation fails, the drop rules for input and output stay, and the stored state does not know of them. When
  the usage is below the limit again, a later reconciliation does not remove them: the code looks for rules only when
  its state says they are active or when all three drop rules are there.
\<close>

theorem partial_cap_is_not_lifted:
  assumes host: "on_linux e" "nft_supported e" "on_linux e2" "nft_supported e2"
    and load: "loadCapStateLocked io s = Inr st" "\<not> cs_Active st" "\<not> hasTrafficCapRules e n s"
    and over: "0 < tv_Limit ov" "over_limit ov (cs_LimitReached st)"
    and ports: "ports = normalizePortList (resolveTrafficCapAllowedPorts n)" "ports \<noteq> []"
    and nft: "delete_err n = None" "base_err n = None" "\<forall>rule. add_err n rule = (if rule = Drop_Forward then Some err else None)"
    and under: "0 < tv_Limit ov2" "\<not> over_limit ov2 (cs_LimitReached st)"
  shows "\<exists>s1. reconcileTrafficCapFromOverview io e n (Some ov) s = (Inl err, s1)
     \<and> (\<forall>n2. {Drop_In ports, Drop_Out ports} \<subseteq> set (cap_rules (snd (reconcileTrafficCapFromOverview io e2 n2 (Some ov2) s1))))"
proof -
  let ?rules = "(if table_exists n then [] else cap_rules s) @ [Loopback_In, Loopback_Out, Drop_In ports, Drop_Out ports]"
  let ?s1 = "s\<lparr>cap_checked := True, cap_rules := ?rules\<rparr>"
  have r1: "reconcileTrafficCapFromOverview io e n (Some ov) s = (Inl err, ?s1)"
    using reconcile_cases [OF host(1,2) load(1) over(1), of n] over(2) load(2,3) partial_apply [OF host(1,2) ports(2) [unfolded ports(1)] nft]
    by (simp add: Let_def enforce_cap_def ports(1))
  have l: "loadCapStateLocked io ?s1 = Inr st" using load(1) load_cap_cong [of ?s1 s io] by simp
  have "{Drop_In ports, Drop_Out ports} \<subseteq> set (cap_rules (snd (reconcileTrafficCapFromOverview io e2 n2 (Some ov2) ?s1)))" for n2
    using reconcile_cases [OF host(3,4) l under(1), of n2] under(2) lift_unknown [OF load(2), of io e2 n2] by (simp add: Let_def)
  then show ?thesis using r1 by blast
qed

definition refusing_nft :: cap_env where
  "refusing_nft = sample_nft\<lparr>add_err := (\<lambda>rule. if rule = Drop_Forward then Some ''nft: no such chain'' else None)\<rparr>"

theorem partial_cap_is_not_lifted_witness:
  "\<exists>s1. reconcileTrafficCapFromOverview ok_io (sample_env 1000 0 350 800 9) refusing_nft (Some (sample_overview 1200)) (sample_sys False (sample_state 0 []))
         = (Inl ''nft: no such chain'', s1)
     \<and> Drop_In [22, 443] \<in> set (cap_rules (snd (reconcileTrafficCapFromOverview ok_io (sample_env 1000 0 350 800 99) sample_nft (Some (sample_overview 10)) s1)))"
proof -
  have p: "[22, 443] = normalizePortList (resolveTrafficCapAllowedPorts refusing_nft)" by code_simp
  have n: "nft_supported (sample_env 1000 0 350 800 t)" for t by (simp add: sample_env_def)
  have h: "\<not> hasTrafficCapRules (sample_env 1000 0 350 800 9) refusing_nft (sample_sys False (sample_state 0 []))" "\<not> cs_Active zero_cap"
    by (simp_all add: hasTrafficCapRules_def sample_sys_def zero_cap_def)
  have r: "delete_err refusing_nft = None" "base_err refusing_nft = None"
    "\<forall>rule. add_err refusing_nft rule = (if rule = Drop_Forward then Some ''nft: no such chain'' else None)"
    by (simp_all add: refusing_nft_def sample_nft_def)
  show ?thesis
    using partial_cap_is_not_lifted [OF sample_env_simps(1) n sample_env_simps(1) n sample_cap_load h(2,1) sample_over_limit(2) _ p _ r sample_over_limit(2), of 1200 10 99]
    by (auto simp: sample_over_limit)
qed

section \<open>The time of the overview\<close>

text \<open>
  Once a snapshot is cached, a running overview keeps its time stamp: the time of the cached snapshot replaces the present
  one, and the next snapshot is staged with it.
\<close>

lemma overview_time_is_frozen:
  assumes "overview_cfg e = Inr cfg" "cfg_enabled cfg" "loadPauseState io s = None"
    and c: "Loaded (snapshot_cache s)" "HasPending (snapshot_cache s)" "0 < sn_UpdatedAt (Pending (snapshot_cache s))"
  shows "tv_UpdatedAt (fst (getTrafficOverviewUncached io er e s)) = sn_UpdatedAt (Pending (snapshot_cache s))"
  using assms
  by (auto simp: getTrafficOverviewUncached_def getSnapshotForDisplay_def loadSnapshotCacheLocked_def Let_def measured_overview_def
      running_overview_def unavailable_def applySnapshotToOverview_def normalizeOverviewSnapshot_def maxInt64_max
      split: sum.splits prod.splits option.splits)

end
