(* ===== verification/Spec2Isabelle.thy ===== *)
theory Spec2Isabelle
  imports Port_Forward_Service Binding_Charges Traffic_History Traffic_Report Login_Guarantees Response_Guarantees Lifecycle_Guarantees Uninstall_Guarantees Task_Guarantees Task_Copy Cap_Guarantees
begin

text \<open>
  \<^bold>\<open>Subject.\<close> kwor is a server panel that runs two proxy cores (sing-box and mihomo), counts the traffic of
  their users with nftables counters, enforces quotas and expiry dates, forwards ports and keeps a traffic
  history, all on one SQLite database. This development models the parts of the Go program that keep state of their own
  and decide: about ports, quotas and bytes, about who is logged in, how responses are coded, and which background
  operations may run, and proves them correct. Everything else (see \<^bold>\<open>Not modelled\<close>) is input and output,
  rendering of third-party formats or vendored code.

  \<^bold>\<open>How the parts interact.\<close> A sampler calls the collectors every few seconds. A collector reads the nft
  counters, moves its cursor rows, charges the clients bound to an inbound, and hands history samples to a
  journal in the same transaction; the journal is flushed to the table \<open>stats\<close>, which history queries read
  together with what is still pending. Scheduled jobs disable depleted clients and reset periods. The forwarding
  service keeps rules, one traffic state per rule and an overview total, samples its own counters before
  every change, and takes a change back when nft refuses the new rule set. The traffic overview of the host joins the totals of
  vnstat with the kernel's counters, and its cap drops traffic once the period is over its limit. Requests to the panel
  pass the login sessions, and their responses a compressing writer. Longer work runs as a managed download task; every task
  and every external program is registered as a lifecycle operation, and removing the panel first reserves the
  removal and then quiesces these operations.

  \<^bold>\<open>Theories and sources\<close> (paths below \<open>src/\<close>).
  \<^item> \<open>Go_Prelude\<close>: what the code uses of Go: 64-bit wrap-around, \<open>strings\<close>, \<open>strconv\<close>, \<open>sort\<close>, \<open>regexp\<close> as
    leftmost searches; the lemmas on lists, digits and trimming that all parts share.
  \<^item> \<open>Port_Ranges\<close>: \<open>service/nftables.go\<close>, \<open>service/port_check.go\<close>, the port-hop normalisers of both cores and
    the overlap summary of \<open>service/port_forward_validation.go\<close>. Ranges denote sets of ports; parsing,
    normalising, printing, excluding and intersecting are exact with respect to these sets. The locale
    \<open>range_source\<close> states what a producer of ranges promises.
  \<^item> \<open>Panel_Calendar\<close>, \<open>Client_Policy\<close>: calendar arithmetic of Go's \<open>time\<close>, \<open>service/client_access_policy.go\<close>, the jobs
    \<open>ResetTrafficBySchedule\<close> and \<open>DepleteClients\<close>. The locale \<open>regular_location\<close> holds for time zones in which
    every midnight exists; fixed offsets are its instance.
  \<^item> \<open>Nft_Text\<close>, \<open>Nft_Counters\<close>: rule comments and the readers of nft listings
    (\<open>service/nftables_rule_comment.go\<close>, \<open>service/nftables.go\<close>).
  \<^item> \<open>Traffic_Accounting\<close>: the collectors of \<open>service/nftables_traffic.go\<close> and \<open>service/mihomo_nftables.go\<close>, with the locales
    \<open>counter_cursor\<close> (a difference of readings) and \<open>traffic_collector\<close> (a round), interpreted for both cores.
    \<open>Binding_Charges\<close>: what a round charges in terms of the baselines of the bindings.
  \<^item> \<open>Traffic_Journal\<close>, \<open>Traffic_Recovery\<close>: \<open>service/traffic_runtime_journal.go\<close> and the upserts of
    \<open>service/stats_storage.go\<close>; histories of rounds, flushes and crashes refine a ledger. \<open>Traffic_History\<close>: the history
    query. \<open>Traffic_Report\<close>: what a round hands to the journal.
  \<^item> \<open>Port_Forward_Rules\<close>, \<open>Port_Forward_Traffic\<close>, \<open>Port_Forward_Ledger\<close>, \<open>Port_Forward_Service\<close>:
    \<open>service/port_forward.go\<close>, \<open>service/port_forward_validation.go\<close>, \<open>service/port_forward_traffic.go\<close>: normalisation and
    the overlap check, the traffic states, what synchronisation and resets promise, and the handlers that save, delete
    and reconcile rules and reset traffic, with the states reachable by them.
  \<^item> \<open>Traffic_Overview\<close>, \<open>Overview_Service\<close>, \<open>Traffic_Cap\<close>: \<open>service/traffic_overview.go\<close>: totals, periods and the cached state;
    snapshots, pausing, resuming and the overview; the cap, the resets and the switch. \<open>Overview_Totals\<close>,
    \<open>Overview_Cache\<close>, \<open>Overview_Guarantees\<close>, \<open>Cap_Guarantees\<close>: their theorems. The locale \<open>write_back\<close> is the interface of a
    cached row, interpreted for both caches.
  \<^item> \<open>Login_Sessions\<close>, \<open>Login_Store\<close>, \<open>Login_Guarantees\<close>: \<open>api/session.go\<close>: the sessions in memory and in the table, every
    operation with the failure of any statement, and runs of these operations.
  \<^item> \<open>Content_Negotiation\<close>, \<open>Compressed_Response\<close>, \<open>Response_Guarantees\<close>: \<open>compression/Compression-algorithm/\<close>: the choice of
    a content coding, the response writer with its pending bytes, and decoding of request and response bodies. The coders
    themselves are arguments.
  \<^item> \<open>Lifecycle_Files\<close>, \<open>Unit_Identity\<close>, \<open>Process_Identity\<close>, \<open>Uninstall_State\<close>, \<open>Lifecycle_Operations\<close>: \<open>service/lifecycle.go\<close> and
    \<open>service/lifecycle_linux.go\<close>: the two JSON files, the identity of an update unit (with the paths of \<open>service/panel_update.go\<close>) and of
    processes from \<open>/proc\<close>, the state of a
    removal, and the operations of the panel as steps. \<open>Lifecycle_Register\<close> (with the locale
    \<open>operation_register\<close>), \<open>Lifecycle_Guarantees\<close>, \<open>Uninstall_Guarantees\<close>: their theorems.
  \<^item> \<open>Download_Tasks\<close>, \<open>Task_Copy\<close>, \<open>Task_Guarantees\<close>: \<open>service/managed_download_task.go\<close>: the task manager, its handles and the
    copy loop.

  \<^bold>\<open>How the code is modelled.\<close> A database table is a list of rows, and a transaction is a function on it that
  either happens or leaves everything as it was; the flags among the arguments say which statements
  and commits succeed, so a theorem for all flags covers every failure. Files are modelled in the same way, with an
  outcome for each read and write. A JSON text that is only read back by the panel is modelled by the value it
  encodes. Primary keys and unique indexes appear as \<open>distinct\<close> where a lemma needs them. The clock, nft, vnstat, the
  host's sockets, processes and kernel settings, and random numbers are arguments. Memory of the process (the pending samples,
  the repair flag, the caches, the sessions, the tasks) is a record of its own, and a crash replaces it by its
  initial value. Go maps are functions or association lists; where the program iterates over a map the result is sorted or
  does not depend on the order. Pointers that are shared (handles of operations and tasks) are positions in a list or
  identifiers. What a mutex protects is one step; concurrent callers are interleavings of such
  steps, and \<open>QuiesceKworManagedOperations\<close>, which waits between its steps, has a program counter. Integers are unbounded with
  an explicit \<open>wrap64\<close> wherever a sum can leave 64 bits, start times of processes are 64-bit words. Loops
  bounded by their data are total functions; the copy loop, whose source need not end, is a
  \<open>partial_function\<close> into \<open>option\<close> with a theorem that it returns. Fuel is not used.

  \<^bold>\<open>What is shown.\<close> Counting: no poll sequence charges more than was transferred, a committed round charges each
  client exactly what the counters of its active bindings show beyond their baselines, while the baselines stand at the
  cursors of their inbounds, a stale round charges nothing, what is charged is what the
  history shows (this theory), a committed sample is counted exactly once whatever crashes or fails, as
  long as no round commits after a start that could not read the journal, and a query shows the ledger. Forwarding: in every state reachable by saves, deletes, reconciliations, resets and restarts, enabled rules do not compete for ports and every
  rule has exactly one traffic state; one synchronisation counts every byte once; a failed change leaves the rules
  alone; a reset touches one rule. Overview: totals refine a meter that never runs backwards, the usage of a period starts
  at its boundary, the cached state is one variable across failures and restarts, resuming continues the count unless a staged state is pending, and the
  cap follows the usage. Policy: reset boundaries bracket the present, the scheduled reset is exact also when statements fail, and the
  SQL of \<open>DepleteClients\<close> agrees with the evaluation in Go while sums stay in 64 bits. Ports and text: exactness with respect to sets of ports, and
  round trips of printing and parsing. Logins: runs refine a book of sessions, and nobody is admitted without a login that is
  still valid, on a trail that follows the answers of every login, refresh and logout. Responses: what the handler wrote is what arrives, in the first coding of the fixed order that
  the client accepts; a stack of codings is undone within the permitted windows, and decoding is bounded. Operations: the register is a map, an operation is granted exactly when
  nothing blocks it, and after quiescing none is left and none is granted; only processes whose identity was
  checked are signalled. Tasks: every interleaving is a run of a board with one current task, a task is applied or
  stopped but not both, and it always makes room for the next.

  \<^bold>\<open>What modelling found\<close> in the code, each a theorem or a lemma: a repair flag that is lost on rollback, a repair of the mihomo
  bindings that is never called, baselines of bindings that do not take part in charging, a handle read out of a
  comment, a port count that wraps around, bytes the overview of forwarding counts twice after a failed reset, a journal
  tail that is overwritten when it cannot be read at the start, history queries for endpoints that miss
  pending bytes, a logout that is lost when its row cannot be deleted, an empty response answered with 406 because the negotiated
  coding is discarded, a nil request that panics on closing, the name \<open>x-gzip\<close> that is refused, a stale failure report
  that renews the grace period of a removal, resets and pauses of the traffic overview that are undone by a pending
  state, rules of a partly applied cap that are never removed, and a time stamp of the overview that does not advance.

  \<^bold>\<open>Not modelled.\<close> The web front end, the HTTP interface and TLS; JSON and YAML documents of inbounds,
  outbounds and subscriptions; the configuration, start and update of the cores; ACME, dynamic DNS and the reverse
  proxy; the firewall and the optimisation of the host; the text of nft scripts and everything that runs
  commands; installing and removing vnstat; the ranges of blocked and limited clients; the control socket, and the removal itself; SQLite, migrations and backups; the archive file and the mirror files
  beside the journal; conversion of limits between bytes and GiB in floating point; messages for the user. They are input and
  output, rendering of third-party formats or vendored code, or, like the client ranges, build nft scripts from parts that are
  modelled.
\<close>

section \<open>Quotas and history agree\<close>

text \<open>
  C5: what a client is charged is what its history shows. When a collection round of either core
  commits and its samples go through the journal in the same transaction, the upload and download
  counters of every client move by exactly the bytes that the books of the journal (table and durable
  tail) gain for that client in the minute of the round, and nothing else of a client changes. Clients are
  told apart by their trimmed names, which are unique.
\<close>

theorem charges_appear_in_history:
  assumes core: "(collect, res) = (collectAndSaveTraffic, ''client'') \<or> (collect, res) = (mihomo_collectAndSaveTraffic, ''mihomo_client'')"
    and rows: "rows_ok (load_states g heal db0)" "\<not> repairNeeded db1" and now: "60 \<le> now"
    and commit: "collect g heal env now True db0 db1 = Committed db' hist tags users changed"
    and cs: "distinct (map Id (clients (tables db1)))" "inj_on (trim_space \<circ> Name) (set (clients (tables db1)))"
      "\<forall>c \<in> set (clients (tables db1)). 0 < Id c"
    and journal: "journal_inv (jdb, j)" "\<forall>xs. 0 < json_size xs" "bytes (tail jdb) + bytes (batch_of now hist) \<le> max_int64"
    and round: "journal_round json_size now True flushes hist (jdb, j) = (jdb', j')"
  shows "clients (tables db') = map (\<lambda>c.
      c\<lparr>Up := Up c + (recorded jdb' (statsBucketStart now now, res, trim_space (Name c), True)
                      - recorded jdb (statsBucketStart now now, res, trim_space (Name c), True)),
        Down := Down c + (recorded jdb' (statsBucketStart now now, res, trim_space (Name c), False)
                          - recorded jdb (statsBucketStart now now, res, trim_space (Name c), False))\<rparr>) (clients (tables db1))"
proof -
  have ok: "\<forall>s \<in> set hist. sample_ok now s"
    using core singbox_report.history_samples_ok [OF rows now] mihomo_report.history_samples_ok [OF rows(1) TrueI now] commit by auto
  have "0 \<le> bytes (tail jdb)" by (rule settled_bytes [OF journal_invD(11) [OF journal(1)]])
  then have batch: "batch_ok now hist" using ok journal(3) by (simp add: batch_ok_def batch_of_def)
  have diff: "recorded jdb' k - recorded jdb k = total (batch_of now hist) k" for k
    using round_recorded [OF journal(1) batch journal(2,3) round, of k] by simp
  show ?thesis
    unfolding diff
    using core singbox_report.charges_are_history [OF rows _ cs] mihomo_report.charges_are_history [OF rows(1) TrueI _ cs] commit by auto
qed

definition example_hist :: "Stats list" where
  "example_hist =
     [\<lparr>st_DateTime = 1700000000, Resource = ''inbound'', st_Tag = ''a'', Direction = True, Traffic = 850\<rparr>,
      \<lparr>st_DateTime = 1700000000, Resource = ''inbound'', st_Tag = ''a'', Direction = False, Traffic = 25\<rparr>,
      \<lparr>st_DateTime = 1700000000, Resource = ''client'', st_Tag = ''ann'', Direction = True, Traffic = 850\<rparr>,
      \<lparr>st_DateTime = 1700000000, Resource = ''client'', st_Tag = ''ann'', Direction = False, Traffic = 25\<rparr>]"

theorem charges_appear_in_history_witness:
  "recorded (fst (journal_round ex_size 1700000000 True True example_hist (opened ''g'' []))) (1699999980, ''client'', ''ann'', True)
     - recorded (fst (opened ''g'' [])) (1699999980, ''client'', ''ann'', True) = 850"
proof -
  obtain jdb j where o: "opened ''g'' [] = (jdb, j)" by fastforce
  obtain jdb' j' where s: "journal_round ex_size 1700000000 True True example_hist (jdb, j) = (jdb', j')" by fastforce
  note inv = opened_inv [OF ex_simps(2), of "[]", unfolded o, simplified]
  have c: "collectAndSaveTraffic example_guard (\<lambda>db. db) example_env 1700000000 True example_db example_db
      = Committed example_committed example_hist {''a''} {''ann''} True"
    using example_round_runs by (simp only: example_round_def example_hist_def)
  have ok: "rows_ok (load_states example_guard (\<lambda>db. db) example_db)" "\<not> repairNeeded example_db"
    "distinct (map Id (clients (tables example_db)))" "\<forall>c \<in> set (clients (tables example_db)). 0 < Id c" by code_simp+
  have cl: "clients (tables example_db) = [example_client]" "clients (tables example_committed) = [example_client\<lparr>Up := 859, Down := 32\<rparr>]"
    "Up example_client = 9" "trim_space (Name example_client) = ''ann''" "statsBucketStart 1700000000 1700000000 = 1699999980"
    by code_simp+
  have inj: "inj_on (trim_space \<circ> Name) (set (clients (tables example_db)))" by (simp add: cl)
  have "bytes (batch_of 1700000000 example_hist) = 1750" by code_simp
  then have b: "bytes (tail jdb) + bytes (batch_of 1700000000 example_hist) \<le> max_int64" using inv(3) by (simp add: int64_defs)
  have "[example_client\<lparr>Up := 859, Down := 32\<rparr>] = [example_client\<lparr>
      Up := 9 + (recorded jdb' (1699999980, ''client'', ''ann'', True) - recorded jdb (1699999980, ''client'', ''ann'', True)),
      Down := Down example_client + (recorded jdb' (1699999980, ''client'', ''ann'', False) - recorded jdb (1699999980, ''client'', ''ann'', False))\<rparr>]"
    using charges_appear_in_history [where collect = collectAndSaveTraffic and res = "''client''", OF _ ok(1,2) _ c ok(3) inj ok(4) inv(1) ex_simps(1) b s]
    by (simp add: cl)
  then have "Up (example_client\<lparr>Up := 859, Down := 32\<rparr>) = 9 + (recorded jdb' (1699999980, ''client'', ''ann'', True) - recorded jdb (1699999980, ''client'', ''ann'', True))"
    by simp
  then show ?thesis by (simp add: o s)
qed

end
